(* ===== verification/SM_Prelude.thy ===== *)
theory SM_Prelude
  imports Main "HOL-Library.Word"
begin

text \<open>
  Vocabulary shared by every component: machine integers, error codes, the C string
  operations the program uses (\<^verbatim>\<open>strlcpy\<close>, \<^verbatim>\<open>strncmp\<close>, \<^verbatim>\<open>strrchr\<close>, \<^verbatim>\<open>strcasecmp\<close>,
  \<^verbatim>\<open>isspace\<close>, bounded \<^verbatim>\<open>snprintf\<close>), the FNV-1a hash of \<^verbatim>\<open>include/sm_hash.h\<close>, the limits of
  \<^verbatim>\<open>include/sm_limits.h\<close>, and the loops ``first slot such that'' and ``number of slots such
  that'' that the fixed-size tables of the program are searched with.

  A C string is the list of its bytes before the terminator, so no modelled string holds
  the NUL byte; \<open>char_at\<close> reads the terminator behind the last byte.
\<close>

unbundle bit_operations_syntax

named_theorems sm_simps \<open>unfolding rules of the small helper operations\<close>
named_theorems inv_intros \<open>preservation facts: each operation keeps its component's invariant\<close>

type_synonym u8 = "8 word"
type_synonym u32 = "32 word"
type_synonym u64 = "64 word"

text \<open>Failures. \<open>E_UNSET\<close> is a failing return that leaves \<^verbatim>\<open>errno\<close> alone.\<close>

datatype errno = E_UNSET | EINVAL | EBUSY | EEXIST | ENOSPC | ENOENT | ENOTDIR | EACCES | EPERM
  | ENAMETOOLONG | ENODEV | ETIMEDOUT | ENOTSUP | ESTALE | EAGAIN | EINPROGRESS | EFBIG | EPROTONOSUPPORT | EIO | ENOMEM | ECANCELED
  | E_OTHER nat

type_synonym 'a res = "errno + 'a"

text \<open>Messages the program shows the user (\<^verbatim>\<open>notify_system_l10n\<close> and its kin); log lines
  are not modelled.\<close>

datatype notice =
    DUPLICATE_IGNORED string string string
  | MISSING_PARAM string
  | GAME_INSTALLED string
  | INSTALL_FAILED_TIMEOUT string string
  | BATCH_INSTALL_QUEUED string
  | BATCH_INSTALL_FAILED int u32

section \<open>Limits (\<^verbatim>\<open>include/sm_limits.h\<close>)\<close>

abbreviation MAX_PATH :: nat where "MAX_PATH \<equiv> 1024"
abbreviation MAX_TITLE_ID :: nat where "MAX_TITLE_ID \<equiv> 32"
abbreviation MAX_TITLE_NAME :: nat where "MAX_TITLE_NAME \<equiv> 256"
abbreviation MAX_PENDING :: nat where "MAX_PENDING \<equiv> 512"
abbreviation MAX_IMAGE_MOUNTS :: nat where "MAX_IMAGE_MOUNTS \<equiv> 2048"
abbreviation MAX_IMAGE_TITLES :: nat where "MAX_IMAGE_TITLES \<equiv> 8192"
abbreviation STATE_HASH_SIZE :: nat where "STATE_HASH_SIZE \<equiv> 1024"
abbreviation UINT8_MAX :: u8 where "UINT8_MAX \<equiv> 255"
abbreviation MAX_FAILED_MOUNT_ATTEMPTS :: u8 where "MAX_FAILED_MOUNT_ATTEMPTS \<equiv> 2"
abbreviation MAX_REGISTER_ATTEMPTS :: u8 where "MAX_REGISTER_ATTEMPTS \<equiv> 2"
abbreviation MAX_MISSING_PARAM_SCAN_ATTEMPTS :: u8 where "MAX_MISSING_PARAM_SCAN_ATTEMPTS \<equiv> 3"
abbreviation MAX_IMAGE_MOUNT_ATTEMPTS :: u8 where "MAX_IMAGE_MOUNT_ATTEMPTS \<equiv> 3"
abbreviation MAX_IMAGE_CHAIN_DEPTH :: nat where "MAX_IMAGE_CHAIN_DEPTH \<equiv> 8"

section \<open>C strings\<close>

definition strlcpy :: "string \<Rightarrow> nat \<Rightarrow> string" where
  "strlcpy src sz = take (sz - 1) src"

definition starts_with :: "string \<Rightarrow> string \<Rightarrow> bool" where
  "starts_with pre s \<longleftrightarrow> take (length pre) s = pre"

definition char_at :: "string \<Rightarrow> nat \<Rightarrow> char" where
  "char_at s i = (if i < length s then s ! i else CHR 0x00)"

definition is_cstr :: "string \<Rightarrow> bool" where
  "is_cstr s \<longleftrightarrow> CHR 0x00 \<notin> set s"

definition after_last :: "char \<Rightarrow> string \<Rightarrow> string" where
  "after_last c s = rev (takeWhile (\<lambda>x. x \<noteq> c) (rev s))"

text \<open>\<^verbatim>\<open>snprintf\<close> into a buffer of \<open>sz\<close> bytes, for the callers that reject truncation.\<close>

definition bounded :: "nat \<Rightarrow> string \<Rightarrow> string option" where
  "bounded sz s = (if length s < sz then Some s else None)"

text \<open>\<^verbatim>\<open>tolower\<close> and \<^verbatim>\<open>isspace\<close> in the C locale.\<close>

definition tolower :: "char \<Rightarrow> char" where
  "tolower c =
     (let n = of_char c :: nat in if 65 \<le> n \<and> n \<le> 90 then char_of (n + 32) else c)"

definition strcaseeq :: "string \<Rightarrow> string \<Rightarrow> bool" where
  "strcaseeq a b \<longleftrightarrow> map tolower a = map tolower b"

definition isspace :: "char \<Rightarrow> bool" where
  "isspace c \<longleftrightarrow> c \<in> {CHR '' '', CHR 0x09, CHR 0x0A, CHR 0x0B, CHR 0x0C, CHR 0x0D}"

fun string_of_nat :: "nat \<Rightarrow> string" where
  "string_of_nat n =
     (if n < 10 then [char_of (48 + n)] else string_of_nat (n div 10) @ [char_of (48 + n mod 10)])"

declare string_of_nat.simps [simp del]

section \<open>Hash (\<^verbatim>\<open>include/sm_hash.h\<close>)\<close>

definition sm_fnv1a32 :: "string \<Rightarrow> u32" where
  "sm_fnv1a32 s = fold (\<lambda>c h. (h XOR of_char c) * 16777619) s 2166136261"

section \<open>Counters\<close>

text \<open>\<^verbatim>\<open>if (c < UINT8_MAX) c++;\<close> on a \<^verbatim>\<open>uint8_t\<close>.\<close>

definition sat_inc :: "u8 \<Rightarrow> u8" where
  "sat_inc c = (if c < UINT8_MAX then c + 1 else c)"

section \<open>Table loops\<close>

fun find_index :: "('a \<Rightarrow> bool) \<Rightarrow> 'a list \<Rightarrow> nat option" where
  "find_index P [] = None"
| "find_index P (x # xs) = (if P x then Some 0 else map_option Suc (find_index P xs))"

definition count_if :: "('a \<Rightarrow> bool) \<Rightarrow> 'a list \<Rightarrow> nat" where
  "count_if P xs = length (filter P xs)"

text \<open>A loop over the slots of a table whose body may crash (\<open>None\<close>).\<close>

fun each_slot :: "(nat \<Rightarrow> 's \<Rightarrow> 's option) \<Rightarrow> nat list \<Rightarrow> 's \<Rightarrow> 's option" where
  "each_slot f [] s = Some s"
| "each_slot f (k # ks) s = (case f k s of None \<Rightarrow> None | Some s' \<Rightarrow> each_slot f ks s')"

section \<open>Lemmas\<close>

lemma each_slot_append: "each_slot f (ks @ ls) s = (case each_slot f ks s of None \<Rightarrow> None | Some s' \<Rightarrow> each_slot f ls s')"
  by (induction ks arbitrary: s) (auto split: option.split)

text \<open>Rule for such loops: an invariant indexed by the number of slots done.\<close>

lemma each_slot_induct:
  assumes "P 0 s" and "\<And>k t. k < n \<Longrightarrow> P k t \<Longrightarrow> \<exists>t'. f k t = Some t' \<and> P (Suc k) t'"
  shows "\<exists>s'. each_slot f [0..<n] s = Some s' \<and> P n s'"
  using assms(2)
proof (induction n)
  case 0
  then show ?case using assms(1) by simp
next
  case (Suc n)
  then obtain s1 where "each_slot f [0..<n] s = Some s1" "P n s1" by (metis less_Suc_eq)
  moreover obtain s2 where "f n s1 = Some s2" "P (Suc n) s2" using Suc.prems calculation(2) by blast
  ultimately show ?case by (auto simp: each_slot_append)
qed

lemma fold_slots_induct:
  assumes "P 0 s" and "\<And>k t. k < n \<Longrightarrow> P k t \<Longrightarrow> P (Suc k) (f k t)"
  shows "P n (fold f [0..<n] s)"
  using assms(2) by (induction n) (simp_all add: assms(1))

text \<open>The table halfway through a loop that rewrites every slot.\<close>

definition mapped_upto :: "nat \<Rightarrow> ('a \<Rightarrow> 'a) \<Rightarrow> 'a list \<Rightarrow> 'a list" where
  "mapped_upto k g xs = map g (take k xs) @ drop k xs"

lemma mapped_upto_0 [simp]: "mapped_upto 0 g xs = xs"
  by (simp add: mapped_upto_def)

lemma mapped_upto_length [simp]: "length (mapped_upto k g xs) = length xs"
  by (simp add: mapped_upto_def)

lemma mapped_upto_all: "length xs = n \<Longrightarrow> mapped_upto n g xs = map g xs"
  by (simp add: mapped_upto_def)

lemma mapped_upto_nth: "k < length xs \<Longrightarrow> mapped_upto k g xs ! k = xs ! k"
  by (simp add: mapped_upto_def nth_append)

lemma mapped_upto_step: "k < length xs \<Longrightarrow> (mapped_upto k g xs)[k := g (xs ! k)] = mapped_upto (Suc k) g xs"
  by (simp add: mapped_upto_def take_Suc_conv_app_nth list_update_append Cons_nth_drop_Suc [symmetric])

lemma mapped_upto_skip: "k < length xs \<Longrightarrow> g (xs ! k) = xs ! k \<Longrightarrow> mapped_upto (Suc k) g xs = mapped_upto k g xs"
  using mapped_upto_step [of k xs g] mapped_upto_nth [of k xs g] list_update_id [of "mapped_upto k g xs" k] by simp

lemma unat_sat_inc: "unat (sat_inc c) = min 255 (Suc (unat c))"
proof (cases "c < UINT8_MAX")
  case True
  then have "Suc (unat c) < 256"
    by (simp add: word_less_nat_alt)
  then show ?thesis
    using True by (simp add: sat_inc_def unat_word_ariths word_less_nat_alt)
next
  case False
  moreover have "unat c < 256"
    using unsigned_less [of c, where 'a = nat] by simp
  ultimately have "unat c = 255"
    by (simp add: word_less_nat_alt)
  then have "c = UINT8_MAX"
    by (simp add: word_unat_eq_iff)
  then show ?thesis
    by (simp add: sat_inc_def)
qed

lemma sat_inc_pos: "0 < sat_inc c"
  by (simp add: word_less_nat_alt unat_sat_inc)

lemma strlcpy_id: "length s < sz \<Longrightarrow> strlcpy s sz = s"
  by (simp add: strlcpy_def)

lemma length_strlcpy: "0 < sz \<Longrightarrow> length (strlcpy s sz) < sz"
  by (auto simp: strlcpy_def)

lemma strlcpy_idem [simp]: "strlcpy (strlcpy s sz) sz = strlcpy s sz"
  by (simp add: strlcpy_def)

lemma starts_with_iff: "starts_with pre s \<longleftrightarrow> (\<exists>rest. s = pre @ rest)"
  unfolding starts_with_def by (metis append_eq_conv_conj append_take_drop_id)

lemma starts_with_refl [simp]: "starts_with s s"
  by (simp add: starts_with_def)

lemma starts_with_append [simp]: "starts_with p (p @ s)"
  by (simp add: starts_with_def)

lemma char_at_append [simp]: "char_at (p @ s) (length p) = char_at s 0"
  by (simp add: char_at_def nth_append)

lemma char_at_end [simp]: "char_at s (length s) = CHR 0x00"
  by (simp add: char_at_def)

lemma char_at_Cons [simp]: "char_at (c # s) 0 = c"
  by (simp add: char_at_def)

lemma char_at_Nil [simp]: "char_at [] i = CHR 0x00"
  by (simp add: char_at_def)

lemma strcaseeq_refl [simp]: "strcaseeq a a"
  by (simp add: strcaseeq_def)

lemma strcaseeq_sym: "strcaseeq a b \<longleftrightarrow> strcaseeq b a"
  by (auto simp: strcaseeq_def)

lemma strcaseeq_trans: "strcaseeq a b \<Longrightarrow> strcaseeq b c \<Longrightarrow> strcaseeq a c"
  by (simp add: strcaseeq_def)

lemma of_char_digit [simp]: "d < 10 \<Longrightarrow> (of_char (char_of (48 + d)) :: nat) = 48 + d"
  by (simp add: of_char_of)

text \<open>Reading a decimal back; different numbers print differently.\<close>

definition nat_of_digits :: "string \<Rightarrow> nat" where
  "nat_of_digits s = fold (\<lambda>c n. 10 * n + (of_char c - 48)) s 0"

lemma nat_of_digits_string_of_nat: "nat_of_digits (string_of_nat n) = n"
proof (induction n rule: string_of_nat.induct)
  case (1 n)
  show ?case
  proof (cases "n < 10")
    case True
    then show ?thesis by (simp add: string_of_nat.simps [of n] nat_of_digits_def)
  next
    case False
    with 1 have "nat_of_digits (string_of_nat (n div 10)) = n div 10" by simp
    then have "nat_of_digits (string_of_nat n) = 10 * (n div 10) + n mod 10"
      using False by (simp add: string_of_nat.simps [of n] nat_of_digits_def)
    then show ?thesis by simp
  qed
qed

lemma string_of_nat_inj: "string_of_nat m = string_of_nat n \<longleftrightarrow> m = n"
  by (metis nat_of_digits_string_of_nat)

lemma length_string_of_nat: "n < 10 ^ k \<Longrightarrow> 0 < k \<Longrightarrow> length (string_of_nat n) \<le> k"
proof (induction k arbitrary: n)
  case 0
  then show ?case by simp
next
  case (Suc k)
  show ?case
  proof (cases "n < 10")
    case True
    then show ?thesis by (simp add: string_of_nat.simps [of n])
  next
    case False
    then have "0 < k" using Suc.prems by (cases k) auto
    moreover have "n div 10 < 10 ^ k" using Suc.prems by (simp add: div_less_iff_less_mult mult.commute)
    ultimately have "length (string_of_nat (n div 10)) \<le> k" by (intro Suc.IH)
    then show ?thesis using False by (simp add: string_of_nat.simps [of n])
  qed
qed

lemma string_of_nat_nonempty: "string_of_nat n \<noteq> []"
  by (subst string_of_nat.simps) simp

lemma find_index_Some:
  "find_index P xs = Some k \<longleftrightarrow> k < length xs \<and> P (xs ! k) \<and> (\<forall>j<k. \<not> P (xs ! j))"
proof (induction xs arbitrary: k)
  case Nil
  then show ?case by simp
next
  case (Cons x xs)
  show ?case
    by (cases k) (auto simp: Cons.IH less_Suc_eq_0_disj)
qed

lemma find_index_SomeD:
  "find_index P xs = Some k \<Longrightarrow> k < length xs"
  "find_index P xs = Some k \<Longrightarrow> P (xs ! k)"
  by (simp_all add: find_index_Some)

lemma find_index_None: "find_index P xs = None \<longleftrightarrow> (\<forall>k<length xs. \<not> P (xs ! k))"
proof (induction xs)
  case Nil
  then show ?case by simp
next
  case (Cons x xs)
  then show ?case by (auto simp: less_Suc_eq_0_disj)
qed

lemma find_index_None_set: "find_index P xs = None \<longleftrightarrow> (\<forall>x\<in>set xs. \<not> P x)"
  by (simp add: find_index_None all_set_conv_all_nth)

lemma find_index_ex: "x \<in> set xs \<Longrightarrow> P x \<Longrightarrow> \<exists>k. find_index P xs = Some k"
  using find_index_None_set [of P xs] by (cases "find_index P xs") auto

lemma count_if_update:
  assumes "k < length xs"
  shows "count_if P (xs[k := x]) + (if P (xs ! k) then 1 else 0)
       = count_if P xs + (if P x then 1 else 0)"
  using assms
proof (induction xs arbitrary: k)
  case Nil
  then show ?case by simp
next
  case (Cons y ys)
  then show ?case
    by (cases k) (auto simp: count_if_def)
qed

lemma count_if_replicate [simp]: "count_if P (replicate n x) = (if P x then n else 0)"
  by (simp add: count_if_def)

lemma count_if_pos: "0 < count_if P xs \<longleftrightarrow> (\<exists>x\<in>set xs. P x)"
  by (auto simp: count_if_def filter_empty_conv)

lemma count_if_zero: "count_if P xs = 0 \<longleftrightarrow> (\<forall>x\<in>set xs. \<not> P x)"
  by (auto simp: count_if_def filter_empty_conv)

lemma count_if_pos_nth: "k < length xs \<Longrightarrow> P (xs ! k) \<Longrightarrow> 0 < count_if P xs"
  by (auto simp: count_if_pos)

lemma count_if_mono: "(\<And>x. x \<in> set xs \<Longrightarrow> P x \<Longrightarrow> Q x) \<Longrightarrow> count_if P xs \<le> count_if Q xs"
  unfolding count_if_def by (induction xs) auto

lemma count_if_le_length: "count_if P xs \<le> length xs"
  by (simp add: count_if_def)

lemma option_eqI: "(\<And>x. a = Some x \<longleftrightarrow> b = Some x) \<Longrightarrow> a = b"
  by (metis option.exhaust)

lemma nth_list_update_cases: "k < length xs \<Longrightarrow> xs[k := x] ! j = (if j = k then x else xs ! j)"
  by simp

text \<open>Pairwise separation of the occupied slots of a table by a key.\<close>

definition keys_distinct :: "('a \<Rightarrow> bool) \<Rightarrow> ('a \<Rightarrow> 'k) \<Rightarrow> 'a list \<Rightarrow> bool" where
  "keys_distinct P f xs \<longleftrightarrow>
     (\<forall>i<length xs. \<forall>j<length xs. P (xs ! i) \<and> P (xs ! j) \<and> f (xs ! i) = f (xs ! j) \<longrightarrow> i = j)"

lemma keys_distinctD:
  "keys_distinct P f xs \<Longrightarrow> i < length xs \<Longrightarrow> j < length xs \<Longrightarrow> P (xs ! i) \<Longrightarrow> P (xs ! j)
   \<Longrightarrow> f (xs ! i) = f (xs ! j) \<Longrightarrow> i = j"
  by (auto simp: keys_distinct_def)

lemma keys_distinct_replicate [simp]: "\<not> P x \<Longrightarrow> keys_distinct P f (replicate n x)"
  by (simp add: keys_distinct_def)

lemma keys_distinct_update:
  assumes "keys_distinct P f xs"
    and "\<And>j. P x \<Longrightarrow> j < length xs \<Longrightarrow> j \<noteq> k \<Longrightarrow> P (xs ! j) \<Longrightarrow> f (xs ! j) \<noteq> f x"
  shows "keys_distinct P f (xs[k := x])"
proof (cases "k < length xs")
  case True
  then show ?thesis
    using assms unfolding keys_distinct_def
    by (auto simp: nth_list_update_cases) metis
next
  case False
  then have "xs[k := x] = xs" by (simp add: list_update_beyond)
  then show ?thesis using assms(1) by simp
qed

lemma keys_distinct_map:
  assumes "keys_distinct P f xs" and "\<And>x. P (g x) \<Longrightarrow> P x \<and> f (g x) = f x"
  shows "keys_distinct P f (map g xs)"
  using assms unfolding keys_distinct_def by (metis length_map nth_map)

end
