(* ===== verification/Path_Utils.thy ===== *)
theory Path_Utils
  imports SM_Prelude
begin

text \<open>
  \<^verbatim>\<open>src/sm_path_utils.c\<close>: textual path predicates and the few that ask the operating
  system. The operating system is the argument \<open>host\<close>: what \<^verbatim>\<open>stat\<close>, \<^verbatim>\<open>lstat\<close> and
  \<^verbatim>\<open>realpath\<close> answer at the moment of the call.

  Where the code tests \<^verbatim>\<open>!p || p[0] == 0\<close> the model has one test, \<open>p = []\<close>: a NULL
  pointer and an empty string take the same branch there.
\<close>

section \<open>The operating system as the program sees it\<close>

datatype file_type = S_REG | S_DIR | S_CHR | S_BLK | S_OTHER

record stat_buf =
  st_mode :: file_type
  st_dev :: u64
  st_ino :: u64
  st_rdev :: u64
  st_size :: int
  st_mtime :: int
  st_mtime_nsec :: int
  st_ctime :: int
  st_ctime_nsec :: int

record host =
  h_stat :: "string \<Rightarrow> stat_buf res"
  h_realpath :: "string \<Rightarrow> string option"

section \<open>Definitions\<close>

definition CONFIG_FILE :: string where "CONFIG_FILE = ''/data/shadowmount/config.ini''"
definition PROFILES_FILE :: string where "PROFILES_FILE = ''/data/shadowmount/profiles.ini''"

definition IMAGE_MOUNT_BASE :: string where
  "IMAGE_MOUNT_BASE = ''/mnt/shadowmnt''"

definition PFSC_IMAGE_MOUNT_BASE :: string where
  "PFSC_IMAGE_MOUNT_BASE = ''/mnt/shadowmnt/pfsc''"

definition DEFAULT_BACKPORTS_DIR_NAME :: string where
  "DEFAULT_BACKPORTS_DIR_NAME = ''backports''"

definition get_filename_component :: "string \<Rightarrow> string" where
  "get_filename_component path =
     (if CHR ''/'' \<in> set path then after_last (CHR ''/'') path
      else if CHR 0x5C \<in> set path then after_last (CHR 0x5C) path
      else path)"

definition stat_ok :: "host \<Rightarrow> string \<Rightarrow> bool" where
  "stat_ok h path = (case h_stat h path of Inr _ \<Rightarrow> True | Inl _ \<Rightarrow> False)"

definition path_exists :: "host \<Rightarrow> string \<Rightarrow> bool" where
  "path_exists h path \<longleftrightarrow> path \<noteq> [] \<and> stat_ok h path"

definition is_under_image_mount_base :: "string \<Rightarrow> bool" where
  "is_under_image_mount_base path \<longleftrightarrow>
     starts_with IMAGE_MOUNT_BASE path \<and> char_at path (length IMAGE_MOUNT_BASE) = CHR ''/''"

definition path_matches_root_or_child :: "string \<Rightarrow> string \<Rightarrow> bool" where
  "path_matches_root_or_child path root =
     (if root = [] then False
      else if \<not> starts_with root path then False
      else if root = ''/'' then char_at path 0 = CHR ''/''
      else char_at path (length root) = CHR 0x00 \<or> char_at path (length root) = CHR ''/'')"

definition is_pfsc_image_mount_base_or_child :: "string \<Rightarrow> bool" where
  "is_pfsc_image_mount_base_or_child path = path_matches_root_or_child path PFSC_IMAGE_MOUNT_BASE"

definition paths_overlap :: "host \<Rightarrow> string \<Rightarrow> string \<Rightarrow> bool" where
  "paths_overlap h a b =
     (if a = [] \<or> b = [] then False
      else if path_matches_root_or_child a b \<or> path_matches_root_or_child b a then True
      else
        (let left = (case h_realpath h a of Some r \<Rightarrow> r | None \<Rightarrow> a);
             right = (case h_realpath h b of Some r \<Rightarrow> r | None \<Rightarrow> b)
         in path_matches_root_or_child left right \<or> path_matches_root_or_child right left))"

definition usb_roots :: "string list" where
  "usb_roots = [''/mnt/usb0'', ''/mnt/usb1'', ''/mnt/usb2'', ''/mnt/usb3'', ''/mnt/usb4'',
     ''/mnt/usb5'', ''/mnt/usb6'', ''/mnt/usb7'', ''/mnt/ext0'']"

definition find_usb_storage_root :: "string \<Rightarrow> string option" where
  "find_usb_storage_root path =
     (if path = [] then None else find (path_matches_root_or_child path) usb_roots)"

definition is_usb_storage_path :: "string \<Rightarrow> bool" where
  "is_usb_storage_path path \<longleftrightarrow> find_usb_storage_root path \<noteq> None"

definition usb_storage_root_mounted :: "host \<Rightarrow> string \<Rightarrow> bool" where
  "usb_storage_root_mounted h path =
     (case find_usb_storage_root path of
        None \<Rightarrow> False
      | Some usb_root \<Rightarrow>
          (case (h_stat h usb_root, h_stat h ''/mnt'') of
             (Inr root_st, Inr parent_st) \<Rightarrow> st_dev root_st \<noteq> st_dev parent_st
           | _ \<Rightarrow> False))"

definition build_backports_root_path :: "string \<Rightarrow> string option" where
  "build_backports_root_path scan_path =
     (if is_under_image_mount_base scan_path then None
      else bounded MAX_PATH (scan_path @ ''/'' @ DEFAULT_BACKPORTS_DIR_NAME))"

definition backport_name_matches_title :: "string \<Rightarrow> string \<Rightarrow> bool" where
  "backport_name_matches_title title_id name \<longleftrightarrow>
     title_id \<noteq> [] \<and> starts_with title_id name \<and> CHR ''/'' \<notin> set name"

section \<open>Lemmas\<close>

lemma char_at_zero_cstr: "is_cstr s \<Longrightarrow> char_at s 0 = CHR 0x00 \<longleftrightarrow> s = []"
  by (cases s) (auto simp: is_cstr_def)

lemma char_at_zero_slash: "char_at s 0 = CHR ''/'' \<longleftrightarrow> (\<exists>rest. s = CHR ''/'' # rest)"
  by (cases s) auto

lemma path_matches_iff:
  assumes "is_cstr path" and "root \<noteq> ''/''"
  shows "path_matches_root_or_child path root \<longleftrightarrow>
    root \<noteq> [] \<and> (path = root \<or> (\<exists>rest. path = root @ ''/'' @ rest))"
proof -
  have "char_at rest 0 = CHR 0x00 \<longleftrightarrow> rest = []" if "path = root @ rest" for rest
    using assms(1) that by (intro char_at_zero_cstr) (simp add: is_cstr_def)
  then show ?thesis
    using assms(2) by (auto simp: path_matches_root_or_child_def starts_with_iff char_at_zero_slash)
qed

lemma path_matches_root: "path_matches_root_or_child path ''/'' \<longleftrightarrow> (\<exists>rest. path = CHR ''/'' # rest)"
  by (auto simp: path_matches_root_or_child_def starts_with_iff)

lemma path_matches_starts: "path_matches_root_or_child path root \<Longrightarrow> \<exists>rest. path = root @ rest"
  by (auto simp: path_matches_root_or_child_def starts_with_iff split: if_splits)

lemma path_matches_nonempty:
  "path_matches_root_or_child path root \<Longrightarrow> root \<noteq> [] \<and> path \<noteq> []"
  by (auto simp: path_matches_root_or_child_def starts_with_iff split: if_splits)

lemma path_matches_refl: "p \<noteq> [] \<Longrightarrow> is_cstr p \<Longrightarrow> path_matches_root_or_child p p"
  by (cases "p = ''/''") (auto simp: path_matches_iff path_matches_root)

lemma path_matches_length: "path_matches_root_or_child path root \<Longrightarrow> length root \<le> length path"
  by (auto dest: path_matches_starts)

lemma find_usb_storage_root_Some:
  "find_usb_storage_root path = Some r \<Longrightarrow> r \<in> set usb_roots \<and> path_matches_root_or_child path r"
  by (auto simp: find_usb_storage_root_def find_Some_iff split: if_splits)

text \<open>A host with no files and a sample file record, for the witnesses.\<close>

definition empty_host :: host where
  "empty_host = \<lparr>h_stat = (\<lambda>_. Inl ENOENT), h_realpath = (\<lambda>_. None)\<rparr>"

definition sample_stat :: stat_buf where
  "sample_stat = \<lparr>st_mode = S_REG, st_dev = 1, st_ino = 7, st_rdev = 0, st_size = 4096, st_mtime = 1700000000,
     st_mtime_nsec = 5, st_ctime = 1700000000, st_ctime_nsec = 5\<rparr>"

end
