(* ===== verification/Slot_Index.thy ===== *)
theory Slot_Index
  imports SM_Prelude
begin

text \<open>
  The open-addressing index that \<^verbatim>\<open>src/sm_path_state.c\<close> and \<^verbatim>\<open>src/sm_title_state.c\<close> each
  keep over a table of \<open>MAX_PENDING\<close> entries: an array of \<open>STATE_HASH_SIZE\<close> numbers, zero
  for a free slot and \<open>k + 1\<close> for a reference to entry \<open>k\<close>. The two files repeat the same
  loops over their own entry type, so the loops are defined here once, over the entry's
  validity flag and key, and the component theories name the instances. The locale
  \<open>slot_table\<close> states what the loops rely on (a cleared entry is invalid and has no key, a
  new entry is valid and carries its key) and proves the loops correct once.
\<close>

section \<open>Definitions\<close>

text \<open>\<^verbatim>\<open>(uint16_t)n\<close>\<close>

definition u16 :: "nat \<Rightarrow> nat" where
  "u16 n = n mod 65536"

definition slot_of :: "string \<Rightarrow> nat" where
  "slot_of key = unat (sm_fnv1a32 key AND (1024 - 1))"

text \<open>\<^verbatim>\<open>(slot + 1u) & (STATE_HASH_SIZE - 1u)\<close>\<close>

definition next_slot :: "nat \<Rightarrow> nat" where
  "next_slot s = unat ((of_nat s + 1 :: u32) AND (1024 - 1))"

fun probe_free :: "nat list \<Rightarrow> nat \<Rightarrow> nat \<Rightarrow> nat option" where
  "probe_free h 0 slot = None"
| "probe_free h (Suc n) slot =
     (if h ! slot = 0 then Some slot else probe_free h n (next_slot slot))"

fun probe_find :: "('e \<Rightarrow> bool) \<Rightarrow> 'e list \<Rightarrow> nat list \<Rightarrow> nat \<Rightarrow> nat \<Rightarrow> nat option" where
  "probe_find P es h 0 slot = None"
| "probe_find P es h (Suc n) slot =
     (let idx = h ! slot in
      if idx = 0 then None
      else if P (es ! (idx - 1)) then Some (idx - 1)
      else probe_find P es h n (next_slot slot))"

definition hash_insert :: "nat list \<Rightarrow> string \<Rightarrow> nat \<Rightarrow> nat list option" where
  "hash_insert h key k =
     (case probe_free h STATE_HASH_SIZE (slot_of key) of
        None \<Rightarrow> None
      | Some s \<Rightarrow> Some (h[s := u16 (k + 1)]))"

definition empty_hash :: "nat list" where
  "empty_hash = replicate STATE_HASH_SIZE 0"

definition rebuild_step :: "('e \<Rightarrow> bool) \<Rightarrow> ('e \<Rightarrow> string) \<Rightarrow> 'e list \<Rightarrow> nat \<Rightarrow> nat list \<Rightarrow> nat list" where
  "rebuild_step vld key es k h =
     (if \<not> vld (es ! k) \<or> key (es ! k) = [] then h
      else (case hash_insert h (key (es ! k)) k of None \<Rightarrow> h | Some h' \<Rightarrow> h'))"

definition rebuild_hash :: "('e \<Rightarrow> bool) \<Rightarrow> ('e \<Rightarrow> string) \<Rightarrow> 'e list \<Rightarrow> nat list" where
  "rebuild_hash vld key es = fold (rebuild_step vld key es) [0..<length es] empty_hash"

definition table_find :: "('e \<Rightarrow> bool) \<Rightarrow> ('e \<Rightarrow> string) \<Rightarrow> 'e list \<Rightarrow> nat list \<Rightarrow> string \<Rightarrow> nat option" where
  "table_find vld key es h k =
     probe_find (\<lambda>e. vld e \<and> key e = k) es h STATE_HASH_SIZE (slot_of k)"

text \<open>
  Creating an entry: the first invalid slot, or the slot \<open>victim\<close> chooses when there is
  none (cleared, with the index rebuilt), then the new entry and its index reference; the
  last branch of the code, for a full index, clears the entry again and reports failure.
\<close>

definition table_create ::
  "('e \<Rightarrow> bool) \<Rightarrow> ('e \<Rightarrow> string) \<Rightarrow> 'e \<Rightarrow> ('e list \<Rightarrow> nat) \<Rightarrow> (string \<Rightarrow> 'e)
   \<Rightarrow> 'e list \<Rightarrow> nat list \<Rightarrow> string \<Rightarrow> nat option \<times> 'e list \<times> nat list" where
  "table_create vld key blank victim fresh es h k =
     (let (slot_k, es1, h1) =
        (case find_index (\<lambda>e. \<not> vld e) es of
           Some i \<Rightarrow> (i, es, h)
         | None \<Rightarrow>
             (let v = victim es; es' = es[v := blank] in (v, es', rebuild_hash vld key es')))
      in
        (case hash_insert h1 k slot_k of
           Some h2 \<Rightarrow> (Some slot_k, es1[slot_k := fresh k], h2)
         | None \<Rightarrow> (None, es1[slot_k := blank], rebuild_hash vld key (es1[slot_k := blank]))))"

definition table_get_or_create ::
  "('e \<Rightarrow> bool) \<Rightarrow> ('e \<Rightarrow> string) \<Rightarrow> 'e \<Rightarrow> ('e list \<Rightarrow> nat) \<Rightarrow> (string \<Rightarrow> 'e)
   \<Rightarrow> 'e list \<Rightarrow> nat list \<Rightarrow> string \<Rightarrow> nat option \<times> 'e list \<times> nat list" where
  "table_get_or_create vld key blank victim fresh es h k =
     (case table_find vld key es h k of
        Some i \<Rightarrow> (Some i, es, h)
      | None \<Rightarrow> table_create vld key blank victim fresh es h k)"

section \<open>Probe sequences\<close>

text \<open>The slot reached after \<open>d\<close> probes.\<close>

definition probe :: "nat \<Rightarrow> nat \<Rightarrow> nat" where
  "probe s d = (s + d) mod STATE_HASH_SIZE"

lemma mask_slot: "unat (w AND (1024 - 1) :: u32) = unat w mod STATE_HASH_SIZE"
proof -
  have "w AND (1024 - 1) = take_bit 10 w"
    by (simp add: take_bit_eq_mask mask_eq_exp_minus_1)
  then have "unat (w AND (1024 - 1)) = take_bit 10 (unat w)"
    by (simp only: unsigned_take_bit_eq)
  then show ?thesis
    by (simp add: take_bit_eq_mod)
qed

lemma slot_of_less [simp]: "slot_of key < STATE_HASH_SIZE"
  unfolding slot_of_def mask_slot by simp

lemma next_slot_eq: "s < STATE_HASH_SIZE \<Longrightarrow> next_slot s = (s + 1) mod STATE_HASH_SIZE"
proof -
  assume s: "s < STATE_HASH_SIZE"
  have "unat (of_nat (s + 1) :: u32) = s + 1"
    using s by (simp add: unat_of_nat del: of_nat_add of_nat_Suc)
  then show ?thesis
    unfolding next_slot_def mask_slot by (simp add: add.commute)
qed

lemma next_slot_less: "s < STATE_HASH_SIZE \<Longrightarrow> next_slot s < STATE_HASH_SIZE"
  by (simp add: next_slot_eq)

lemma probe_less [simp]: "probe s d < STATE_HASH_SIZE"
  by (simp add: probe_def)

lemma probe_0 [simp]: "s < STATE_HASH_SIZE \<Longrightarrow> probe s 0 = s"
  by (simp add: probe_def)

lemma probe_Suc: "s < STATE_HASH_SIZE \<Longrightarrow> probe s (Suc d) = probe (next_slot s) d"
  by (simp add: probe_def next_slot_eq mod_simps)

lemma probe_surj:
  assumes "s < STATE_HASH_SIZE" and "t < STATE_HASH_SIZE"
  shows "\<exists>d<STATE_HASH_SIZE. probe s d = t"
proof
  let ?d = "(t + STATE_HASH_SIZE - s) mod STATE_HASH_SIZE"
  have "(s + (t + STATE_HASH_SIZE - s)) mod STATE_HASH_SIZE = t"
    using assms by simp
  then show "?d < STATE_HASH_SIZE \<and> probe s ?d = t"
    by (simp add: probe_def mod_simps)
qed

lemma probe_free_Some:
  "s < STATE_HASH_SIZE \<Longrightarrow>
   probe_free h n s = Some t \<longleftrightarrow> (\<exists>d<n. t = probe s d \<and> h ! t = 0 \<and> (\<forall>d'<d. h ! probe s d' \<noteq> 0))"
proof (induction n arbitrary: s)
  case 0
  then show ?case by simp
next
  case (Suc n)
  show ?case
  proof (cases "h ! s = 0")
    case True
    then show ?thesis
      using Suc.prems by (auto simp: less_Suc_eq_0_disj)
  next
    case False
    then show ?thesis
      using Suc.prems Suc.IH [OF next_slot_less [OF Suc.prems]]
      by (auto simp: Ex_less_Suc2 All_less_Suc2 probe_Suc)
  qed
qed

lemma probe_free_None:
  "s < STATE_HASH_SIZE \<Longrightarrow> probe_free h n s = None \<longleftrightarrow> (\<forall>d<n. h ! probe s d \<noteq> 0)"
proof (induction n arbitrary: s)
  case 0
  then show ?case by simp
next
  case (Suc n)
  then show ?case
    using next_slot_less [OF Suc.prems] by (auto simp: All_less_Suc2 probe_Suc)
qed

lemma probe_find_hit:
  assumes "s < STATE_HASH_SIZE" and "d < n" and "h ! probe s d \<noteq> 0" and "P (es ! (h ! probe s d - 1))"
    and "\<forall>d'<d. h ! probe s d' \<noteq> 0 \<and> \<not> P (es ! (h ! probe s d' - 1))"
  shows "probe_find P es h n s = Some (h ! probe s d - 1)"
  using assms
proof (induction n arbitrary: s d)
  case 0
  then show ?case by simp
next
  case (Suc n)
  show ?case
  proof (cases d)
    case 0
    then show ?thesis using Suc.prems by (simp add: Let_def)
  next
    case (Suc d')
    have "h ! s \<noteq> 0 \<and> \<not> P (es ! (h ! s - 1))"
      using Suc.prems(1,5) Suc by (metis probe_0 zero_less_Suc)
    moreover have "probe_find P es h n (next_slot s) = Some (h ! probe (next_slot s) d' - 1)"
      using Suc.prems Suc by (intro Suc.IH) (auto simp: next_slot_less probe_Suc [symmetric])
    ultimately show ?thesis
      using Suc.prems(1) Suc by (simp add: Let_def probe_Suc)
  qed
qed

lemma probe_find_SomeD:
  "s < STATE_HASH_SIZE \<Longrightarrow> probe_find P es h n s = Some k
   \<Longrightarrow> \<exists>t<STATE_HASH_SIZE. h ! t = Suc k \<and> P (es ! k)"
proof (induction n arbitrary: s)
  case 0
  then show ?case by simp
next
  case (Suc n)
  show ?case
  proof (cases "h ! s \<noteq> 0 \<and> P (es ! (h ! s - 1))")
    case True
    then have "h ! s = Suc k \<and> P (es ! k)"
      using Suc.prems(2) by (auto simp: Let_def)
    then show ?thesis using Suc.prems(1) by blast
  next
    case False
    then show ?thesis
      using Suc.prems by (intro Suc.IH [of "next_slot s"]) (auto simp: Let_def next_slot_less split: if_splits)
  qed
qed

section \<open>Invariants of an indexed table\<close>

text \<open>
  \<open>refs_inv\<close>: every index reference names a valid entry and no entry is named twice. It is
  kept by every operation for every key. \<open>lookup_inv\<close>: the valid entries have different,
  non-empty keys, and each entry is reached from the slot of its key through occupied
  slots.
\<close>

definition refs_inv :: "('e \<Rightarrow> bool) \<Rightarrow> 'e list \<Rightarrow> nat list \<Rightarrow> bool" where
  "refs_inv vld es h \<longleftrightarrow>
     length es = MAX_PENDING \<and> length h = STATE_HASH_SIZE \<and>
     (\<forall>s<STATE_HASH_SIZE. h ! s \<noteq> 0 \<longrightarrow> h ! s \<le> MAX_PENDING \<and> vld (es ! (h ! s - 1))) \<and>
     (\<forall>s<STATE_HASH_SIZE. \<forall>t<STATE_HASH_SIZE. h ! s \<noteq> 0 \<and> h ! s = h ! t \<longrightarrow> s = t)"

definition reaches :: "nat list \<Rightarrow> string \<Rightarrow> nat \<Rightarrow> bool" where
  "reaches h key k \<longleftrightarrow>
     (\<exists>d<STATE_HASH_SIZE. h ! probe (slot_of key) d = Suc k \<and> (\<forall>d'<d. h ! probe (slot_of key) d' \<noteq> 0))"

definition lookup_inv :: "('e \<Rightarrow> bool) \<Rightarrow> ('e \<Rightarrow> string) \<Rightarrow> 'e list \<Rightarrow> nat list \<Rightarrow> bool" where
  "lookup_inv vld key es h \<longleftrightarrow>
     keys_distinct vld key es \<and>
     (\<forall>k<length es. vld (es ! k) \<longrightarrow> key (es ! k) \<noteq> [] \<and> reaches h (key (es ! k)) k)"

definition table_inv :: "('e \<Rightarrow> bool) \<Rightarrow> ('e \<Rightarrow> string) \<Rightarrow> 'e list \<Rightarrow> nat list \<Rightarrow> bool" where
  "table_inv vld key es h \<longleftrightarrow> refs_inv vld es h \<and> lookup_inv vld key es h"

text \<open>What the table means: a finite map from keys to entries.\<close>

definition table_map :: "('e \<Rightarrow> bool) \<Rightarrow> ('e \<Rightarrow> string) \<Rightarrow> 'e list \<Rightarrow> string \<Rightarrow> 'e option" where
  "table_map vld key es k = map_option (nth es) (find_index (\<lambda>e. vld e \<and> key e = k) es)"

lemma refs_inv_lengthD:
  "refs_inv vld es h \<Longrightarrow> length es = MAX_PENDING" "refs_inv vld es h \<Longrightarrow> length h = STATE_HASH_SIZE"
  by (simp_all add: refs_inv_def)

lemma reaches_update: "reaches h key k \<Longrightarrow> s < length h \<Longrightarrow> h ! s = 0 \<Longrightarrow> 0 < v \<Longrightarrow> reaches (h[s := v]) key k"
  unfolding reaches_def by (metis nat.distinct(1) neq0_conv nth_list_update)

text \<open>
  There are twice as many index slots as entries, so a reference can always be inserted.
\<close>

lemma refs_free_slot:
  assumes "refs_inv vld es h"
  shows "\<exists>t<STATE_HASH_SIZE. h ! t = 0"
proof (rule ccontr)
  assume "\<not> ?thesis"
  then have "(\<lambda>t. h ! t) ` {..<STATE_HASH_SIZE} \<subseteq> {1..MAX_PENDING}" and "inj_on (\<lambda>t. h ! t) {..<STATE_HASH_SIZE}"
    using assms by (auto simp: refs_inv_def inj_on_def Suc_le_eq)
  then have "card {..<STATE_HASH_SIZE} \<le> card {1..MAX_PENDING}"
    by (intro card_inj_on_le) auto
  then show False by simp
qed

lemma hash_insert_total:
  assumes "refs_inv vld es h"
  shows "\<exists>h'. hash_insert h key k = Some h'"
proof -
  obtain t where "t < STATE_HASH_SIZE" "h ! t = 0"
    using refs_free_slot [OF assms] by blast
  moreover then obtain d where "d < STATE_HASH_SIZE" "probe (slot_of key) d = t"
    using probe_surj [OF slot_of_less] by blast
  ultimately have "probe_free h STATE_HASH_SIZE (slot_of key) \<noteq> None"
    by (auto simp: probe_free_None)
  then show ?thesis
    by (auto simp: hash_insert_def)
qed

lemma hash_insert_SomeE:
  assumes "hash_insert h key k = Some h'" and "k < MAX_PENDING" and "length h = STATE_HASH_SIZE"
  obtains s where "s < STATE_HASH_SIZE" "h ! s = 0" "h' = h[s := Suc k]" "reaches h' key k"
proof -
  obtain s where s: "probe_free h STATE_HASH_SIZE (slot_of key) = Some s" "h' = h[s := u16 (k + 1)]"
    using assms(1) by (auto simp: hash_insert_def split: option.splits)
  moreover have "u16 (k + 1) = Suc k"
    using assms(2) by (simp add: u16_def)
  ultimately obtain d where d: "d < STATE_HASH_SIZE" "s = probe (slot_of key) d" "h ! s = 0"
      "\<forall>d'<d. h ! probe (slot_of key) d' \<noteq> 0" "h' = h[s := Suc k]"
    by (auto simp: probe_free_Some)
  then have "reaches h' key k"
    using assms(3) unfolding reaches_def
    by (intro exI [of _ d]) (auto simp: nth_list_update)
  with d show ?thesis
    using that [of s] by simp
qed

lemma refs_inv_insert:
  assumes "refs_inv vld es h" and "s < STATE_HASH_SIZE" and "h ! s = 0" and "k < MAX_PENDING" and "vld (es ! k)"
    and "\<And>t. t < STATE_HASH_SIZE \<Longrightarrow> h ! t \<noteq> Suc k"
  shows "refs_inv vld es (h[s := Suc k])"
  using assms unfolding refs_inv_def by (auto simp: nth_list_update) metis+

section \<open>Rebuilding the index\<close>

text \<open>
  After the first \<open>n\<close> entries the index refers exactly to those of them that are valid and
  have a key.
\<close>

definition rebuilt_upto :: "('e \<Rightarrow> bool) \<Rightarrow> ('e \<Rightarrow> string) \<Rightarrow> 'e list \<Rightarrow> nat \<Rightarrow> nat list \<Rightarrow> bool" where
  "rebuilt_upto vld key es n h \<longleftrightarrow>
     refs_inv vld es h \<and> (\<forall>s<STATE_HASH_SIZE. h ! s \<le> n) \<and>
     (\<forall>k<n. vld (es ! k) \<and> key (es ! k) \<noteq> [] \<longrightarrow> reaches h (key (es ! k)) k)"

lemma rebuild_step_upto:
  assumes "rebuilt_upto vld key es n h" and "n < MAX_PENDING"
  shows "rebuilt_upto vld key es (Suc n) (rebuild_step vld key es n h)"
proof (cases "vld (es ! n) \<and> key (es ! n) \<noteq> []")
  case False
  then show ?thesis
    using assms by (auto simp: rebuilt_upto_def rebuild_step_def less_Suc_eq intro: le_SucI)
next
  case True
  have inv: "refs_inv vld es h" and le: "\<And>s. s < STATE_HASH_SIZE \<Longrightarrow> h ! s \<le> n"
    using assms(1) by (auto simp: rebuilt_upto_def)
  obtain h' where h': "hash_insert h (key (es ! n)) n = Some h'"
    using hash_insert_total [OF inv] by blast
  obtain s where s: "s < STATE_HASH_SIZE" "h ! s = 0" "h' = h[s := Suc n]" "reaches h' (key (es ! n)) n"
    using hash_insert_SomeE [OF h' assms(2) refs_inv_lengthD(2) [OF inv]] .
  have "refs_inv vld es h'"
    unfolding s(3) using inv s(1,2) assms(2) True le by (intro refs_inv_insert) (auto dest: le)
  moreover have "\<forall>t<STATE_HASH_SIZE. h' ! t \<le> Suc n"
    using le s refs_inv_lengthD(2) [OF inv] by (auto simp: nth_list_update intro: le_SucI)
  moreover have "reaches h' (key (es ! k)) k" if "k < n" "vld (es ! k)" "key (es ! k) \<noteq> []" for k
    unfolding s(3) using that assms(1) s(1,2) refs_inv_lengthD(2) [OF inv]
    by (intro reaches_update) (auto simp: rebuilt_upto_def)
  ultimately show ?thesis
    using True s(4) h' by (auto simp: rebuilt_upto_def rebuild_step_def less_Suc_eq)
qed

lemma rebuild_hash_upto:
  assumes "length es = MAX_PENDING"
  shows "rebuilt_upto vld key es MAX_PENDING (rebuild_hash vld key es)"
proof -
  have "rebuilt_upto vld key es n (fold (rebuild_step vld key es) [0..<n] empty_hash)"
    if "n \<le> MAX_PENDING" for n
    using that
  proof (induction n)
    case 0
    then show ?case
      using assms by (simp add: rebuilt_upto_def refs_inv_def empty_hash_def)
  next
    case (Suc n)
    then show ?case
      by (simp add: rebuild_step_upto)
  qed
  then show ?thesis
    using assms by (simp add: rebuild_hash_def)
qed

lemma rebuild_refs_inv: "length es = MAX_PENDING \<Longrightarrow> refs_inv vld es (rebuild_hash vld key es)"
  using rebuild_hash_upto [of es vld key] by (simp add: rebuilt_upto_def)

lemma rebuild_table_inv:
  assumes "length es = MAX_PENDING" and "keys_distinct vld key es"
    and "\<And>k. k < length es \<Longrightarrow> vld (es ! k) \<Longrightarrow> key (es ! k) \<noteq> []"
  shows "table_inv vld key es (rebuild_hash vld key es)"
  using rebuild_hash_upto [OF assms(1), of vld key] assms
  by (auto simp: table_inv_def lookup_inv_def rebuilt_upto_def)

section \<open>Lookup\<close>

lemma table_find_refs:
  assumes "refs_inv vld es h" and "table_find vld key es h k = Some i"
  shows "i < length es \<and> vld (es ! i) \<and> key (es ! i) = k"
proof -
  obtain t where t: "t < STATE_HASH_SIZE" "h ! t = Suc i" "vld (es ! i) \<and> key (es ! i) = k"
    using probe_find_SomeD [OF slot_of_less] assms(2) unfolding table_find_def by blast
  moreover have "h ! t \<noteq> 0 \<longrightarrow> h ! t \<le> MAX_PENDING" and "length es = MAX_PENDING"
    using assms(1) t(1) by (simp_all add: refs_inv_def)
  ultimately show ?thesis
    by simp
qed

lemma table_find_complete:
  assumes "table_inv vld key es h" and "i < length es" and "vld (es ! i)"
  shows "table_find vld key es h (key (es ! i)) = Some i"
proof -
  let ?k = "key (es ! i)"
  let ?P = "\<lambda>e. vld e \<and> key e = ?k"
  let ?at = "\<lambda>d. h ! probe (slot_of ?k) d"
  obtain d where d: "d < STATE_HASH_SIZE" "?at d = Suc i" "\<forall>d'<d. ?at d' \<noteq> 0"
    using assms by (auto simp: table_inv_def lookup_inv_def reaches_def)
  define m where "m = (LEAST d. ?at d = Suc i)"
  have m: "?at m = Suc i" "m \<le> d" "\<And>d'. d' < m \<Longrightarrow> ?at d' \<noteq> Suc i"
    unfolding m_def using d(2) by (auto intro: LeastI Least_le dest: not_less_Least)
  have "\<not> ?P (es ! (?at d' - 1))" if "d' < m" for d'
  proof
    assume P: "?P (es ! (?at d' - 1))"
    have nz: "?at d' \<noteq> 0" using d(3) m(2) that by auto
    then have "?at d' - 1 < length es"
      using assms(1) by (auto simp: table_inv_def refs_inv_def dest!: spec [of _ "probe (slot_of ?k) d'"])
    then have "?at d' - 1 = i"
      using assms P by (intro keys_distinctD [of vld key es]) (auto simp: table_inv_def lookup_inv_def)
    then show False using m(3) [OF that] nz by simp
  qed
  then have "probe_find ?P es h STATE_HASH_SIZE (slot_of ?k) = Some (?at m - 1)"
    using d m assms(3) by (intro probe_find_hit) auto
  then show ?thesis
    using m(1) by (simp add: table_find_def)
qed

lemma table_find_iff:
  assumes "table_inv vld key es h"
  shows "table_find vld key es h k = Some i \<longleftrightarrow> i < length es \<and> vld (es ! i) \<and> key (es ! i) = k"
  using assms table_find_complete [OF assms] table_find_refs [of vld es h key k i]
  by (auto simp: table_inv_def)

text \<open>The index is an optimisation: it answers as the linear search over the table does.\<close>

lemma table_find_linear:
  assumes "table_inv vld key es h"
  shows "table_find vld key es h k = find_index (\<lambda>e. vld e \<and> key e = k) es"
proof (cases "find_index (\<lambda>e. vld e \<and> key e = k) es")
  case None
  then have "table_find vld key es h k \<noteq> Some i" for i
    using table_find_iff [OF assms, of k] by (auto simp: find_index_None)
  then show ?thesis
    using None by (cases "table_find vld key es h k") auto
next
  case (Some i)
  then have "table_find vld key es h k = Some i"
    using table_find_iff [OF assms, of k i] by (auto simp: find_index_Some)
  then show ?thesis using Some by simp
qed

lemma table_find_map:
  "table_inv vld key es h \<Longrightarrow>
   map_option (nth es) (table_find vld key es h k) = table_map vld key es k"
  by (simp add: table_find_linear table_map_def)

lemma table_map_Some:
  assumes "keys_distinct vld key es"
  shows "table_map vld key es k = Some e \<longleftrightarrow> (\<exists>i<length es. vld (es ! i) \<and> key (es ! i) = k \<and> e = es ! i)"
proof
  assume "table_map vld key es k = Some e"
  then show "\<exists>i<length es. vld (es ! i) \<and> key (es ! i) = k \<and> e = es ! i"
    by (auto simp: table_map_def dest: find_index_SomeD)
next
  assume "\<exists>i<length es. vld (es ! i) \<and> key (es ! i) = k \<and> e = es ! i"
  then obtain i where i: "i < length es" "vld (es ! i)" "key (es ! i) = k" "e = es ! i"
    by blast
  then have "find_index (\<lambda>e. vld e \<and> key e = k) es = Some i"
    using keys_distinctD [OF assms] by (auto simp: find_index_Some) (metis less_irrefl less_trans)
  then show "table_map vld key es k = Some e"
    using i by (simp add: table_map_def)
qed

lemma table_map_None: "table_map vld key es k = None \<longleftrightarrow> (\<forall>i<length es. vld (es ! i) \<longrightarrow> key (es ! i) \<noteq> k)"
  by (auto simp: table_map_def find_index_None)

lemma table_map_update:
  assumes "keys_distinct vld key es" and "keys_distinct vld key (es[i := e])"
    and "i < length es" and "vld e" and "vld (es ! i) \<Longrightarrow> key (es ! i) = key e"
  shows "table_map vld key (es[i := e]) = (table_map vld key es)(key e \<mapsto> e)"
proof
  fix k
  show "table_map vld key (es[i := e]) k = ((table_map vld key es)(key e \<mapsto> e)) k"
  proof (cases "k = key e")
    case True
    then show ?thesis
      using assms by (auto simp: table_map_Some intro: exI [of _ i])
  next
    case False
    have "table_map vld key (es[i := e]) k = Some x \<longleftrightarrow> table_map vld key es k = Some x" for x
      using False assms unfolding table_map_Some [OF assms(1)] table_map_Some [OF assms(2)]
      by (metis length_list_update nth_list_update)
    then have "table_map vld key (es[i := e]) k = table_map vld key es k"
      by (rule option_eqI)
    then show ?thesis using False by simp
  qed
qed

lemma find_index_map: "find_index P (map g xs) = find_index (\<lambda>x. P (g x)) xs"
  by (induction xs) auto

text \<open>A change of every entry that keeps validity and key changes the mapped entries only.\<close>

lemma table_map_map:
  assumes "\<And>e. vld (g e) = vld e" and "\<And>e. key (g e) = key e"
  shows "table_map vld key (map g es) k = map_option g (table_map vld key es k)"
  unfolding table_map_def find_index_map assms
  by (auto dest: find_index_SomeD split: option.splits intro!: option.map_cong0 simp: option.map_comp)

lemma table_inv_map:
  assumes "table_inv vld key es h" and "\<And>e. vld (g e) = vld e" and "\<And>e. key (g e) = key e"
  shows "table_inv vld key (map g es) h"
proof -
  have "keys_distinct vld key (map g es)"
    using assms by (intro keys_distinct_map) (auto simp: table_inv_def lookup_inv_def)
  moreover have "refs_inv vld (map g es) h"
    using assms(1,2) by (auto simp: table_inv_def refs_inv_def Suc_le_eq)
  ultimately show ?thesis
    using assms by (auto simp: table_inv_def lookup_inv_def)
qed

lemma table_map_clear:
  assumes "keys_distinct vld key es" and "\<not> vld b"
  shows "table_map vld key (map (\<lambda>e. if Q e then b else e) es) k =
    (case table_map vld key es k of Some e \<Rightarrow> if Q e then None else Some e | None \<Rightarrow> None)"
proof -
  let ?es = "map (\<lambda>e. if Q e then b else e) es"
  have d: "keys_distinct vld key ?es"
    using assms by (intro keys_distinct_map) (auto split: if_splits)
  have "table_map vld key ?es k = Some x \<longleftrightarrow> table_map vld key es k = Some x \<and> \<not> Q x" for x
    unfolding table_map_Some [OF assms(1)] table_map_Some [OF d] using assms(2)
    by (auto split: if_splits)
  then show ?thesis
    by (intro option_eqI) (auto split: option.splits if_splits)
qed

section \<open>The table as an interface\<close>

locale slot_table =
  fixes vld :: "'e \<Rightarrow> bool" and key :: "'e \<Rightarrow> string" and blank :: 'e
    and fresh :: "string \<Rightarrow> 'e" and keylen :: nat
  assumes blank_invalid: "\<not> vld blank"
    and fresh_valid: "vld (fresh k)"
    and fresh_key: "length k < keylen \<Longrightarrow> key (fresh k) = k"
begin

lemma inv_init: "table_inv vld key (replicate MAX_PENDING blank) empty_hash"
  using blank_invalid
  by (simp add: table_inv_def refs_inv_def lookup_inv_def empty_hash_def)

lemma insert_fresh_refs:
  assumes "refs_inv vld es h" and "i < MAX_PENDING" and "\<not> vld (es ! i)" and "hash_insert h k i = Some h'"
  shows "refs_inv vld (es[i := fresh k]) h'"
proof -
  obtain s where s: "s < STATE_HASH_SIZE" "h ! s = 0" "h' = h[s := Suc i]"
    using hash_insert_SomeE [OF assms(4,2) refs_inv_lengthD(2) [OF assms(1)]] by metis
  have old: "h ! t - 1 \<noteq> i" if "t < STATE_HASH_SIZE" "h ! t \<noteq> 0" for t
    using assms(1,3) that by (auto simp: refs_inv_def)
  then have "es[i := fresh k] ! (h ! t - 1) = es ! (h ! t - 1)" if "t < STATE_HASH_SIZE" "h ! t \<noteq> 0" for t
    using that by (metis nth_list_update_neq)
  then have "refs_inv vld (es[i := fresh k]) h"
    using assms(1) by (simp add: refs_inv_def)
  moreover have "h ! t \<noteq> Suc i" if "t < STATE_HASH_SIZE" for t
    using old [OF that] by auto
  ultimately show ?thesis
    unfolding s(3) using s(1,2) assms(2) refs_inv_lengthD(1) [OF assms(1)]
    by (intro refs_inv_insert) (simp_all add: fresh_valid)
qed

lemma insert_fresh_inv:
  assumes "table_inv vld key es h" and "i < MAX_PENDING" and "\<not> vld (es ! i)" and "hash_insert h k i = Some h'"
    and "k \<noteq> []" and "length k < keylen" and "table_map vld key es k = None"
  shows "table_inv vld key (es[i := fresh k]) h'"
    and "table_map vld key (es[i := fresh k]) = (table_map vld key es)(k \<mapsto> fresh k)"
proof -
  have refs: "refs_inv vld es h" and look: "lookup_inv vld key es h"
    using assms(1) by (simp_all add: table_inv_def)
  have len: "length es = MAX_PENDING" using refs by (rule refs_inv_lengthD)
  have kd: "keys_distinct vld key (es[i := fresh k])"
    using look assms(6,7) by (intro keys_distinct_update) (auto simp: lookup_inv_def table_map_None fresh_key)
  obtain s where s: "s < STATE_HASH_SIZE" "h ! s = 0" "h' = h[s := Suc i]" "reaches h' k i"
    using hash_insert_SomeE [OF assms(4,2) refs_inv_lengthD(2) [OF refs]] .
  have "key (es[i := fresh k] ! j) \<noteq> [] \<and> reaches h' (key (es[i := fresh k] ! j)) j"
    if "j < length es" "vld (es[i := fresh k] ! j)" for j
  proof (cases "j = i")
    case True
    then show ?thesis using that s(4) assms(5,6) by (simp add: fresh_key)
  next
    case False
    then have "key (es ! j) \<noteq> []" "reaches h (key (es ! j)) j"
      using that look by (auto simp: lookup_inv_def)
    then show ?thesis
      using False s refs_inv_lengthD(2) [OF refs] by (auto intro: reaches_update)
  qed
  then show "table_inv vld key (es[i := fresh k]) h'"
    using kd insert_fresh_refs [OF refs assms(2-4)] by (auto simp: table_inv_def lookup_inv_def)
  show "table_map vld key (es[i := fresh k]) = (table_map vld key es)(k \<mapsto> fresh k)"
    using table_map_update [OF _ kd] look assms(2,3,6) len
    by (simp add: lookup_inv_def fresh_valid fresh_key)
qed

lemma clear_inv:
  assumes "table_inv vld key es h" and "es' = map (\<lambda>e. if Q e then blank else e) es"
  shows "table_inv vld key es' (rebuild_hash vld key es')"
  using assms(1) unfolding assms(2)
  by (intro rebuild_table_inv keys_distinct_map)
    (auto simp: table_inv_def lookup_inv_def refs_inv_def blank_invalid split: if_splits)

lemma evict_inv:
  assumes "table_inv vld key es h" and "v < MAX_PENDING" and "vld (es ! v)"
  shows "table_inv vld key (es[v := blank]) (rebuild_hash vld key (es[v := blank]))"
    and "table_map vld key (es[v := blank]) = (table_map vld key es)(key (es ! v) := None)"
proof -
  have kd: "keys_distinct vld key es" and len: "length es = MAX_PENDING"
    using assms(1) by (auto simp: table_inv_def lookup_inv_def refs_inv_def)
  have kd': "keys_distinct vld key (es[v := blank])"
    using kd by (rule keys_distinct_update) (simp add: blank_invalid)
  show "table_inv vld key (es[v := blank]) (rebuild_hash vld key (es[v := blank]))"
    using assms(1,2) kd' len
    by (intro rebuild_table_inv) (auto simp: table_inv_def lookup_inv_def nth_list_update blank_invalid split: if_splits)
  show "table_map vld key (es[v := blank]) = (table_map vld key es)(key (es ! v) := None)"
  proof
    fix k
    have "table_map vld key (es[v := blank]) k = Some x \<longleftrightarrow>
      ((table_map vld key es)(key (es ! v) := None)) k = Some x" for x
      using assms(2,3) len kd keys_distinctD [OF kd]
      by (auto simp: table_map_Some [OF kd] table_map_Some [OF kd'] nth_list_update blank_invalid
          split: if_splits) metis
    then show "table_map vld key (es[v := blank]) k = ((table_map vld key es)(key (es ! v) := None)) k"
      by (rule option_eqI)
  qed
qed

text \<open>Creating an entry never fails, for any key and any choice of victim inside the table.\<close>

lemma create_total:
  assumes "refs_inv vld es h" and "victim es < MAX_PENDING"
  shows "\<exists>i es' h'. table_create vld key blank victim fresh es h k = (Some i, es', h') \<and> i < MAX_PENDING
    \<and> es' ! i = fresh k \<and> refs_inv vld es' h'"
proof -
  have len: "length es = MAX_PENDING" using assms(1) by (rule refs_inv_lengthD)
  obtain i es1 h1 where c: "(case find_index (\<lambda>e. \<not> vld e) es of Some i \<Rightarrow> (i, es, h)
      | None \<Rightarrow> (let v = victim es; es' = es[v := blank] in (v, es', rebuild_hash vld key es'))) = (i, es1, h1)"
    by (metis prod_cases3)
  then have r: "refs_inv vld es1 h1" and i: "i < MAX_PENDING" and nv: "\<not> vld (es1 ! i)"
    using assms len find_index_SomeD [of "\<lambda>e. \<not> vld e" es]
    by (auto simp: Let_def rebuild_refs_inv blank_invalid split: option.splits)
  obtain h2 where h2: "hash_insert h1 k i = Some h2"
    using hash_insert_total [OF r] by blast
  then show ?thesis
    using c insert_fresh_refs [OF r i nv h2] i refs_inv_lengthD(1) [OF r]
    by (simp add: table_create_def)
qed

lemma create_inv:
  assumes "table_inv vld key es h" and "victim es < MAX_PENDING"
    and "k \<noteq> []" and "length k < keylen" and "table_map vld key es k = None"
    and "table_create vld key blank victim fresh es h k = (r, es', h')"
  shows "table_inv vld key es' h'"
    and "table_map vld key es' =
      (if \<exists>e\<in>set es. \<not> vld e then (table_map vld key es)(k \<mapsto> fresh k)
       else (table_map vld key es)(key (es ! victim es) := None, k \<mapsto> fresh k))"
proof -
  have len: "length es = MAX_PENDING" using assms(1) by (simp add: table_inv_def refs_inv_def)
  have "table_inv vld key es' h' \<and> table_map vld key es' =
      (if \<exists>e\<in>set es. \<not> vld e then (table_map vld key es)(k \<mapsto> fresh k)
       else (table_map vld key es)(key (es ! victim es) := None, k \<mapsto> fresh k))"
  proof (cases "find_index (\<lambda>e. \<not> vld e) es")
    case (Some i)
    then have i: "i < MAX_PENDING" "\<not> vld (es ! i)" and ex: "\<exists>e\<in>set es. \<not> vld e"
      using find_index_SomeD [OF Some] len by (auto intro: nth_mem)
    obtain h2 where h2: "hash_insert h k i = Some h2"
      using assms(1) hash_insert_total unfolding table_inv_def by blast
    then have "es' = es[i := fresh k]" "h' = h2"
      using assms(6) Some by (auto simp: table_create_def)
    then show ?thesis
      using insert_fresh_inv [OF assms(1) i h2 assms(3-5)] ex by simp
  next
    case None
    then have all: "\<forall>e\<in>set es. vld e" by (simp add: find_index_None_set)
    let ?v = "victim es" and ?es = "es[victim es := blank]"
    have v: "vld (es ! ?v)" using all assms(2) len by simp
    note ev = evict_inv [OF assms(1,2) v]
    obtain h2 where h2: "hash_insert (rebuild_hash vld key ?es) k ?v = Some h2"
      using ev(1) hash_insert_total unfolding table_inv_def by blast
    then have eq: "es' = ?es[?v := fresh k]" "h' = h2"
      using assms(6) None by (auto simp: table_create_def Let_def)
    have "table_map vld key ?es k = None" using ev(2) assms(5) by simp
    moreover have "\<not> vld (?es ! ?v)" using assms(2) len blank_invalid by simp
    ultimately show ?thesis
      unfolding eq using insert_fresh_inv [OF ev(1) assms(2) _ h2 assms(3,4)] all ev(2) by simp
  qed
  then show "table_inv vld key es' h'" and "table_map vld key es' =
      (if \<exists>e\<in>set es. \<not> vld e then (table_map vld key es)(k \<mapsto> fresh k)
       else (table_map vld key es)(key (es ! victim es) := None, k \<mapsto> fresh k))"
    by blast+
qed

lemma goc_total:
  assumes "refs_inv vld es h" and "victim es < MAX_PENDING"
  shows "\<exists>i es' h'. table_get_or_create vld key blank victim fresh es h k = (Some i, es', h')
    \<and> i < MAX_PENDING \<and> vld (es' ! i) \<and> refs_inv vld es' h'"
proof (cases "table_find vld key es h k")
  case None
  then show ?thesis
    using create_total [where victim = victim, OF assms, of k] fresh_valid by (fastforce simp: table_get_or_create_def)
next
  case (Some i)
  then show ?thesis
    using table_find_refs [OF assms(1) Some] assms(1) refs_inv_lengthD(1) [OF assms(1)]
    by (simp add: table_get_or_create_def)
qed

lemma goc_inv:
  assumes "table_inv vld key es h" and "victim es < MAX_PENDING" and "k \<noteq> []" and "length k < keylen"
    and "table_get_or_create vld key blank victim fresh es h k = (r, es', h')"
  shows "table_inv vld key es' h'"
    and "table_map vld key es' k = Some (case table_map vld key es k of Some e \<Rightarrow> e | None \<Rightarrow> fresh k)"
    and "k' \<noteq> k \<Longrightarrow> table_map vld key es' k' = table_map vld key es k' \<or> table_map vld key es' k' = None"
    and "\<exists>e\<in>set es. \<not> vld e \<Longrightarrow> k' \<noteq> k \<Longrightarrow> table_map vld key es' k' = table_map vld key es k'"
    and "\<exists>i. r = Some i \<and> i < length es' \<and> vld (es' ! i) \<and> key (es' ! i) = k
      \<and> table_map vld key es' k = Some (es' ! i)"
proof -
  have find: "map_option (nth es) (table_find vld key es h k) = table_map vld key es k"
    using assms(1) by (rule table_find_map)
  have *: "table_inv vld key es' h' \<and>
    table_map vld key es' k = Some (case table_map vld key es k of Some e \<Rightarrow> e | None \<Rightarrow> fresh k) \<and>
    (\<forall>k'. k' \<noteq> k \<longrightarrow> table_map vld key es' k' = table_map vld key es k' \<or> table_map vld key es' k' = None) \<and>
    (\<forall>k'. (\<exists>e\<in>set es. \<not> vld e) \<and> k' \<noteq> k \<longrightarrow> table_map vld key es' k' = table_map vld key es k')"
  proof (cases "table_find vld key es h k")
    case None
    then have n: "table_map vld key es k = None" using find by simp
    have "table_create vld key blank victim fresh es h k = (r, es', h')"
      using None assms(5) by (simp add: table_get_or_create_def)
    note create_inv [OF assms(1-4) n this]
    then show ?thesis using n by (auto split: if_splits)
  next
    case (Some i)
    then have "table_map vld key es k = Some (es ! i)"
      using find by simp
    moreover have "es' = es" "h' = h"
      using assms(5) Some by (simp_all add: table_get_or_create_def)
    ultimately show ?thesis
      using assms(1) by simp
  qed
  note c1 = conjunct1 [OF *] and c2 = conjunct1 [OF conjunct2 [OF *]]
    and c3 = conjunct1 [OF conjunct2 [OF conjunct2 [OF *]]] and c4 = conjunct2 [OF conjunct2 [OF conjunct2 [OF *]]]
  show "table_inv vld key es' h'" by (rule c1)
  show "table_map vld key es' k = Some (case table_map vld key es k of Some e \<Rightarrow> e | None \<Rightarrow> fresh k)"
    by (rule c2)
  show "k' \<noteq> k \<Longrightarrow> table_map vld key es' k' = table_map vld key es k' \<or> table_map vld key es' k' = None"
    by (rule c3 [rule_format])
  show "\<exists>e\<in>set es. \<not> vld e \<Longrightarrow> k' \<noteq> k \<Longrightarrow> table_map vld key es' k' = table_map vld key es k'"
    by (rule c4 [rule_format, OF conjI])
  show "\<exists>i. r = Some i \<and> i < length es' \<and> vld (es' ! i) \<and> key (es' ! i) = k
      \<and> table_map vld key es' k = Some (es' ! i)"
  proof -
    have kd: "keys_distinct vld key es'" using * by (simp add: table_inv_def lookup_inv_def)
    have "\<exists>i. r = Some i \<and> i < length es' \<and> vld (es' ! i) \<and> key (es' ! i) = k"
    proof (cases "table_find vld key es h k")
      case None
      then have "table_create vld key blank victim fresh es h k = (r, es', h')"
        using assms(5) by (simp add: table_get_or_create_def)
      then show ?thesis
        using create_total [of es h victim k] assms(1-4) refs_inv_lengthD(1) [of vld es' h']
        by (fastforce simp: table_inv_def fresh_valid fresh_key)
    next
      case (Some i)
      then have "r = Some i" "es' = es"
        using assms(5) by (simp_all add: table_get_or_create_def)
      then show ?thesis
        using table_find_iff [OF assms(1), of k i] Some by blast
    qed
    then show ?thesis
      using table_map_Some [OF kd] by blast
  qed
qed

lemma update_refs:
  assumes "refs_inv vld es h" and "vld e"
  shows "refs_inv vld (es[i := e]) h"
proof -
  have "vld (es[i := e] ! j)" if "vld (es ! j)" for j
    using that assms(2) by (cases "i = j"; cases "i < length es") (auto simp: list_update_beyond)
  then show ?thesis
    using assms(1) by (simp add: refs_inv_def)
qed

lemma update_inv:
  assumes "table_inv vld key es h" and "i < length es" and "vld (es ! i)" and "vld e" and "key e = key (es ! i)"
  shows "table_inv vld key (es[i := e]) h"
    and "table_map vld key (es[i := e]) = (table_map vld key es)(key e \<mapsto> e)"
proof -
  have kd: "keys_distinct vld key es" using assms(1) by (simp add: table_inv_def lookup_inv_def)
  have kd': "keys_distinct vld key (es[i := e])"
    using kd assms keys_distinctD [OF kd] by (intro keys_distinct_update) metis+
  then show "table_inv vld key (es[i := e]) h"
    using assms update_refs [of es h e i]
    by (auto simp: table_inv_def lookup_inv_def nth_list_update)
  show "table_map vld key (es[i := e]) = (table_map vld key es)(key e \<mapsto> e)"
    using table_map_update [OF kd kd'] assms by simp
qed

text \<open>
  The two shapes every operation of the clients has: find or create an entry and change
  it, find an entry and change it if there is one. The change keeps validity and key.
\<close>

lemma goc_update:
  assumes "table_inv vld key es h" and "victim es < MAX_PENDING" and "k \<noteq> []" and "length k < keylen"
    and "\<And>e. vld (f e) = vld e" and "\<And>e. key (f e) = key e"
  obtains i es' h' where "table_get_or_create vld key blank victim fresh es h k = (Some i, es', h')"
    "i < length es'" "es' ! i = (case table_map vld key es k of Some e \<Rightarrow> e | None \<Rightarrow> fresh k)"
    "table_inv vld key es' h'" "table_inv vld key (es'[i := f (es' ! i)]) h'"
    "table_map vld key es' k = Some (es' ! i)"
    "table_map vld key (es'[i := f (es' ! i)]) k = Some (f (es' ! i))"
    "\<And>k' es''. k' \<noteq> k \<Longrightarrow> es'' = es' \<or> es'' = es'[i := f (es' ! i)] \<Longrightarrow>
       table_map vld key es'' k' = table_map vld key es k' \<or> table_map vld key es'' k' = None"
    "\<And>k' es''. k' \<noteq> k \<Longrightarrow> es'' = es' \<or> es'' = es'[i := f (es' ! i)] \<Longrightarrow> \<exists>e\<in>set es. \<not> vld e \<Longrightarrow>
       table_map vld key es'' k' = table_map vld key es k'"
proof -
  obtain r es' h' where g: "table_get_or_create vld key blank victim fresh es h k = (r, es', h')"
    by (metis prod_cases3)
  note goc = goc_inv [where victim = victim, OF assms(1-4) g]
  obtain i where i: "r = Some i" "i < length es'" "vld (es' ! i)" "key (es' ! i) = k"
      "table_map vld key es' k = Some (es' ! i)"
    using goc(5) by blast
  note u = update_inv [OF goc(1) i(2,3), of "f (es' ! i)", unfolded assms(5,6), OF i(3) refl]
  have e: "es' ! i = (case table_map vld key es k of Some e \<Rightarrow> e | None \<Rightarrow> fresh k)"
    using goc(2) i(5) by simp
  have frame: "table_map vld key es'' k' = table_map vld key es' k'"
    if "k' \<noteq> k" "es'' = es' \<or> es'' = es'[i := f (es' ! i)]" for k' es''
    using that u(2) i(4) by auto
  show ?thesis
  proof (rule that [OF g [unfolded i(1)] i(2) e goc(1) u(1) i(5)])
    show "table_map vld key (es'[i := f (es' ! i)]) k = Some (f (es' ! i))"
      using u(2) i(4) by simp
    show "table_map vld key es'' k' = table_map vld key es k' \<or> table_map vld key es'' k' = None"
      if "k' \<noteq> k" "es'' = es' \<or> es'' = es'[i := f (es' ! i)]" for k' es''
      unfolding frame [OF that] by (rule goc(3) [OF that(1)])
    show "table_map vld key es'' k' = table_map vld key es k'"
      if "k' \<noteq> k" "es'' = es' \<or> es'' = es'[i := f (es' ! i)]" "\<exists>e\<in>set es. \<not> vld e" for k' es''
      unfolding frame [OF that(1,2)] by (rule goc(4) [OF that(3,1)])
  qed
qed

lemma find_update:
  assumes "table_inv vld key es h" and "\<And>e. vld (f e) = vld e" and "\<And>e. key (f e) = key e"
    and "es' = (case table_find vld key es h k of Some i \<Rightarrow> es[i := f (es ! i)] | None \<Rightarrow> es)"
  shows "table_inv vld key es' h \<and>
    table_map vld key es' = (table_map vld key es)(k := map_option f (table_map vld key es k))"
proof (cases "table_find vld key es h k")
  case None
  then have "table_map vld key es k = None"
    using table_find_map [OF assms(1), of k] by simp
  then show ?thesis
    using None assms(1,4) by (simp add: fun_upd_idem)
next
  case (Some i)
  then have i: "i < length es" "vld (es ! i)" "key (es ! i) = k"
    using table_find_iff [OF assms(1)] by simp_all
  have "table_map vld key es k = Some (es ! i)"
    using table_find_map [OF assms(1), of k] Some by simp
  then show ?thesis
    using update_inv [OF assms(1) i(1,2), of "f (es ! i)"] i assms(2-4) Some by simp
qed

lemma find_update_refs:
  assumes "refs_inv vld es h" and "table_find vld key es h k = Some i" and "vld e = vld (es ! i)"
  shows "refs_inv vld (es[i := e]) h"
  using update_refs [OF assms(1)] table_find_refs [OF assms(1,2)] assms(3) by simp

end

end
