(* ===== verification/Title_State.thy ===== *)
theory Title_State
  imports Slot_Index
begin

text \<open>
  \<^verbatim>\<open>src/sm_title_state.c\<close>: the per-title retry counters and the duplicate-notification
  flag, kept in \<open>MAX_PENDING\<close> entries behind the index of \<open>Slot_Index\<close>. An operation of the
  code that dereferences the entry pointer without testing it returns an \<open>option\<close> here:
  \<open>None\<close> is the dereference of NULL.
\<close>

section \<open>State\<close>

record title_entry =
  te_title_id :: string
  te_mount_reg_attempts :: u8
  te_register_attempts :: u8
  te_duplicate_notified_once :: bool
  te_valid :: bool

record title_state =
  ts_entries :: "title_entry list"
  ts_hash :: "nat list"

definition blank_title :: title_entry where
  "blank_title = \<lparr>te_title_id = [], te_mount_reg_attempts = 0, te_register_attempts = 0,
     te_duplicate_notified_once = False, te_valid = False\<rparr>"

definition fresh_title :: "string \<Rightarrow> title_entry" where
  "fresh_title title_id = blank_title\<lparr>te_valid := True, te_title_id := strlcpy title_id MAX_TITLE_ID\<rparr>"

definition title_state_init :: title_state where
  "title_state_init = \<lparr>ts_entries = replicate MAX_PENDING blank_title, ts_hash = empty_hash\<rparr>"

section \<open>Operations\<close>

definition rebuild_title_state_hash :: "title_entry list \<Rightarrow> nat list" where
  "rebuild_title_state_hash = rebuild_hash te_valid te_title_id"

definition find_title_state :: "title_state \<Rightarrow> string \<Rightarrow> nat option" where
  "find_title_state st title_id = table_find te_valid te_title_id (ts_entries st) (ts_hash st) title_id"

definition title_victim :: "title_entry list \<Rightarrow> nat" where
  "title_victim es =
     (case find_index (\<lambda>e. te_valid e \<and> te_mount_reg_attempts e = 0 \<and> te_register_attempts e = 0) es of
        Some k \<Rightarrow> k
      | None \<Rightarrow>
          (case find_index (\<lambda>e. te_valid e \<and> te_mount_reg_attempts e = 0) es of
             Some k \<Rightarrow> k
           | None \<Rightarrow> 0))"

definition create_title_state :: "title_state \<Rightarrow> string \<Rightarrow> nat option \<times> title_state" where
  "create_title_state st title_id =
     (let (r, es, h) = table_create te_valid te_title_id blank_title title_victim fresh_title
                         (ts_entries st) (ts_hash st) title_id
      in (r, \<lparr>ts_entries = es, ts_hash = h\<rparr>))"

definition get_or_create_title_state :: "title_state \<Rightarrow> string \<Rightarrow> nat option \<times> title_state" where
  "get_or_create_title_state st title_id =
     (case find_title_state st title_id of
        Some i \<Rightarrow> (Some i, st)
      | None \<Rightarrow> create_title_state st title_id)"

definition title_entry_at :: "title_state \<Rightarrow> nat \<Rightarrow> title_entry" where
  "title_entry_at st i = ts_entries st ! i"

definition set_title_entry :: "title_state \<Rightarrow> nat \<Rightarrow> title_entry \<Rightarrow> title_state" where
  "set_title_entry st i e = st\<lparr>ts_entries := (ts_entries st)[i := e]\<rparr>"

definition was_register_attempted :: "title_state \<Rightarrow> string \<Rightarrow> bool" where
  "was_register_attempted st title_id =
     (case find_title_state st title_id of
        Some i \<Rightarrow> te_register_attempts (title_entry_at st i) \<ge> MAX_REGISTER_ATTEMPTS
      | None \<Rightarrow> False)"

definition get_register_attempts :: "title_state \<Rightarrow> string \<Rightarrow> u8" where
  "get_register_attempts st title_id =
     (case find_title_state st title_id of
        Some i \<Rightarrow> te_register_attempts (title_entry_at st i)
      | None \<Rightarrow> 0)"

definition mark_register_attempted :: "title_state \<Rightarrow> string \<Rightarrow> title_state option" where
  "mark_register_attempted st title_id =
     (case get_or_create_title_state st title_id of
        (None, _) \<Rightarrow> None
      | (Some i, st') \<Rightarrow>
          (let e = title_entry_at st' i
           in Some (set_title_entry st' i
                (e\<lparr>te_register_attempts := sat_inc (te_register_attempts e)\<rparr>))))"

definition clear_register_attempts :: "title_state \<Rightarrow> string \<Rightarrow> title_state" where
  "clear_register_attempts st title_id =
     (case find_title_state st title_id of
        Some i \<Rightarrow> set_title_entry st i ((title_entry_at st i)\<lparr>te_register_attempts := 0\<rparr>)
      | None \<Rightarrow> st)"

definition notify_duplicate_title_once ::
  "title_state \<Rightarrow> string \<Rightarrow> string \<Rightarrow> string \<Rightarrow> (notice list \<times> title_state) option" where
  "notify_duplicate_title_once st title_id path_a path_b =
     (case get_or_create_title_state st title_id of
        (None, _) \<Rightarrow> None
      | (Some i, st') \<Rightarrow>
          (if te_duplicate_notified_once (title_entry_at st' i) then Some ([], st')
           else Some ([DUPLICATE_IGNORED title_id path_a path_b],
                  set_title_entry st' i ((title_entry_at st' i)\<lparr>te_duplicate_notified_once := True\<rparr>))))"

definition clear_duplicate_title_notification :: "title_state \<Rightarrow> string \<Rightarrow> title_state" where
  "clear_duplicate_title_notification st title_id =
     (case find_title_state st title_id of
        Some i \<Rightarrow> set_title_entry st i ((title_entry_at st i)\<lparr>te_duplicate_notified_once := False\<rparr>)
      | None \<Rightarrow> st)"

definition get_failed_mount_attempts :: "title_state \<Rightarrow> string \<Rightarrow> u8" where
  "get_failed_mount_attempts st title_id =
     (case find_title_state st title_id of
        Some i \<Rightarrow> te_mount_reg_attempts (title_entry_at st i)
      | None \<Rightarrow> 0)"

definition clear_failed_mount_attempts :: "title_state \<Rightarrow> string \<Rightarrow> title_state" where
  "clear_failed_mount_attempts st title_id =
     (case find_title_state st title_id of
        Some i \<Rightarrow> set_title_entry st i ((title_entry_at st i)\<lparr>te_mount_reg_attempts := 0\<rparr>)
      | None \<Rightarrow> st)"

definition bump_failed_mount_attempts :: "title_state \<Rightarrow> string \<Rightarrow> (u8 \<times> title_state) option" where
  "bump_failed_mount_attempts st title_id =
     (case get_or_create_title_state st title_id of
        (None, _) \<Rightarrow> None
      | (Some i, st') \<Rightarrow>
          (let e = title_entry_at st' i; c = sat_inc (te_mount_reg_attempts e)
           in Some (c, set_title_entry st' i (e\<lparr>te_mount_reg_attempts := c\<rparr>))))"

text \<open>The counters before the reset, register attempts first, and the reset state.\<close>

definition reset_title_attempts :: "title_state \<Rightarrow> string \<Rightarrow> (u8 \<times> u8) \<times> title_state" where
  "reset_title_attempts st title_id =
     (if title_id = [] then ((0, 0), st)
      else
        (case find_title_state st title_id of
           Some i \<Rightarrow>
             (let e = title_entry_at st i
              in ((te_register_attempts e, te_mount_reg_attempts e),
                  set_title_entry st i (e\<lparr>te_register_attempts := 0, te_mount_reg_attempts := 0\<rparr>)))
         | None \<Rightarrow> ((0, 0), st)))"

definition title_has_attempts :: "title_entry \<Rightarrow> bool" where
  "title_has_attempts e \<longleftrightarrow>
     te_valid e \<and> \<not> (te_register_attempts e = 0 \<and> te_mount_reg_attempts e = 0)"

definition reset_all_title_attempts :: "title_state \<Rightarrow> nat \<times> title_state" where
  "reset_all_title_attempts st =
     (count_if title_has_attempts (ts_entries st),
      st\<lparr>ts_entries := map (\<lambda>e. if title_has_attempts e
           then e\<lparr>te_register_attempts := 0, te_mount_reg_attempts := 0\<rparr> else e) (ts_entries st)\<rparr>)"

section \<open>Invariant and meaning\<close>

interpretation tt: slot_table te_valid te_title_id blank_title fresh_title MAX_TITLE_ID
  by unfold_locales (simp_all add: blank_title_def fresh_title_def strlcpy_id)

definition title_refs :: "title_state \<Rightarrow> bool" where
  "title_refs st \<longleftrightarrow> refs_inv te_valid (ts_entries st) (ts_hash st)"

definition title_inv :: "title_state \<Rightarrow> bool" where
  "title_inv st \<longleftrightarrow> table_inv te_valid te_title_id (ts_entries st) (ts_hash st)"

definition title_map :: "title_state \<Rightarrow> string \<Rightarrow> title_entry option" where
  "title_map st = table_map te_valid te_title_id (ts_entries st)"

text \<open>What the counters of a title are worth when it has no entry.\<close>

definition title_of :: "title_state \<Rightarrow> string \<Rightarrow> title_entry" where
  "title_of st title_id = (case title_map st title_id of Some e \<Rightarrow> e | None \<Rightarrow> fresh_title title_id)"

definition wf_title_id :: "string \<Rightarrow> bool" where
  "wf_title_id title_id \<longleftrightarrow> title_id \<noteq> [] \<and> length title_id < MAX_TITLE_ID"

lemma title_inv_refs: "title_inv st \<Longrightarrow> title_refs st"
  by (simp add: title_inv_def title_refs_def table_inv_def)

lemma title_inv_init: "title_inv title_state_init"
  by (simp add: title_inv_def title_state_init_def tt.inv_init)

lemma title_victim_less: "length es = MAX_PENDING \<Longrightarrow> title_victim es < MAX_PENDING"
  by (auto simp: title_victim_def dest: find_index_SomeD split: option.splits)

lemma goc_table:
  "get_or_create_title_state st title_id =
     (let (r, es, h) = table_get_or_create te_valid te_title_id blank_title title_victim fresh_title
                         (ts_entries st) (ts_hash st) title_id
      in (r, \<lparr>ts_entries = es, ts_hash = h\<rparr>))"
  by (simp add: get_or_create_title_state_def table_get_or_create_def find_title_state_def
      create_title_state_def split: option.splits)

lemma title_goc_total:
  assumes "title_refs st"
  shows "\<exists>i st'. get_or_create_title_state st t = (Some i, st') \<and> i < length (ts_entries st')
    \<and> te_valid (title_entry_at st' i) \<and> title_refs st'"
proof -
  have "title_victim (ts_entries st) < MAX_PENDING"
    using assms by (auto simp: title_refs_def refs_inv_def intro: title_victim_less)
  from tt.goc_total [where victim = title_victim, OF assms [unfolded title_refs_def] this, of t]
  show ?thesis
    by (auto simp: goc_table title_refs_def title_entry_at_def refs_inv_def)
qed

lemma title_goc_inv:
  assumes "title_inv st" and "wf_title_id t"
  obtains i st' where "get_or_create_title_state st t = (Some i, st')" "title_inv st'"
    "i < length (ts_entries st')" "te_valid (title_entry_at st' i)" "te_title_id (title_entry_at st' i) = t"
    "title_entry_at st' i = title_of st t" "title_map st' t = Some (title_of st t)"
    "\<And>t'. t' \<noteq> t \<Longrightarrow> title_map st' t' = title_map st t' \<or> title_map st' t' = None"
    "\<And>t'. t' \<noteq> t \<Longrightarrow> \<exists>e\<in>set (ts_entries st). \<not> te_valid e \<Longrightarrow> title_map st' t' = title_map st t'"
proof -
  have v: "title_victim (ts_entries st) < MAX_PENDING"
    using assms(1) by (auto simp: title_inv_def table_inv_def refs_inv_def intro: title_victim_less)
  obtain r es h where g: "table_get_or_create te_valid te_title_id blank_title title_victim fresh_title
      (ts_entries st) (ts_hash st) t = (r, es, h)"
    by (metis prod_cases3)
  let ?st = "\<lparr>ts_entries = es, ts_hash = h\<rparr>"
  have "t \<noteq> []" "length t < MAX_TITLE_ID"
    using assms(2) by (simp_all add: wf_title_id_def)
  note goc = tt.goc_inv [where victim = title_victim, OF assms(1) [unfolded title_inv_def] v this g]
  obtain i where i: "r = Some i" "i < length es" "te_valid (es ! i)" "te_title_id (es ! i) = t"
      "table_map te_valid te_title_id es t = Some (es ! i)"
    using goc(5) by blast
  have e: "es ! i = title_of st t"
    using goc(2) i(5) by (simp add: title_of_def title_map_def)
  show ?thesis
  proof (rule that [of i ?st])
    show "get_or_create_title_state st t = (Some i, ?st)"
      by (simp add: goc_table g i(1))
    show "title_map ?st t' = title_map st t' \<or> title_map ?st t' = None" if "t' \<noteq> t" for t'
      using goc(3) [OF that] by (simp add: title_map_def)
    show "title_map ?st t' = title_map st t'"
      if "t' \<noteq> t" "\<exists>e\<in>set (ts_entries st). \<not> te_valid e" for t'
      using goc(4) [OF that(2,1)] by (simp add: title_map_def)
  qed (use goc(1) i e in \<open>simp_all add: title_inv_def title_map_def title_entry_at_def\<close>)
qed

lemma find_title_map:
  "title_inv st \<Longrightarrow> map_option (title_entry_at st) (find_title_state st t) = title_map st t"
  using table_find_map [of te_valid te_title_id "ts_entries st" "ts_hash st" t]
  by (simp add: title_inv_def find_title_state_def title_map_def title_entry_at_def [abs_def])

lemma find_title_SomeD:
  assumes "title_refs st" and "find_title_state st t = Some i"
  shows "i < length (ts_entries st)" "te_valid (title_entry_at st i)" "te_title_id (title_entry_at st i) = t"
  using table_find_refs [of te_valid "ts_entries st" "ts_hash st" te_title_id t i] assms
  by (simp_all add: title_refs_def find_title_state_def title_entry_at_def)

lemma set_title_entry_refs: "title_refs st \<Longrightarrow> te_valid e \<Longrightarrow> title_refs (set_title_entry st i e)"
  by (simp add: title_refs_def set_title_entry_def tt.update_refs)

lemma set_title_entry_inv:
  assumes "title_inv st" and "i < length (ts_entries st)" and "te_valid (title_entry_at st i)"
    and "te_valid e" and "te_title_id e = te_title_id (title_entry_at st i)"
  shows "title_inv (set_title_entry st i e)"
    and "title_map (set_title_entry st i e) = (title_map st)(te_title_id e \<mapsto> e)"
  using tt.update_inv [of "ts_entries st" "ts_hash st" i e] assms
  by (simp_all add: title_inv_def title_map_def set_title_entry_def title_entry_at_def)

lemma title_of_wf [simp]:
  assumes "title_inv st" and "wf_title_id t"
  shows "te_valid (title_of st t)" "te_title_id (title_of st t) = t"
  using title_goc_inv [OF assms] by (metis, metis)

text \<open>Find or create the entry of a title, then change its counters: the common effect.\<close>

lemma title_modify:
  assumes "title_inv st" and "wf_title_id t"
    and "\<And>e. te_valid (f e) = te_valid e" and "\<And>e. te_title_id (f e) = te_title_id e"
  obtains i st' where "get_or_create_title_state st t = (Some i, st')" "title_entry_at st' i = title_of st t"
    "title_inv st'" "title_inv (set_title_entry st' i (f (title_of st t)))"
    "title_map (set_title_entry st' i (f (title_of st t))) t = Some (f (title_of st t))"
    "title_map st' t = Some (title_of st t)"
    "\<And>t' s'. t' \<noteq> t \<Longrightarrow> s' = st' \<or> s' = set_title_entry st' i (f (title_of st t)) \<Longrightarrow>
       title_map s' t' = title_map st t' \<or> title_map s' t' = None"
proof -
  obtain i st' where g: "get_or_create_title_state st t = (Some i, st')" "title_inv st'"
    "i < length (ts_entries st')" "te_valid (title_entry_at st' i)" "te_title_id (title_entry_at st' i) = t"
    "title_entry_at st' i = title_of st t" "title_map st' t = Some (title_of st t)"
    and frame: "\<And>t'. t' \<noteq> t \<Longrightarrow> title_map st' t' = title_map st t' \<or> title_map st' t' = None"
    using title_goc_inv [OF assms(1,2)] by metis
  note upd = set_title_entry_inv [OF g(2-4), of "f (title_of st t)"]
  have u: "title_inv (set_title_entry st' i (f (title_of st t)))"
    "title_map (set_title_entry st' i (f (title_of st t))) = (title_map st')(t \<mapsto> f (title_of st t))"
    using upd g assms by simp_all
  show ?thesis
    by (rule that [OF g(1,6,2) u(1) _ g(7)]) (auto simp: u(2), (metis frame option.distinct(1))+)
qed

lemma title_find_modify:
  assumes "title_inv st" and "\<And>e. te_valid (f e) = te_valid e" and "\<And>e. te_title_id (f e) = te_title_id e"
  shows "title_inv (case find_title_state st t of Some i \<Rightarrow> set_title_entry st i (f (title_entry_at st i)) | None \<Rightarrow> st)"
    and "title_map (case find_title_state st t of Some i \<Rightarrow> set_title_entry st i (f (title_entry_at st i)) | None \<Rightarrow> st)
      = (title_map st)(t := map_option f (title_map st t))"
proof -
  have "title_inv (case find_title_state st t of Some i \<Rightarrow> set_title_entry st i (f (title_entry_at st i)) | None \<Rightarrow> st) \<and>
    title_map (case find_title_state st t of Some i \<Rightarrow> set_title_entry st i (f (title_entry_at st i)) | None \<Rightarrow> st)
      = (title_map st)(t := map_option f (title_map st t))"
  proof (cases "find_title_state st t")
    case None
    then have "title_map st t = None" using find_title_map [OF assms(1), of t] by simp
    then show ?thesis using None assms(1) by (simp add: fun_upd_idem)
  next
    case (Some i)
    note fd = find_title_SomeD [OF title_inv_refs [OF assms(1)] Some]
    have "title_map st t = Some (title_entry_at st i)"
      using find_title_map [OF assms(1), of t] Some by simp
    then show ?thesis
      using Some set_title_entry_inv [OF assms(1) fd(1,2), of "f (title_entry_at st i)"] fd assms(2,3)
      by simp
  qed
  then show "title_inv (case find_title_state st t of Some i \<Rightarrow> set_title_entry st i (f (title_entry_at st i)) | None \<Rightarrow> st)"
    and "title_map (case find_title_state st t of Some i \<Rightarrow> set_title_entry st i (f (title_entry_at st i)) | None \<Rightarrow> st)
      = (title_map st)(t := map_option f (title_map st t))"
    by blast+
qed

lemma get_failed_of: "title_inv st \<Longrightarrow> get_failed_mount_attempts st t = te_mount_reg_attempts (title_of st t)"
  using find_title_map [of st t]
  by (auto simp: get_failed_mount_attempts_def title_of_def fresh_title_def blank_title_def split: option.splits)

lemma get_register_of: "title_inv st \<Longrightarrow> get_register_attempts st t = te_register_attempts (title_of st t)"
  using find_title_map [of st t]
  by (auto simp: get_register_attempts_def title_of_def fresh_title_def blank_title_def split: option.splits)

lemma was_register_iff:
  "was_register_attempted st t \<longleftrightarrow> MAX_REGISTER_ATTEMPTS \<le> get_register_attempts st t"
  by (simp add: was_register_attempted_def get_register_attempts_def split: option.splits)

lemma bump_failed_spec:
  assumes "title_inv st" and "wf_title_id t"
  obtains st' where "bump_failed_mount_attempts st t = Some (sat_inc (get_failed_mount_attempts st t), st')"
    "title_inv st'"
    "title_of st' t = (title_of st t)\<lparr>te_mount_reg_attempts := sat_inc (get_failed_mount_attempts st t)\<rparr>"
    "\<And>t'. t' \<noteq> t \<Longrightarrow> title_map st' t' = title_map st t' \<or> title_map st' t' = None"
proof -
  let ?f = "\<lambda>e. e\<lparr>te_mount_reg_attempts := sat_inc (te_mount_reg_attempts e)\<rparr>"
  obtain i st' where g: "get_or_create_title_state st t = (Some i, st')" "title_entry_at st' i = title_of st t"
    "title_inv (set_title_entry st' i (?f (title_of st t)))"
    "title_map (set_title_entry st' i (?f (title_of st t))) t = Some (?f (title_of st t))"
    and fr: "\<And>t' s'. t' \<noteq> t \<Longrightarrow> s' = st' \<or> s' = set_title_entry st' i (?f (title_of st t)) \<Longrightarrow>
       title_map s' t' = title_map st t' \<or> title_map s' t' = None"
    by (rule title_modify [OF assms, of ?f]) auto
  show ?thesis
    by (rule that [OF _ g(3)])
      (use g fr in \<open>auto simp: bump_failed_mount_attempts_def Let_def title_of_def get_failed_of [OF assms(1)]\<close>)
qed

lemma clear_failed_inv [inv_intros]: "title_inv st \<Longrightarrow> title_inv (clear_failed_mount_attempts st t)"
  using title_find_modify(1) [of st "\<lambda>e. e\<lparr>te_mount_reg_attempts := 0\<rparr>" t]
  by (simp add: clear_failed_mount_attempts_def)

lemma clear_failed_map:
  "title_inv st \<Longrightarrow> title_map (clear_failed_mount_attempts st t) =
     (title_map st)(t := map_option (\<lambda>e. e\<lparr>te_mount_reg_attempts := 0\<rparr>) (title_map st t))"
  using title_find_modify(2) [of st "\<lambda>e. e\<lparr>te_mount_reg_attempts := 0\<rparr>" t]
  by (simp add: clear_failed_mount_attempts_def)

lemma clear_register_inv [inv_intros]: "title_inv st \<Longrightarrow> title_inv (clear_register_attempts st t)"
  using title_find_modify(1) [of st "\<lambda>e. e\<lparr>te_register_attempts := 0\<rparr>" t]
  by (simp add: clear_register_attempts_def)

lemma clear_register_map:
  "title_inv st \<Longrightarrow> title_map (clear_register_attempts st t) =
     (title_map st)(t := map_option (\<lambda>e. e\<lparr>te_register_attempts := 0\<rparr>) (title_map st t))"
  using title_find_modify(2) [of st "\<lambda>e. e\<lparr>te_register_attempts := 0\<rparr>" t]
  by (simp add: clear_register_attempts_def)

lemma clear_duplicate_inv [inv_intros]: "title_inv st \<Longrightarrow> title_inv (clear_duplicate_title_notification st t)"
  using title_find_modify(1) [of st "\<lambda>e. e\<lparr>te_duplicate_notified_once := False\<rparr>" t]
  by (simp add: clear_duplicate_title_notification_def)

lemma clear_duplicate_map:
  "title_inv st \<Longrightarrow> title_map (clear_duplicate_title_notification st t) =
     (title_map st)(t := map_option (\<lambda>e. e\<lparr>te_duplicate_notified_once := False\<rparr>) (title_map st t))"
  using title_find_modify(2) [of st "\<lambda>e. e\<lparr>te_duplicate_notified_once := False\<rparr>" t]
  by (simp add: clear_duplicate_title_notification_def)

section \<open>Runs of the component\<close>

text \<open>States reached from the zeroed tables by calls whose title ids satisfy \<open>ok\<close>.\<close>

inductive title_reach :: "(string \<Rightarrow> bool) \<Rightarrow> title_state \<Rightarrow> bool" for ok where
  start: "title_reach ok title_state_init"
| mark: "title_reach ok st \<Longrightarrow> ok t \<Longrightarrow> mark_register_attempted st t = Some st' \<Longrightarrow> title_reach ok st'"
| bump: "title_reach ok st \<Longrightarrow> ok t \<Longrightarrow> bump_failed_mount_attempts st t = Some (c, st') \<Longrightarrow> title_reach ok st'"
| notify: "title_reach ok st \<Longrightarrow> ok t \<Longrightarrow> notify_duplicate_title_once st t a b = Some (ns, st') \<Longrightarrow> title_reach ok st'"
| clear_register: "title_reach ok st \<Longrightarrow> title_reach ok (clear_register_attempts st t)"
| clear_duplicate: "title_reach ok st \<Longrightarrow> title_reach ok (clear_duplicate_title_notification st t)"
| clear_failed: "title_reach ok st \<Longrightarrow> title_reach ok (clear_failed_mount_attempts st t)"
| reset: "title_reach ok st \<Longrightarrow> title_reach ok (snd (reset_title_attempts st t))"
| reset_all: "title_reach ok st \<Longrightarrow> title_reach ok (snd (reset_all_title_attempts st))"

lemma reset_all_refs: "title_refs st \<Longrightarrow> title_refs (snd (reset_all_title_attempts st))"
  unfolding title_refs_def refs_inv_def reset_all_title_attempts_def
  by (auto simp: Suc_diff_Suc less_eq_Suc_le)

lemma reset_all_map:
  assumes "title_inv st"
  shows "title_inv (snd (reset_all_title_attempts st))"
    and "title_map (snd (reset_all_title_attempts st)) t =
      map_option (\<lambda>e. e\<lparr>te_register_attempts := 0, te_mount_reg_attempts := 0\<rparr>) (title_map st t)"
proof -
  let ?g = "\<lambda>e. if title_has_attempts e then e\<lparr>te_register_attempts := 0, te_mount_reg_attempts := 0\<rparr> else e"
  have g: "te_valid (?g e) = te_valid e" "te_title_id (?g e) = te_title_id e" for e
    by simp_all
  have g0: "?g e = e\<lparr>te_register_attempts := 0, te_mount_reg_attempts := 0\<rparr>" if "title_map st t = Some e" for e
  proof -
    have "te_valid e"
      using that by (auto simp: title_map_def table_map_def dest: find_index_SomeD)
    then show ?thesis by (cases e) (simp add: title_has_attempts_def)
  qed
  show "title_inv (snd (reset_all_title_attempts st))"
    using table_inv_map [OF assms [unfolded title_inv_def], of ?g]
    by (simp add: title_inv_def reset_all_title_attempts_def g)
  show "title_map (snd (reset_all_title_attempts st)) t =
      map_option (\<lambda>e. e\<lparr>te_register_attempts := 0, te_mount_reg_attempts := 0\<rparr>) (title_map st t)"
    using table_map_map [of te_valid ?g te_title_id "ts_entries st" t] g0
    by (cases "title_map st t") (auto simp: title_map_def reset_all_title_attempts_def)
qed

lemma title_goc_refs:
  assumes "title_refs st" and "get_or_create_title_state st t = (Some i, st')"
  shows "title_refs st'" "te_valid (title_entry_at st' i)"
  using title_goc_total [OF assms(1), of t] assms(2) by auto

lemma title_find_refs:
  assumes "title_refs st" and "find_title_state st t = Some i" and "te_valid e = te_valid (title_entry_at st i)"
  shows "title_refs (set_title_entry st i e)"
  using set_title_entry_refs [OF assms(1)] find_title_SomeD(2) [OF assms(1,2)] assms(3) by simp

lemma title_reach_refs: "title_reach ok st \<Longrightarrow> title_refs st"
proof (induction rule: title_reach.induct)
  case start
  then show ?case by (rule title_inv_refs [OF title_inv_init])
next
  case (mark st t st')
  then show ?case
    by (auto simp: mark_register_attempted_def Let_def title_goc_refs
        intro!: set_title_entry_refs split: option.splits prod.splits)
next
  case (bump st t c st')
  then show ?case
    by (auto simp: bump_failed_mount_attempts_def Let_def title_goc_refs
        intro!: set_title_entry_refs split: option.splits prod.splits)
next
  case (notify st t a b ns st')
  then show ?case
    by (auto simp: notify_duplicate_title_once_def title_goc_refs
        intro!: set_title_entry_refs split: option.splits prod.splits if_splits)
next
  case (clear_register st t)
  then show ?case
    by (auto simp: clear_register_attempts_def intro!: title_find_refs split: option.splits)
next
  case (clear_duplicate st t)
  then show ?case
    by (auto simp: clear_duplicate_title_notification_def intro!: title_find_refs split: option.splits)
next
  case (clear_failed st t)
  then show ?case
    by (auto simp: clear_failed_mount_attempts_def intro!: title_find_refs split: option.splits)
next
  case (reset st t)
  then show ?case
    by (auto simp: reset_title_attempts_def Let_def intro!: title_find_refs split: option.splits)
next
  case (reset_all st)
  from reset_all.IH show ?case by (rule reset_all_refs)
qed

lemma mark_register_spec:
  assumes "title_inv st" and "wf_title_id t"
  obtains st' where "mark_register_attempted st t = Some st'" "title_inv st'"
    "title_of st' t = (title_of st t)\<lparr>te_register_attempts := sat_inc (get_register_attempts st t)\<rparr>"
proof -
  let ?f = "\<lambda>e. e\<lparr>te_register_attempts := sat_inc (te_register_attempts e)\<rparr>"
  obtain i st' where g: "get_or_create_title_state st t = (Some i, st')" "title_entry_at st' i = title_of st t"
    "title_inv (set_title_entry st' i (?f (title_of st t)))"
    "title_map (set_title_entry st' i (?f (title_of st t))) t = Some (?f (title_of st t))"
    by (rule title_modify [OF assms, of ?f]) auto
  show ?thesis
    by (rule that [OF _ g(3)])
      (use g in \<open>auto simp: mark_register_attempted_def Let_def title_of_def get_register_of [OF assms(1)]\<close>)
qed

lemma notify_duplicate_spec:
  assumes "title_inv st" and "wf_title_id t"
  obtains st' where "notify_duplicate_title_once st t a b =
      Some (if te_duplicate_notified_once (title_of st t) then [] else [DUPLICATE_IGNORED t a b], st')"
    "title_inv st'" "title_of st' t = (title_of st t)\<lparr>te_duplicate_notified_once := True\<rparr>"
proof -
  let ?f = "\<lambda>e. e\<lparr>te_duplicate_notified_once := True\<rparr>"
  obtain i st' where g: "get_or_create_title_state st t = (Some i, st')" "title_entry_at st' i = title_of st t"
    "title_inv st'" "title_inv (set_title_entry st' i (?f (title_of st t)))"
    "title_map (set_title_entry st' i (?f (title_of st t))) t = Some (?f (title_of st t))"
    "title_map st' t = Some (title_of st t)"
    by (rule title_modify [OF assms, of ?f]) auto
  show ?thesis
  proof (cases "te_duplicate_notified_once (title_of st t)")
    case True
    then have "title_of st t = (title_of st t)\<lparr>te_duplicate_notified_once := True\<rparr>" by simp
    then show ?thesis
      using True g by (intro that [of st']) (simp_all add: notify_duplicate_title_once_def title_of_def [of st'])
  next
    case False
    then show ?thesis
      using g by (intro that [OF _ g(4)]) (simp_all add: notify_duplicate_title_once_def title_of_def)
  qed
qed

lemma reset_title_spec:
  assumes "title_inv st"
  shows "title_inv (snd (reset_title_attempts st t))"
    and "t \<noteq> [] \<Longrightarrow> fst (reset_title_attempts st t) = (get_register_attempts st t, get_failed_mount_attempts st t)"
    and "t \<noteq> [] \<Longrightarrow> title_map (snd (reset_title_attempts st t)) = (title_map st)
      (t := map_option (\<lambda>e. e\<lparr>te_register_attempts := 0, te_mount_reg_attempts := 0\<rparr>) (title_map st t))"
  using assms title_find_modify [OF assms, of "\<lambda>e. e\<lparr>te_register_attempts := 0, te_mount_reg_attempts := 0\<rparr>" t]
  by (auto simp: reset_title_attempts_def get_register_attempts_def get_failed_mount_attempts_def Let_def
      split: option.splits)

lemma title_reach_inv: "title_reach wf_title_id st \<Longrightarrow> title_inv st"
proof (induction rule: title_reach.induct)
  case start
  then show ?case by (rule title_inv_init)
next
  case (mark st t st')
  then show ?case using mark_register_spec [of st t] by fastforce
next
  case (bump st t c st')
  then show ?case using bump_failed_spec [of st t] by fastforce
next
  case (notify st t a b ns st')
  then show ?case using notify_duplicate_spec [of st t a b] by fastforce
qed (simp_all add: inv_intros reset_title_spec reset_all_map)

section \<open>The failure counters as an interface\<close>

text \<open>
  What the installer relies on: a counter per title that a failure raises (saturating at
  255), that a success clears, and that other titles' clears do not touch.
\<close>

locale failure_ledger =
  fixes inv :: "'s \<Rightarrow> bool" and ok :: "string \<Rightarrow> bool"
    and bump :: "'s \<Rightarrow> string \<Rightarrow> (u8 \<times> 's) option" and count :: "'s \<Rightarrow> string \<Rightarrow> u8"
    and clear :: "'s \<Rightarrow> string \<Rightarrow> 's"
  assumes bump_ok: "inv s \<Longrightarrow> ok t \<Longrightarrow> \<exists>s'. bump s t = Some (sat_inc (count s t), s') \<and> inv s'
      \<and> count s' t = sat_inc (count s t)"
    and clear_inv: "inv s \<Longrightarrow> inv (clear s t)"
    and clear_count: "inv s \<Longrightarrow> count (clear s t) t' = (if t' = t then 0 else count s t')"
begin

fun bumps :: "nat \<Rightarrow> 's \<Rightarrow> string \<Rightarrow> 's option" where
  "bumps 0 s t = Some s"
| "bumps (Suc n) s t = (case bump s t of None \<Rightarrow> None | Some (c, s') \<Rightarrow> bumps n s' t)"

lemma bumps_count:
  "inv s \<Longrightarrow> ok t \<Longrightarrow> \<exists>s'. bumps n s t = Some s' \<and> inv s' \<and> unat (count s' t) = min 255 (unat (count s t) + n)"
proof (induction n arbitrary: s)
  case 0
  then show ?case
    using unsigned_less [of "count s t", where 'a = nat] by simp
next
  case (Suc n)
  obtain s1 where s1: "bump s t = Some (sat_inc (count s t), s1)" "inv s1" "count s1 t = sat_inc (count s t)"
    using bump_ok [OF Suc.prems] by blast
  obtain s' where "bumps n s1 t = Some s'" "inv s'" "unat (count s' t) = min 255 (unat (count s1 t) + n)"
    using Suc.IH [OF s1(2) Suc.prems(2)] by blast
  then show ?case
    using s1 by (simp add: unat_sat_inc)
qed

lemma limit_reached:
  assumes "inv s" and "ok t" and "bump (clear s t) t = Some (c1, s1)" and "bump s1 t = Some (c2, s2)"
  shows "c1 = 1 \<and> c2 = 2"
proof -
  have c: "inv (clear s t)" "count (clear s t) t = 0"
    using assms(1) by (simp_all add: clear_inv clear_count)
  then have "c1 = 1" "inv s1" "count s1 t = 1"
    using bump_ok [OF c(1) assms(2)] assms(3) by (auto simp: sat_inc_def)
  then show ?thesis
    using bump_ok [of s1 t] assms(2,4) by (auto simp: sat_inc_def)
qed

end

interpretation failed: failure_ledger title_inv wf_title_id bump_failed_mount_attempts
  get_failed_mount_attempts clear_failed_mount_attempts
proof unfold_locales
  fix s t
  assume "title_inv s" "wf_title_id t"
  then obtain s' where "bump_failed_mount_attempts s t = Some (sat_inc (get_failed_mount_attempts s t), s')"
    "title_inv s'" "title_of s' t = (title_of s t)\<lparr>te_mount_reg_attempts := sat_inc (get_failed_mount_attempts s t)\<rparr>"
    by (rule bump_failed_spec) blast
  then show "\<exists>s'. bump_failed_mount_attempts s t = Some (sat_inc (get_failed_mount_attempts s t), s')
      \<and> title_inv s' \<and> get_failed_mount_attempts s' t = sat_inc (get_failed_mount_attempts s t)"
    by (simp add: get_failed_of)
next
  fix s t t'
  assume "title_inv s"
  then show "title_inv (clear_failed_mount_attempts s t)"
    and "get_failed_mount_attempts (clear_failed_mount_attempts s t) t' =
      (if t' = t then 0 else get_failed_mount_attempts s t')"
    by (auto simp: inv_intros get_failed_of clear_failed_map title_of_def fresh_title_def blank_title_def
        split: option.splits)
qed

section \<open>Properties\<close>

text \<open>
  C29. No operation of the title table ever dereferences a NULL entry pointer: in every
  state reached from the zeroed tables, by calls with any title ids whatever (empty or too
  long ones included), \<^verbatim>\<open>get_or_create_title_state\<close> finds or creates an entry, so the
  three operations that use its result unchecked are defined. The index has twice as many
  slots as there are entries, so the code's ``index full'' branch is dead.
\<close>

theorem title_state_no_null_deref:
  assumes "title_reach (\<lambda>_. True) st"
  shows "mark_register_attempted st t \<noteq> None \<and> bump_failed_mount_attempts st t \<noteq> None
    \<and> notify_duplicate_title_once st t a b \<noteq> None"
  using title_goc_total [OF title_reach_refs [OF assms], of t]
  by (auto simp: mark_register_attempted_def bump_failed_mount_attempts_def
      notify_duplicate_title_once_def Let_def)

theorem title_state_no_null_deref_witness:
  "mark_register_attempted title_state_init ''PPSA01234'' \<noteq> None
   \<and> bump_failed_mount_attempts title_state_init ''PPSA01234'' \<noteq> None
   \<and> notify_duplicate_title_once title_state_init ''PPSA01234'' ''/a'' ''/b'' \<noteq> None"
  using title_state_no_null_deref [OF title_reach.start] by blast

text \<open>
  C28. The hash index is only an optimisation: in every state reached by calls with
  well-formed title ids (non-empty, shorter than the 32-byte field), the probing lookup
  answers what a linear search of the entry table answers.
\<close>

theorem title_find_is_linear_search:
  assumes "title_reach wf_title_id st"
  shows "find_title_state st t = find_index (\<lambda>e. te_valid e \<and> te_title_id e = t) (ts_entries st)"
  using table_find_linear title_reach_inv [OF assms] by (simp add: find_title_state_def title_inv_def)

theorem title_find_is_linear_search_witness:
  "find_title_state title_state_init ''CUSA00001'' = None"
proof -
  have "find_title_state title_state_init ''CUSA00001'' =
      find_index (\<lambda>e. te_valid e \<and> te_title_id e = ''CUSA00001'') (ts_entries title_state_init)"
    by (rule title_find_is_linear_search [OF title_reach.start])
  also have "\<dots> = None"
    by (simp add: find_index_None title_state_init_def blank_title_def)
  finally show ?thesis .
qed

text \<open>\<open>n\<close> failures of one title in a row.\<close>

fun bump_failed_times :: "nat \<Rightarrow> title_state \<Rightarrow> string \<Rightarrow> title_state option" where
  "bump_failed_times 0 st t = Some st"
| "bump_failed_times (Suc n) st t =
     (case bump_failed_mount_attempts st t of None \<Rightarrow> None | Some (c, st') \<Rightarrow> bump_failed_times n st' t)"

lemma bump_failed_times_ledger: "bump_failed_times n st t = failed.bumps n st t"
  by (induction n arbitrary: st) (auto split: option.splits)

text \<open>
  Retry counting: starting from a cleared counter, \<open>n\<close> recorded mount or install
  failures of a title leave its counter at \<open>n\<close>, saturating at 255 instead of wrapping, and
  clearing the counter of one title changes no other title's counter.
\<close>

theorem failed_attempts_counted:
  assumes "title_reach wf_title_id st" and "wf_title_id t"
  shows "(\<exists>st'. bump_failed_times n (clear_failed_mount_attempts st t) t = Some st'
      \<and> unat (get_failed_mount_attempts st' t) = min 255 n)
    \<and> (t' \<noteq> t \<longrightarrow> get_failed_mount_attempts (clear_failed_mount_attempts st t) t' = get_failed_mount_attempts st t')"
proof -
  have inv: "title_inv st" by (rule title_reach_inv [OF assms(1)])
  have "get_failed_mount_attempts (clear_failed_mount_attempts st t) t = 0"
    using failed.clear_count [OF inv] by simp
  then show ?thesis
    using failed.bumps_count [OF failed.clear_inv [OF inv, of t] assms(2), of n] failed.clear_count [OF inv]
    by (auto simp: bump_failed_times_ledger)
qed

theorem failed_attempts_counted_witness:
  "\<exists>st'. bump_failed_times 300 (clear_failed_mount_attempts title_state_init ''PPSA01234'') ''PPSA01234'' = Some st'
     \<and> unat (get_failed_mount_attempts st' ''PPSA01234'') = 255"
proof -
  have "wf_title_id ''PPSA01234''" by (simp add: wf_title_id_def)
  from failed_attempts_counted [OF title_reach.start this, of 300] show ?thesis by auto
qed

lemma title_goc_full_map:
  assumes "title_inv st" and "wf_title_id t" and "title_map st t = None" and "list_all te_valid (ts_entries st)"
  shows "title_map (snd (get_or_create_title_state st t)) =
    (title_map st)(te_title_id (ts_entries st ! title_victim (ts_entries st)) := None, t \<mapsto> fresh_title t)"
proof -
  let ?es = "ts_entries st"
  have v: "title_victim ?es < MAX_PENDING"
    using assms(1) by (auto simp: title_inv_def table_inv_def refs_inv_def intro: title_victim_less)
  obtain r es h where c: "table_create te_valid te_title_id blank_title title_victim fresh_title ?es (ts_hash st) t
      = (r, es, h)"
    by (metis prod_cases3)
  have "find_title_state st t = None"
    using assms(3) find_title_map [OF assms(1), of t] by simp
  then have "snd (get_or_create_title_state st t) = \<lparr>ts_entries = es, ts_hash = h\<rparr>"
    using c by (simp add: get_or_create_title_state_def create_title_state_def)
  moreover have "table_map te_valid te_title_id es =
      (table_map te_valid te_title_id ?es)(te_title_id (?es ! title_victim ?es) := None, t \<mapsto> fresh_title t)"
    using tt.create_inv(2) [OF assms(1) [unfolded title_inv_def] v _ _ assms(3) [unfolded title_map_def] c]
      assms(2,4) by (auto simp: wf_title_id_def list_all_iff)
  ultimately show ?thesis
    by (simp add: title_map_def)
qed

text \<open>
  Eviction spares live retry state: when creating an entry for a new title drops
  another title whose mount counter is not zero, every entry of the table is in use and
  has a non-zero mount counter.
\<close>

theorem title_eviction_spares_counters:
  assumes "title_inv st" and "wf_title_id t" and "t' \<noteq> t" and "title_map st t' = Some e"
    and "title_map (snd (get_or_create_title_state st t)) t' = None" and "te_mount_reg_attempts e \<noteq> 0"
  shows "list_all (\<lambda>x. te_valid x \<and> te_mount_reg_attempts x \<noteq> 0) (ts_entries st)"
proof -
  let ?es = "ts_entries st"
  have len: "length ?es = MAX_PENDING" and v: "title_victim ?es < MAX_PENDING"
    using assms(1) by (auto simp: title_inv_def table_inv_def refs_inv_def intro: title_victim_less)
  have full: "list_all te_valid ?es"
    using title_goc_inv [OF assms(1,2)] assms(3-5) unfolding list_all_iff
    by (metis option.distinct(1) snd_conv)
  have none: "title_map st t = None"
    using assms(3-5) find_title_map [OF assms(1), of t]
    by (cases "find_title_state st t") (auto simp: get_or_create_title_state_def)
  have "te_title_id (?es ! title_victim ?es) = t'"
    using assms(3-5) title_goc_full_map [OF assms(1,2) none full] by (auto split: if_splits)
  moreover have kd: "keys_distinct te_valid te_title_id ?es"
    using assms(1) by (simp add: title_inv_def table_inv_def lookup_inv_def)
  ultimately have e: "e = ?es ! title_victim ?es"
    using assms(4) full v len keys_distinctD [OF kd] unfolding title_map_def table_map_Some [OF kd]
    by (metis list_all_length)
  then have "find_index (\<lambda>x. te_valid x \<and> te_mount_reg_attempts x = 0) ?es = None"
    using assms(6) by (auto simp: title_victim_def dest: find_index_SomeD split: option.splits)
  then show ?thesis
    using full by (auto simp: find_index_None_set list_all_iff)
qed

text \<open>A full table in which every title has failed once.\<close>

definition full_title_entry :: "nat \<Rightarrow> title_entry" where
  "full_title_entry i = (fresh_title (string_of_nat i))\<lparr>te_mount_reg_attempts := 1\<rparr>"

definition full_title_state :: title_state where
  "full_title_state =
     (let es = map full_title_entry [0..<MAX_PENDING]
      in \<lparr>ts_entries = es, ts_hash = rebuild_title_state_hash es\<rparr>)"

lemma full_title_entry_simps:
  "te_valid (full_title_entry i)" "te_mount_reg_attempts (full_title_entry i) = 1"
  "i < MAX_PENDING \<Longrightarrow> te_title_id (full_title_entry i) = string_of_nat i"
  using length_string_of_nat [of i 3]
  by (simp_all add: full_title_entry_def fresh_title_def blank_title_def strlcpy_id)

lemma full_title_inv: "title_inv full_title_state"
  unfolding title_inv_def full_title_state_def Let_def rebuild_title_state_hash_def title_state.simps
  by (rule rebuild_table_inv)
    (auto simp: keys_distinct_def full_title_entry_simps string_of_nat_inj string_of_nat_nonempty)

lemma full_title_map: "i < MAX_PENDING \<Longrightarrow> title_map full_title_state (string_of_nat i) = Some (full_title_entry i)"
proof -
  assume i: "i < MAX_PENDING"
  have kd: "keys_distinct te_valid te_title_id (ts_entries full_title_state)"
    using full_title_inv by (simp add: title_inv_def table_inv_def lookup_inv_def)
  show ?thesis
    unfolding title_map_def table_map_Some [OF kd]
    using i by (intro exI [of _ i]) (simp add: full_title_state_def Let_def full_title_entry_simps)
qed

theorem title_eviction_spares_counters_witness:
  "list_all (\<lambda>x. te_valid x \<and> te_mount_reg_attempts x \<noteq> 0) (ts_entries full_title_state)"
proof (rule title_eviction_spares_counters [OF full_title_inv, of "''PPSA01234''" "string_of_nat 0"])
  let ?es = "ts_entries full_title_state"
  have es: "?es = map full_title_entry [0..<MAX_PENDING]"
    by (simp add: full_title_state_def Let_def)
  show wf: "wf_title_id ''PPSA01234''" by (simp add: wf_title_id_def)
  have kd: "keys_distinct te_valid te_title_id ?es"
    using full_title_inv by (simp add: title_inv_def table_inv_def lookup_inv_def)
  have "string_of_nat i \<noteq> ''PPSA01234''" if "i < MAX_PENDING" for i
    using length_string_of_nat [of i 3] that by (intro notI) simp
  then have none: "title_map full_title_state ''PPSA01234'' = None"
    unfolding title_map_def table_map_None es by (simp add: full_title_entry_simps)
  have "title_victim ?es = 0"
    unfolding title_victim_def es
    by (simp add: full_title_entry_simps find_index_None_set [THEN iffD2])
  then have id: "te_title_id (?es ! title_victim ?es) = string_of_nat 0"
    by (simp add: es full_title_entry_simps)
  show ne: "string_of_nat 0 \<noteq> ''PPSA01234''"
    by (simp add: string_of_nat.simps)
  show "title_map full_title_state (string_of_nat 0) = Some (full_title_entry 0)"
    by (simp add: full_title_map)
  have "list_all te_valid ?es"
    by (simp add: es list_all_iff full_title_entry_simps)
  from title_goc_full_map [OF full_title_inv wf none this] ne
  show "title_map (snd (get_or_create_title_state full_title_state ''PPSA01234'')) (string_of_nat 0) = None"
    unfolding id by simp
  show "te_mount_reg_attempts (full_title_entry 0) \<noteq> 0"
    by (simp add: full_title_entry_simps)
qed

text \<open>
  The duplicate-title message is shown at most once: after it has been shown for a
  title, later calls for that title show nothing, until the flag is cleared, after which
  the message is shown again.
\<close>

theorem duplicate_notified_once:
  assumes "title_inv st" and "wf_title_id t" and "notify_duplicate_title_once st t a b = Some (ns, st1)"
  shows "(\<exists>st2. notify_duplicate_title_once st1 t c d = Some ([], st2))
    \<and> (\<exists>st2. notify_duplicate_title_once (clear_duplicate_title_notification st1 t) t c d =
      Some ([DUPLICATE_IGNORED t c d], st2))"
proof (intro conjI)
  obtain st' where "notify_duplicate_title_once st t a b =
      Some (if te_duplicate_notified_once (title_of st t) then [] else [DUPLICATE_IGNORED t a b], st')"
    "title_inv st'" "title_of st' t = (title_of st t)\<lparr>te_duplicate_notified_once := True\<rparr>"
    by (rule notify_duplicate_spec [OF assms(1,2), of a b])
  then have st1: "title_inv st1" "te_duplicate_notified_once (title_of st1 t)"
    using assms(3) by auto
  show "\<exists>st2. notify_duplicate_title_once st1 t c d = Some ([], st2)"
    by (rule notify_duplicate_spec [OF st1(1) assms(2), of c d]) (use st1(2) in auto)
  let ?st = "clear_duplicate_title_notification st1 t"
  have "\<not> te_duplicate_notified_once (title_of ?st t)"
    using clear_duplicate_map [OF st1(1), of t]
    by (auto simp: title_of_def fresh_title_def blank_title_def split: option.splits)
  then show "\<exists>st2. notify_duplicate_title_once ?st t c d = Some ([DUPLICATE_IGNORED t c d], st2)"
    using notify_duplicate_spec [OF clear_duplicate_inv [OF st1(1), of t] assms(2), of c d] by metis
qed

theorem duplicate_notified_once_witness:
  "\<exists>ns st1 st2. notify_duplicate_title_once title_state_init ''PPSA01234'' ''/a'' ''/b'' = Some (ns, st1)
     \<and> notify_duplicate_title_once st1 ''PPSA01234'' ''/a'' ''/c'' = Some ([], st2)"
proof -
  have wf: "wf_title_id ''PPSA01234''" by (simp add: wf_title_id_def)
  obtain ns st1 where n: "notify_duplicate_title_once title_state_init ''PPSA01234'' ''/a'' ''/b'' = Some (ns, st1)"
    using notify_duplicate_spec [OF title_inv_init wf, of "''/a''" "''/b''"] by metis
  with duplicate_notified_once [OF title_inv_init wf n, of "''/a''" "''/c''"] show ?thesis by blast
qed

end
