(* ===== verification/Path_State.thy ===== *)
theory Path_State
  imports Slot_Index Path_Utils
begin

text \<open>
  \<^verbatim>\<open>src/sm_path_state.c\<close>: what the scanner remembers about a source path (retry counters,
  one-shot log flags, the cached game identity and the module-case fingerprint), kept in
  \<open>MAX_PENDING\<close> entries behind the index of \<open>Slot_Index\<close>. Choosing a victim and pruning ask
  the file system, the argument \<open>host\<close>. As in \<open>Title_State\<close>, an operation that uses the
  entry pointer unchecked returns \<open>None\<close> for the dereference of NULL.
\<close>

section \<open>State\<close>

record path_entry =
  pe_path :: string
  pe_missing_param_attempts :: u8
  pe_image_mount_attempts :: u8
  pe_missing_param_limit_logged :: bool
  pe_image_mount_limit_logged :: bool
  pe_backport_mount_blocked :: bool
  pe_backport_permissions_incomplete_logged :: bool
  pe_manual_missing_source_logged :: bool
  pe_game_info_cached :: bool
  pe_game_info_valid :: bool
  pe_module_case_checked :: bool
  pe_module_case_fingerprint :: u64
  pe_game_info_mtime :: int
  pe_game_info_mtime_nsec :: int
  pe_game_info_size :: int
  pe_game_info_ino :: u64
  pe_game_title_id :: string
  pe_game_title_name :: string
  pe_valid :: bool

record path_state =
  ps_entries :: "path_entry list"
  ps_hash :: "nat list"

definition blank_path :: path_entry where
  "blank_path = \<lparr>pe_path = [], pe_missing_param_attempts = 0, pe_image_mount_attempts = 0,
     pe_missing_param_limit_logged = False, pe_image_mount_limit_logged = False,
     pe_backport_mount_blocked = False, pe_backport_permissions_incomplete_logged = False,
     pe_manual_missing_source_logged = False, pe_game_info_cached = False, pe_game_info_valid = False,
     pe_module_case_checked = False, pe_module_case_fingerprint = 0, pe_game_info_mtime = 0,
     pe_game_info_mtime_nsec = 0, pe_game_info_size = 0, pe_game_info_ino = 0,
     pe_game_title_id = [], pe_game_title_name = [], pe_valid = False\<rparr>"

definition fresh_path :: "string \<Rightarrow> path_entry" where
  "fresh_path path = blank_path\<lparr>pe_valid := True, pe_path := strlcpy path MAX_PATH\<rparr>"

definition path_state_init :: path_state where
  "path_state_init = \<lparr>ps_entries = replicate MAX_PENDING blank_path, ps_hash = empty_hash\<rparr>"

section \<open>Operations\<close>

definition rebuild_path_state_hash :: "path_entry list \<Rightarrow> nat list" where
  "rebuild_path_state_hash = rebuild_hash pe_valid pe_path"

definition find_path_state :: "path_state \<Rightarrow> string \<Rightarrow> nat option" where
  "find_path_state st path = table_find pe_valid pe_path (ps_entries st) (ps_hash st) path"

definition path_victim :: "host \<Rightarrow> path_entry list \<Rightarrow> nat" where
  "path_victim h es =
     (case find_index (\<lambda>e. pe_valid e \<and> \<not> path_exists h (pe_path e) \<and> \<not> pe_manual_missing_source_logged e) es of
        Some k \<Rightarrow> k
      | None \<Rightarrow>
          (case find_index (\<lambda>e. pe_valid e \<and> pe_missing_param_attempts e = 0 \<and> pe_image_mount_attempts e = 0
                 \<and> \<not> pe_backport_mount_blocked e \<and> \<not> pe_backport_permissions_incomplete_logged e
                 \<and> \<not> pe_manual_missing_source_logged e \<and> \<not> pe_module_case_checked e
                 \<and> \<not> pe_game_info_cached e) es of
             Some k \<Rightarrow> k
           | None \<Rightarrow> 0))"

definition create_path_state :: "host \<Rightarrow> path_state \<Rightarrow> string \<Rightarrow> nat option \<times> path_state" where
  "create_path_state h st path =
     (let (r, es, hs) = table_create pe_valid pe_path blank_path (path_victim h) fresh_path
                          (ps_entries st) (ps_hash st) path
      in (r, \<lparr>ps_entries = es, ps_hash = hs\<rparr>))"

definition get_or_create_path_state :: "host \<Rightarrow> path_state \<Rightarrow> string \<Rightarrow> nat option \<times> path_state" where
  "get_or_create_path_state h st path =
     (case find_path_state st path of
        Some i \<Rightarrow> (Some i, st)
      | None \<Rightarrow> create_path_state h st path)"

definition path_entry_at :: "path_state \<Rightarrow> nat \<Rightarrow> path_entry" where
  "path_entry_at st i = ps_entries st ! i"

definition set_path_entry :: "path_state \<Rightarrow> nat \<Rightarrow> path_entry \<Rightarrow> path_state" where
  "set_path_entry st i e = st\<lparr>ps_entries := (ps_entries st)[i := e]\<rparr>"

definition module_case_fingerprint_matches :: "path_state \<Rightarrow> string \<Rightarrow> u64 \<Rightarrow> bool" where
  "module_case_fingerprint_matches st path fingerprint =
     (case find_path_state st path of
        None \<Rightarrow> False
      | Some i \<Rightarrow> pe_module_case_checked (path_entry_at st i) \<and>
                  pe_module_case_fingerprint (path_entry_at st i) = fingerprint)"

definition store_module_case_fingerprint :: "host \<Rightarrow> path_state \<Rightarrow> string \<Rightarrow> u64 \<Rightarrow> path_state" where
  "store_module_case_fingerprint h st path fingerprint =
     (case get_or_create_path_state h st path of
        (None, st') \<Rightarrow> st'
      | (Some i, st') \<Rightarrow>
          set_path_entry st' i ((path_entry_at st' i)\<lparr>pe_module_case_checked := True,
            pe_module_case_fingerprint := fingerprint\<rparr>))"

text \<open>
  The result is the returned flag (a cached answer exists for this version of the file),
  and the identity when the cached answer is a valid game.
\<close>

definition load_cached_game_info :: "path_state \<Rightarrow> string \<Rightarrow> stat_buf \<Rightarrow> bool \<times> (string \<times> string) option" where
  "load_cached_game_info st path param_st =
     (case find_path_state st path of
        None \<Rightarrow> (False, None)
      | Some i \<Rightarrow>
          (let e = path_entry_at st i in
           if \<not> pe_game_info_cached e \<or> pe_game_info_mtime e \<noteq> st_mtime param_st
              \<or> pe_game_info_mtime_nsec e \<noteq> st_mtime_nsec param_st
              \<or> pe_game_info_size e \<noteq> st_size param_st \<or> pe_game_info_ino e \<noteq> st_ino param_st
           then (False, None)
           else if \<not> pe_game_info_valid e then (True, None)
           else (True, Some (strlcpy (pe_game_title_id e) MAX_TITLE_ID,
                             strlcpy (pe_game_title_name e) MAX_TITLE_NAME))))"

definition store_cached_game_info ::
  "host \<Rightarrow> path_state \<Rightarrow> string \<Rightarrow> stat_buf \<Rightarrow> bool \<Rightarrow> string \<Rightarrow> string \<Rightarrow> path_state option" where
  "store_cached_game_info h st path param_st vld title_id title_name =
     (case get_or_create_path_state h st path of
        (None, _) \<Rightarrow> None
      | (Some i, st') \<Rightarrow>
          Some (set_path_entry st' i ((path_entry_at st' i)\<lparr>
            pe_game_info_cached := True,
            pe_game_info_valid := vld,
            pe_game_info_mtime := st_mtime param_st,
            pe_game_info_mtime_nsec := st_mtime_nsec param_st,
            pe_game_info_size := st_size param_st,
            pe_game_info_ino := st_ino param_st,
            pe_game_title_id := strlcpy (if vld then title_id else []) MAX_TITLE_ID,
            pe_game_title_name := strlcpy (if vld then title_name else []) MAX_TITLE_NAME\<rparr>)))"

definition prune_entries :: "(path_entry \<Rightarrow> bool) \<Rightarrow> path_state \<Rightarrow> path_state" where
  "prune_entries Q st =
     (let es = map (\<lambda>e. if Q e then blank_path else e) (ps_entries st)
      in if \<exists>e\<in>set (ps_entries st). Q e
         then \<lparr>ps_entries = es, ps_hash = rebuild_path_state_hash es\<rparr>
         else st)"

definition prune_path_state :: "host \<Rightarrow> path_state \<Rightarrow> path_state" where
  "prune_path_state h =
     prune_entries (\<lambda>e. pe_valid e \<and> pe_path e \<noteq> [] \<and> \<not> path_exists h (pe_path e)
       \<and> \<not> pe_manual_missing_source_logged e)"

definition prune_path_state_for_root :: "host \<Rightarrow> string \<Rightarrow> path_state \<Rightarrow> path_state" where
  "prune_path_state_for_root h root st =
     (if root = [] then prune_path_state h st
      else prune_entries (\<lambda>e. pe_valid e \<and> pe_path e \<noteq> [] \<and> path_matches_root_or_child (pe_path e) root
             \<and> \<not> path_exists h (pe_path e) \<and> \<not> pe_manual_missing_source_logged e) st)"

definition is_missing_param_scan_limited :: "path_state \<Rightarrow> string \<Rightarrow> bool" where
  "is_missing_param_scan_limited st path =
     (if \<not> is_under_image_mount_base path then False
      else (case find_path_state st path of
              None \<Rightarrow> False
            | Some i \<Rightarrow> pe_missing_param_attempts (path_entry_at st i) \<ge> MAX_MISSING_PARAM_SCAN_ATTEMPTS))"

definition record_missing_param_failure ::
  "host \<Rightarrow> path_state \<Rightarrow> string \<Rightarrow> (notice list \<times> path_state) option" where
  "record_missing_param_failure h st path =
     (if \<not> is_under_image_mount_base path then Some ([], st)
      else
        (case get_or_create_path_state h st path of
           (None, _) \<Rightarrow> None
         | (Some i, st') \<Rightarrow>
             (let e = path_entry_at st' i;
                  e1 = e\<lparr>pe_missing_param_attempts := sat_inc (pe_missing_param_attempts e)\<rparr>;
                  ns = (if pe_missing_param_attempts e1 = 1 then [MISSING_PARAM path] else []);
                  e2 = (if pe_missing_param_attempts e1 \<ge> MAX_MISSING_PARAM_SCAN_ATTEMPTS
                           \<and> \<not> pe_missing_param_limit_logged e1
                        then e1\<lparr>pe_missing_param_limit_logged := True\<rparr> else e1)
              in Some (ns, set_path_entry st' i e2))))"

definition clear_missing_param_entry :: "path_state \<Rightarrow> string \<Rightarrow> path_state" where
  "clear_missing_param_entry st path =
     (case find_path_state st path of
        None \<Rightarrow> st
      | Some i \<Rightarrow> set_path_entry st i ((path_entry_at st i)\<lparr>pe_missing_param_attempts := 0,
                    pe_missing_param_limit_logged := False\<rparr>))"

definition is_image_mount_limited :: "path_state \<Rightarrow> string \<Rightarrow> bool" where
  "is_image_mount_limited st path =
     (case find_path_state st path of
        None \<Rightarrow> False
      | Some i \<Rightarrow> pe_image_mount_attempts (path_entry_at st i) \<ge> MAX_IMAGE_MOUNT_ATTEMPTS)"

definition bump_image_mount_attempts :: "host \<Rightarrow> path_state \<Rightarrow> string \<Rightarrow> (u8 \<times> path_state) option" where
  "bump_image_mount_attempts h st path =
     (case get_or_create_path_state h st path of
        (None, _) \<Rightarrow> None
      | (Some i, st') \<Rightarrow>
          (let e = path_entry_at st' i;
               e1 = e\<lparr>pe_image_mount_attempts := sat_inc (pe_image_mount_attempts e)\<rparr>;
               e2 = (if pe_image_mount_attempts e1 \<ge> MAX_IMAGE_MOUNT_ATTEMPTS
                        \<and> \<not> pe_image_mount_limit_logged e1
                     then e1\<lparr>pe_image_mount_limit_logged := True\<rparr> else e1)
           in Some (pe_image_mount_attempts e2, set_path_entry st' i e2)))"

definition clear_image_mount_attempts :: "path_state \<Rightarrow> string \<Rightarrow> path_state" where
  "clear_image_mount_attempts st path =
     (case find_path_state st path of
        None \<Rightarrow> st
      | Some i \<Rightarrow> set_path_entry st i ((path_entry_at st i)\<lparr>pe_image_mount_attempts := 0,
                    pe_image_mount_limit_logged := False\<rparr>))"

definition reset_all_image_mount_attempts :: "path_state \<Rightarrow> nat \<times> path_state" where
  "reset_all_image_mount_attempts st =
     (let Q = (\<lambda>e. pe_valid e \<and> pe_image_mount_attempts e \<noteq> 0)
      in (count_if Q (ps_entries st),
          st\<lparr>ps_entries := map (\<lambda>e. if Q e
            then e\<lparr>pe_image_mount_attempts := 0, pe_image_mount_limit_logged := False\<rparr> else e) (ps_entries st)\<rparr>))"

definition is_backport_mount_blocked :: "path_state \<Rightarrow> string \<Rightarrow> bool" where
  "is_backport_mount_blocked st path =
     (if path = [] then False
      else (case find_path_state st path of
              None \<Rightarrow> False | Some i \<Rightarrow> pe_backport_mount_blocked (path_entry_at st i)))"

definition note_backport_mount_failure :: "host \<Rightarrow> path_state \<Rightarrow> string \<Rightarrow> path_state" where
  "note_backport_mount_failure h st path =
     (if path = [] then st
      else
        (case get_or_create_path_state h st path of
           (None, st') \<Rightarrow> st'
         | (Some i, st') \<Rightarrow>
             (if pe_backport_mount_blocked (path_entry_at st' i) then st'
              else set_path_entry st' i ((path_entry_at st' i)\<lparr>pe_backport_mount_blocked := True\<rparr>))))"

definition clear_backport_mount_failure :: "path_state \<Rightarrow> string \<Rightarrow> path_state" where
  "clear_backport_mount_failure st path =
     (if path = [] then st
      else (case find_path_state st path of
              None \<Rightarrow> st
            | Some i \<Rightarrow> set_path_entry st i ((path_entry_at st i)\<lparr>pe_backport_mount_blocked := False\<rparr>)))"

definition note_backport_permissions_incomplete_once :: "host \<Rightarrow> path_state \<Rightarrow> string \<Rightarrow> bool \<times> path_state" where
  "note_backport_permissions_incomplete_once h st path =
     (if path = [] then (False, st)
      else
        (case get_or_create_path_state h st path of
           (None, st') \<Rightarrow> (False, st')
         | (Some i, st') \<Rightarrow>
             (if pe_backport_permissions_incomplete_logged (path_entry_at st' i) then (False, st')
              else (True, set_path_entry st' i
                     ((path_entry_at st' i)\<lparr>pe_backport_permissions_incomplete_logged := True\<rparr>)))))"

definition clear_backport_permissions_incomplete :: "path_state \<Rightarrow> string \<Rightarrow> path_state" where
  "clear_backport_permissions_incomplete st path =
     (if path = [] then st
      else (case find_path_state st path of
              None \<Rightarrow> st
            | Some i \<Rightarrow> set_path_entry st i
                ((path_entry_at st i)\<lparr>pe_backport_permissions_incomplete_logged := False\<rparr>)))"

definition note_manual_missing_source_once :: "host \<Rightarrow> path_state \<Rightarrow> string \<Rightarrow> bool \<times> path_state" where
  "note_manual_missing_source_once h st path =
     (if path = [] then (False, st)
      else
        (case get_or_create_path_state h st path of
           (None, st') \<Rightarrow> (False, st')
         | (Some i, st') \<Rightarrow>
             (if pe_manual_missing_source_logged (path_entry_at st' i) then (False, st')
              else (True, set_path_entry st' i
                     ((path_entry_at st' i)\<lparr>pe_manual_missing_source_logged := True\<rparr>)))))"

definition clear_manual_missing_source :: "path_state \<Rightarrow> string \<Rightarrow> path_state" where
  "clear_manual_missing_source st path =
     (if path = [] then st
      else (case find_path_state st path of
              None \<Rightarrow> st
            | Some i \<Rightarrow> set_path_entry st i ((path_entry_at st i)\<lparr>pe_manual_missing_source_logged := False\<rparr>)))"

section \<open>Invariant and meaning\<close>

interpretation pt: slot_table pe_valid pe_path blank_path fresh_path MAX_PATH
  by unfold_locales (simp_all add: blank_path_def fresh_path_def strlcpy_id)

definition path_refs :: "path_state \<Rightarrow> bool" where
  "path_refs st \<longleftrightarrow> refs_inv pe_valid (ps_entries st) (ps_hash st)"

definition path_inv :: "path_state \<Rightarrow> bool" where
  "path_inv st \<longleftrightarrow> table_inv pe_valid pe_path (ps_entries st) (ps_hash st)"

definition path_map :: "path_state \<Rightarrow> string \<Rightarrow> path_entry option" where
  "path_map st = table_map pe_valid pe_path (ps_entries st)"

definition path_of :: "path_state \<Rightarrow> string \<Rightarrow> path_entry" where
  "path_of st path = (case path_map st path of Some e \<Rightarrow> e | None \<Rightarrow> fresh_path path)"

definition wf_path :: "string \<Rightarrow> bool" where
  "wf_path path \<longleftrightarrow> path \<noteq> [] \<and> length path < MAX_PATH"

lemma path_inv_refs: "path_inv st \<Longrightarrow> path_refs st"
  by (simp add: path_inv_def path_refs_def table_inv_def)

lemma path_inv_init: "path_inv path_state_init"
  by (simp add: path_inv_def path_state_init_def pt.inv_init)

lemma path_victim_less: "length es = MAX_PENDING \<Longrightarrow> path_victim h es < MAX_PENDING"
  by (auto simp: path_victim_def dest: find_index_SomeD split: option.splits)

lemma path_goc_table:
  "get_or_create_path_state h st path =
     (let (r, es, hs) = table_get_or_create pe_valid pe_path blank_path (path_victim h) fresh_path
                          (ps_entries st) (ps_hash st) path
      in (r, \<lparr>ps_entries = es, ps_hash = hs\<rparr>))"
  by (simp add: get_or_create_path_state_def table_get_or_create_def find_path_state_def
      create_path_state_def split: option.splits)

lemma path_goc_total:
  assumes "path_refs st"
  shows "\<exists>i st'. get_or_create_path_state h st p = (Some i, st') \<and> pe_valid (path_entry_at st' i) \<and> path_refs st'"
proof -
  have "path_victim h (ps_entries st) < MAX_PENDING"
    using assms by (auto simp: path_refs_def refs_inv_def intro: path_victim_less)
  from pt.goc_total [where victim = "path_victim h", OF assms [unfolded path_refs_def] this, of p]
  show ?thesis
    by (auto simp: path_goc_table path_refs_def path_entry_at_def)
qed

lemma path_goc_refs:
  assumes "path_refs st" and "get_or_create_path_state h st p = (r, st')"
  shows "path_refs st'" "r \<noteq> None" "r = Some i \<Longrightarrow> pe_valid (path_entry_at st' i)"
  using path_goc_total [OF assms(1), of h p] assms(2) by auto

lemma set_path_entry_refs: "path_refs st \<Longrightarrow> pe_valid e \<Longrightarrow> path_refs (set_path_entry st i e)"
  by (simp add: path_refs_def set_path_entry_def pt.update_refs)

lemma find_path_valid: "path_refs st \<Longrightarrow> find_path_state st p = Some i \<Longrightarrow> pe_valid (path_entry_at st i)"
  using table_find_refs [of pe_valid "ps_entries st" "ps_hash st" pe_path p i]
  by (simp add: path_refs_def find_path_state_def path_entry_at_def)

lemma find_path_map: "path_inv st \<Longrightarrow> map_option (path_entry_at st) (find_path_state st p) = path_map st p"
  using table_find_map [of pe_valid pe_path "ps_entries st" "ps_hash st" p]
  by (simp add: path_inv_def find_path_state_def path_map_def path_entry_at_def [abs_def])

lemma path_modify:
  assumes "path_inv st" and "wf_path p" and "\<And>e. pe_valid (f e) = pe_valid e" and "\<And>e. pe_path (f e) = pe_path e"
  obtains i st' where "get_or_create_path_state h st p = (Some i, st')" "path_entry_at st' i = path_of st p"
    "path_inv st'" "path_map st' p = Some (path_of st p)"
    "path_inv (set_path_entry st' i (f (path_of st p)))"
    "path_map (set_path_entry st' i (f (path_of st p))) p = Some (f (path_of st p))"
proof -
  have v: "path_victim h (ps_entries st) < MAX_PENDING"
    using assms(1) by (auto simp: path_inv_def table_inv_def refs_inv_def intro: path_victim_less)
  have wf: "p \<noteq> []" "length p < MAX_PATH" using assms(2) by (simp_all add: wf_path_def)
  obtain i es hs where g: "table_get_or_create pe_valid pe_path blank_path (path_victim h) fresh_path
        (ps_entries st) (ps_hash st) p = (Some i, es, hs)"
      "es ! i = (case table_map pe_valid pe_path (ps_entries st) p of Some e \<Rightarrow> e | None \<Rightarrow> fresh_path p)"
      "table_inv pe_valid pe_path es hs" "table_inv pe_valid pe_path (es[i := f (es ! i)]) hs"
      "table_map pe_valid pe_path es p = Some (es ! i)"
      "table_map pe_valid pe_path (es[i := f (es ! i)]) p = Some (f (es ! i))"
    using pt.goc_update [where victim = "path_victim h" and f = f, OF assms(1) [unfolded path_inv_def] v wf assms(3,4)]
    by metis
  have e: "es ! i = path_of st p"
    using g(2) by (simp add: path_of_def path_map_def)
  show ?thesis
    by (rule that [of i "\<lparr>ps_entries = es, ps_hash = hs\<rparr>"])
      (use g e in \<open>simp_all add: path_goc_table path_entry_at_def path_inv_def path_map_def set_path_entry_def\<close>)
qed

lemma path_find_modify:
  assumes "path_inv st" and "\<And>e. pe_valid (f e) = pe_valid e" and "\<And>e. pe_path (f e) = pe_path e"
    and "st' = (case find_path_state st p of None \<Rightarrow> st | Some i \<Rightarrow> set_path_entry st i (f (path_entry_at st i)))"
  shows "path_inv st' \<and> path_map st' = (path_map st)(p := map_option f (path_map st p))"
  using pt.find_update [OF assms(1) [unfolded path_inv_def] assms(2,3) refl, of p] assms(4)
  by (auto simp: path_inv_def path_map_def find_path_state_def set_path_entry_def path_entry_at_def
      split: option.splits)

section \<open>Runs of the component\<close>

inductive path_reach :: "(string \<Rightarrow> bool) \<Rightarrow> path_state \<Rightarrow> bool" for ok where
  start: "path_reach ok path_state_init"
| store_fingerprint: "path_reach ok st \<Longrightarrow> ok p \<Longrightarrow> path_reach ok (store_module_case_fingerprint h st p fp)"
| store_info: "path_reach ok st \<Longrightarrow> ok p \<Longrightarrow> store_cached_game_info h st p sb v t n = Some st' \<Longrightarrow> path_reach ok st'"
| prune: "path_reach ok st \<Longrightarrow> path_reach ok (prune_path_state_for_root h root st)"
| record_missing: "path_reach ok st \<Longrightarrow> ok p \<Longrightarrow> record_missing_param_failure h st p = Some (ns, st') \<Longrightarrow> path_reach ok st'"
| clear_missing: "path_reach ok st \<Longrightarrow> path_reach ok (clear_missing_param_entry st p)"
| bump_image: "path_reach ok st \<Longrightarrow> ok p \<Longrightarrow> bump_image_mount_attempts h st p = Some (c, st') \<Longrightarrow> path_reach ok st'"
| clear_image: "path_reach ok st \<Longrightarrow> path_reach ok (clear_image_mount_attempts st p)"
| reset_image: "path_reach ok st \<Longrightarrow> path_reach ok (snd (reset_all_image_mount_attempts st))"
| note_backport: "path_reach ok st \<Longrightarrow> ok p \<Longrightarrow> path_reach ok (note_backport_mount_failure h st p)"
| clear_backport: "path_reach ok st \<Longrightarrow> path_reach ok (clear_backport_mount_failure st p)"
| note_permissions: "path_reach ok st \<Longrightarrow> ok p \<Longrightarrow> path_reach ok (snd (note_backport_permissions_incomplete_once h st p))"
| clear_permissions: "path_reach ok st \<Longrightarrow> path_reach ok (clear_backport_permissions_incomplete st p)"
| note_manual: "path_reach ok st \<Longrightarrow> ok p \<Longrightarrow> path_reach ok (snd (note_manual_missing_source_once h st p))"
| clear_manual: "path_reach ok st \<Longrightarrow> path_reach ok (clear_manual_missing_source st p)"

lemmas path_note_defs = store_module_case_fingerprint_def store_cached_game_info_def
  record_missing_param_failure_def bump_image_mount_attempts_def note_backport_mount_failure_def
  note_backport_permissions_incomplete_once_def note_manual_missing_source_once_def Let_def

lemmas path_clear_defs = clear_missing_param_entry_def clear_image_mount_attempts_def
  clear_backport_mount_failure_def clear_backport_permissions_incomplete_def clear_manual_missing_source_def

lemma prune_entries_refs: "path_refs st \<Longrightarrow> path_refs (prune_entries Q st)"
  by (simp add: path_refs_def prune_entries_def Let_def rebuild_path_state_hash_def rebuild_refs_inv refs_inv_lengthD)

lemma prune_refs: "path_refs st \<Longrightarrow> path_refs (prune_path_state_for_root h root st)"
  by (simp add: prune_path_state_for_root_def prune_path_state_def prune_entries_refs)

lemma reset_image_refs: "path_refs st \<Longrightarrow> path_refs (snd (reset_all_image_mount_attempts st))"
  unfolding path_refs_def refs_inv_def reset_all_image_mount_attempts_def Let_def
  by (auto simp: Suc_le_eq)

lemma path_reach_refs: "path_reach ok st \<Longrightarrow> path_refs st"
proof (induction rule: path_reach.induct)
  case start
  then show ?case by (rule path_inv_refs [OF path_inv_init])
next
  case (prune st h root)
  from prune.IH show ?case by (rule prune_refs)
next
  case (reset_image st)
  from reset_image.IH show ?case by (rule reset_image_refs)
qed (auto simp: path_note_defs path_clear_defs path_goc_refs find_path_valid
    intro!: set_path_entry_refs split: option.splits prod.splits if_splits)

section \<open>Effect of the operations\<close>

lemma store_info_spec:
  assumes "path_inv st" and "wf_path p"
  obtains st' where "store_cached_game_info h st p sb v t n = Some st'" "path_inv st'"
    "path_map st' p = Some ((path_of st p)\<lparr>pe_game_info_cached := True, pe_game_info_valid := v,
       pe_game_info_mtime := st_mtime sb, pe_game_info_mtime_nsec := st_mtime_nsec sb,
       pe_game_info_size := st_size sb, pe_game_info_ino := st_ino sb,
       pe_game_title_id := strlcpy (if v then t else []) MAX_TITLE_ID,
       pe_game_title_name := strlcpy (if v then n else []) MAX_TITLE_NAME\<rparr>)"
proof -
  let ?f = "\<lambda>e. e\<lparr>pe_game_info_cached := True, pe_game_info_valid := v,
       pe_game_info_mtime := st_mtime sb, pe_game_info_mtime_nsec := st_mtime_nsec sb,
       pe_game_info_size := st_size sb, pe_game_info_ino := st_ino sb,
       pe_game_title_id := strlcpy (if v then t else []) MAX_TITLE_ID,
       pe_game_title_name := strlcpy (if v then n else []) MAX_TITLE_NAME\<rparr>"
  obtain i st' where g: "get_or_create_path_state h st p = (Some i, st')" "path_entry_at st' i = path_of st p"
    "path_inv (set_path_entry st' i (?f (path_of st p)))"
    "path_map (set_path_entry st' i (?f (path_of st p))) p = Some (?f (path_of st p))"
    by (rule path_modify [where h = h and f = ?f, OF assms]) auto
  show ?thesis
    by (rule that [OF _ g(3,4)]) (simp add: store_cached_game_info_def g(1,2))
qed

definition missing_param_step :: "path_entry \<Rightarrow> path_entry" where
  "missing_param_step e =
     (let c = sat_inc (pe_missing_param_attempts e)
      in e\<lparr>pe_missing_param_attempts := c,
           pe_missing_param_limit_logged := (pe_missing_param_limit_logged e \<or> MAX_MISSING_PARAM_SCAN_ATTEMPTS \<le> c)\<rparr>)"

lemma record_missing_spec:
  assumes "path_inv st" and "wf_path p" and "is_under_image_mount_base p"
  obtains st' where "record_missing_param_failure h st p =
      Some (if pe_missing_param_attempts (path_of st p) = 0 then [MISSING_PARAM p] else [], st')"
    "path_inv st'" "path_map st' p = Some (missing_param_step (path_of st p))"
proof -
  have f: "pe_valid (missing_param_step e) = pe_valid e" "pe_path (missing_param_step e) = pe_path e" for e
    by (simp_all add: missing_param_step_def Let_def)
  obtain i st' where g: "get_or_create_path_state h st p = (Some i, st')" "path_entry_at st' i = path_of st p"
    "path_inv (set_path_entry st' i (missing_param_step (path_of st p)))"
    "path_map (set_path_entry st' i (missing_param_step (path_of st p))) p = Some (missing_param_step (path_of st p))"
    by (rule path_modify [where h = h and f = missing_param_step, OF assms(1,2) f]) auto
  have one: "sat_inc c = 1 \<longleftrightarrow> c = 0" for c
    by (auto simp: word_unat_eq_iff unat_sat_inc)
  have "record_missing_param_failure h st p =
      Some (if pe_missing_param_attempts (path_of st p) = 0 then [MISSING_PARAM p] else [],
        set_path_entry st' i (missing_param_step (path_of st p)))"
    using assms(3) g(1,2) one
    by (auto simp: record_missing_param_failure_def missing_param_step_def Let_def
        intro!: arg_cong [where f = "set_path_entry st' i"] path_entry.equality)
  then show ?thesis
    by (rule that [OF _ g(3,4)])
qed

definition image_mount_step :: "path_entry \<Rightarrow> path_entry" where
  "image_mount_step e =
     (let c = sat_inc (pe_image_mount_attempts e)
      in e\<lparr>pe_image_mount_attempts := c,
           pe_image_mount_limit_logged := (pe_image_mount_limit_logged e \<or> MAX_IMAGE_MOUNT_ATTEMPTS \<le> c)\<rparr>)"

lemma bump_image_spec:
  assumes "path_inv st" and "wf_path p"
  obtains st' where "bump_image_mount_attempts h st p = Some (sat_inc (pe_image_mount_attempts (path_of st p)), st')"
    "path_inv st'" "path_map st' p = Some (image_mount_step (path_of st p))"
proof -
  have f: "pe_valid (image_mount_step e) = pe_valid e" "pe_path (image_mount_step e) = pe_path e" for e
    by (simp_all add: image_mount_step_def Let_def)
  obtain i st' where g: "get_or_create_path_state h st p = (Some i, st')" "path_entry_at st' i = path_of st p"
    "path_inv (set_path_entry st' i (image_mount_step (path_of st p)))"
    "path_map (set_path_entry st' i (image_mount_step (path_of st p))) p = Some (image_mount_step (path_of st p))"
    by (rule path_modify [where h = h and f = image_mount_step, OF assms(1,2) f]) auto
  have "bump_image_mount_attempts h st p = Some (sat_inc (pe_image_mount_attempts (path_of st p)),
        set_path_entry st' i (image_mount_step (path_of st p)))"
    using g(1,2)
    by (auto simp: bump_image_mount_attempts_def image_mount_step_def Let_def
        intro!: arg_cong [where f = "set_path_entry st' i"] path_entry.equality)
  then show ?thesis
    by (rule that [OF _ g(3,4)])
qed

lemma prune_entries_spec:
  assumes "path_inv st"
  shows "path_inv (prune_entries Q st)"
    and "path_map (prune_entries Q st) p =
      (case path_map st p of Some e \<Rightarrow> if Q e then None else Some e | None \<Rightarrow> None)"
proof -
  let ?es = "map (\<lambda>e. if Q e then blank_path else e) (ps_entries st)"
  have kd: "keys_distinct pe_valid pe_path (ps_entries st)"
    using assms by (simp add: path_inv_def table_inv_def lookup_inv_def)
  have same: "?es = ps_entries st" if "\<not> (\<exists>e\<in>set (ps_entries st). Q e)"
    using that by (intro map_idI) auto
  have "path_map (prune_entries Q st) = table_map pe_valid pe_path ?es"
    using same by (auto simp: path_map_def prune_entries_def Let_def)
  then show "path_map (prune_entries Q st) p =
      (case path_map st p of Some e \<Rightarrow> if Q e then None else Some e | None \<Rightarrow> None)"
    using table_map_clear [OF kd, of blank_path Q p] pt.blank_invalid by (simp add: path_map_def)
  show "path_inv (prune_entries Q st)"
    using assms pt.clear_inv [of "ps_entries st" "ps_hash st" ?es Q]
    by (auto simp: path_inv_def prune_entries_def Let_def rebuild_path_state_hash_def)
qed

lemma path_find_set_inv:
  assumes "path_inv st" and "find_path_state st p = Some i"
    and "pe_valid e = pe_valid (path_entry_at st i)" and "pe_path e = pe_path (path_entry_at st i)"
  shows "path_inv (set_path_entry st i e)"
proof -
  have "i < length (ps_entries st)" "pe_valid (ps_entries st ! i)"
    using table_find_iff [OF assms(1) [unfolded path_inv_def], of p i] assms(2)
    by (simp_all add: find_path_state_def)
  then show ?thesis
    using pt.update_inv(1) [OF assms(1) [unfolded path_inv_def], of i e] assms(3,4)
    by (simp add: path_inv_def set_path_entry_def path_entry_at_def)
qed

lemma path_goc_set_inv:
  assumes "path_inv st" and "wf_path p" and "get_or_create_path_state h st p = (r, st')"
  shows "path_inv st'"
    and "r = Some i \<Longrightarrow> pe_valid e = pe_valid (path_entry_at st' i) \<Longrightarrow> pe_path e = pe_path (path_entry_at st' i) \<Longrightarrow>
      path_inv (set_path_entry st' i e)"
proof -
  obtain i' where g: "r = Some i'" "path_inv st'" "i' < length (ps_entries st')" "pe_valid (path_entry_at st' i')"
  proof -
    have v: "path_victim h (ps_entries st) < MAX_PENDING"
      using assms(1) by (auto simp: path_inv_def table_inv_def refs_inv_def intro: path_victim_less)
    obtain r0 es hs where t: "table_get_or_create pe_valid pe_path blank_path (path_victim h) fresh_path
        (ps_entries st) (ps_hash st) p = (r0, es, hs)"
      by (metis prod_cases3)
    have wf: "p \<noteq> []" "length p < MAX_PATH" using assms(2) by (simp_all add: wf_path_def)
    note goc = pt.goc_inv [where victim = "path_victim h", OF assms(1) [unfolded path_inv_def] v wf t]
    have "r = r0" "st' = \<lparr>ps_entries = es, ps_hash = hs\<rparr>"
      using assms(3) t by (simp_all add: path_goc_table)
    then show ?thesis
      using goc(1,5) that by (auto simp: path_inv_def path_entry_at_def)
  qed
  then show "path_inv st'" by simp
  show "path_inv (set_path_entry st' i e)" if "r = Some i" "pe_valid e = pe_valid (path_entry_at st' i)"
      "pe_path e = pe_path (path_entry_at st' i)"
    using pt.update_inv(1) [of "ps_entries st'" "ps_hash st'" i' e] g that
    by (simp add: path_inv_def set_path_entry_def path_entry_at_def)
qed

lemma reset_image_inv:
  assumes "path_inv st"
  shows "path_inv (snd (reset_all_image_mount_attempts st))"
  using table_inv_map [OF assms [unfolded path_inv_def],
      of "\<lambda>e. if pe_valid e \<and> pe_image_mount_attempts e \<noteq> 0
        then e\<lparr>pe_image_mount_attempts := 0, pe_image_mount_limit_logged := False\<rparr> else e"]
  by (simp add: path_inv_def reset_all_image_mount_attempts_def Let_def)

lemma path_reach_inv: "path_reach wf_path st \<Longrightarrow> path_inv st"
proof (induction rule: path_reach.induct)
  case start
  then show ?case by (rule path_inv_init)
next
  case (prune st h root)
  then show ?case
    by (simp add: prune_path_state_for_root_def prune_path_state_def prune_entries_spec)
next
  case (reset_image st)
  from reset_image.IH show ?case by (rule reset_image_inv)
qed (auto simp: path_note_defs path_clear_defs path_goc_set_inv path_find_set_inv
    split: option.splits prod.splits if_splits)

section \<open>Repeated failures\<close>

fun record_missing_times :: "nat \<Rightarrow> host \<Rightarrow> path_state \<Rightarrow> string \<Rightarrow> (notice list \<times> path_state) option" where
  "record_missing_times 0 h st p = Some ([], st)"
| "record_missing_times (Suc n) h st p =
     (case record_missing_param_failure h st p of
        None \<Rightarrow> None
      | Some (ns, st') \<Rightarrow>
          (case record_missing_times n h st' p of
             None \<Rightarrow> None
           | Some (ns', st'') \<Rightarrow> Some (ns @ ns', st'')))"

fun bump_image_times :: "nat \<Rightarrow> host \<Rightarrow> path_state \<Rightarrow> string \<Rightarrow> path_state option" where
  "bump_image_times 0 h st p = Some st"
| "bump_image_times (Suc n) h st p =
     (case bump_image_mount_attempts h st p of None \<Rightarrow> None | Some (c, st') \<Rightarrow> bump_image_times n h st' p)"

lemma path_of_map: "path_map st p = Some e \<Longrightarrow> path_of st p = e"
  by (simp add: path_of_def)

lemma record_missing_times_spec:
  assumes "path_inv st" and "wf_path p" and "is_under_image_mount_base p"
  shows "\<exists>ns st'. record_missing_times n h st p = Some (ns, st') \<and> path_inv st'
    \<and> unat (pe_missing_param_attempts (path_of st' p)) = min 255 (unat (pe_missing_param_attempts (path_of st p)) + n)
    \<and> ns = (if pe_missing_param_attempts (path_of st p) = 0 \<and> 0 < n then [MISSING_PARAM p] else [])"
  using assms(1)
proof (induction n arbitrary: st)
  case 0
  then show ?case
    using unsigned_less [of "pe_missing_param_attempts (path_of st p)", where 'a = nat] by simp
next
  case (Suc n)
  obtain st1 where s1: "record_missing_param_failure h st p =
      Some (if pe_missing_param_attempts (path_of st p) = 0 then [MISSING_PARAM p] else [], st1)"
    "path_inv st1" "path_map st1 p = Some (missing_param_step (path_of st p))"
    by (rule record_missing_spec [OF Suc.prems assms(2,3), of h])
  have c: "pe_missing_param_attempts (path_of st1 p) = sat_inc (pe_missing_param_attempts (path_of st p))"
    using path_of_map [OF s1(3)] by (simp add: missing_param_step_def Let_def)
  then have "pe_missing_param_attempts (path_of st1 p) \<noteq> 0"
    using sat_inc_pos [of "pe_missing_param_attempts (path_of st p)"] by auto
  then show ?case
    using Suc.IH [OF s1(2)] s1(1) by (auto simp: c unat_sat_inc)
qed

lemma bump_image_times_spec:
  assumes "path_inv st" and "wf_path p"
  shows "\<exists>st'. bump_image_times n h st p = Some st' \<and> path_inv st'
    \<and> unat (pe_image_mount_attempts (path_of st' p)) = min 255 (unat (pe_image_mount_attempts (path_of st p)) + n)"
  using assms(1)
proof (induction n arbitrary: st)
  case 0
  then show ?case
    using unsigned_less [of "pe_image_mount_attempts (path_of st p)", where 'a = nat] by simp
next
  case (Suc n)
  obtain st1 where s1: "bump_image_mount_attempts h st p = Some (sat_inc (pe_image_mount_attempts (path_of st p)), st1)"
    "path_inv st1" "path_map st1 p = Some (image_mount_step (path_of st p))"
    by (rule bump_image_spec [OF Suc.prems assms(2), of h])
  have "pe_image_mount_attempts (path_of st1 p) = sat_inc (pe_image_mount_attempts (path_of st p))"
    using path_of_map [OF s1(3)] by (simp add: image_mount_step_def Let_def)
  then show ?case
    using Suc.IH [OF s1(2)] s1(1) by (auto simp: unat_sat_inc)
qed

lemma missing_limited_iff:
  "path_inv st \<Longrightarrow> is_missing_param_scan_limited st p \<longleftrightarrow>
     is_under_image_mount_base p \<and> 3 \<le> unat (pe_missing_param_attempts (path_of st p))"
  using find_path_map [of st p]
  by (auto simp: is_missing_param_scan_limited_def path_of_def fresh_path_def blank_path_def word_le_nat_alt
      split: option.splits)

lemma image_limited_iff:
  "path_inv st \<Longrightarrow> is_image_mount_limited st p \<longleftrightarrow> 3 \<le> unat (pe_image_mount_attempts (path_of st p))"
  using find_path_map [of st p]
  by (auto simp: is_image_mount_limited_def path_of_def fresh_path_def blank_path_def word_le_nat_alt
      split: option.splits)

lemma clear_missing_map:
  assumes "path_inv st"
  shows "path_inv (clear_missing_param_entry st p)" "pe_missing_param_attempts (path_of (clear_missing_param_entry st p) p) = 0"
  using path_find_modify [OF assms, of "\<lambda>e. e\<lparr>pe_missing_param_attempts := 0, pe_missing_param_limit_logged := False\<rparr>"
      "clear_missing_param_entry st p" p]
  by (auto simp: clear_missing_param_entry_def path_of_def fresh_path_def blank_path_def split: option.splits)

lemma clear_image_map:
  assumes "path_inv st"
  shows "path_inv (clear_image_mount_attempts st p)" "pe_image_mount_attempts (path_of (clear_image_mount_attempts st p) p) = 0"
  using path_find_modify [OF assms, of "\<lambda>e. e\<lparr>pe_image_mount_attempts := 0, pe_image_mount_limit_logged := False\<rparr>"
      "clear_image_mount_attempts st p" p]
  by (auto simp: clear_image_mount_attempts_def path_of_def fresh_path_def blank_path_def split: option.splits)

section \<open>Properties\<close>

text \<open>
  C37. No operation of the path table dereferences a NULL entry pointer, whatever paths the
  calls had and whatever the file system answered: the three operations that use the
  result of \<^verbatim>\<open>get_or_create_path_state\<close> unchecked are defined in every reachable state.
\<close>

theorem path_state_no_null_deref:
  assumes "path_reach (\<lambda>_. True) st"
  shows "store_cached_game_info h st p sb v t n \<noteq> None \<and> record_missing_param_failure h st p \<noteq> None
    \<and> bump_image_mount_attempts h st p \<noteq> None"
  using path_goc_total [OF path_reach_refs [OF assms], of h p]
  by (auto simp: store_cached_game_info_def record_missing_param_failure_def bump_image_mount_attempts_def Let_def)

theorem path_state_no_null_deref_witness:
  "bump_image_mount_attempts empty_host path_state_init ''/data/game.exfat'' \<noteq> None"
  using path_state_no_null_deref [OF path_reach.start] by blast

lemma load_after_store:
  assumes inv: "path_inv st" and "wf_path p" and "store_cached_game_info h st p sb v t n = Some st'"
  shows "path_inv st'" and "load_cached_game_info st' p sb =
      (True, if v then Some (strlcpy t MAX_TITLE_ID, strlcpy n MAX_TITLE_NAME) else None)
    \<and> (\<forall>sb'. (st_mtime sb', st_mtime_nsec sb', st_size sb', st_ino sb') \<noteq>
             (st_mtime sb, st_mtime_nsec sb, st_size sb, st_ino sb) \<longrightarrow>
           load_cached_game_info st' p sb' = (False, None))"
proof -
  have st': "path_inv st'" "path_map st' p = Some ((path_of st p)\<lparr>pe_game_info_cached := True, pe_game_info_valid := v,
       pe_game_info_mtime := st_mtime sb, pe_game_info_mtime_nsec := st_mtime_nsec sb,
       pe_game_info_size := st_size sb, pe_game_info_ino := st_ino sb,
       pe_game_title_id := strlcpy (if v then t else []) MAX_TITLE_ID,
       pe_game_title_name := strlcpy (if v then n else []) MAX_TITLE_NAME\<rparr>)"
    using store_info_spec [OF inv assms(2), of h sb v t n] assms(3) by (metis option.inject)+
  show "path_inv st'" by (rule st'(1))
  obtain i where "find_path_state st' p = Some i" "Some (path_entry_at st' i) = path_map st' p"
    using st'(2) find_path_map [OF st'(1), of p] by (cases "find_path_state st' p") auto
  then show "load_cached_game_info st' p sb =
      (True, if v then Some (strlcpy t MAX_TITLE_ID, strlcpy n MAX_TITLE_NAME) else None)
    \<and> (\<forall>sb'. (st_mtime sb', st_mtime_nsec sb', st_size sb', st_ino sb') \<noteq>
             (st_mtime sb, st_mtime_nsec sb, st_size sb, st_ino sb) \<longrightarrow>
           load_cached_game_info st' p sb' = (False, None))"
    using st'(2) by (auto simp: load_cached_game_info_def Let_def)
qed

text \<open>
  C38. The game-identity cache: what \<^verbatim>\<open>store_cached_game_info\<close> stored for a path is what
  \<^verbatim>\<open>load_cached_game_info\<close> returns for the same version of \<^verbatim>\<open>param.json\<close> (the identity cut
  to the 32- and 256-byte fields, or the cached ``not a game'' answer), and a changed
  modification time, size or inode makes the load miss.
\<close>

theorem game_info_cache_roundtrip:
  assumes "path_reach wf_path st" and "wf_path p" and "store_cached_game_info h st p sb v t n = Some st'"
  shows "load_cached_game_info st' p sb =
      (True, if v then Some (strlcpy t MAX_TITLE_ID, strlcpy n MAX_TITLE_NAME) else None)
    \<and> (\<forall>sb'. (st_mtime sb', st_mtime_nsec sb', st_size sb', st_ino sb') \<noteq>
             (st_mtime sb, st_mtime_nsec sb, st_size sb, st_ino sb) \<longrightarrow>
           load_cached_game_info st' p sb' = (False, None))"
  by (rule load_after_store(2) [OF path_reach_inv [OF assms(1)] assms(2,3)])

theorem game_info_cache_roundtrip_witness:
  "\<exists>st'. store_cached_game_info empty_host path_state_init ''/data/g'' sample_stat True ''PPSA01234'' ''Game'' = Some st'
     \<and> load_cached_game_info st' ''/data/g'' sample_stat = (True, Some (''PPSA01234'', ''Game''))"
proof -
  have wf: "wf_path ''/data/g''" by (simp add: wf_path_def)
  obtain st' where s: "store_cached_game_info empty_host path_state_init ''/data/g'' sample_stat True ''PPSA01234'' ''Game''
      = Some st'"
    using store_info_spec [OF path_inv_init wf] by metis
  from game_info_cache_roundtrip [OF path_reach.start wf s] s show ?thesis
    by (simp add: strlcpy_id)
qed

text \<open>
  C39. Pruning forgets exactly the entries whose source is gone: below the given root (or
  everywhere for an empty root) an entry whose path no longer exists is dropped unless its
  missing manual source was already reported; every other entry, with all its counters,
  is still found.
\<close>

theorem prune_forgets_missing_sources:
  assumes "path_reach wf_path st"
  shows "path_map (prune_path_state_for_root h root st) p =
    (case path_map st p of
       None \<Rightarrow> None
     | Some e \<Rightarrow> if (root = [] \<or> path_matches_root_or_child p root) \<and> \<not> path_exists h p
                    \<and> \<not> pe_manual_missing_source_logged e
                then None else Some e)"
proof -
  have inv: "path_inv st" by (rule path_reach_inv [OF assms])
  have e: "pe_valid e \<and> pe_path e = p \<and> p \<noteq> []" if "path_map st p = Some e" for e
  proof -
    have "keys_distinct pe_valid pe_path (ps_entries st)"
      and "\<forall>k<length (ps_entries st). pe_valid (ps_entries st ! k) \<longrightarrow> pe_path (ps_entries st ! k) \<noteq> []"
      using inv by (simp_all add: path_inv_def table_inv_def lookup_inv_def)
    then show ?thesis
      using that by (auto simp: path_map_def table_map_Some)
  qed
  show ?thesis
    using prune_entries_spec(2) [OF inv] e
    by (auto simp: prune_path_state_for_root_def prune_path_state_def split: option.splits)
qed

theorem prune_forgets_missing_sources_witness:
  "path_map (prune_path_state_for_root empty_host ''/mnt/usb0'' path_state_init) ''/mnt/usb0/g'' = None"
proof -
  have "path_map path_state_init ''/mnt/usb0/g'' = None"
    by (simp add: path_map_def table_map_None path_state_init_def blank_path_def)
  with prune_forgets_missing_sources [OF path_reach.start, of empty_host "''/mnt/usb0''" "''/mnt/usb0/g''"]
  show ?thesis by simp
qed

text \<open>
  Missing-parameter retries: below the image mount base, after the counter of a path
  is cleared, \<open>n\<close> recorded failures show the user exactly one message (none when \<open>n\<close> is 0)
  and make the scanner skip the path exactly from the third failure on.
\<close>

theorem missing_param_limit:
  assumes "path_reach wf_path st" and "wf_path p" and "is_under_image_mount_base p"
  shows "\<exists>st'. record_missing_times n h (clear_missing_param_entry st p) p =
      Some (if n = 0 then [] else [MISSING_PARAM p], st')
    \<and> (is_missing_param_scan_limited st' p \<longleftrightarrow> 3 \<le> n)"
proof -
  note clr = clear_missing_map [OF path_reach_inv [OF assms(1)], of p]
  show ?thesis
    using record_missing_times_spec [OF clr(1) assms(2,3), of n h] clr(2) assms(3)
    by (auto simp: missing_limited_iff)
qed

theorem missing_param_limit_witness:
  "\<exists>st'. record_missing_times 3 empty_host (clear_missing_param_entry path_state_init ''/mnt/shadowmnt/g_1'')
       ''/mnt/shadowmnt/g_1'' = Some ([MISSING_PARAM ''/mnt/shadowmnt/g_1''], st')
     \<and> is_missing_param_scan_limited st' ''/mnt/shadowmnt/g_1''"
proof -
  have "wf_path ''/mnt/shadowmnt/g_1''" and "is_under_image_mount_base ''/mnt/shadowmnt/g_1''"
    by (simp_all add: wf_path_def is_under_image_mount_base_def IMAGE_MOUNT_BASE_def starts_with_def char_at_def)
  from missing_param_limit [OF path_reach.start this, of 3 empty_host] show ?thesis by simp
qed

text \<open>
  Image mount retries: after the counter of an image is cleared, \<open>n\<close> counted attempts
  leave it at \<open>n\<close> (saturating at 255), and the image is skipped exactly from the third
  attempt on.
\<close>

theorem image_mount_limit:
  assumes "path_reach wf_path st" and "wf_path p"
  shows "\<exists>st'. bump_image_times n h (clear_image_mount_attempts st p) p = Some st'
    \<and> unat (pe_image_mount_attempts (path_of st' p)) = min 255 n \<and> (is_image_mount_limited st' p \<longleftrightarrow> 3 \<le> n)"
proof -
  note clr = clear_image_map [OF path_reach_inv [OF assms(1)], of p]
  show ?thesis
    using bump_image_times_spec [OF clr(1) assms(2), of n h] clr(2) by (auto simp: image_limited_iff)
qed

theorem image_mount_limit_witness:
  "\<exists>st'. bump_image_times 2 empty_host (clear_image_mount_attempts path_state_init ''/data/g.exfat'') ''/data/g.exfat''
      = Some st' \<and> \<not> is_image_mount_limited st' ''/data/g.exfat''"
proof -
  have "wf_path ''/data/g.exfat''" by (simp add: wf_path_def)
  from image_mount_limit [OF path_reach.start this, of 2 empty_host] show ?thesis by auto
qed

end
