(* ===== verification/Image_Cache.thy ===== *)
theory Image_Cache
  imports Path_Utils
begin

text \<open>
  \<^verbatim>\<open>src/sm_image_cache.c\<close>: the table of mounted images. A slot maps an image file to its
  mount point and, while a device is attached, carries the device's unit, the attach state
  and the detach claim. Every public function of the file runs under one mutex, so it is
  one step here: it takes the cache and returns its result and the new cache. A failing
  call returns \<open>Inl\<close> of the \<^verbatim>\<open>errno\<close> it sets (\<open>E_UNSET\<close> where it sets none). A path argument
  that the code tests for NULL alone is a \<open>string option\<close>.

  \<^verbatim>\<open>stat\<close> on the device node is the argument \<open>host\<close>.
\<close>

section \<open>State (\<^verbatim>\<open>include/sm_types.h\<close>, \<^verbatim>\<open>include/sm_image_cache.h\<close>)\<close>

datatype attach_backend = ATTACH_BACKEND_NONE | ATTACH_BACKEND_LVD | ATTACH_BACKEND_MD

datatype attached_device_state =
  ATTACHED_DEVICE_RELEASED | ATTACHED_DEVICE_ATTACHING | ATTACHED_DEVICE_MOUNTED
  | ATTACHED_DEVICE_DETACH_REQUESTED

record attached_unit_detach_state =
  requested :: bool
  node_identity_valid :: bool
  node_device :: u64
  node_inode :: u64
  node_rdev :: u64

record image_slot =
  generation :: u64
  path :: string
  mount_point :: string
  unit_id :: int
  backend :: attach_backend
  dev_state :: attached_device_state
  detach_state :: attached_unit_detach_state
  detach_attempt_active :: bool
  slot_valid :: bool

record image_cache_entry =
  e_generation :: u64
  e_path :: string
  e_mount_point :: string
  e_unit_id :: int
  e_backend :: attach_backend
  e_state :: attached_device_state
  e_detach_state :: attached_unit_detach_state

record image_cache =
  slots :: "image_slot list"
  cache_generation :: u64

definition blank_detach_state :: attached_unit_detach_state where
  "blank_detach_state = \<lparr>requested = False, node_identity_valid = False, node_device = 0,
     node_inode = 0, node_rdev = 0\<rparr>"

definition blank_slot :: image_slot where
  "blank_slot = \<lparr>generation = 0, path = [], mount_point = [], unit_id = 0,
     backend = ATTACH_BACKEND_NONE, dev_state = ATTACHED_DEVICE_RELEASED,
     detach_state = blank_detach_state, detach_attempt_active = False, slot_valid = False\<rparr>"

definition image_cache_init :: image_cache where
  "image_cache_init = \<lparr>slots = replicate MAX_IMAGE_MOUNTS blank_slot, cache_generation = 0\<rparr>"

section \<open>Helpers\<close>

definition next_cache_generation :: "image_cache \<Rightarrow> u64 \<times> image_cache" where
  "next_cache_generation c =
     (let g = cache_generation c + 1; g' = (if g = 0 then g + 1 else g)
      in (g', c\<lparr>cache_generation := g'\<rparr>))"

definition attach_backend_is_valid :: "attach_backend \<Rightarrow> bool" where
  "attach_backend_is_valid b \<longleftrightarrow> b = ATTACH_BACKEND_MD \<or> b = ATTACH_BACKEND_LVD"

definition device_identity_matches :: "attached_unit_detach_state \<Rightarrow> attached_unit_detach_state \<Rightarrow> bool" where
  "device_identity_matches left right =
     (if \<not> node_identity_valid left \<or> \<not> node_identity_valid right then False
      else node_device left = node_device right \<and> node_inode left = node_inode right
           \<and> node_rdev left = node_rdev right)"

definition devname_of :: "attach_backend \<Rightarrow> int \<Rightarrow> string" where
  "devname_of b u = (if b = ATTACH_BACKEND_MD then ''/dev/md'' else ''/dev/lvd'') @ string_of_nat (nat u)"

definition refresh_attached_unit_identity :: "host \<Rightarrow> image_slot \<Rightarrow> bool \<times> image_slot" where
  "refresh_attached_unit_identity h e =
     (if \<not> attach_backend_is_valid (backend e) \<or> unit_id e < 0 then (False, e)
      else if node_identity_valid (detach_state e) then (True, e)
      else
        (case h_stat h (devname_of (backend e) (unit_id e)) of
           Inl _ \<Rightarrow> (False, e)
         | Inr st \<Rightarrow> (True, e\<lparr>detach_state := (detach_state e)\<lparr>node_identity_valid := True,
             node_device := st_dev st, node_inode := st_ino st, node_rdev := st_rdev st\<rparr>\<rparr>)))"

definition reset_attached_unit_identity :: "host \<Rightarrow> image_slot \<Rightarrow> image_slot" where
  "reset_attached_unit_identity h e =
     snd (refresh_attached_unit_identity h (e\<lparr>detach_state := blank_detach_state\<rparr>))"

definition copy_cache_entry :: "image_slot \<Rightarrow> image_cache_entry" where
  "copy_cache_entry e = \<lparr>e_generation = generation e, e_path = strlcpy (path e) MAX_PATH,
     e_mount_point = strlcpy (mount_point e) MAX_PATH, e_unit_id = unit_id e, e_backend = backend e,
     e_state = dev_state e, e_detach_state = detach_state e\<rparr>"

definition find_source_path_index :: "image_cache \<Rightarrow> string \<Rightarrow> nat option" where
  "find_source_path_index c p = find_index (\<lambda>e. slot_valid e \<and> path e = p) (slots c)"

definition find_mount_point_index :: "image_cache \<Rightarrow> string \<Rightarrow> nat option" where
  "find_mount_point_index c m = find_index (\<lambda>e. slot_valid e \<and> mount_point e = m) (slots c)"

definition cache_entry_is_metadata_only :: "image_slot \<Rightarrow> bool" where
  "cache_entry_is_metadata_only e \<longleftrightarrow>
     dev_state e = ATTACHED_DEVICE_RELEASED \<and> unit_id e < 0 \<and> backend e = ATTACH_BACKEND_NONE
     \<and> \<not> detach_attempt_active e"

text \<open>The scan for both keys, from slot \<open>k\<close> on, with what has been found so far.\<close>

fun mapping_loop :: "string \<Rightarrow> string \<Rightarrow> nat \<Rightarrow> image_slot list \<Rightarrow> nat option \<Rightarrow> nat option
    \<Rightarrow> (nat option \<times> nat option) res" where
  "mapping_loop p m k [] pi mi = Inr (pi, mi)"
| "mapping_loop p m k (e # es) pi mi =
     (if \<not> slot_valid e then mapping_loop p m (Suc k) es pi mi
      else if path e = p \<and> pi \<noteq> None then Inl EEXIST
      else if mount_point e = m \<and> mi \<noteq> None then Inl EEXIST
      else mapping_loop p m (Suc k) es (if path e = p then Some k else pi)
             (if mount_point e = m then Some k else mi))"

definition find_mapping_indices :: "image_cache \<Rightarrow> string \<Rightarrow> string \<Rightarrow> (nat option \<times> nat option) res" where
  "find_mapping_indices c p m = mapping_loop p m 0 (slots c) None None"

definition set_slot :: "image_cache \<Rightarrow> nat \<Rightarrow> image_slot \<Rightarrow> image_cache" where
  "set_slot c k e = c\<lparr>slots := (slots c)[k := e]\<rparr>"

text \<open>The slot to use, whether two half-mappings were merged into it, and the cache.\<close>

definition resolve_or_merge_mapping_index ::
  "image_cache \<Rightarrow> string \<Rightarrow> string \<Rightarrow> (nat option \<times> bool \<times> image_cache) res" where
  "resolve_or_merge_mapping_index c p m =
     (case find_mapping_indices c p m of
        Inl e \<Rightarrow> Inl e
      | Inr (None, mi) \<Rightarrow> Inr (mi, False, c)
      | Inr (Some i, None) \<Rightarrow> Inr (Some i, False, c)
      | Inr (Some i, Some j) \<Rightarrow>
          (if i = j then Inr (Some i, False, c)
           else if \<not> cache_entry_is_metadata_only (slots c ! i)
                   \<or> \<not> cache_entry_is_metadata_only (slots c ! j) then Inl EBUSY
           else Inr (Some i, True, set_slot c j blank_slot)))"

definition find_attachment_record :: "image_cache \<Rightarrow> string \<Rightarrow> u64 \<Rightarrow> int \<Rightarrow> attach_backend \<Rightarrow> nat option" where
  "find_attachment_record c p gen u b =
     (case find_source_path_index c p of
        None \<Rightarrow> None
      | Some k \<Rightarrow>
          (if generation (slots c ! k) \<noteq> gen \<or> unit_id (slots c ! k) \<noteq> u \<or> backend (slots c ! k) \<noteq> b
           then None else Some k))"

definition upsert_image_source_mapping :: "image_cache \<Rightarrow> string \<Rightarrow> string \<Rightarrow> nat res \<times> image_cache" where
  "upsert_image_source_mapping c p m =
     (if p = [] \<or> m = [] then (Inl EINVAL, c)
      else if length p \<ge> MAX_PATH \<or> length m \<ge> MAX_PATH then (Inl ENAMETOOLONG, c)
      else
        (case resolve_or_merge_mapping_index c p m of
           Inl err \<Rightarrow> (Inl err, c)
         | Inr (Some k, merged, c1) \<Rightarrow>
             (let e = slots c1 ! k;
                  mapping_changed = (merged \<or> path e \<noteq> p \<or> mount_point e \<noteq> m)
              in if \<not> cache_entry_is_metadata_only e \<and> mapping_changed then (Inl EBUSY, c1)
                 else
                   (let e1 = e\<lparr>path := strlcpy p MAX_PATH, mount_point := strlcpy m MAX_PATH\<rparr>
                    in if mapping_changed
                       then (let (g, c2) = next_cache_generation c1
                             in (Inr k, set_slot c2 k (e1\<lparr>generation := g\<rparr>)))
                       else (Inr k, set_slot c1 k e1)))
         | Inr (None, _, c1) \<Rightarrow>
             (case find_index (\<lambda>e. \<not> slot_valid e) (slots c1) of
                None \<Rightarrow> (Inl ENOSPC, c1)
              | Some k \<Rightarrow>
                  (let (g, c2) = next_cache_generation c1
                   in (Inr k, set_slot c2 k ((slots c1 ! k)\<lparr>path := strlcpy p MAX_PATH,
                        mount_point := strlcpy m MAX_PATH, unit_id := -1, backend := ATTACH_BACKEND_NONE,
                        dev_state := ATTACHED_DEVICE_RELEASED, generation := g, slot_valid := True\<rparr>))))))"

section \<open>Public operations\<close>

definition cache_image_source_mapping :: "image_cache \<Rightarrow> string \<Rightarrow> string \<Rightarrow> unit res \<times> image_cache" where
  "cache_image_source_mapping c p m =
     (case upsert_image_source_mapping c p m of (Inl e, c1) \<Rightarrow> (Inl e, c1) | (Inr _, c1) \<Rightarrow> (Inr (), c1))"

definition begin_image_attachment :: "image_cache \<Rightarrow> string \<Rightarrow> string \<Rightarrow> u64 res \<times> image_cache" where
  "begin_image_attachment c p m =
     (case upsert_image_source_mapping c p m of
        (Inl e, c1) \<Rightarrow> (Inl e, c1)
      | (Inr k, c1) \<Rightarrow>
          (if \<not> cache_entry_is_metadata_only (slots c1 ! k) then (Inl EBUSY, c1)
           else
             (let (g, c2) = next_cache_generation c1
              in (Inr g, set_slot c2 k ((slots c2 ! k)\<lparr>generation := g, unit_id := -1,
                   backend := ATTACH_BACKEND_NONE, dev_state := ATTACHED_DEVICE_ATTACHING,
                   detach_state := blank_detach_state, detach_attempt_active := False\<rparr>)))))"

text \<open>An unpublished reservation of the given generation.\<close>

definition find_reservation :: "image_cache \<Rightarrow> string \<Rightarrow> u64 \<Rightarrow> nat option" where
  "find_reservation c p gen =
     (case find_source_path_index c p of
        None \<Rightarrow> None
      | Some k \<Rightarrow>
          (let e = slots c ! k in
           if generation e \<noteq> gen \<or> dev_state e \<noteq> ATTACHED_DEVICE_ATTACHING \<or> unit_id e \<ge> 0
              \<or> backend e \<noteq> ATTACH_BACKEND_NONE then None else Some k))"

definition cancel_image_attachment :: "image_cache \<Rightarrow> string option \<Rightarrow> u64 \<Rightarrow> unit res \<times> image_cache" where
  "cancel_image_attachment c src gen =
     (case src of
        None \<Rightarrow> (Inl E_UNSET, c)
      | Some p \<Rightarrow>
          (if gen = 0 then (Inl E_UNSET, c)
           else
             (case find_reservation c p gen of
                None \<Rightarrow> (Inl E_UNSET, c)
              | Some k \<Rightarrow> (Inr (), set_slot c k blank_slot))))"

definition publish_image_attachment ::
  "host \<Rightarrow> image_cache \<Rightarrow> string option \<Rightarrow> u64 \<Rightarrow> int \<Rightarrow> attach_backend \<Rightarrow> unit res \<times> image_cache" where
  "publish_image_attachment h c src gen u b =
     (case src of
        None \<Rightarrow> (Inl EINVAL, c)
      | Some p \<Rightarrow>
          (if gen = 0 \<or> u < 0 \<or> \<not> attach_backend_is_valid b then (Inl EINVAL, c)
           else
             (case find_reservation c p gen of
                None \<Rightarrow> (Inl E_UNSET, c)
              | Some k \<Rightarrow> (Inr (), set_slot c k
                  (snd (refresh_attached_unit_identity h ((slots c ! k)\<lparr>unit_id := u, backend := b\<rparr>)))))))"

definition complete_image_attachment ::
  "host \<Rightarrow> image_cache \<Rightarrow> string option \<Rightarrow> u64 \<Rightarrow> int \<Rightarrow> attach_backend \<Rightarrow> unit res \<times> image_cache" where
  "complete_image_attachment h c src gen u b =
     (case src of
        None \<Rightarrow> (Inl EINVAL, c)
      | Some p \<Rightarrow>
          (if gen = 0 \<or> u < 0 \<or> \<not> attach_backend_is_valid b then (Inl EINVAL, c)
           else
             (case find_attachment_record c p gen u b of
                None \<Rightarrow> (Inl E_UNSET, c)
              | Some k \<Rightarrow>
                  (if dev_state (slots c ! k) \<noteq> ATTACHED_DEVICE_ATTACHING then (Inl E_UNSET, c)
                   else (Inr (), set_slot c k (snd (refresh_attached_unit_identity h
                          ((slots c ! k)\<lparr>dev_state := ATTACHED_DEVICE_MOUNTED\<rparr>))))))))"

definition cache_image_mount ::
  "host \<Rightarrow> image_cache \<Rightarrow> string \<Rightarrow> string \<Rightarrow> int \<Rightarrow> attach_backend \<Rightarrow> unit res \<times> image_cache" where
  "cache_image_mount h c p m u b =
     (if u < 0 \<or> \<not> attach_backend_is_valid b then (Inl EINVAL, c)
      else
        (case upsert_image_source_mapping c p m of
           (Inl e, c1) \<Rightarrow> (Inl e, c1)
         | (Inr k, c1) \<Rightarrow>
             (let (g, c2) = next_cache_generation c1
              in (Inr (), set_slot c2 k (reset_attached_unit_identity h
                   ((slots c2 ! k)\<lparr>generation := g, unit_id := u, backend := b,
                     dev_state := ATTACHED_DEVICE_MOUNTED, detach_attempt_active := False\<rparr>))))))"

definition get_image_cache_entry :: "image_cache \<Rightarrow> int \<Rightarrow> image_cache_entry option" where
  "get_image_cache_entry c index =
     (if index < 0 \<or> index \<ge> int MAX_IMAGE_MOUNTS \<or> \<not> slot_valid (slots c ! nat index) then None
      else Some (copy_cache_entry (slots c ! nat index)))"

definition image_cache_find_active_source_under :: "image_cache \<Rightarrow> string \<Rightarrow> nat \<Rightarrow> string option" where
  "image_cache_find_active_source_under c root path_size =
     (if root = [] then None
      else map_option (\<lambda>e. strlcpy (path e) path_size)
             (find (\<lambda>e. slot_valid e \<and> dev_state e \<noteq> ATTACHED_DEVICE_RELEASED
                \<and> path_matches_root_or_child (path e) root) (slots c)))"

definition find_image_cache_entry :: "image_cache \<Rightarrow> string option \<Rightarrow> (image_cache_entry \<times> nat) option" where
  "find_image_cache_entry c src =
     (case src of
        None \<Rightarrow> None
      | Some p \<Rightarrow> map_option (\<lambda>k. (copy_cache_entry (slots c ! k), k)) (find_source_path_index c p))"

definition mark_image_cache_detach_requested ::
  "host \<Rightarrow> image_cache \<Rightarrow> string option \<Rightarrow> u64 \<Rightarrow> int \<Rightarrow> attach_backend \<Rightarrow> unit res \<times> image_cache" where
  "mark_image_cache_detach_requested h c src gen u b =
     (case src of
        None \<Rightarrow> (Inl EINVAL, c)
      | Some p \<Rightarrow>
          (if gen = 0 \<or> u < 0 \<or> \<not> attach_backend_is_valid b then (Inl EINVAL, c)
           else
             (case find_attachment_record c p gen u b of
                None \<Rightarrow> (Inl ESTALE, c)
              | Some k \<Rightarrow>
                  (let (ok, e) = refresh_attached_unit_identity h
                         ((slots c ! k)\<lparr>dev_state := ATTACHED_DEVICE_DETACH_REQUESTED\<rparr>)
                   in (if ok then Inr () else Inl EAGAIN, set_slot c k e)))))"

definition claim_image_cache_detach ::
  "host \<Rightarrow> image_cache \<Rightarrow> string option \<Rightarrow> u64 \<Rightarrow> int \<Rightarrow> attach_backend
   \<Rightarrow> image_cache_entry res \<times> image_cache" where
  "claim_image_cache_detach h c src gen u b =
     (case src of
        None \<Rightarrow> (Inl EINVAL, c)
      | Some p \<Rightarrow>
          (if gen = 0 \<or> u < 0 \<or> \<not> attach_backend_is_valid b then (Inl EINVAL, c)
           else
             (case find_attachment_record c p gen u b of
                None \<Rightarrow> (Inl ESTALE, c)
              | Some k \<Rightarrow>
                  (if detach_attempt_active (slots c ! k) then (Inl EINPROGRESS, c)
                   else
                     (let (ok, e) = refresh_attached_unit_identity h (slots c ! k)
                      in if \<not> ok then (Inl EAGAIN, set_slot c k e)
                         else
                           (let e' = e\<lparr>dev_state := ATTACHED_DEVICE_DETACH_REQUESTED,
                                       detach_attempt_active := True\<rparr>
                            in (Inr (copy_cache_entry e'), set_slot c k e')))))))"

definition finish_image_cache_detach_attempt ::
  "image_cache \<Rightarrow> string option \<Rightarrow> u64 \<Rightarrow> int \<Rightarrow> attach_backend \<Rightarrow> attached_unit_detach_state
   \<Rightarrow> unit res \<times> image_cache" where
  "finish_image_cache_detach_attempt c src gen u b ds =
     (case src of
        None \<Rightarrow> (Inl EINVAL, c)
      | Some p \<Rightarrow>
          (if gen = 0 \<or> u < 0 \<or> \<not> attach_backend_is_valid b \<or> \<not> node_identity_valid ds then (Inl EINVAL, c)
           else
             (case find_attachment_record c p gen u b of
                None \<Rightarrow> (Inl ESTALE, c)
              | Some k \<Rightarrow>
                  (if \<not> detach_attempt_active (slots c ! k)
                      \<or> \<not> device_identity_matches (detach_state (slots c ! k)) ds then (Inl ESTALE, c)
                   else (Inr (), set_slot c k ((slots c ! k)\<lparr>detach_state := ds,
                          dev_state := ATTACHED_DEVICE_DETACH_REQUESTED, detach_attempt_active := False\<rparr>))))))"

definition invalidate_image_cache_entry :: "image_cache \<Rightarrow> int \<Rightarrow> image_cache_entry \<Rightarrow> unit res \<times> image_cache" where
  "invalidate_image_cache_entry c index expected =
     (if index < 0 \<or> index \<ge> int MAX_IMAGE_MOUNTS \<or> \<not> slot_valid (slots c ! nat index) then (Inl ESTALE, c)
      else
        (let e = slots c ! nat index in
         if generation e \<noteq> e_generation expected \<or> path e \<noteq> e_path expected
            \<or> mount_point e \<noteq> e_mount_point expected \<or> unit_id e \<noteq> e_unit_id expected
            \<or> backend e \<noteq> e_backend expected \<or> dev_state e \<noteq> e_state expected \<or> detach_attempt_active e
            \<or> requested (detach_state e) \<noteq> requested (e_detach_state expected)
            \<or> \<not> device_identity_matches (detach_state e) (e_detach_state expected)
         then (Inl ESTALE, c)
         else (Inr (), set_slot c (nat index) blank_slot)))"

definition resolve_device_from_mount_cache :: "image_cache \<Rightarrow> string \<Rightarrow> (attach_backend \<times> int) option" where
  "resolve_device_from_mount_cache c m =
     (case find_mount_point_index c m of
        None \<Rightarrow> None
      | Some k \<Rightarrow>
          (let e = slots c ! k in
           if backend e = ATTACH_BACKEND_NONE \<or> unit_id e < 0 then None else Some (backend e, unit_id e)))"

definition resolve_image_source_from_mount_cache :: "image_cache \<Rightarrow> string \<Rightarrow> nat \<Rightarrow> string option" where
  "resolve_image_source_from_mount_cache c m path_out_size =
     (case find_mount_point_index c m of
        None \<Rightarrow> None
      | Some k \<Rightarrow> Some (strlcpy (path (slots c ! k)) path_out_size))"

text \<open>The owner of a path: the longest mount point it equals or lies below.\<close>

definition owns :: "image_slot \<Rightarrow> string \<Rightarrow> bool" where
  "owns e p \<longleftrightarrow> starts_with (mount_point e) p
     \<and> (char_at p (length (mount_point e)) = CHR 0x00 \<or> char_at p (length (mount_point e)) = CHR ''/'')"

fun owning_loop :: "string \<Rightarrow> nat \<Rightarrow> image_slot list \<Rightarrow> nat option \<Rightarrow> nat \<Rightarrow> nat option" where
  "owning_loop p k [] best_index best_length = best_index"
| "owning_loop p k (e # es) best_index best_length =
     (if \<not> slot_valid e then owning_loop p (Suc k) es best_index best_length
      else if length (mount_point e) \<le> best_length \<or> \<not> owns e p
      then owning_loop p (Suc k) es best_index best_length
      else owning_loop p (Suc k) es (Some k) (length (mount_point e)))"

definition find_owning_cache_index :: "image_cache \<Rightarrow> string \<Rightarrow> nat option" where
  "find_owning_cache_index c p = owning_loop p 0 (slots c) None 0"

fun chain_loop :: "image_cache \<Rightarrow> nat \<Rightarrow> string \<Rightarrow> nat list" where
  "chain_loop c 0 current = []"
| "chain_loop c (Suc n) current =
     (case find_owning_cache_index c current of
        None \<Rightarrow> []
      | Some k \<Rightarrow> k # chain_loop c n (strlcpy (path (slots c ! k)) MAX_PATH))"

definition find_owning_chain_indices :: "image_cache \<Rightarrow> string \<Rightarrow> nat list" where
  "find_owning_chain_indices c p = chain_loop c MAX_IMAGE_CHAIN_DEPTH (strlcpy p MAX_PATH)"

definition resolve_owning_image_source_from_mount_cache :: "image_cache \<Rightarrow> string \<Rightarrow> nat \<Rightarrow> string option" where
  "resolve_owning_image_source_from_mount_cache c p path_out_size =
     (if path_out_size = 0 then None
      else map_option (\<lambda>k. strlcpy (path (slots c ! k)) path_out_size) (find_owning_cache_index c p))"

text \<open>Outermost source first.\<close>

definition resolve_image_source_chain_from_mount_cache :: "image_cache \<Rightarrow> string \<Rightarrow> string list" where
  "resolve_image_source_chain_from_mount_cache c p =
     map (\<lambda>k. strlcpy (path (slots c ! k)) MAX_PATH) (rev (find_owning_chain_indices c p))"

definition resolve_outermost_image_source_from_mount_cache :: "image_cache \<Rightarrow> string \<Rightarrow> nat \<Rightarrow> string option" where
  "resolve_outermost_image_source_from_mount_cache c p path_out_size =
     (if path_out_size = 0 then None
      else
        (let indices = find_owning_chain_indices c p
         in if indices = [] then None else Some (strlcpy (path (slots c ! last indices)) path_out_size)))"

section \<open>The cache invariant\<close>

text \<open>A slot in use either holds no device or a published one, its attach state says which,
  and a detach claim is held only on a device whose node identity is known.\<close>

definition unattached :: "image_slot \<Rightarrow> bool" where
  "unattached e \<longleftrightarrow> unit_id e < 0 \<and> backend e = ATTACH_BACKEND_NONE"

definition attached :: "image_slot \<Rightarrow> bool" where
  "attached e \<longleftrightarrow> unit_id e \<ge> 0 \<and> attach_backend_is_valid (backend e)"

definition device_ok :: "image_slot \<Rightarrow> bool" where
  "device_ok e \<longleftrightarrow>
     (unattached e \<or> attached e)
     \<and> (dev_state e = ATTACHED_DEVICE_RELEASED \<longrightarrow> unattached e)
     \<and> (dev_state e \<in> {ATTACHED_DEVICE_MOUNTED, ATTACHED_DEVICE_DETACH_REQUESTED} \<longrightarrow> attached e)
     \<and> (detach_attempt_active e \<longrightarrow>
          dev_state e = ATTACHED_DEVICE_DETACH_REQUESTED \<and> node_identity_valid (detach_state e))"

definition slot_ok :: "image_slot \<Rightarrow> bool" where
  "slot_ok e \<longleftrightarrow>
     (if slot_valid e
      then path e \<noteq> [] \<and> length (path e) < MAX_PATH \<and> mount_point e \<noteq> [] \<and> length (mount_point e) < MAX_PATH
           \<and> generation e \<noteq> 0 \<and> device_ok e
      else e = blank_slot)"

definition cache_inv :: "image_cache \<Rightarrow> bool" where
  "cache_inv c \<longleftrightarrow>
     length (slots c) = MAX_IMAGE_MOUNTS \<and> (\<forall>e\<in>set (slots c). slot_ok e)
     \<and> keys_distinct slot_valid path (slots c) \<and> keys_distinct slot_valid mount_point (slots c)"

text \<open>Handles: no two slots share a generation and none is ahead of the counter.\<close>

definition handles_inv :: "image_cache \<Rightarrow> bool" where
  "handles_inv c \<longleftrightarrow>
     (\<forall>e\<in>set (slots c). slot_valid e \<longrightarrow> generation e \<le> cache_generation c)
     \<and> keys_distinct slot_valid generation (slots c)"

lemma slots_set_slot [simp]: "slots (set_slot c k e) = (slots c)[k := e]"
  and cache_generation_set_slot [simp]: "cache_generation (set_slot c k e) = cache_generation c"
  by (simp_all add: set_slot_def)

lemma slots_next_generation [simp]: "next_cache_generation c = (g, c') \<Longrightarrow> slots c' = slots c"
  by (auto simp: next_cache_generation_def Let_def)

lemma next_generation_nz: "next_cache_generation c = (g, c') \<Longrightarrow> g \<noteq> 0 \<and> cache_generation c' = g"
  by (cases "cache_generation c + 1 = 0") (simp_all only: next_cache_generation_def Let_def, auto)

lemma slot_ok_blank [simp]: "slot_ok blank_slot"
  by (simp add: slot_ok_def blank_slot_def)

lemma blank_invalid [simp]: "\<not> slot_valid blank_slot"
  by (simp add: blank_slot_def)

lemma cache_inv_init: "cache_inv image_cache_init"
  by (simp add: cache_inv_def image_cache_init_def)

lemma handles_inv_init: "handles_inv image_cache_init"
  by (simp add: handles_inv_def image_cache_init_def)

lemma cache_inv_slot: "cache_inv c \<Longrightarrow> k < length (slots c) \<Longrightarrow> slot_ok (slots c ! k)"
  by (simp add: cache_inv_def)

lemma cache_inv_length: "cache_inv c \<Longrightarrow> length (slots c) = MAX_IMAGE_MOUNTS"
  by (simp add: cache_inv_def)

lemma cache_inv_slots_cong: "slots c = slots c' \<Longrightarrow> cache_inv c = cache_inv c'"
  by (simp add: cache_inv_def)

lemma set_update_all: "\<forall>x\<in>set xs. P x \<Longrightarrow> P y \<Longrightarrow> \<forall>x\<in>set (xs[k := y]). P x"
  using set_update_subset_insert [of xs k y] by blast

lemma cache_inv_set_slot:
  assumes "cache_inv c" and "slot_ok e"
    and "\<And>j. slot_valid e \<Longrightarrow> j < length (slots c) \<Longrightarrow> j \<noteq> k \<Longrightarrow> slot_valid (slots c ! j)
          \<Longrightarrow> path (slots c ! j) \<noteq> path e \<and> mount_point (slots c ! j) \<noteq> mount_point e"
  shows "cache_inv (set_slot c k e)"
proof -
  have "\<forall>x\<in>set ((slots c)[k := e]). slot_ok x"
    using assms(1,2) by (intro set_update_all) (simp_all add: cache_inv_def)
  moreover have "keys_distinct slot_valid path ((slots c)[k := e])"
    using assms(1,3) by (intro keys_distinct_update) (simp_all add: cache_inv_def)
  moreover have "keys_distinct slot_valid mount_point ((slots c)[k := e])"
    using assms(1,3) by (intro keys_distinct_update) (simp_all add: cache_inv_def)
  ultimately show ?thesis using assms(1) by (simp add: cache_inv_def)
qed

lemma cache_inv_blank: "cache_inv c \<Longrightarrow> cache_inv (set_slot c k blank_slot)"
  by (rule cache_inv_set_slot) simp_all

text \<open>A write that keeps the slot's two names.\<close>

lemma cache_inv_kept:
  assumes "cache_inv c" and "k < length (slots c)" and "slot_valid (slots c ! k)"
    and "slot_ok e" and "path e = path (slots c ! k)" and "mount_point e = mount_point (slots c ! k)"
  shows "cache_inv (set_slot c k e)"
proof (rule cache_inv_set_slot [OF assms(1,4)])
  fix j
  assume "slot_valid e" "j < length (slots c)" "j \<noteq> k" "slot_valid (slots c ! j)"
  then show "path (slots c ! j) \<noteq> path e \<and> mount_point (slots c ! j) \<noteq> mount_point e"
    using assms keys_distinctD [of slot_valid path "slots c" j k]
      keys_distinctD [of slot_valid mount_point "slots c" j k]
    by (auto simp: cache_inv_def)
qed

lemma handles_inv_set_slot:
  assumes "handles_inv c" and "slot_valid e \<Longrightarrow> generation e \<le> cache_generation c"
    and "\<And>j. slot_valid e \<Longrightarrow> j < length (slots c) \<Longrightarrow> j \<noteq> k \<Longrightarrow> slot_valid (slots c ! j)
          \<Longrightarrow> generation (slots c ! j) \<noteq> generation e"
  shows "handles_inv (set_slot c k e)"
proof -
  have "\<forall>x\<in>set ((slots c)[k := e]). slot_valid x \<longrightarrow> generation x \<le> cache_generation c"
    using assms(1,2) by (intro set_update_all) (simp_all add: handles_inv_def)
  moreover have "keys_distinct slot_valid generation ((slots c)[k := e])"
    using assms(1,3) by (intro keys_distinct_update) (simp_all add: handles_inv_def)
  ultimately show ?thesis by (simp add: handles_inv_def)
qed

lemma handles_inv_blank: "handles_inv c \<Longrightarrow> handles_inv (set_slot c k blank_slot)"
  by (rule handles_inv_set_slot) simp_all

lemma handles_inv_kept:
  assumes "handles_inv c" and "k < length (slots c)" and "slot_valid (slots c ! k)"
    and "generation e = generation (slots c ! k)"
  shows "handles_inv (set_slot c k e)"
proof (rule handles_inv_set_slot [OF assms(1)])
  show "generation e \<le> cache_generation c"
    using assms by (simp add: handles_inv_def)
next
  fix j
  assume "j < length (slots c)" "j \<noteq> k" "slot_valid (slots c ! j)"
  then show "generation (slots c ! j) \<noteq> generation e"
    using assms keys_distinctD [of slot_valid generation "slots c" j k] unfolding handles_inv_def by metis
qed

text \<open>A write under a generation drawn just before; the counter must not have wrapped.\<close>

lemma next_generation_less:
  assumes "next_cache_generation c = (g, c')" and "unat (cache_generation c) + 1 < 2 ^ 64"
  shows "cache_generation c < g \<and> unat g = unat (cache_generation c) + 1"
proof -
  have u: "unat (cache_generation c + 1) = unat (cache_generation c) + 1"
    using assms(2) by (simp add: unat_word_ariths)
  then have "cache_generation c + 1 \<noteq> 0" by (auto simp: word_unat_eq_iff)
  then have "g = cache_generation c + 1"
    using assms(1) unfolding next_cache_generation_def Let_def by simp
  then show ?thesis using u by (simp add: word_less_nat_alt)
qed

lemma handles_inv_fresh:
  assumes h: "handles_inv c" and n: "next_cache_generation c = (g, c')"
    and w: "unat (cache_generation c) + 1 < 2 ^ 64" and e: "generation e = g"
  shows "handles_inv (set_slot c' k e)"
proof -
  have g: "cache_generation c < g" and s: "slots c' = slots c" and cg: "cache_generation c' = g"
    using next_generation_less [OF n w] next_generation_nz [OF n] n by auto
  have old: "generation x < g" if "x \<in> set (slots c)" "slot_valid x" for x
    using h that g unfolding handles_inv_def by (meson order_le_less_trans)
  have h': "handles_inv c'"
    using h old by (simp add: handles_inv_def s cg less_imp_le)
  show ?thesis
  proof (rule handles_inv_set_slot [OF h'])
    fix j
    assume "j < length (slots c')" "slot_valid (slots c' ! j)"
    then have "generation (slots c ! j) < g" by (intro old) (simp_all add: s)
    then show "generation (slots c' ! j) \<noteq> generation e" by (simp add: s e)
  qed (simp add: cg e)
qed

section \<open>Searches\<close>

lemma find_source_SomeD:
  assumes "find_source_path_index c p = Some k"
  shows "k < length (slots c)" and "slot_valid (slots c ! k)" and "path (slots c ! k) = p"
  using assms by (simp_all add: find_source_path_index_def find_index_Some)

lemma find_source_eq:
  assumes "cache_inv c" and "k < length (slots c)" and "slot_valid (slots c ! k)" and "path (slots c ! k) = p"
  shows "find_source_path_index c p = Some k"
proof -
  obtain j where j: "find_source_path_index c p = Some j"
    using assms unfolding find_source_path_index_def by (metis (mono_tags, lifting) find_index_ex nth_mem)
  moreover have "j = k"
    using find_source_SomeD [OF j] assms keys_distinctD [of slot_valid path "slots c" j k]
    by (simp add: cache_inv_def)
  ultimately show ?thesis by simp
qed

lemma find_attachment_SomeD:
  assumes "find_attachment_record c p gen u b = Some k"
  shows "k < length (slots c)" and "slot_valid (slots c ! k)" and "path (slots c ! k) = p"
    and "generation (slots c ! k) = gen" and "unit_id (slots c ! k) = u" and "backend (slots c ! k) = b"
  using assms find_source_SomeD [of c p]
  by (auto simp: find_attachment_record_def split: option.splits if_splits)

lemma find_reservation_SomeD:
  assumes "find_reservation c p gen = Some k"
  shows "k < length (slots c)" and "slot_valid (slots c ! k)" and "path (slots c ! k) = p"
    and "generation (slots c ! k) = gen" and "dev_state (slots c ! k) = ATTACHED_DEVICE_ATTACHING"
    and "unattached (slots c ! k)"
  using assms find_source_SomeD [of c p]
  by (auto simp: find_reservation_def Let_def unattached_def split: option.splits if_splits)

text \<open>With one slot per name the scan for both keys finds each key's slot and never
  reports a duplicate.\<close>

lemma mapping_loop_eq:
  assumes "keys_distinct slot_valid path es" and "keys_distinct slot_valid mount_point es"
    and "pi = None \<or> find_index (\<lambda>e. slot_valid e \<and> path e = p) es = None"
    and "mi = None \<or> find_index (\<lambda>e. slot_valid e \<and> mount_point e = m) es = None"
  shows "mapping_loop p m k es pi mi =
    Inr (case find_index (\<lambda>e. slot_valid e \<and> path e = p) es of None \<Rightarrow> pi | Some i \<Rightarrow> Some (k + i),
         case find_index (\<lambda>e. slot_valid e \<and> mount_point e = m) es of None \<Rightarrow> mi | Some i \<Rightarrow> Some (k + i))"
  using assms
proof (induction es arbitrary: k pi mi)
  case Nil
  then show ?case by simp
next
  case (Cons e es)
  have d: "keys_distinct slot_valid path es" "keys_distinct slot_valid mount_point es"
    using Cons.prems(1,2) unfolding keys_distinct_def
    by (metis Suc_less_eq length_Cons nat.inject nth_Cons_Suc)+
  have np: "find_index (\<lambda>e. slot_valid e \<and> path e = p) es = None" if "slot_valid e" "path e = p"
  proof (rule ccontr)
    assume "find_index (\<lambda>e. slot_valid e \<and> path e = p) es \<noteq> None"
    then obtain i where "find_index (\<lambda>e. slot_valid e \<and> path e = p) es = Some i" by blast
    then show False using keys_distinctD [OF Cons.prems(1), of 0 "Suc i"] that by (simp add: find_index_Some)
  qed
  have nm: "find_index (\<lambda>e. slot_valid e \<and> mount_point e = m) es = None" if "slot_valid e" "mount_point e = m"
  proof (rule ccontr)
    assume "find_index (\<lambda>e. slot_valid e \<and> mount_point e = m) es \<noteq> None"
    then obtain i where "find_index (\<lambda>e. slot_valid e \<and> mount_point e = m) es = Some i" by blast
    then show False using keys_distinctD [OF Cons.prems(2), of 0 "Suc i"] that by (simp add: find_index_Some)
  qed
  show ?case
    using Cons.prems(3,4) d np nm
    by (auto simp: Cons.IH split: if_splits option.splits)
qed

lemma find_mapping_eq:
  assumes "cache_inv c"
  shows "find_mapping_indices c p m = Inr (find_source_path_index c p, find_mount_point_index c m)"
  using assms mapping_loop_eq [of "slots c" None p None m 0]
  by (simp add: find_mapping_indices_def find_source_path_index_def find_mount_point_index_def cache_inv_def
      split: option.split)

section \<open>Upserting a mapping\<close>

lemma find_mount_SomeD:
  assumes "find_mount_point_index c m = Some k"
  shows "k < length (slots c)" and "slot_valid (slots c ! k)" and "mount_point (slots c ! k) = m"
  using assms by (simp_all add: find_mount_point_index_def find_index_Some)

lemma find_mount_other:
  assumes "cache_inv c" and "j < length (slots c)" and "slot_valid (slots c ! j)"
    and "find_mount_point_index c m \<noteq> Some j"
  shows "mount_point (slots c ! j) \<noteq> m"
proof
  assume m: "mount_point (slots c ! j) = m"
  then obtain i where i: "find_mount_point_index c m = Some i"
    using assms(2,3) unfolding find_mount_point_index_def by (metis (mono_tags, lifting) find_index_ex nth_mem)
  then have "i = j"
    using find_mount_SomeD [OF i] m assms keys_distinctD [of slot_valid mount_point "slots c" i j]
    by (simp add: cache_inv_def)
  then show False using i assms(4) by simp
qed

lemma resolve_cases:
  assumes inv: "cache_inv c" and r: "resolve_or_merge_mapping_index c p m = Inr (ki, merged, c')"
  obtains (plain) "\<not> merged" "c' = c" "find_source_path_index c p = None" "ki = find_mount_point_index c m"
  | (owner) i where "\<not> merged" "c' = c" "find_source_path_index c p = Some i" "ki = Some i"
      "find_mount_point_index c m = None \<or> find_mount_point_index c m = Some i"
  | (merge) i j where "merged" "find_source_path_index c p = Some i" "find_mount_point_index c m = Some j"
      "i \<noteq> j" "cache_entry_is_metadata_only (slots c ! i)" "cache_entry_is_metadata_only (slots c ! j)"
      "ki = Some i" "c' = set_slot c j blank_slot"
proof (cases "find_source_path_index c p")
  case None
  then show thesis
    using r by (intro plain) (auto simp: resolve_or_merge_mapping_index_def find_mapping_eq [OF inv])
next
  case (Some i)
  note i = this
  show thesis
  proof (cases "\<exists>j. find_mount_point_index c m = Some j \<and> i \<noteq> j")
    case True
    then obtain j where "find_mount_point_index c m = Some j" "i \<noteq> j" by blast
    then show thesis
      using r i by (intro merge [of i j])
        (auto simp: resolve_or_merge_mapping_index_def find_mapping_eq [OF inv] split: if_splits)
  next
    case False
    then show thesis
      using r i by (intro owner [of i])
        (auto simp: resolve_or_merge_mapping_index_def find_mapping_eq [OF inv] split: option.splits)
  qed
qed

text \<open>The resolved slot, if any, is the only one that carries either name in the cache
  after the merge.\<close>

lemma resolve_spec:
  assumes inv: "cache_inv c" and r: "resolve_or_merge_mapping_index c p m = Inr (ki, merged, c')"
  shows "cache_inv c'" and "cache_generation c' = cache_generation c"
    and "\<And>k. ki = Some k \<Longrightarrow> k < length (slots c) \<and> slot_valid (slots c' ! k) \<and> slots c' ! k = slots c ! k
           \<and> (path (slots c ! k) = p \<or> mount_point (slots c ! k) = m)"
    and "\<And>j. j < length (slots c) \<Longrightarrow> slot_valid (slots c' ! j) \<Longrightarrow> ki \<noteq> Some j
           \<Longrightarrow> path (slots c' ! j) \<noteq> p \<and> mount_point (slots c' ! j) \<noteq> m"
    and "merged \<Longrightarrow> ki \<noteq> None \<and> cache_entry_is_metadata_only (slots c ! the ki)"
    and "\<not> merged \<Longrightarrow> c' = c"
    and "handles_inv c \<Longrightarrow> handles_inv c'"
proof -
  have sp: "path (slots c ! j) \<noteq> p"
    if "j < length (slots c)" "slot_valid (slots c ! j)" "find_source_path_index c p \<noteq> Some j" for j
    using find_source_eq [OF inv] that by blast
  note mp = find_mount_other [OF inv, of _ m]
  show "cache_inv c'" "cache_generation c' = cache_generation c" "\<not> merged \<Longrightarrow> c' = c"
    "handles_inv c \<Longrightarrow> handles_inv c'" "merged \<Longrightarrow> ki \<noteq> None \<and> cache_entry_is_metadata_only (slots c ! the ki)"
    by (cases rule: resolve_cases [OF inv r]; simp add: inv cache_inv_blank handles_inv_blank)+
  show "k < length (slots c) \<and> slot_valid (slots c' ! k) \<and> slots c' ! k = slots c ! k
           \<and> (path (slots c ! k) = p \<or> mount_point (slots c ! k) = m)" if "ki = Some k" for k
    using that find_source_SomeD [of c p k] find_mount_SomeD [of c m k]
    by (cases rule: resolve_cases [OF inv r]) auto
  show "path (slots c' ! j) \<noteq> p \<and> mount_point (slots c' ! j) \<noteq> m"
    if j: "j < length (slots c)" "slot_valid (slots c' ! j)" "ki \<noteq> Some j" for j
    using inv r
  proof (cases rule: resolve_cases)
    case plain
    then show ?thesis using j sp [of j] mp [of j] by simp
  next
    case (owner i)
    then show ?thesis using j sp [of j] mp [of j] by auto
  next
    case (merge i k)
    then have "j \<noteq> k" using j by auto
    then show ?thesis using merge j sp [of j] mp [of j] by simp
  qed
qed

lemma metadata_device_ok: "cache_entry_is_metadata_only e \<Longrightarrow> device_ok e"
  by (simp add: cache_entry_is_metadata_only_def device_ok_def unattached_def)

lemma device_ok_rename [simp]:
  "device_ok (e\<lparr>path := p, mount_point := m\<rparr>) = device_ok e"
  "device_ok (e\<lparr>generation := g\<rparr>) = device_ok e"
  by (simp_all add: device_ok_def unattached_def attached_def)

text \<open>What an upsert does: a failure leaves the cache alone; a success yields the slot that
  carries exactly this pair of names, with the device of the slot unchanged, or a new
  slot without one.\<close>

lemma upsert_fail:
  assumes inv: "cache_inv c" and u: "upsert_image_source_mapping c p m = (Inl e, c')"
  shows "c' = c"
proof (cases "resolve_or_merge_mapping_index c p m")
  case (Inl err)
  then show ?thesis
    using u by (auto simp: upsert_image_source_mapping_def split: if_splits)
next
  case (Inr r)
  obtain ki merged c1 where r: "resolve_or_merge_mapping_index c p m = Inr (ki, merged, c1)"
    using Inr by (metis prod_cases3)
  have "c' = c \<or> c' = c1 \<and> \<not> merged"
    using u r resolve_spec(3) [OF inv r] resolve_spec(5) [OF inv r]
    by (auto simp: upsert_image_source_mapping_def Let_def split: if_splits option.splits prod.splits)
  then show ?thesis using resolve_spec(6) [OF inv r] by auto
qed

lemma upsert_ok:
  assumes inv: "cache_inv c" and u: "upsert_image_source_mapping c p m = (Inr k, c')"
  shows "cache_inv c'" and "k < MAX_IMAGE_MOUNTS" and "slot_valid (slots c' ! k)"
    and "path (slots c' ! k) = p" and "mount_point (slots c' ! k) = m"
proof -
  have len: "p \<noteq> []" "m \<noteq> []" "length p < MAX_PATH" "length m < MAX_PATH"
    using u by (auto simp: upsert_image_source_mapping_def split: if_splits)
  have cp: "strlcpy p MAX_PATH = p" "strlcpy m MAX_PATH = m"
    using len by (simp_all add: strlcpy_id)
  obtain ki merged c1 where r: "resolve_or_merge_mapping_index c p m = Inr (ki, merged, c1)"
    using u len by (auto simp: upsert_image_source_mapping_def split: sum.splits)
  note rs = resolve_spec [OF inv r]
  have L: "length (slots c1) = MAX_IMAGE_MOUNTS" "length (slots c) = MAX_IMAGE_MOUNTS"
    using cache_inv_length [OF rs(1)] cache_inv_length [OF inv] by simp_all
  obtain e where e: "slots c' = (slots c1)[k := e]" "slot_ok e" "path e = p" "mount_point e = m"
      "slot_valid e" "k < MAX_IMAGE_MOUNTS" "ki = Some k \<or> ki = None"
  proof (cases ki)
    case None
    then have "find_index (\<lambda>e. \<not> slot_valid e) (slots c1) = Some k"
      using u r len by (auto simp: upsert_image_source_mapping_def Let_def split: option.splits prod.splits)
    then have k: "k < MAX_IMAGE_MOUNTS" "slots c1 ! k = blank_slot"
      using L cache_inv_slot [OF rs(1), of k] by (auto simp: find_index_Some slot_ok_def)
    obtain g c2 where g: "next_cache_generation c1 = (g, c2)" by (cases "next_cache_generation c1")
    show ?thesis
      by (rule that [of "blank_slot\<lparr>path := p, mount_point := m, unit_id := -1, generation := g, slot_valid := True\<rparr>"])
        (use u r len None k g next_generation_nz [OF g] in
          \<open>auto simp: upsert_image_source_mapping_def Let_def cp slot_ok_def device_ok_def unattached_def
             blank_slot_def split: option.splits\<close>)
  next
    case (Some k0)
    then have kk: "k0 = k"
      using u r len by (auto simp: upsert_image_source_mapping_def Let_def split: if_splits prod.splits)
    have k: "k < MAX_IMAGE_MOUNTS" "slot_valid (slots c1 ! k)" "slot_ok (slots c1 ! k)"
      using rs(3) [of k] Some kk L cache_inv_slot [OF rs(1), of k] by auto
    obtain g c2 where g: "next_cache_generation c1 = (g, c2)" by (cases "next_cache_generation c1")
    define e0 where "e0 = (slots c1 ! k)\<lparr>path := p, mount_point := m\<rparr>"
    have ok: "slot_ok e0" "slot_ok (e0\<lparr>generation := g\<rparr>)"
      using k len next_generation_nz [OF g] by (auto simp: e0_def slot_ok_def)
    have "slots c' = (slots c1)[k := e0] \<or> slots c' = (slots c1)[k := e0\<lparr>generation := g\<rparr>]"
      using u r len Some kk g
      by (auto simp: upsert_image_source_mapping_def Let_def e0_def cp split: if_splits)
    then show ?thesis
      using that [of e0] that [of "e0\<lparr>generation := g\<rparr>"] ok k Some kk by (auto simp: e0_def)
  qed
  have "cache_inv (set_slot c1 k e)"
    using e rs(4) L by (intro cache_inv_set_slot [OF rs(1)]) auto
  then show "cache_inv c'" using cache_inv_slots_cong [of c' "set_slot c1 k e"] e(1) by simp
  show "k < MAX_IMAGE_MOUNTS" "slot_valid (slots c' ! k)" "path (slots c' ! k) = p" "mount_point (slots c' ! k) = m"
    using e L by simp_all
qed

section \<open>Every operation keeps the invariants\<close>

text \<open>One operation draws at most two generations.\<close>

definition step_ok :: "image_cache \<Rightarrow> image_cache \<Rightarrow> bool" where
  "step_ok c c' \<longleftrightarrow>
     (cache_inv c \<longrightarrow> cache_inv c')
     \<and> (cache_inv c \<and> handles_inv c \<and> unat (cache_generation c) + 2 < 2 ^ 64 \<longrightarrow>
          handles_inv c' \<and> unat (cache_generation c') \<le> unat (cache_generation c) + 2)"

lemma step_ok_refl: "step_ok c c"
  by (simp add: step_ok_def)

lemma step_ok_blank: "step_ok c (set_slot c k blank_slot)"
  by (simp add: step_ok_def cache_inv_blank handles_inv_blank)

lemma step_ok_kept:
  assumes "k < length (slots c)" and "slot_valid (slots c ! k)"
    and "cache_inv c \<Longrightarrow> slot_ok e" and "path e = path (slots c ! k)"
    and "mount_point e = mount_point (slots c ! k)" and "generation e = generation (slots c ! k)"
  shows "step_ok c (set_slot c k e)"
  using assms by (simp add: step_ok_def cache_inv_kept handles_inv_kept)

lemma refresh_shape:
  assumes "refresh_attached_unit_identity h e = (ok, e')"
  shows "generation e' = generation e" and "path e' = path e" and "mount_point e' = mount_point e"
    and "slot_valid e' = slot_valid e" and "dev_state e' = dev_state e"
    and "unit_id e' = unit_id e" and "backend e' = backend e"
    and "detach_attempt_active e' = detach_attempt_active e"
    and "node_identity_valid (detach_state e) \<Longrightarrow> detach_state e' = detach_state e"
    and "requested (detach_state e') = requested (detach_state e)"
    and "ok \<Longrightarrow> node_identity_valid (detach_state e')"
  using assms by (auto simp: refresh_attached_unit_identity_def split: if_splits sum.splits)

lemma refresh_device_ok:
  assumes "refresh_attached_unit_identity h e = (ok, e')"
  shows "device_ok e \<Longrightarrow> device_ok e'"
  using refresh_shape [OF assms] by (auto simp: device_ok_def attached_def unattached_def)

lemma upsert_shape:
  assumes u: "upsert_image_source_mapping c p m = (Inr k, c')"
  obtains ki merged c1 e where "resolve_or_merge_mapping_index c p m = Inr (ki, merged, c1)"
    and "(\<exists>g c2. next_cache_generation c1 = (g, c2) \<and> c' = set_slot c2 k e \<and> generation e = g)
       \<or> ki = Some k \<and> c' = set_slot c1 k e \<and> generation e = generation (slots c1 ! k)"
proof -
  obtain ki merged c1 where r: "resolve_or_merge_mapping_index c p m = Inr (ki, merged, c1)"
    using u by (auto simp: upsert_image_source_mapping_def split: if_splits sum.splits)
  obtain g c2 where g: "next_cache_generation c1 = (g, c2)" by (cases "next_cache_generation c1")
  define e1 where "e1 = (slots c1 ! k)\<lparr>path := strlcpy p MAX_PATH, mount_point := strlcpy m MAX_PATH\<rparr>"
  define e2 where "e2 = e1\<lparr>unit_id := -1, backend := ATTACH_BACKEND_NONE,
                        dev_state := ATTACHED_DEVICE_RELEASED, generation := g, slot_valid := True\<rparr>"
  have "c' = set_slot c2 k (e1\<lparr>generation := g\<rparr>) \<or> ki = Some k \<and> c' = set_slot c1 k e1 \<or> c' = set_slot c2 k e2"
    using u r g by (auto simp: upsert_image_source_mapping_def Let_def e1_def e2_def
        split: if_splits option.splits)
  then show thesis
    using that [OF r, of "e1\<lparr>generation := g\<rparr>"] that [OF r, of e1] that [OF r, of e2] g
    by (auto simp: e1_def e2_def)
qed

lemma upsert_handles:
  assumes inv: "cache_inv c" and h: "handles_inv c" and w: "unat (cache_generation c) + 1 < 2 ^ 64"
    and u: "upsert_image_source_mapping c p m = (r, c')"
  shows "handles_inv c' \<and> unat (cache_generation c') \<le> unat (cache_generation c) + 1"
proof (cases r)
  case (Inl e)
  then show ?thesis using upsert_fail [OF inv, of p m e c'] u h by simp
next
  case (Inr k)
  obtain ki merged c1 e where r: "resolve_or_merge_mapping_index c p m = Inr (ki, merged, c1)"
    and e: "(\<exists>g c2. next_cache_generation c1 = (g, c2) \<and> c' = set_slot c2 k e \<and> generation e = g)
       \<or> ki = Some k \<and> c' = set_slot c1 k e \<and> generation e = generation (slots c1 ! k)"
    using upsert_shape [of c p m k c'] u Inr by metis
  note rs = resolve_spec [OF inv r]
  have h1: "handles_inv c1" and cg: "cache_generation c1 = cache_generation c"
    using rs(7) [OF h] rs(2) by auto
  from e show ?thesis
  proof (elim disjE exE conjE)
    fix g c2
    assume g: "next_cache_generation c1 = (g, c2)" "c' = set_slot c2 k e" "generation e = g"
    then show ?thesis
      using handles_inv_fresh [OF h1 g(1) _ g(3)] next_generation_less [OF g(1)] next_generation_nz [OF g(1)] w cg
      by simp
  next
    assume "ki = Some k" "c' = set_slot c1 k e" "generation e = generation (slots c1 ! k)"
    then show ?thesis
      using handles_inv_kept [OF h1, of k e] rs(3) [of k] cg cache_inv_length [OF rs(1)] cache_inv_length [OF inv]
      by auto
  qed
qed

lemma upsert_generation_mono:
  assumes inv: "cache_inv c" and w: "unat (cache_generation c) + 1 < 2 ^ 64"
    and u: "upsert_image_source_mapping c p m = (Inr k, c')"
  shows "unat (cache_generation c) \<le> unat (cache_generation c')"
proof -
  obtain ki merged c1 e where r: "resolve_or_merge_mapping_index c p m = Inr (ki, merged, c1)"
    and e: "(\<exists>g c2. next_cache_generation c1 = (g, c2) \<and> c' = set_slot c2 k e \<and> generation e = g)
       \<or> ki = Some k \<and> c' = set_slot c1 k e \<and> generation e = generation (slots c1 ! k)"
    using upsert_shape [OF u] by metis
  have cg: "cache_generation c1 = cache_generation c" using resolve_spec(2) [OF inv r] .
  from e show ?thesis
  proof (elim disjE exE conjE)
    fix g c2
    assume g: "next_cache_generation c1 = (g, c2)" "c' = set_slot c2 k e"
    then show ?thesis using next_generation_less [OF g(1)] next_generation_nz [OF g(1)] w cg by simp
  qed (simp add: cg)
qed

text \<open>A slot taken by an upsert and rewritten under a new generation.\<close>

lemma upsert_rewrite_ok:
  assumes u: "upsert_image_source_mapping c p m = (Inr k, c1)" and n: "next_cache_generation c1 = (g, c2)"
    and e: "generation e = g" "path e = path (slots c1 ! k)" "mount_point e = mount_point (slots c1 ! k)"
      "slot_valid e" "device_ok e"
  shows "step_ok c (set_slot c2 k e)"
proof -
  have s: "slots c2 = slots c1" and g: "g \<noteq> 0" "cache_generation c2 = g"
    using next_generation_nz [OF n] n by auto
  have "cache_inv (set_slot c2 k e)" if inv: "cache_inv c"
  proof -
    note up = upsert_ok [OF inv u]
    have "slot_ok (slots c1 ! k)"
      using cache_inv_slot [OF up(1)] cache_inv_length [OF up(1)] up(2) by simp
    then have "slot_ok e" using e g up by (simp add: slot_ok_def)
    moreover have "cache_inv c2" using up(1) cache_inv_slots_cong [OF s] by simp
    ultimately show ?thesis
      using cache_inv_kept [of c2 k e] cache_inv_length [of c2] s e up by simp
  qed
  moreover have "handles_inv (set_slot c2 k e) \<and> unat (cache_generation (set_slot c2 k e)) \<le> unat (cache_generation c) + 2"
    if inv: "cache_inv c" and h: "handles_inv c" and w: "unat (cache_generation c) + 2 < 2 ^ 64"
  proof -
    have "handles_inv c1 \<and> unat (cache_generation c1) \<le> unat (cache_generation c) + 1"
      using upsert_handles [OF inv h _ u] w by simp
    then show ?thesis
      using handles_inv_fresh [OF _ n _ e(1), of k] next_generation_less [OF n] g w by simp
  qed
  ultimately show ?thesis by (simp add: step_ok_def)
qed

lemma upsert_step:
  assumes u: "upsert_image_source_mapping c p m = (r, c1)"
  shows "step_ok c c1"
proof -
  have "cache_inv c1" if "cache_inv c"
  proof (cases r)
    case (Inl e)
    then show ?thesis using upsert_fail [OF that, of p m e c1] u that by simp
  next
    case (Inr k)
    then show ?thesis using upsert_ok(1) [OF that, of p m k c1] u by simp
  qed
  moreover have "handles_inv c1 \<and> unat (cache_generation c1) \<le> unat (cache_generation c) + 2"
    if "cache_inv c" "handles_inv c" "unat (cache_generation c) + 2 < 2 ^ 64"
    using upsert_handles [OF that(1,2) _ u] that(3) by auto
  ultimately show ?thesis by (simp add: step_ok_def)
qed

lemma cache_image_source_mapping_step: "step_ok c (snd (cache_image_source_mapping c p m))"
  by (auto simp: cache_image_source_mapping_def intro: upsert_step split: sum.split prod.split)

lemma begin_image_attachment_step: "step_ok c (snd (begin_image_attachment c p m))"
proof -
  obtain r c1 where u: "upsert_image_source_mapping c p m = (r, c1)" by (cases "upsert_image_source_mapping c p m")
  show ?thesis
  proof (cases r)
    case (Inl e)
    then show ?thesis using u upsert_step [OF u] by (simp add: begin_image_attachment_def)
  next
    case (Inr k)
    note u' = u [unfolded Inr]
    obtain g c2 where g: "next_cache_generation c1 = (g, c2)" by (cases "next_cache_generation c1")
    show ?thesis
    proof (cases "slot_valid (slots c1 ! k)")
      case True
      then show ?thesis
        using u' g upsert_step [OF u]
        by (auto simp: begin_image_attachment_def device_ok_def unattached_def
            intro!: upsert_rewrite_ok [OF u' g])
    next
      case False
      then have "\<not> cache_inv c" using upsert_ok(3) u' by blast
      then show ?thesis by (simp add: step_ok_def)
    qed
  qed
qed

lemma cache_image_mount_step: "step_ok c (snd (cache_image_mount h c p m un b))"
proof (cases "un < 0 \<or> \<not> attach_backend_is_valid b")
  case True
  then show ?thesis by (simp add: cache_image_mount_def step_ok_refl)
next
  case False
  obtain r c1 where u: "upsert_image_source_mapping c p m = (r, c1)" by (cases "upsert_image_source_mapping c p m")
  show ?thesis
  proof (cases r)
    case (Inl e)
    then show ?thesis using u False upsert_step [OF u] by (simp add: cache_image_mount_def)
  next
    case (Inr k)
    note u' = u [unfolded Inr]
    obtain g c2 where g: "next_cache_generation c1 = (g, c2)" by (cases "next_cache_generation c1")
    define e0 where "e0 = (slots c1 ! k)\<lparr>generation := g, unit_id := un, backend := b,
      dev_state := ATTACHED_DEVICE_MOUNTED, detach_attempt_active := False, detach_state := blank_detach_state\<rparr>"
    obtain ok e where e: "refresh_attached_unit_identity h e0 = (ok, e)" by (cases "refresh_attached_unit_identity h e0")
    have res: "snd (cache_image_mount h c p m un b) = set_slot c2 k e"
      using False u' g e by (simp add: cache_image_mount_def reset_attached_unit_identity_def e0_def)
    have "device_ok e0" using False by (simp add: e0_def device_ok_def attached_def)
    then show ?thesis
      using upsert_rewrite_ok [OF u' g, of e] upsert_ok(3) [OF _ u'] refresh_shape [OF e] refresh_device_ok [OF e]
      unfolding res by (cases "cache_inv c") (simp_all add: e0_def step_ok_def)
  qed
qed

lemma cancel_image_attachment_step: "step_ok c (snd (cancel_image_attachment c src gen))"
  by (simp add: cancel_image_attachment_def step_ok_refl step_ok_blank split: option.split)

lemma invalidate_image_cache_entry_step: "step_ok c (snd (invalidate_image_cache_entry c i x))"
  by (simp add: invalidate_image_cache_entry_def Let_def step_ok_refl step_ok_blank)

text \<open>The other operations rewrite the device part of one slot they looked up.\<close>

lemma step_ok_device:
  assumes "k < length (slots c)" and "slot_valid (slots c ! k)"
    and "device_ok (slots c ! k) \<Longrightarrow> device_ok e"
    and "path e = path (slots c ! k)" and "mount_point e = mount_point (slots c ! k)"
    and "generation e = generation (slots c ! k)" and "slot_valid e"
  shows "step_ok c (set_slot c k e)"
proof (rule step_ok_kept [OF assms(1,2) _ assms(4-6)])
  assume "cache_inv c"
  then have "slot_ok (slots c ! k)" using cache_inv_slot assms(1) by blast
  then show "slot_ok e" using assms by (simp add: slot_ok_def)
qed

lemma publish_image_attachment_step: "step_ok c (snd (publish_image_attachment h c src gen un b))"
proof -
  have "step_ok c (set_slot c k (snd (refresh_attached_unit_identity h ((slots c ! k)\<lparr>unit_id := un, backend := b\<rparr>))))"
    if k: "find_reservation c p gen = Some k" and ok: "un \<ge> 0" "attach_backend_is_valid b" for p k
  proof -
    obtain r e where e: "refresh_attached_unit_identity h ((slots c ! k)\<lparr>unit_id := un, backend := b\<rparr>) = (r, e)"
      by (cases "refresh_attached_unit_identity h ((slots c ! k)\<lparr>unit_id := un, backend := b\<rparr>)")
    have "device_ok ((slots c ! k)\<lparr>unit_id := un, backend := b\<rparr>)" if "device_ok (slots c ! k)"
      using that find_reservation_SomeD(5) [OF k] ok by (simp add: device_ok_def attached_def)
    then have "step_ok c (set_slot c k e)"
      using find_reservation_SomeD [OF k] refresh_shape [OF e] refresh_device_ok [OF e]
      by (intro step_ok_device) simp_all
    then show ?thesis by (simp add: e)
  qed
  then show ?thesis
    by (auto simp: publish_image_attachment_def step_ok_refl split: option.split)
qed

lemma complete_image_attachment_step: "step_ok c (snd (complete_image_attachment h c src gen un b))"
proof -
  have "step_ok c (set_slot c k (snd (refresh_attached_unit_identity h ((slots c ! k)\<lparr>dev_state := ATTACHED_DEVICE_MOUNTED\<rparr>))))"
    if k: "find_attachment_record c p gen un b = Some k" and ok: "un \<ge> 0" "attach_backend_is_valid b"
      "dev_state (slots c ! k) = ATTACHED_DEVICE_ATTACHING" for p k
  proof -
    obtain r e where e: "refresh_attached_unit_identity h ((slots c ! k)\<lparr>dev_state := ATTACHED_DEVICE_MOUNTED\<rparr>) = (r, e)"
      by (cases "refresh_attached_unit_identity h ((slots c ! k)\<lparr>dev_state := ATTACHED_DEVICE_MOUNTED\<rparr>)")
    have "device_ok ((slots c ! k)\<lparr>dev_state := ATTACHED_DEVICE_MOUNTED\<rparr>)" if "device_ok (slots c ! k)"
      using that find_attachment_SomeD(5,6) [OF k] ok by (simp add: device_ok_def attached_def)
    then have "step_ok c (set_slot c k e)"
      using find_attachment_SomeD [OF k] refresh_shape [OF e] refresh_device_ok [OF e]
      by (intro step_ok_device) simp_all
    then show ?thesis by (simp add: e)
  qed
  then show ?thesis
    by (auto simp: complete_image_attachment_def step_ok_refl split: option.split)
qed

lemma mark_image_cache_detach_requested_step:
  "step_ok c (snd (mark_image_cache_detach_requested h c src gen un b))"
proof -
  have "step_ok c (set_slot c k e)"
    if k: "find_attachment_record c p gen un b = Some k" and ok: "un \<ge> 0" "attach_backend_is_valid b"
      and e: "refresh_attached_unit_identity h ((slots c ! k)\<lparr>dev_state := ATTACHED_DEVICE_DETACH_REQUESTED\<rparr>) = (r, e)"
    for p k r e
  proof -
    have "device_ok ((slots c ! k)\<lparr>dev_state := ATTACHED_DEVICE_DETACH_REQUESTED\<rparr>)" if "device_ok (slots c ! k)"
      using that find_attachment_SomeD(5,6) [OF k] ok by (auto simp: device_ok_def attached_def)
    then show ?thesis
      using find_attachment_SomeD [OF k] refresh_shape [OF e] refresh_device_ok [OF e]
      by (intro step_ok_device) simp_all
  qed
  then show ?thesis
    by (auto simp: mark_image_cache_detach_requested_def step_ok_refl split: option.split prod.split)
qed

lemma claim_image_cache_detach_step: "step_ok c (snd (claim_image_cache_detach h c src gen un b))"
proof -
  have "step_ok c (set_slot c k e)"
    "r \<Longrightarrow> step_ok c (set_slot c k (e\<lparr>dev_state := ATTACHED_DEVICE_DETACH_REQUESTED, detach_attempt_active := True\<rparr>))"
    if k: "find_attachment_record c p gen un b = Some k" and ok: "un \<ge> 0" "attach_backend_is_valid b"
      and e: "refresh_attached_unit_identity h (slots c ! k) = (r, e)" for p k r e
    using find_attachment_SomeD [OF k] refresh_shape [OF e] refresh_device_ok [OF e] ok
    by (intro step_ok_device; simp add: device_ok_def attached_def)+
  then show ?thesis
    by (auto simp: claim_image_cache_detach_def Let_def step_ok_refl split: option.split prod.split)
qed

lemma finish_image_cache_detach_attempt_step:
  "step_ok c (snd (finish_image_cache_detach_attempt c src gen un b ds))"
proof -
  have "step_ok c (set_slot c k ((slots c ! k)\<lparr>detach_state := ds,
        dev_state := ATTACHED_DEVICE_DETACH_REQUESTED, detach_attempt_active := False\<rparr>))"
    if k: "find_attachment_record c p gen un b = Some k" and ok: "un \<ge> 0" "attach_backend_is_valid b" for p k
    using find_attachment_SomeD [OF k] ok
    by (intro step_ok_device) (simp_all add: device_ok_def attached_def)
  then show ?thesis
    by (auto simp: finish_image_cache_detach_attempt_def step_ok_refl split: option.split)
qed

lemmas cache_steps_ok =
  cache_image_source_mapping_step begin_image_attachment_step cancel_image_attachment_step
  publish_image_attachment_step complete_image_attachment_step cache_image_mount_step
  mark_image_cache_detach_requested_step claim_image_cache_detach_step
  finish_image_cache_detach_attempt_step invalidate_image_cache_entry_step

section \<open>Runs of the cache\<close>

inductive cache_step :: "image_cache \<Rightarrow> image_cache \<Rightarrow> bool" where
  "cache_step c (snd (cache_image_source_mapping c p m))"
| "cache_step c (snd (begin_image_attachment c p m))"
| "cache_step c (snd (cancel_image_attachment c src gen))"
| "cache_step c (snd (publish_image_attachment h c src gen un b))"
| "cache_step c (snd (complete_image_attachment h c src gen un b))"
| "cache_step c (snd (cache_image_mount h c p m un b))"
| "cache_step c (snd (mark_image_cache_detach_requested h c src gen un b))"
| "cache_step c (snd (claim_image_cache_detach h c src gen un b))"
| "cache_step c (snd (finish_image_cache_detach_attempt c src gen un b ds))"
| "cache_step c (snd (invalidate_image_cache_entry c i x))"

text \<open>The caches reached after \<open>n\<close> operations from the zeroed table.\<close>

inductive cache_run :: "nat \<Rightarrow> image_cache \<Rightarrow> bool" where
  run_init: "cache_run 0 image_cache_init"
| run_step: "cache_run n c \<Longrightarrow> cache_step c c' \<Longrightarrow> cache_run (Suc n) c'"

lemma cache_step_ok: "cache_step c c' \<Longrightarrow> step_ok c c'"
  by (induction rule: cache_step.induct) (rule cache_steps_ok)+

lemma cache_run_inv: "cache_run n c \<Longrightarrow> cache_inv c"
  by (induction rule: cache_run.induct) (use cache_inv_init cache_step_ok step_ok_def in blast)+

lemma cache_run_handles:
  "cache_run n c \<Longrightarrow> n < 2 ^ 62 \<Longrightarrow> handles_inv c \<and> unat (cache_generation c) \<le> 2 * n"
proof (induction rule: cache_run.induct)
  case run_init
  then show ?case using handles_inv_init by (simp add: image_cache_init_def)
next
  case (run_step n c c')
  then show ?case
    using cache_step_ok [OF run_step.hyps(2)] cache_run_inv [OF run_step.hyps(1)]
    by (simp add: step_ok_def)
qed

section \<open>Slots in use are left alone by the upsert\<close>

lemma upsert_keeps_busy:
  assumes inv: "cache_inv c" and u: "upsert_image_source_mapping c p m = (r, c')"
    and k: "k < MAX_IMAGE_MOUNTS" "slot_valid (slots c ! k)" "\<not> cache_entry_is_metadata_only (slots c ! k)"
  shows "slots c' ! k = slots c ! k"
proof (cases r)
  case (Inl e)
  then show ?thesis using upsert_fail [OF inv] u by blast
next
  case (Inr i)
  note u' = u [unfolded Inr]
  have len: "length p < MAX_PATH" "length m < MAX_PATH" "p \<noteq> []" "m \<noteq> []"
    using u' by (auto simp: upsert_image_source_mapping_def split: if_splits)
  obtain ki merged c1 where rm: "resolve_or_merge_mapping_index c p m = Inr (ki, merged, c1)"
    using u' len by (auto simp: upsert_image_source_mapping_def split: sum.splits)
  note rs = resolve_spec [OF inv rm]
  have c1: "slots c1 ! k = slots c ! k"
    using inv rm by (cases rule: resolve_cases) (use k in \<open>auto intro!: nth_list_update_neq\<close>)
  have "slots c' ! k = slots c1 ! k"
  proof (cases ki)
    case None
    then have "find_index (\<lambda>e. \<not> slot_valid e) (slots c1) = Some i"
      using u' rm len by (auto simp: upsert_image_source_mapping_def Let_def split: option.splits prod.splits)
    then have "i \<noteq> k" using c1 k by (auto simp: find_index_Some)
    then show ?thesis
      using u' rm len None by (auto simp: upsert_image_source_mapping_def Let_def split: option.splits prod.splits)
  next
    case (Some j)
    then have i: "j = i" "path (slots c1 ! i) \<noteq> p \<or> mount_point (slots c1 ! i) \<noteq> m \<Longrightarrow> cache_entry_is_metadata_only (slots c1 ! i)"
      using u' rm len by (auto simp: upsert_image_source_mapping_def Let_def split: if_splits prod.splits)
    show ?thesis
    proof (cases "i = k")
      case True
      then have "path (slots c1 ! k) = p" "mount_point (slots c1 ! k) = m" using i k c1 by auto
      moreover have "\<not> merged" using rs(5) k Some i True by auto
      ultimately show ?thesis
        using u' rm len Some i True cache_inv_length [OF rs(1)] k
        by (auto simp: upsert_image_source_mapping_def Let_def strlcpy_id split: if_splits prod.splits)
    next
      case False
      then show ?thesis
        using u' rm len Some i by (auto simp: upsert_image_source_mapping_def Let_def split: if_splits prod.splits)
    qed
  qed
  then show ?thesis using c1 by simp
qed

lemma upsert_busy_same:
  assumes inv: "cache_inv c" and u: "upsert_image_source_mapping c p m = (Inr k, c')"
    and md: "\<not> cache_entry_is_metadata_only (slots c' ! k)"
  shows "c' = c"
proof -
  have len: "length p < MAX_PATH" "length m < MAX_PATH" "p \<noteq> []" "m \<noteq> []"
    using u by (auto simp: upsert_image_source_mapping_def split: if_splits)
  obtain ki merged c1 where rm: "resolve_or_merge_mapping_index c p m = Inr (ki, merged, c1)"
    using u len by (auto simp: upsert_image_source_mapping_def split: sum.splits)
  note rs = resolve_spec [OF inv rm]
  have L: "k < length (slots c1)" using upsert_ok(2) [OF inv u] cache_inv_length [OF rs(1)] by simp
  show ?thesis
  proof (cases ki)
    case None
    then have "find_index (\<lambda>e. \<not> slot_valid e) (slots c1) = Some k"
      using u rm len by (auto simp: upsert_image_source_mapping_def Let_def split: option.splits prod.splits)
    then have "slots c1 ! k = blank_slot"
      using cache_inv_slot [OF rs(1) L] by (auto simp: find_index_Some slot_ok_def)
    then have "cache_entry_is_metadata_only (slots c' ! k)"
      using u rm len None L by (auto simp: upsert_image_source_mapping_def Let_def cache_entry_is_metadata_only_def
          blank_slot_def split: option.splits prod.splits)
    then show ?thesis using md by simp
  next
    case (Some j)
    let ?e = "slots c1 ! k"
    let ?changed = "merged \<or> path ?e \<noteq> p \<or> mount_point ?e \<noteq> m"
    have jk: "j = k" and busy: "?changed \<Longrightarrow> cache_entry_is_metadata_only ?e"
      using u rm len Some by (auto simp: upsert_image_source_mapping_def Let_def split: if_splits prod.splits)
    have "\<not> ?changed"
    proof
      assume ch: "?changed"
      have "cache_entry_is_metadata_only (slots c' ! k)"
        using u rm len Some jk L ch busy [OF ch]
        by (auto simp: upsert_image_source_mapping_def Let_def cache_entry_is_metadata_only_def split: if_splits prod.splits)
      then show False using md by simp
    qed
    then have c': "c' = set_slot c1 k (?e\<lparr>path := p, mount_point := m\<rparr>)" "path ?e = p" "mount_point ?e = m" "c1 = c"
      using u rm len Some jk rs(6) by (auto simp: upsert_image_source_mapping_def Let_def strlcpy_id)
    then have "?e\<lparr>path := p, mount_point := m\<rparr> = ?e" by simp
    then have "c' = set_slot c1 k ?e" using c'(1) by (simp only:)
    then show ?thesis by (simp add: set_slot_def \<open>c1 = c\<close>)
  qed
qed

lemma claimed_not_metadata:
  "detach_attempt_active e \<Longrightarrow> \<not> cache_entry_is_metadata_only e"
  by (simp add: cache_entry_is_metadata_only_def)

lemma claimed_slot:
  assumes "cache_inv c" and "k < MAX_IMAGE_MOUNTS" and "detach_attempt_active (slots c ! k)"
  shows "slot_valid (slots c ! k)" and "dev_state (slots c ! k) = ATTACHED_DEVICE_DETACH_REQUESTED"
    and "node_identity_valid (detach_state (slots c ! k))" and "attached (slots c ! k)"
proof -
  have "slot_ok (slots c ! k)"
    using assms cache_inv_slot [of c k] cache_inv_length [of c] by simp
  then show "slot_valid (slots c ! k)" using assms(3) by (auto simp: slot_ok_def blank_slot_def split: if_splits)
  then show "dev_state (slots c ! k) = ATTACHED_DEVICE_DETACH_REQUESTED"
    "node_identity_valid (detach_state (slots c ! k))" "attached (slots c ! k)"
    using \<open>slot_ok (slots c ! k)\<close> assms(3) by (simp_all add: slot_ok_def device_ok_def)
qed

lemma begin_keeps_busy:
  assumes "cache_inv c" and "k < MAX_IMAGE_MOUNTS" "slot_valid (slots c ! k)"
    and "\<not> cache_entry_is_metadata_only (slots c ! k)"
  shows "slots (snd (begin_image_attachment c p m)) ! k = slots c ! k"
proof -
  obtain r c1 where u: "upsert_image_source_mapping c p m = (r, c1)" by (cases "upsert_image_source_mapping c p m")
  have k: "slots c1 ! k = slots c ! k" using upsert_keeps_busy [OF assms(1) u assms(2-4)] .
  show ?thesis
  proof (cases "\<exists>i. r = Inr i \<and> cache_entry_is_metadata_only (slots c1 ! i)")
    case True
    then obtain i where i: "r = Inr i" "cache_entry_is_metadata_only (slots c1 ! i)" by blast
    then have "i \<noteq> k" using k assms(4) by auto
    then show ?thesis using u i k by (simp add: begin_image_attachment_def split: prod.split)
  next
    case False
    then show ?thesis using u k by (auto simp: begin_image_attachment_def split: sum.split prod.split)
  qed
qed

lemma set_slot_nth: "slots (set_slot c i e) ! k = (if i = k \<and> k < length (slots c) then e else slots c ! k)"
  by (cases "i = k") (auto simp: list_update_beyond)

lemma find_source_set_slot:
  assumes "find_source_path_index c p = Some k" and "slot_valid e" and "path e = p"
  shows "find_source_path_index (set_slot c k e) p = Some k"
  using assms by (auto simp: find_source_path_index_def find_index_Some)

lemma find_source_blank:
  assumes inv: "cache_inv c" and k: "find_source_path_index c p = Some k"
  shows "find_source_path_index (set_slot c k blank_slot) p = None"
proof -
  have "\<not> (slot_valid ((slots c)[k := blank_slot] ! j) \<and> path ((slots c)[k := blank_slot] ! j) = p)"
    if "j < length (slots c)" for j
    using find_source_eq [OF inv that, of p] k that by (cases "j = k") auto
  then show ?thesis by (simp add: find_source_path_index_def find_index_None)
qed

text \<open>The slot a successful reservation leaves.\<close>

definition reservation :: "u64 \<Rightarrow> string \<Rightarrow> string \<Rightarrow> image_slot" where
  "reservation g p m = \<lparr>generation = g, path = p, mount_point = m, unit_id = -1,
     backend = ATTACH_BACKEND_NONE, dev_state = ATTACHED_DEVICE_ATTACHING,
     detach_state = blank_detach_state, detach_attempt_active = False, slot_valid = True\<rparr>"

lemma begin_ok:
  assumes inv: "cache_inv c" and b: "begin_image_attachment c p m = (Inr g, c')"
  obtains k where "find_source_path_index c' p = Some k" and "find_mount_point_index c' m = Some k"
    and "slots c' ! k = reservation g p m" and "g \<noteq> 0" and "length p < MAX_PATH" and "length m < MAX_PATH"
proof -
  obtain k c1 c2 where u: "upsert_image_source_mapping c p m = (Inr k, c1)" and n: "next_cache_generation c1 = (g, c2)"
    and c': "c' = set_slot c2 k ((slots c2 ! k)\<lparr>generation := g, unit_id := -1,
                   backend := ATTACH_BACKEND_NONE, dev_state := ATTACHED_DEVICE_ATTACHING,
                   detach_state := blank_detach_state, detach_attempt_active := False\<rparr>)"
    using b by (auto simp: begin_image_attachment_def split: sum.splits prod.splits if_splits)
  note up = upsert_ok [OF inv u]
  have s: "slots c2 = slots c1" using n by simp
  have slot: "slots c' ! k = reservation g p m"
    using c' up s cache_inv_length [OF up(1)] by (simp add: reservation_def)
  have inv': "cache_inv c'"
    using begin_image_attachment_step [of c p m] inv b by (simp add: step_ok_def)
  have L: "k < length (slots c')" using up(2) cache_inv_length [OF inv'] by simp
  have "find_source_path_index c' p = Some k"
    using find_source_eq [OF inv' L] slot by (simp add: reservation_def)
  moreover have "find_mount_point_index c' m = Some k"
    using find_mount_other [OF inv' L, of m] slot by (auto simp: reservation_def)
  moreover have "slot_ok (slots c' ! k)" using cache_inv_slot [OF inv' L] .
  ultimately show thesis
    using that [of k] slot by (simp add: slot_ok_def reservation_def)
qed

text \<open>A small run for the witnesses: one image reserved, published, mounted and claimed.\<close>

definition node_host :: host where
  "node_host = empty_host\<lparr>h_stat := (\<lambda>p. Inr sample_stat)\<rparr>"

definition sample_reserved :: image_cache where
  "sample_reserved = snd (begin_image_attachment image_cache_init ''/a.exfat'' ''/mnt/a'')"

definition sample_mounted :: image_cache where
  "sample_mounted = snd (complete_image_attachment node_host
     (snd (publish_image_attachment node_host sample_reserved (Some ''/a.exfat'') 2 3 ATTACH_BACKEND_LVD))
     (Some ''/a.exfat'') 2 3 ATTACH_BACKEND_LVD)"

definition sample_claimed :: image_cache where
  "sample_claimed = snd (claim_image_cache_detach node_host sample_mounted (Some ''/a.exfat'') 2 3 ATTACH_BACKEND_LVD)"

lemma sample_runs: "cache_run 1 sample_reserved" "cache_run 3 sample_mounted" "cache_run 4 sample_claimed"
proof -
  show "cache_run 1 sample_reserved"
    using run_step [OF run_init cache_step.intros(2)] by (simp add: sample_reserved_def)
  from run_step [OF this cache_step.intros(4), of node_host "Some ''/a.exfat''" 2 3 ATTACH_BACKEND_LVD]
  show "cache_run 3 sample_mounted"
    unfolding sample_mounted_def numeral_3_eq_3
    by (intro run_step [OF _ cache_step.intros(5)]) simp
  from run_step [OF this cache_step.intros(8), of node_host "Some ''/a.exfat''" 2 3 ATTACH_BACKEND_LVD]
  show "cache_run 4 sample_claimed" by (simp add: sample_claimed_def)
qed

lemma begin_init:
  assumes "p \<noteq> []" "m \<noteq> []" "length p < MAX_PATH" "length m < MAX_PATH"
  shows "begin_image_attachment image_cache_init p m =
    (Inr 2, \<lparr>slots = (replicate MAX_IMAGE_MOUNTS blank_slot)[0 := reservation 2 p m], cache_generation = 2\<rparr>)"
proof -
  have "find_mapping_indices image_cache_init p m = Inr (None, None)"
    unfolding find_mapping_eq [OF cache_inv_init]
    by (simp add: find_source_path_index_def find_mount_point_index_def image_cache_init_def find_index_None)
  moreover have "find_index (\<lambda>e. \<not> slot_valid e) (slots image_cache_init) = Some 0"
    by (simp add: image_cache_init_def find_index_Some)
  ultimately show ?thesis
    using assms by (simp add: begin_image_attachment_def upsert_image_source_mapping_def
        resolve_or_merge_mapping_index_def next_cache_generation_def image_cache_init_def set_slot_def
        cache_entry_is_metadata_only_def blank_slot_def reservation_def strlcpy_id)
qed

lemma sample_begin: "begin_image_attachment image_cache_init ''/a.exfat'' ''/mnt/a'' = (Inr 2, sample_reserved)"
  by (simp add: sample_reserved_def begin_init)

lemma sample_claimed_slot: "detach_attempt_active (slots sample_claimed ! 0)"
proof -
  have f: "find_source_path_index (sample_reserved\<lparr>slots := (slots sample_reserved)[0 := e]\<rparr>) ''/a.exfat'' = Some 0"
    if "slot_valid e" "path e = ''/a.exfat''" for e
    using that by (simp add: sample_reserved_def begin_init find_source_path_index_def find_index_Some)
  have f0: "find_source_path_index sample_reserved ''/a.exfat'' = Some 0"
    by (simp add: sample_reserved_def begin_init find_source_path_index_def find_index_Some reservation_def)
  have s0: "slots sample_reserved ! 0 = reservation 2 ''/a.exfat'' ''/mnt/a''" "length (slots sample_reserved) = MAX_IMAGE_MOUNTS"
    by (simp_all add: sample_reserved_def begin_init)
  show ?thesis
    by (simp add: sample_claimed_def sample_mounted_def claim_image_cache_detach_def complete_image_attachment_def
        publish_image_attachment_def find_reservation_def find_attachment_record_def f0 s0 f Let_def
        refresh_attached_unit_identity_def node_host_def set_slot_def reservation_def attach_backend_is_valid_def
        blank_detach_state_def)
qed

section \<open>Properties\<close>

text \<open>C7. One owner per name: in every reachable cache no two slots in use carry the same
  image path or the same mount point, so the double-match errors of the scan
  (\<^verbatim>\<open>EEXIST\<close>) are dead and the scan finds exactly what the two single-key searches find.\<close>

theorem image_cache_one_owner:
  assumes "cache_run n c"
  shows "keys_distinct slot_valid path (slots c) \<and> keys_distinct slot_valid mount_point (slots c)
    \<and> find_mapping_indices c p m = Inr (find_source_path_index c p, find_mount_point_index c m)"
  using cache_run_inv [OF assms] find_mapping_eq by (simp add: cache_inv_def)

theorem image_cache_one_owner_witness:
  "find_mapping_indices sample_mounted ''/a.exfat'' ''/mnt/a''
   = Inr (find_source_path_index sample_mounted ''/a.exfat'', find_mount_point_index sample_mounted ''/mnt/a'')"
  using image_cache_one_owner [OF sample_runs(2)] by blast

text \<open>Handles are unique: as long as fewer than \<open>2 ^ 62\<close> operations have run, so that the
  64-bit counter has not wrapped, no two slots in use share a generation and the handle
  of a new reservation is larger than that of every slot in use before.\<close>

theorem image_handles_unique:
  assumes "cache_run n c" and "n < 2 ^ 62" and "begin_image_attachment c p m = (Inr g, c')"
  shows "keys_distinct slot_valid generation (slots c') \<and>
    (\<forall>k<MAX_IMAGE_MOUNTS. slot_valid (slots c ! k) \<longrightarrow> generation (slots c ! k) < g)"
proof -
  note inv = cache_run_inv [OF assms(1)]
  have h: "handles_inv c" "unat (cache_generation c) \<le> 2 * n" using cache_run_handles [OF assms(1,2)] by auto
  then have w: "unat (cache_generation c) + 2 < 2 ^ 64" using assms(2) by simp
  have "handles_inv c'"
    using begin_image_attachment_step [of c p m] inv h w assms(3) by (simp add: step_ok_def)
  moreover have "generation (slots c ! k) < g" if k: "k < MAX_IMAGE_MOUNTS" "slot_valid (slots c ! k)" for k
  proof -
    have "unat (cache_generation c) < unat g" if "g = fst (next_cache_generation c1)"
      "unat (cache_generation c) \<le> unat (cache_generation c1)" "unat (cache_generation c1) + 1 < 2 ^ 64" for c1
      using next_generation_less [of c1 g "snd (next_cache_generation c1)"] that by simp
    moreover obtain i c1 where u: "upsert_image_source_mapping c p m = (Inr i, c1)" and g: "g = fst (next_cache_generation c1)"
      using assms(3) by (auto simp: begin_image_attachment_def split: sum.splits prod.splits if_splits)
    moreover have "unat (cache_generation c1) \<le> unat (cache_generation c) + 1"
      using upsert_handles [OF inv h(1) _ u] w by simp
    moreover have "unat (cache_generation c) \<le> unat (cache_generation c1)"
      using upsert_generation_mono [OF inv _ u] w by simp
    ultimately have "cache_generation c < g" using w by (simp add: word_less_nat_alt)
    moreover have "generation (slots c ! k) \<le> cache_generation c"
      using h(1) k cache_inv_length [OF inv] by (simp add: handles_inv_def)
    ultimately show ?thesis by simp
  qed
  ultimately show ?thesis by (simp add: handles_inv_def)
qed

theorem image_handles_unique_witness:
  "keys_distinct slot_valid generation (slots sample_reserved)"
  using image_handles_unique [OF run_init _ sample_begin] by simp

text \<open>C8. A stale handle does nothing: when no slot in use carries the image path under the
  given generation, every operation that takes a handle fails and leaves the cache as it was.\<close>

theorem stale_handle_rejected:
  assumes "\<not> list_ex (\<lambda>e. slot_valid e \<and> path e = p \<and> generation e = gen) (slots c)"
  shows "(\<exists>e. cancel_image_attachment c (Some p) gen = (Inl e, c))
    \<and> (\<exists>e. publish_image_attachment h c (Some p) gen un b = (Inl e, c))
    \<and> (\<exists>e. complete_image_attachment h c (Some p) gen un b = (Inl e, c))
    \<and> (\<exists>e. mark_image_cache_detach_requested h c (Some p) gen un b = (Inl e, c))
    \<and> (\<exists>e. claim_image_cache_detach h c (Some p) gen un b = (Inl e, c))
    \<and> (\<exists>e. finish_image_cache_detach_attempt c (Some p) gen un b ds = (Inl e, c))"
proof -
  have no: "\<not> (k < length (slots c) \<and> slot_valid (slots c ! k) \<and> path (slots c ! k) = p \<and> generation (slots c ! k) = gen)" for k
    using assms by (auto simp: list_ex_iff)
  have "find_attachment_record c p gen un b = None"
    using find_attachment_SomeD [of c p gen un b] no by (cases "find_attachment_record c p gen un b") auto
  moreover have "find_reservation c p gen = None"
    using find_reservation_SomeD [of c p gen] no by (cases "find_reservation c p gen") auto
  ultimately show ?thesis
    by (simp add: cancel_image_attachment_def publish_image_attachment_def complete_image_attachment_def
        mark_image_cache_detach_requested_def claim_image_cache_detach_def finish_image_cache_detach_attempt_def)
qed

theorem stale_handle_rejected_witness:
  "\<exists>e. claim_image_cache_detach empty_host image_cache_init (Some ''/a.exfat'') 7 3 ATTACH_BACKEND_LVD
     = (Inl e, image_cache_init)"
  using stale_handle_rejected [of "''/a.exfat''" 7 image_cache_init empty_host 3 ATTACH_BACKEND_LVD]
  by (simp add: image_cache_init_def list_ex_iff)

lemma mount_of_other_pair_keeps_busy:
  assumes inv: "cache_inv c" and k: "k < MAX_IMAGE_MOUNTS" "slot_valid (slots c ! k)"
    and busy: "\<not> cache_entry_is_metadata_only (slots c ! k)"
    and other: "(p, m) \<noteq> (path (slots c ! k), mount_point (slots c ! k))"
  shows "slots (snd (cache_image_mount h c p m un b)) ! k = slots c ! k"
proof -
  obtain r c1 where u: "upsert_image_source_mapping c p m = (r, c1)" by (cases "upsert_image_source_mapping c p m")
  have c1: "slots c1 ! k = slots c ! k" using upsert_keeps_busy [OF inv u k busy] .
  have "i \<noteq> k" if "r = Inr i" for i
    using upsert_ok(4,5) [OF inv, of p m i c1] u that c1 other by auto
  then show ?thesis
    using u c1 by (auto simp: cache_image_mount_def split: sum.split prod.split)
qed

lemma finish_of_other_attempt_keeps:
  assumes "\<not> (src = Some (path (slots c ! k)) \<and> gen = generation (slots c ! k)
            \<and> un = unit_id (slots c ! k) \<and> b = backend (slots c ! k)
            \<and> device_identity_matches (detach_state (slots c ! k)) ds)"
  shows "slots (snd (finish_image_cache_detach_attempt c src gen un b ds)) ! k = slots c ! k"
proof (cases "\<exists>p. src = Some p \<and> find_attachment_record c p gen un b = Some k")
  case True
  then obtain p where p: "src = Some p" "find_attachment_record c p gen un b = Some k" by blast
  then have "\<not> device_identity_matches (detach_state (slots c ! k)) ds"
    using assms find_attachment_SomeD(3-6) [OF p(2)] by simp
  then show ?thesis using p by (simp add: finish_image_cache_detach_attempt_def)
next
  case False
  then show ?thesis
    by (auto simp: finish_image_cache_detach_attempt_def set_slot_nth simp del: slots_set_slot split: option.split)
qed

text \<open>C9. A claimed slot is out of reach: while a detach attempt holds a slot, no operation of
  the cache changes that slot but a fresh mount of exactly the pair of names the slot carries
  (\<^verbatim>\<open>cache_image_mount\<close>) and the attempt's own completion
  (\<^verbatim>\<open>finish_image_cache_detach_attempt\<close>), which has to name the slot's path, generation, unit
  and backend and a device state that matches the one claimed; a mount of any other pair and a
  completion under any other handle leave it. A second claim is refused with \<^verbatim>\<open>EINPROGRESS\<close>,
  and the slot cannot be invalidated.\<close>

theorem detach_claim_protects_slot:
  assumes run: "cache_run n c" and k: "k < MAX_IMAGE_MOUNTS" and claimed: "detach_attempt_active (slots c ! k)"
  shows "slots (snd (cache_image_source_mapping c p m)) ! k = slots c ! k
    \<and> slots (snd (begin_image_attachment c p m)) ! k = slots c ! k
    \<and> slots (snd (cancel_image_attachment c src gen)) ! k = slots c ! k
    \<and> slots (snd (publish_image_attachment h c src gen un b)) ! k = slots c ! k
    \<and> slots (snd (complete_image_attachment h c src gen un b)) ! k = slots c ! k
    \<and> slots (snd (mark_image_cache_detach_requested h c src gen un b)) ! k = slots c ! k
    \<and> slots (snd (claim_image_cache_detach h c src gen un b)) ! k = slots c ! k
    \<and> claim_image_cache_detach h c (Some (path (slots c ! k))) (generation (slots c ! k))
        (unit_id (slots c ! k)) (backend (slots c ! k)) = (Inl EINPROGRESS, c)
    \<and> slots (snd (invalidate_image_cache_entry c i x)) ! k = slots c ! k
    \<and> ((p, m) \<noteq> (path (slots c ! k), mount_point (slots c ! k))
        \<longrightarrow> slots (snd (cache_image_mount h c p m un b)) ! k = slots c ! k)
    \<and> (\<not> (src = Some (path (slots c ! k)) \<and> gen = generation (slots c ! k)
            \<and> un = unit_id (slots c ! k) \<and> b = backend (slots c ! k)
            \<and> device_identity_matches (detach_state (slots c ! k)) ds)
        \<longrightarrow> slots (snd (finish_image_cache_detach_attempt c src gen un b ds)) ! k = slots c ! k)"
proof (intro conjI impI)
  note inv = cache_run_inv [OF run]
  note s = claimed_slot [OF inv k claimed]
  have not_md: "\<not> cache_entry_is_metadata_only (slots c ! k)" using claimed_not_metadata [OF claimed] .
  show "slots (snd (cache_image_source_mapping c p m)) ! k = slots c ! k"
    using upsert_keeps_busy [OF inv _ k s(1) not_md]
    by (simp add: cache_image_source_mapping_def split: sum.split prod.split)
  show "slots (snd (begin_image_attachment c p m)) ! k = slots c ! k"
    by (rule begin_keeps_busy [OF inv k s(1) not_md])
  show "slots (snd (cancel_image_attachment c src gen)) ! k = slots c ! k"
    using s(2) by (auto simp: cancel_image_attachment_def set_slot_nth dest: find_reservation_SomeD(5)
        simp del: slots_set_slot split: option.split)
  show "slots (snd (publish_image_attachment h c src gen un b)) ! k = slots c ! k"
    using s(2) by (auto simp: publish_image_attachment_def set_slot_nth dest: find_reservation_SomeD(5)
        simp del: slots_set_slot split: option.split)
  show "slots (snd (complete_image_attachment h c src gen un b)) ! k = slots c ! k"
    using s(2) by (auto simp: complete_image_attachment_def set_slot_nth simp del: slots_set_slot split: option.split)
  show "slots (snd (mark_image_cache_detach_requested h c src gen un b)) ! k = slots c ! k"
    using s by (auto simp: mark_image_cache_detach_requested_def set_slot_nth refresh_attached_unit_identity_def
        attached_def simp del: slots_set_slot split: option.split prod.split)
  show "slots (snd (claim_image_cache_detach h c src gen un b)) ! k = slots c ! k"
    using claimed by (auto simp: claim_image_cache_detach_def set_slot_nth Let_def
        simp del: slots_set_slot split: option.split prod.split)
  have "find_source_path_index c (path (slots c ! k)) = Some k"
    using find_source_eq [OF inv _ s(1)] k cache_inv_length [OF inv] by simp
  moreover have "generation (slots c ! k) \<noteq> 0"
    using s(1) cache_inv_slot [OF inv, of k] k cache_inv_length [OF inv] by (simp add: slot_ok_def)
  ultimately show "claim_image_cache_detach h c (Some (path (slots c ! k))) (generation (slots c ! k))
        (unit_id (slots c ! k)) (backend (slots c ! k)) = (Inl EINPROGRESS, c)"
    using s(4) claimed by (simp add: claim_image_cache_detach_def find_attachment_record_def attached_def)
  show "slots (snd (invalidate_image_cache_entry c i x)) ! k = slots c ! k"
    using claimed by (auto simp: invalidate_image_cache_entry_def Let_def set_slot_nth simp del: slots_set_slot)
  show "slots (snd (cache_image_mount h c p m un b)) ! k = slots c ! k"
    if "(p, m) \<noteq> (path (slots c ! k), mount_point (slots c ! k))"
    by (rule mount_of_other_pair_keeps_busy [OF inv k s(1) not_md that])
  show "slots (snd (finish_image_cache_detach_attempt c src gen un b ds)) ! k = slots c ! k"
    if other: "\<not> (src = Some (path (slots c ! k)) \<and> gen = generation (slots c ! k)
            \<and> un = unit_id (slots c ! k) \<and> b = backend (slots c ! k)
            \<and> device_identity_matches (detach_state (slots c ! k)) ds)"
    by (rule finish_of_other_attempt_keeps [OF other])
qed

theorem detach_claim_protects_slot_witness:
  "slots (snd (invalidate_image_cache_entry sample_claimed 0 (copy_cache_entry (slots sample_claimed ! 0)))) ! 0
   = slots sample_claimed ! 0
   \<and> slots (snd (cache_image_mount node_host sample_claimed [] ''/mnt/a'' 3 ATTACH_BACKEND_LVD)) ! 0 = slots sample_claimed ! 0
   \<and> slots (snd (finish_image_cache_detach_attempt sample_claimed None 2 3 ATTACH_BACKEND_LVD blank_detach_state)) ! 0
     = slots sample_claimed ! 0"
proof -
  have "path (slots sample_claimed ! 0) \<noteq> []"
    using claimed_slot(1) [OF cache_run_inv [OF sample_runs(3)] _ sample_claimed_slot]
      cache_inv_slot [OF cache_run_inv [OF sample_runs(3)], of 0] cache_inv_length [OF cache_run_inv [OF sample_runs(3)]]
    by (simp add: slot_ok_def)
  then show ?thesis
    using detach_claim_protects_slot [OF sample_runs(3) _ sample_claimed_slot,
        of "[]" "''/mnt/a''" None 2 node_host 3 ATTACH_BACKEND_LVD 0 "copy_cache_entry (slots sample_claimed ! 0)" blank_detach_state]
    by simp
qed

text \<open>C32. The life of an image: a reservation can be published and completed, the mounted
  device is then found from its mount point, the detach can be claimed and finished, and the
  entry found afterwards invalidates its slot, after which the image path is unknown again.
  The device node has to answer \<^verbatim>\<open>stat\<close>.\<close>

theorem image_life_cycle:
  assumes run: "cache_run n c" and b: "begin_image_attachment c p m = (Inr g, c1)"
    and dev: "un \<ge> 0" "attach_backend_is_valid bk" "h_stat h (devname_of bk un) = Inr st"
  shows "\<exists>c2 c3 c4 c5 c6 entry k.
     publish_image_attachment h c1 (Some p) g un bk = (Inr (), c2)
     \<and> complete_image_attachment h c2 (Some p) g un bk = (Inr (), c3)
     \<and> resolve_device_from_mount_cache c3 m = Some (bk, un)
     \<and> claim_image_cache_detach h c3 (Some p) g un bk = (Inr entry, c4)
     \<and> finish_image_cache_detach_attempt c4 (Some p) g un bk (e_detach_state entry) = (Inr (), c5)
     \<and> find_image_cache_entry c5 (Some p) = Some (entry, k)
     \<and> invalidate_image_cache_entry c5 (int k) entry = (Inr (), c6)
     \<and> find_image_cache_entry c6 (Some p) = None"
proof -
  note inv = cache_run_inv [OF run]
  obtain k where k: "find_source_path_index c1 p = Some k" "find_mount_point_index c1 m = Some k"
      "slots c1 ! k = reservation g p m" "g \<noteq> 0" "length p < MAX_PATH" "length m < MAX_PATH"
    using begin_ok [OF inv b] by metis
  have inv1: "cache_inv c1" using begin_image_attachment_step [of c p m] inv b by (simp add: step_ok_def)
  have K: "k < length (slots c1)" "k < MAX_IMAGE_MOUNTS"
    using find_source_SomeD(1) [OF k(1)] cache_inv_length [OF inv1] by auto
  define ds where "ds = blank_detach_state\<lparr>node_identity_valid := True,
             node_device := st_dev st, node_inode := st_ino st, node_rdev := st_rdev st\<rparr>"
  define e2 where "e2 = (reservation g p m)\<lparr>unit_id := un, backend := bk, detach_state := ds\<rparr>"
  define e3 where "e3 = e2\<lparr>dev_state := ATTACHED_DEVICE_MOUNTED\<rparr>"
  define e4 where "e4 = e2\<lparr>dev_state := ATTACHED_DEVICE_DETACH_REQUESTED, detach_attempt_active := True\<rparr>"
  define e5 where "e5 = e2\<lparr>dev_state := ATTACHED_DEVICE_DETACH_REQUESTED\<rparr>"
  define entry where "entry = copy_cache_entry e4"
  note defs = e2_def e3_def e4_def e5_def ds_def reservation_def blank_detach_state_def
  have find: "find_source_path_index (set_slot c1 k e) p = Some k" if "slot_valid e" "path e = p" for e
    using find_source_set_slot [OF k(1) that] .
  have set2: "set_slot (set_slot c1 k e) k e' = set_slot c1 k e'" for e e'
    by (simp add: set_slot_def)
  have publish: "publish_image_attachment h c1 (Some p) g un bk = (Inr (), set_slot c1 k e2)"
    using k dev by (simp add: publish_image_attachment_def find_reservation_def refresh_attached_unit_identity_def defs)
  have complete: "complete_image_attachment h (set_slot c1 k e2) (Some p) g un bk = (Inr (), set_slot c1 k e3)"
    using k dev K find [of e2] by (simp add: complete_image_attachment_def find_attachment_record_def
        refresh_attached_unit_identity_def set2 defs)
  have claim: "claim_image_cache_detach h (set_slot c1 k e3) (Some p) g un bk = (Inr entry, set_slot c1 k e4)"
    using k dev K find [of e3] by (simp add: claim_image_cache_detach_def find_attachment_record_def
        refresh_attached_unit_identity_def set2 defs entry_def Let_def)
  have finish: "finish_image_cache_detach_attempt (set_slot c1 k e4) (Some p) g un bk (e_detach_state entry)
      = (Inr (), set_slot c1 k e5)"
    using k dev K find [of e4] by (simp add: finish_image_cache_detach_attempt_def find_attachment_record_def
        device_identity_matches_def set2 defs entry_def copy_cache_entry_def)
  have found: "find_image_cache_entry (set_slot c1 k e5) (Some p) = Some (entry, k)"
    using K find [of e5] by (simp add: find_image_cache_entry_def entry_def copy_cache_entry_def defs)
  have inval: "invalidate_image_cache_entry (set_slot c1 k e5) (int k) entry = (Inr (), set_slot c1 k blank_slot)"
    using K k dev by (simp add: invalidate_image_cache_entry_def Let_def device_identity_matches_def set2
        entry_def copy_cache_entry_def defs strlcpy_id)
  have gone: "find_image_cache_entry (set_slot c1 k blank_slot) (Some p) = None"
    using find_source_blank [OF inv1 k(1)] by (simp add: find_image_cache_entry_def)
  have "find_mount_point_index (set_slot c1 k e3) m = Some k"
    using k(2) K by (auto simp: find_mount_point_index_def find_index_Some defs)
  then have "resolve_device_from_mount_cache (set_slot c1 k e3) m = Some (bk, un)"
    using K dev by (auto simp: resolve_device_from_mount_cache_def defs attach_backend_is_valid_def)
  then show ?thesis
    using publish complete claim finish found inval gone by blast
qed

theorem image_life_cycle_witness:
  "\<exists>c2. publish_image_attachment node_host sample_reserved (Some ''/a.exfat'') 2 3 ATTACH_BACKEND_LVD = (Inr (), c2)"
  using image_life_cycle [OF run_init sample_begin, of 3 ATTACH_BACKEND_LVD node_host sample_stat]
  by (auto simp: attach_backend_is_valid_def node_host_def)

text \<open>C33. Failing calls are atomic: when a mapping, a reservation or a mount record is refused,
  whatever the reason, no slot and no counter of the cache has changed.\<close>

theorem failed_registration_is_atomic:
  assumes run: "cache_run n c"
  shows "(fst (cache_image_source_mapping c p m) = Inl err \<longrightarrow> snd (cache_image_source_mapping c p m) = c)
    \<and> (fst (begin_image_attachment c p m) = Inl err \<longrightarrow> snd (begin_image_attachment c p m) = c)
    \<and> (fst (cache_image_mount h c p m un b) = Inl err \<longrightarrow> snd (cache_image_mount h c p m un b) = c)"
proof -
  note inv = cache_run_inv [OF run]
  obtain r c1 where u: "upsert_image_source_mapping c p m = (r, c1)" by (cases "upsert_image_source_mapping c p m")
  show ?thesis
  proof (cases r)
    case (Inl e)
    then have "c1 = c" using upsert_fail [OF inv] u by blast
    then show ?thesis using u Inl by (simp add: cache_image_source_mapping_def begin_image_attachment_def cache_image_mount_def)
  next
    case (Inr k)
    have "c1 = c" if "\<not> cache_entry_is_metadata_only (slots c1 ! k)"
      using upsert_busy_same [OF inv _ that] u Inr by simp
    then show ?thesis
      using u Inr by (auto simp: cache_image_source_mapping_def begin_image_attachment_def cache_image_mount_def
          split: if_splits prod.splits)
  qed
qed

theorem failed_registration_is_atomic_witness:
  "snd (begin_image_attachment sample_mounted [] ''/mnt/a'') = sample_mounted"
  using failed_registration_is_atomic [OF sample_runs(2), of "[]" "''/mnt/a''" EINVAL]
  by (simp add: begin_image_attachment_def upsert_image_source_mapping_def)

section \<open>Owners of a path\<close>

lemma owning_loop_spec:
  assumes "best_index = None \<longleftrightarrow> best_length = 0" and "\<And>e. e \<in> set es \<Longrightarrow> slot_valid e \<Longrightarrow> mount_point e \<noteq> []"
  shows "case owning_loop p k es best_index best_length of
      None \<Rightarrow> best_index = None \<and> (\<forall>e\<in>set es. slot_valid e \<longrightarrow> \<not> owns e p)
    | Some i \<Rightarrow> (best_index = Some i \<and> (\<forall>e\<in>set es. slot_valid e \<and> owns e p \<longrightarrow> length (mount_point e) \<le> best_length))
        \<or> (\<exists>j<length es. i = k + j \<and> slot_valid (es ! j) \<and> owns (es ! j) p \<and> best_length < length (mount_point (es ! j))
             \<and> (\<forall>e\<in>set es. slot_valid e \<and> owns e p \<longrightarrow> length (mount_point e) \<le> length (mount_point (es ! j))))"
  using assms
proof (induction es arbitrary: k best_index best_length)
  case Nil
  then show ?case by (simp split: option.split)
next
  case (Cons e es)
  have ne: "\<And>x. x \<in> set es \<Longrightarrow> slot_valid x \<Longrightarrow> mount_point x \<noteq> []" using Cons.prems(2) by simp
  show ?case
  proof (cases "slot_valid e \<and> best_length < length (mount_point e) \<and> owns e p")
    case True
    have "Some k = None \<longleftrightarrow> length (mount_point e) = 0" using True by auto
    from Cons.IH [OF this ne, of "Suc k"] True show ?thesis
      by (auto split: option.splits)
  next
    case False
    then have st: "owning_loop p k (e # es) best_index best_length = owning_loop p (Suc k) es best_index best_length"
      by auto
    have le: "slot_valid e \<and> owns e p \<longrightarrow> length (mount_point e) \<le> best_length" using False by auto
    have le0: "slot_valid e \<and> best_index = None \<longrightarrow> \<not> owns e p"
      using le Cons.prems by auto
    show ?thesis
    proof (cases "owning_loop p (Suc k) es best_index best_length")
      case None
      then show ?thesis using Cons.IH [OF Cons.prems(1) ne, of "Suc k"] le0 unfolding st by simp
    next
      case (Some i)
      from Cons.IH [OF Cons.prems(1) ne, of "Suc k"] Some consider
        (old) "best_index = Some i" "\<forall>x\<in>set es. slot_valid x \<and> owns x p \<longrightarrow> length (mount_point x) \<le> best_length"
        | (new) j where "j < length es" "i = Suc k + j" "slot_valid (es ! j)" "owns (es ! j) p"
            "best_length < length (mount_point (es ! j))"
            "\<forall>x\<in>set es. slot_valid x \<and> owns x p \<longrightarrow> length (mount_point x) \<le> length (mount_point (es ! j))"
        by auto
      then show ?thesis
      proof cases
        case old
        then show ?thesis using Some le unfolding st by simp
      next
        case new
        then show ?thesis using le unfolding st Some option.case
          by (intro disjI2 exI [of _ "Suc j"]) auto
      qed
    qed
  qed
qed

text \<open>The owner of a path is the slot with the longest mount point that the path equals
  or lies below: no slot in use that also covers the path has a longer one, and no owner is
  reported exactly when no slot in use covers the path.\<close>

theorem owner_is_longest_prefix:
  assumes run: "cache_run n c"
  shows "case find_owning_cache_index c p of
      None \<Rightarrow> \<not> list_ex (\<lambda>e. slot_valid e \<and> owns e p) (slots c)
    | Some k \<Rightarrow> k < MAX_IMAGE_MOUNTS \<and> slot_valid (slots c ! k) \<and> owns (slots c ! k) p
        \<and> list_all (\<lambda>e. slot_valid e \<and> owns e p \<longrightarrow> length (mount_point e) \<le> length (mount_point (slots c ! k))) (slots c)"
proof -
  note inv = cache_run_inv [OF run]
  have "mount_point e \<noteq> []" if "e \<in> set (slots c)" "slot_valid e" for e
    using inv that by (auto simp: cache_inv_def slot_ok_def)
  then show ?thesis
    using owning_loop_spec [of None 0 "slots c" p 0] cache_inv_length [OF inv]
    by (auto simp: find_owning_cache_index_def list_ex_iff list_all_iff split: option.splits)
qed

theorem owner_is_longest_prefix_witness:
  "find_owning_cache_index image_cache_init ''/mnt/a/eboot.bin'' = None"
  using owner_is_longest_prefix [OF run_init, of "''/mnt/a/eboot.bin''"]
  by (auto simp: image_cache_init_def list_all_iff split: option.splits)

lemma chain_loop_length: "length (chain_loop c n q) \<le> n"
  by (induction n arbitrary: q) (auto split: option.split)

lemma chain_loop_in:
  assumes "cache_inv c"
  shows "\<forall>k\<in>set (chain_loop c n q). path (slots c ! k) \<noteq> [] \<and> length (path (slots c ! k)) < MAX_PATH"
proof (induction n arbitrary: q)
  case 0
  then show ?case by simp
next
  case (Suc n)
  have "path (slots c ! k) \<noteq> [] \<and> length (path (slots c ! k)) < MAX_PATH" if "find_owning_cache_index c q = Some k" for k
  proof -
    have "mount_point e \<noteq> []" if "e \<in> set (slots c)" "slot_valid e" for e
      using assms that by (auto simp: cache_inv_def slot_ok_def)
    then have "k < length (slots c)" "slot_valid (slots c ! k)"
      using owning_loop_spec [of None 0 "slots c" q 0] that by (auto simp: find_owning_cache_index_def)
    then show ?thesis using cache_inv_slot [OF assms] by (auto simp: slot_ok_def)
  qed
  then show ?case using Suc.IH by (auto split: option.split)
qed

lemma outermost_wf:
  assumes inv: "cache_inv c" and r: "resolve_outermost_image_source_from_mount_cache c p MAX_PATH = Some s"
  shows "s \<noteq> [] \<and> length s < MAX_PATH"
proof -
  let ?k = "last (find_owning_chain_indices c p)"
  have ne: "find_owning_chain_indices c p \<noteq> []" and s: "s = strlcpy (path (slots c ! ?k)) MAX_PATH"
    using r by (auto simp: resolve_outermost_image_source_from_mount_cache_def Let_def split: if_splits)
  have "?k \<in> set (chain_loop c MAX_IMAGE_CHAIN_DEPTH (strlcpy p MAX_PATH))"
    using ne by (simp add: find_owning_chain_indices_def)
  then have "path (slots c ! ?k) \<noteq> []" "length (path (slots c ! ?k)) < MAX_PATH"
    using chain_loop_in [OF inv] by blast+
  then show ?thesis using s by (simp add: strlcpy_id)
qed

text \<open>The sources behind a path, innermost first, with at most \<open>n\<close> of them: each is the source of
  the image with the longest mount point that the path before it equals or lies below, and the
  chain ends where no image covers the last source, or at the bound.\<close>

definition covers_best :: "image_cache \<Rightarrow> string \<Rightarrow> image_slot \<Rightarrow> bool" where
  "covers_best c q e \<longleftrightarrow> e \<in> set (slots c) \<and> slot_valid e \<and> owns e q
     \<and> (\<forall>x\<in>set (slots c). slot_valid x \<and> owns x q \<longrightarrow> length (mount_point x) \<le> length (mount_point e))"

inductive source_chain :: "image_cache \<Rightarrow> nat \<Rightarrow> string \<Rightarrow> string list \<Rightarrow> bool" for c where
  at_bound: "source_chain c 0 q []"
| uncovered: "\<not> (\<exists>e\<in>set (slots c). slot_valid e \<and> owns e q) \<Longrightarrow> source_chain c n q []"
| covered: "covers_best c q e \<Longrightarrow> source_chain c n (path e) ss \<Longrightarrow> source_chain c (Suc n) q (path e # ss)"

inductive_cases source_chain_zeroE: "source_chain c 0 q ss"
inductive_cases source_chain_SucE: "source_chain c (Suc n) q ss"

lemma covers_best_unique:
  assumes inv: "cache_inv c" and "covers_best c q e" and "covers_best c q e'"
  shows "e = e'"
proof -
  have "length (mount_point e) = length (mount_point e')" using assms(2,3) by (auto simp: covers_best_def intro: le_antisym)
  then have "mount_point e = mount_point e'"
    using assms(2,3) by (auto simp: covers_best_def owns_def starts_with_def)
  moreover obtain i j where "i < length (slots c)" "slots c ! i = e" "j < length (slots c)" "slots c ! j = e'"
    using assms(2,3) by (auto simp: covers_best_def in_set_conv_nth)
  moreover have "slot_valid e" "slot_valid e'" using assms(2,3) by (simp_all add: covers_best_def)
  moreover have "keys_distinct slot_valid mount_point (slots c)" using inv by (simp add: cache_inv_def)
  ultimately show ?thesis unfolding keys_distinct_def by metis
qed

lemma owner_cases:
  assumes inv: "cache_inv c"
  obtains (uncovered) "find_owning_cache_index c q = None" "\<not> (\<exists>e\<in>set (slots c). slot_valid e \<and> owns e q)"
    | (covered) k where "find_owning_cache_index c q = Some k" "covers_best c q (slots c ! k)"
        "strlcpy (path (slots c ! k)) MAX_PATH = path (slots c ! k)"
proof -
  have ne: "mount_point e \<noteq> []" if "e \<in> set (slots c)" "slot_valid e" for e
    using inv that by (auto simp: cache_inv_def slot_ok_def)
  have spec: "case find_owning_cache_index c q of
      None \<Rightarrow> \<not> (\<exists>e\<in>set (slots c). slot_valid e \<and> owns e q)
    | Some k \<Rightarrow> k < length (slots c) \<and> covers_best c q (slots c ! k)"
    using owning_loop_spec [of None 0 "slots c" q 0] ne
    by (auto simp: find_owning_cache_index_def covers_best_def split: option.splits)
  show thesis
  proof (cases "find_owning_cache_index c q")
    case None
    then show thesis using spec that(1) by simp
  next
    case (Some k)
    then have "k < length (slots c)" "covers_best c q (slots c ! k)" using spec by simp_all
    moreover from this have "length (path (slots c ! k)) < MAX_PATH"
      using cache_inv_slot [OF inv] by (auto simp: slot_ok_def covers_best_def)
    ultimately show thesis using that(2) [OF Some] by (simp add: strlcpy_id)
  qed
qed

text \<open>The loop computes the chain, and there is only one.\<close>

lemma chain_loop_chain:
  assumes inv: "cache_inv c"
  shows "source_chain c n q ss \<longleftrightarrow> ss = map (\<lambda>k. path (slots c ! k)) (chain_loop c n q)"
proof (induction n arbitrary: q ss)
  case 0
  then show ?case by (auto intro: source_chain.intros elim: source_chain_zeroE)
next
  case (Suc n)
  show ?case
  proof (rule owner_cases [OF inv, of q], goal_cases uncovered covered)
    case uncovered
    then show ?thesis
      by (auto simp: covers_best_def intro: source_chain.intros elim!: source_chain_SucE)
  next
    case (covered k)
    have "source_chain c (Suc n) q ss \<longleftrightarrow> (\<exists>r. ss = path (slots c ! k) # r \<and> source_chain c n (path (slots c ! k)) r)"
    proof
      assume "source_chain c (Suc n) q ss"
      then show "\<exists>r. ss = path (slots c ! k) # r \<and> source_chain c n (path (slots c ! k)) r"
      proof cases
        case uncovered
        then show ?thesis using covered(2) by (auto simp: covers_best_def)
      next
        case c: (covered e r)
        have "e = slots c ! k" using covers_best_unique [OF inv c(2) covered(2)] .
        then show ?thesis using c by simp
      qed
    qed (use covered(2) in \<open>auto intro: source_chain.covered\<close>)
    then show ?thesis using covered(1,3) Suc.IH by auto
  qed
qed

text \<open>A sample with an image inside an image: \<^verbatim>\<open>/mnt/a/b.exfat\<close> lies on the image mounted at \<^verbatim>\<open>/mnt/a\<close>.\<close>

definition sample_nested :: image_cache where
  "sample_nested = snd (begin_image_attachment sample_reserved ''/mnt/a/b.exfat'' ''/mnt/b'')"

lemma sample_nested_run: "cache_run 2 sample_nested"
  using run_step [OF sample_runs(1) cache_step.intros(2)] by (simp add: sample_nested_def numeral_2_eq_2)

lemma sample_nested_slots:
  "slots sample_nested = reservation 2 ''/a.exfat'' ''/mnt/a'' # reservation 4 ''/mnt/a/b.exfat'' ''/mnt/b'' # replicate 2046 blank_slot"
proof -
  have sl: "slots sample_reserved = reservation 2 ''/a.exfat'' ''/mnt/a'' # replicate 2047 blank_slot"
    and g: "cache_generation sample_reserved = 2"
    by (simp_all add: sample_reserved_def begin_init list_update_code eval_nat_numeral)
  have none: "find_index (\<lambda>e. slot_valid e \<and> Q e) (replicate n blank_slot) = None" for Q n
    by (simp add: find_index_None)
  have "find_mapping_indices sample_reserved ''/mnt/a/b.exfat'' ''/mnt/b'' = Inr (None, None)"
    unfolding find_mapping_eq [OF cache_run_inv [OF sample_runs(1)]]
    by (simp add: find_source_path_index_def find_mount_point_index_def sl none reservation_def)
  moreover have "find_index (\<lambda>e. \<not> slot_valid e) (slots sample_reserved) = Some 1"
    by (simp add: sl reservation_def eval_nat_numeral)
  moreover have "(replicate 2047 x)[0 := y] = y # replicate 2046 x" for x y :: image_slot
    by (simp add: list_update_code eval_nat_numeral)
  ultimately show ?thesis
    by (simp add: sample_nested_def begin_image_attachment_def upsert_image_source_mapping_def
        resolve_or_merge_mapping_index_def next_cache_generation_def g set_slot_def
        cache_entry_is_metadata_only_def blank_slot_def reservation_def strlcpy_id sl)
qed

text \<open>C34. Nested images: the chain of sources behind a path is exactly the one its meaning
  prescribes. Read from the inside, the first source is that of the image with the longest mount
  point that the path (cut to \<^verbatim>\<open>MAX_PATH\<close>) equals or lies below, each further one that of the
  image which holds the source before it in the same way, and the chain stops at a source that no
  image holds or after \<^verbatim>\<open>MAX_IMAGE_CHAIN_DEPTH\<close> sources. The direct owner query answers its
  innermost and the outermost query its outermost element, and both fail exactly when the chain
  is empty.\<close>

theorem source_chain_ends:
  assumes run: "cache_run n c" and "0 < sz"
  shows "(\<forall>ss. source_chain c MAX_IMAGE_CHAIN_DEPTH (strlcpy p MAX_PATH) ss
            \<longleftrightarrow> ss = rev (resolve_image_source_chain_from_mount_cache c p))
    \<and> resolve_outermost_image_source_from_mount_cache c p sz =
        (case resolve_image_source_chain_from_mount_cache c p of [] \<Rightarrow> None | s # _ \<Rightarrow> Some (strlcpy s sz))
    \<and> resolve_owning_image_source_from_mount_cache c (strlcpy p MAX_PATH) sz =
        (if resolve_image_source_chain_from_mount_cache c p = [] then None
         else Some (strlcpy (last (resolve_image_source_chain_from_mount_cache c p)) sz))"
proof -
  let ?ch = "find_owning_chain_indices c p"
  note inv = cache_run_inv [OF run]
  have cp: "strlcpy (path (slots c ! k)) MAX_PATH = path (slots c ! k)" if "k \<in> set ?ch" for k
    using chain_loop_in [OF inv] that by (simp add: find_owning_chain_indices_def strlcpy_id)
  have ch: "resolve_image_source_chain_from_mount_cache c p = rev (map (\<lambda>k. path (slots c ! k)) ?ch)"
    using cp by (simp add: resolve_image_source_chain_from_mount_cache_def rev_map)
  have spec: "source_chain c MAX_IMAGE_CHAIN_DEPTH (strlcpy p MAX_PATH) ss
      \<longleftrightarrow> ss = map (\<lambda>k. path (slots c ! k)) ?ch" for ss
    unfolding find_owning_chain_indices_def by (rule chain_loop_chain [OF inv])
  have out: "resolve_outermost_image_source_from_mount_cache c p sz =
      (if ?ch = [] then None else Some (strlcpy (path (slots c ! last ?ch)) sz))"
    using assms(2) by (simp add: resolve_outermost_image_source_from_mount_cache_def Let_def)
  have own: "resolve_owning_image_source_from_mount_cache c (strlcpy p MAX_PATH) sz =
      (if ?ch = [] then None else Some (strlcpy (path (slots c ! hd ?ch)) sz))"
    using assms(2) by (simp add: resolve_owning_image_source_from_mount_cache_def find_owning_chain_indices_def
        eval_nat_numeral split: option.split)
  have hd: "(case xs of [] \<Rightarrow> None | s # _ \<Rightarrow> Some (strlcpy s sz)) = (if xs = [] then None else Some (strlcpy (hd xs) sz))" for xs
    by (cases xs) simp_all
  show ?thesis
    unfolding ch spec out own hd by (simp add: hd_map last_map hd_rev last_rev)
qed

theorem source_chain_ends_witness:
  "resolve_image_source_chain_from_mount_cache sample_nested ''/mnt/b/x'' = [''/a.exfat'', ''/mnt/a/b.exfat'']
   \<and> resolve_outermost_image_source_from_mount_cache sample_nested ''/mnt/b/x'' 1024 = Some ''/a.exfat''"
proof -
  let ?c = sample_nested
  let ?a = "reservation 2 ''/a.exfat'' ''/mnt/a''" and ?b = "reservation 4 ''/mnt/a/b.exfat'' ''/mnt/b''"
  have set: "set (slots ?c) = {?a, ?b, blank_slot}" by (simp add: sample_nested_slots)
  note on = covers_best_def set reservation_def owns_def starts_with_def char_at_def
  have "source_chain ?c 6 ''/a.exfat'' []" by (rule source_chain.uncovered) (simp add: on)
  moreover have "covers_best ?c ''/mnt/a/b.exfat'' ?a" "covers_best ?c ''/mnt/b/x'' ?b" by (simp_all add: on)
  moreover have "MAX_IMAGE_CHAIN_DEPTH = Suc (Suc 6)" by simp
  ultimately have chain: "source_chain ?c MAX_IMAGE_CHAIN_DEPTH (strlcpy ''/mnt/b/x'' MAX_PATH) [''/mnt/a/b.exfat'', ''/a.exfat'']"
    using source_chain.covered [of ?c _ ?b "Suc 6" "[''/a.exfat'']"] source_chain.covered [of ?c _ ?a 6 "[]"]
    by (simp add: reservation_def strlcpy_id)
  note ends = source_chain_ends [OF sample_nested_run, of 1024 "''/mnt/b/x''"]
  have eq: "rev (resolve_image_source_chain_from_mount_cache ?c ''/mnt/b/x'') = [''/mnt/a/b.exfat'', ''/a.exfat'']"
    using ends chain by auto
  then have "resolve_image_source_chain_from_mount_cache ?c ''/mnt/b/x'' = [''/a.exfat'', ''/mnt/a/b.exfat'']"
    by (simp add: rev_eq_Cons_iff)
  then show ?thesis using ends by (simp add: strlcpy_id)
qed

end
