(* ===== verification/Install_Queue.thy ===== *)
theory Install_Queue
  imports SM_Prelude
begin

text \<open>
  \<^verbatim>\<open>src/sm_install_queue.c\<close>, the queue itself: the table of titles waiting for the batch
  installer, its two counters, the two deadlines and the two notification flags, the
  operations that only touch them (\<^verbatim>\<open>clear\<close>, \<^verbatim>\<open>forget\<close>, \<^verbatim>\<open>queue_candidate\<close>, the schedulers,
  \<^verbatim>\<open>next_wake\<close>). The operations that also touch other components (polling, submitting) are in
  \<^verbatim>\<open>Install_Service.thy\<close>.

  The configuration flag \<^verbatim>\<open>app_install_all_enabled\<close>, the sleep flag and the clock are
  arguments. The clock is a 64-bit word and deadlines wrap like it. The two counters are
  \<^verbatim>\<open>int\<close>; the invariant keeps them between 0 and \<^verbatim>\<open>MAX_PENDING\<close>, so their width does not matter.
\<close>

section \<open>State\<close>

datatype install_track_state = INSTALL_TRACK_NONE | INSTALL_TRACK_QUEUED | INSTALL_TRACK_SUBMITTED

record pending_install_entry =
  pi_title_id :: string
  pi_title_name :: string
  pi_source_path :: string
  pi_manual_source_path :: string
  pi_requested_at_us :: u64
  pi_has_src_snd0 :: bool
  pi_manual :: bool
  pi_state :: install_track_state

record install_queue =
  pending_installs :: "pending_install_entry list"
  pending_install_poll_due_us :: u64
  queued_install_submit_due_us :: u64
  tracked_install_count :: int
  submitted_install_count :: int
  queued_install_batch_announced :: bool
  queued_install_submit_failure_notified :: bool

record scan_candidate =
  sc_path :: string
  sc_title_id :: string
  sc_title_name :: string
  sc_manual_source_path :: string
  sc_installed :: bool
  sc_in_app_db :: bool
  sc_manual :: bool

definition INSTALL_WAIT_TIMEOUT_US :: u64 where
  "INSTALL_WAIT_TIMEOUT_US = 300 * 1000000"

definition INSTALL_POLL_INTERVAL_US :: u64 where
  "INSTALL_POLL_INTERVAL_US = 2 * 1000000"

definition INSTALL_SUBMIT_RETRY_US :: u64 where
  "INSTALL_SUBMIT_RETRY_US = 2 * 1000000"

definition blank_install :: pending_install_entry where
  "blank_install = \<lparr>pi_title_id = [], pi_title_name = [], pi_source_path = [], pi_manual_source_path = [],
     pi_requested_at_us = 0, pi_has_src_snd0 = False, pi_manual = False, pi_state = INSTALL_TRACK_NONE\<rparr>"

definition install_queue_init :: install_queue where
  "install_queue_init = \<lparr>pending_installs = replicate MAX_PENDING blank_install,
     pending_install_poll_due_us = 0, queued_install_submit_due_us = 0,
     tracked_install_count = 0, submitted_install_count = 0,
     queued_install_batch_announced = False, queued_install_submit_failure_notified = False\<rparr>"

section \<open>Operations\<close>

definition sm_install_has_pending_work :: "install_queue \<Rightarrow> bool" where
  "sm_install_has_pending_work q \<longleftrightarrow> tracked_install_count q > 0"

definition install_queue_active :: "bool \<Rightarrow> install_queue \<Rightarrow> bool" where
  "install_queue_active install_all q \<longleftrightarrow> install_all \<or> tracked_install_count q > 0"

definition find_pending_install_entry :: "install_queue \<Rightarrow> string \<Rightarrow> nat option" where
  "find_pending_install_entry q title_id =
     (if title_id = [] then None
      else find_index (\<lambda>e. pi_state e \<noteq> INSTALL_TRACK_NONE \<and> pi_title_id e = title_id) (pending_installs q))"

definition reserve_pending_install_entry :: "install_queue \<Rightarrow> string \<Rightarrow> nat option" where
  "reserve_pending_install_entry q title_id =
     (case find_pending_install_entry q title_id of
        Some k \<Rightarrow> Some k
      | None \<Rightarrow> find_index (\<lambda>e. pi_state e = INSTALL_TRACK_NONE) (pending_installs q))"

definition count_queued_installs :: "install_queue \<Rightarrow> int" where
  "count_queued_installs q =
     (let queued_count = tracked_install_count q - submitted_install_count q
      in if queued_count > 0 then queued_count else 0)"

definition earlier_deadline :: "pending_install_entry \<Rightarrow> u64 \<Rightarrow> u64" where
  "earlier_deadline e next_deadline =
     (if pi_state e \<noteq> INSTALL_TRACK_SUBMITTED \<or> pi_requested_at_us e = 0 then next_deadline
      else
        (let deadline_us = pi_requested_at_us e + INSTALL_WAIT_TIMEOUT_US
         in if next_deadline = 0 \<or> deadline_us < next_deadline then deadline_us else next_deadline))"

definition next_pending_install_timeout_us :: "install_queue \<Rightarrow> u64" where
  "next_pending_install_timeout_us q =
     (if submitted_install_count q \<le> 0 then 0 else fold earlier_deadline (pending_installs q) 0)"

definition schedule_pending_install_poll :: "u64 \<Rightarrow> install_queue \<Rightarrow> install_queue" where
  "schedule_pending_install_poll now_us q =
     (if submitted_install_count q \<le> 0 then q\<lparr>pending_install_poll_due_us := 0\<rparr>
      else q\<lparr>pending_install_poll_due_us := (if now_us = 0 then 1 else now_us + INSTALL_POLL_INTERVAL_US)\<rparr>)"

definition schedule_queued_install_submit :: "u64 \<Rightarrow> install_queue \<Rightarrow> install_queue" where
  "schedule_queued_install_submit now_us q =
     (if count_queued_installs q \<le> 0 \<or> submitted_install_count q > 0
      then q\<lparr>queued_install_submit_due_us := 0\<rparr>
      else q\<lparr>queued_install_submit_due_us := (if now_us = 0 then 1 else now_us)\<rparr>)"

definition schedule_queued_install_submit_retry :: "u64 \<Rightarrow> install_queue \<Rightarrow> install_queue" where
  "schedule_queued_install_submit_retry now_us q =
     (if count_queued_installs q \<le> 0 \<or> submitted_install_count q > 0
      then q\<lparr>queued_install_submit_due_us := 0\<rparr>
      else q\<lparr>queued_install_submit_due_us := (if now_us = 0 then 1 else now_us + INSTALL_SUBMIT_RETRY_US)\<rparr>)"

definition clear_pending_install_entry :: "install_queue \<Rightarrow> nat \<Rightarrow> install_queue" where
  "clear_pending_install_entry q i =
     (let e = pending_installs q ! i;
          s = (if pi_state e = INSTALL_TRACK_SUBMITTED \<and> submitted_install_count q > 0
               then submitted_install_count q - 1 else submitted_install_count q);
          t = (if pi_state e \<noteq> INSTALL_TRACK_NONE \<and> tracked_install_count q > 0
               then tracked_install_count q - 1 else tracked_install_count q);
          q1 = q\<lparr>submitted_install_count := s, tracked_install_count := t,
                 pending_installs := (pending_installs q)[i := blank_install]\<rparr>;
          q2 = (if s \<le> 0 then q1\<lparr>pending_install_poll_due_us := 0\<rparr> else q1)
      in if t \<le> 0
         then q2\<lparr>queued_install_submit_due_us := 0, queued_install_batch_announced := False,
                 queued_install_submit_failure_notified := False\<rparr>
         else q2)"

definition is_title_install_pending :: "install_queue \<Rightarrow> string \<Rightarrow> bool" where
  "is_title_install_pending q title_id \<longleftrightarrow> find_pending_install_entry q title_id \<noteq> None"

definition sm_install_forget_pending_title :: "install_queue \<Rightarrow> string \<Rightarrow> install_queue" where
  "sm_install_forget_pending_title q title_id =
     (case find_pending_install_entry q title_id of
        None \<Rightarrow> q
      | Some k \<Rightarrow> clear_pending_install_entry q k)"

definition queued_entry :: "scan_candidate \<Rightarrow> bool \<Rightarrow> pending_install_entry" where
  "queued_entry c has_src_snd0 = blank_install\<lparr>
     pi_title_id := strlcpy (sc_title_id c) MAX_TITLE_ID,
     pi_title_name := strlcpy (sc_title_name c) MAX_TITLE_NAME,
     pi_source_path := strlcpy (sc_path c) MAX_PATH,
     pi_manual_source_path := strlcpy (sc_manual_source_path c) MAX_PATH,
     pi_manual := sc_manual c, pi_has_src_snd0 := has_src_snd0, pi_state := INSTALL_TRACK_QUEUED\<rparr>"

definition sm_install_queue_candidate ::
  "bool \<Rightarrow> u64 \<Rightarrow> install_queue \<Rightarrow> scan_candidate \<Rightarrow> bool \<Rightarrow> bool \<times> install_queue" where
  "sm_install_queue_candidate install_all now_us q c has_src_snd0 =
     (if sc_title_id c = [] \<or> sc_title_name c = [] \<or> sc_path c = [] then (False, q)
      else if \<not> install_all then (False, q)
      else
        (case reserve_pending_install_entry q (sc_title_id c) of
           None \<Rightarrow> (False, q)
         | Some k \<Rightarrow>
             (let previous_state = pi_state (pending_installs q ! k) in
              if previous_state = INSTALL_TRACK_SUBMITTED then (True, q)
              else
                (let q1 = q\<lparr>pending_installs := (pending_installs q)[k := queued_entry c has_src_snd0]\<rparr>;
                     q2 = (if previous_state = INSTALL_TRACK_NONE
                           then q1\<lparr>tracked_install_count := tracked_install_count q + 1\<rparr> else q1);
                     q3 = (if count_queued_installs q \<le> 0
                           then q2\<lparr>queued_install_batch_announced := False,
                                   queued_install_submit_failure_notified := False\<rparr> else q2)
                 in (True, schedule_queued_install_submit now_us q3)))))"

definition earliest :: "u64 \<Rightarrow> u64 \<Rightarrow> u64" where
  "earliest due next_wake_us =
     (if due \<noteq> 0 \<and> (next_wake_us = 0 \<or> due < next_wake_us) then due else next_wake_us)"

definition sm_install_next_wake_us :: "bool \<Rightarrow> bool \<Rightarrow> install_queue \<Rightarrow> u64 \<Rightarrow> u64" where
  "sm_install_next_wake_us sleeping install_all q now_us =
     (if sleeping then 0
      else if \<not> install_queue_active install_all q then 0
      else if submitted_install_count q \<le> 0 then queued_install_submit_due_us q
      else
        (let w = earliest (queued_install_submit_due_us q)
                   (earliest (pending_install_poll_due_us q) (next_pending_install_timeout_us q))
         in if w = 0 then (if now_us = 0 then 1 else now_us + INSTALL_POLL_INTERVAL_US) else w))"

section \<open>Invariant\<close>

definition tracked_entry :: "pending_install_entry \<Rightarrow> bool" where
  "tracked_entry e \<longleftrightarrow> pi_state e \<noteq> INSTALL_TRACK_NONE"

definition install_entry_ok :: "pending_install_entry \<Rightarrow> bool" where
  "install_entry_ok e \<longleftrightarrow>
     (if tracked_entry e then pi_title_id e \<noteq> [] \<and> length (pi_title_id e) < MAX_TITLE_ID else e = blank_install)"

abbreviation submitted_entries :: "install_queue \<Rightarrow> nat" where
  "submitted_entries q \<equiv> count_if (\<lambda>e. pi_state e = INSTALL_TRACK_SUBMITTED) (pending_installs q)"

abbreviation tracked_entries :: "install_queue \<Rightarrow> nat" where
  "tracked_entries q \<equiv> count_if tracked_entry (pending_installs q)"

definition queue_inv :: "install_queue \<Rightarrow> bool" where
  "queue_inv q \<longleftrightarrow>
     length (pending_installs q) = MAX_PENDING
     \<and> list_all install_entry_ok (pending_installs q)
     \<and> keys_distinct tracked_entry pi_title_id (pending_installs q)
     \<and> tracked_install_count q = int (tracked_entries q)
     \<and> submitted_install_count q = int (submitted_entries q)
     \<and> (submitted_entries q = 0 \<longrightarrow> pending_install_poll_due_us q = 0)
     \<and> (submitted_entries q > 0 \<longrightarrow> queued_install_submit_due_us q = 0)
     \<and> (tracked_entries q = 0 \<longrightarrow> queued_install_submit_due_us q = 0
          \<and> \<not> queued_install_batch_announced q \<and> \<not> queued_install_submit_failure_notified q)"

text \<open>No title waits without a deadline that wakes the service.\<close>

definition queue_live :: "install_queue \<Rightarrow> bool" where
  "queue_live q \<longleftrightarrow> (submitted_entries q = 0 \<and> tracked_entries q > 0 \<longrightarrow> queued_install_submit_due_us q \<noteq> 0)"

lemma queue_inv_init: "queue_inv install_queue_init"
  by (simp add: queue_inv_def install_queue_init_def install_entry_ok_def tracked_entry_def blank_install_def
      list_all_iff)

lemma queue_inv_nth: "queue_inv q \<Longrightarrow> k < MAX_PENDING \<Longrightarrow> install_entry_ok (pending_installs q ! k)"
  by (simp add: queue_inv_def list_all_length)

lemma blank_not_tracked [simp]: "\<not> tracked_entry blank_install" "pi_state blank_install = INSTALL_TRACK_NONE"
  by (simp_all add: tracked_entry_def blank_install_def)

lemma submitted_le_tracked: "submitted_entries q \<le> tracked_entries q"
  by (rule count_if_mono) (simp add: tracked_entry_def)

lemma find_pending_SomeD:
  assumes "find_pending_install_entry q t = Some k"
  shows "k < length (pending_installs q)" and "tracked_entry (pending_installs q ! k)"
    and "pi_title_id (pending_installs q ! k) = t" and "t \<noteq> []"
  using assms by (auto simp: find_pending_install_entry_def find_index_Some tracked_entry_def split: if_splits)

lemma find_pending_eq:
  assumes "queue_inv q" and "k < MAX_PENDING" and "tracked_entry (pending_installs q ! k)"
    and "pi_title_id (pending_installs q ! k) = t"
  shows "find_pending_install_entry q t = Some k"
proof -
  have len: "length (pending_installs q) = MAX_PENDING" and ne: "t \<noteq> []"
    using assms queue_inv_nth [OF assms(1,2)] by (auto simp: queue_inv_def install_entry_ok_def)
  then obtain j where j: "find_pending_install_entry q t = Some j"
    using find_index_ex [of "pending_installs q ! k" "pending_installs q"] assms
    by (fastforce simp: find_pending_install_entry_def tracked_entry_def)
  moreover have "j = k"
    using find_pending_SomeD [OF j] assms len keys_distinctD [of tracked_entry pi_title_id "pending_installs q" j k]
    by (simp add: queue_inv_def)
  ultimately show ?thesis by simp
qed

lemma set_entry_counts:
  assumes "k < length xs"
  shows "count_if tracked_entry (xs[k := e]) + (if tracked_entry (xs ! k) then 1 else 0)
       = count_if tracked_entry xs + (if tracked_entry e then 1 else 0)"
    and "count_if (\<lambda>e. pi_state e = INSTALL_TRACK_SUBMITTED) (xs[k := e])
         + (if pi_state (xs ! k) = INSTALL_TRACK_SUBMITTED then 1 else 0)
       = count_if (\<lambda>e. pi_state e = INSTALL_TRACK_SUBMITTED) xs
         + (if pi_state e = INSTALL_TRACK_SUBMITTED then 1 else 0)"
  using count_if_update [OF assms, of tracked_entry e]
    count_if_update [OF assms, of "\<lambda>e. pi_state e = INSTALL_TRACK_SUBMITTED" e] by simp_all

lemma count_queued_strict:
  assumes "k < length xs" and "pi_state (xs ! k) \<noteq> INSTALL_TRACK_SUBMITTED" and "tracked_entry (xs ! k)"
  shows "count_if (\<lambda>e. pi_state e = INSTALL_TRACK_SUBMITTED) xs < count_if tracked_entry xs"
proof -
  have "count_if (\<lambda>e. pi_state e = INSTALL_TRACK_SUBMITTED) (xs[k := blank_install]) \<le> count_if tracked_entry (xs[k := blank_install])"
    by (rule count_if_mono) (simp add: tracked_entry_def)
  then show ?thesis using set_entry_counts [OF assms(1), of blank_install] assms by simp
qed

lemma clear_installs [simp]:
  "pending_installs (clear_pending_install_entry q k) = (pending_installs q)[k := blank_install]"
  by (simp add: clear_pending_install_entry_def Let_def)

lemma clear_timers:
  "pending_install_poll_due_us (clear_pending_install_entry q k)
     = (if submitted_install_count (clear_pending_install_entry q k) \<le> 0 then 0 else pending_install_poll_due_us q)"
  "queued_install_submit_due_us (clear_pending_install_entry q k)
     = (if tracked_install_count (clear_pending_install_entry q k) \<le> 0 then 0 else queued_install_submit_due_us q)"
  "queued_install_batch_announced (clear_pending_install_entry q k)
     = (tracked_install_count (clear_pending_install_entry q k) > 0 \<and> queued_install_batch_announced q)"
  "queued_install_submit_failure_notified (clear_pending_install_entry q k)
     = (tracked_install_count (clear_pending_install_entry q k) > 0 \<and> queued_install_submit_failure_notified q)"
  by (simp_all add: clear_pending_install_entry_def Let_def)

lemma clear_counts:
  assumes inv: "queue_inv q" and k: "k < MAX_PENDING"
  shows "tracked_install_count (clear_pending_install_entry q k) = int (tracked_entries (clear_pending_install_entry q k))"
    and "submitted_install_count (clear_pending_install_entry q k) = int (submitted_entries (clear_pending_install_entry q k))"
proof -
  have K: "k < length (pending_installs q)" using inv k by (simp add: queue_inv_def)
  have t: "tracked_install_count q = int (tracked_entries q)" "submitted_install_count q = int (submitted_entries q)"
    using inv by (simp_all add: queue_inv_def)
  note c = set_entry_counts [OF K, of blank_install]
  show "tracked_install_count (clear_pending_install_entry q k) = int (tracked_entries (clear_pending_install_entry q k))"
    using c(1) t(1) count_if_pos_nth [OF K, of tracked_entry]
    by (auto simp: clear_pending_install_entry_def Let_def tracked_entry_def [of "pending_installs q ! k"])
  show "submitted_install_count (clear_pending_install_entry q k) = int (submitted_entries (clear_pending_install_entry q k))"
    using c(2) t(2) count_if_pos_nth [OF K, of "\<lambda>e. pi_state e = INSTALL_TRACK_SUBMITTED"]
    by (auto simp: clear_pending_install_entry_def Let_def)
qed

text \<open>Replacing one entry keeps the table well formed.\<close>

lemma table_ok_update:
  assumes "queue_inv q" and "install_entry_ok e"
    and "\<And>j. tracked_entry e \<Longrightarrow> j < MAX_PENDING \<Longrightarrow> j \<noteq> k \<Longrightarrow> tracked_entry (pending_installs q ! j)
          \<Longrightarrow> pi_title_id (pending_installs q ! j) \<noteq> pi_title_id e"
  shows "list_all install_entry_ok ((pending_installs q)[k := e])"
    and "keys_distinct tracked_entry pi_title_id ((pending_installs q)[k := e])"
proof -
  show "list_all install_entry_ok ((pending_installs q)[k := e])"
    using assms(1,2) set_update_subset_insert [of "pending_installs q" k e] by (auto simp: queue_inv_def list_all_iff)
  show "keys_distinct tracked_entry pi_title_id ((pending_installs q)[k := e])"
    using assms(1,3) by (intro keys_distinct_update) (simp_all add: queue_inv_def)
qed

lemma clear_entry_keeps [inv_intros]:
  assumes inv: "queue_inv q" and k: "k < MAX_PENDING"
  shows "queue_inv (clear_pending_install_entry q k)"
proof -
  let ?q = "clear_pending_install_entry q k"
  have K: "k < length (pending_installs q)" using inv k by (simp add: queue_inv_def)
  have "install_entry_ok blank_install" by (simp add: install_entry_ok_def)
  note t = table_ok_update [OF inv this, of k, simplified]
  note c = clear_counts [OF inv k]
  have "submitted_entries ?q \<le> submitted_entries q"
    using set_entry_counts(2) [OF K, of blank_install] by (simp split: if_splits)
  then show ?thesis
    using inv t c by (auto simp: queue_inv_def clear_timers)
qed

lemma forget_inv [inv_intros]: "queue_inv q \<Longrightarrow> queue_inv (sm_install_forget_pending_title q t)"
  using find_pending_SomeD(1) [of q t] clear_entry_keeps
  by (auto simp: sm_install_forget_pending_title_def queue_inv_def [of q] split: option.split)

lemma queued_count: "queue_inv q \<Longrightarrow> count_queued_installs q = int (tracked_entries q) - int (submitted_entries q)"
  using submitted_le_tracked [of q] by (simp add: count_queued_installs_def queue_inv_def Let_def)

section \<open>Queueing a candidate\<close>

text \<open>The candidate's fields are fixed-size arrays.\<close>

definition wf_candidate :: "scan_candidate \<Rightarrow> bool" where
  "wf_candidate c \<longleftrightarrow> length (sc_title_id c) < MAX_TITLE_ID \<and> length (sc_title_name c) < MAX_TITLE_NAME
     \<and> length (sc_path c) < MAX_PATH \<and> length (sc_manual_source_path c) < MAX_PATH"

lemma queued_entry_fields:
  "wf_candidate c \<Longrightarrow> pi_title_id (queued_entry c b) = sc_title_id c"
  "wf_candidate c \<Longrightarrow> pi_source_path (queued_entry c b) = sc_path c"
  "wf_candidate c \<Longrightarrow> pi_title_name (queued_entry c b) = sc_title_name c"
  "pi_state (queued_entry c b) = INSTALL_TRACK_QUEUED"
  by (simp_all add: queued_entry_def wf_candidate_def strlcpy_id)

lemma reserve_SomeD:
  assumes "queue_inv q" and "reserve_pending_install_entry q t = Some k"
  shows "k < MAX_PENDING"
    and "find_pending_install_entry q t = Some k
       \<or> find_pending_install_entry q t = None \<and> pi_state (pending_installs q ! k) = INSTALL_TRACK_NONE"
  using assms find_pending_SomeD(1) [of q t k]
  by (auto simp: reserve_pending_install_entry_def queue_inv_def find_index_Some split: option.splits)

text \<open>The queue when the candidate has been written to slot \<open>k\<close>, before scheduling.\<close>

definition place_candidate :: "install_queue \<Rightarrow> scan_candidate \<Rightarrow> bool \<Rightarrow> nat \<Rightarrow> install_queue" where
  "place_candidate q c b k =
     (let q1 = q\<lparr>pending_installs := (pending_installs q)[k := queued_entry c b]\<rparr>;
          q2 = (if pi_state (pending_installs q ! k) = INSTALL_TRACK_NONE
                then q1\<lparr>tracked_install_count := tracked_install_count q + 1\<rparr> else q1)
      in if count_queued_installs q \<le> 0
         then q2\<lparr>queued_install_batch_announced := False, queued_install_submit_failure_notified := False\<rparr>
         else q2)"

lemma queue_candidate_cases:
  obtains (refused) "sm_install_queue_candidate a now q c b = (False, q)"
  | (submitted) k where "sm_install_queue_candidate a now q c b = (True, q)"
      "reserve_pending_install_entry q (sc_title_id c) = Some k"
      "pi_state (pending_installs q ! k) = INSTALL_TRACK_SUBMITTED"
  | (placed) k where "sm_install_queue_candidate a now q c b = (True, schedule_queued_install_submit now (place_candidate q c b k))"
      "reserve_pending_install_entry q (sc_title_id c) = Some k" "sc_title_id c \<noteq> []"
      "pi_state (pending_installs q ! k) \<noteq> INSTALL_TRACK_SUBMITTED"
proof (cases "sc_title_id c = [] \<or> sc_title_name c = [] \<or> sc_path c = [] \<or> \<not> a \<or> reserve_pending_install_entry q (sc_title_id c) = None")
  case True
  then show thesis by (intro refused) (auto simp: sm_install_queue_candidate_def)
next
  case False
  then obtain k where k: "reserve_pending_install_entry q (sc_title_id c) = Some k" by blast
  show thesis
  proof (cases "pi_state (pending_installs q ! k) = INSTALL_TRACK_SUBMITTED")
    case True
    then show thesis using False k by (intro submitted [of k]) (simp_all add: sm_install_queue_candidate_def)
  next
    case nsub: False
    have "sm_install_queue_candidate a now q c b = (True, schedule_queued_install_submit now (place_candidate q c b k))"
      using False nsub k by (simp add: sm_install_queue_candidate_def place_candidate_def Let_def)
    then show thesis using False k nsub by (intro placed [of k]) simp_all
  qed
qed

lemma place_fields:
  "pending_installs (place_candidate q c b k) = (pending_installs q)[k := queued_entry c b]"
  "submitted_install_count (place_candidate q c b k) = submitted_install_count q"
  "tracked_install_count (place_candidate q c b k) =
     (if pi_state (pending_installs q ! k) = INSTALL_TRACK_NONE then tracked_install_count q + 1 else tracked_install_count q)"
  "pending_install_poll_due_us (place_candidate q c b k) = pending_install_poll_due_us q"
  by (simp_all add: place_candidate_def Let_def)

lemma schedule_submit_fields:
  "pending_installs (schedule_queued_install_submit now q) = pending_installs q"
  "submitted_install_count (schedule_queued_install_submit now q) = submitted_install_count q"
  "tracked_install_count (schedule_queued_install_submit now q) = tracked_install_count q"
  "pending_install_poll_due_us (schedule_queued_install_submit now q) = pending_install_poll_due_us q"
  "queued_install_batch_announced (schedule_queued_install_submit now q) = queued_install_batch_announced q"
  "queued_install_submit_failure_notified (schedule_queued_install_submit now q) = queued_install_submit_failure_notified q"
  "queued_install_submit_due_us (schedule_queued_install_submit now q) =
     (if count_queued_installs q \<le> 0 \<or> submitted_install_count q > 0 then 0 else if now = 0 then 1 else now)"
  by (simp_all add: schedule_queued_install_submit_def)

text \<open>Everything but the submit deadline is as the invariant wants it.\<close>

lemma place_ok:
  assumes inv: "queue_inv q" and wf: "wf_candidate c" and r: "reserve_pending_install_entry q (sc_title_id c) = Some k"
    and ne: "sc_title_id c \<noteq> []" and ns: "pi_state (pending_installs q ! k) \<noteq> INSTALL_TRACK_SUBMITTED"
  shows "queue_inv (schedule_queued_install_submit now (place_candidate q c b k))"
    and "queue_live (schedule_queued_install_submit now (place_candidate q c b k))"
    and "is_title_install_pending (schedule_queued_install_submit now (place_candidate q c b k)) (sc_title_id c)"
proof -
  let ?q = "place_candidate q c b k" and ?e = "queued_entry c b"
  note rs = reserve_SomeD [OF inv r]
  have K: "k < length (pending_installs q)" using inv rs(1) by (simp add: queue_inv_def)
  have ok: "install_entry_ok ?e" and tr: "tracked_entry ?e"
    using wf ne by (simp_all add: install_entry_ok_def tracked_entry_def queued_entry_fields wf_candidate_def)
  have other: "pi_title_id (pending_installs q ! j) \<noteq> pi_title_id ?e"
    if "j < MAX_PENDING" "j \<noteq> k" "tracked_entry (pending_installs q ! j)" for j
  proof
    assume "pi_title_id (pending_installs q ! j) = pi_title_id ?e"
    then have "find_pending_install_entry q (sc_title_id c) = Some j"
      using find_pending_eq [OF inv that(1,3)] queued_entry_fields(1) [OF wf] by simp
    then show False using rs(2) that(2) by auto
  qed
  note t = table_ok_update [OF inv ok other]
  have tr_k: "tracked_entry (pending_installs q ! k) \<longleftrightarrow> pi_state (pending_installs q ! k) \<noteq> INSTALL_TRACK_NONE"
    by (simp add: tracked_entry_def)
  have cnt: "tracked_install_count ?q = int (tracked_entries ?q)" "submitted_install_count ?q = int (submitted_entries ?q)"
      "submitted_entries ?q = submitted_entries q"
    using inv set_entry_counts [OF K, of ?e] ns tr tr_k
    by (auto simp: place_fields queue_inv_def queued_entry_fields)
  have pos: "tracked_entries ?q > 0"
    using count_if_pos_nth [of k "pending_installs ?q" tracked_entry] K tr by (simp add: place_fields)
  have "submitted_entries ?q < tracked_entries ?q"
    using set_entry_counts [OF K, of ?e] ns tr tr_k submitted_le_tracked [of q]
      count_queued_strict [OF K ns] by (auto simp: place_fields queued_entry_fields split: if_splits)
  then have queued: "count_queued_installs ?q > 0"
    using cnt by (simp add: count_queued_installs_def)
  show "queue_inv (schedule_queued_install_submit now ?q)"
    using inv t cnt pos K unfolding queue_inv_def schedule_submit_fields by (auto simp: place_fields)
  show "queue_live (schedule_queued_install_submit now ?q)"
    using cnt queued by (auto simp: queue_live_def schedule_submit_fields)
  show "is_title_install_pending (schedule_queued_install_submit now ?q) (sc_title_id c)"
    using K tr queued_entry_fields(1) [OF wf, of b] ne
      find_index_ex [of ?e "pending_installs ?q" "\<lambda>e. pi_state e \<noteq> INSTALL_TRACK_NONE \<and> pi_title_id e = sc_title_id c"]
    by (auto simp: is_title_install_pending_def find_pending_install_entry_def schedule_submit_fields place_fields
        tracked_entry_def set_update_memI)
qed

lemma queue_candidate_inv [inv_intros]:
  assumes "queue_inv q" and "wf_candidate c"
  shows "queue_inv (snd (sm_install_queue_candidate a now q c b))"
  by (cases rule: queue_candidate_cases [of a now q c b]) (use assms place_ok(1) in auto)

lemma queue_candidate_live:
  assumes "queue_inv q" and "wf_candidate c" and "queue_live q"
  shows "queue_live (snd (sm_install_queue_candidate a now q c b))"
  by (cases rule: queue_candidate_cases [of a now q c b]) (use assms place_ok(2) in auto)

end
