(* ===== verification/Text_Files.thy ===== *)
theory Text_Files
  imports SM_Prelude
begin

text \<open>
  The slice of C stdio the program reads and writes its text files with. A disk is the
  content of each regular file by path; a file opened for reading is the text that is left
  to read. Text files hold no NUL byte, so a line read by \<^verbatim>\<open>fgets\<close> is the C string it
  leaves in its buffer.

  A file is replaced by writing \<^verbatim>\<open><name>.tmp\<close> and renaming it. What the system does in the three
  places where this can fail (opening the temporary file, writing, flushing, syncing or
  closing it, renaming it) is the argument \<open>io\<close>: \<open>None\<close> is success, \<open>Some e\<close> the error.
\<close>

type_synonym disk = "string \<Rightarrow> string option"

record io =
  io_open :: "errno option"
  io_write :: "errno option"
  io_rename :: "errno option"

definition io_ok :: io where
  "io_ok = \<lparr>io_open = None, io_write = None, io_rename = None\<rparr>"

abbreviation NL :: char where "NL \<equiv> CHR 0x0A"
abbreviation CR :: char where "CR \<equiv> CHR 0x0D"

section \<open>Reading\<close>

text \<open>At most \<open>n\<close> bytes, up to and including a line feed.\<close>

fun fgets_line :: "nat \<Rightarrow> string \<Rightarrow> string \<times> string" where
  "fgets_line 0 s = ([], s)"
| "fgets_line (Suc n) [] = ([], [])"
| "fgets_line (Suc n) (c # s) =
     (if c = NL then ([c], s) else (let (l, r) = fgets_line n s in (c # l, r)))"

definition fgets :: "nat \<Rightarrow> string \<Rightarrow> (string \<times> string) option" where
  "fgets sz s = (if s = [] then None else Some (fgets_line (sz - 1) s))"

text \<open>The rest of a line, as \<^verbatim>\<open>fgetc\<close> until \<^verbatim>\<open>EOF\<close> or a line feed reads it.\<close>

fun drain_line :: "string \<Rightarrow> string \<times> string" where
  "drain_line [] = ([], [])"
| "drain_line (c # s) = (if c = NL then ([c], s) else (let (l, r) = drain_line s in (c # l, r)))"

text \<open>\<^verbatim>\<open>s[strcspn(s, "\r\n")] = 0\<close>.\<close>

definition chop_eol :: "string \<Rightarrow> string" where
  "chop_eol s = takeWhile (\<lambda>c. c \<noteq> CR \<and> c \<noteq> NL) s"

section \<open>Replacing a file\<close>

text \<open>\<open>written\<close> is what reached the temporary file when writing did not fail.\<close>

definition replace_file :: "io \<Rightarrow> string \<Rightarrow> string \<Rightarrow> disk \<Rightarrow> unit res \<times> disk" where
  "replace_file f path written d =
     (case io_open f of
        Some e \<Rightarrow> (Inl e, d)
      | None \<Rightarrow>
          (case io_write f of
             Some e \<Rightarrow> (Inl e, d(path @ ''.tmp'' := None))
           | None \<Rightarrow>
               (case io_rename f of
                  Some e \<Rightarrow> (Inl e, d(path @ ''.tmp'' := None))
                | None \<Rightarrow> (Inr (), d(path @ ''.tmp'' := None, path := Some written)))))"

section \<open>Lemmas\<close>

lemma fgets_line_append: "fst (fgets_line n s) @ snd (fgets_line n s) = s"
  by (induction n s rule: fgets_line.induct) (auto split: prod.splits)

lemma fgets_line_length: "length (fst (fgets_line n s)) \<le> n"
  by (induction n s rule: fgets_line.induct) (auto split: prod.splits)

lemma fgets_line_rest: "0 < n \<Longrightarrow> s \<noteq> [] \<Longrightarrow> length (snd (fgets_line n s)) < length s"
proof (induction n s rule: fgets_line.induct)
  case (3 n c s)
  show ?case
  proof (cases "c = NL")
    case False
    have "length (snd (fgets_line n s)) \<le> length s"
      using arg_cong [OF fgets_line_append [of n s], of length] by simp
    then show ?thesis using False by (auto split: prod.split)
  qed simp
qed simp_all

text \<open>A whole line that fits is read as it is.\<close>

lemma fgets_line_whole:
  "NL \<notin> set l \<Longrightarrow> length l < n \<Longrightarrow> fgets_line n (l @ NL # r) = (l @ [NL], r)"
proof (induction l arbitrary: n)
  case Nil
  then show ?case by (cases n) auto
next
  case (Cons a l)
  then show ?case by (cases n) auto
qed

lemma fgets_line_last: "NL \<notin> set l \<Longrightarrow> length l \<le> n \<Longrightarrow> fgets_line n l = (l, [])"
proof (induction l arbitrary: n)
  case Nil
  then show ?case by (cases n) auto
next
  case (Cons a l)
  then show ?case by (cases n) auto
qed

lemma fgets_line_exact: "NL \<notin> set l \<Longrightarrow> fgets_line (length l) (l @ r) = (l, r)"
  by (induction l) auto

lemma drain_line_append: "fst (drain_line s) @ snd (drain_line s) = s"
  by (induction s) (auto split: prod.splits)

lemma chop_eol_id: "NL \<notin> set l \<Longrightarrow> CR \<notin> set l \<Longrightarrow> chop_eol l = l"
  by (auto simp: chop_eol_def takeWhile_eq_all_conv)

lemma chop_eol_line: "NL \<notin> set l \<Longrightarrow> CR \<notin> set l \<Longrightarrow> chop_eol (l @ [NL]) = l"
  by (induction l) (auto simp: chop_eol_def)

lemma tmp_neq [simp]: "path @ ''.tmp'' \<noteq> path" "path \<noteq> path @ ''.tmp''"
  by simp_all

lemma replace_file_ok: "fst (replace_file f path w d) = Inr () \<Longrightarrow> snd (replace_file f path w d) path = Some w"
  by (auto simp: replace_file_def split: option.splits)

lemma replace_file_fail: "fst (replace_file f path w d) = Inl e \<Longrightarrow> snd (replace_file f path w d) path = d path"
  by (auto simp: replace_file_def split: option.splits)

lemma replace_file_other: "q \<noteq> path \<Longrightarrow> q \<noteq> path @ ''.tmp'' \<Longrightarrow> snd (replace_file f path w d) q = d q"
  by (auto simp: replace_file_def split: option.splits)

end
