(* ===== verification/Mount_Links.thy ===== *)
theory Mount_Links
  imports Path_Utils Text_Files
begin

text \<open>
  \<^verbatim>\<open>src/sm_filesystem.c\<close>, the link files: the small text files under \<^verbatim>\<open>/user/app/<title>\<close>
  that remember which source a title is mounted from (\<^verbatim>\<open>mount.lnk\<close>) and which chain of images
  that source lies in (\<^verbatim>\<open>mount_img.lnk\<close>, outermost image first), and the tests of a title's
  installed files.
\<close>

section \<open>Tests on installed files\<close>

definition APP_BASE :: string where "APP_BASE = ''/user/app''"
definition APPMETA_BASE :: string where "APPMETA_BASE = ''/user/appmeta''"

definition is_installed :: "host \<Rightarrow> string \<Rightarrow> bool" where
  "is_installed h title_id = stat_ok h (strlcpy (APP_BASE @ ''/'' @ title_id) MAX_PATH)"

definition regular_file :: "host \<Rightarrow> string \<Rightarrow> bool" where
  "regular_file h path = (case h_stat h path of Inr st \<Rightarrow> st_mode st = S_REG | Inl _ \<Rightarrow> False)"

definition has_appmeta_data :: "host \<Rightarrow> string \<Rightarrow> bool" where
  "has_appmeta_data h title_id =
     list_ex (\<lambda>name. case bounded MAX_PATH (APPMETA_BASE @ ''/'' @ title_id @ ''/'' @ name) of
                       None \<Rightarrow> False | Some path \<Rightarrow> regular_file h path)
       [''param.json'', ''param.sfo'']"

definition directory_has_game_executable :: "host \<Rightarrow> string \<Rightarrow> bool" where
  "directory_has_game_executable h dir_path =
     list_ex (\<lambda>name. case bounded MAX_PATH (dir_path @ ''/'' @ name) of
                       None \<Rightarrow> False | Some path \<Rightarrow> regular_file h path)
       [''eboot.bin'', ''eboot2.bin'']"

section \<open>Link files\<close>

text \<open>\<^verbatim>\<open>fgetc\<close> is neither \<^verbatim>\<open>EOF\<close> nor an end of line.\<close>

definition more_text :: "string \<Rightarrow> bool" where
  "more_text r \<longleftrightarrow> r \<noteq> [] \<and> hd r \<noteq> NL \<and> hd r \<noteq> CR"

definition read_mount_link_file :: "disk \<Rightarrow> string \<Rightarrow> nat \<Rightarrow> string option" where
  "read_mount_link_file d lnk_path out_size =
     (if out_size = 0 then None
      else
        (case d lnk_path of
           None \<Rightarrow> None
         | Some content \<Rightarrow>
             (case fgets out_size content of
                None \<Rightarrow> None
              | Some (out, rest) \<Rightarrow>
                  (let line = chop_eol out;
                       truncated = (line = out \<and> length line + 1 \<ge> out_size \<and> more_text rest)
                   in if truncated then None else if line = [] then None else Some line))))"

definition build_title_link_path :: "string \<Rightarrow> string \<Rightarrow> string" where
  "build_title_link_path title_id filename = strlcpy (APP_BASE @ ''/'' @ title_id @ ''/'' @ filename) MAX_PATH"

record title_link_paths =
  mount_link :: string
  staged_mount_link :: string
  mount_image_link :: string

definition build_title_link_paths :: "string \<Rightarrow> title_link_paths" where
  "build_title_link_paths title_id = \<lparr>
     mount_link = build_title_link_path title_id ''mount.lnk'',
     staged_mount_link = build_title_link_path title_id ''mount.lnk.cleanup'',
     mount_image_link = build_title_link_path title_id ''mount_img.lnk''\<rparr>"

definition read_mount_link :: "disk \<Rightarrow> string \<Rightarrow> nat \<Rightarrow> string option" where
  "read_mount_link d title_id out_size =
     (if out_size = 0 then None
      else read_mount_link_file d (mount_link (build_title_link_paths title_id)) out_size)"

fun join_lines :: "string list \<Rightarrow> string" where
  "join_lines [] = []"
| "join_lines [l] = l"
| "join_lines (l # l' # ls) = l @ NL # join_lines (l' # ls)"

definition write_link_lines_atomic :: "io \<Rightarrow> string \<Rightarrow> string list \<Rightarrow> disk \<Rightarrow> bool \<times> disk" where
  "write_link_lines_atomic f path lines d =
     (if length (path @ ''.tmp'') \<ge> MAX_PATH then (False, d)
      else if list_ex (\<lambda>l. l = []) lines \<and> io_open f = None then (False, d(path @ ''.tmp'' := None))
      else
        (case replace_file f path (join_lines lines) d of
           (Inl _, d') \<Rightarrow> (False, d')
         | (Inr _, d') \<Rightarrow> (True, d')))"

definition write_mount_link :: "io \<Rightarrow> string \<Rightarrow> string \<Rightarrow> disk \<Rightarrow> bool \<times> disk" where
  "write_mount_link f title_id source_path d =
     (if title_id = [] \<or> source_path = [] then (False, d)
      else write_link_lines_atomic f (mount_link (build_title_link_paths title_id)) [source_path] d)"

definition read_mount_image_link :: "disk \<Rightarrow> string \<Rightarrow> nat \<Rightarrow> string option" where
  "read_mount_image_link d title_id out_size =
     (if out_size = 0 then None
      else read_mount_link_file d (mount_image_link (build_title_link_paths title_id)) out_size)"

definition write_mount_image_chain :: "io \<Rightarrow> string \<Rightarrow> string list \<Rightarrow> disk \<Rightarrow> bool \<times> disk" where
  "write_mount_image_chain f title_id paths d =
     (if title_id = [] \<or> length paths = 0 \<or> length paths > MAX_IMAGE_CHAIN_DEPTH then (False, d)
      else write_link_lines_atomic f (mount_image_link (build_title_link_paths title_id)) paths d)"

definition write_mount_image_link :: "io \<Rightarrow> string \<Rightarrow> string \<Rightarrow> disk \<Rightarrow> bool \<times> disk" where
  "write_mount_image_link f title_id image_path d =
     (if title_id = [] \<or> image_path = [] then (False, d)
      else write_mount_image_chain f title_id [strlcpy image_path MAX_PATH] d)"

text \<open>Up to \<open>n\<close> lines; \<open>None\<close> when a line is too long or empty.\<close>

fun chain_read :: "nat \<Rightarrow> string \<Rightarrow> (string list \<times> string) option" where
  "chain_read 0 s = Some ([], s)"
| "chain_read (Suc n) s =
     (case fgets MAX_PATH s of
        None \<Rightarrow> Some ([], s)
      | Some (l, r) \<Rightarrow>
          (let p = chop_eol l; full = (p = l \<and> length p + 1 \<ge> MAX_PATH)
           in if full \<and> more_text r then None
              else if p = [] then None
              else map_option (\<lambda>(ps, rest). (p # ps, rest)) (chain_read n (if full then tl r else r))))"

definition read_mount_image_chain :: "disk \<Rightarrow> string \<Rightarrow> string list option" where
  "read_mount_image_chain d title_id =
     (case d (mount_image_link (build_title_link_paths title_id)) of
        None \<Rightarrow> None
      | Some content \<Rightarrow>
          (case chain_read MAX_IMAGE_CHAIN_DEPTH content of
             None \<Rightarrow> None
           | Some (paths, rest) \<Rightarrow>
               (if length paths = MAX_IMAGE_CHAIN_DEPTH \<and> rest \<noteq> [] then None
                else if paths = [] then None else Some paths)))"

section \<open>Lemmas\<close>

text \<open>A path that survives as one line of a link file.\<close>

definition link_line :: "string \<Rightarrow> bool" where
  "link_line p \<longleftrightarrow> p \<noteq> [] \<and> length p < MAX_PATH \<and> NL \<notin> set p \<and> CR \<notin> set p"

lemma fgets_link_line:
  assumes "link_line p"
  shows "fgets MAX_PATH p = Some (p, [])"
    and "length p < MAX_PATH - 1 \<Longrightarrow> fgets MAX_PATH (p @ NL # r) = Some (p @ [NL], r)"
    and "length p = MAX_PATH - 1 \<Longrightarrow> fgets MAX_PATH (p @ NL # r) = Some (p, NL # r)"
proof -
  show "fgets MAX_PATH p = Some (p, [])"
    using assms fgets_line_last [of p "MAX_PATH - 1"] by (simp add: fgets_def link_line_def)
  show "length p < MAX_PATH - 1 \<Longrightarrow> fgets MAX_PATH (p @ NL # r) = Some (p @ [NL], r)"
    using assms fgets_line_whole [of p "MAX_PATH - 1" r] by (simp add: fgets_def link_line_def)
  show "length p = MAX_PATH - 1 \<Longrightarrow> fgets MAX_PATH (p @ NL # r) = Some (p, NL # r)"
    using assms fgets_line_exact [of p "NL # r"] by (simp add: fgets_def link_line_def)
qed

lemma read_link_of_line:
  assumes "link_line p" and "d f = Some p \<or> (\<exists>r. d f = Some (p @ NL # r))"
  shows "read_mount_link_file d f MAX_PATH = Some p"
proof -
  have p: "chop_eol p = p" "chop_eol (p @ [NL]) = p" "p \<noteq> []" "length p < MAX_PATH"
    using assms(1) by (simp_all add: link_line_def chop_eol_id chop_eol_line)
  from assms(2) show ?thesis
  proof (elim disjE exE)
    assume "d f = Some p"
    then show ?thesis using fgets_link_line(1) [OF assms(1)] p by (simp add: read_mount_link_file_def more_text_def)
  next
    fix r
    assume f: "d f = Some (p @ NL # r)"
    show ?thesis
    proof (cases "length p < MAX_PATH - 1")
      case True
      then show ?thesis using f fgets_link_line(2) [OF assms(1) True] p by (simp add: read_mount_link_file_def)
    next
      case False
      then have "length p = MAX_PATH - 1" using p by simp
      then show ?thesis using f fgets_link_line(3) [OF assms(1)] p by (simp add: read_mount_link_file_def more_text_def)
    qed
  qed
qed

lemma chain_read_join:
  assumes "list_all link_line ps" and "length ps \<le> n"
  shows "chain_read n (join_lines ps) = Some (ps, [])"
  using assms
proof (induction ps arbitrary: n rule: join_lines.induct)
  case 1
  then show ?case by (cases n) (simp_all add: fgets_def)
next
  case (2 l)
  then obtain m where n: "n = Suc m" by (cases n) auto
  have l: "link_line l" "chop_eol l = l" "l \<noteq> []" using 2 by (auto simp: link_line_def chop_eol_id)
  show ?case
    using fgets_link_line(1) [OF l(1)] l n by (cases m) (auto simp: more_text_def fgets_def Let_def)
next
  case (3 l l' ls)
  then obtain m where n: "n = Suc m" by (cases n) auto
  have l: "link_line l" "chop_eol l = l" "chop_eol (l @ [NL]) = l" "l \<noteq> []" "length l < MAX_PATH"
    using 3 by (auto simp: link_line_def chop_eol_id chop_eol_line)
  have IH: "chain_read m (join_lines (l' # ls)) = Some (l' # ls, [])"
    using 3 n by simp
  show ?case
  proof (cases "length l < MAX_PATH - 1")
    case True
    then show ?thesis using fgets_link_line(2) [OF l(1) True] l n IH by (simp add: Let_def)
  next
    case False
    then have "length l = MAX_PATH - 1" using l by simp
    then show ?thesis using fgets_link_line(3) [OF l(1)] l n IH by (simp add: Let_def more_text_def)
  qed
qed

section \<open>The contract of a link store\<close>

text \<open>A series of writes, and what the last successful one to a title wrote.\<close>

fun write_all :: "(io \<Rightarrow> string \<Rightarrow> string \<Rightarrow> disk \<Rightarrow> bool \<times> disk) \<Rightarrow> (io \<times> string \<times> string) list \<Rightarrow> disk \<Rightarrow> disk" where
  "write_all wr [] d = d"
| "write_all wr ((f, t, p) # ws) d = write_all wr ws (snd (wr f t p d))"

fun last_written :: "(io \<Rightarrow> string \<Rightarrow> string \<Rightarrow> disk \<Rightarrow> bool \<times> disk) \<Rightarrow> (io \<times> string \<times> string) list \<Rightarrow> disk \<Rightarrow> string
    \<Rightarrow> string option \<Rightarrow> string option" where
  "last_written wr [] d t before = before"
| "last_written wr ((f, t', p) # ws) d t before =
     last_written wr ws (snd (wr f t' p d)) t (if t' = t \<and> fst (wr f t' p d) then Some p else before)"

text \<open>What a client of a link relies on: a write that reports success can be read back, one
  that fails leaves the old link readable, and no write touches another title's link.\<close>

locale link_store =
  fixes wr :: "io \<Rightarrow> string \<Rightarrow> string \<Rightarrow> disk \<Rightarrow> bool \<times> disk"
    and rd :: "disk \<Rightarrow> string \<Rightarrow> string option"
    and key :: "string \<Rightarrow> bool"
  assumes wr_ok: "key t \<Longrightarrow> link_line p \<Longrightarrow> fst (wr f t p d) \<Longrightarrow> rd (snd (wr f t p d)) t = Some p"
    and wr_fail: "key t \<Longrightarrow> \<not> fst (wr f t p d) \<Longrightarrow> rd (snd (wr f t p d)) t = rd d t"
    and wr_other: "key t \<Longrightarrow> key t' \<Longrightarrow> t \<noteq> t' \<Longrightarrow> rd (snd (wr f t p d)) t' = rd d t'"
begin

lemma wr_all_last:
  assumes "key t" and "\<And>f t' p. (f, t', p) \<in> set ws \<Longrightarrow> key t' \<and> link_line p"
  shows "rd (write_all wr ws d) t = last_written wr ws d t (rd d t)"
  using assms(2)
proof (induction ws arbitrary: d)
  case Nil
  then show ?case by simp
next
  case (Cons w ws)
  obtain f t' p where w: "w = (f, t', p)" by (cases w)
  have k: "key t'" "link_line p" using Cons.prems [of f t' p] w by auto
  have "rd (snd (wr f t' p d)) t = (if t' = t \<and> fst (wr f t' p d) then Some p else rd d t)"
    using wr_ok [OF k, of f d] wr_fail [OF k(1), of f p d] wr_other [OF k(1) assms(1), of f p d] by auto
  moreover have "rd (write_all wr ws (snd (wr f t' p d))) t
      = last_written wr ws (snd (wr f t' p d)) t (rd (snd (wr f t' p d)) t)"
    by (rule Cons.IH) (use Cons.prems in auto)
  ultimately show ?case using w by simp
qed

end

text \<open>A title id that names its own directory: not empty, no slash, short enough for its link
  paths not to be cut.\<close>

definition title_key :: "string \<Rightarrow> bool" where
  "title_key t \<longleftrightarrow> t \<noteq> [] \<and> length t < MAX_TITLE_ID \<and> CHR ''/'' \<notin> set t"

lemma link_path_id:
  assumes "title_key t" and "length f < 64"
  shows "build_title_link_path t f = APP_BASE @ ''/'' @ t @ ''/'' @ f"
  using assms by (simp add: build_title_link_path_def title_key_def APP_BASE_def strlcpy_id)

lemma append_slash_inj:
  assumes "CHR ''/'' \<notin> set a" and "CHR ''/'' \<notin> set b"
  shows "a @ CHR ''/'' # x = b @ CHR ''/'' # y \<longleftrightarrow> a = b \<and> x = y"
  using assms
proof (induction a arbitrary: b)
  case Nil
  then show ?case by (cases b) auto
next
  case (Cons c a)
  then show ?case by (cases b) auto
qed

lemma link_path_neq:
  assumes "title_key t" and "title_key t'" and "t \<noteq> t'" and "length f < 64" and "length f' < 64"
  shows "build_title_link_path t f \<noteq> build_title_link_path t' f'"
  using assms append_slash_inj [of t t' f f'] by (simp add: link_path_id title_key_def)

lemma join_single_link: "list_all link_line ps \<Longrightarrow> ps \<noteq> [] \<Longrightarrow>
    (join_lines ps = hd ps \<or> (\<exists>r. join_lines ps = hd ps @ NL # r))"
  by (induction ps rule: join_lines.induct) auto

lemma write_lines_cases:
  "(fst (write_link_lines_atomic f path ls d) \<and> snd (write_link_lines_atomic f path ls d) path = Some (join_lines ls))
   \<or> (\<not> fst (write_link_lines_atomic f path ls d) \<and> snd (write_link_lines_atomic f path ls d) path = d path)"
  using replace_file_ok [of f path "join_lines ls" d] replace_file_fail [of f path "join_lines ls" d]
  by (auto simp: write_link_lines_atomic_def split: prod.splits sum.splits)

lemma write_lines_other:
  assumes "q \<noteq> path" and "q \<noteq> path @ ''.tmp''"
  shows "snd (write_link_lines_atomic f path ls d) q = d q"
  using replace_file_other [OF assms, of f "join_lines ls" d] assms
  by (auto simp: write_link_lines_atomic_def split: prod.splits sum.splits)

lemma link_path_other:
  assumes "title_key t" and "title_key t'" and "t \<noteq> t'" and "length f < 60"
  shows "build_title_link_path t' f \<noteq> build_title_link_path t f"
    and "build_title_link_path t' f \<noteq> build_title_link_path t f @ ''.tmp''"
proof -
  show "build_title_link_path t' f \<noteq> build_title_link_path t f"
    using link_path_neq [of t t' f f] assms by auto
  have "build_title_link_path t f @ ''.tmp'' = build_title_link_path t (f @ ''.tmp'')"
    using assms by (simp add: link_path_id)
  then show "build_title_link_path t' f \<noteq> build_title_link_path t f @ ''.tmp''"
    using link_path_neq [of t t' "f @ ''.tmp''" f] assms by auto
qed

interpretation mount_lnk: link_store write_mount_link "\<lambda>d t. read_mount_link d t MAX_PATH" title_key
proof unfold_locales
  fix t p f d
  assume "title_key t"
  then have t: "t \<noteq> []" by (simp add: title_key_def)
  let ?path = "build_title_link_path t ''mount.lnk''"
  note w = write_lines_cases [of f ?path "[p]" d]
  show "read_mount_link (snd (write_mount_link f t p d)) t MAX_PATH = Some p"
    if "link_line p" "fst (write_mount_link f t p d)"
    using that w t read_link_of_line [OF that(1)]
    by (auto simp: write_mount_link_def read_mount_link_def build_title_link_paths_def split: if_splits)
  show "read_mount_link (snd (write_mount_link f t p d)) t MAX_PATH = read_mount_link d t MAX_PATH"
    if "\<not> fst (write_mount_link f t p d)"
    using that w by (auto simp: write_mount_link_def read_mount_link_def read_mount_link_file_def
        build_title_link_paths_def split: if_splits)
next
  fix t t' p f d
  assume "title_key t" "title_key t'" "t \<noteq> t'"
  then show "read_mount_link (snd (write_mount_link f t p d)) t' MAX_PATH = read_mount_link d t' MAX_PATH"
    using write_lines_other [OF link_path_other [of t t' "''mount.lnk''"], of f "[p]" d]
    by (auto simp: write_mount_link_def read_mount_link_def read_mount_link_file_def build_title_link_paths_def)
qed

interpretation image_lnk: link_store write_mount_image_link "\<lambda>d t. read_mount_image_link d t MAX_PATH" title_key
proof unfold_locales
  fix t p f d
  assume "title_key t"
  then have t: "t \<noteq> []" by (simp add: title_key_def)
  let ?path = "build_title_link_path t ''mount_img.lnk''"
  note w = write_lines_cases [of f ?path "[strlcpy p MAX_PATH]" d]
  show "read_mount_image_link (snd (write_mount_image_link f t p d)) t MAX_PATH = Some p"
    if "link_line p" "fst (write_mount_image_link f t p d)"
    using that w t read_link_of_line [OF that(1)]
    by (auto simp: write_mount_image_link_def write_mount_image_chain_def read_mount_image_link_def
        build_title_link_paths_def link_line_def strlcpy_id split: if_splits)
  show "read_mount_image_link (snd (write_mount_image_link f t p d)) t MAX_PATH = read_mount_image_link d t MAX_PATH"
    if "\<not> fst (write_mount_image_link f t p d)"
    using that w by (auto simp: write_mount_image_link_def write_mount_image_chain_def read_mount_image_link_def
        read_mount_link_file_def build_title_link_paths_def split: if_splits)
next
  fix t t' p f d
  assume "title_key t" "title_key t'" "t \<noteq> t'"
  then show "read_mount_image_link (snd (write_mount_image_link f t p d)) t' MAX_PATH = read_mount_image_link d t' MAX_PATH"
    using write_lines_other [OF link_path_other [of t t' "''mount_img.lnk''"], of f "[strlcpy p MAX_PATH]" d]
    by (auto simp: write_mount_image_link_def write_mount_image_chain_def read_mount_image_link_def
        read_mount_link_file_def build_title_link_paths_def)
qed

section \<open>Properties\<close>

text \<open>C20. The image chain of a title survives a write and a read: a chain of one to
  \<^verbatim>\<open>MAX_IMAGE_CHAIN_DEPTH\<close> usable paths that was written without error is read back whole and
  in order, and the single-link reader sees its outermost image. The longest path a buffer
  holds (1023 bytes) is included.\<close>

theorem image_chain_roundtrip:
  assumes "list_all link_line ps" and "fst (write_mount_image_chain f t ps d)"
  shows "read_mount_image_chain (snd (write_mount_image_chain f t ps d)) t = Some ps
    \<and> read_mount_image_link (snd (write_mount_image_chain f t ps d)) t MAX_PATH = Some (hd ps)"
proof -
  let ?path = "build_title_link_path t ''mount_img.lnk''"
  have n: "ps \<noteq> []" "length ps \<le> MAX_IMAGE_CHAIN_DEPTH" "t \<noteq> []"
    and w: "snd (write_mount_image_chain f t ps d) ?path = Some (join_lines ps)"
    using assms(2) write_lines_cases [of f ?path ps d]
    by (auto simp: write_mount_image_chain_def build_title_link_paths_def split: if_splits)
  have "read_mount_image_chain (snd (write_mount_image_chain f t ps d)) t = Some ps"
    using w n chain_read_join [OF assms(1) n(2)] by (simp add: read_mount_image_chain_def build_title_link_paths_def)
  moreover have "read_mount_link_file (snd (write_mount_image_chain f t ps d)) ?path MAX_PATH = Some (hd ps)"
    using join_single_link [OF assms(1) n(1)] assms(1) n w
    by (intro read_link_of_line) (auto simp: list_all_iff)
  ultimately show ?thesis by (simp add: read_mount_image_link_def build_title_link_paths_def)
qed

theorem image_chain_roundtrip_witness:
  "read_mount_image_chain (snd (write_mount_image_chain io_ok ''PPSA01234'' [''/data/a.ffpkg'', ''/mnt/b.exfat''] (\<lambda>_. None)))
     ''PPSA01234'' = Some [''/data/a.ffpkg'', ''/mnt/b.exfat'']"
  using image_chain_roundtrip [of "[''/data/a.ffpkg'', ''/mnt/b.exfat'']" io_ok "''PPSA01234''" "\<lambda>_. None"]
  by (simp add: link_line_def write_mount_image_chain_def write_link_lines_atomic_def replace_file_def io_ok_def
      build_title_link_paths_def build_title_link_path_def APP_BASE_def strlcpy_def)

text \<open>Links are replaced atomically: after any series of writes to mount links, some of which
  may fail at opening, writing or renaming, each title's link reads as the path of its last
  successful write, or as before when it had none.\<close>

theorem mount_link_last_write_wins:
  assumes "title_key t" and "list_all (\<lambda>(f, t', p). title_key t' \<and> link_line p) ws"
  shows "read_mount_link (write_all write_mount_link ws d) t MAX_PATH
       = last_written write_mount_link ws d t (read_mount_link d t MAX_PATH)"
  using assms by (intro mount_lnk.wr_all_last) (auto simp: list_all_iff)

theorem mount_link_last_write_wins_witness:
  "read_mount_link (write_all write_mount_link [(io_ok, ''PPSA01234'', ''/data/x'')] (\<lambda>_. None)) ''PPSA01234'' MAX_PATH
   = last_written write_mount_link [(io_ok, ''PPSA01234'', ''/data/x'')] (\<lambda>_. None) ''PPSA01234''
       (read_mount_link (\<lambda>_. None) ''PPSA01234'' MAX_PATH)"
  using mount_link_last_write_wins [of "''PPSA01234''" "[(io_ok, ''PPSA01234'', ''/data/x'')]" "\<lambda>_. None"]
  by (simp add: title_key_def link_line_def)

end
