(* ===== verification/App_Db_Titles.thy ===== *)
theory App_Db_Titles
  imports SM_Prelude "HOL-Library.List_Lexorder" "HOL-Library.Char_ord"
begin

text \<open>
  The sorted lists of \<^verbatim>\<open>src/sm_appdb.c\<close>: lists of title ids, searched with the C library's
  \<^verbatim>\<open>bsearch\<close>, and snapshots of game records, searched by the lower-bound loop of
  \<^verbatim>\<open>app_db_find_game_info\<close>. A list is the used part of its array; memory allocation is taken to
  succeed.

  Both searches rely on a three-way comparison. Its contract is the locale \<open>three_way\<close>, in
  which they are shown to find exactly what is there; it is interpreted for \<^verbatim>\<open>strcmp\<close>, whose
  order is the library's lexicographic order on strings.
\<close>

section \<open>Comparison and search\<close>

fun strcmp :: "string \<Rightarrow> string \<Rightarrow> int" where
  "strcmp [] [] = 0"
| "strcmp [] (b # _) = - int (of_char b :: nat) - 1"
| "strcmp (a # _) [] = int (of_char a :: nat) + 1"
| "strcmp (a # x) (b # y) = (if a = b then strcmp x y else int (of_char a :: nat) - int (of_char b :: nat))"

text \<open>The loop of \<^verbatim>\<open>bsearch\<close>: \<open>lim\<close> elements from \<open>base\<close> on are left.\<close>

function bsearch_loop :: "('a \<Rightarrow> 'a \<Rightarrow> int) \<Rightarrow> 'a \<Rightarrow> 'a list \<Rightarrow> nat \<Rightarrow> nat \<Rightarrow> nat option" where
  "bsearch_loop cmp key xs base lim =
     (if lim = 0 then None
      else
        (let p = base + lim div 2; c = cmp key (xs ! p) in
         if c = 0 then Some p
         else if c > 0 then bsearch_loop cmp key xs (p + 1) ((lim - 1) div 2)
         else bsearch_loop cmp key xs base (lim div 2)))"
  by pat_completeness auto

termination
  by (relation "measure (\<lambda>(_, _, _, _, lim). lim)") auto

definition bsearch :: "('a \<Rightarrow> 'a \<Rightarrow> int) \<Rightarrow> 'a \<Rightarrow> 'a list \<Rightarrow> nat option" where
  "bsearch cmp key xs = bsearch_loop cmp key xs 0 (length xs)"

text \<open>The loop of \<^verbatim>\<open>app_db_find_game_info\<close>.\<close>

function lower_bound :: "('a \<Rightarrow> 'a \<Rightarrow> int) \<Rightarrow> 'a \<Rightarrow> 'a list \<Rightarrow> nat \<Rightarrow> nat \<Rightarrow> nat" where
  "lower_bound cmp key xs low high =
     (if low < high then
        (let mid = low + (high - low) div 2 in
         if cmp (xs ! mid) key < 0 then lower_bound cmp key xs (mid + 1) high
         else lower_bound cmp key xs low mid)
      else low)"
  by pat_completeness auto

termination
  by (relation "measure (\<lambda>(_, _, _, low, high). high - low)") auto

declare bsearch_loop.simps [simp del] lower_bound.simps [simp del]

section \<open>Title lists\<close>

text \<open>\<open>None\<close> is a \<open>NULL\<close> column. The list is kept on success and on an empty id alike.\<close>

definition append_app_db_title :: "string list \<Rightarrow> string option \<Rightarrow> string list" where
  "append_app_db_title ids title_id =
     (case title_id of None \<Rightarrow> ids | Some t \<Rightarrow> if t = [] then ids else ids @ [strlcpy t MAX_TITLE_ID])"

definition compare_title_id_str :: "string \<Rightarrow> string \<Rightarrow> int" where
  "compare_title_id_str a b = strcmp a b"

definition app_db_title_list_contains :: "string list \<Rightarrow> string \<Rightarrow> bool" where
  "app_db_title_list_contains ids title_id =
     (if ids = [] then False else bsearch compare_title_id_str title_id ids \<noteq> None)"

section \<open>Game records\<close>

record app_db_game_info =
  gi_title_id :: string
  gi_content_id :: string
  gi_title_name :: string
  gi_version :: string
  gi_last_access_time :: string
  gi_install_time :: string
  gi_icon_path :: string
  gi_metadata_path :: string
  gi_platform :: int
  gi_installed_size :: u64

definition app_db_find_game_info :: "app_db_game_info list \<Rightarrow> string \<Rightarrow> app_db_game_info option" where
  "app_db_find_game_info entries title_id =
     (let low = lower_bound strcmp title_id (map gi_title_id entries) 0 (length entries) in
      if low < length entries \<and> strcmp (gi_title_id (entries ! low)) title_id = 0 then Some (entries ! low) else None)"

section \<open>The contract of a comparison\<close>

locale three_way =
  fixes cmp :: "'a :: linorder \<Rightarrow> 'a \<Rightarrow> int"
  assumes cmp_less: "cmp a b < 0 \<longleftrightarrow> a < b"
    and cmp_eq: "cmp a b = 0 \<longleftrightarrow> a = b"
begin

lemma cmp_greater: "cmp a b > 0 \<longleftrightarrow> b < a"
  using cmp_less [of a b] cmp_eq [of a b] by (cases a b rule: linorder_cases) auto

text \<open>What is found is there, in a list of any order.\<close>

lemma bsearch_loop_sound: "bsearch_loop cmp key xs base lim = Some p \<Longrightarrow> base \<le> p \<and> p < base + lim \<and> xs ! p = key"
proof (induction lim arbitrary: base rule: less_induct)
  case (less lim)
  show ?case
  proof (cases "lim = 0")
    case False
    let ?p = "base + lim div 2"
    have lt: "(lim - 1) div 2 < lim" "lim div 2 < lim" "?p + 1 + (lim - 1) div 2 \<le> base + lim" using False by auto
    show ?thesis
      using less.prems less.IH [OF lt(1), of "?p + 1"] less.IH [OF lt(2), of base] lt
      by (subst (asm) bsearch_loop.simps) (auto simp: Let_def cmp_eq split: if_splits)
  qed (use less.prems in \<open>simp add: bsearch_loop.simps\<close>)
qed

lemma bsearch_loop_complete:
  assumes "sorted xs" "base + lim \<le> length xs" "base \<le> i" "i < base + lim" "xs ! i = key"
  shows "bsearch_loop cmp key xs base lim \<noteq> None"
  using assms(2-4)
proof (induction lim arbitrary: base rule: less_induct)
  case (less lim)
  let ?p = "base + lim div 2"
  have p: "?p < length xs" using less.prems by linarith
  consider (eq) "xs ! ?p = key" | (above) "xs ! ?p < key" | (below) "key < xs ! ?p" by (meson less_linear)
  then show ?case
  proof cases
    case eq
    then show ?thesis using less.prems by (subst bsearch_loop.simps) (simp add: Let_def cmp_eq)
  next
    case above
    have "?p < i"
    proof (rule ccontr)
      assume "\<not> ?p < i"
      then have "xs ! i \<le> xs ! ?p" using assms(1) p by (intro sorted_nth_mono) auto
      then show False using above assms(5) by simp
    qed
    then have "bsearch_loop cmp key xs (?p + 1) ((lim - 1) div 2) \<noteq> None"
      using less.prems by (intro less.IH) auto
    then show ?thesis using above less.prems by (subst bsearch_loop.simps) (auto simp: Let_def cmp_greater cmp_eq)
  next
    case below
    have "i < ?p"
    proof (rule ccontr)
      assume "\<not> i < ?p"
      then have "xs ! ?p \<le> xs ! i" using assms(1) less.prems by (intro sorted_nth_mono) auto
      then show False using below assms(5) by simp
    qed
    then have "bsearch_loop cmp key xs base (lim div 2) \<noteq> None"
      using less.prems by (intro less.IH) auto
    moreover have "\<not> cmp key (xs ! ?p) > 0" "cmp key (xs ! ?p) \<noteq> 0" using below cmp_greater cmp_eq by auto
    ultimately show ?thesis using less.prems by (subst bsearch_loop.simps) (simp add: Let_def)
  qed
qed

lemma bsearch_found: "bsearch cmp key xs = Some i \<Longrightarrow> i < length xs \<and> xs ! i = key"
  using bsearch_loop_sound [of key xs 0 "length xs" i] by (simp add: bsearch_def)

lemma bsearch_iff: "sorted xs \<Longrightarrow> bsearch cmp key xs \<noteq> None \<longleftrightarrow> key \<in> set xs"
proof
  assume "bsearch cmp key xs \<noteq> None"
  then show "key \<in> set xs" using bsearch_found by (metis nth_mem option.exhaust)
next
  assume s: "sorted xs" and "key \<in> set xs"
  then obtain i where "i < length xs" "xs ! i = key" by (auto simp: in_set_conv_nth)
  then show "bsearch cmp key xs \<noteq> None"
    using bsearch_loop_complete [OF s, of 0 "length xs" i key] by (simp add: bsearch_def)
qed

text \<open>The lower bound splits a sorted list at the first element that is not smaller.\<close>

lemma lower_bound_split:
  assumes "sorted xs" "high \<le> length xs" "low \<le> high" "r = lower_bound cmp key xs low high"
  shows "low \<le> r \<and> r \<le> high \<and> (\<forall>i. low \<le> i \<longrightarrow> i < r \<longrightarrow> xs ! i < key) \<and> (\<forall>i. r \<le> i \<longrightarrow> i < high \<longrightarrow> key \<le> xs ! i)"
  using assms(2-4)
proof (induction "high - low" arbitrary: low high rule: less_induct)
  case less
  show ?case
  proof (cases "low < high")
    case True
    define m where "m = low + (high - low) div 2"
    have m: "low \<le> m" "m < high" "high - (m + 1) < high - low" "m - low < high - low" using True by (auto simp: m_def)
    have step: "r = (if xs ! m < key then lower_bound cmp key xs (m + 1) high else lower_bound cmp key xs low m)"
      using less.prems(3) True by (subst (asm) lower_bound.simps) (simp add: Let_def cmp_less m_def)
    show ?thesis
    proof (cases "xs ! m < key")
      case lt: True
      have "xs ! i < key" if "i \<le> m" for i
        using sorted_nth_mono [OF assms(1) that] m less.prems lt by auto
      moreover have "i \<le> m \<or> m + 1 \<le> i" for i by auto
      ultimately show ?thesis using less.hyps [OF m(3) less.prems(1)] m lt step by (auto simp del: Suc_le_eq) 
    next
      case ge: False
      have "key \<le> xs ! i" if "m \<le> i" "i < high" for i
        using sorted_nth_mono [OF assms(1) that(1)] that(2) less.prems ge by auto
      moreover have "i < m \<or> m \<le> i" for i by auto
      ultimately show ?thesis using less.hyps [OF m(4)] less.prems m ge step by auto
    qed
  next
    case False
    then show ?thesis using less.prems by (subst (asm) lower_bound.simps) auto
  qed
qed

end

section \<open>\<^verbatim>\<open>strcmp\<close>\<close>

lemma of_char_less: "(of_char a :: nat) < of_char b \<longleftrightarrow> a < b" for a b :: char
  by (simp add: less_char_def)

lemma strcmp_order: "(strcmp a b < 0 \<longleftrightarrow> a < b) \<and> (strcmp a b = 0 \<longleftrightarrow> a = b)"
  by (induction a b rule: strcmp.induct) (auto simp: of_char_less)

interpretation strcmp: three_way strcmp
  using strcmp_order by unfold_locales auto

interpretation title_cmp: three_way compare_title_id_str
  using strcmp_order by unfold_locales (auto simp: compare_title_id_str_def)

lemma contains_found: "app_db_title_list_contains ids t \<Longrightarrow> t \<in> set ids"
  using title_cmp.bsearch_found [of t ids] by (auto simp: app_db_title_list_contains_def split: if_splits)

lemma contains_iff: "sorted ids \<Longrightarrow> app_db_title_list_contains ids t \<longleftrightarrow> t \<in> set ids"
  using title_cmp.bsearch_iff [of ids t] by (auto simp: app_db_title_list_contains_def)

lemma find_first: "i < length xs \<Longrightarrow> P (xs ! i) \<Longrightarrow> (\<And>j. j < i \<Longrightarrow> \<not> P (xs ! j)) \<Longrightarrow> find P xs = Some (xs ! i)"
  by (auto simp: find_Some_iff)

lemma find_game_info_first:
  assumes "sorted (map gi_title_id entries)"
  shows "app_db_find_game_info entries t = find (\<lambda>e. gi_title_id e = t) entries"
proof -
  define r where "r = lower_bound strcmp t (map gi_title_id entries) 0 (length entries)"
  have r: "r \<le> length entries" "\<And>i. i < r \<Longrightarrow> gi_title_id (entries ! i) < t"
    "\<And>i. r \<le> i \<Longrightarrow> i < length entries \<Longrightarrow> t \<le> gi_title_id (entries ! i)"
    using strcmp.lower_bound_split [OF assms, of "length entries" 0 r t] by (auto simp: r_def)
  have mono: "i \<le> j \<Longrightarrow> j < length entries \<Longrightarrow> gi_title_id (entries ! i) \<le> gi_title_id (entries ! j)" for i j
    using sorted_nth_mono [OF assms, of i j] by simp
  show ?thesis
  proof (cases "r < length entries \<and> gi_title_id (entries ! r) = t")
    case True
    then have "find (\<lambda>e. gi_title_id e = t) entries = Some (entries ! r)"
      using r(2) by (intro find_first) fastforce+
    then show ?thesis using True strcmp_order by (simp add: app_db_find_game_info_def r_def [symmetric])
  next
    case False
    have "gi_title_id (entries ! i) \<noteq> t" if "i < length entries" for i
    proof (cases "i < r")
      case ge: False
      then have "r < length entries" "t < gi_title_id (entries ! r)"
        using that False r(3) [of r] by auto
      then show ?thesis using mono [of r i] ge that by auto
    qed (use r(2) in fastforce)
    then have "find (\<lambda>e. gi_title_id e = t) entries = None" by (auto simp: find_None_iff in_set_conv_nth)
    then show ?thesis using False strcmp_order by (auto simp: app_db_find_game_info_def r_def [symmetric])
  qed
qed

text \<open>Cutting the ids to the length of their array keeps them sorted.\<close>

lemma take_mono: "a \<le> b \<Longrightarrow> take n a \<le> take n (b :: string)"
proof (induction n arbitrary: a b)
  case (Suc n)
  then show ?case by (cases a; cases b) auto
qed simp

lemma strlcpy_sorted: "sorted xs \<Longrightarrow> sorted (map (\<lambda>x. strlcpy x sz) xs)"
  by (induction xs) (auto simp: strlcpy_def take_mono)

end
