(* ===== verification/Image_Index.thy ===== *)
theory Image_Index
  imports Image_Cache Mount_Links App_Db_Titles
begin

text \<open>
  \<^verbatim>\<open>src/sm_image_index.c\<close>: the persistent index of which titles were found inside which image
  file, with the size and time stamp of the image at the time of the scan. It lets a scan
  skip images that have not changed. The index is saved with the stamps of the two
  configuration files and is thrown away when those change.

  The state is the two tables, the flags of the file's static variables and the index file
  itself. The file is a dump of the structures, so it is modelled as the structures it holds,
  with \<open>None\<close> for a part that is cut off. A path field whose bytes have no terminator is a
  string of \<^verbatim>\<open>MAX_PATH\<close> characters. Each public function loads the index first, as in the code.

  Arguments: the operating system \<open>h\<close>, the link files \<open>d\<close>, the image cache \<open>c\<close>, the build time
  string \<open>build\<close> compiled into the program, the failures \<open>f\<close> of a file replacement, and the app.db
  title list as the sorted list it is (so that its binary search is membership). Removing the
  index file when the index is thrown away is taken to succeed.
\<close>

section \<open>State\<close>

record image_index_entry =
  ie_path :: string
  ie_size :: int
  ie_mtime_sec :: int
  ie_mtime_nsec :: int
  ie_complete :: u8
  ie_valid :: u8

record image_index_title =
  it_image_index :: "16 word"
  it_valid :: u8
  it_title_id :: string

record image_index_file_stamp =
  fs_inode :: u64
  fs_size :: int
  fs_mtime_sec :: int
  fs_ctime_sec :: int
  fs_mtime_nsec :: int
  fs_ctime_nsec :: int
  fs_present :: bool

record image_index_context =
  ctx_config :: image_index_file_stamp
  ctx_profiles :: image_index_file_stamp

record image_index_header =
  hd_magic :: u32
  hd_version :: u32
  hd_entry_capacity :: u32
  hd_title_capacity :: u32
  hd_build_time :: string
  hd_context :: image_index_context

datatype index_file = NoFile
  | IndexFile "image_index_header option" "(image_index_entry list \<times> image_index_title list) option"

record image_index =
  idx_entries :: "image_index_entry list"
  idx_titles :: "image_index_title list"
  idx_loaded :: bool
  idx_dirty :: bool
  idx_context_valid :: bool
  idx_context :: image_index_context
  idx_file :: index_file

definition blank_index_entry :: image_index_entry where
  "blank_index_entry = \<lparr>ie_path = [], ie_size = 0, ie_mtime_sec = 0, ie_mtime_nsec = 0, ie_complete = 0, ie_valid = 0\<rparr>"

definition blank_index_title :: image_index_title where
  "blank_index_title = \<lparr>it_image_index = 0, it_valid = 0, it_title_id = []\<rparr>"

definition blank_stamp :: image_index_file_stamp where
  "blank_stamp = \<lparr>fs_inode = 0, fs_size = 0, fs_mtime_sec = 0, fs_ctime_sec = 0, fs_mtime_nsec = 0,
     fs_ctime_nsec = 0, fs_present = False\<rparr>"

definition image_index_start :: "index_file \<Rightarrow> image_index" where
  "image_index_start file = \<lparr>idx_entries = replicate MAX_IMAGE_MOUNTS blank_index_entry,
     idx_titles = replicate MAX_IMAGE_TITLES blank_index_title, idx_loaded = False, idx_dirty = False,
     idx_context_valid = False, idx_context = \<lparr>ctx_config = blank_stamp, ctx_profiles = blank_stamp\<rparr>,
     idx_file = file\<rparr>"

definition IMAGE_INDEX_MAGIC :: u32 where "IMAGE_INDEX_MAGIC = 0x58444953"
definition IMAGE_INDEX_VERSION :: u32 where "IMAGE_INDEX_VERSION = 5"
abbreviation IMAGE_INDEX_BUILD_TIME_LENGTH :: nat where "IMAGE_INDEX_BUILD_TIME_LENGTH \<equiv> 24"

section \<open>The configuration stamps\<close>

definition read_file_stamp :: "host \<Rightarrow> string \<Rightarrow> bool \<times> image_index_file_stamp" where
  "read_file_stamp h p =
     (case h_stat h p of
        Inl e \<Rightarrow> (e = ENOENT, blank_stamp)
      | Inr st \<Rightarrow> (True, \<lparr>fs_inode = st_ino st, fs_size = st_size st, fs_mtime_sec = st_mtime st,
          fs_ctime_sec = st_ctime st, fs_mtime_nsec = st_mtime_nsec st, fs_ctime_nsec = st_ctime_nsec st,
          fs_present = True\<rparr>))"

definition read_index_context :: "host \<Rightarrow> bool \<times> image_index_context" where
  "read_index_context h =
     (let (config_ready, config) = read_file_stamp h CONFIG_FILE;
          (profiles_ready, profiles) = read_file_stamp h PROFILES_FILE
      in (config_ready \<and> profiles_ready, \<lparr>ctx_config = config, ctx_profiles = profiles\<rparr>))"

definition file_stamp_equals :: "image_index_file_stamp \<Rightarrow> image_index_file_stamp \<Rightarrow> bool" where
  "file_stamp_equals a b \<longleftrightarrow>
     fs_present a = fs_present b \<and> fs_inode a = fs_inode b \<and> fs_size a = fs_size b
     \<and> fs_mtime_sec a = fs_mtime_sec b \<and> fs_mtime_nsec a = fs_mtime_nsec b
     \<and> fs_ctime_sec a = fs_ctime_sec b \<and> fs_ctime_nsec a = fs_ctime_nsec b"

definition clear_index :: "image_index \<Rightarrow> image_index" where
  "clear_index s = s\<lparr>idx_entries := replicate MAX_IMAGE_MOUNTS blank_index_entry,
     idx_titles := replicate MAX_IMAGE_TITLES blank_index_title, idx_dirty := False\<rparr>"

definition discard_index :: "image_index \<Rightarrow> image_index" where
  "discard_index s = (clear_index s)\<lparr>idx_file := NoFile\<rparr>"

definition refresh_index_context :: "host \<Rightarrow> image_index \<Rightarrow> bool \<times> image_index" where
  "refresh_index_context h s =
     (let (ready, ctx) = read_index_context h in
      if \<not> ready then (False, (discard_index s)\<lparr>idx_context_valid := False\<rparr>)
      else if idx_context_valid s \<and> file_stamp_equals (ctx_config (idx_context s)) (ctx_config ctx)
              \<and> file_stamp_equals (ctx_profiles (idx_context s)) (ctx_profiles ctx)
      then (True, s)
      else (True, (discard_index s)\<lparr>idx_context := ctx, idx_context_valid := True\<rparr>))"

section \<open>Entries and titles\<close>

definition stamp_matches :: "image_index_entry \<Rightarrow> stat_buf \<Rightarrow> bool" where
  "stamp_matches e st \<longleftrightarrow>
     ie_size e = st_size st \<and> ie_mtime_sec e = st_mtime st \<and> ie_mtime_nsec e = st_mtime_nsec st"

definition find_entry :: "image_index \<Rightarrow> string \<Rightarrow> nat option" where
  "find_entry s p = find_index (\<lambda>e. ie_valid e \<noteq> 0 \<and> ie_path e = p) (idx_entries s)"

definition entry_title :: "nat \<Rightarrow> image_index_title \<Rightarrow> bool" where
  "entry_title entry_index t \<longleftrightarrow> it_valid t \<noteq> 0 \<and> it_image_index t = of_nat entry_index"

definition clear_entry_titles :: "nat \<Rightarrow> image_index \<Rightarrow> image_index" where
  "clear_entry_titles entry_index s =
     s\<lparr>idx_titles := map (\<lambda>t. if entry_title entry_index t then blank_index_title else t) (idx_titles s)\<rparr>"

definition clear_entry :: "nat \<Rightarrow> image_index \<Rightarrow> image_index" where
  "clear_entry entry_index s =
     (let s1 = clear_entry_titles entry_index s
      in s1\<lparr>idx_entries := (idx_entries s1)[entry_index := blank_index_entry], idx_dirty := True\<rparr>)"

definition index_header :: "string \<Rightarrow> image_index \<Rightarrow> image_index_header" where
  "index_header build s = \<lparr>hd_magic = IMAGE_INDEX_MAGIC, hd_version = IMAGE_INDEX_VERSION,
     hd_entry_capacity = of_nat MAX_IMAGE_MOUNTS, hd_title_capacity = of_nat MAX_IMAGE_TITLES,
     hd_build_time = strlcpy build IMAGE_INDEX_BUILD_TIME_LENGTH, hd_context = idx_context s\<rparr>"

definition save_index :: "io \<Rightarrow> string \<Rightarrow> image_index \<Rightarrow> bool \<times> image_index" where
  "save_index f build s =
     (if \<not> idx_dirty s then (True, s)
      else if io_open f \<noteq> None \<or> io_write f \<noteq> None \<or> io_rename f \<noteq> None then (False, s)
      else (True, s\<lparr>idx_file := IndexFile (Some (index_header build s)) (Some (idx_entries s, idx_titles s)),
                    idx_dirty := False\<rparr>))"

section \<open>Loading\<close>

definition loaded_entry_ok :: "image_index_entry \<Rightarrow> bool" where
  "loaded_entry_ok e \<longleftrightarrow> ie_valid e \<noteq> 0 \<longrightarrow> ie_complete e \<le> 1 \<and> ie_path e \<noteq> [] \<and> length (ie_path e) < MAX_PATH"

definition loaded_title_ok :: "image_index_entry list \<Rightarrow> image_index_title \<Rightarrow> bool" where
  "loaded_title_ok es t \<longleftrightarrow> it_valid t \<noteq> 0 \<longrightarrow>
     unat (it_image_index t) < MAX_IMAGE_MOUNTS \<and> ie_valid (es ! unat (it_image_index t)) \<noteq> 0
     \<and> it_title_id t \<noteq> [] \<and> length (it_title_id t) < MAX_TITLE_ID"

definition loaded_index_is_valid :: "image_index_entry list \<Rightarrow> image_index_title list \<Rightarrow> bool" where
  "loaded_index_is_valid es ts \<longleftrightarrow> list_all loaded_entry_ok es \<and> list_all (loaded_title_ok es) ts"

definition index_header_invalid_reason :: "string \<Rightarrow> image_index \<Rightarrow> image_index_header \<Rightarrow> string option" where
  "index_header_invalid_reason build s header =
     (if hd_magic header \<noteq> IMAGE_INDEX_MAGIC \<or> hd_version header \<noteq> IMAGE_INDEX_VERSION
         \<or> hd_entry_capacity header \<noteq> of_nat MAX_IMAGE_MOUNTS \<or> hd_title_capacity header \<noteq> of_nat MAX_IMAGE_TITLES
      then Some ''cache format changed''
      else if take IMAGE_INDEX_BUILD_TIME_LENGTH (hd_build_time header) \<noteq> take IMAGE_INDEX_BUILD_TIME_LENGTH build
      then Some ''ShadowMount+ build changed''
      else if \<not> idx_context_valid s then Some ''configuration stamp unavailable''
      else if \<not> file_stamp_equals (ctx_config (hd_context header)) (ctx_config (idx_context s))
      then Some ''config.ini changed''
      else if \<not> file_stamp_equals (ctx_profiles (hd_context header)) (ctx_profiles (idx_context s))
      then Some ''profiles.ini changed''
      else None)"

text \<open>Reading the index file once the context is known.\<close>

definition load_index_file :: "string \<Rightarrow> image_index \<Rightarrow> image_index" where
  "load_index_file build s =
     (case idx_file s of
        NoFile \<Rightarrow> s
      | IndexFile None _ \<Rightarrow> discard_index s
      | IndexFile (Some header) body \<Rightarrow>
          (if index_header_invalid_reason build s header \<noteq> None then discard_index s
           else
             (case body of
                None \<Rightarrow> discard_index s
              | Some (es, ts) \<Rightarrow>
                  (if loaded_index_is_valid es ts then s\<lparr>idx_entries := es, idx_titles := ts\<rparr>
                   else discard_index s))))"

definition load_index :: "host \<Rightarrow> string \<Rightarrow> image_index \<Rightarrow> image_index" where
  "load_index h build s =
     (if idx_loaded s then s
      else load_index_file build (s\<lparr>idx_loaded := True, idx_context_valid := fst (read_index_context h),
             idx_context := snd (read_index_context h)\<rparr>))"

section \<open>Scanning\<close>

definition reserve_entry :: "image_index \<Rightarrow> string \<Rightarrow> (nat \<times> image_index) option" where
  "reserve_entry s p =
     (case find_entry s p of
        Some k \<Rightarrow> Some (k, s)
      | None \<Rightarrow>
          (case find_index (\<lambda>e. ie_valid e = 0) (idx_entries s) of
             None \<Rightarrow> None
           | Some k \<Rightarrow> Some (k, s\<lparr>idx_entries := (idx_entries s)[k := (idx_entries s ! k)\<lparr>ie_valid := 1,
                            ie_path := strlcpy p MAX_PATH\<rparr>]\<rparr>)))"

definition begin_scan_locked :: "image_index \<Rightarrow> string \<Rightarrow> stat_buf \<Rightarrow> image_index" where
  "begin_scan_locked s p st =
     (case reserve_entry s p of
        None \<Rightarrow> s
      | Some (k, s1) \<Rightarrow>
          (let s2 = clear_entry_titles k s1
           in s2\<lparr>idx_entries := (idx_entries s2)[k := (idx_entries s2 ! k)\<lparr>ie_size := st_size st,
                  ie_mtime_sec := st_mtime st, ie_mtime_nsec := st_mtime_nsec st, ie_complete := 0,
                  ie_valid := 1\<rparr>], idx_dirty := True\<rparr>))"

definition indexed_source_has_title :: "host \<Rightarrow> image_index \<Rightarrow> string \<Rightarrow> string \<Rightarrow> bool" where
  "indexed_source_has_title h s p title_id =
     (case find_entry s p of
        None \<Rightarrow> False
      | Some k \<Rightarrow>
          (if ie_complete (idx_entries s ! k) = 0 then False
           else if list_ex (\<lambda>t. entry_title k t \<and> it_title_id t = title_id) (idx_titles s)
           then (case h_stat h p of
                   Inl _ \<Rightarrow> False
                 | Inr st \<Rightarrow> st_mode st = S_REG \<and> stamp_matches (idx_entries s ! k) st)
           else False))"

definition sm_image_index_source_has_title ::
  "host \<Rightarrow> string \<Rightarrow> image_index \<Rightarrow> string \<Rightarrow> string \<Rightarrow> bool \<times> image_index" where
  "sm_image_index_source_has_title h build s p title_id =
     (if p = [] \<or> title_id = [] then (False, s)
      else (let s1 = load_index h build s in (indexed_source_has_title h s1 p title_id, s1)))"

definition cached_title_ready ::
  "host \<Rightarrow> disk \<Rightarrow> string list \<Rightarrow> bool \<Rightarrow> image_index \<Rightarrow> string \<Rightarrow> string \<Rightarrow> bool" where
  "cached_title_ready h d app_db_titles app_db_titles_ready s image_path title_id =
     (if (app_db_titles_ready \<and> \<not> app_db_title_list_contains app_db_titles title_id)
         \<or> \<not> is_installed h title_id \<or> \<not> has_appmeta_data h title_id then False
      else
        (case read_mount_link d title_id MAX_PATH of
           None \<Rightarrow> False
         | Some runtime_path \<Rightarrow>
             is_under_image_mount_base runtime_path
             \<and> (case read_mount_image_link d title_id MAX_PATH of
                  None \<Rightarrow> False
                | Some linked_image \<Rightarrow>
                    linked_image = image_path \<or> indexed_source_has_title h s linked_image title_id)))"

definition cached_titles_ready ::
  "host \<Rightarrow> disk \<Rightarrow> string list \<Rightarrow> bool \<Rightarrow> image_index \<Rightarrow> nat \<Rightarrow> bool" where
  "cached_titles_ready h d app_db_titles app_db_titles_ready s k =
     list_all (\<lambda>t. entry_title k t \<longrightarrow>
         cached_title_ready h d app_db_titles app_db_titles_ready s (ie_path (idx_entries s ! k)) (it_title_id t))
       (idx_titles s)"

text \<open>The titles handed to the visitor, in table order, when the image needs no scan.\<close>

definition sm_image_index_visit_ready_titles ::
  "host \<Rightarrow> disk \<Rightarrow> string \<Rightarrow> bool \<Rightarrow> image_index \<Rightarrow> string \<Rightarrow> stat_buf \<Rightarrow> string list \<Rightarrow> bool
   \<Rightarrow> string list option \<times> image_index" where
  "sm_image_index_visit_ready_titles h d build alloc_ok s p st app_db_titles app_db_titles_ready =
     (let s1 = load_index h build s in
      case find_entry s1 p of
        None \<Rightarrow> (None, s1)
      | Some k \<Rightarrow>
          (if ie_complete (idx_entries s1 ! k) \<noteq> 0 \<and> stamp_matches (idx_entries s1 ! k) st
              \<and> cached_titles_ready h d app_db_titles app_db_titles_ready s1 k
           then
             (let titles = map (\<lambda>t. strlcpy (it_title_id t) MAX_TITLE_ID) (filter (entry_title k) (idx_titles s1))
              in if titles \<noteq> [] \<and> \<not> alloc_ok then (None, s1) else (Some titles, s1))
           else (None, s1)))"

definition sm_image_index_has_source_for_title ::
  "host \<Rightarrow> string \<Rightarrow> image_index \<Rightarrow> string \<Rightarrow> bool \<times> image_index" where
  "sm_image_index_has_source_for_title h build s title_id =
     (if title_id = [] then (False, s)
      else
        (let s1 = load_index h build s in
         (case find (\<lambda>t. it_valid t \<noteq> 0 \<and> it_title_id t = title_id) (idx_titles s1) of
            None \<Rightarrow> False
          | Some t \<Rightarrow>
              (let e = idx_entries s1 ! unat (it_image_index t)
               in ie_valid e \<noteq> 0 \<and> path_exists h (ie_path e)), s1)))"

definition sm_image_index_begin_scan :: "host \<Rightarrow> string \<Rightarrow> image_index \<Rightarrow> string \<Rightarrow> stat_buf \<Rightarrow> image_index" where
  "sm_image_index_begin_scan h build s p st = begin_scan_locked (load_index h build s) p st"

definition add_index_title :: "image_index \<Rightarrow> nat \<Rightarrow> string \<Rightarrow> bool \<times> image_index" where
  "add_index_title s k title_id =
     (if list_ex (\<lambda>t. entry_title k t \<and> it_title_id t = title_id) (idx_titles s) then (True, s)
      else
        (case find_index (\<lambda>t. it_valid t = 0) (idx_titles s) of
           None \<Rightarrow> (False, s)
         | Some i \<Rightarrow> (True, s\<lparr>idx_titles := (idx_titles s)[i := (idx_titles s ! i)\<lparr>it_valid := 1,
              it_image_index := of_nat k, it_title_id := strlcpy title_id MAX_TITLE_ID\<rparr>], idx_dirty := True\<rparr>)))"

definition repair_image_link :: "host \<Rightarrow> io \<Rightarrow> disk \<Rightarrow> string \<Rightarrow> string \<Rightarrow> string \<Rightarrow> disk" where
  "repair_image_link h f d game_path image_path title_id =
     (if is_installed h title_id \<and> read_mount_link d title_id MAX_PATH = Some game_path
         \<and> read_mount_image_link d title_id MAX_PATH \<noteq> Some image_path
      then snd (write_mount_image_link f title_id image_path d) else d)"

definition sm_image_index_record_game ::
  "host \<Rightarrow> io \<Rightarrow> string \<Rightarrow> image_cache \<Rightarrow> disk \<Rightarrow> image_index \<Rightarrow> string \<Rightarrow> string \<Rightarrow> bool \<times> image_index \<times> disk" where
  "sm_image_index_record_game h f build c d s game_path title_id =
     (let s1 = load_index h build s in
      case resolve_outermost_image_source_from_mount_cache c game_path MAX_PATH of
        None \<Rightarrow> (True, s1, d)
      | Some image_path \<Rightarrow>
          (let s2 = (case find_entry s1 image_path of
                       Some _ \<Rightarrow> s1
                     | None \<Rightarrow> (case h_stat h image_path of
                                   Inl _ \<Rightarrow> s1
                                 | Inr st \<Rightarrow> begin_scan_locked s1 image_path st))
           in case find_entry s2 image_path of
                None \<Rightarrow> (False, s2, d)
              | Some k \<Rightarrow>
                  (let d1 = repair_image_link h f d game_path image_path title_id;
                       (ok, s3) = add_index_title s2 k title_id
                   in (ok, s3, d1))))"

definition sm_image_index_complete_scan :: "host \<Rightarrow> string \<Rightarrow> image_index \<Rightarrow> string \<Rightarrow> image_index" where
  "sm_image_index_complete_scan h build s p =
     (let s1 = load_index h build s in
      case find_entry s1 p of
        None \<Rightarrow> s1
      | Some k \<Rightarrow>
          (if ie_complete (idx_entries s1 ! k) = 0
           then s1\<lparr>idx_entries := (idx_entries s1)[k := (idx_entries s1 ! k)\<lparr>ie_complete := 1\<rparr>], idx_dirty := True\<rparr>
           else s1))"

definition sm_image_index_flush :: "host \<Rightarrow> io \<Rightarrow> string \<Rightarrow> image_index \<Rightarrow> image_index" where
  "sm_image_index_flush h f build s =
     (let (ready, s1) = refresh_index_context h (load_index h build s)
      in if ready then snd (save_index f build s1) else s1)"

definition prune_step :: "host \<Rightarrow> nat \<Rightarrow> image_index \<Rightarrow> image_index" where
  "prune_step h i s =
     (if ie_valid (idx_entries s ! i) \<noteq> 0 \<and> h_stat h (ie_path (idx_entries s ! i)) = Inl ENOENT
      then clear_entry i s else s)"

definition sm_image_index_prune :: "host \<Rightarrow> io \<Rightarrow> string \<Rightarrow> image_index \<Rightarrow> image_index" where
  "sm_image_index_prune h f build s =
     (let (ready, s1) = refresh_index_context h (load_index h build s);
          s2 = fold (prune_step h) [0..<MAX_IMAGE_MOUNTS] s1
      in if ready then snd (save_index f build s2) else s2)"

record image_index_snapshot_entry =
  se_path :: string
  se_size :: int
  se_mtime_sec :: int
  se_mtime_nsec :: int
  se_complete :: bool

definition sm_image_index_snapshot ::
  "host \<Rightarrow> string \<Rightarrow> bool \<Rightarrow> image_index \<Rightarrow> image_index_snapshot_entry list option \<times> image_index" where
  "sm_image_index_snapshot h build alloc_ok s =
     (let s1 = load_index h build s;
          es = filter (\<lambda>e. ie_valid e \<noteq> 0) (idx_entries s1)
      in if es \<noteq> [] \<and> \<not> alloc_ok then (None, s1)
         else (Some (map (\<lambda>e. \<lparr>se_path = strlcpy (ie_path e) MAX_PATH, se_size = ie_size e,
                 se_mtime_sec = ie_mtime_sec e, se_mtime_nsec = ie_mtime_nsec e,
                 se_complete = (ie_complete e \<noteq> 0)\<rparr>) es), s1))"

section \<open>Invariant of the tables\<close>

abbreviation entry_used :: "image_index_entry \<Rightarrow> bool" where
  "entry_used e \<equiv> ie_valid e \<noteq> 0"

abbreviation title_used :: "image_index_title \<Rightarrow> bool" where
  "title_used t \<equiv> it_valid t \<noteq> 0"

abbreviation title_place :: "image_index_title \<Rightarrow> 16 word \<times> string" where
  "title_place t \<equiv> (it_image_index t, it_title_id t)"

definition tables_unique :: "image_index_entry list \<Rightarrow> image_index_title list \<Rightarrow> bool" where
  "tables_unique es ts \<longleftrightarrow> keys_distinct entry_used ie_path es \<and> keys_distinct title_used title_place ts"

text \<open>Loading does not look for duplicates, so uniqueness is part of the invariant only under the flag
  \<open>u\<close>: the index file the process found had none.\<close>

definition body_ok :: "bool \<Rightarrow> image_index_entry list \<Rightarrow> image_index_title list \<Rightarrow> bool" where
  "body_ok u es ts \<longleftrightarrow>
     length es = MAX_IMAGE_MOUNTS \<and> length ts = MAX_IMAGE_TITLES
     \<and> loaded_index_is_valid es ts
     \<and> (u \<longrightarrow> tables_unique es ts)"

lemma blank_index_unused [simp]: "ie_valid blank_index_entry = 0" "it_valid blank_index_title = 0"
  by (simp_all add: blank_index_entry_def blank_index_title_def)

lemma body_ok_blank: "body_ok u (replicate MAX_IMAGE_MOUNTS blank_index_entry) (replicate MAX_IMAGE_TITLES blank_index_title)"
  by (simp add: body_ok_def tables_unique_def loaded_index_is_valid_def loaded_entry_ok_def loaded_title_ok_def list_all_iff)

lemma unat_index: "k < MAX_IMAGE_MOUNTS \<Longrightarrow> unat (of_nat k :: 16 word) = k"
  by (simp add: unat_of_nat take_bit_nat_eq_self)

lemma list_all_update: "list_all P xs \<Longrightarrow> P x \<Longrightarrow> list_all P (xs[k := x])"
  using set_update_subset_insert [of xs k x] by (auto simp: list_all_iff)

lemma body_ok_title:
  assumes "body_ok u es ts" and "t \<in> set ts" and "title_used t"
  shows "unat (it_image_index t) < MAX_IMAGE_MOUNTS" and "entry_used (es ! unat (it_image_index t))"
    and "it_title_id t \<noteq> []" and "length (it_title_id t) < MAX_TITLE_ID"
  using assms by (auto simp: body_ok_def loaded_index_is_valid_def loaded_title_ok_def list_all_iff)

lemma body_ok_entry:
  assumes "body_ok u es ts" and "k < MAX_IMAGE_MOUNTS" and "entry_used (es ! k)"
  shows "ie_path (es ! k) \<noteq> []" and "length (ie_path (es ! k)) < MAX_PATH" and "ie_complete (es ! k) \<le> 1"
  using assms by (auto simp: body_ok_def loaded_index_is_valid_def loaded_entry_ok_def list_all_length)

lemma body_ok_set_entry:
  assumes ok: "body_ok u es ts" and e: "loaded_entry_ok e" "entry_used e" and k: "k < MAX_IMAGE_MOUNTS"
    and fresh: "\<And>j. u \<Longrightarrow> j < MAX_IMAGE_MOUNTS \<Longrightarrow> j \<noteq> k \<Longrightarrow> entry_used (es ! j) \<Longrightarrow> ie_path (es ! j) \<noteq> ie_path e"
  shows "body_ok u (es[k := e]) ts"
proof -
  have len: "length es = MAX_IMAGE_MOUNTS" using ok by (simp add: body_ok_def)
  have "list_all loaded_entry_ok (es[k := e])"
    using ok e by (intro list_all_update) (simp_all add: body_ok_def loaded_index_is_valid_def)
  moreover have "list_all (loaded_title_ok (es[k := e])) ts"
    using ok e k len by (auto simp: body_ok_def loaded_index_is_valid_def list_all_iff loaded_title_ok_def nth_list_update)
  moreover have "keys_distinct entry_used ie_path (es[k := e])" if u
    using ok fresh len that by (intro keys_distinct_update) (simp_all add: body_ok_def tables_unique_def)
  ultimately show ?thesis using ok by (simp add: body_ok_def tables_unique_def loaded_index_is_valid_def)
qed

abbreviation without_titles :: "nat \<Rightarrow> image_index_title list \<Rightarrow> image_index_title list" where
  "without_titles k ts \<equiv> map (\<lambda>t. if entry_title k t then blank_index_title else t) ts"

lemma body_ok_without_titles:
  assumes "body_ok u es ts"
  shows "body_ok u es (without_titles k ts)"
proof -
  have "list_all (loaded_title_ok es) (without_titles k ts)"
    using assms by (auto simp: body_ok_def loaded_index_is_valid_def list_all_iff loaded_title_ok_def)
  moreover have "keys_distinct title_used title_place (without_titles k ts)" if u
    using assms that by (intro keys_distinct_map) (auto simp: body_ok_def tables_unique_def split: if_splits)
  ultimately show ?thesis using assms by (simp add: body_ok_def tables_unique_def loaded_index_is_valid_def)
qed

lemma body_ok_clear_entry:
  assumes "body_ok u es ts" and k: "k < MAX_IMAGE_MOUNTS"
  shows "body_ok u (es[k := blank_index_entry]) (without_titles k ts)"
proof -
  note ok = body_ok_without_titles [OF assms(1), of k]
  have len: "length es = MAX_IMAGE_MOUNTS" using ok by (simp add: body_ok_def)
  have ne: "unat (it_image_index t) \<noteq> k" if t: "t \<in> set (without_titles k ts)" "title_used t" for t
  proof
    assume "unat (it_image_index t) = k"
    then have "it_image_index t = of_nat k" by auto
    then show False using t by (auto simp: entry_title_def)
  qed
  have "list_all loaded_entry_ok (es[k := blank_index_entry])"
    using ok by (intro list_all_update) (simp_all add: body_ok_def loaded_index_is_valid_def loaded_entry_ok_def)
  moreover have "loaded_title_ok (es[k := blank_index_entry]) t" if "t \<in> set (without_titles k ts)" for t
    using body_ok_title [OF ok that] ne [OF that] by (auto simp: loaded_title_ok_def)
  then have "list_all (loaded_title_ok (es[k := blank_index_entry])) (without_titles k ts)"
    by (simp add: list_all_iff del: set_map)
  moreover have "keys_distinct entry_used ie_path (es[k := blank_index_entry])" if u
    using ok that by (intro keys_distinct_update) (simp_all add: body_ok_def tables_unique_def)
  ultimately show ?thesis using ok by (simp add: body_ok_def tables_unique_def loaded_index_is_valid_def)
qed

lemma body_ok_add_title:
  assumes ok: "body_ok u es ts" and t: "loaded_title_ok es t"
    and fresh: "\<And>x. x \<in> set ts \<Longrightarrow> title_used x \<Longrightarrow> title_place x \<noteq> title_place t"
  shows "body_ok u es (ts[i := t])"
proof -
  have "list_all (loaded_title_ok es) (ts[i := t])"
    using ok t by (intro list_all_update) (simp_all add: body_ok_def loaded_index_is_valid_def)
  moreover have "keys_distinct title_used title_place (ts[i := t])" if u
    using ok fresh that by (intro keys_distinct_update) (auto simp: body_ok_def tables_unique_def)
  ultimately show ?thesis using ok by (simp add: body_ok_def tables_unique_def loaded_index_is_valid_def)
qed

section \<open>Invariant of the component\<close>

text \<open>The build time string fits its field, as the code asserts at compile time.\<close>

definition wf_build :: "string \<Rightarrow> bool" where
  "wf_build build \<longleftrightarrow> length build < IMAGE_INDEX_BUILD_TIME_LENGTH"

definition blank_tables :: "image_index \<Rightarrow> bool" where
  "blank_tables s \<longleftrightarrow> idx_entries s = replicate MAX_IMAGE_MOUNTS blank_index_entry
     \<and> idx_titles s = replicate MAX_IMAGE_TITLES blank_index_title"

text \<open>What is taken of an index file: its two arrays have the sizes they are read with, and under
  \<open>u\<close> it lists no image twice and no title twice for one image. Its header, its fields and the
  references of its titles are arbitrary.\<close>

definition file_shaped :: "bool \<Rightarrow> index_file \<Rightarrow> bool" where
  "file_shaped u file =
     (case file of
        IndexFile _ (Some (es, ts)) \<Rightarrow>
          length es = MAX_IMAGE_MOUNTS \<and> length ts = MAX_IMAGE_TITLES \<and> (u \<longrightarrow> tables_unique es ts)
      | _ \<Rightarrow> True)"

text \<open>A clean index is what its file holds, and the file will be accepted again.\<close>

definition file_in_sync :: "string \<Rightarrow> image_index \<Rightarrow> bool" where
  "file_in_sync build s \<longleftrightarrow>
     (case idx_file s of
        NoFile \<Rightarrow> blank_tables s
      | IndexFile (Some header) (Some body) \<Rightarrow>
          body = (idx_entries s, idx_titles s) \<and> index_header_invalid_reason build s header = None
      | _ \<Rightarrow> False)"

definition index_inv :: "bool \<Rightarrow> string \<Rightarrow> image_index \<Rightarrow> bool" where
  "index_inv u build s \<longleftrightarrow>
     body_ok u (idx_entries s) (idx_titles s) \<and> file_shaped u (idx_file s)
     \<and> (idx_loaded s \<and> \<not> idx_dirty s \<longrightarrow> file_in_sync build s)
     \<and> (\<not> idx_loaded s \<longrightarrow> blank_tables s \<and> \<not> idx_dirty s)"

lemma index_inv_body: "index_inv u build s \<Longrightarrow> body_ok u (idx_entries s) (idx_titles s)"
  by (simp add: index_inv_def)

lemma index_inv_start: "file_shaped u file \<Longrightarrow> index_inv u build (image_index_start file)"
  by (simp add: index_inv_def image_index_start_def body_ok_blank blank_tables_def)

lemma discard_fields [simp]:
  "idx_entries (discard_index s) = replicate MAX_IMAGE_MOUNTS blank_index_entry"
  "idx_titles (discard_index s) = replicate MAX_IMAGE_TITLES blank_index_title"
  "idx_file (discard_index s) = NoFile" "idx_dirty (discard_index s) = False"
  "idx_loaded (discard_index s) = idx_loaded s"
  "idx_context_valid (discard_index s) = idx_context_valid s" "idx_context (discard_index s) = idx_context s"
  by (simp_all add: discard_index_def clear_index_def)

lemma blank_inv:
  "idx_entries s = replicate MAX_IMAGE_MOUNTS blank_index_entry \<Longrightarrow> idx_titles s = replicate MAX_IMAGE_TITLES blank_index_title
   \<Longrightarrow> idx_file s = NoFile \<Longrightarrow> \<not> idx_dirty s \<Longrightarrow> index_inv u build s"
  by (simp add: index_inv_def body_ok_blank file_shaped_def file_in_sync_def blank_tables_def)

lemma load_file_loaded [simp]: "idx_loaded (load_index_file build s) = idx_loaded s"
  by (auto simp: load_index_file_def split: index_file.split option.split)

lemma load_loaded [simp]: "idx_loaded (load_index h build s)"
  by (simp add: load_index_def)

lemma load_idem: "idx_loaded s \<Longrightarrow> load_index h build s = s"
  by (simp add: load_index_def)

lemma header_reason_cong:
  "idx_context_valid s = idx_context_valid s' \<Longrightarrow> idx_context s = idx_context s'
   \<Longrightarrow> index_header_invalid_reason build s header = index_header_invalid_reason build s' header"
  by (simp only: index_header_invalid_reason_def)

lemma load_inv [inv_intros]:
  assumes inv: "index_inv u build s"
  shows "index_inv u build (load_index h build s)"
proof (cases "idx_loaded s")
  case True
  then show ?thesis using inv by (simp add: load_idem)
next
  case False
  define s1 where "s1 = s\<lparr>idx_loaded := True, idx_context_valid := fst (read_index_context h),
             idx_context := snd (read_index_context h)\<rparr>"
  have blank: "blank_tables s1" "\<not> idx_dirty s1" "file_shaped u (idx_file s1)"
    using inv False by (simp_all add: index_inv_def s1_def blank_tables_def)
  have d: "index_inv u build (discard_index s1)" by (rule blank_inv) simp_all
  have "index_inv u build (load_index_file build s1)"
  proof (cases "idx_file s1")
    case NoFile
    then show ?thesis using blank by (auto simp: load_index_file_def blank_tables_def intro: blank_inv)
  next
    case (IndexFile ho body)
    have acc: "index_inv u build (s1\<lparr>idx_entries := es, idx_titles := ts\<rparr>)"
      if "ho = Some header" "body = Some (es, ts)" "index_header_invalid_reason build s1 header = None"
        "loaded_index_is_valid es ts" for header es ts
      using that blank IndexFile header_reason_cong [of "s1\<lparr>idx_entries := es, idx_titles := ts\<rparr>" s1 build header]
      by (simp add: index_inv_def file_in_sync_def file_shaped_def body_ok_def s1_def)
    show ?thesis
      using IndexFile d acc by (auto simp: load_index_file_def split: option.split)
  qed
  then show ?thesis using False by (simp add: load_index_def s1_def)
qed

lemma refresh_context_ready:
  assumes "refresh_index_context h s = (True, s')"
  shows "idx_context_valid s'"
  using assms by (auto simp: refresh_index_context_def Let_def split: prod.splits if_splits)

lemma refresh_context_shape:
  "refresh_index_context h s = (r, s') \<Longrightarrow>
     s' = s \<or> (idx_entries s' = replicate MAX_IMAGE_MOUNTS blank_index_entry
       \<and> idx_titles s' = replicate MAX_IMAGE_TITLES blank_index_title \<and> idx_file s' = NoFile \<and> \<not> idx_dirty s')"
  "refresh_index_context h s = (r, s') \<Longrightarrow> idx_loaded s' = idx_loaded s"
  by (auto simp: refresh_index_context_def Let_def split: prod.splits if_splits)

lemma refresh_inv [inv_intros]:
  "index_inv u build s \<Longrightarrow> refresh_index_context h s = (r, s') \<Longrightarrow> index_inv u build s'"
  using refresh_context_shape(1) [of h s r s'] blank_inv [of s' u build] by auto

lemma save_cases:
  "snd (save_index f build s) = s
   \<or> snd (save_index f build s) = s\<lparr>idx_file := IndexFile (Some (index_header build s)) (Some (idx_entries s, idx_titles s)),
                    idx_dirty := False\<rparr>"
  by (simp add: save_index_def)

lemma own_header_ok:
  assumes "idx_context_valid s" and "wf_build build" and "idx_context_valid s' = idx_context_valid s"
    and "idx_context s' = idx_context s"
  shows "index_header_invalid_reason build s' (index_header build s) = None"
  using assms by (simp add: index_header_invalid_reason_def index_header_def file_stamp_equals_def wf_build_def strlcpy_id)

lemma save_inv [inv_intros]:
  assumes inv: "index_inv u build s" and "idx_context_valid s" and "wf_build build" and "idx_loaded s"
  shows "index_inv u build (snd (save_index f build s))"
  using save_cases [of f build s]
proof (elim disjE)
  assume "snd (save_index f build s) = s"
  then show ?thesis using inv by simp
next
  let ?s = "s\<lparr>idx_file := IndexFile (Some (index_header build s)) (Some (idx_entries s, idx_titles s)), idx_dirty := False\<rparr>"
  assume "snd (save_index f build s) = ?s"
  moreover have "index_inv u build ?s"
    using assms own_header_ok [of s build ?s] by (simp add: index_inv_def file_in_sync_def file_shaped_def body_ok_def)
  ultimately show ?thesis by simp
qed

lemma dirty_inv:
  assumes "body_ok u (idx_entries s) (idx_titles s)" and "file_shaped u (idx_file s)" and "idx_dirty s" and "idx_loaded s"
  shows "index_inv u build s"
  using assms by (simp add: index_inv_def)

lemma clear_entry_inv [inv_intros]:
  assumes "index_inv u build s" and "k < MAX_IMAGE_MOUNTS" and "idx_loaded s"
  shows "index_inv u build (clear_entry k s)"
  using assms body_ok_clear_entry [of u "idx_entries s" "idx_titles s" k]
  by (intro dirty_inv) (simp_all add: clear_entry_def clear_entry_titles_def index_inv_def Let_def)

lemma find_entry_SomeD:
  assumes "find_entry s p = Some k"
  shows "k < length (idx_entries s)" and "entry_used (idx_entries s ! k)" and "ie_path (idx_entries s ! k) = p"
  using assms by (simp_all add: find_entry_def find_index_Some)

lemma find_entry_eq:
  assumes "body_ok True (idx_entries s) (idx_titles s)" and "k < MAX_IMAGE_MOUNTS" and "entry_used (idx_entries s ! k)"
    and "ie_path (idx_entries s ! k) = p"
  shows "find_entry s p = Some k"
proof -
  have len: "length (idx_entries s) = MAX_IMAGE_MOUNTS" using assms by (simp add: body_ok_def)
  obtain j where j: "find_entry s p = Some j"
    using find_index_ex [of "idx_entries s ! k" "idx_entries s" "\<lambda>e. ie_valid e \<noteq> 0 \<and> ie_path e = p"] assms len
    by (auto simp: find_entry_def)
  moreover have "j = k"
    using find_entry_SomeD [OF j] assms len keys_distinctD [of entry_used ie_path "idx_entries s" j k]
    by (simp add: body_ok_def tables_unique_def)
  ultimately show ?thesis by simp
qed

text \<open>The entry a scan starts on.\<close>

definition scan_entry :: "string \<Rightarrow> stat_buf \<Rightarrow> image_index_entry" where
  "scan_entry p st = \<lparr>ie_path = p, ie_size = st_size st, ie_mtime_sec = st_mtime st,
     ie_mtime_nsec = st_mtime_nsec st, ie_complete = 0, ie_valid = 1\<rparr>"

definition wf_image_path :: "string \<Rightarrow> bool" where
  "wf_image_path p \<longleftrightarrow> p \<noteq> [] \<and> length p < MAX_PATH"

lemma begin_scan_cases:
  assumes "body_ok u (idx_entries s) (idx_titles s)" and "wf_image_path p"
  obtains (full) "begin_scan_locked s p st = s" "find_entry s p = None"
      "find_index (\<lambda>e. ie_valid e = 0) (idx_entries s) = None"
  | (scan) k where "begin_scan_locked s p st = s\<lparr>idx_entries := (idx_entries s)[k := scan_entry p st],
        idx_titles := without_titles k (idx_titles s), idx_dirty := True\<rparr>"
      "k < MAX_IMAGE_MOUNTS"
      "\<And>j. u \<Longrightarrow> j < MAX_IMAGE_MOUNTS \<Longrightarrow> j \<noteq> k \<Longrightarrow> entry_used (idx_entries s ! j) \<Longrightarrow> ie_path (idx_entries s ! j) \<noteq> p"
proof -
  have len: "length (idx_entries s) = MAX_IMAGE_MOUNTS" using assms by (simp add: body_ok_def)
  have cp: "strlcpy p MAX_PATH = p" using assms by (simp add: wf_image_path_def strlcpy_id)
  have eq: "find_entry s p = Some j"
    if "u" "j < MAX_IMAGE_MOUNTS" "entry_used (idx_entries s ! j)" "ie_path (idx_entries s ! j) = p" for j
    using find_entry_eq [of s j p] assms(1) that by simp
  show thesis
  proof (cases "find_entry s p")
    case (Some k)
    have e: "(idx_entries s ! k)\<lparr>ie_size := st_size st, ie_mtime_sec := st_mtime st,
        ie_mtime_nsec := st_mtime_nsec st, ie_complete := 0, ie_valid := 1\<rparr> = scan_entry p st"
      using find_entry_SomeD(3) [OF Some] by (simp add: scan_entry_def)
    show thesis
      using Some e find_entry_SomeD(1) [OF Some] len eq
      by (intro scan [of k])
        (auto simp: begin_scan_locked_def reserve_entry_def clear_entry_titles_def Let_def)
  next
    case None
    show thesis
    proof (cases "find_index (\<lambda>e. ie_valid e = 0) (idx_entries s)")
      case free: (Some k)
      have "k < MAX_IMAGE_MOUNTS" using find_index_SomeD(1) [OF free] len by simp
      have e: "(idx_entries s ! k)\<lparr>ie_path := p, ie_size := st_size st, ie_mtime_sec := st_mtime st,
          ie_mtime_nsec := st_mtime_nsec st, ie_complete := 0, ie_valid := 1\<rparr> = scan_entry p st"
        by (simp add: scan_entry_def)
      have "begin_scan_locked s p st = s\<lparr>idx_entries := (idx_entries s)[k := scan_entry p st],
          idx_titles := without_titles k (idx_titles s), idx_dirty := True\<rparr>"
        using None free \<open>k < MAX_IMAGE_MOUNTS\<close> len e
        by (simp add: begin_scan_locked_def reserve_entry_def clear_entry_titles_def Let_def cp)
      then show thesis
        using scan [of k] eq None \<open>k < MAX_IMAGE_MOUNTS\<close> by fastforce
    next
      case nofree: None
      then show thesis
        using None by (intro full) (simp_all add: begin_scan_locked_def reserve_entry_def)
    qed
  qed
qed

lemma begin_scan_inv [inv_intros]:
  assumes inv: "index_inv u build s" and wf: "wf_image_path p" and l: "idx_loaded s"
  shows "index_inv u build (begin_scan_locked s p st)"
proof (cases rule: begin_scan_cases [OF index_inv_body [OF inv] wf, of st])
  case 1
  then show ?thesis using inv by simp
next
  case (2 k)
  have "body_ok u ((idx_entries s)[k := scan_entry p st]) (without_titles k (idx_titles s))"
    using body_ok_without_titles [OF index_inv_body [OF inv], of k] 2 wf
    by (intro body_ok_set_entry) (auto simp: scan_entry_def loaded_entry_ok_def wf_image_path_def)
  then show ?thesis using 2 inv l by (intro dirty_inv) (simp_all add: index_inv_def)
qed

lemma begin_scan_loaded [simp]: "idx_loaded (begin_scan_locked s p st) = idx_loaded s"
  by (auto simp: begin_scan_locked_def reserve_entry_def clear_entry_titles_def Let_def split: option.splits)

lemma add_title_loaded: "add_index_title s k t = (ok, s') \<Longrightarrow> idx_loaded s' = idx_loaded s"
  by (auto simp: add_index_title_def split: if_splits option.splits)

definition wf_index_title :: "string \<Rightarrow> bool" where
  "wf_index_title t \<longleftrightarrow> t \<noteq> [] \<and> length t < MAX_TITLE_ID"

lemma add_title_inv [inv_intros]:
  assumes inv: "index_inv u build s" and l: "idx_loaded s" and k: "k < MAX_IMAGE_MOUNTS" "entry_used (idx_entries s ! k)"
    and t: "wf_index_title t" and a: "add_index_title s k t = (ok, s')"
  shows "index_inv u build s'"
proof (cases "list_ex (\<lambda>x. entry_title k x \<and> it_title_id x = t) (idx_titles s)
    \<or> find_index (\<lambda>x. it_valid x = 0) (idx_titles s) = None")
  case True
  then have "s' = s" using a by (auto simp: add_index_title_def split: if_splits option.splits)
  then show ?thesis using inv by simp
next
  case False
  then obtain i where i: "find_index (\<lambda>x. it_valid x = 0) (idx_titles s) = Some i" by blast
  let ?t = "(idx_titles s ! i)\<lparr>it_valid := 1, it_image_index := of_nat k, it_title_id := strlcpy t MAX_TITLE_ID\<rparr>"
  have s': "s' = s\<lparr>idx_titles := (idx_titles s)[i := ?t], idx_dirty := True\<rparr>"
    using a False i by (simp add: add_index_title_def)
  have "body_ok u (idx_entries s) ((idx_titles s)[i := ?t])"
  proof (rule body_ok_add_title [OF index_inv_body [OF inv]])
    show "loaded_title_ok (idx_entries s) ?t"
      using k t unat_index [OF k(1)] by (simp add: loaded_title_ok_def wf_index_title_def strlcpy_id)
    fix x
    assume "x \<in> set (idx_titles s)" "title_used x"
    then show "title_place x \<noteq> title_place ?t"
      using False t by (auto simp: list_ex_iff entry_title_def wf_index_title_def strlcpy_id)
  qed
  then show ?thesis using inv l s' by (intro dirty_inv) (simp_all add: index_inv_def)
qed

lemma add_title_present:
  assumes a: "add_index_title s k t = (True, s')" and t: "wf_index_title t"
  shows "list_ex (\<lambda>x. entry_title k x \<and> it_title_id x = t) (idx_titles s')"
proof (cases "list_ex (\<lambda>x. entry_title k x \<and> it_title_id x = t) (idx_titles s)")
  case True
  then show ?thesis using a by (simp add: add_index_title_def)
next
  case False
  then obtain i where i: "find_index (\<lambda>x. it_valid x = 0) (idx_titles s) = Some i"
    using a by (auto simp: add_index_title_def split: option.splits)
  let ?t = "(idx_titles s ! i)\<lparr>it_valid := 1, it_image_index := of_nat k, it_title_id := strlcpy t MAX_TITLE_ID\<rparr>"
  have "idx_titles s' = (idx_titles s)[i := ?t]" using a False i by (auto simp: add_index_title_def)
  moreover have "?t \<in> set ((idx_titles s)[i := ?t])"
    using find_index_SomeD(1) [OF i] by (simp add: set_update_memI)
  moreover have "entry_title k ?t \<and> it_title_id ?t = t"
    using t by (simp add: entry_title_def wf_index_title_def strlcpy_id)
  ultimately show ?thesis unfolding list_ex_iff by metis
qed

lemma complete_scan_inv [inv_intros]:
  assumes "index_inv u build s"
  shows "index_inv u build (sm_image_index_complete_scan h build s p)"
proof -
  define s1 where "s1 = load_index h build s"
  have inv: "index_inv u build s1" and l: "idx_loaded s1" using load_inv [OF assms] by (simp_all add: s1_def)
  show ?thesis
  proof (cases "find_entry s1 p = None \<or> ie_complete (idx_entries s1 ! the (find_entry s1 p)) \<noteq> 0")
    case True
    then have "sm_image_index_complete_scan h build s p = s1"
      by (auto simp: sm_image_index_complete_scan_def s1_def [symmetric] split: option.split)
    then show ?thesis using inv by simp
  next
    case False
    then obtain k where k: "find_entry s1 p = Some k" "ie_complete (idx_entries s1 ! k) = 0" by auto
    note f = find_entry_SomeD [OF k(1)]
    have K: "k < MAX_IMAGE_MOUNTS" using f index_inv_body [OF inv] by (simp add: body_ok_def)
    have other: "ie_path (idx_entries s1 ! j) \<noteq> p"
      if "u" "j < MAX_IMAGE_MOUNTS" "j \<noteq> k" "entry_used (idx_entries s1 ! j)" for j
      using find_entry_eq [of s1 j p] index_inv_body [OF inv] k(1) that by auto
    have "body_ok u ((idx_entries s1)[k := (idx_entries s1 ! k)\<lparr>ie_complete := 1\<rparr>]) (idx_titles s1)"
      using body_ok_entry [OF index_inv_body [OF inv] K f(2)] f other K
      by (intro body_ok_set_entry index_inv_body [OF inv]) (simp_all add: loaded_entry_ok_def)
    then show ?thesis
      using inv l k by (intro dirty_inv)
        (simp_all add: sm_image_index_complete_scan_def s1_def [symmetric] index_inv_def)
  qed
qed

lemma record_game_inv [inv_intros]:
  assumes inv0: "index_inv u build s" and c: "cache_inv c" and t: "wf_index_title t"
    and r: "sm_image_index_record_game h f build c d s g t = (ok, s', d')"
  shows "index_inv u build s'"
proof -
  define s1 where "s1 = load_index h build s"
  have inv: "index_inv u build s1" and l: "idx_loaded s1" using load_inv [OF inv0] by (simp_all add: s1_def)
  show ?thesis
  proof (cases "resolve_outermost_image_source_from_mount_cache c g MAX_PATH")
    case None
    then show ?thesis using r inv by (simp add: sm_image_index_record_game_def s1_def [symmetric])
  next
    case (Some img)
    have wf: "wf_image_path img" using outermost_wf [OF c Some] by (simp add: wf_image_path_def)
    define s2 where "s2 = (case find_entry s1 img of Some _ \<Rightarrow> s1
       | None \<Rightarrow> (case h_stat h img of Inl _ \<Rightarrow> s1 | Inr st \<Rightarrow> begin_scan_locked s1 img st))"
    have inv2: "index_inv u build s2" and l2: "idx_loaded s2"
      using inv l begin_scan_inv [OF inv wf l] by (auto simp: s2_def split: option.split sum.split)
    show ?thesis
    proof (cases "find_entry s2 img")
      case None
      then show ?thesis using r inv2 Some by (simp add: sm_image_index_record_game_def s1_def [symmetric] s2_def [symmetric])
    next
      case k: (Some k)
      note fk = find_entry_SomeD [OF k]
      have K: "k < MAX_IMAGE_MOUNTS" using fk index_inv_body [OF inv2] by (simp add: body_ok_def)
      have "add_index_title s2 k t = (ok, s')"
        using r Some k by (simp add: sm_image_index_record_game_def s1_def [symmetric] s2_def [symmetric] split: prod.splits)
      then show ?thesis using add_title_inv [OF inv2 l2 K fk(2) t] by simp
    qed
  qed
qed

lemma flush_inv [inv_intros]:
  assumes "index_inv u build s" and "wf_build build"
  shows "index_inv u build (sm_image_index_flush h f build s)"
proof -
  obtain r s1 where s1: "refresh_index_context h (load_index h build s) = (r, s1)"
    by (cases "refresh_index_context h (load_index h build s)")
  have "index_inv u build s1" "idx_loaded s1"
    using refresh_inv [OF load_inv [OF assms(1)] s1] refresh_context_shape(2) [OF s1] by simp_all
  then show ?thesis
    using save_inv [of u build s1 f] refresh_context_ready [of h "load_index h build s" s1] s1 assms(2)
    by (cases r) (auto simp: sm_image_index_flush_def)
qed

lemma clear_entry_loaded [simp]: "idx_loaded (clear_entry k s) = idx_loaded s"
  by (simp add: clear_entry_def clear_entry_titles_def Let_def)

lemma prune_fold_inv:
  assumes "index_inv u build s" and "idx_loaded s" and "list_all (\<lambda>i. i < MAX_IMAGE_MOUNTS) is"
  shows "index_inv u build (fold (prune_step h) is s)" and "idx_loaded (fold (prune_step h) is s)"
    and "idx_context_valid (fold (prune_step h) is s) = idx_context_valid s"
proof -
  have "index_inv u build (fold (prune_step h) is s) \<and> idx_loaded (fold (prune_step h) is s)
      \<and> idx_context_valid (fold (prune_step h) is s) = idx_context_valid s"
    using assms
  proof (induction "is" arbitrary: s)
    case (Cons i "is")
    have "index_inv u build (prune_step h i s)" using Cons.prems by (simp add: prune_step_def clear_entry_inv)
    moreover have "idx_loaded (prune_step h i s)" "idx_context_valid (prune_step h i s) = idx_context_valid s"
      using Cons.prems by (simp_all add: prune_step_def clear_entry_def clear_entry_titles_def Let_def)
    ultimately show ?case using Cons.IH [of "prune_step h i s"] Cons.prems by simp
  qed simp
  then show "index_inv u build (fold (prune_step h) is s)" "idx_loaded (fold (prune_step h) is s)"
    "idx_context_valid (fold (prune_step h) is s) = idx_context_valid s" by simp_all
qed

lemma prune_inv [inv_intros]:
  assumes "index_inv u build s" and "wf_build build"
  shows "index_inv u build (sm_image_index_prune h f build s)"
proof -
  obtain r s1 where s1: "refresh_index_context h (load_index h build s) = (r, s1)"
    by (cases "refresh_index_context h (load_index h build s)")
  have i: "index_inv u build s1" "idx_loaded s1"
    using refresh_inv [OF load_inv [OF assms(1)] s1] refresh_context_shape(2) [OF s1] by simp_all
  note p = prune_fold_inv [OF i, of "[0..<MAX_IMAGE_MOUNTS]" h]
  show ?thesis
    using p save_inv [of u build "fold (prune_step h) [0..<MAX_IMAGE_MOUNTS] s1" f]
      refresh_context_ready [of h "load_index h build s" s1] s1 assms(2)
    by (cases r) (auto simp: sm_image_index_prune_def list_all_iff)
qed

section \<open>Runs\<close>

text \<open>The states a program built at time \<open>build\<close> reaches from the index file it finds. The file may
  hold anything its two arrays can, written by an earlier run or not, damaged or not; with \<open>u\<close> it
  contains no duplicates. The cache the recorder consults is one the image cache can be in.\<close>

inductive index_reach :: "bool \<Rightarrow> string \<Rightarrow> image_index \<Rightarrow> bool" for u build where
  start: "file_shaped u file \<Longrightarrow> index_reach u build (image_index_start file)"
| has_title: "index_reach u build s \<Longrightarrow> index_reach u build (snd (sm_image_index_source_has_title h build s p t))"
| visit: "index_reach u build s \<Longrightarrow> index_reach u build (snd (sm_image_index_visit_ready_titles h d build a s p st l lr))"
| has_source: "index_reach u build s \<Longrightarrow> index_reach u build (snd (sm_image_index_has_source_for_title h build s t))"
| begin_scan: "index_reach u build s \<Longrightarrow> wf_image_path p \<Longrightarrow> index_reach u build (sm_image_index_begin_scan h build s p st)"
| record_game: "index_reach u build s \<Longrightarrow> cache_run n c \<Longrightarrow> wf_index_title t
    \<Longrightarrow> index_reach u build (fst (snd (sm_image_index_record_game h f build c d s g t)))"
| complete_scan: "index_reach u build s \<Longrightarrow> index_reach u build (sm_image_index_complete_scan h build s p)"
| flush: "index_reach u build s \<Longrightarrow> index_reach u build (sm_image_index_flush h f build s)"
| prune: "index_reach u build s \<Longrightarrow> index_reach u build (sm_image_index_prune h f build s)"
| snapshot: "index_reach u build s \<Longrightarrow> index_reach u build (snd (sm_image_index_snapshot h build a s))"

lemma index_reach_inv: "index_reach u build s \<Longrightarrow> wf_build build \<Longrightarrow> index_inv u build s"
proof (induction rule: index_reach.induct)
  case (start x)
  then show ?case using index_inv_start by simp
next
  case (has_title s h p t)
  then show ?case by (simp add: sm_image_index_source_has_title_def Let_def load_inv)
next
  case (visit s h d a p st l lr)
  then show ?case by (auto simp: sm_image_index_visit_ready_titles_def Let_def load_inv split: option.split)
next
  case (has_source s h t)
  then show ?case by (simp add: sm_image_index_has_source_for_title_def Let_def load_inv)
next
  case (begin_scan s p h st)
  then show ?case using load_inv by (auto simp: sm_image_index_begin_scan_def intro!: begin_scan_inv)
next
  case (record_game s n c t h f d g)
  then show ?case
    using record_game_inv [OF _ cache_run_inv, of u build s n c t h f d g] by (cases "sm_image_index_record_game h f build c d s g t") auto
next
  case (complete_scan s h p)
  then show ?case by (simp add: complete_scan_inv)
next
  case (flush s h f)
  then show ?case by (simp add: flush_inv)
next
  case (prune s h f)
  then show ?case by (simp add: prune_inv)
next
  case (snapshot s h a)
  then show ?case by (simp add: sm_image_index_snapshot_def Let_def load_inv)
qed

section \<open>Properties\<close>

text \<open>C14. The index tables stay consistent, whatever file the process found: in every reachable
  state each title in use refers to an image entry that is in range and in use, so that the
  unchecked array access behind a title is safe, and every path and title id in use is a
  non-empty string that ends within its field. Of the file only the sizes of its two arrays are
  taken for granted; that its references are good is what the check after reading establishes. If
  the file lists no image twice and no title twice for one image, neither does any reachable
  state.\<close>

theorem image_index_consistent:
  assumes "index_reach u build s" and "wf_build build"
  shows "list_all (\<lambda>t. it_valid t = 0 \<or> unat (it_image_index t) < MAX_IMAGE_MOUNTS
        \<and> ie_valid (idx_entries s ! unat (it_image_index t)) \<noteq> 0
        \<and> it_title_id t \<noteq> [] \<and> length (it_title_id t) < MAX_TITLE_ID) (idx_titles s)
    \<and> list_all (\<lambda>e. ie_valid e = 0 \<or> ie_path e \<noteq> [] \<and> length (ie_path e) < MAX_PATH) (idx_entries s)
    \<and> length (idx_entries s) = MAX_IMAGE_MOUNTS \<and> length (idx_titles s) = MAX_IMAGE_TITLES
    \<and> (u \<longrightarrow> keys_distinct entry_used ie_path (idx_entries s) \<and> keys_distinct title_used title_place (idx_titles s))"
  using index_inv_body [OF index_reach_inv [OF assms]]
  by (auto simp: list_all_iff body_ok_def tables_unique_def loaded_index_is_valid_def loaded_entry_ok_def loaded_title_ok_def)

text \<open>A damaged file: its header is the one this build writes, but its first title refers to entry
  65535 of the 2048.\<close>

definition damaged_file :: "image_index \<Rightarrow> index_file" where
  "damaged_file s = IndexFile (Some (index_header ''b'' s))
     (Some (replicate MAX_IMAGE_MOUNTS blank_index_entry,
            \<lparr>it_image_index = 65535, it_valid = 1, it_title_id = ''PPSA01234''\<rparr> # replicate (MAX_IMAGE_TITLES - 1) blank_index_title))"

theorem image_index_consistent_witness:
  "list_all (\<lambda>t. it_valid t = 0 \<or> unat (it_image_index t) < MAX_IMAGE_MOUNTS) (idx_titles
     (sm_image_index_begin_scan empty_host ''b'' (image_index_start (damaged_file (image_index_start NoFile)))
        ''/data/a.exfat'' sample_stat))"
proof -
  have "file_shaped False (damaged_file (image_index_start NoFile))" by (simp add: file_shaped_def damaged_file_def)
  from image_index_consistent [OF index_reach.begin_scan [OF index_reach.start [OF this]],
      of "''/data/a.exfat''" "''b''" empty_host sample_stat]
  show ?thesis by (auto simp: wf_image_path_def wf_build_def list_all_iff)
qed

lemma restart_load:
  assumes inv: "index_inv u build s" and l: "idx_loaded s" "\<not> idx_dirty s" "idx_context_valid s"
    and ctx: "read_index_context h = (True, idx_context s)"
  shows "idx_entries (load_index h build (image_index_start (idx_file s))) = idx_entries s
    \<and> idx_titles (load_index h build (image_index_start (idx_file s))) = idx_titles s"
proof -
  have sync: "file_in_sync build s" and ok: "body_ok u (idx_entries s) (idx_titles s)"
    using inv l by (simp_all add: index_inv_def)
  define s1 where "s1 = (image_index_start (idx_file s))\<lparr>idx_loaded := True, idx_context_valid := True, idx_context := idx_context s\<rparr>"
  have cong: "index_header_invalid_reason build s1 header = index_header_invalid_reason build s header" for header
    using l by (intro header_reason_cong) (simp_all add: s1_def)
  have s1: "load_index h build (image_index_start (idx_file s)) = load_index_file build s1"
    using ctx by (simp add: load_index_def s1_def image_index_start_def)
  have f: "idx_file s1 = idx_file s" "blank_tables s1" by (simp_all add: s1_def image_index_start_def blank_tables_def)
  then show ?thesis
    using sync ok unfolding s1 load_index_file_def file_in_sync_def
    by (auto simp: cong body_ok_def blank_tables_def split: index_file.splits option.splits)
qed

text \<open>C15. The index survives a restart: after a flush whose writes succeed, with the configuration
  files readable, a new process of the same build that finds the configuration files unchanged
  loads exactly the tables that were flushed; a process that finds one of them changed starts
  with an empty index.\<close>

theorem image_index_survives_restart:
  assumes r: "index_reach u build s" and b: "wf_build build" and ready: "fst (read_index_context h)"
    and s': "s' = sm_image_index_flush h io_ok build s"
  shows "idx_entries (load_index h build (image_index_start (idx_file s'))) = idx_entries s'
    \<and> idx_titles (load_index h build (image_index_start (idx_file s'))) = idx_titles s'
    \<and> (\<not> file_stamp_equals (ctx_config (snd (read_index_context h))) (ctx_config (snd (read_index_context h')))
       \<or> \<not> file_stamp_equals (ctx_profiles (snd (read_index_context h))) (ctx_profiles (snd (read_index_context h')))
       \<longrightarrow> blank_tables (load_index h' build (image_index_start (idx_file s'))))"
proof -
  note inv0 = index_reach_inv [OF r b]
  define s0 where "s0 = load_index h build s"
  obtain ctx where ctx: "read_index_context h = (True, ctx)" using ready by (cases "read_index_context h") auto
  have "fst (refresh_index_context h s0)" using ctx by (simp add: refresh_index_context_def)
  then obtain s1 where s1: "refresh_index_context h s0 = (True, s1)"
    by (cases "refresh_index_context h s0") auto
  have inv1: "index_inv u build s1" "idx_loaded s1" "idx_context_valid s1"
    using refresh_inv [OF load_inv [OF inv0] s1 [unfolded s0_def]] refresh_context_shape(2) [OF s1]
      refresh_context_ready [OF s1] by (simp_all add: s0_def)
  have same: "file_stamp_equals (ctx_config (idx_context s1)) (ctx_config ctx)"
    "file_stamp_equals (ctx_profiles (idx_context s1)) (ctx_profiles ctx)"
    using s1 ctx by (auto simp: refresh_index_context_def file_stamp_equals_def split: if_splits)
  have ctx1: "idx_context s1 = ctx"
    using same by (auto simp: file_stamp_equals_def intro!: image_index_context.equality image_index_file_stamp.equality)
  have s'1: "s' = snd (save_index io_ok build s1)"
    using s1 by (simp add: s' sm_image_index_flush_def s0_def)
  have inv': "index_inv u build s'" using save_inv [OF inv1(1,3) b inv1(2)] s'1 by simp
  have f': "idx_loaded s'" "\<not> idx_dirty s'" "idx_context_valid s'" "idx_context s' = ctx"
    using inv1 ctx1 by (auto simp: s'1 save_index_def io_ok_def)
  have "blank_tables (load_index h' build (image_index_start (idx_file s')))"
    if "\<not> file_stamp_equals (ctx_config ctx) (ctx_config (snd (read_index_context h')))
       \<or> \<not> file_stamp_equals (ctx_profiles ctx) (ctx_profiles (snd (read_index_context h')))"
  proof (cases "idx_file s'")
    case NoFile
    then show ?thesis by (simp add: load_index_def load_index_file_def image_index_start_def blank_tables_def)
  next
    case (IndexFile ho body)
    then obtain header where ho: "ho = Some header" "index_header_invalid_reason build s' header = None"
      using inv' f' by (auto simp: index_inv_def file_in_sync_def split: option.splits)
    have "file_stamp_equals (ctx_config (hd_context header)) (ctx_config ctx)"
      "file_stamp_equals (ctx_profiles (hd_context header)) (ctx_profiles ctx)"
      using ho f' by (auto simp: index_header_invalid_reason_def split: if_splits)
    then have "hd_context header = ctx"
      by (auto simp: file_stamp_equals_def intro!: image_index_context.equality image_index_file_stamp.equality)
    then have "index_header_invalid_reason build ((image_index_start (idx_file s'))\<lparr>idx_loaded := True,
        idx_context_valid := fst (read_index_context h'), idx_context := snd (read_index_context h')\<rparr>) header \<noteq> None"
      using that by (simp add: index_header_invalid_reason_def)
    then show ?thesis
      using IndexFile ho by (auto simp: load_index_def load_index_file_def image_index_start_def blank_tables_def)
  qed
  then show ?thesis using restart_load [OF inv' f'(1-3)] f'(4) ctx by simp
qed

lemma sample_context: "fst (read_index_context empty_host)"
  by (simp add: read_index_context_def read_file_stamp_def empty_host_def)

theorem image_index_survives_restart_witness:
  "idx_entries (load_index empty_host ''b'' (image_index_start (idx_file
       (sm_image_index_flush empty_host io_ok ''b'' (sm_image_index_begin_scan empty_host ''b'' (image_index_start NoFile) ''/data/a.exfat'' sample_stat)))))
   = idx_entries (sm_image_index_flush empty_host io_ok ''b'' (sm_image_index_begin_scan empty_host ''b'' (image_index_start NoFile) ''/data/a.exfat'' sample_stat))"
  using image_index_survives_restart [OF index_reach.begin_scan [OF index_reach.start] _ sample_context refl,
      of True NoFile "''/data/a.exfat''" "''b''" empty_host sample_stat empty_host]
  by (simp add: file_shaped_def wf_image_path_def wf_build_def)

text \<open>C35. A scanned image answers for its titles, and only while it is unchanged: a title recorded
  between the start and the end of an image's scan is reported for that image exactly when the image
  is still a regular file with the size and modification time it had when the scan began. The index
  file the process started from is arbitrary but for duplicates.\<close>

theorem scanned_image_answers_titles:
  assumes r: "index_reach True build s" and b: "wf_build build" and img: "wf_image_path img" and t: "wf_index_title t"
    and out: "resolve_outermost_image_source_from_mount_cache c g MAX_PATH = Some img"
    and s1: "s1 = sm_image_index_begin_scan h1 build s img st0"
    and rec: "sm_image_index_record_game h2 f build c d s1 g t = (True, s2, d2)"
    and s3: "s3 = sm_image_index_complete_scan h3 build s2 img"
  shows "fst (sm_image_index_source_has_title h build s3 img t) =
    (case h_stat h img of
       Inl _ \<Rightarrow> False
     | Inr st \<Rightarrow> st_mode st = S_REG \<and> st_size st = st_size st0 \<and> st_mtime st = st_mtime st0
         \<and> st_mtime_nsec st = st_mtime_nsec st0)"
proof -
  define s0 where "s0 = load_index h1 build s"
  have ok0: "body_ok True (idx_entries s0) (idx_titles s0)" and l0: "idx_loaded s0"
    using load_inv [OF index_reach_inv [OF r b]] index_inv_body by (auto simp: s0_def)
  have l1: "idx_loaded s1" and s1': "s1 = begin_scan_locked s0 img st0"
    using l0 by (simp_all add: s1 sm_image_index_begin_scan_def s0_def)
  have ok1: "body_ok True (idx_entries s1) (idx_titles s1)"
    using index_inv_body [OF begin_scan_inv [OF load_inv [OF index_reach_inv [OF r b]] img], of h1 st0] by (simp add: s1' s0_def)
  have "find_entry s1 img \<noteq> None"
  proof
    assume none: "find_entry s1 img = None"
    show False
    proof (cases rule: begin_scan_cases [OF ok0 img, of st0])
      case 1
      then have "begin_scan_locked s1 img st = s1" for st
        using none s1' by (simp add: begin_scan_locked_def reserve_entry_def)
      then show False
        using rec none out l1 by (auto simp: sm_image_index_record_game_def load_idem split: sum.splits)
    next
      case (2 k)
      then have "find_entry s1 img = Some k"
        using ok1 s1' ok0 by (intro find_entry_eq) (auto simp: scan_entry_def body_ok_def)
      then show False using none by simp
    qed
  qed
  then obtain k where k: "find_entry s1 img = Some k" by auto
  note fk = find_entry_SomeD [OF k]
  have K: "k < MAX_IMAGE_MOUNTS" using fk ok1 by (simp add: body_ok_def)
  have ek: "idx_entries s1 ! k = scan_entry img st0"
  proof (cases rule: begin_scan_cases [OF ok0 img, of st0])
    case 1
    then show ?thesis using k s1' by simp
  next
    case (2 j)
    then have "find_entry s1 img = Some j"
      using ok1 s1' ok0 by (intro find_entry_eq) (auto simp: scan_entry_def body_ok_def)
    then show ?thesis using 2 k s1' ok0 by (auto simp: body_ok_def)
  qed
  have add: "add_index_title s1 k t = (True, s2)"
    using rec k out l1 by (simp add: sm_image_index_record_game_def load_idem split: prod.splits)
  have e2: "idx_entries s2 = idx_entries s1" "idx_loaded s2"
    using add l1 by (auto simp: add_index_title_def split: if_splits option.splits)
  have t2: "list_ex (\<lambda>x. entry_title k x \<and> it_title_id x = t) (idx_titles s2)"
    using add_title_present [OF add t] .
  have k2: "find_entry s2 img = Some k" using k e2 by (simp add: find_entry_def)
  have s3': "s3 = s2\<lparr>idx_entries := (idx_entries s2)[k := (scan_entry img st0)\<lparr>ie_complete := 1\<rparr>], idx_dirty := True\<rparr>"
    using k2 e2 ek by (simp add: s3 sm_image_index_complete_scan_def load_idem scan_entry_def)
  have "find_entry s3 img = Some k"
    using k2 e2 fk unfolding find_entry_def by (auto simp: s3' find_index_Some scan_entry_def)
  then show ?thesis
    using t2 e2 fk t img
    by (auto simp: sm_image_index_source_has_title_def load_idem s3' indexed_source_has_title_def
        wf_image_path_def wf_index_title_def scan_entry_def stamp_matches_def split: sum.split)
qed

text \<open>A sample scan: the image mounted at \<^verbatim>\<open>/mnt/a\<close> in the sample cache, with one game in it.\<close>

definition sample_index :: image_index where
  "sample_index = sm_image_index_begin_scan empty_host ''b'' (image_index_start NoFile) ''/a.exfat'' sample_stat"

lemma sample_outermost:
  "resolve_outermost_image_source_from_mount_cache sample_reserved ''/mnt/a/g'' MAX_PATH = Some ''/a.exfat''"
proof -
  have sl: "slots sample_reserved = reservation 2 ''/a.exfat'' ''/mnt/a'' # replicate 2047 blank_slot"
    by (simp add: sample_reserved_def begin_init list_update_code eval_nat_numeral)
  have skip: "owning_loop q k (replicate n blank_slot) bi bl = bi" for q k n bi bl
    by (induction n arbitrary: k) auto
  have o1: "find_owning_cache_index sample_reserved ''/mnt/a/g'' = Some 0"
    by (simp add: find_owning_cache_index_def sl skip reservation_def owns_def starts_with_def char_at_def)
  have o2: "find_owning_cache_index sample_reserved ''/a.exfat'' = None"
    by (simp add: find_owning_cache_index_def sl skip reservation_def owns_def starts_with_def)
  have "find_owning_chain_indices sample_reserved ''/mnt/a/g'' = [0]"
    by (simp add: find_owning_chain_indices_def eval_nat_numeral strlcpy_def o1 sl reservation_def o2)
  then show ?thesis
    by (simp add: resolve_outermost_image_source_from_mount_cache_def sl reservation_def strlcpy_def)
qed

lemma sample_record:
  "\<exists>s2 d2. sm_image_index_record_game empty_host io_ok ''b'' sample_reserved (\<lambda>_. None) sample_index ''/mnt/a/g'' ''PPSA01234''
     = (True, s2, d2)"
proof -
  define s0 where "s0 = load_index empty_host ''b'' (image_index_start NoFile)"
  have s0: "idx_entries s0 = replicate MAX_IMAGE_MOUNTS blank_index_entry"
    "idx_titles s0 = replicate MAX_IMAGE_TITLES blank_index_title" "idx_loaded s0"
    by (simp_all add: s0_def load_index_def load_index_file_def image_index_start_def)
  have f0: "find_entry s0 ''/a.exfat'' = None" "find_index (\<lambda>e. ie_valid e = 0) (replicate MAX_IMAGE_MOUNTS blank_index_entry) = Some 0"
    by (simp_all add: find_entry_def s0 find_index_None find_index_Some)
  have si: "sample_index = begin_scan_locked s0 ''/a.exfat'' sample_stat"
    by (simp add: sample_index_def sm_image_index_begin_scan_def s0_def)
  have e0: "blank_index_entry\<lparr>ie_path := ''/a.exfat'', ie_size := st_size sample_stat,
      ie_mtime_sec := st_mtime sample_stat, ie_mtime_nsec := st_mtime_nsec sample_stat, ie_complete := 0,
      ie_valid := 1\<rparr> = scan_entry ''/a.exfat'' sample_stat"
    by (simp add: scan_entry_def)
  have i: "idx_loaded sample_index"
    "idx_entries sample_index = (replicate MAX_IMAGE_MOUNTS blank_index_entry)[0 := scan_entry ''/a.exfat'' sample_stat]"
    "idx_titles sample_index = replicate MAX_IMAGE_TITLES blank_index_title"
    by (simp_all add: si begin_scan_locked_def reserve_entry_def f0 s0 clear_entry_titles_def entry_title_def Let_def
        map_replicate e0 strlcpy_def)
  have "find_entry sample_index ''/a.exfat'' = Some 0"
    by (simp add: find_entry_def i find_index_Some scan_entry_def)
  moreover have "find_index (\<lambda>t. it_valid t = 0) (idx_titles sample_index) = Some 0"
    by (simp add: i find_index_Some)
  ultimately show ?thesis
    by (simp add: sm_image_index_record_game_def load_idem i(1) sample_outermost add_index_title_def i(3)
        list_ex_iff entry_title_def)
qed

theorem scanned_image_answers_titles_witness:
  "\<exists>s3. fst (sm_image_index_source_has_title node_host ''b'' s3 ''/a.exfat'' ''PPSA01234'')"
proof -
  obtain s2 d2 where "sm_image_index_record_game empty_host io_ok ''b'' sample_reserved (\<lambda>_. None) sample_index ''/mnt/a/g'' ''PPSA01234''
     = (True, s2, d2)" using sample_record by blast
  from scanned_image_answers_titles [OF index_reach.start _ _ _ sample_outermost sample_index_def this refl, of node_host empty_host]
  show ?thesis
    by (auto simp: file_shaped_def wf_build_def wf_image_path_def wf_index_title_def node_host_def sample_stat_def)
qed

section \<open>The index as a map from images to titles\<close>

definition index_map :: "image_index \<Rightarrow> string \<Rightarrow> (image_index_entry \<times> string set) option" where
  "index_map s p =
     (case find_entry s p of
        None \<Rightarrow> None
      | Some k \<Rightarrow> Some (idx_entries s ! k, it_title_id ` {t \<in> set (idx_titles s). entry_title k t}))"

lemma find_entry_clear:
  assumes ok: "body_ok True (idx_entries s) (idx_titles s)" and i: "i < MAX_IMAGE_MOUNTS"
  shows "find_entry (clear_entry i s) p = (if find_entry s p = Some i then None else find_entry s p)"
proof (rule option_eqI)
  fix k
  have ok': "body_ok True (idx_entries (clear_entry i s)) (idx_titles (clear_entry i s))"
    using body_ok_clear_entry [OF ok i] by (simp add: clear_entry_def clear_entry_titles_def Let_def)
  have e: "idx_entries (clear_entry i s) = (idx_entries s)[i := blank_index_entry]"
    by (simp add: clear_entry_def clear_entry_titles_def Let_def)
  have len: "length (idx_entries s) = MAX_IMAGE_MOUNTS" using ok by (simp add: body_ok_def)
  show "find_entry (clear_entry i s) p = Some k \<longleftrightarrow> (if find_entry s p = Some i then None else find_entry s p) = Some k"
  proof
    assume f: "find_entry (clear_entry i s) p = Some k"
    then have ki: "k \<noteq> i" using find_entry_SomeD [OF f] e by auto
    then have "find_entry s p = Some k"
      using find_entry_SomeD [OF f] e len by (intro find_entry_eq [OF ok]) auto
    then show "(if find_entry s p = Some i then None else find_entry s p) = Some k" using ki by simp
  next
    assume f: "(if find_entry s p = Some i then None else find_entry s p) = Some k"
    then have "find_entry s p = Some k" "k \<noteq> i" by (auto split: if_splits)
    then show "find_entry (clear_entry i s) p = Some k"
      using find_entry_SomeD [of s p k] e len by (intro find_entry_eq [OF ok']) auto
  qed
qed

lemma index_map_clear:
  assumes ok: "body_ok True (idx_entries s) (idx_titles s)" and i: "i < MAX_IMAGE_MOUNTS"
  shows "index_map (clear_entry i s) p = (if find_entry s p = Some i then None else index_map s p)"
proof -
  have len: "length (idx_entries s) = MAX_IMAGE_MOUNTS" using ok by (simp add: body_ok_def)
  have "{t \<in> set (idx_titles (clear_entry i s)). entry_title k t} = {t \<in> set (idx_titles s). entry_title k t}"
    if "k < MAX_IMAGE_MOUNTS" "k \<noteq> i" for k
  proof -
    have "\<not> (entry_title k t \<and> entry_title i t)" for t
      using that i unat_index [of k] unat_index [of i] by (metis entry_title_def)
    moreover have "\<not> entry_title k blank_index_title" by (simp add: entry_title_def)
    ultimately show ?thesis by (auto simp: clear_entry_def clear_entry_titles_def Let_def)
  qed
  then show ?thesis
    using find_entry_SomeD(1) [of s p] len
    by (auto simp: index_map_def find_entry_clear [OF ok i] split: option.split)
      (auto simp: clear_entry_def clear_entry_titles_def Let_def)
qed

lemma prune_fold_map:
  assumes "index_inv True build s" and "idx_loaded s" and "list_all (\<lambda>i. i < MAX_IMAGE_MOUNTS) is"
  shows "index_map (fold (prune_step h) is s) p =
    (if h_stat h p = Inl ENOENT \<and> (\<exists>i\<in>set is. find_entry s p = Some i) then None else index_map s p)"
  using assms
proof (induction "is" arbitrary: s)
  case Nil
  then show ?case by simp
next
  case (Cons i "is")
  note ok = index_inv_body [OF Cons.prems(1)]
  have i: "i < MAX_IMAGE_MOUNTS" using Cons.prems by simp
  let ?s = "prune_step h i s"
  have inv: "index_inv True build ?s" "idx_loaded ?s"
    using Cons.prems i by (simp_all add: prune_step_def clear_entry_inv clear_entry_loaded)
  have f: "find_entry ?s p = (if find_entry s p = Some i \<and> h_stat h p = Inl ENOENT then None else find_entry s p)"
    using find_entry_SomeD(2,3) [of s p i] find_entry_eq [OF ok i, of "ie_path (idx_entries s ! i)"]
    by (auto simp: prune_step_def find_entry_clear [OF ok i])
  have m: "index_map ?s p = (if find_entry s p = Some i \<and> h_stat h p = Inl ENOENT then None else index_map s p)"
    using find_entry_SomeD(2,3) [of s p i] find_entry_eq [OF ok i, of "ie_path (idx_entries s ! i)"]
    by (auto simp: prune_step_def index_map_clear [OF ok i])
  have IH: "index_map (fold (prune_step h) is ?s) p =
      (if h_stat h p = Inl ENOENT \<and> (\<exists>i\<in>set is. find_entry ?s p = Some i) then None else index_map ?s p)"
    using Cons.IH [OF inv] Cons.prems by simp
  show ?case
  proof (cases "find_entry s p = Some i \<and> h_stat h p = Inl ENOENT")
    case True
    then have "find_entry ?s p = None" "index_map ?s p = None" using f m by auto
    then show ?thesis using IH True by simp
  next
    case False
    then have f': "find_entry ?s p = find_entry s p" and m': "index_map ?s p = index_map s p"
      using f m by auto
    have "(h_stat h p = Inl ENOENT \<and> (\<exists>j\<in>set (i # is). find_entry s p = Some j))
        = (h_stat h p = Inl ENOENT \<and> (\<exists>j\<in>set is. find_entry s p = Some j))"
      using False by (cases "h_stat h p = Inl ENOENT") simp_all
    then show ?thesis using IH unfolding f' m' by (simp only: fold.simps comp_apply)
  qed
qed

lemma index_map_cong:
  "idx_entries s = idx_entries s' \<Longrightarrow> idx_titles s = idx_titles s' \<Longrightarrow> index_map s p = index_map s' p"
  by (simp only: index_map_def find_entry_def)

lemma index_map_save: "index_map (snd (save_index f build s)) p = index_map s p"
  by (rule index_map_cong) (simp_all add: save_index_def)

text \<open>C36. Pruning forgets exactly the images that are gone: seen as a map from image paths to
  their entry and set of titles, the index after a prune is the index before it (reloaded, and
  emptied when the configuration changed) without the images for which \<^verbatim>\<open>stat\<close> says \<^verbatim>\<open>ENOENT\<close>; an
  image that fails with another error is kept. The index file the process started from is
  arbitrary but for duplicates.\<close>

theorem index_prune_refines_restriction:
  assumes "index_reach True build s" and "wf_build build"
  shows "index_map (sm_image_index_prune h f build s) p =
    (if h_stat h p = Inl ENOENT then None else index_map (snd (refresh_index_context h (load_index h build s))) p)"
proof -
  obtain r s1 where s1: "refresh_index_context h (load_index h build s) = (r, s1)"
    by (cases "refresh_index_context h (load_index h build s)")
  have i: "index_inv True build s1" "idx_loaded s1"
    using refresh_inv [OF load_inv [OF index_reach_inv [OF assms]] s1] refresh_context_shape(2) [OF s1] by simp_all
  let ?s = "fold (prune_step h) [0..<MAX_IMAGE_MOUNTS] s1"
  have "index_map (sm_image_index_prune h f build s) p = index_map ?s p"
    using index_map_save [of f build ?s p] s1 by (simp add: sm_image_index_prune_def Let_def)
  also have "\<dots> = (if h_stat h p = Inl ENOENT then None else index_map s1 p)"
    using prune_fold_map [OF i, of "[0..<MAX_IMAGE_MOUNTS]" h p] find_entry_SomeD(1) [of s1 p] index_inv_body [OF i(1)]
    by (cases "find_entry s1 p") (auto simp: list_all_iff index_map_def body_ok_def)
  finally show ?thesis using s1 by simp
qed

text \<open>A host on which only the sample image exists.\<close>

definition image_host :: host where
  "image_host = empty_host\<lparr>h_stat := (\<lambda>p. if p = ''/a.exfat'' then Inr sample_stat else Inl ENOENT)\<rparr>"

theorem index_prune_refines_restriction_witness:
  "index_map (sm_image_index_prune empty_host io_ok ''b'' sample_index) ''/a.exfat'' = None
   \<and> index_map (sm_image_index_prune image_host io_ok ''b'' sample_index) ''/a.exfat''
     = index_map (snd (refresh_index_context image_host (load_index image_host ''b'' sample_index))) ''/a.exfat''"
proof -
  have "index_reach True ''b'' sample_index"
    unfolding sample_index_def
    by (intro index_reach.begin_scan index_reach.start) (simp_all add: file_shaped_def wf_image_path_def)
  note r = index_prune_refines_restriction [OF this, of _ io_ok "''/a.exfat''"]
  show ?thesis
    using r [of empty_host] r [of image_host] by (simp add: wf_build_def empty_host_def image_host_def)
qed

end
