(* ===== verification/Game_Cache.thy ===== *)
theory Game_Cache
  imports Title_State Image_Index Install_Queue
begin

text \<open>
  \<^verbatim>\<open>src/sm_game_cache.c\<close>: the table of known games, one slot per game with its source path,
  title, owning scan root and, while the source is missing, the time it was first missed. When
  automatic removal is on, a title whose source stays missing for the configured delay is
  uninstalled.

  Every section the code runs under its mutex is one step. The environment the component only
  reads (operating system, link files, image cache, scan roots, titles the shell protects) is
  the record \<open>genv\<close>; the components it changes are in its state: the duplicate-notification flags
  of the title table (\<^verbatim>\<open>clear_game_cache_slot\<close>), the image index (loaded on demand), the install
  queue, and the uninstall requests sent to the system, in order.
\<close>

section \<open>State\<close>

record game_entry =
  ge_path :: string
  ge_title_id :: string
  ge_title_name :: string
  ge_owning_scan_root :: string
  ge_missing_since_us :: u64
  ge_valid :: bool

record genv =
  g_host :: host
  g_disk :: disk
  g_images :: image_cache
  g_scan_paths :: "string list"
  g_protected :: "string \<Rightarrow> bool"

record game_state =
  games :: "game_entry list"
  game_titles :: title_state

definition blank_game :: game_entry where
  "blank_game = \<lparr>ge_path = [], ge_title_id = [], ge_title_name = [], ge_owning_scan_root = [],
     ge_missing_since_us = 0, ge_valid = False\<rparr>"

definition game_cache_init :: "game_entry list" where
  "game_cache_init = replicate MAX_PENDING blank_game"

section \<open>Helpers\<close>

definition game_cache_source_exists :: "genv \<Rightarrow> game_entry \<Rightarrow> bool" where
  "game_cache_source_exists v e =
     (if ge_path e \<noteq> [] \<and> path_exists (g_host v) (ge_path e) then True
      else if ge_title_id e = [] then False
      else (case read_mount_image_link (g_disk v) (ge_title_id e) MAX_PATH of
              None \<Rightarrow> False
            | Some image_path \<Rightarrow> path_exists (g_host v) image_path))"

definition title_is_protected_by_dlc :: "genv \<Rightarrow> string \<Rightarrow> bool \<Rightarrow> bool" where
  "title_is_protected_by_dlc v title_id remove_games_with_dlc =
     (if remove_games_with_dlc then False
      else
        (case bounded MAX_PATH (''/user/addcont/'' @ title_id) of
           None \<Rightarrow> True
         | Some addcont_path \<Rightarrow>
             (case h_stat (g_host v) addcont_path of
                Inr st \<Rightarrow> st_mode st = S_DIR
              | Inl err \<Rightarrow> err \<noteq> ENOENT \<and> err \<noteq> ENOTDIR)))"

text \<open>The longest scan root the path lies in; the first one among equals.\<close>

definition longer_root :: "string \<Rightarrow> string \<Rightarrow> string \<Rightarrow> string" where
  "longer_root match_path scan_path best =
     (if \<not> path_matches_root_or_child match_path scan_path then best
      else if length scan_path \<le> length best then best
      else strlcpy scan_path MAX_PATH)"

definition resolve_match_path :: "genv \<Rightarrow> string \<Rightarrow> string \<Rightarrow> string" where
  "resolve_match_path v p title_id =
     (if is_under_image_mount_base p then
        (case resolve_image_source_from_mount_cache (g_images v) p MAX_PATH of
           Some r \<Rightarrow> r
         | None \<Rightarrow>
             (if title_id \<noteq> [] then
                (case read_mount_image_link (g_disk v) title_id MAX_PATH of Some r \<Rightarrow> r | None \<Rightarrow> p)
              else p))
      else p)"

definition resolve_game_cache_owning_scan_root :: "genv \<Rightarrow> string \<Rightarrow> string \<Rightarrow> string" where
  "resolve_game_cache_owning_scan_root v p title_id =
     fold (longer_root (resolve_match_path v p title_id)) (g_scan_paths v) []"

definition write_game_cache_slot :: "string \<Rightarrow> string \<Rightarrow> string \<Rightarrow> string \<Rightarrow> game_entry" where
  "write_game_cache_slot p title_id title_name owning_scan_root = \<lparr>
     ge_path = strlcpy p MAX_PATH, ge_title_id = strlcpy title_id MAX_TITLE_ID,
     ge_title_name = strlcpy title_name MAX_TITLE_NAME,
     ge_owning_scan_root = strlcpy owning_scan_root MAX_PATH, ge_missing_since_us = 0, ge_valid = True\<rparr>"

definition ensure_game_cache_owning_scan_root :: "genv \<Rightarrow> game_entry \<Rightarrow> bool \<times> game_entry" where
  "ensure_game_cache_owning_scan_root v e =
     (if ge_owning_scan_root e \<noteq> [] then (True, e)
      else
        (let r = resolve_game_cache_owning_scan_root v (ge_path e) (ge_title_id e)
         in (r \<noteq> [], e\<lparr>ge_owning_scan_root := r\<rparr>)))"

definition start_missing_timer :: "game_entry \<Rightarrow> u64 \<Rightarrow> game_entry" where
  "start_missing_timer e now_us =
     (if ge_missing_since_us e \<noteq> 0 \<or> now_us = 0 then e else e\<lparr>ge_missing_since_us := now_us\<rparr>)"

definition missing_timer_expired :: "game_entry \<Rightarrow> u64 \<Rightarrow> u64 \<Rightarrow> bool" where
  "missing_timer_expired e now_us delay_us \<longleftrightarrow>
     ge_valid e \<and> ge_missing_since_us e \<noteq> 0 \<and> now_us \<ge> ge_missing_since_us e
     \<and> now_us - ge_missing_since_us e \<ge> delay_us"

definition clear_game_cache_slot :: "nat \<Rightarrow> game_state \<Rightarrow> game_state" where
  "clear_game_cache_slot index s =
     (if index \<ge> MAX_PENDING \<or> \<not> ge_valid (games s ! index) then s
      else
        (let t = ge_title_id (games s ! index);
             s1 = (if t \<noteq> [] then s\<lparr>game_titles := clear_duplicate_title_notification (game_titles s) t\<rparr> else s)
         in s1\<lparr>games := (games s1)[index := blank_game]\<rparr>))"

section \<open>Operations on the table\<close>

definition cache_game_entry :: "genv \<Rightarrow> string \<Rightarrow> string \<Rightarrow> string \<Rightarrow> game_entry list \<Rightarrow> game_entry list" where
  "cache_game_entry v p title_id title_name gs =
     (let e = write_game_cache_slot p title_id title_name (resolve_game_cache_owning_scan_root v p title_id) in
      case find_index (\<lambda>g. ge_valid g \<and> (ge_path g = p \<or> ge_title_id g = title_id)) gs of
        Some k \<Rightarrow> gs[k := e]
      | None \<Rightarrow>
          (case find_index (\<lambda>g. \<not> ge_valid g) gs of
             Some k \<Rightarrow> gs[k := e]
           | None \<Rightarrow> gs))"

definition prune_game_step :: "genv \<Rightarrow> bool \<Rightarrow> string option \<Rightarrow> nat \<Rightarrow> game_state \<Rightarrow> game_state" where
  "prune_game_step v auto_remove root k s =
     (let e0 = games s ! k in
      if \<not> ge_valid e0 then s
      else if g_protected v (ge_title_id e0) then s
      else
        (let (e, s1, skip) =
               (case root of
                  None \<Rightarrow> (e0, s, False)
                | Some r \<Rightarrow>
                    (let (found, e1) = ensure_game_cache_owning_scan_root v e0;
                         entry_root = (if found then ge_owning_scan_root e1 else ge_path e1)
                     in (e1, s\<lparr>games := (games s)[k := e1]\<rparr>, \<not> path_matches_root_or_child entry_root r)))
         in if skip then s1
            else if game_cache_source_exists v e
            then s1\<lparr>games := (games s1)[k := e\<lparr>ge_missing_since_us := 0\<rparr>]\<rparr>
            else if auto_remove then s1
            else clear_game_cache_slot k s1))"

definition prune_game_cache_entries :: "genv \<Rightarrow> bool \<Rightarrow> string option \<Rightarrow> game_state \<Rightarrow> game_state" where
  "prune_game_cache_entries v auto_remove root s = fold (prune_game_step v auto_remove root) [0..<MAX_PENDING] s"

definition prune_game_cache :: "genv \<Rightarrow> bool \<Rightarrow> game_state \<Rightarrow> game_state" where
  "prune_game_cache v auto_remove s = prune_game_cache_entries v auto_remove None s"

definition prune_game_cache_for_root :: "genv \<Rightarrow> bool \<Rightarrow> string \<Rightarrow> game_state \<Rightarrow> game_state" where
  "prune_game_cache_for_root v auto_remove root s =
     (if root = [] then prune_game_cache v auto_remove s
      else prune_game_cache_entries v auto_remove (Some root) s)"

definition note_game_cache_source_seen ::
  "genv \<Rightarrow> string \<Rightarrow> string \<Rightarrow> string \<Rightarrow> game_entry list \<Rightarrow> game_entry list" where
  "note_game_cache_source_seen v p title_id title_name gs =
     (if title_id = [] then gs
      else
        (case find_index (\<lambda>g. ge_valid g \<and> ge_missing_since_us g \<noteq> 0 \<and> ge_title_id g = title_id) gs of
           None \<Rightarrow> gs
         | Some k \<Rightarrow> gs[k := write_game_cache_slot p title_id title_name
                              (resolve_game_cache_owning_scan_root v p title_id)]))"

definition reset_missing_game_cache_timers :: "game_state \<Rightarrow> game_state" where
  "reset_missing_game_cache_timers s =
     fold (\<lambda>k s. if \<not> ge_valid (games s ! k) then s
                 else if ge_path (games s ! k) = [] then clear_game_cache_slot k s
                 else s\<lparr>games := (games s)[k := (games s ! k)\<lparr>ge_missing_since_us := 0\<rparr>]\<rparr>)
       [0..<MAX_PENDING] s"

text \<open>The callback may end the iteration; it threads its own context \<open>ctx\<close>. The only change to
  the table is the scan root that is filled in on the way.\<close>

fun for_each_loop :: "genv \<Rightarrow> string \<Rightarrow> (string \<Rightarrow> string \<Rightarrow> string \<Rightarrow> string option \<Rightarrow> 'c \<Rightarrow> bool \<times> 'c)
    \<Rightarrow> game_entry list \<Rightarrow> 'c \<Rightarrow> game_entry list \<times> 'c" where
  "for_each_loop v root fn [] ctx = ([], ctx)"
| "for_each_loop v root fn (g # gs) ctx =
     (if \<not> (ge_valid g \<and> ge_missing_since_us g = 0)
      then (let (gs', ctx') = for_each_loop v root fn gs ctx in (g # gs', ctx'))
      else
        (let (has_root, g') = ensure_game_cache_owning_scan_root v g;
             entry_root = (if has_root then ge_owning_scan_root g' else ge_path g')
         in if root = [] \<or> entry_root = root
            then
              (let (go, ctx1) = fn (ge_path g') (ge_title_id g') (ge_title_name g')
                     (if has_root then Some (ge_owning_scan_root g') else None) ctx
               in if \<not> go then (g' # gs, ctx1)
                  else (let (gs', ctx2) = for_each_loop v root fn gs ctx1 in (g' # gs', ctx2)))
            else (let (gs', ctx2) = for_each_loop v root fn gs ctx in (g' # gs', ctx2))))"

definition for_each_cached_game_entry ::
  "genv \<Rightarrow> string \<Rightarrow> (string \<Rightarrow> string \<Rightarrow> string \<Rightarrow> string option \<Rightarrow> 'c \<Rightarrow> bool \<times> 'c)
   \<Rightarrow> game_entry list \<Rightarrow> 'c \<Rightarrow> game_entry list \<times> 'c" where
  "for_each_cached_game_entry v root fn gs ctx = for_each_loop v root fn gs ctx"

definition sm_game_cache_snapshot :: "bool \<Rightarrow> game_entry list \<Rightarrow> (string \<times> string \<times> string) list option" where
  "sm_game_cache_snapshot alloc_ok gs =
     (let live = filter (\<lambda>g. ge_valid g \<and> ge_missing_since_us g = 0) gs
      in if live \<noteq> [] \<and> \<not> alloc_ok then None
         else Some (map (\<lambda>g. (strlcpy (ge_path g) MAX_PATH, strlcpy (ge_title_id g) MAX_TITLE_ID,
                              strlcpy (ge_title_name g) MAX_TITLE_NAME)) live))"

text \<open>The path of the first slot that matches; \<open>None\<close> for no match.\<close>

definition find_cached_game :: "string option \<Rightarrow> string \<Rightarrow> game_entry list \<Rightarrow> string option" where
  "find_cached_game po title_id gs =
     map_option ge_path
       (find (\<lambda>g. ge_valid g \<and> (Some (ge_path g) = po \<or> title_id \<noteq> [] \<and> ge_title_id g = title_id)) gs)"

definition clear_cached_game :: "string \<Rightarrow> game_state \<Rightarrow> game_state" where
  "clear_cached_game p s =
     fold (\<lambda>k s. if \<not> ge_valid (games s ! k) \<or> ge_missing_since_us (games s ! k) \<noteq> 0 then s
                 else if ge_path (games s ! k) \<noteq> p then s else clear_game_cache_slot k s)
       [0..<MAX_PENDING] s"

section \<open>Automatic removal\<close>

record removal_state =
  rm_game :: game_state
  rm_index :: image_index
  rm_queue :: install_queue
  rm_uninstalled :: "string list"

definition drop_unlisted_step :: "genv \<Rightarrow> string list \<Rightarrow> nat \<Rightarrow> game_state \<Rightarrow> game_state" where
  "drop_unlisted_step v auto_remove_titles k s =
     (let e = games s ! k in
      if \<not> ge_valid e \<or> game_cache_source_exists v e \<or> g_protected v (ge_title_id e)
         \<or> app_db_title_list_contains auto_remove_titles (ge_title_id e) then s
      else clear_game_cache_slot k s)"

text \<open>The scan for a title's slot: its index, and the first free slot met before it.\<close>

fun title_slot_loop :: "string \<Rightarrow> nat \<Rightarrow> game_entry list \<Rightarrow> nat option \<Rightarrow> nat option \<times> nat option" where
  "title_slot_loop t k [] free_index = (None, free_index)"
| "title_slot_loop t k (g # gs) free_index =
     (if \<not> ge_valid g then title_slot_loop t (Suc k) gs (if free_index = None then Some k else free_index)
      else if ge_title_id g = t then (Some k, free_index)
      else title_slot_loop t (Suc k) gs free_index)"

definition reconcile_title ::
  "genv \<Rightarrow> u64 \<Rightarrow> string \<Rightarrow> bool \<Rightarrow> bool \<Rightarrow> game_state \<Rightarrow> game_state" where
  "reconcile_title v now_us title_id protected_by_dlc image_source_exists s =
     (case title_slot_loop title_id 0 (games s) None of
        (Some k, _) \<Rightarrow>
          (let e = games s ! k in
           if protected_by_dlc then
             (if game_cache_source_exists v e
              then s\<lparr>games := (games s)[k := e\<lparr>ge_missing_since_us := 0\<rparr>]\<rparr>
              else clear_game_cache_slot k s)
           else if game_cache_source_exists v e \<or> image_source_exists then
             (if ge_path e = [] then clear_game_cache_slot k s
              else s\<lparr>games := (games s)[k := e\<lparr>ge_missing_since_us := 0\<rparr>]\<rparr>)
           else s\<lparr>games := (games s)[k := start_missing_timer e now_us]\<rparr>)
      | (None, free_index) \<Rightarrow>
          (if protected_by_dlc then s
           else
             (case free_index of
                Some f \<Rightarrow>
                  (if \<not> image_source_exists
                   then s\<lparr>games := (games s)[f := start_missing_timer (write_game_cache_slot [] title_id [] []) now_us]\<rparr>
                   else s)
              | None \<Rightarrow> s)))"

definition reconcile_title_step ::
  "genv \<Rightarrow> string \<Rightarrow> u64 \<Rightarrow> bool \<Rightarrow> string \<Rightarrow> removal_state \<Rightarrow> removal_state" where
  "reconcile_title_step v build now_us remove_games_with_dlc title_id r =
     (if g_protected v title_id then r
      else
        (let protected_by_dlc = title_is_protected_by_dlc v title_id remove_games_with_dlc;
             (image_source_exists, index) =
               (if protected_by_dlc then (False, rm_index r)
                else sm_image_index_has_source_for_title (g_host v) build (rm_index r) title_id)
         in r\<lparr>rm_index := index,
              rm_game := reconcile_title v now_us title_id protected_by_dlc image_source_exists (rm_game r)\<rparr>))"

definition reconcile_missing_game_cache ::
  "genv \<Rightarrow> string \<Rightarrow> string list \<Rightarrow> u64 \<Rightarrow> bool \<Rightarrow> removal_state \<Rightarrow> removal_state" where
  "reconcile_missing_game_cache v build auto_remove_titles now_us remove_games_with_dlc r =
     fold (reconcile_title_step v build now_us remove_games_with_dlc) auto_remove_titles
       (r\<lparr>rm_game := fold (drop_unlisted_step v auto_remove_titles) [0..<MAX_PENDING] (rm_game r)\<rparr>)"

text \<open>The first slot whose timer has run out and whose title the shell does not protect.\<close>

definition expired_slot :: "genv \<Rightarrow> u64 \<Rightarrow> u64 \<Rightarrow> game_entry list \<Rightarrow> nat option" where
  "expired_slot v now_us delay_us gs =
     find_index (\<lambda>e. missing_timer_expired e now_us delay_us \<and> \<not> g_protected v (ge_title_id e)) gs"

lemma clear_slot_games:
  "games (clear_game_cache_slot k s) = (if k < MAX_PENDING \<and> ge_valid (games s ! k) then (games s)[k := blank_game] else games s)"
  by (simp add: clear_game_cache_slot_def Let_def)

lemma expired_slotD:
  assumes "expired_slot v now delay gs = Some k"
  shows "k < length gs" and "missing_timer_expired (gs ! k) now delay" and "\<not> g_protected v (ge_title_id (gs ! k))"
    and "ge_valid (gs ! k)"
  using assms by (simp_all add: expired_slot_def find_index_Some missing_timer_expired_def)

lemma clear_slot_fewer:
  assumes "k < length (games s)" and "ge_valid (games s ! k)" and "k < MAX_PENDING"
  shows "count_if ge_valid (games (clear_game_cache_slot k s)) < count_if ge_valid (games s)"
  using count_if_update [OF assms(1), of ge_valid blank_game] assms by (simp add: clear_slot_games blank_game_def)

text \<open>\<open>uninstall\<close> is the answer of \<^verbatim>\<open>sceAppInstUtilAppUnInstall\<close>. Each turn empties a slot, so the
  loop ends.\<close>

function remove_expired ::
  "genv \<Rightarrow> (string \<Rightarrow> int) \<Rightarrow> string list \<Rightarrow> u64 \<Rightarrow> u64 \<Rightarrow> bool \<Rightarrow> removal_state \<Rightarrow> removal_state" where
  "remove_expired v uninstall auto_remove_titles now_us delay_us remove_games_with_dlc r =
     (case expired_slot v now_us delay_us (take MAX_PENDING (games (rm_game r))) of
        None \<Rightarrow> r
      | Some k \<Rightarrow>
          (let title_id = strlcpy (ge_title_id (games (rm_game r) ! k)) MAX_TITLE_ID;
               r1 = r\<lparr>rm_game := clear_game_cache_slot k (rm_game r)\<rparr>
           in if title_id = [] then r1
              else
                (let r2 =
                       (if \<not> app_db_title_list_contains auto_remove_titles title_id then r1
                        else if title_is_protected_by_dlc v title_id remove_games_with_dlc then r1
                        else if uninstall title_id = 0
                        then r1\<lparr>rm_uninstalled := rm_uninstalled r1 @ [title_id],
                                rm_queue := sm_install_forget_pending_title (rm_queue r1) title_id\<rparr>
                        else r1\<lparr>rm_uninstalled := rm_uninstalled r1 @ [title_id]\<rparr>)
                 in remove_expired v uninstall auto_remove_titles now_us delay_us remove_games_with_dlc r2)))"
  by pat_completeness auto

termination
proof (relation "measure (\<lambda>(v, u, l, now, delay, dlc, r). count_if ge_valid (games (rm_game r)))", simp, goal_cases)
  case (1 v u l now delay dlc r k t r1 r2)
  then show ?case
    using expired_slotD [of v now delay "take MAX_PENDING (games (rm_game r))" k]
      clear_slot_fewer [of k "rm_game r"] by (simp split: if_splits)
qed

declare remove_expired.simps [simp del]

definition reconcile_missing_app_db_games ::
  "genv \<Rightarrow> string \<Rightarrow> (string \<Rightarrow> int) \<Rightarrow> bool \<Rightarrow> string list option \<Rightarrow> u64 \<Rightarrow> u32 \<Rightarrow> bool \<Rightarrow> removal_state \<Rightarrow> removal_state" where
  "reconcile_missing_app_db_games v build uninstall auto_remove_missing_games title_list now_us delay_seconds
       remove_games_with_dlc r =
     (if \<not> auto_remove_missing_games then r
      else
        (case title_list of
           None \<Rightarrow> r
         | Some auto_remove_titles \<Rightarrow>
             remove_expired v uninstall auto_remove_titles now_us (ucast delay_seconds * 1000000) remove_games_with_dlc
               (reconcile_missing_game_cache v build auto_remove_titles now_us remove_games_with_dlc r)))"

section \<open>Lemmas\<close>

lemma shift_index [simp]: "map_option ((+) (Suc k)) x = map_option (\<lambda>i. Suc (k + i)) x"
  by (cases x) simp_all

lemma zero_index: "map_option ((+) (0::nat)) x = x"
  by (cases x) simp_all

lemma title_slot_loop_Some:
  "fst (title_slot_loop t k gs fr) = map_option (\<lambda>i. k + i) (find_index (\<lambda>g. ge_valid g \<and> ge_title_id g = t) gs)"
  by (induction gs arbitrary: k fr) (auto simp: option.map_comp comp_def)

lemma title_slot_loop_free:
  "title_slot_loop t k gs fr = (None, fi) \<Longrightarrow>
     fi = (case fr of Some f \<Rightarrow> Some f | None \<Rightarrow> map_option (\<lambda>i. k + i) (find_index (\<lambda>g. \<not> ge_valid g) gs))"
proof (induction gs arbitrary: k fr)
  case Nil
  then show ?case by (auto split: option.splits)
next
  case (Cons g gs)
  show ?case
  proof (cases "ge_valid g")
    case True
    then have "title_slot_loop t (Suc k) gs fr = (None, fi)" using Cons.prems by (auto split: if_splits)
    from Cons.IH [OF this] True show ?thesis by (auto simp: option.map_comp comp_def split: option.splits)
  next
    case False
    then have "title_slot_loop t (Suc k) gs (if fr = None then Some k else fr) = (None, fi)" using Cons.prems by simp
    from Cons.IH [OF this] False show ?thesis by (auto split: option.splits)
  qed
qed

lemma title_slot_cases:
  obtains (found) k fi where "title_slot_loop t 0 gs None = (Some k, fi)" "k < length gs" "ge_valid (gs ! k)"
      "ge_title_id (gs ! k) = t"
  | (absent) fi where "title_slot_loop t 0 gs None = (None, fi)"
      "\<And>g. g \<in> set gs \<Longrightarrow> ge_valid g \<Longrightarrow> ge_title_id g \<noteq> t" "fi = find_index (\<lambda>g. \<not> ge_valid g) gs"
proof (cases "title_slot_loop t 0 gs None")
  case (Pair ki fi)
  have ki: "ki = find_index (\<lambda>g. ge_valid g \<and> ge_title_id g = t) gs"
    using title_slot_loop_Some [of t 0 gs None] Pair by (simp add: option.map_ident)
  show thesis
  proof (cases ki)
    case (Some k)
    then show thesis using found [of k fi] Pair ki by (simp add: find_index_Some)
  next
    case None
    then have "fi = find_index (\<lambda>g. \<not> ge_valid g) gs" using title_slot_loop_free [of t 0 gs None fi] Pair by (simp add: zero_index)
    then show thesis
      using absent [of fi] Pair None ki find_index_None_set [of "\<lambda>g. ge_valid g \<and> ge_title_id g = t" gs] by auto
  qed
qed

lemma source_exists_cong:
  "ge_path e = ge_path e' \<Longrightarrow> ge_title_id e = ge_title_id e' \<Longrightarrow> game_cache_source_exists v e = game_cache_source_exists v e'"
  by (simp add: game_cache_source_exists_def)

lemma blank_game_invalid [simp]: "\<not> ge_valid blank_game"
  by (simp add: blank_game_def)

text \<open>What one title's turn does to the table.\<close>

lemma reconcile_title_entries:
  assumes e: "e \<in> set (games (reconcile_title v now t dlc img s))" and "ge_valid e"
    and m: "ge_missing_since_us e \<noteq> 0" "ge_missing_since_us e \<noteq> now"
  shows "e \<in> set (games s)"
proof -
  have nb: "e \<noteq> blank_game" using assms(2) by auto
  have upd: "e \<in> set (games s)" if "e \<in> set ((games s)[k := x])" "e \<noteq> x" for k x
    using that set_update_subset_insert [of "games s" k x] by auto
  have clr: "e \<in> set (games s)" if "e \<in> set (games (clear_game_cache_slot k s))" for k
    using that nb upd [of k blank_game] by (auto simp: clear_slot_games split: if_splits)
  show ?thesis
  proof (cases rule: title_slot_cases [of t "games s"])
    case (found k fi)
    let ?t = "start_missing_timer (games s ! k) now"
    have "e \<in> set (games (clear_game_cache_slot k s))
        \<or> e \<in> set ((games s)[k := (games s ! k)\<lparr>ge_missing_since_us := 0\<rparr>])
        \<or> e \<in> set ((games s)[k := ?t])"
      using e found by (auto simp: reconcile_title_def Let_def split: if_splits)
    moreover have "e \<noteq> (games s ! k)\<lparr>ge_missing_since_us := 0\<rparr>" using m by auto
    moreover have "e \<in> set (games s)" if "e = ?t"
      using that m found(2) by (auto simp: start_missing_timer_def split: if_splits)
    ultimately show ?thesis using clr upd by blast
  next
    case (absent fi)
    let ?t = "start_missing_timer (write_game_cache_slot [] t [] []) now"
    have "e \<in> set (games s) \<or> (\<exists>f. e \<in> set ((games s)[f := ?t]))"
      using e absent by (auto simp: reconcile_title_def split: if_splits option.splits)
    moreover have "e \<noteq> ?t" using m by (auto simp: start_missing_timer_def write_game_cache_slot_def split: if_splits)
    ultimately show ?thesis using upd by blast
  qed
qed

abbreviation titles_distinct :: "game_entry list \<Rightarrow> bool" where
  "titles_distinct gs \<equiv> keys_distinct ge_valid ge_title_id gs"

text \<open>After its turn, a title that is not protected has no running timer from an earlier turn
  while a source of it exists.\<close>

lemma reconcile_title_timer:
  assumes d: "titles_distinct (games s)" and len: "length (games s) = MAX_PENDING"
    and e: "e \<in> set (games (reconcile_title v now t False img s))" "ge_valid e" "ge_title_id e = t"
    and m: "ge_missing_since_us e \<noteq> 0" "ge_missing_since_us e \<noteq> now"
  shows "\<not> game_cache_source_exists v e \<and> \<not> img"
proof (cases rule: title_slot_cases [of t "games s"])
  case (found k fi)
  have old: "e \<in> set (games s)" using reconcile_title_entries [OF e(1,2) m] .
  then obtain j where j: "j < length (games s)" "e = games s ! j" by (metis in_set_conv_nth)
  then have "j = k" using keys_distinctD [OF d j(1) found(2)] e found by simp
  then have ek: "e = games s ! k" using j by simp
  show ?thesis
  proof (rule ccontr)
    assume "\<not> ?thesis"
    then have src: "game_cache_source_exists v (games s ! k) \<or> img" using ek by simp
    let ?gs = "games (reconcile_title v now t False img s)"
    have gs: "?gs = (games s)[k := blank_game] \<or> ?gs = (games s)[k := (games s ! k)\<lparr>ge_missing_since_us := 0\<rparr>]"
      using found src len by (auto simp: reconcile_title_def Let_def clear_slot_games)
    obtain i where i: "i < length (games s)" "e = ?gs ! i" using e(1) gs by (auto simp: in_set_conv_nth)
    have "i \<noteq> k" using i gs e(2) m(1) found(2) by auto
    then have "e = games s ! i" using i gs by auto
    then show False using \<open>i \<noteq> k\<close> keys_distinctD [OF d i(1) found(2)] e found by simp
  qed
next
  case (absent fi)
  have "e \<in> set (games s)" using reconcile_title_entries [OF e(1,2) m] .
  then show ?thesis using absent(2) e(2,3) by blast
qed

lemma titles_distinct_update_same:
  assumes "titles_distinct gs" and "k < length gs" and "ge_valid (gs ! k)" and "ge_title_id x = ge_title_id (gs ! k)"
  shows "titles_distinct (gs[k := x])"
proof (rule keys_distinct_update [OF assms(1)])
  fix j
  assume "j < length gs" "j \<noteq> k" "ge_valid (gs ! j)"
  then show "ge_title_id (gs ! j) \<noteq> ge_title_id x"
    using keys_distinctD [OF assms(1), of j k] assms by auto
qed

lemma titles_distinct_clear: "titles_distinct (games s) \<Longrightarrow> titles_distinct (games (clear_game_cache_slot k s))"
  by (auto simp: clear_slot_games intro: keys_distinct_update)

lemma length_clear [simp]: "length (games (clear_game_cache_slot k s)) = length (games s)"
  by (simp add: clear_slot_games)

lemma timer_title [simp]: "ge_title_id (start_missing_timer e now) = ge_title_id e"
  "ge_valid (start_missing_timer e now) = ge_valid e"
  by (simp_all add: start_missing_timer_def)

lemma reconcile_title_distinct:
  assumes d: "titles_distinct (games s)" and t: "length t < MAX_TITLE_ID"
  shows "titles_distinct (games (reconcile_title v now t dlc img s))"
    and "length (games (reconcile_title v now t dlc img s)) = length (games s)"
proof -
  have "titles_distinct (games (reconcile_title v now t dlc img s))
      \<and> length (games (reconcile_title v now t dlc img s)) = length (games s)"
  proof (cases rule: title_slot_cases [of t "games s"])
    case (found k fi)
    then show ?thesis
      using titles_distinct_clear [OF d, of k] titles_distinct_update_same [OF d found(2,3)]
      by (auto simp: reconcile_title_def Let_def)
  next
    case (absent fi)
    have "titles_distinct ((games s)[f := start_missing_timer (write_game_cache_slot [] t [] []) now])" for f
      using d absent(2) t by (intro keys_distinct_update) (auto simp: write_game_cache_slot_def strlcpy_id)
    then show ?thesis using absent d by (auto simp: reconcile_title_def split: option.split)
  qed
  then show "titles_distinct (games (reconcile_title v now t dlc img s))"
    "length (games (reconcile_title v now t dlc img s)) = length (games s)" by simp_all
qed

lemma has_source_stable:
  "fst (sm_image_index_has_source_for_title h build (snd (sm_image_index_has_source_for_title h build i t')) t)
   = fst (sm_image_index_has_source_for_title h build i t)"
proof -
  have "load_index h build (snd (sm_image_index_has_source_for_title h build i t')) = load_index h build i"
    by (simp add: sm_image_index_has_source_for_title_def Let_def load_idem)
  then show ?thesis
    by (cases "t = []") (simp_all only: sm_image_index_has_source_for_title_def Let_def fst_conv if_True if_False simp_thms)
qed

text \<open>What a pass over the titles \<open>ts\<close> of app.db does to the table, as far as timers from earlier
  passes are concerned: no such timer is new, and none runs for a title of \<open>ts\<close> that has a
  source and is not protected.\<close>

abbreviation indexed_source :: "genv \<Rightarrow> string \<Rightarrow> image_index \<Rightarrow> string \<Rightarrow> bool" where
  "indexed_source v build i t \<equiv> fst (sm_image_index_has_source_for_title (g_host v) build i t)"

definition old_timer :: "u64 \<Rightarrow> game_entry \<Rightarrow> bool" where
  "old_timer now e \<longleftrightarrow> ge_valid e \<and> ge_missing_since_us e \<noteq> 0 \<and> ge_missing_since_us e \<noteq> now"

definition removable :: "genv \<Rightarrow> bool \<Rightarrow> string \<Rightarrow> bool" where
  "removable v dlc t \<longleftrightarrow> \<not> g_protected v t \<and> \<not> title_is_protected_by_dlc v t dlc"

definition pass_ok :: "genv \<Rightarrow> string \<Rightarrow> u64 \<Rightarrow> bool \<Rightarrow> string list \<Rightarrow> removal_state \<Rightarrow> removal_state \<Rightarrow> bool" where
  "pass_ok v build now dlc ts r r' \<longleftrightarrow>
     titles_distinct (games (rm_game r')) \<and> length (games (rm_game r')) = MAX_PENDING
     \<and> (\<forall>t. indexed_source v build (rm_index r') t = indexed_source v build (rm_index r) t)
     \<and> rm_uninstalled r' = rm_uninstalled r \<and> rm_queue r' = rm_queue r
     \<and> (\<forall>e\<in>set (games (rm_game r')). old_timer now e \<longrightarrow>
          e \<in> set (games (rm_game r))
          \<and> (ge_title_id e \<in> set ts \<and> removable v dlc (ge_title_id e) \<longrightarrow>
               \<not> game_cache_source_exists v e \<and> \<not> indexed_source v build (rm_index r) (ge_title_id e)))"

lemma pass_ok_step:
  assumes d: "titles_distinct (games (rm_game r))" and len: "length (games (rm_game r)) = MAX_PENDING"
    and t: "length t < MAX_TITLE_ID"
  shows "pass_ok v build now dlc [t] r (reconcile_title_step v build now dlc t r)"
proof (cases "g_protected v t")
  case True
  then show ?thesis using d len by (auto simp: reconcile_title_step_def pass_ok_def removable_def)
next
  case False
  let ?p = "title_is_protected_by_dlc v t dlc" and ?r = "reconcile_title_step v build now dlc t r"
  define q where "q = (if ?p then (False, rm_index r) else sm_image_index_has_source_for_title (g_host v) build (rm_index r) t)"
  have r: "?r = r\<lparr>rm_index := snd q, rm_game := reconcile_title v now t ?p (fst q) (rm_game r)\<rparr>"
    using False by (simp add: reconcile_title_step_def Let_def q_def split: prod.split)
  have "indexed_source v build (snd q) t' = indexed_source v build (rm_index r) t'" for t'
    using has_source_stable by (simp add: q_def)
  moreover have "e \<in> set (games (rm_game r))
      \<and> (ge_title_id e = t \<and> \<not> ?p \<longrightarrow> \<not> game_cache_source_exists v e \<and> \<not> indexed_source v build (rm_index r) t)"
    if e: "e \<in> set (games (reconcile_title v now t ?p (fst q) (rm_game r)))" "old_timer now e" for e
    using reconcile_title_entries [OF e(1)] reconcile_title_timer [OF d len, of e v now t "fst q"] e
    by (auto simp: old_timer_def q_def)
  ultimately show ?thesis
    using reconcile_title_distinct [OF d t, of v now ?p "fst q"] len
    unfolding pass_ok_def r by (auto simp: removable_def)
qed

lemma pass_ok_trans:
  assumes "pass_ok v build now dlc ts r r1" and "pass_ok v build now dlc ts' r1 r2"
  shows "pass_ok v build now dlc (ts @ ts') r r2"
  using assms unfolding pass_ok_def by auto

lemma pass_ok_fold:
  assumes "titles_distinct (games (rm_game r))" and "length (games (rm_game r)) = MAX_PENDING"
    and "list_all (\<lambda>t. length t < MAX_TITLE_ID) ts"
  shows "pass_ok v build now dlc ts r (fold (reconcile_title_step v build now dlc) ts r)"
  using assms
proof (induction ts arbitrary: r)
  case Nil
  then show ?case by (simp add: pass_ok_def)
next
  case (Cons t ts)
  let ?r = "reconcile_title_step v build now dlc t r"
  have st: "pass_ok v build now dlc [t] r ?r" using pass_ok_step Cons.prems by simp
  then have "pass_ok v build now dlc ts ?r (fold (reconcile_title_step v build now dlc) ts ?r)"
    using Cons.IH [of ?r] Cons.prems by (simp add: pass_ok_def)
  from pass_ok_trans [OF st this] show ?case by simp
qed

lemma drop_unlisted_fold:
  assumes "titles_distinct (games s)" and "length (games s) = MAX_PENDING"
  shows "titles_distinct (games (fold (drop_unlisted_step v l) ks s))
    \<and> length (games (fold (drop_unlisted_step v l) ks s)) = MAX_PENDING
    \<and> (\<forall>e\<in>set (games (fold (drop_unlisted_step v l) ks s)). ge_valid e \<longrightarrow> e \<in> set (games s))"
  using assms
proof (induction ks arbitrary: s)
  case Nil
  then show ?case by simp
next
  case (Cons k ks)
  let ?s = "drop_unlisted_step v l k s"
  have "titles_distinct (games ?s)" "length (games ?s) = MAX_PENDING"
    using Cons.prems titles_distinct_clear by (auto simp: drop_unlisted_step_def Let_def)
  moreover have "\<forall>e\<in>set (games ?s). ge_valid e \<longrightarrow> e \<in> set (games s)"
    using set_update_subset_insert [of "games s" k blank_game]
    by (auto simp: drop_unlisted_step_def Let_def clear_slot_games split: if_splits)
  ultimately show ?case using Cons.IH [of ?s] by auto
qed

text \<open>The removal loop: what is requested had an expired entry in the table the loop started on.\<close>

lemma remove_expired_requests:
  "\<exists>new. rm_uninstalled (remove_expired v u l now delay dlc r) = rm_uninstalled r @ new
     \<and> (\<forall>t\<in>set new. t \<in> set l \<and> \<not> title_is_protected_by_dlc v t dlc
          \<and> (\<exists>e\<in>set (games (rm_game r)). missing_timer_expired e now delay
               \<and> \<not> g_protected v (ge_title_id e) \<and> strlcpy (ge_title_id e) MAX_TITLE_ID = t))"
proof (induction v u l now delay dlc r rule: remove_expired.induct)
  case (1 v u l now delay dlc r)
  let ?gs = "take MAX_PENDING (games (rm_game r))"
  show ?case
  proof (cases "expired_slot v now delay ?gs")
    case None
    then show ?thesis by (simp add: remove_expired.simps)
  next
    case (Some k)
    note x = expired_slotD [OF Some]
    let ?e = "games (rm_game r) ! k"
    let ?t = "strlcpy (ge_title_id ?e) MAX_TITLE_ID"
    let ?r1 = "r\<lparr>rm_game := clear_game_cache_slot k (rm_game r)\<rparr>"
    let ?r2 = "if \<not> app_db_title_list_contains l ?t then ?r1
                        else if title_is_protected_by_dlc v ?t dlc then ?r1
                        else if u ?t = 0
                        then ?r1\<lparr>rm_uninstalled := rm_uninstalled ?r1 @ [?t],
                                rm_queue := sm_install_forget_pending_title (rm_queue ?r1) ?t\<rparr>
                        else ?r1\<lparr>rm_uninstalled := rm_uninstalled ?r1 @ [?t]\<rparr>"
    have e: "?e \<in> set (games (rm_game r))" "missing_timer_expired ?e now delay" "\<not> g_protected v (ge_title_id ?e)"
      using x by auto
    have sub: "\<And>g. g \<in> set (games (clear_game_cache_slot k (rm_game r))) \<Longrightarrow> ge_valid g \<Longrightarrow> g \<in> set (games (rm_game r))"
      using set_update_subset_insert [of "games (rm_game r)" k blank_game]
      by (auto simp: clear_slot_games split: if_splits)
    show ?thesis
    proof (cases "?t = []")
      case True
      then show ?thesis using Some by (simp add: remove_expired.simps [of v u l now delay dlc r])
    next
      case False
      have g2: "games (rm_game ?r2) = games (clear_game_cache_slot k (rm_game r))" by simp
      obtain new where new: "rm_uninstalled (remove_expired v u l now delay dlc ?r2) = rm_uninstalled ?r2 @ new"
        "\<forall>t\<in>set new. t \<in> set l \<and> \<not> title_is_protected_by_dlc v t dlc
          \<and> (\<exists>e\<in>set (games (rm_game ?r2)). missing_timer_expired e now delay
               \<and> \<not> g_protected v (ge_title_id e) \<and> strlcpy (ge_title_id e) MAX_TITLE_ID = t)"
        using 1 [OF Some refl refl False refl] by blast
      have unf: "remove_expired v u l now delay dlc r = remove_expired v u l now delay dlc ?r2"
        using Some False by (simp only: remove_expired.simps [of v u l now delay dlc r] option.case Let_def if_False)
      have new2: "\<forall>t\<in>set new. t \<in> set l \<and> \<not> title_is_protected_by_dlc v t dlc
          \<and> (\<exists>e\<in>set (games (rm_game r)). missing_timer_expired e now delay
               \<and> \<not> g_protected v (ge_title_id e) \<and> strlcpy (ge_title_id e) MAX_TITLE_ID = t)"
        using new(2) sub unfolding g2 by (meson missing_timer_expired_def)
      show ?thesis
      proof (cases "app_db_title_list_contains l ?t \<and> \<not> title_is_protected_by_dlc v ?t dlc")
        case True
        then have "rm_uninstalled ?r2 = rm_uninstalled r @ [?t]" by simp
        then show ?thesis
          using new(1) new2 unf e True
          by (intro exI [of _ "?t # new"]) (auto dest: contains_found)
      next
        case False
        then have "rm_uninstalled ?r2 = rm_uninstalled r" by auto
        then show ?thesis using new(1) new2 unf by auto
      qed
    qed
  qed
qed

section \<open>Properties\<close>

lemma delay_positive:
  assumes "d \<noteq> 0"
  shows "(ucast (d :: u32) * 1000000 :: u64) \<noteq> 0"
proof -
  have b: "unat d < 2 ^ 32" using unsigned_less [of d, where 'a = nat] by simp
  have "unat (ucast d :: u64) = unat d"
    by (simp add: unsigned_ucast_eq take_bit_nat_eq_self_iff order_less_trans [OF b])
  then have "unat (ucast d * 1000000 :: u64) = unat d * 1000000"
    using b by (simp add: unat_word_ariths)
  then show ?thesis using assms by (auto simp: word_unat_eq_iff)
qed

text \<open>The table the code builds: a fixed number of slots, bounded titles, free slots blank.\<close>

definition games_ok :: "game_entry list \<Rightarrow> bool" where
  "games_ok gs \<longleftrightarrow> length gs = MAX_PENDING
     \<and> list_all (\<lambda>g. if ge_valid g then length (ge_title_id g) < MAX_TITLE_ID else g = blank_game) gs"

text \<open>C10. Automatic removal needs a sustained absence: every title for which a removal pass asks the
  system to uninstall was listed by app.db as removable, is protected neither by the shell nor by
  installed DLC, has no source in the image index, and had, before the pass, a slot whose source does
  not exist now and whose missing timer started at least the configured delay ago. In
  particular a title first missed in this very pass is never uninstalled by it. The table holds
  each title once, and the configured delay is at least one second, as the configuration reader
  enforces.\<close>

theorem auto_removal_needs_sustained_absence:
  assumes ok: "games_ok (games (rm_game r))" and d: "titles_distinct (games (rm_game r))"
    and ts: "list_all (\<lambda>t. length t < MAX_TITLE_ID) titles" and delay: "delay_seconds \<noteq> 0"
  shows "\<exists>new. rm_uninstalled (reconcile_missing_app_db_games v build u True (Some titles) now delay_seconds dlc r)
         = rm_uninstalled r @ new
    \<and> list_all (\<lambda>t. t \<in> set titles \<and> \<not> g_protected v t \<and> \<not> title_is_protected_by_dlc v t dlc
        \<and> \<not> fst (sm_image_index_has_source_for_title (g_host v) build (rm_index r) t)
        \<and> list_ex (\<lambda>e. ge_title_id e = t \<and> \<not> game_cache_source_exists v e
             \<and> missing_timer_expired e now (ucast delay_seconds * 1000000)) (games (rm_game r))) new"
proof -
  let ?delay = "ucast delay_seconds * 1000000 :: u64"
  define r0 where "r0 = r\<lparr>rm_game := fold (drop_unlisted_step v titles) [0..<MAX_PENDING] (rm_game r)\<rparr>"
  define r1 where "r1 = fold (reconcile_title_step v build now dlc) titles r0"
  have len: "length (games (rm_game r)) = MAX_PENDING" using ok by (simp add: games_ok_def)
  have drop: "titles_distinct (games (rm_game r0))" "length (games (rm_game r0)) = MAX_PENDING"
      "\<forall>e\<in>set (games (rm_game r0)). ge_valid e \<longrightarrow> e \<in> set (games (rm_game r))"
    using drop_unlisted_fold [OF d len, of v titles "[0..<MAX_PENDING]"] by (simp_all add: r0_def)
  have pass: "pass_ok v build now dlc titles r0 r1"
    unfolding r1_def by (rule pass_ok_fold [OF drop(1,2) ts])
  have run: "reconcile_missing_app_db_games v build u True (Some titles) now delay_seconds dlc r
      = remove_expired v u titles now ?delay dlc r1"
    by (simp add: reconcile_missing_app_db_games_def reconcile_missing_game_cache_def r0_def r1_def)
  obtain new where new: "rm_uninstalled (remove_expired v u titles now ?delay dlc r1) = rm_uninstalled r1 @ new"
    "\<forall>t\<in>set new. t \<in> set titles \<and> \<not> title_is_protected_by_dlc v t dlc
          \<and> (\<exists>e\<in>set (games (rm_game r1)). missing_timer_expired e now ?delay
               \<and> \<not> g_protected v (ge_title_id e) \<and> strlcpy (ge_title_id e) MAX_TITLE_ID = t)"
    using remove_expired_requests by blast
  have main: "t \<in> set titles \<and> \<not> g_protected v t \<and> \<not> title_is_protected_by_dlc v t dlc
      \<and> \<not> indexed_source v build (rm_index r) t
      \<and> list_ex (\<lambda>e. ge_title_id e = t \<and> \<not> game_cache_source_exists v e \<and> missing_timer_expired e now ?delay) (games (rm_game r))"
    if t: "t \<in> set new" for t
  proof -
    obtain e where e: "e \<in> set (games (rm_game r1))" "missing_timer_expired e now ?delay"
        "\<not> g_protected v (ge_title_id e)" "strlcpy (ge_title_id e) MAX_TITLE_ID = t"
      and tl: "t \<in> set titles" "\<not> title_is_protected_by_dlc v t dlc"
      using new(2) t by blast
    have old: "old_timer now e"
      using e(2) delay_positive [OF delay] by (auto simp: old_timer_def missing_timer_expired_def)
    then have in0: "e \<in> set (games (rm_game r0))" using pass e(1) by (auto simp: pass_ok_def)
    then have inr: "e \<in> set (games (rm_game r))" using drop(3) old by (simp add: old_timer_def)
    then have "length (ge_title_id e) < MAX_TITLE_ID"
      using ok old by (auto simp: games_ok_def list_all_iff old_timer_def)
    then have te: "ge_title_id e = t" using e(4) by (simp add: strlcpy_id)
    then have "\<not> game_cache_source_exists v e \<and> \<not> indexed_source v build (rm_index r0) t"
      using pass e(1,3) old tl by (auto simp: pass_ok_def removable_def)
    then show ?thesis using te e tl inr by (auto simp: list_ex_iff r0_def)
  qed
  show ?thesis
    using new(1) main pass unfolding run by (intro exI [of _ new]) (auto simp: list_all_iff pass_ok_def r0_def)
qed

definition sample_removal :: removal_state where
  "sample_removal = \<lparr>rm_game = \<lparr>games = game_cache_init[0 := (write_game_cache_slot ''/mnt/usb0/g'' ''PPSA01234'' ''G'' [])
       \<lparr>ge_missing_since_us := 1000000\<rparr>], game_titles = title_state_init\<rparr>,
     rm_index = image_index_start NoFile, rm_queue = install_queue_init, rm_uninstalled = []\<rparr>"

definition sample_genv :: genv where
  "sample_genv = \<lparr>g_host = empty_host, g_disk = (\<lambda>_. None), g_images = image_cache_init,
     g_scan_paths = [''/mnt/usb0''], g_protected = (\<lambda>_. False)\<rparr>"

theorem auto_removal_needs_sustained_absence_witness:
  "list_all (\<lambda>t. t \<in> set [''PPSA01234''])
     (rm_uninstalled (reconcile_missing_app_db_games sample_genv ''b'' (\<lambda>_. 0) True (Some [''PPSA01234'']) 9000000 5 False
        sample_removal))"
proof -
  have ok: "games_ok (games (rm_game sample_removal))"
    using list_all_update [of "\<lambda>g. if ge_valid g then length (ge_title_id g) < MAX_TITLE_ID else g = blank_game"
        game_cache_init "(write_game_cache_slot ''/mnt/usb0/g'' ''PPSA01234'' ''G'' [])\<lparr>ge_missing_since_us := 1000000\<rparr>" 0]
    by (simp add: games_ok_def sample_removal_def game_cache_init_def write_game_cache_slot_def strlcpy_def list_all_iff)
  have d: "titles_distinct (games (rm_game sample_removal))"
    using keys_distinct_update [of ge_valid ge_title_id game_cache_init]
    by (simp add: sample_removal_def game_cache_init_def)
  show ?thesis
    using auto_removal_needs_sustained_absence [OF ok d, of "[''PPSA01234'']" 5 sample_genv "''b''" "\<lambda>_. 0" 9000000 False]
    by (auto simp: list_all_iff sample_removal_def)
qed

text \<open>Pruning as a function of each slot alone.\<close>

definition pruned_game :: "genv \<Rightarrow> bool \<Rightarrow> game_entry \<Rightarrow> game_entry" where
  "pruned_game v auto_remove e =
     (if \<not> ge_valid e \<or> g_protected v (ge_title_id e) then e
      else if game_cache_source_exists v e then e\<lparr>ge_missing_since_us := 0\<rparr>
      else if auto_remove then e
      else blank_game)"

lemma prune_game_step_nth:
  assumes "k < MAX_PENDING" and "length (games s) = MAX_PENDING"
  shows "games (prune_game_step v auto None k s) = (games s)[k := pruned_game v auto (games s ! k)]"
  using assms by (auto simp: prune_game_step_def pruned_game_def clear_slot_games Let_def)

lemma fold_update_map:
  assumes step: "\<And>k s. k < n \<Longrightarrow> length (f s) = n \<Longrightarrow> f (g k s) = (f s)[k := h (f s ! k)]"
    and "length (f s) = n" and "m \<le> n"
  shows "f (fold g [0..<m] s) = map h (take m (f s)) @ drop m (f s) \<and> length (f (fold g [0..<m] s)) = n"
  using assms(3)
proof (induction m)
  case 0
  then show ?case using assms(2) by simp
next
  case (Suc m)
  let ?s = "fold g [0..<m] s"
  have IH: "f ?s = map h (take m (f s)) @ drop m (f s)" "length (f ?s) = n" using Suc by auto
  have "f (fold g [0..<Suc m] s) = (f ?s)[m := h (f ?s ! m)]" using step [of m ?s] IH Suc.prems by simp
  also have "f ?s ! m = f s ! m" using IH Suc.prems assms(2) by (simp add: nth_append)
  also have "(f ?s)[m := h (f s ! m)] = map h (take (Suc m) (f s)) @ drop (Suc m) (f s)"
    using IH Suc.prems assms(2)
    by (simp add: list_update_append take_Suc_conv_app_nth Cons_nth_drop_Suc [symmetric])
  finally show ?case using IH Suc.prems by simp
qed

text \<open>Pruning treats each slot on its own: the loop over the table computes the slot-wise map
  that keeps protected titles, stops the timer of every game whose source is there, and, only when
  automatic removal is off, drops the games whose source is gone.\<close>

theorem game_prune_is_slotwise:
  assumes "length (games s) = MAX_PENDING"
  shows "games (prune_game_cache v auto s) = map (pruned_game v auto) (games s)"
  using fold_update_map [of MAX_PENDING games "prune_game_step v auto None" "pruned_game v auto" s MAX_PENDING]
    prune_game_step_nth assms
  by (simp add: prune_game_cache_def prune_game_cache_entries_def)

theorem game_prune_is_slotwise_witness:
  "games (prune_game_cache sample_genv True (rm_game sample_removal)) = map (pruned_game sample_genv True) (games (rm_game sample_removal))"
  using game_prune_is_slotwise [of "rm_game sample_removal"] by (simp add: sample_removal_def game_cache_init_def)

lemma longer_root_fold:
  fixes m b :: string and ps :: "string list"
  assumes "list_all (\<lambda>p. length p < MAX_PATH) ps"
  defines "r \<equiv> fold (longer_root m) ps b"
  shows "(r = b \<or> r \<in> set ps \<and> path_matches_root_or_child m r) \<and> length b \<le> length r
     \<and> (\<forall>p\<in>set ps. path_matches_root_or_child m p \<longrightarrow> length p \<le> length r)"
  using assms(1) unfolding r_def
proof (induction ps arbitrary: b)
  case Nil
  then show ?case by simp
next
  case (Cons p ps)
  let ?b = "longer_root m p b"
  have b: "?b = b \<or> ?b = p \<and> path_matches_root_or_child m p" "length b \<le> length ?b"
    "path_matches_root_or_child m p \<longrightarrow> length p \<le> length ?b"
    using Cons.prems by (auto simp: longer_root_def strlcpy_id)
  define R where "R = fold (longer_root m) ps ?b"
  have IH: "R = ?b \<or> R \<in> set ps \<and> path_matches_root_or_child m R" "length ?b \<le> length R"
      "\<forall>p\<in>set ps. path_matches_root_or_child m p \<longrightarrow> length p \<le> length R"
    using Cons.IH [of ?b] Cons.prems by (simp_all add: R_def)
  have "R = b \<or> R \<in> set (p # ps) \<and> path_matches_root_or_child m R"
    using IH(1) b(1) by (elim disjE) simp_all
  moreover have "length b \<le> length R" using b(2) IH(2) by simp
  moreover have "\<forall>q\<in>set (p # ps). path_matches_root_or_child m q \<longrightarrow> length q \<le> length R"
    using b(3) IH(3) order_trans [OF _ IH(2)] by simp
  ultimately show ?case by (simp add: R_def)
qed

text \<open>The owning scan root of a game is the most specific one: the result is a configured scan
  root that the game's path (or the image it is mounted from) lies in, no configured root that
  contains it is longer, and the result is empty exactly when no root contains it.\<close>

theorem owning_scan_root_is_longest:
  assumes "list_all (\<lambda>p. p \<noteq> [] \<and> length p < MAX_PATH) (g_scan_paths v)"
    and "r = resolve_game_cache_owning_scan_root v p t"
  shows "(r = [] \<longleftrightarrow> \<not> list_ex (path_matches_root_or_child (resolve_match_path v p t)) (g_scan_paths v))
    \<and> (r = [] \<or> r \<in> set (g_scan_paths v) \<and> path_matches_root_or_child (resolve_match_path v p t) r)
    \<and> list_all (\<lambda>q. length q \<le> length r)
         (filter (path_matches_root_or_child (resolve_match_path v p t)) (g_scan_paths v))"
  using longer_root_fold [of "g_scan_paths v" "resolve_match_path v p t" "[]"] assms
  by (auto simp: resolve_game_cache_owning_scan_root_def list_all_iff list_ex_iff)

theorem owning_scan_root_is_longest_witness:
  "list_all (\<lambda>q. length q \<le> length (resolve_game_cache_owning_scan_root sample_genv ''/mnt/usb0/g'' ''T''))
     (filter (path_matches_root_or_child (resolve_match_path sample_genv ''/mnt/usb0/g'' ''T'')) (g_scan_paths sample_genv))"
  using owning_scan_root_is_longest [of sample_genv, OF _ refl, of "''/mnt/usb0/g''" "''T''"]
  by (simp add: sample_genv_def)

end
