(* ===== verification/Manual.thy ===== *)
theory Manual
  imports Title_State Text_Files Install_Queue
begin

text \<open>
  \<^verbatim>\<open>src/sm_manual.c\<close>: the user's list of manually added sources (\<^verbatim>\<open>manual.lst\<close>, one path per
  line, \<^verbatim>\<open>#\<close> starts a comment) and the record of what became of them (\<^verbatim>\<open>manual.status\<close>, one
  tab-separated line per title). Both are text files rewritten through a temporary file; the
  static array the code parses the status file into is a list local to each operation.

  A failing \<^verbatim>\<open>fopen\<close> for reading with an error other than \<^verbatim>\<open>ENOENT\<close> is the argument \<open>in_err\<close>, and
  reads that succeed at opening are assumed not to fail half-way.
\<close>

definition MANUAL_LIST_FILE :: string where "MANUAL_LIST_FILE = ''/data/shadowmount/manual.lst''"
definition MANUAL_STATUS_FILE :: string where "MANUAL_STATUS_FILE = ''/data/shadowmount/manual.status''"
abbreviation MANUAL_STATUS_CAPACITY :: nat where "MANUAL_STATUS_CAPACITY \<equiv> 1024"
abbreviation MANUAL_LINE_SIZE :: nat where "MANUAL_LINE_SIZE \<equiv> 1088"
abbreviation STATUS_LINE_SIZE :: nat where "STATUS_LINE_SIZE \<equiv> 1376"

datatype manual_status = MANUAL_STATUS_UNKNOWN | MANUAL_STATUS_INSTALLED | MANUAL_STATUS_DELETED

record manual_status_entry =
  ms_path :: string
  ms_title_id :: string
  ms_title_name :: string
  ms_status :: manual_status
  ms_remove_from_list :: bool

section \<open>Lines\<close>

text \<open>Trailing slashes of a reversed text, while more than one character is left.\<close>

fun drop_slashes :: "string \<Rightarrow> string" where
  "drop_slashes (c # d # r) = (if c = CHR ''/'' then drop_slashes (d # r) else c # d # r)"
| "drop_slashes r = r"

definition trim_manual_line :: "string \<Rightarrow> string" where
  "trim_manual_line line = rev (drop_slashes (dropWhile isspace (rev (dropWhile isspace line))))"

text \<open>One turn of the line loops of \<^verbatim>\<open>manual.lst\<close>: the line as \<^verbatim>\<open>fgets\<close> reads it, whether it is
  truncated, and, when it is, the rest of the line, which every loop reads on
  (\<^verbatim>\<open>drain_manual_file_line\<close>, \<^verbatim>\<open>copy_manual_file_line_remainder\<close>).\<close>

type_synonym chunk = "string \<times> bool \<times> string"

definition next_chunk :: "string \<Rightarrow> chunk \<times> string" where
  "next_chunk s =
     (let (l, r) = fgets_line (MANUAL_LINE_SIZE - 1) s;
          truncated = (NL \<notin> set l \<and> length l = MANUAL_LINE_SIZE - 1)
      in if truncated then (let (rest, r') = drain_line r in ((l, True, rest), r')) else ((l, False, []), r))"

lemma drain_line_le: "length (snd (drain_line s)) \<le> length s"
  using arg_cong [OF drain_line_append [of s], of length] by simp

lemma next_chunk_shorter: "s \<noteq> [] \<Longrightarrow> length (snd (next_chunk s)) < length s"
proof -
  assume s: "s \<noteq> []"
  obtain l r where lr: "fgets_line 1087 s = (l, r)" by (cases "fgets_line 1087 s")
  have "length r < length s" using fgets_line_rest [of 1087 s] s lr by simp
  then show ?thesis
    using drain_line_le [of r] lr by (auto simp: next_chunk_def Let_def split: prod.split)
qed

function chunks :: "string \<Rightarrow> chunk list" where
  "chunks s = (if s = [] then [] else (let (c, r) = next_chunk s in c # chunks r))"
  by pat_completeness auto

termination
  by (relation "measure length") (auto dest: next_chunk_shorter split: prod.splits, metis next_chunk_shorter snd_conv)

declare chunks.simps [simp del]

definition chunk_text :: "chunk \<Rightarrow> string" where
  "chunk_text c = fst c @ snd (snd c)"

definition sm_manual_normalize_path :: "string \<Rightarrow> string option" where
  "sm_manual_normalize_path p =
     (if length p \<ge> MAX_PATH then None
      else if CR \<in> set p \<or> NL \<in> set p then None
      else
        (let out = trim_manual_line p
         in if char_at out 0 = CHR ''/'' \<and> char_at out 1 \<noteq> CHR 0x00 then Some out else None))"

section \<open>The list\<close>

definition chunk_matches :: "string \<Rightarrow> chunk \<Rightarrow> bool" where
  "chunk_matches normalized_path c =
     (case c of (line, truncated, _) \<Rightarrow>
        (let normalized = trim_manual_line line
         in \<not> truncated \<and> normalized \<noteq> [] \<and> hd normalized \<noteq> CHR ''#'' \<and> normalized = normalized_path))"

text \<open>Closing, keeping or replacing the list once the new text is in the temporary file.\<close>

definition finish_manual_list :: "io \<Rightarrow> bool \<Rightarrow> string \<Rightarrow> disk \<Rightarrow> bool res \<times> disk" where
  "finish_manual_list f changed text d =
     (case io_open f of
        Some e \<Rightarrow> (Inl e, d)
      | None \<Rightarrow>
          (case io_write f of
             Some e \<Rightarrow> (Inl e, d(MANUAL_LIST_FILE @ ''.tmp'' := None))
           | None \<Rightarrow>
               (if \<not> changed then (Inr False, d(MANUAL_LIST_FILE @ ''.tmp'' := None))
                else
                  (case replace_file f MANUAL_LIST_FILE text d of
                     (Inl e, d') \<Rightarrow> (Inl e, d')
                   | (Inr _, d') \<Rightarrow> (Inr True, d')))))"

definition update_manual_list :: "errno option \<Rightarrow> io \<Rightarrow> string \<Rightarrow> bool \<Rightarrow> disk \<Rightarrow> bool res \<times> disk" where
  "update_manual_list in_err f p add d =
     (case sm_manual_normalize_path p of
        None \<Rightarrow> (Inl EINVAL, d)
      | Some normalized_path \<Rightarrow>
          (case in_err of
             Some e \<Rightarrow> (Inl e, d)
           | None \<Rightarrow>
               (let content = (case d MANUAL_LIST_FILE of None \<Rightarrow> [] | Some s \<Rightarrow> s);
                    needs_separator = (content \<noteq> [] \<and> last content \<noteq> NL);
                    cs = chunks content;
                    found = list_ex (chunk_matches normalized_path) cs;
                    kept = (if add then cs else filter (\<lambda>c. \<not> chunk_matches normalized_path c) cs);
                    text = concat (map chunk_text kept);
                    text' = (if add \<and> \<not> found
                             then text @ (if needs_separator then [NL] else []) @ normalized_path @ [NL] else text);
                    changed = (if add then \<not> found else found)
                in finish_manual_list f changed text' d)))"

definition sm_manual_add_path :: "errno option \<Rightarrow> io \<Rightarrow> string \<Rightarrow> disk \<Rightarrow> bool res \<times> disk" where
  "sm_manual_add_path in_err f p d = update_manual_list in_err f p True d"

definition sm_manual_remove_path :: "errno option \<Rightarrow> io \<Rightarrow> string \<Rightarrow> disk \<Rightarrow> bool res \<times> disk" where
  "sm_manual_remove_path in_err f p d = update_manual_list in_err f p False d"

definition chunk_path :: "chunk \<Rightarrow> string option" where
  "chunk_path c =
     (case c of (line, truncated, _) \<Rightarrow>
        (let p = trim_manual_line line
         in if p = [] \<or> hd p = CHR ''#'' then None
            else if truncated \<or> length p \<ge> MAX_PATH then None
            else Some p))"

fun visit_paths :: "(string \<Rightarrow> 'c \<Rightarrow> bool \<times> 'c) \<Rightarrow> chunk list \<Rightarrow> 'c \<Rightarrow> bool \<times> 'c" where
  "visit_paths visit [] ctx = (True, ctx)"
| "visit_paths visit (c # cs) ctx =
     (case chunk_path c of
        None \<Rightarrow> visit_paths visit cs ctx
      | Some p \<Rightarrow> (let (go, ctx') = visit p ctx in if go then visit_paths visit cs ctx' else (False, ctx')))"

definition sm_manual_for_each_path ::
  "errno option \<Rightarrow> (string \<Rightarrow> 'c \<Rightarrow> bool \<times> 'c) \<Rightarrow> disk \<Rightarrow> 'c \<Rightarrow> bool \<times> 'c" where
  "sm_manual_for_each_path in_err visit d ctx =
     (if in_err \<noteq> None then (False, ctx)
      else (case d MANUAL_LIST_FILE of None \<Rightarrow> (False, ctx) | Some content \<Rightarrow> visit_paths visit (chunks content) ctx))"

section \<open>The status file\<close>

definition manual_status_name :: "manual_status \<Rightarrow> string" where
  "manual_status_name s =
     (case s of MANUAL_STATUS_INSTALLED \<Rightarrow> ''installed'' | MANUAL_STATUS_DELETED \<Rightarrow> ''deleted''
              | MANUAL_STATUS_UNKNOWN \<Rightarrow> ''unknown'')"

definition parse_manual_status_name :: "string \<Rightarrow> manual_status" where
  "parse_manual_status_name name =
     (if strcaseeq name ''installed'' then MANUAL_STATUS_INSTALLED
      else if strcaseeq name ''deleted'' then MANUAL_STATUS_DELETED
      else MANUAL_STATUS_UNKNOWN)"

text \<open>\<^verbatim>\<open>strtok\<close> with one delimiter: the token and the text behind its delimiter.\<close>

definition strtok :: "char \<Rightarrow> string \<Rightarrow> (string \<times> string) option" where
  "strtok delim s =
     (let s' = dropWhile (\<lambda>c. c = delim) s
      in if s' = [] then None
         else Some (takeWhile (\<lambda>c. c \<noteq> delim) s', tl (dropWhile (\<lambda>c. c \<noteq> delim) s')))"

abbreviation TAB :: char where "TAB \<equiv> CHR 0x09"

definition status_entry :: "manual_status \<Rightarrow> string \<Rightarrow> string \<Rightarrow> string \<Rightarrow> manual_status_entry" where
  "status_entry status title_id p title_name = \<lparr>ms_path = strlcpy p MAX_PATH,
     ms_title_id = strlcpy title_id MAX_TITLE_ID, ms_title_name = strlcpy title_name MAX_TITLE_NAME,
     ms_status = status, ms_remove_from_list = False\<rparr>"

definition parse_manual_status_line :: "string \<Rightarrow> manual_status_entry option" where
  "parse_manual_status_line line =
     (case strtok TAB line of
        None \<Rightarrow> None
      | Some (status, r1) \<Rightarrow>
          (case strtok TAB r1 of
             None \<Rightarrow> None
           | Some (title_id, r2) \<Rightarrow>
               (case strtok TAB r2 of
                  None \<Rightarrow> None
                | Some (p, r3) \<Rightarrow>
                    (let title_name = (case strtok NL r3 of None \<Rightarrow> [] | Some (n, _) \<Rightarrow> trim_manual_line n);
                         parsed_status = parse_manual_status_name (trim_manual_line status);
                         title_id' = trim_manual_line title_id;
                         p' = trim_manual_line p
                     in if parsed_status = MANUAL_STATUS_UNKNOWN \<or> title_id' = [] \<or> p' = [] then None
                        else Some (status_entry parsed_status title_id' p' title_name)))))"

text \<open>The successive lines \<^verbatim>\<open>fgets\<close> reads; a line longer than the buffer comes in pieces.\<close>

function status_lines :: "string \<Rightarrow> string list" where
  "status_lines s =
     (if s = [] then [] else (let (l, r) = fgets_line (STATUS_LINE_SIZE - 1) s in l # status_lines r))"
  by pat_completeness auto

termination
  by (relation "measure length") (auto, metis fgets_line_rest snd_conv zero_less_numeral)

declare status_lines.simps [simp del]

definition load_manual_status :: "errno option \<Rightarrow> disk \<Rightarrow> manual_status_entry list" where
  "load_manual_status in_err d =
     (if in_err \<noteq> None then []
      else
        (case d MANUAL_STATUS_FILE of
           None \<Rightarrow> []
         | Some content \<Rightarrow> take MANUAL_STATUS_CAPACITY (List.map_filter parse_manual_status_line (status_lines content))))"

definition status_line :: "manual_status_entry \<Rightarrow> string" where
  "status_line e = manual_status_name (ms_status e) @ [TAB] @ ms_title_id e @ [TAB] @ ms_path e @ [TAB]
     @ ms_title_name e @ [NL]"

definition write_manual_status :: "io \<Rightarrow> manual_status_entry list \<Rightarrow> disk \<Rightarrow> bool \<times> disk" where
  "write_manual_status f entries d =
     (let written = filter (\<lambda>e. \<not> (ms_status e = MANUAL_STATUS_UNKNOWN \<or> ms_path e = [] \<or> ms_title_id e = [])) entries
      in case replace_file f MANUAL_STATUS_FILE (concat (map status_line written)) d of
           (Inl _, d') \<Rightarrow> (False, d')
         | (Inr _, d') \<Rightarrow> (True, d'))"

definition find_manual_status_entry :: "manual_status_entry list \<Rightarrow> string \<Rightarrow> string \<Rightarrow> nat option" where
  "find_manual_status_entry entries p title_id =
     find_index (\<lambda>e. p \<noteq> [] \<and> ms_path e = p \<or> title_id \<noteq> [] \<and> ms_title_id e = title_id) entries"

definition chunk_removed :: "manual_status_entry list \<Rightarrow> chunk \<Rightarrow> bool" where
  "chunk_removed entries c =
     (case c of (line, truncated, _) \<Rightarrow>
        (let normalized = trim_manual_line line
         in \<not> truncated \<and> normalized \<noteq> [] \<and> hd normalized \<noteq> CHR ''#''
            \<and> list_ex (\<lambda>e. ms_remove_from_list e \<and> ms_path e = normalized) entries))"

definition rewrite_manual_list_without_deleted_entries ::
  "errno option \<Rightarrow> io \<Rightarrow> manual_status_entry list \<Rightarrow> disk \<Rightarrow> bool \<times> disk" where
  "rewrite_manual_list_without_deleted_entries in_err f entries d =
     (if in_err \<noteq> None then (False, d)
      else
        (case d MANUAL_LIST_FILE of
           None \<Rightarrow> (True, d)
         | Some content \<Rightarrow>
             (let cs = chunks content;
                  kept = filter (\<lambda>c. \<not> chunk_removed entries c) cs
              in case finish_manual_list f (list_ex (chunk_removed entries) cs) (concat (map chunk_text kept)) d of
                   (Inl _, d') \<Rightarrow> (False, d')
                 | (Inr _, d') \<Rightarrow> (True, d'))))"

text \<open>What a title's removal changes elsewhere: its pending install and its two counters.\<close>

record manual_world =
  mw_disk :: disk
  mw_queue :: install_queue
  mw_titles :: title_state

definition title_gone :: "string list \<Rightarrow> manual_status_entry \<Rightarrow> bool" where
  "title_gone app_db_titles e \<longleftrightarrow>
     ms_status e = MANUAL_STATUS_INSTALLED \<and> ms_title_id e \<noteq> [] \<and> ms_title_id e \<notin> set app_db_titles"

definition forget_title :: "manual_status_entry \<Rightarrow> manual_world \<Rightarrow> manual_world" where
  "forget_title e w = w\<lparr>mw_queue := sm_install_forget_pending_title (mw_queue w) (ms_title_id e),
     mw_titles := clear_failed_mount_attempts (clear_register_attempts (mw_titles w) (ms_title_id e)) (ms_title_id e)\<rparr>"

definition sm_manual_reconcile_deleted_titles ::
  "errno option \<Rightarrow> errno option \<Rightarrow> io \<Rightarrow> io \<Rightarrow> string list option \<Rightarrow> manual_world \<Rightarrow> bool \<times> manual_world" where
  "sm_manual_reconcile_deleted_titles status_err list_err f_list f_status app_db_titles w =
     (case app_db_titles of
        None \<Rightarrow> (True, w)
      | Some titles \<Rightarrow>
          (let entries = load_manual_status status_err (mw_disk w);
               gone = filter (title_gone titles) entries
           in if gone = [] then (True, w)
              else
                (let entries' = map (\<lambda>e. if title_gone titles e
                                  then e\<lparr>ms_status := MANUAL_STATUS_DELETED, ms_remove_from_list := True\<rparr> else e) entries;
                     w1 = fold forget_title gone w;
                     (ok, d1) = rewrite_manual_list_without_deleted_entries list_err f_list entries' (mw_disk w1)
                 in if \<not> ok then (False, w1\<lparr>mw_disk := d1\<rparr>)
                    else (let (ok2, d2) = write_manual_status f_status entries' d1 in (ok2, w1\<lparr>mw_disk := d2\<rparr>)))))"

definition sm_manual_note_installed ::
  "errno option \<Rightarrow> io \<Rightarrow> string \<Rightarrow> string \<Rightarrow> string \<Rightarrow> disk \<Rightarrow> disk" where
  "sm_manual_note_installed status_err f manual_source_path title_id title_name d =
     (if manual_source_path = [] \<or> title_id = [] then d
      else
        (let entries = load_manual_status status_err d;
             blank = \<lparr>ms_path = [], ms_title_id = [], ms_title_name = [], ms_status = MANUAL_STATUS_UNKNOWN,
                      ms_remove_from_list = False\<rparr>;
             slot = (case find_manual_status_entry entries manual_source_path title_id of
                       Some i \<Rightarrow> Some (i, entries)
                     | None \<Rightarrow> if length entries \<ge> MANUAL_STATUS_CAPACITY then None
                                else Some (length entries, entries @ [blank]))
         in case slot of
              None \<Rightarrow> d
            | Some (i, es) \<Rightarrow>
                (let e = es ! i;
                     unchanged = (ms_status e = MANUAL_STATUS_INSTALLED \<and> ms_path e = manual_source_path
                        \<and> ms_title_id e = title_id \<and> (title_name = [] \<or> ms_title_name e = title_name));
                     e' = e\<lparr>ms_status := MANUAL_STATUS_INSTALLED, ms_path := strlcpy manual_source_path MAX_PATH,
                            ms_title_id := strlcpy title_id MAX_TITLE_ID,
                            ms_title_name := (if title_name \<noteq> [] then strlcpy title_name MAX_TITLE_NAME
                                              else ms_title_name e)\<rparr>
                 in if unchanged then d else snd (write_manual_status f (es[i := e']) d))))"

section \<open>Trimming\<close>

lemma isspace_eol [simp]: "isspace NL" "isspace CR" "\<not> isspace (CHR ''/'')"
  by (simp_all add: isspace_def)

lemma trim_append_NL: "trim_manual_line (l @ [NL]) = trim_manual_line l"
proof (cases "\<exists>c\<in>set l. \<not> isspace c")
  case True
  then show ?thesis by (auto simp: trim_manual_line_def dropWhile_append)
next
  case False
  then have "dropWhile isspace l = []" "dropWhile isspace (l @ [NL]) = []"
    by (auto simp: dropWhile_eq_Nil_conv)
  then show ?thesis by (simp only: trim_manual_line_def)
qed

lemma drop_slashes_last: "Suc 0 < length (drop_slashes r) \<Longrightarrow> hd (drop_slashes r) \<noteq> CHR ''/''"
  by (induction r rule: drop_slashes.induct) (auto split: if_splits)

lemma drop_slashes_id: "r = [] \<or> hd r \<noteq> CHR ''/'' \<Longrightarrow> drop_slashes r = r"
  by (cases r rule: drop_slashes.cases) auto

lemma drop_slashes_suffix: "\<exists>t. r = t @ drop_slashes r"
proof (induction r rule: drop_slashes.induct)
  case (1 c d r)
  show ?case
  proof (cases "c = CHR ''/''")
    case True
    then obtain t where "d # r = t @ drop_slashes (d # r)" using 1 by blast
    then show ?thesis using True by (intro exI [of _ "c # t"]) simp
  qed simp
qed simp_all

lemma trim_id:
  assumes "p \<noteq> []" and "\<not> isspace (hd p)" and "\<not> isspace (last p)" and "last p \<noteq> CHR ''/''"
  shows "trim_manual_line p = p"
proof -
  have "dropWhile isspace p = p" using assms(1,2) by (cases p) auto
  moreover have "dropWhile isspace (rev p) = rev p" using assms(1,3) by (cases "rev p") (auto simp: hd_rev [symmetric])
  moreover have "drop_slashes (rev p) = rev p" using assms(1,4) by (intro drop_slashes_id) (simp add: hd_rev)
  ultimately show ?thesis by (simp add: trim_manual_line_def)
qed

lemma trim_length: "length (trim_manual_line p) \<le> length p"
proof -
  obtain t where "dropWhile isspace (rev (dropWhile isspace p)) = t @ drop_slashes (dropWhile isspace (rev (dropWhile isspace p)))"
    using drop_slashes_suffix by blast
  then have "length (drop_slashes (dropWhile isspace (rev (dropWhile isspace p)))) \<le> length (dropWhile isspace (rev (dropWhile isspace p)))"
    by (metis le_add2 length_append)
  also have "\<dots> \<le> length p"
    by (metis length_dropWhile_le length_rev order_trans)
  finally show ?thesis by (simp add: trim_manual_line_def)
qed

text \<open>What the normaliser accepts.\<close>

lemma normalize_shape:
  assumes "sm_manual_normalize_path q = Some p"
  shows "p = trim_manual_line q" and "p \<noteq> []" and "hd p = CHR ''/''" and "Suc 0 < length p" and "length p < MAX_PATH"
    and "last p \<noteq> CHR ''/''"
proof -
  show p: "p = trim_manual_line q" using assms by (auto simp: sm_manual_normalize_path_def Let_def split: if_splits)
  have c: "char_at p 0 = CHR ''/''" "char_at p 1 \<noteq> CHR 0x00" "length q < MAX_PATH"
    using assms by (auto simp: sm_manual_normalize_path_def Let_def split: if_splits)
  show l: "Suc 0 < length p" using c(2) by (auto simp: char_at_def split: if_splits)
  then show "p \<noteq> []" by auto
  show "hd p = CHR ''/''" using c(1) l by (cases p) (auto simp: char_at_def)
  show "length p < MAX_PATH" using trim_length [of q] c(3) p by simp
  show "last p \<noteq> CHR ''/''"
    using drop_slashes_last [of "dropWhile isspace (rev (dropWhile isspace q))"] l
    by (simp add: p trim_manual_line_def last_rev)
qed

lemma set_trim: "set (trim_manual_line q) \<subseteq> set q"
proof -
  obtain t where "dropWhile isspace (rev (dropWhile isspace q)) = t @ drop_slashes (dropWhile isspace (rev (dropWhile isspace q)))"
    using drop_slashes_suffix by blast
  then have "set (drop_slashes (dropWhile isspace (rev (dropWhile isspace q)))) \<subseteq> set (dropWhile isspace (rev (dropWhile isspace q)))"
    by (metis Un_upper2 set_append)
  also have "\<dots> \<subseteq> set q" using set_dropWhileD by (metis set_rev subsetI)
  finally show ?thesis by (simp add: trim_manual_line_def)
qed

lemma normalize_no_eol: "sm_manual_normalize_path q = Some p \<Longrightarrow> NL \<notin> set p"
  using set_trim [of q] by (auto simp: sm_manual_normalize_path_def Let_def split: if_splits)

section \<open>Lines of the list\<close>

definition terminated :: "chunk \<Rightarrow> bool" where
  "terminated c = (case c of (l, truncated, rest) \<Rightarrow>
     if truncated then NL \<notin> set l \<and> length l = 1087 \<and> (\<exists>b. rest = b @ [NL] \<and> NL \<notin> set b)
     else rest = [] \<and> (\<exists>b. l = b @ [NL] \<and> NL \<notin> set b \<and> length b < 1087))"

definition unterminated :: "chunk \<Rightarrow> bool" where
  "unterminated c = (case c of (l, truncated, rest) \<Rightarrow> NL \<notin> set l \<and>
     (if truncated then length l = 1087 \<and> NL \<notin> set rest else rest = [] \<and> l \<noteq> [] \<and> length l < 1087))"

fun chunks_ok :: "chunk list \<Rightarrow> bool" where
  "chunks_ok [] \<longleftrightarrow> True"
| "chunks_ok [c] \<longleftrightarrow> terminated c \<or> unterminated c"
| "chunks_ok (c # d # cs) \<longleftrightarrow> terminated c \<and> chunks_ok (d # cs)"

lemma drain_line_whole: "NL \<notin> set b \<Longrightarrow> drain_line (b @ NL # s) = (b @ [NL], s)"
  by (induction b) auto

lemma drain_line_last: "NL \<notin> set b \<Longrightarrow> drain_line b = (b, [])"
  by (induction b) auto

lemma next_chunk_terminated: "terminated c \<Longrightarrow> next_chunk (chunk_text c @ s) = (c, s)"
proof -
  assume t: "terminated c"
  obtain l tr rest where c: "c = (l, tr, rest)" by (cases c)
  show ?thesis
  proof (cases tr)
    case True
    then obtain b where b: "rest = b @ [NL]" "NL \<notin> set b" "NL \<notin> set l" "length l = 1087"
      using t c by (auto simp: terminated_def)
    then show ?thesis
      using fgets_line_exact [of l "rest @ s"] drain_line_whole [of b s] c True by (simp add: next_chunk_def chunk_text_def)
  next
    case False
    then obtain b where b: "rest = []" "l = b @ [NL]" "NL \<notin> set b" "length b < 1087"
      using t c by (auto simp: terminated_def)
    then show ?thesis
      using fgets_line_whole [of b 1087 s] c False by (simp add: next_chunk_def chunk_text_def)
  qed
qed

lemma next_chunk_unterminated: "unterminated c \<Longrightarrow> next_chunk (chunk_text c) = (c, [])"
proof -
  assume t: "unterminated c"
  obtain l tr rest where c: "c = (l, tr, rest)" by (cases c)
  show ?thesis
  proof (cases tr)
    case True
    then show ?thesis
      using t c fgets_line_exact [of l rest] drain_line_last [of rest]
      by (simp add: next_chunk_def chunk_text_def unterminated_def)
  next
    case False
    then show ?thesis
      using t c fgets_line_last [of l 1087] by (simp add: next_chunk_def chunk_text_def unterminated_def)
  qed
qed

lemma chunk_text_nonempty: "terminated c \<or> unterminated c \<Longrightarrow> chunk_text c \<noteq> []"
  by (cases c) (auto simp: terminated_def unterminated_def chunk_text_def split: if_splits)

lemma chunks_concat: "chunks_ok cs \<Longrightarrow> chunks (concat (map chunk_text cs)) = cs"
proof (induction cs rule: chunks_ok.induct)
  case 1
  then show ?case by (simp add: chunks.simps)
next
  case (2 c)
  then have "next_chunk (chunk_text c) = (c, [])"
    using next_chunk_terminated [of c "[]"] next_chunk_unterminated [of c] by auto
  then show ?case using chunk_text_nonempty [of c] 2 by (simp add: chunks.simps [of "chunk_text c"] chunks.simps [of "[]"])
next
  case (3 c d cs)
  then have t: "terminated c" and ok: "chunks_ok (d # cs)" by simp_all
  show ?case
    using next_chunk_terminated [OF t, of "concat (map chunk_text (d # cs))"] chunk_text_nonempty [of c] t 3
    by (simp add: chunks.simps [of "chunk_text c @ chunk_text d @ concat (map chunk_text cs)"])
qed

lemma fgets_line_kind:
  "fgets_line n s = (l, r) \<Longrightarrow> (\<exists>b. l = b @ [NL] \<and> NL \<notin> set b \<and> length b < n)
     \<or> NL \<notin> set l \<and> (length l = n \<or> r = [] \<and> length l < n)"
proof (induction n s arbitrary: l r rule: fgets_line.induct)
  case (3 n c s)
  show ?case
  proof (cases "c = NL")
    case True
    then show ?thesis using 3 by (intro disjI1 exI [of _ "[]"]) simp
  next
    case False
    then obtain l' where l': "fgets_line n s = (l', r)" "l = c # l'" using 3 by (auto split: prod.splits)
    from 3(1) [OF False l'(1)] show ?thesis
    proof (elim disjE exE conjE)
      fix b
      assume "l' = b @ [NL]" "NL \<notin> set b" "length b < n"
      then show ?thesis using False l'(2) by (intro disjI1 exI [of _ "c # b"]) simp
    qed (use False l' in auto)
  qed
qed auto

lemma drain_line_kind:
  "drain_line s = (l, r) \<Longrightarrow> (\<exists>b. l = b @ [NL] \<and> NL \<notin> set b) \<or> NL \<notin> set l \<and> r = []"
proof (induction s arbitrary: l r)
  case (Cons c s)
  show ?case
  proof (cases "c = NL")
    case True
    then show ?thesis using Cons by (intro disjI1 exI [of _ "[]"]) simp
  next
    case False
    then obtain l' where l': "drain_line s = (l', r)" "l = c # l'" using Cons by (auto split: prod.splits)
    from Cons.IH [OF l'(1)] show ?thesis
    proof (elim disjE exE conjE)
      fix b
      assume "l' = b @ [NL]" "NL \<notin> set b"
      then show ?thesis using False l'(2) by (intro disjI1 exI [of _ "c # b"]) simp
    qed (use False l' in auto)
  qed
qed simp

lemma next_chunk_kind:
  assumes "s \<noteq> []" and "next_chunk s = (c, r)"
  shows "chunk_text c @ r = s" and "terminated c \<or> unterminated c \<and> r = []"
proof -
  obtain l r1 where lr: "fgets_line 1087 s = (l, r1)" by (cases "fgets_line 1087 s")
  have app: "l @ r1 = s" using fgets_line_append [of 1087 s] lr by simp
  obtain rest r2 where dr: "drain_line r1 = (rest, r2)" by (cases "drain_line r1")
  have app2: "rest @ r2 = r1" using drain_line_append [of r1] dr by simp
  note kind = fgets_line_kind [OF lr] drain_line_kind [OF dr]
  have c: "c = (if NL \<notin> set l \<and> length l = 1087 then (l, True, rest) else (l, False, []))"
    "r = (if NL \<notin> set l \<and> length l = 1087 then r2 else r1)"
    using assms(2) lr dr by (auto simp: next_chunk_def Let_def split: if_splits)
  show "chunk_text c @ r = s" using c app app2 by (auto simp: chunk_text_def)
  show "terminated c \<or> unterminated c \<and> r = []"
  proof (cases "NL \<notin> set l \<and> length l = 1087")
    case True
    then show ?thesis using c kind(2) by (auto simp: terminated_def unterminated_def)
  next
    case False
    then show ?thesis using c kind(1) app assms(1) by (auto simp: terminated_def unterminated_def)
  qed
qed

lemma chunks_text: "concat (map chunk_text (chunks s)) = s"
proof (induction s rule: chunks.induct)
  case (1 s)
  show ?case
  proof (cases "s = []")
    case True
    then show ?thesis by (simp add: chunks.simps)
  next
    case False
    obtain c r where cr: "next_chunk s = (c, r)" by (cases "next_chunk s")
    then show ?thesis
      using 1 [OF False cr [symmetric] refl] next_chunk_kind(1) [OF False cr] False by (simp add: chunks.simps [of s])
  qed
qed

lemma chunks_ok_Cons: "terminated c \<Longrightarrow> chunks_ok cs \<Longrightarrow> chunks_ok (c # cs)"
  by (cases cs) auto

lemma chunks_ok_chunks: "chunks_ok (chunks s)"
proof (induction s rule: chunks.induct)
  case (1 s)
  show ?case
  proof (cases "s = []")
    case True
    then show ?thesis by (simp add: chunks.simps)
  next
    case False
    obtain c r where cr: "next_chunk s = (c, r)" by (cases "next_chunk s")
    have IH: "chunks_ok (chunks r)" using 1 [OF False cr [symmetric] refl] .
    have eq: "chunks s = c # chunks r" using False cr by (simp add: chunks.simps [of s])
    from next_chunk_kind(2) [OF False cr] show ?thesis
    proof (elim disjE conjE)
      assume "terminated c"
      then show ?thesis using IH eq chunks_ok_Cons by simp
    next
      assume "unterminated c" "r = []"
      then show ?thesis using eq by (simp add: chunks.simps [of "[]"])
    qed
  qed
qed

lemma chunks_ok_filter: "chunks_ok cs \<Longrightarrow> chunks_ok (filter P cs)"
proof (induction cs rule: chunks_ok.induct)
  case (3 c d cs)
  then show ?case using chunks_ok_Cons by auto
qed auto

text \<open>The list as its readers see it.\<close>

definition manual_paths :: "string \<Rightarrow> string list" where
  "manual_paths text = List.map_filter chunk_path (chunks text)"

lemma manual_paths_filter:
  assumes "chunks_ok cs"
  shows "manual_paths (concat (map chunk_text (filter P cs))) = List.map_filter chunk_path (filter P cs)"
  using chunks_concat [OF chunks_ok_filter [OF assms, of P]] by (simp add: manual_paths_def)

lemma chunk_matches_path:
  assumes "p \<noteq> []" and "hd p = CHR ''/''" and "length p < MAX_PATH"
  shows "chunk_matches p c \<longleftrightarrow> chunk_path c = Some p"
  using assms by (cases c) (auto simp: chunk_matches_def chunk_path_def Let_def)

text \<open>Closing the last line with a line feed changes nothing that is read from it.\<close>

fun close_chunk :: "chunk \<Rightarrow> chunk" where
  "close_chunk (l, truncated, rest) = (if truncated then (l, True, rest @ [NL]) else (l @ [NL], False, rest))"

lemma close_chunk_facts:
  assumes "unterminated c"
  shows "terminated (close_chunk c)" and "chunk_path (close_chunk c) = chunk_path c"
    and "chunk_text (close_chunk c) = chunk_text c @ [NL]"
  using assms by (cases c; auto simp: unterminated_def terminated_def chunk_path_def chunk_text_def trim_append_NL Let_def)+

lemma chunks_ok_snoc: "list_all terminated cs \<Longrightarrow> terminated c \<or> unterminated c \<Longrightarrow> chunks_ok (cs @ [c])"
  by (induction cs) (auto intro: chunks_ok_Cons)

lemma chunks_ok_split: "chunks_ok cs \<Longrightarrow> list_all terminated cs \<or> (\<exists>ds c. cs = ds @ [c] \<and> list_all terminated ds \<and> unterminated c)"
proof (induction cs rule: chunks_ok.induct)
  case (2 c)
  then show ?case by (auto intro: exI [of _ "[]"])
next
  case (3 c d cs)
  then have t: "terminated c" and IH: "list_all terminated (d # cs)
      \<or> (\<exists>ds x. d # cs = ds @ [x] \<and> list_all terminated ds \<and> unterminated x)" by auto
  from IH show ?case
  proof (elim disjE exE conjE)
    fix ds x
    assume "d # cs = ds @ [x]" "list_all terminated ds" "unterminated x"
    then show ?thesis using t by (intro disjI2 exI [of _ "c # ds"] exI [of _ x]) simp
  qed (use t in simp)
qed simp

lemma last_chunk_text: "unterminated c \<Longrightarrow> last (chunk_text c) \<noteq> NL"
proof -
  assume u: "unterminated c"
  then have "NL \<notin> set (chunk_text c)" "chunk_text c \<noteq> []"
    using chunk_text_nonempty [of c] by (cases c; auto simp: unterminated_def chunk_text_def split: if_splits)+
  then show ?thesis using last_in_set by metis
qed

lemma last_terminated_text: "terminated c \<Longrightarrow> last (chunk_text c) = NL"
  by (cases c) (auto simp: terminated_def chunk_text_def split: if_splits)

lemma manual_paths_append:
  assumes t: "trim_manual_line p = p" and p: "p \<noteq> []" "hd p = CHR ''/''" "length p < MAX_PATH" "NL \<notin> set p"
  shows "manual_paths (text @ (if text \<noteq> [] \<and> last text \<noteq> NL then [NL] else []) @ p @ [NL]) = manual_paths text @ [p]"
proof -
  define cs where "cs = chunks text"
  have ct: "concat (map chunk_text cs) = text" using chunks_text by (simp add: cs_def)
  let ?new = "(p @ [NL], False, []) :: chunk"
  have new: "terminated ?new" "chunk_path ?new = Some p" "chunk_text ?new = p @ [NL]"
    using p t by (auto simp: terminated_def chunk_path_def chunk_text_def trim_append_NL Let_def)
  have ok: "chunks_ok cs" using chunks_ok_chunks by (simp add: cs_def)
  from chunks_ok_split [OF ok] show ?thesis
  proof (elim disjE exE conjE)
    assume all: "list_all terminated cs"
    have "text = [] \<or> last text = NL"
    proof (cases cs rule: rev_cases)
      case Nil
      then show ?thesis using ct by simp
    next
      case (snoc ds c)
      then show ?thesis
        using ct all last_terminated_text [of c] chunk_text_nonempty [of c] by (auto simp: last_append)
    qed
    then have "chunks (text @ (if text \<noteq> [] \<and> last text \<noteq> NL then [NL] else []) @ p @ [NL]) = cs @ [?new]"
      using chunks_concat [OF chunks_ok_snoc [OF all, of ?new]] new ct by auto
    then show ?thesis using new by (simp add: manual_paths_def cs_def map_filter_def)
  next
    fix ds c
    assume ds: "cs = ds @ [c]" "list_all terminated ds" "unterminated c"
    have "last text \<noteq> NL" "text \<noteq> []"
      using ct ds last_chunk_text [OF ds(3)] chunk_text_nonempty [of c] by (auto simp: last_append)
    moreover have "list_all terminated (ds @ [close_chunk c])" using ds close_chunk_facts(1) [OF ds(3)] by simp
    ultimately have "chunks (text @ (if text \<noteq> [] \<and> last text \<noteq> NL then [NL] else []) @ p @ [NL]) = (ds @ [close_chunk c]) @ [?new]"
      using chunks_concat [OF chunks_ok_snoc [of "ds @ [close_chunk c]" ?new]] new ct ds close_chunk_facts(3) [OF ds(3)] by auto
    then show ?thesis
      using new ds close_chunk_facts(2) [OF ds(3)] by (simp add: manual_paths_def cs_def [symmetric] map_filter_def)
  qed
qed

section \<open>Properties\<close>

definition manual_list :: "disk \<Rightarrow> string list" where
  "manual_list d = (case d MANUAL_LIST_FILE of None \<Rightarrow> [] | Some text \<Rightarrow> manual_paths text)"

lemma finish_manual_list_cases:
  assumes "finish_manual_list f changed text d = (Inr ch, d')"
  shows "ch = changed" and "manual_list d' = (if changed then manual_paths text else manual_list d)"
  using assms replace_file_ok [of f MANUAL_LIST_FILE "text" d]
  by (auto simp: finish_manual_list_def manual_list_def split: option.splits if_splits prod.splits sum.splits)

lemma map_filter_filter: "List.map_filter f (filter (\<lambda>c. f c \<noteq> Some p) cs) = filter (\<lambda>x. x \<noteq> p) (List.map_filter f cs)"
proof (induction cs)
  case (Cons c cs)
  then show ?case by (cases "f c") (auto simp: map_filter_def)
qed (simp add: map_filter_def)

lemma in_map_filter: "p \<in> set (List.map_filter f cs) \<longleftrightarrow> list_ex (\<lambda>c. f c = Some p) cs"
  by (induction cs) (auto simp: map_filter_def split: option.splits)

text \<open>C21. Editing the list of manual sources refines list editing: seen as the list of paths its
  readers are given, a successful add appends the normalised path unless it is there already, a
  successful remove deletes every occurrence of it, both report whether they changed something, and comments,
  blank lines, over-long lines and a missing final line feed disturb nothing. The normalised path must not
  end in white space.\<close>

theorem manual_list_editing_refines:
  assumes n: "sm_manual_normalize_path q = Some p" and sp: "\<not> isspace (last p)"
    and u: "update_manual_list in_err f q add d = (Inr changed, d')"
  shows "manual_list d' = (if add then (if p \<in> set (manual_list d) then manual_list d else manual_list d @ [p])
                          else filter (\<lambda>x. x \<noteq> p) (manual_list d))
    \<and> changed = (if add then p \<notin> set (manual_list d) else p \<in> set (manual_list d))"
proof -
  note p = normalize_shape [OF n]
  define tx where "tx = (case d MANUAL_LIST_FILE of None \<Rightarrow> [] | Some s \<Rightarrow> s)"
  have ml: "manual_list d = manual_paths tx"
    by (auto simp: manual_list_def tx_def manual_paths_def chunks.simps [of "[]"] map_filter_def split: option.split)
  have m: "chunk_matches p c \<longleftrightarrow> chunk_path c = Some p" for c
    using chunk_matches_path p by blast
  have found: "list_ex (chunk_matches p) (chunks tx) \<longleftrightarrow> p \<in> set (manual_list d)"
    by (simp add: ml manual_paths_def in_map_filter m [abs_def] cong: list_ex_cong)
  have nl: "NL \<notin> set p" using normalize_no_eol [OF n] .
  have t: "trim_manual_line p = p" using p sp by (intro trim_id) auto
  have in_none: "in_err = None" using u n by (auto simp: update_manual_list_def split: option.splits)
  show ?thesis
  proof (cases add)
    case True
    have fin: "finish_manual_list f (p \<notin> set (manual_list d))
        (if p \<in> set (manual_list d) then tx else tx @ (if tx \<noteq> [] \<and> last tx \<noteq> NL then [NL] else []) @ p @ [NL]) d
        = (Inr changed, d')"
      using u n in_none True found by (auto simp: update_manual_list_def Let_def tx_def [symmetric] chunks_text split: if_splits)
    show ?thesis
      using finish_manual_list_cases [OF fin] True manual_paths_append [OF t p(2,3,5) nl, of tx] ml by auto
  next
    case False
    have fin: "finish_manual_list f (p \<in> set (manual_list d))
        (concat (map chunk_text (filter (\<lambda>c. \<not> chunk_matches p c) (chunks tx)))) d = (Inr changed, d')"
      using u n in_none False found by (simp add: update_manual_list_def Let_def tx_def [symmetric])
    have "manual_paths (concat (map chunk_text (filter (\<lambda>c. \<not> chunk_matches p c) (chunks tx)))) = filter (\<lambda>x. x \<noteq> p) (manual_list d)"
      using manual_paths_filter [OF chunks_ok_chunks, of "\<lambda>c. \<not> chunk_matches p c" tx] map_filter_filter [of chunk_path p "chunks tx"]
      by (simp add: m ml manual_paths_def)
    moreover have "filter (\<lambda>x. x \<noteq> p) (manual_list d) = manual_list d" if "p \<notin> set (manual_list d)"
      using that by (auto simp: filter_id_conv)
    ultimately show ?thesis
      using finish_manual_list_cases [OF fin] False by simp
  qed
qed

theorem manual_list_editing_refines_witness:
  "manual_list (snd (update_manual_list None io_ok ''/mnt/usb0/Game/'' True (\<lambda>_. None))) = [''/mnt/usb0/Game'']"
proof -
  have n: "sm_manual_normalize_path ''/mnt/usb0/Game/'' = Some ''/mnt/usb0/Game''"
    by (simp add: sm_manual_normalize_path_def trim_manual_line_def isspace_def char_at_def)
  have "\<exists>d'. update_manual_list None io_ok ''/mnt/usb0/Game/'' True (\<lambda>_. None) = (Inr True, d')"
    by (simp add: update_manual_list_def n finish_manual_list_def replace_file_def io_ok_def chunks.simps [of "[]"])
  then obtain d' where "update_manual_list None io_ok ''/mnt/usb0/Game/'' True (\<lambda>_. None) = (Inr True, d')" by blast
  from manual_list_editing_refines [OF n _ this] this show ?thesis
    by (simp add: isspace_def manual_list_def)
qed

text \<open>Without the condition on white space the list and the normaliser disagree: a directory name that
  ends in a blank keeps the blank when the slash behind it is cut off, but a line of the list loses it.\<close>

lemma manual_trailing_blank_divergence:
  "sm_manual_normalize_path ''/mnt/a /'' = Some ''/mnt/a ''
   \<and> manual_list (snd (sm_manual_add_path None io_ok ''/mnt/a /'' (\<lambda>_. None))) = [''/mnt/a'']"
proof -
  have n: "sm_manual_normalize_path ''/mnt/a /'' = Some ''/mnt/a ''"
    by (simp add: sm_manual_normalize_path_def trim_manual_line_def isspace_def char_at_def)
  have "chunks_ok [(''/mnt/a '' @ [NL], False, [])]" by (simp add: terminated_def)
  from chunks_concat [OF this]
  have c: "chunks (''/mnt/a '' @ [NL]) = [(''/mnt/a '' @ [NL], False, [])]" by (simp add: chunk_text_def)
  have "manual_paths (''/mnt/a '' @ [NL]) = [''/mnt/a'']"
    unfolding manual_paths_def c
    by (simp add: map_filter_def chunk_path_def trim_manual_line_def isspace_def)
  then show ?thesis
    using n by (simp add: sm_manual_add_path_def update_manual_list_def finish_manual_list_def replace_file_def io_ok_def
        chunks.simps [of "[]"] manual_list_def)
qed

section \<open>The status file\<close>

definition wf_status_entry :: "manual_status_entry \<Rightarrow> bool" where
  "wf_status_entry e \<longleftrightarrow>
     ms_status e \<noteq> MANUAL_STATUS_UNKNOWN \<and> \<not> ms_remove_from_list e
     \<and> ms_title_id e \<noteq> [] \<and> length (ms_title_id e) < MAX_TITLE_ID \<and> TAB \<notin> set (ms_title_id e) \<and> NL \<notin> set (ms_title_id e)
     \<and> trim_manual_line (ms_title_id e) = ms_title_id e
     \<and> ms_path e \<noteq> [] \<and> length (ms_path e) < MAX_PATH \<and> TAB \<notin> set (ms_path e) \<and> NL \<notin> set (ms_path e)
     \<and> trim_manual_line (ms_path e) = ms_path e
     \<and> length (ms_title_name e) < MAX_TITLE_NAME \<and> NL \<notin> set (ms_title_name e)
     \<and> trim_manual_line (ms_title_name e) = ms_title_name e"

lemma strtok_token: "t \<noteq> [] \<Longrightarrow> d \<notin> set t \<Longrightarrow> strtok d (t @ d # r) = Some (t, r)"
proof -
  assume t: "t \<noteq> []" "d \<notin> set t"
  have "dropWhile (\<lambda>c. c = d) (t @ d # r) = t @ d # r" using t by (cases t) auto
  moreover have "takeWhile (\<lambda>c. c \<noteq> d) (t @ d # r) = t" "dropWhile (\<lambda>c. c \<noteq> d) (t @ d # r) = d # r"
    using t(2) by (induction t) auto
  ultimately show ?thesis by (simp add: strtok_def)
qed

lemma trim_status_name: "trim_manual_line (manual_status_name st) = manual_status_name st"
  by (cases st) (simp_all add: manual_status_name_def trim_manual_line_def isspace_def)

lemma parse_status_line:
  assumes "wf_status_entry e"
  shows "parse_manual_status_line (status_line e) = Some e"
proof -
  have w: "ms_status e \<noteq> MANUAL_STATUS_UNKNOWN" "\<not> ms_remove_from_list e"
      "ms_title_id e \<noteq> []" "TAB \<notin> set (ms_title_id e)" "trim_manual_line (ms_title_id e) = ms_title_id e"
      "ms_path e \<noteq> []" "TAB \<notin> set (ms_path e)" "trim_manual_line (ms_path e) = ms_path e"
      "NL \<notin> set (ms_title_name e)" "trim_manual_line (ms_title_name e) = ms_title_name e"
    and len: "length (ms_title_id e) < MAX_TITLE_ID" "length (ms_path e) < MAX_PATH" "length (ms_title_name e) < MAX_TITLE_NAME"
    using assms by (simp_all add: wf_status_entry_def)
  have st: "manual_status_name (ms_status e) \<noteq> []" "TAB \<notin> set (manual_status_name (ms_status e))"
      "parse_manual_status_name (manual_status_name (ms_status e)) = ms_status e"
    using w(1) by (cases "ms_status e"; simp add: manual_status_name_def parse_manual_status_name_def strcaseeq_def tolower_def)+
  have "strtok TAB (status_line e) = Some (manual_status_name (ms_status e), ms_title_id e @ TAB # ms_path e @ TAB # ms_title_name e @ [NL])"
    using strtok_token [OF st(1,2)] by (simp add: status_line_def)
  moreover have "strtok TAB (ms_title_id e @ TAB # ms_path e @ TAB # ms_title_name e @ [NL]) = Some (ms_title_id e, ms_path e @ TAB # ms_title_name e @ [NL])"
    by (rule strtok_token [OF w(3,4)])
  moreover have "strtok TAB (ms_path e @ TAB # ms_title_name e @ [NL]) = Some (ms_path e, ms_title_name e @ [NL])"
    by (rule strtok_token [OF w(6,7)])
  moreover have "(case strtok NL (ms_title_name e @ [NL]) of None \<Rightarrow> [] | Some (n, _) \<Rightarrow> trim_manual_line n) = ms_title_name e"
  proof (cases "ms_title_name e = []")
    case True
    then show ?thesis by (simp add: strtok_def)
  next
    case False
    then show ?thesis using strtok_token [OF False w(9), of "[]"] w(10) by simp
  qed
  ultimately show ?thesis
    using st w len by (simp add: parse_manual_status_line_def trim_status_name status_entry_def strlcpy_id)
qed

lemma status_line_parts:
  assumes "wf_status_entry e"
  obtains b where "status_line e = b @ [NL]" "NL \<notin> set b" "length b < 1375"
proof -
  let ?b = "manual_status_name (ms_status e) @ [TAB] @ ms_title_id e @ [TAB] @ ms_path e @ [TAB] @ ms_title_name e"
  have "length (manual_status_name (ms_status e)) \<le> 9" "NL \<notin> set (manual_status_name (ms_status e))"
    by (cases "ms_status e"; simp add: manual_status_name_def)+
  then show thesis using assms by (intro that [of ?b]) (auto simp: status_line_def wf_status_entry_def)
qed

lemma status_lines_concat:
  "list_all wf_status_entry es \<Longrightarrow> status_lines (concat (map status_line es)) = map status_line es"
proof (induction es)
  case Nil
  then show ?case by (simp add: status_lines.simps)
next
  case (Cons e es)
  then obtain b where b: "status_line e = b @ [NL]" "NL \<notin> set b" "length b < 1375"
    using status_line_parts [of e] by auto
  have "fgets_line 1375 (b @ NL # concat (map status_line es)) = (b @ [NL], concat (map status_line es))"
    using fgets_line_whole [of b 1375] b by simp
  then show ?case using Cons b by (simp add: status_lines.simps [of "b @ NL # concat (map status_line es)"])
qed

text \<open>The status file round trip: entries without tabs, line feeds or blanks and slashes at the
  ends of their fields, written without error, are loaded back unchanged and in order.\<close>

theorem manual_status_roundtrip:
  assumes "list_all wf_status_entry es" and "length es \<le> MANUAL_STATUS_CAPACITY" and "fst (write_manual_status f es d)"
  shows "load_manual_status None (snd (write_manual_status f es d)) = es"
proof -
  have "filter (\<lambda>e. \<not> (ms_status e = MANUAL_STATUS_UNKNOWN \<or> ms_path e = [] \<or> ms_title_id e = [])) es = es"
    using assms(1) by (auto simp: filter_id_conv list_all_iff wf_status_entry_def)
  then have "snd (write_manual_status f es d) MANUAL_STATUS_FILE = Some (concat (map status_line es))"
    using assms(3) replace_file_ok [of f MANUAL_STATUS_FILE "concat (map status_line es)" d]
    by (auto simp: write_manual_status_def split: prod.splits sum.splits)
  moreover have "List.map_filter parse_manual_status_line (map status_line es) = es"
    using assms(1) by (induction es) (simp_all add: map_filter_def parse_status_line)
  ultimately show ?thesis
    using status_lines_concat [OF assms(1)] assms(2) by (simp add: load_manual_status_def)
qed

theorem manual_status_roundtrip_witness:
  "load_manual_status None (snd (write_manual_status io_ok
      [status_entry MANUAL_STATUS_INSTALLED ''PPSA01234'' ''/mnt/usb0/Game'' ''My Game''] (\<lambda>_. None)))
   = [status_entry MANUAL_STATUS_INSTALLED ''PPSA01234'' ''/mnt/usb0/Game'' ''My Game'']"
  using manual_status_roundtrip [of "[status_entry MANUAL_STATUS_INSTALLED ''PPSA01234'' ''/mnt/usb0/Game'' ''My Game'']" io_ok "\<lambda>_. None"]
  by (simp add: wf_status_entry_def status_entry_def strlcpy_def trim_manual_line_def isspace_def write_manual_status_def
      replace_file_def io_ok_def)

text \<open>A game whose name ends in a slash is not such an entry: the reader trims the name like a path.\<close>

lemma manual_status_name_slash_lost:
  "map_option ms_title_name (parse_manual_status_line
     (status_line (status_entry MANUAL_STATUS_INSTALLED ''PPSA01234'' ''/mnt/usb0/Game'' ''Fate/'')))
   = Some ''Fate''"
  by (simp add: parse_manual_status_line_def status_line_def status_entry_def strtok_def strlcpy_def manual_status_name_def
      trim_manual_line_def isspace_def parse_manual_status_name_def strcaseeq_def tolower_def)

end
