(* ===== verification/Install_Service.thy ===== *)
theory Install_Service
  imports Install_Queue Game_Cache Manual
begin

text \<open>
  \<^verbatim>\<open>src/sm_install_queue.c\<close>, the service around the queue of \<^verbatim>\<open>Install_Queue.thy\<close>: polling the
  submitted batch for success or timeout, submitting the queued titles, counting failed
  submissions and dropping titles at the retry limit.

  The state is the queue together with what the service changes elsewhere: the title
  table, the game cache, the \<^verbatim>\<open>manual.status\<close> file, and the requests it issues (messages,
  \<^verbatim>\<open>snd0\<close> updates of the database, invalidations of the title list, release of the scan's mounts).
  \<open>service_env\<close> holds what a call reads from outside: configuration, the sleep flag, the
  clock, the title list read from \<^verbatim>\<open>app.db\<close> (\<open>None\<close> when it cannot be read), the code
  \<^verbatim>\<open>sceAppInstUtilAppInstallAll\<close> returns and the two localised texts. An operation is a
  partial function: \<open>None\<close> is the NULL dereference that \<^verbatim>\<open>bump_failed_mount_attempts\<close> would
  make if it had no entry.
\<close>

section \<open>State\<close>

record install_world =
  iw_queue :: install_queue
  iw_titles :: title_state
  iw_games :: "game_entry list"
  iw_disk :: disk
  iw_notices :: "notice list"
  iw_snd0_updates :: "string list"
  iw_app_db_invalidations :: nat
  iw_mount_releases :: nat

record service_env =
  sv_game :: genv
  sv_status_error :: "errno option"
  sv_io :: io
  sv_install_all :: bool
  sv_sleeping :: bool
  sv_app_db :: "string list option"
  sv_now :: u64
  sv_install_result :: u32
  sv_text_queued :: "int \<Rightarrow> string"
  sv_text_more :: "int \<Rightarrow> string"

definition BATCH_MESSAGE_SIZE :: nat where "BATCH_MESSAGE_SIZE = 3075"

section \<open>Completion\<close>

definition note_pending_install_failure :: "install_world \<Rightarrow> nat \<Rightarrow> (u8 \<times> install_world) option" where
  "note_pending_install_failure w i =
     (case bump_failed_mount_attempts (iw_titles w) (pi_title_id (pending_installs (iw_queue w) ! i)) of
        None \<Rightarrow> None
      | Some (failed_attempts, st) \<Rightarrow> Some (failed_attempts, w\<lparr>iw_titles := st\<rparr>))"

definition finalize_pending_install_success :: "service_env \<Rightarrow> nat \<Rightarrow> install_world \<Rightarrow> install_world" where
  "finalize_pending_install_success v i w =
     (let e = pending_installs (iw_queue w) ! i;
          w1 = w\<lparr>iw_notices := iw_notices w @ [GAME_INSTALLED (pi_title_id e)]\<rparr>;
          w2 = (if pi_has_src_snd0 e then w1\<lparr>iw_snd0_updates := iw_snd0_updates w1 @ [pi_title_id e]\<rparr> else w1);
          w3 = w2\<lparr>iw_games := cache_game_entry ((sv_game v)\<lparr>g_disk := iw_disk w2\<rparr>)
                   (pi_source_path e) (pi_title_id e) (pi_title_name e) (iw_games w2)\<rparr>;
          w4 = (if pi_manual e
                then w3\<lparr>iw_disk := sm_manual_note_installed (sv_status_error v) (sv_io v)
                         (pi_manual_source_path e) (pi_title_id e) (pi_title_name e) (iw_disk w3)\<rparr>
                else w3);
          w5 = w4\<lparr>iw_titles := clear_register_attempts (iw_titles w4) (pi_title_id e)\<rparr>;
          w6 = w5\<lparr>iw_titles := clear_failed_mount_attempts (iw_titles w5) (pi_title_id e)\<rparr>
      in w6\<lparr>iw_queue := clear_pending_install_entry (iw_queue w6) i\<rparr>)"

definition finalize_pending_install_timeout :: "nat \<Rightarrow> install_world \<Rightarrow> install_world option" where
  "finalize_pending_install_timeout i w =
     (let e = pending_installs (iw_queue w) ! i;
          w1 = w\<lparr>iw_notices := iw_notices w @ [INSTALL_FAILED_TIMEOUT (pi_title_name e) (pi_title_id e)]\<rparr>
      in case note_pending_install_failure w1 i of
           None \<Rightarrow> None
         | Some (_, w2) \<Rightarrow> Some (w2\<lparr>iw_queue := clear_pending_install_entry (iw_queue w2) i\<rparr>))"

definition install_timed_out :: "u64 \<Rightarrow> pending_install_entry \<Rightarrow> bool" where
  "install_timed_out now_us e \<longleftrightarrow>
     now_us \<noteq> 0 \<and> pi_requested_at_us e \<noteq> 0 \<and> now_us \<ge> pi_requested_at_us e
     \<and> now_us - pi_requested_at_us e \<ge> INSTALL_WAIT_TIMEOUT_US"

definition in_app_db :: "string list option \<Rightarrow> string \<Rightarrow> bool" where
  "in_app_db app_db_titles title_id =
     (case app_db_titles of None \<Rightarrow> False | Some ts \<Rightarrow> app_db_title_list_contains ts title_id)"

definition poll_slot :: "service_env \<Rightarrow> nat \<Rightarrow> install_world \<Rightarrow> install_world option" where
  "poll_slot v i w =
     (let e = pending_installs (iw_queue w) ! i in
      if pi_state e \<noteq> INSTALL_TRACK_SUBMITTED then Some w
      else if in_app_db (sv_app_db v) (pi_title_id e) then Some (finalize_pending_install_success v i w)
      else if install_timed_out (sv_now v) e then finalize_pending_install_timeout i w
      else Some w)"

definition poll_pending_installs :: "service_env \<Rightarrow> install_world \<Rightarrow> install_world option" where
  "poll_pending_installs v w =
     (if submitted_install_count (iw_queue w) \<le> 0 then Some w
      else
        (let w1 = w\<lparr>iw_app_db_invalidations := Suc (iw_app_db_invalidations w)\<rparr> in
         case each_slot (poll_slot v) [0..<MAX_PENDING] w1 of
           None \<Rightarrow> None
         | Some w2 \<Rightarrow>
             (let q3 = schedule_pending_install_poll (sv_now v) (iw_queue w2);
                  q4 = (if submitted_install_count q3 = 0 then schedule_queued_install_submit (sv_now v) q3 else q3);
                  w4 = w2\<lparr>iw_queue := q4\<rparr>
              in Some (if \<not> sm_install_has_pending_work q4
                       then w4\<lparr>iw_mount_releases := Suc (iw_mount_releases w4)\<rparr> else w4))))"

definition sm_install_poll_pending :: "service_env \<Rightarrow> install_world \<Rightarrow> install_world option" where
  "sm_install_poll_pending v w = (if sv_sleeping v then Some w else poll_pending_installs v w)"

section \<open>Submission\<close>

text \<open>\<^verbatim>\<open>snprintf(message + used, sz - used, ...)\<close> of a text, truncated to the buffer.\<close>

definition append_bounded :: "nat \<Rightarrow> string \<Rightarrow> string \<Rightarrow> string" where
  "append_bounded sz message s = message @ take (sz - length message - 1) s"

definition append_batch_install_line :: "nat \<Rightarrow> string \<Rightarrow> string \<Rightarrow> string \<times> int \<Rightarrow> string \<times> int" where
  "append_batch_install_line message_size title_name title_id m =
     (let (message, shown_count) = m;
          line = [CHR 0x0A] @ title_name @ '' ('' @ title_id @ '')''
      in if message_size = 0 then m
         else if length message \<ge> message_size then m
         else if length line \<ge> message_size - length message
         then (append_bounded message_size message line, shown_count)
         else (append_bounded message_size message line, shown_count + 1))"

definition append_queued :: "pending_install_entry \<Rightarrow> string \<times> int \<Rightarrow> string \<times> int" where
  "append_queued e m =
     (if pi_state e \<noteq> INSTALL_TRACK_QUEUED then m
      else append_batch_install_line BATCH_MESSAGE_SIZE (pi_title_name e) (pi_title_id e) m)"

definition batch_message :: "(int \<Rightarrow> string) \<Rightarrow> (int \<Rightarrow> string) \<Rightarrow> install_queue \<Rightarrow> string" where
  "batch_message text_queued text_more q =
     (let queued_count = count_queued_installs q;
          (message, shown_count) =
            fold append_queued (pending_installs q) (append_bounded BATCH_MESSAGE_SIZE [] (text_queued queued_count), 0)
      in if shown_count < queued_count \<and> length message < BATCH_MESSAGE_SIZE
         then append_bounded BATCH_MESSAGE_SIZE message (text_more (queued_count - shown_count))
         else message)"

definition notify_queued_install_batch :: "service_env \<Rightarrow> install_world \<Rightarrow> install_world" where
  "notify_queued_install_batch v w =
     (let q = iw_queue w in
      if count_queued_installs q \<le> 0 \<or> queued_install_batch_announced q then w
      else w\<lparr>iw_notices := iw_notices w
               @ [BATCH_INSTALL_QUEUED (batch_message (sv_text_queued v) (sv_text_more v) q)],
             iw_queue := q\<lparr>queued_install_batch_announced := True\<rparr>\<rparr>)"

definition drop_queued_install_entry :: "nat \<Rightarrow> install_world \<Rightarrow> install_world" where
  "drop_queued_install_entry i w =
     (if pi_state (pending_installs (iw_queue w) ! i) \<noteq> INSTALL_TRACK_QUEUED then w
      else w\<lparr>iw_queue := clear_pending_install_entry (iw_queue w) i\<rparr>)"

definition submit_slot :: "u64 \<Rightarrow> nat \<Rightarrow> install_world \<Rightarrow> install_world" where
  "submit_slot now_us i w =
     (let q = iw_queue w; e = pending_installs q ! i in
      if pi_state e \<noteq> INSTALL_TRACK_QUEUED then w
      else w\<lparr>iw_queue := q\<lparr>pending_installs := (pending_installs q)[i :=
                 e\<lparr>pi_state := INSTALL_TRACK_SUBMITTED, pi_requested_at_us := now_us\<rparr>],
               submitted_install_count := submitted_install_count q + 1\<rparr>,
             iw_titles := clear_failed_mount_attempts (iw_titles w) (pi_title_id e)\<rparr>)"

definition sm_install_submit_queued :: "service_env \<Rightarrow> install_world \<Rightarrow> bool \<times> install_world" where
  "sm_install_submit_queued v w =
     (let q = iw_queue w; queued_count = count_queued_installs q; now_us = sv_now v in
      if sv_sleeping v then (True, w)
      else if queued_count \<le> 0 then (True, w)
      else if submitted_install_count q > 0 then (True, w)
      else if queued_install_submit_due_us q \<noteq> 0 \<and> now_us \<noteq> 0 \<and> now_us < queued_install_submit_due_us q
      then (True, w)
      else
        (let w1 = notify_queued_install_batch v w; q1 = iw_queue w1 in
         if sv_install_result v \<noteq> 0 then
           (let w2 = (if queued_install_submit_failure_notified q1 then w1
                      else w1\<lparr>iw_notices := iw_notices w1 @ [BATCH_INSTALL_FAILED queued_count (sv_install_result v)],
                              iw_queue := q1\<lparr>queued_install_submit_failure_notified := True\<rparr>\<rparr>)
            in (False, w2\<lparr>iw_queue := schedule_queued_install_submit_retry now_us (iw_queue w2)\<rparr>))
         else
           (let w2 = w1\<lparr>iw_queue := q1\<lparr>queued_install_submit_due_us := 0,
                                        queued_install_submit_failure_notified := False\<rparr>\<rparr>;
                w3 = fold (submit_slot now_us) [0..<MAX_PENDING] w2;
                w4 = w3\<lparr>iw_app_db_invalidations := Suc (iw_app_db_invalidations w3)\<rparr>
            in (True, w4\<lparr>iw_queue := schedule_pending_install_poll now_us (iw_queue w4)\<rparr>))))"

definition failure_slot :: "nat \<Rightarrow> install_world \<Rightarrow> install_world option" where
  "failure_slot i w =
     (if pi_state (pending_installs (iw_queue w) ! i) \<noteq> INSTALL_TRACK_QUEUED then Some w
      else
        (case note_pending_install_failure w i of
           None \<Rightarrow> None
         | Some (failed_attempts, w1) \<Rightarrow>
             Some (if failed_attempts \<ge> MAX_FAILED_MOUNT_ATTEMPTS then drop_queued_install_entry i w1 else w1)))"

definition sm_install_note_submit_failure :: "install_world \<Rightarrow> install_world option" where
  "sm_install_note_submit_failure w = each_slot failure_slot [0..<MAX_PENDING] w"

text \<open>The sleep flag, the clock and the configuration are read again by each of the three
  stages, so each stage has its own environment.\<close>

definition sm_install_service_pending ::
  "service_env \<Rightarrow> service_env \<Rightarrow> service_env \<Rightarrow> install_world \<Rightarrow> install_world option" where
  "sm_install_service_pending v v_poll v_submit w =
     (if sv_sleeping v then Some w
      else if \<not> install_queue_active (sv_install_all v) (iw_queue w) then Some w
      else
        (case sm_install_poll_pending v_poll w of
           None \<Rightarrow> None
         | Some w1 \<Rightarrow>
             if count_queued_installs (iw_queue w1) > 0 then
               (case sm_install_submit_queued v_submit w1 of
                  (True, w2) \<Rightarrow> Some w2
                | (False, w2) \<Rightarrow> sm_install_note_submit_failure w2)
             else Some w1))"

section \<open>Invariants\<close>

definition world_inv :: "install_world \<Rightarrow> bool" where
  "world_inv w \<longleftrightarrow> queue_inv (iw_queue w) \<and> title_inv (iw_titles w)"

lemma queue_table: "queue_inv q \<Longrightarrow> length (pending_installs q) = MAX_PENDING"
  by (simp add: queue_inv_def)

lemma tracked_title_wf:
  assumes "queue_inv q" and "k < MAX_PENDING" and "pi_state (pending_installs q ! k) \<noteq> INSTALL_TRACK_NONE"
  shows "wf_title_id (pi_title_id (pending_installs q ! k))"
  using queue_inv_nth [OF assms(1,2)] assms(3) by (simp add: install_entry_ok_def tracked_entry_def wf_title_id_def)

lemma note_failure_ok:
  assumes "world_inv w" and "k < MAX_PENDING" and "pi_state (pending_installs (iw_queue w) ! k) \<noteq> INSTALL_TRACK_NONE"
  obtains st where "note_pending_install_failure w k =
      Some (sat_inc (get_failed_mount_attempts (iw_titles w) (pi_title_id (pending_installs (iw_queue w) ! k))), w\<lparr>iw_titles := st\<rparr>)"
    "world_inv (w\<lparr>iw_titles := st\<rparr>)"
    "title_of st (pi_title_id (pending_installs (iw_queue w) ! k))
      = (title_of (iw_titles w) (pi_title_id (pending_installs (iw_queue w) ! k)))\<lparr>te_mount_reg_attempts :=
          sat_inc (get_failed_mount_attempts (iw_titles w) (pi_title_id (pending_installs (iw_queue w) ! k)))\<rparr>"
    "bump_failed_mount_attempts (iw_titles w) (pi_title_id (pending_installs (iw_queue w) ! k))
      = Some (sat_inc (get_failed_mount_attempts (iw_titles w) (pi_title_id (pending_installs (iw_queue w) ! k))), st)"
proof -
  have "title_inv (iw_titles w)" and "wf_title_id (pi_title_id (pending_installs (iw_queue w) ! k))"
    using assms tracked_title_wf by (auto simp: world_inv_def)
  then show thesis
    by (rule bump_failed_spec) (rule that, use assms(1) in \<open>simp_all add: note_pending_install_failure_def world_inv_def\<close>)
qed

section \<open>Polling, slot by slot\<close>

text \<open>What a poll makes of one entry, and what it tells the user.\<close>

definition poll_done :: "service_env \<Rightarrow> pending_install_entry \<Rightarrow> bool" where
  "poll_done v e \<longleftrightarrow> pi_state e = INSTALL_TRACK_SUBMITTED
     \<and> (in_app_db (sv_app_db v) (pi_title_id e) \<or> install_timed_out (sv_now v) e)"

definition polled_entry :: "service_env \<Rightarrow> pending_install_entry \<Rightarrow> pending_install_entry" where
  "polled_entry v e = (if poll_done v e then blank_install else e)"

definition poll_notices :: "service_env \<Rightarrow> pending_install_entry \<Rightarrow> notice list" where
  "poll_notices v e =
     (if \<not> poll_done v e then []
      else if in_app_db (sv_app_db v) (pi_title_id e) then [GAME_INSTALLED (pi_title_id e)]
      else [INSTALL_FAILED_TIMEOUT (pi_title_name e) (pi_title_id e)])"

lemma success_fields:
  "iw_queue (finalize_pending_install_success v k w) = clear_pending_install_entry (iw_queue w) k"
  "iw_notices (finalize_pending_install_success v k w) =
     iw_notices w @ [GAME_INSTALLED (pi_title_id (pending_installs (iw_queue w) ! k))]"
  "iw_titles (finalize_pending_install_success v k w) =
     clear_failed_mount_attempts (clear_register_attempts (iw_titles w) (pi_title_id (pending_installs (iw_queue w) ! k)))
       (pi_title_id (pending_installs (iw_queue w) ! k))"
  "iw_mount_releases (finalize_pending_install_success v k w) = iw_mount_releases w"
  by (simp_all add: finalize_pending_install_success_def Let_def)

lemma poll_slot_spec:
  assumes inv: "world_inv w" and k: "k < MAX_PENDING"
  obtains w' where "poll_slot v k w = Some w'" "world_inv w'"
    "pending_installs (iw_queue w') = (pending_installs (iw_queue w))[k := polled_entry v (pending_installs (iw_queue w) ! k)]"
    "iw_notices w' = iw_notices w @ poll_notices v (pending_installs (iw_queue w) ! k)"
    "iw_mount_releases w' = iw_mount_releases w"
proof (cases "poll_done v (pending_installs (iw_queue w) ! k)")
  case False
  then have "poll_slot v k w = Some w" by (auto simp: poll_slot_def poll_done_def Let_def)
  then show thesis using that [of w] inv False by (simp add: polled_entry_def poll_notices_def)
next
  case True
  let ?e = "pending_installs (iw_queue w) ! k"
  have st: "pi_state ?e = INSTALL_TRACK_SUBMITTED" using True by (simp add: poll_done_def)
  have q: "queue_inv (iw_queue w)" "title_inv (iw_titles w)" using inv by (simp_all add: world_inv_def)
  show thesis
  proof (cases "in_app_db (sv_app_db v) (pi_title_id ?e)")
    case db: True
    show thesis
      by (rule that [of "finalize_pending_install_success v k w"])
        (use st db True q k in \<open>simp_all add: poll_slot_def world_inv_def success_fields clear_entry_keeps
          clear_failed_inv clear_register_inv polled_entry_def poll_notices_def\<close>)
  next
    case db: False
    let ?w1 = "w\<lparr>iw_notices := iw_notices w @ [INSTALL_FAILED_TIMEOUT (pi_title_name ?e) (pi_title_id ?e)]\<rparr>"
    have "world_inv ?w1" using inv by (simp add: world_inv_def)
    then obtain c s where n: "note_pending_install_failure ?w1 k = Some (c, ?w1\<lparr>iw_titles := s\<rparr>)"
        "world_inv (?w1\<lparr>iw_titles := s\<rparr>)"
      by (rule note_failure_ok [OF _ k]) (use st in simp_all)
    show thesis
      by (rule that [of "?w1\<lparr>iw_titles := s, iw_queue := clear_pending_install_entry (iw_queue w) k\<rparr>"])
        (use st db True n q k in \<open>simp_all add: poll_slot_def finalize_pending_install_timeout_def Let_def
          world_inv_def clear_entry_keeps polled_entry_def poll_notices_def poll_done_def\<close>)
  qed
qed

lemma poll_loop:
  assumes inv: "world_inv w"
  obtains w' where "each_slot (poll_slot v) [0..<MAX_PENDING] w = Some w'" "world_inv w'"
    "pending_installs (iw_queue w') = map (polled_entry v) (pending_installs (iw_queue w))"
    "iw_notices w' = iw_notices w @ concat (map (poll_notices v) (pending_installs (iw_queue w)))"
    "iw_mount_releases w' = iw_mount_releases w"
proof -
  let ?es = "pending_installs (iw_queue w)"
  have len: "length ?es = MAX_PENDING" using inv queue_table by (simp add: world_inv_def)
  let ?P = "\<lambda>k t. world_inv t \<and> pending_installs (iw_queue t) = mapped_upto k (polled_entry v) ?es
     \<and> iw_notices t = iw_notices w @ concat (map (poll_notices v) (take k ?es)) \<and> iw_mount_releases t = iw_mount_releases w"
  have "\<exists>w'. each_slot (poll_slot v) [0..<MAX_PENDING] w = Some w' \<and> ?P MAX_PENDING w'"
  proof (rule each_slot_induct)
    show "?P 0 w" using inv by simp
  next
    fix k t assume k: "k < MAX_PENDING" and P: "?P k t"
    have ek: "pending_installs (iw_queue t) ! k = ?es ! k" using P k len by (simp add: mapped_upto_nth)
    have "world_inv t" using P by blast
    then show "\<exists>t'. poll_slot v k t = Some t' \<and> ?P (Suc k) t'"
      by (rule poll_slot_spec [OF _ k, of t v]) (use P ek k len in \<open>simp add: mapped_upto_step take_Suc_conv_app_nth\<close>)
  qed
  then show thesis using that len by (auto simp: mapped_upto_all)
qed

lemma schedule_poll_fields [simp]:
  "pending_installs (schedule_pending_install_poll now q) = pending_installs q"
  "submitted_install_count (schedule_pending_install_poll now q) = submitted_install_count q"
  "tracked_install_count (schedule_pending_install_poll now q) = tracked_install_count q"
  "queued_install_submit_due_us (schedule_pending_install_poll now q) = queued_install_submit_due_us q"
  "queued_install_batch_announced (schedule_pending_install_poll now q) = queued_install_batch_announced q"
  "queued_install_submit_failure_notified (schedule_pending_install_poll now q) = queued_install_submit_failure_notified q"
  "pending_install_poll_due_us (schedule_pending_install_poll now q) =
     (if submitted_install_count q \<le> 0 then 0 else if now = 0 then 1 else now + INSTALL_POLL_INTERVAL_US)"
  by (simp_all add: schedule_pending_install_poll_def)

lemma schedule_retry_fields [simp]:
  "pending_installs (schedule_queued_install_submit_retry now q) = pending_installs q"
  "submitted_install_count (schedule_queued_install_submit_retry now q) = submitted_install_count q"
  "tracked_install_count (schedule_queued_install_submit_retry now q) = tracked_install_count q"
  "pending_install_poll_due_us (schedule_queued_install_submit_retry now q) = pending_install_poll_due_us q"
  "queued_install_batch_announced (schedule_queued_install_submit_retry now q) = queued_install_batch_announced q"
  "queued_install_submit_failure_notified (schedule_queued_install_submit_retry now q) = queued_install_submit_failure_notified q"
  "queued_install_submit_due_us (schedule_queued_install_submit_retry now q) =
     (if count_queued_installs q \<le> 0 \<or> submitted_install_count q > 0 then 0
      else if now = 0 then 1 else now + INSTALL_SUBMIT_RETRY_US)"
  by (simp_all add: schedule_queued_install_submit_retry_def)

lemma schedule_poll_inv [inv_intros]: "queue_inv q \<Longrightarrow> queue_inv (schedule_pending_install_poll now q)"
  by (simp add: queue_inv_def)

lemma schedule_submit_inv [inv_intros]: "queue_inv q \<Longrightarrow> queue_inv (schedule_queued_install_submit now q)"
  by (simp add: queue_inv_def schedule_submit_fields count_queued_installs_def)

lemma schedule_retry_inv [inv_intros]: "queue_inv q \<Longrightarrow> queue_inv (schedule_queued_install_submit_retry now q)"
  by (simp add: queue_inv_def count_queued_installs_def)

lemma schedule_submit_live: "queue_inv q \<Longrightarrow> queue_live (schedule_queued_install_submit now q)"
  by (simp add: queue_live_def queue_inv_def schedule_submit_fields count_queued_installs_def)

lemma poll_spec:
  assumes inv: "world_inv w" and sub: "submitted_install_count (iw_queue w) > 0"
  obtains w' where "poll_pending_installs v w = Some w'" "world_inv w'" "queue_live (iw_queue w')"
    "pending_installs (iw_queue w') = map (polled_entry v) (pending_installs (iw_queue w))"
    "iw_notices w' = iw_notices w @ concat (map (poll_notices v) (pending_installs (iw_queue w)))"
    "iw_mount_releases w' = iw_mount_releases w + (if tracked_entries (iw_queue w') = 0 then 1 else 0)"
proof -
  let ?w1 = "w\<lparr>iw_app_db_invalidations := Suc (iw_app_db_invalidations w)\<rparr>"
  have "world_inv ?w1" using inv by (simp add: world_inv_def)
  then obtain w2 where w2: "each_slot (poll_slot v) [0..<MAX_PENDING] ?w1 = Some w2" "world_inv w2"
    "pending_installs (iw_queue w2) = map (polled_entry v) (pending_installs (iw_queue w))"
    "iw_notices w2 = iw_notices w @ concat (map (poll_notices v) (pending_installs (iw_queue w)))"
    "iw_mount_releases w2 = iw_mount_releases w"
    by (rule poll_loop [of ?w1 v]) simp
  define q3 where "q3 = schedule_pending_install_poll (sv_now v) (iw_queue w2)"
  define q4 where "q4 = (if submitted_install_count q3 = 0 then schedule_queued_install_submit (sv_now v) q3 else q3)"
  define w4 where "w4 = w2\<lparr>iw_queue := q4\<rparr>"
  have i3: "queue_inv q3" using w2(2) by (simp add: q3_def world_inv_def schedule_poll_inv)
  have live: "queue_live q4"
    using i3 schedule_submit_live [OF i3] by (auto simp: q4_def queue_live_def queue_inv_def)
  have i4: "queue_inv q4" using i3 schedule_submit_inv [OF i3] by (simp add: q4_def)
  have es: "pending_installs q4 = pending_installs (iw_queue w2)"
    by (simp add: q4_def q3_def schedule_submit_fields)
  have work: "\<not> sm_install_has_pending_work q4 \<longleftrightarrow> tracked_entries q4 = 0"
    using i4 by (simp add: sm_install_has_pending_work_def queue_inv_def)
  have run: "poll_pending_installs v w = Some (if \<not> sm_install_has_pending_work q4
      then w4\<lparr>iw_mount_releases := Suc (iw_mount_releases w4)\<rparr> else w4)"
    using sub w2(1) by (simp add: poll_pending_installs_def Let_def q3_def q4_def w4_def)
  show thesis
    by (rule that [OF run]) (use w2 i4 live es work in \<open>simp_all add: world_inv_def w4_def\<close>)
qed

lemma poll_idle: "submitted_install_count (iw_queue w) \<le> 0 \<Longrightarrow> poll_pending_installs v w = Some w"
  by (simp add: poll_pending_installs_def)

section \<open>Submitting, slot by slot\<close>

definition submitted_entry :: "u64 \<Rightarrow> pending_install_entry \<Rightarrow> pending_install_entry" where
  "submitted_entry now e =
     (if pi_state e = INSTALL_TRACK_QUEUED then e\<lparr>pi_state := INSTALL_TRACK_SUBMITTED, pi_requested_at_us := now\<rparr> else e)"

lemma submitted_entry_fields [simp]:
  "pi_title_id (submitted_entry now e) = pi_title_id e" "tracked_entry (submitted_entry now e) = tracked_entry e"
  by (simp_all add: submitted_entry_def tracked_entry_def)

lemma submit_slot_inv:
  assumes inv: "world_inv w" and k: "k < MAX_PENDING" and due: "queued_install_submit_due_us (iw_queue w) = 0"
  shows "world_inv (submit_slot now k w)"
proof (cases "pi_state (pending_installs (iw_queue w) ! k) = INSTALL_TRACK_QUEUED")
  case False
  then show ?thesis using inv by (simp add: submit_slot_def)
next
  case True
  let ?q = "iw_queue w" let ?e = "pending_installs ?q ! k" let ?e' = "submitted_entry now ?e"
  have q: "queue_inv ?q" "title_inv (iw_titles w)" and K: "k < length (pending_installs ?q)"
    using inv k queue_table by (simp_all add: world_inv_def)
  have ok: "install_entry_ok ?e'"
    using queue_inv_nth [OF q(1) k] True by (simp add: install_entry_ok_def tracked_entry_def submitted_entry_def)
  have other: "pi_title_id (pending_installs ?q ! j) \<noteq> pi_title_id ?e'"
    if "j < MAX_PENDING" "j \<noteq> k" "tracked_entry (pending_installs ?q ! j)" for j
    using that keys_distinctD [of tracked_entry pi_title_id "pending_installs ?q" j k] q(1) True k
    by (auto simp: queue_inv_def tracked_entry_def)
  note t = table_ok_update [OF q(1) ok other]
  have e': "?e' = ?e\<lparr>pi_state := INSTALL_TRACK_SUBMITTED, pi_requested_at_us := now\<rparr>"
    using True by (simp add: submitted_entry_def)
  note c = set_entry_counts [OF K, of ?e']
  have pos: "submitted_entries ?q < count_if (\<lambda>e. pi_state e = INSTALL_TRACK_SUBMITTED) ((pending_installs ?q)[k := ?e'])"
      "0 < tracked_entries ?q"
    using c(2) True count_if_pos_nth [OF K, of tracked_entry] by (simp_all add: e' tracked_entry_def)
  show ?thesis
    using q t c due True pos
    by (auto simp: submit_slot_def world_inv_def queue_inv_def Let_def e' clear_failed_inv tracked_entry_def)
qed

definition queued_titles :: "pending_install_entry list \<Rightarrow> string set" where
  "queued_titles es = pi_title_id ` {e \<in> set es. pi_state e = INSTALL_TRACK_QUEUED}"

lemma queued_titles_snoc: "queued_titles (es @ [e]) =
    (if pi_state e = INSTALL_TRACK_QUEUED then insert (pi_title_id e) (queued_titles es) else queued_titles es)"
  by (auto simp: queued_titles_def)

lemma submit_loop:
  fixes now :: u64 and w :: install_world
  assumes inv: "world_inv w" and due: "queued_install_submit_due_us (iw_queue w) = 0"
  defines "w' \<equiv> fold (submit_slot now) [0..<MAX_PENDING] w"
  shows "world_inv w'" and "pending_installs (iw_queue w') = map (submitted_entry now) (pending_installs (iw_queue w))"
    and "get_failed_mount_attempts (iw_titles w') x =
      (if x \<in> queued_titles (pending_installs (iw_queue w)) then 0 else get_failed_mount_attempts (iw_titles w) x)"
    and "iw_notices w' = iw_notices w"
proof -
  let ?es = "pending_installs (iw_queue w)"
  have len: "length ?es = MAX_PENDING" using inv queue_table by (simp add: world_inv_def)
  let ?P = "\<lambda>k t. world_inv t \<and> queued_install_submit_due_us (iw_queue t) = 0
     \<and> pending_installs (iw_queue t) = mapped_upto k (submitted_entry now) ?es
     \<and> (\<forall>x. get_failed_mount_attempts (iw_titles t) x =
            (if x \<in> queued_titles (take k ?es) then 0 else get_failed_mount_attempts (iw_titles w) x))
     \<and> iw_notices t = iw_notices w"
  have "?P MAX_PENDING w'"
    unfolding w'_def
  proof (rule fold_slots_induct)
    show "?P 0 w" using inv due by (simp add: queued_titles_def)
  next
    fix k t assume k: "k < MAX_PENDING" and P: "?P k t"
    have ek: "pending_installs (iw_queue t) ! k = ?es ! k" using P k len by (simp add: mapped_upto_nth)
    have i: "world_inv (submit_slot now k t)" using P k submit_slot_inv by blast
    have ti: "title_inv (iw_titles t)" using P by (simp add: world_inv_def)
    have tk: "take (Suc k) ?es = take k ?es @ [?es ! k]" using k len by (simp add: take_Suc_conv_app_nth)
    show "?P (Suc k) (submit_slot now k t)"
    proof (cases "pi_state (?es ! k) = INSTALL_TRACK_QUEUED")
      case False
      then have "submit_slot now k t = t" "submitted_entry now (?es ! k) = ?es ! k"
        by (simp_all add: submit_slot_def ek submitted_entry_def)
      then show ?thesis using P False k len by (simp add: tk queued_titles_snoc mapped_upto_skip)
    next
      case True
      have "submit_slot now k t = t\<lparr>iw_queue := (iw_queue t)\<lparr>pending_installs := mapped_upto (Suc k) (submitted_entry now) ?es,
            submitted_install_count := submitted_install_count (iw_queue t) + 1\<rparr>,
          iw_titles := clear_failed_mount_attempts (iw_titles t) (pi_title_id (?es ! k))\<rparr>"
        using True P k len
        by (simp add: submit_slot_def Let_def mapped_upto_nth submitted_entry_def mapped_upto_step [symmetric])
      then show ?thesis using P i True failed.clear_count [OF ti] by (simp add: tk queued_titles_snoc)
    qed
  qed
  then show "world_inv w'" "pending_installs (iw_queue w') = map (submitted_entry now) ?es"
    "get_failed_mount_attempts (iw_titles w') x =
      (if x \<in> queued_titles ?es then 0 else get_failed_mount_attempts (iw_titles w) x)"
    "iw_notices w' = iw_notices w"
    using len by (simp_all add: mapped_upto_all)
qed

lemma notify_fields:
  "pending_installs (iw_queue (notify_queued_install_batch v w)) = pending_installs (iw_queue w)"
  "submitted_install_count (iw_queue (notify_queued_install_batch v w)) = submitted_install_count (iw_queue w)"
  "tracked_install_count (iw_queue (notify_queued_install_batch v w)) = tracked_install_count (iw_queue w)"
  "iw_titles (notify_queued_install_batch v w) = iw_titles w"
  "pending_install_poll_due_us (iw_queue (notify_queued_install_batch v w)) = pending_install_poll_due_us (iw_queue w)"
  "queued_install_submit_due_us (iw_queue (notify_queued_install_batch v w)) = queued_install_submit_due_us (iw_queue w)"
  "queued_install_submit_failure_notified (iw_queue (notify_queued_install_batch v w)) =
     queued_install_submit_failure_notified (iw_queue w)"
  by (simp_all add: notify_queued_install_batch_def Let_def)

lemma notify_inv [inv_intros]: "world_inv w \<Longrightarrow> world_inv (notify_queued_install_batch v w)"
  using queued_count [of "iw_queue w"]
  by (auto simp: world_inv_def notify_queued_install_batch_def Let_def queue_inv_def)

text \<open>The three outcomes of a submit call: nothing due, request refused, request accepted.\<close>

definition submit_due :: "service_env \<Rightarrow> install_queue \<Rightarrow> bool" where
  "submit_due v q \<longleftrightarrow> \<not> sv_sleeping v \<and> count_queued_installs q > 0 \<and> submitted_install_count q \<le> 0
     \<and> \<not> (queued_install_submit_due_us q \<noteq> 0 \<and> sv_now v \<noteq> 0 \<and> sv_now v < queued_install_submit_due_us q)"

lemma submit_idle: "\<not> submit_due v (iw_queue w) \<Longrightarrow> sm_install_submit_queued v w = (True, w)"
  by (auto simp: submit_due_def sm_install_submit_queued_def Let_def)

lemma submit_refused:
  assumes inv: "world_inv w" and due: "submit_due v (iw_queue w)" and res: "sv_install_result v \<noteq> 0"
  obtains w' where "sm_install_submit_queued v w = (False, w')" "world_inv w'" "iw_titles w' = iw_titles w"
    "pending_installs (iw_queue w') = pending_installs (iw_queue w)"
    "queued_install_submit_due_us (iw_queue w') = (if sv_now v = 0 then 1 else sv_now v + INSTALL_SUBMIT_RETRY_US)"
    "queued_install_submit_failure_notified (iw_queue w')"
proof -
  define w1 where "w1 = notify_queued_install_batch v w"
  define w2 where "w2 = (if queued_install_submit_failure_notified (iw_queue w1) then w1
     else w1\<lparr>iw_notices := iw_notices w1 @ [BATCH_INSTALL_FAILED (count_queued_installs (iw_queue w)) (sv_install_result v)],
             iw_queue := (iw_queue w1)\<lparr>queued_install_submit_failure_notified := True\<rparr>\<rparr>)"
  have i1: "world_inv w1" using inv by (simp add: w1_def notify_inv)
  have f1: "pending_installs (iw_queue w1) = pending_installs (iw_queue w)" "iw_titles w1 = iw_titles w"
      "submitted_install_count (iw_queue w1) = submitted_install_count (iw_queue w)"
      "tracked_install_count (iw_queue w1) = tracked_install_count (iw_queue w)"
    by (simp_all add: w1_def notify_fields)
  have tr: "tracked_entries (iw_queue w) > 0"
    using due inv queued_count [of "iw_queue w"] by (auto simp: submit_due_def world_inv_def)
  have i2: "world_inv w2" using i1 tr f1 by (auto simp: w2_def world_inv_def queue_inv_def)
  have f2: "pending_installs (iw_queue w2) = pending_installs (iw_queue w)" "iw_titles w2 = iw_titles w"
      "count_queued_installs (iw_queue w2) = count_queued_installs (iw_queue w)"
      "submitted_install_count (iw_queue w2) = submitted_install_count (iw_queue w)"
      "queued_install_submit_failure_notified (iw_queue w2)"
    using f1 by (simp_all add: w2_def count_queued_installs_def)
  have run: "sm_install_submit_queued v w = (False, w2\<lparr>iw_queue := schedule_queued_install_submit_retry (sv_now v) (iw_queue w2)\<rparr>)"
    using due res by (auto simp: submit_due_def sm_install_submit_queued_def Let_def w1_def w2_def)
  show thesis
    by (rule that [OF run]) (use i2 f2 due in \<open>simp_all add: world_inv_def schedule_retry_inv submit_due_def\<close>)
qed

lemma submit_accepted:
  assumes inv: "world_inv w" and due: "submit_due v (iw_queue w)" and res: "sv_install_result v = 0"
  obtains w' where "sm_install_submit_queued v w = (True, w')" "world_inv w'"
    "pending_installs (iw_queue w') = map (submitted_entry (sv_now v)) (pending_installs (iw_queue w))"
    "\<And>x. get_failed_mount_attempts (iw_titles w') x =
      (if x \<in> queued_titles (pending_installs (iw_queue w)) then 0 else get_failed_mount_attempts (iw_titles w) x)"
    "submitted_entries (iw_queue w') = tracked_entries (iw_queue w')" "submitted_entries (iw_queue w') > 0"
    "pending_install_poll_due_us (iw_queue w') = (if sv_now v = 0 then 1 else sv_now v + INSTALL_POLL_INTERVAL_US)"
proof -
  define w1 where "w1 = notify_queued_install_batch v w"
  define w2 where "w2 = w1\<lparr>iw_queue := (iw_queue w1)\<lparr>queued_install_submit_due_us := 0,
      queued_install_submit_failure_notified := False\<rparr>\<rparr>"
  define w3 where "w3 = fold (submit_slot (sv_now v)) [0..<MAX_PENDING] w2"
  define w4 where "w4 = w3\<lparr>iw_app_db_invalidations := Suc (iw_app_db_invalidations w3)\<rparr>"
  let ?es = "pending_installs (iw_queue w)"
  have i1: "world_inv w1" using inv by (simp add: w1_def notify_inv)
  have f2: "pending_installs (iw_queue w2) = ?es" "iw_titles w2 = iw_titles w" "queued_install_submit_due_us (iw_queue w2) = 0"
    by (simp_all add: w2_def w1_def notify_fields)
  have i2: "world_inv w2" using i1 by (auto simp: w2_def world_inv_def queue_inv_def)
  note l = submit_loop [OF i2 f2(3), of "sv_now v", folded w3_def, unfolded f2]
  have cnt: "submitted_entries (iw_queue w) = 0" "tracked_entries (iw_queue w) > 0"
    using due inv queued_count [of "iw_queue w"] by (auto simp: submit_due_def world_inv_def queue_inv_def)
  have eq: "count_if (\<lambda>e. pi_state e = INSTALL_TRACK_SUBMITTED) (map (submitted_entry (sv_now v)) ?es) = tracked_entries (iw_queue w)"
    using cnt(1) unfolding count_if_zero
    by (auto simp: count_if_def filter_map comp_def submitted_entry_def tracked_entry_def
        intro!: arg_cong [of _ _ length] filter_cong) (metis install_track_state.exhaust)+
  have tr: "count_if tracked_entry (map (submitted_entry (sv_now v)) ?es) = tracked_entries (iw_queue w)"
    by (simp add: count_if_def filter_map comp_def)
  have sub: "submitted_install_count (iw_queue w3) > 0"
    using l(1,2) eq cnt by (simp add: world_inv_def queue_inv_def)
  have run: "sm_install_submit_queued v w = (True, w4\<lparr>iw_queue := schedule_pending_install_poll (sv_now v) (iw_queue w4)\<rparr>)"
    using due res by (auto simp: submit_due_def sm_install_submit_queued_def Let_def w1_def w2_def w3_def w4_def)
  show thesis
    by (rule that [OF run]) (use l eq tr cnt sub in \<open>simp_all add: world_inv_def schedule_poll_inv w4_def\<close>)
qed

section \<open>Failed submissions\<close>

definition failed_entry :: "title_state \<Rightarrow> pending_install_entry \<Rightarrow> pending_install_entry" where
  "failed_entry st e =
     (if pi_state e = INSTALL_TRACK_QUEUED \<and> sat_inc (get_failed_mount_attempts st (pi_title_id e)) \<ge> MAX_FAILED_MOUNT_ATTEMPTS
      then blank_install else e)"

lemma clear_queued_live:
  assumes inv: "queue_inv q" and k: "k < MAX_PENDING" and st: "pi_state (pending_installs q ! k) = INSTALL_TRACK_QUEUED"
    and live: "queue_live q"
  shows "queue_live (clear_pending_install_entry q k)"
proof -
  have K: "k < length (pending_installs q)" using inv k by (simp add: queue_table)
  have "submitted_entries (clear_pending_install_entry q k) = submitted_entries q"
      "tracked_entries (clear_pending_install_entry q k) \<le> tracked_entries q"
    using set_entry_counts [OF K, of blank_install] st by (simp_all split: if_splits)
  then show ?thesis
    using live clear_counts(1) [OF inv k] by (auto simp: queue_live_def clear_timers)
qed

lemma failure_slot_spec:
  assumes inv: "world_inv w" and k: "k < MAX_PENDING"
  obtains w' where "failure_slot k w = Some w'" "world_inv w'"
    "pending_installs (iw_queue w') = (pending_installs (iw_queue w))[k := failed_entry (iw_titles w) (pending_installs (iw_queue w) ! k)]"
    "queue_live (iw_queue w) \<Longrightarrow> queue_live (iw_queue w')"
    "pi_state (pending_installs (iw_queue w) ! k) \<noteq> INSTALL_TRACK_QUEUED \<Longrightarrow> iw_titles w' = iw_titles w"
    "pi_state (pending_installs (iw_queue w) ! k) = INSTALL_TRACK_QUEUED \<Longrightarrow> \<exists>c.
       bump_failed_mount_attempts (iw_titles w) (pi_title_id (pending_installs (iw_queue w) ! k)) = Some (c, iw_titles w')"
proof (cases "pi_state (pending_installs (iw_queue w) ! k) = INSTALL_TRACK_QUEUED")
  case False
  then show thesis using that [of w] inv by (simp add: failure_slot_def failed_entry_def)
next
  case True
  let ?e = "pending_installs (iw_queue w) ! k"
  have q: "queue_inv (iw_queue w)" using inv by (simp add: world_inv_def)
  obtain st where n: "note_pending_install_failure w k = Some (sat_inc (get_failed_mount_attempts (iw_titles w) (pi_title_id ?e)), w\<lparr>iw_titles := st\<rparr>)"
      "world_inv (w\<lparr>iw_titles := st\<rparr>)"
      "bump_failed_mount_attempts (iw_titles w) (pi_title_id ?e)
        = Some (sat_inc (get_failed_mount_attempts (iw_titles w) (pi_title_id ?e)), st)"
    by (rule note_failure_ok [OF inv k]) (use True in simp_all)
  show thesis
  proof (cases "sat_inc (get_failed_mount_attempts (iw_titles w) (pi_title_id ?e)) \<ge> MAX_FAILED_MOUNT_ATTEMPTS")
    case lim: True
    show thesis
      by (rule that [of "w\<lparr>iw_titles := st, iw_queue := clear_pending_install_entry (iw_queue w) k\<rparr>"])
        (use True lim n q k in \<open>simp_all add: failure_slot_def drop_queued_install_entry_def world_inv_def
          clear_entry_keeps clear_queued_live failed_entry_def\<close>)
  next
    case lim: False
    show thesis
      by (rule that [of "w\<lparr>iw_titles := st\<rparr>"])
        (use True lim n q k in \<open>simp_all add: failure_slot_def failed_entry_def\<close>)
  qed
qed

lemma failure_loop:
  assumes inv: "world_inv w"
  obtains w' where "sm_install_note_submit_failure w = Some w'" "world_inv w'"
    "queue_live (iw_queue w) \<Longrightarrow> queue_live (iw_queue w')"
proof -
  let ?P = "\<lambda>k t. world_inv t \<and> (queue_live (iw_queue w) \<longrightarrow> queue_live (iw_queue t))"
  have "\<exists>w'. each_slot failure_slot [0..<MAX_PENDING] w = Some w' \<and> ?P MAX_PENDING w'"
  proof (rule each_slot_induct [where P = ?P])
    show "?P 0 w" using inv by simp
  next
    fix k t assume k: "k < MAX_PENDING" and P: "?P k t"
    then have "world_inv t" by blast
    then show "\<exists>t'. failure_slot k t = Some t' \<and> ?P (Suc k) t'"
      by (rule failure_slot_spec [OF _ k]) (use P in blast)
  qed
  then show thesis using that by (auto simp: sm_install_note_submit_failure_def)
qed

lemma failure_slot_due:
  "failure_slot k w = Some w' \<Longrightarrow>
     queued_install_submit_due_us (iw_queue w') \<in> {0, queued_install_submit_due_us (iw_queue w)}"
  by (auto simp: failure_slot_def note_pending_install_failure_def drop_queued_install_entry_def clear_timers
      split: if_splits option.splits)

lemma failure_due:
  "sm_install_note_submit_failure w = Some w' \<Longrightarrow>
     queued_install_submit_due_us (iw_queue w') \<in> {0, queued_install_submit_due_us (iw_queue w)}"
proof -
  have "each_slot failure_slot ks w = Some w' \<Longrightarrow>
     queued_install_submit_due_us (iw_queue w') \<in> {0, queued_install_submit_due_us (iw_queue w)}" for ks
  proof (induction ks arbitrary: w)
    case (Cons k ks)
    then obtain w1 where "failure_slot k w = Some w1" "each_slot failure_slot ks w1 = Some w'"
      by (auto split: option.splits)
    then show ?case using Cons.IH failure_slot_due [of k w w1] by fastforce
  qed simp
  then show "sm_install_note_submit_failure w = Some w' \<Longrightarrow>
     queued_install_submit_due_us (iw_queue w') \<in> {0, queued_install_submit_due_us (iw_queue w)}"
    by (simp add: sm_install_note_submit_failure_def)
qed

text \<open>Every queued title already has a counter entry: then no bump evicts another one.\<close>

definition counters_known :: "install_world \<Rightarrow> bool" where
  "counters_known w \<longleftrightarrow> list_all (\<lambda>e. pi_state e = INSTALL_TRACK_QUEUED \<longrightarrow> title_map (iw_titles w) (pi_title_id e) \<noteq> None)
     (pending_installs (iw_queue w))"

lemma bump_known:
  assumes "title_inv st" and "title_map st t = Some e" and "bump_failed_mount_attempts st t = Some (c, st')"
  shows "title_map st' = (title_map st)(t \<mapsto> e\<lparr>te_mount_reg_attempts := sat_inc (te_mount_reg_attempts e)\<rparr>)"
proof -
  obtain i where i: "find_title_state st t = Some i" "title_entry_at st i = e"
    using find_title_map [OF assms(1), of t] assms(2) by auto
  note fd = find_title_SomeD [OF title_inv_refs [OF assms(1)] i(1)]
  have "st' = set_title_entry st i (e\<lparr>te_mount_reg_attempts := sat_inc (te_mount_reg_attempts e)\<rparr>)"
    using assms(3) i by (auto simp: bump_failed_mount_attempts_def get_or_create_title_state_def Let_def)
  then show ?thesis
    using set_title_entry_inv(2) [OF assms(1) fd(1,2), of "e\<lparr>te_mount_reg_attempts := sat_inc (te_mount_reg_attempts e)\<rparr>"] fd i
    by simp
qed

definition bumped :: "title_entry \<Rightarrow> title_entry" where
  "bumped e = e\<lparr>te_mount_reg_attempts := sat_inc (te_mount_reg_attempts e)\<rparr>"

lemma get_failed_map:
  "title_inv st \<Longrightarrow> get_failed_mount_attempts st t = (case title_map st t of None \<Rightarrow> 0 | Some e \<Rightarrow> te_mount_reg_attempts e)"
  by (simp add: get_failed_of title_of_def fresh_title_def blank_title_def split: option.split)

lemma queued_title_once:
  assumes kd: "keys_distinct tracked_entry pi_title_id es" and k: "k < length es"
    and st: "pi_state (es ! k) = INSTALL_TRACK_QUEUED"
  shows "pi_title_id (es ! k) \<notin> queued_titles (take k es)"
proof
  assume "pi_title_id (es ! k) \<in> queued_titles (take k es)"
  then obtain j where j: "j < k" "pi_state (es ! j) = INSTALL_TRACK_QUEUED" "pi_title_id (es ! j) = pi_title_id (es ! k)"
    using k by (auto simp: queued_titles_def in_set_conv_nth)
  then have "j = k"
    using keys_distinctD [OF kd, of j k] k st by (simp add: tracked_entry_def)
  then show False using j(1) by simp
qed

lemma failure_known:
  assumes inv: "world_inv w" and known: "counters_known w"
  obtains w' where "sm_install_note_submit_failure w = Some w'" "world_inv w'"
    "pending_installs (iw_queue w') = map (failed_entry (iw_titles w)) (pending_installs (iw_queue w))"
    "\<And>x. title_map (iw_titles w') x = (if x \<in> queued_titles (pending_installs (iw_queue w))
        then map_option bumped (title_map (iw_titles w) x) else title_map (iw_titles w) x)"
proof -
  let ?es = "pending_installs (iw_queue w)"
  have q: "queue_inv (iw_queue w)" and len: "length ?es = MAX_PENDING"
    using inv queue_table by (simp_all add: world_inv_def)
  have kd: "keys_distinct tracked_entry pi_title_id ?es" using q by (simp add: queue_inv_def)
  let ?P = "\<lambda>k t. world_inv t \<and> pending_installs (iw_queue t) = mapped_upto k (failed_entry (iw_titles w)) ?es
     \<and> (\<forall>x. title_map (iw_titles t) x = (if x \<in> queued_titles (take k ?es)
        then map_option bumped (title_map (iw_titles w) x) else title_map (iw_titles w) x))"
  have "\<exists>w'. each_slot failure_slot [0..<MAX_PENDING] w = Some w' \<and> ?P MAX_PENDING w'"
  proof (rule each_slot_induct [where P = ?P])
    show "?P 0 w" using inv by (simp add: queued_titles_def)
  next
    fix k t assume k: "k < MAX_PENDING" and P: "?P k t"
    let ?e = "?es ! k"
    have ek: "pending_installs (iw_queue t) ! k = ?e" using P k len by (simp add: mapped_upto_nth)
    have tk: "take (Suc k) ?es = take k ?es @ [?e]" using k len by (simp add: take_Suc_conv_app_nth)
    have new: "pi_title_id ?e \<notin> queued_titles (take k ?es)" if "pi_state ?e = INSTALL_TRACK_QUEUED"
      by (rule queued_title_once [OF kd _ that]) (use k len in simp)
    have same: "failed_entry (iw_titles t) ?e = failed_entry (iw_titles w) ?e"
      using P new inv by (auto simp: failed_entry_def get_failed_map world_inv_def)
    have wt: "world_inv t" using P by blast
    obtain t' where t': "failure_slot k t = Some t'" "world_inv t'"
        "pending_installs (iw_queue t') = (pending_installs (iw_queue t))[k := failed_entry (iw_titles t) ?e]"
        "pi_state ?e \<noteq> INSTALL_TRACK_QUEUED \<Longrightarrow> iw_titles t' = iw_titles t"
        "pi_state ?e = INSTALL_TRACK_QUEUED \<Longrightarrow> \<exists>c. bump_failed_mount_attempts (iw_titles t) (pi_title_id ?e) = Some (c, iw_titles t')"
      by (rule failure_slot_spec [OF wt k]) (use ek in auto)
    have es': "pending_installs (iw_queue t') = mapped_upto (Suc k) (failed_entry (iw_titles w)) ?es"
      using t'(3) P k len same by (simp add: mapped_upto_step)
    have "title_map (iw_titles t') x = (if x \<in> queued_titles (take (Suc k) ?es)
        then map_option bumped (title_map (iw_titles w) x) else title_map (iw_titles w) x)" for x
    proof (cases "pi_state ?e = INSTALL_TRACK_QUEUED")
      case False
      then show ?thesis using t'(4) P by (simp add: tk queued_titles_snoc)
    next
      case True
      obtain te where te: "title_map (iw_titles w) (pi_title_id ?e) = Some te"
        using known True k len by (auto simp: counters_known_def list_all_length)
      have "title_map (iw_titles t) (pi_title_id ?e) = Some te" using P new [OF True] te by simp
      moreover have "title_inv (iw_titles t)" using wt by (simp add: world_inv_def)
      ultimately have "title_map (iw_titles t') = (title_map (iw_titles t))(pi_title_id ?e \<mapsto> bumped te)"
        using bump_known t'(5) [OF True] by (auto simp: bumped_def)
      then show ?thesis using P te True by (simp add: tk queued_titles_snoc)
    qed
    then show "\<exists>t'. failure_slot k t = Some t' \<and> ?P (Suc k) t'" using t'(1,2) es' by blast
  qed
  then show thesis using that len by (auto simp: mapped_upto_all sm_install_note_submit_failure_def)
qed

section \<open>Reachable states\<close>

text \<open>
  Every call other components make, in any order: queueing, forgetting, polling,
  submitting, noting a failure, the combined service, and arbitrary changes of the other
  components' state in between. \<open>env_ok\<close> restricts the environments of the calls and
  \<open>forget_ok\<close> the titles that are forgotten.
\<close>

inductive install_reach :: "(service_env \<Rightarrow> bool) \<Rightarrow> (install_queue \<Rightarrow> string \<Rightarrow> bool) \<Rightarrow> install_world \<Rightarrow> bool"
  for env_ok forget_ok where
  start: "title_inv st \<Longrightarrow> iw_queue w = install_queue_init \<Longrightarrow> iw_titles w = st \<Longrightarrow> install_reach env_ok forget_ok w"
| others: "install_reach env_ok forget_ok w \<Longrightarrow> title_inv st \<Longrightarrow>
    install_reach env_ok forget_ok (w\<lparr>iw_titles := st, iw_games := gs, iw_disk := d\<rparr>)"
| candidate: "install_reach env_ok forget_ok w \<Longrightarrow> wf_candidate c \<Longrightarrow>
    install_reach env_ok forget_ok (w\<lparr>iw_queue := snd (sm_install_queue_candidate a now (iw_queue w) c b)\<rparr>)"
| forget: "install_reach env_ok forget_ok w \<Longrightarrow> forget_ok (iw_queue w) t \<Longrightarrow>
    install_reach env_ok forget_ok (w\<lparr>iw_queue := sm_install_forget_pending_title (iw_queue w) t\<rparr>)"
| poll: "install_reach env_ok forget_ok w \<Longrightarrow> env_ok v \<Longrightarrow> sm_install_poll_pending v w = Some w' \<Longrightarrow>
    install_reach env_ok forget_ok w'"
| submit: "install_reach env_ok forget_ok w \<Longrightarrow> env_ok v \<Longrightarrow> sm_install_submit_queued v w = (r, w') \<Longrightarrow>
    install_reach env_ok forget_ok w'"
| failure: "install_reach env_ok forget_ok w \<Longrightarrow> sm_install_note_submit_failure w = Some w' \<Longrightarrow>
    install_reach env_ok forget_ok w'"
| service: "install_reach env_ok forget_ok w \<Longrightarrow> env_ok v \<Longrightarrow> env_ok v_poll \<Longrightarrow> env_ok v_submit \<Longrightarrow>
    sm_install_service_pending v v_poll v_submit w = Some w' \<Longrightarrow> install_reach env_ok forget_ok w'"

text \<open>The clock counts microseconds since boot: far from wrapping.\<close>

definition clock_ok :: "service_env \<Rightarrow> bool" where
  "clock_ok v \<longleftrightarrow> sv_now v < 2 ^ 63"

text \<open>Forgetting a title that is not submitted, or while no title is queued.\<close>

definition forget_harmless :: "install_queue \<Rightarrow> string \<Rightarrow> bool" where
  "forget_harmless q t \<longleftrightarrow> count_queued_installs q = 0
     \<or> (case find_pending_install_entry q t of None \<Rightarrow> True | Some k \<Rightarrow> pi_state (pending_installs q ! k) = INSTALL_TRACK_QUEUED)"

lemma clock_later: "now < 2 ^ 63 \<Longrightarrow> now + 2000000 \<noteq> (0 :: u64)"
proof
  assume n: "now < 2 ^ 63" and z: "now + 2000000 = (0 :: u64)"
  have "unat now < 2 ^ 63" using n by (simp add: word_less_nat_alt)
  then have "unat (now + 2000000) = unat now + 2000000" by (simp add: unat_word_ariths)
  then show False using z by simp
qed

lemma poll_pending_total:
  assumes "world_inv w"
  obtains w' where "sm_install_poll_pending v w = Some w'" "world_inv w'"
    "queue_live (iw_queue w) \<Longrightarrow> queue_live (iw_queue w')"
proof (cases "sv_sleeping v \<or> submitted_install_count (iw_queue w) \<le> 0")
  case True
  then show thesis using that [of w] assms by (auto simp: sm_install_poll_pending_def poll_idle)
next
  case False
  then have "submitted_install_count (iw_queue w) > 0" by simp
  then show thesis
    by (rule poll_spec [OF assms, of v]) (use False in \<open>auto intro: that simp: sm_install_poll_pending_def\<close>)
qed

lemma submit_total:
  assumes "world_inv w"
  obtains r w' where "sm_install_submit_queued v w = (r, w')" "world_inv w'"
    "clock_ok v \<Longrightarrow> queue_live (iw_queue w) \<Longrightarrow> queue_live (iw_queue w')"
proof (cases "submit_due v (iw_queue w)")
  case False
  then show thesis using that [of True w] assms by (simp add: submit_idle)
next
  case True
  show thesis
  proof (cases "sv_install_result v = 0")
    case res: True
    show thesis
      by (rule submit_accepted [OF assms True res]) (erule that, assumption, simp add: queue_live_def)
  next
    case res: False
    show thesis
      by (rule submit_refused [OF assms True res])
        (erule that, assumption, simp add: queue_live_def clock_ok_def INSTALL_SUBMIT_RETRY_US_def clock_later)
  qed
qed

lemma service_total:
  assumes "world_inv w"
  obtains w' where "sm_install_service_pending v v_poll v_submit w = Some w'" "world_inv w'"
    "clock_ok v_submit \<Longrightarrow> queue_live (iw_queue w) \<Longrightarrow> queue_live (iw_queue w')"
proof (cases "sv_sleeping v \<or> \<not> install_queue_active (sv_install_all v) (iw_queue w)")
  case True
  then show thesis using that [of w] assms by (auto simp: sm_install_service_pending_def)
next
  case False
  obtain w1 where w1: "sm_install_poll_pending v_poll w = Some w1" "world_inv w1"
      "queue_live (iw_queue w) \<Longrightarrow> queue_live (iw_queue w1)"
    by (rule poll_pending_total [OF assms]) blast
  obtain r w2 where w2: "sm_install_submit_queued v_submit w1 = (r, w2)" "world_inv w2"
      "clock_ok v_submit \<Longrightarrow> queue_live (iw_queue w1) \<Longrightarrow> queue_live (iw_queue w2)"
    by (rule submit_total [OF w1(2)]) blast
  obtain w3 where w3: "sm_install_note_submit_failure w2 = Some w3" "world_inv w3"
      "queue_live (iw_queue w2) \<Longrightarrow> queue_live (iw_queue w3)"
    by (rule failure_loop [OF w2(2)]) blast
  show thesis
    by (rule that [of "if count_queued_installs (iw_queue w1) > 0 then if r then w2 else w3 else w1"])
      (use False w1 w2 w3 in \<open>auto simp: sm_install_service_pending_def split: bool.split\<close>)
qed

lemma install_reach_inv: "install_reach env_ok forget_ok w \<Longrightarrow> world_inv w"
proof (induction rule: install_reach.induct)
  case (start st w)
  then show ?case by (simp add: world_inv_def queue_inv_init)
next
  case (poll w v w')
  from poll_pending_total [OF poll.IH, of v] show ?case using poll.hyps(3) by force
next
  case (submit w v r w')
  from submit_total [OF submit.IH, of v] show ?case using submit.hyps(3) by force
next
  case (failure w w')
  from failure_loop [OF failure.IH] show ?case using failure.hyps(2) by force
next
  case (service w v v_poll v_submit w')
  from service_total [OF service.IH, of v v_poll v_submit] show ?case using service.hyps(5) by force
qed (auto simp: world_inv_def forget_inv queue_candidate_inv)

lemma forget_live:
  assumes inv: "queue_inv q" and ok: "forget_harmless q t" and live: "queue_live q"
  shows "queue_live (sm_install_forget_pending_title q t)"
proof (cases "find_pending_install_entry q t")
  case None
  then show ?thesis using live by (simp add: sm_install_forget_pending_title_def)
next
  case (Some k)
  have k: "k < MAX_PENDING" using find_pending_SomeD(1) [OF Some] inv by (simp add: queue_table)
  show ?thesis
  proof (cases "pi_state (pending_installs q ! k) = INSTALL_TRACK_QUEUED")
    case True
    then show ?thesis using clear_queued_live [OF inv k True live] Some by (simp add: sm_install_forget_pending_title_def)
  next
    case False
    then have sub: "pi_state (pending_installs q ! k) = INSTALL_TRACK_SUBMITTED"
      using find_pending_SomeD(2) [OF Some] by (cases "pi_state (pending_installs q ! k)") (simp_all add: tracked_entry_def)
    have K: "k < length (pending_installs q)" using k inv by (simp add: queue_table)
    have "tracked_entries q = submitted_entries q"
      using ok Some False queued_count [OF inv] by (simp add: forget_harmless_def)
    then have "tracked_entries (clear_pending_install_entry q k) = submitted_entries (clear_pending_install_entry q k)"
      using set_entry_counts [OF K, of blank_install] sub by (simp add: tracked_entry_def)
    then have "queue_live (clear_pending_install_entry q k)" unfolding queue_live_def by linarith
    then show ?thesis using Some by (simp add: sm_install_forget_pending_title_def)
  qed
qed

lemma install_reach_live: "install_reach clock_ok forget_harmless w \<Longrightarrow> queue_live (iw_queue w)"
proof (induction rule: install_reach.induct)
  case (start st w)
  then show ?case by (simp add: queue_live_def install_queue_init_def)
next
  case (candidate w c a now b)
  then show ?case using install_reach_inv [OF candidate.hyps(1)] by (simp add: queue_candidate_live world_inv_def)
next
  case (forget w t)
  then show ?case using install_reach_inv [OF forget.hyps(1)] by (simp add: forget_live world_inv_def)
next
  case (poll w v w')
  from poll_pending_total [OF install_reach_inv [OF poll.hyps(1)], of v] show ?case using poll by force
next
  case (submit w v r w')
  from submit_total [OF install_reach_inv [OF submit.hyps(1)], of v] show ?case using submit by force
next
  case (failure w w')
  from failure_loop [OF install_reach_inv [OF failure.hyps(1)]] show ?case using failure by force
next
  case (service w v v_poll v_submit w')
  from service_total [OF install_reach_inv [OF service.hyps(1)], of v v_poll v_submit] show ?case using service by force
qed simp

section \<open>Sample states\<close>

lemma keys_distinct_padded:
  assumes "\<not> P x" and "distinct (map f es)"
  shows "keys_distinct P f (es @ replicate n x)"
  using assms by (auto simp: keys_distinct_def nth_append distinct_conv_nth split: if_splits)

definition sample_queue :: "pending_install_entry list \<Rightarrow> u64 \<Rightarrow> install_queue" where
  "sample_queue es poll_due = install_queue_init\<lparr>pending_installs := es @ replicate (MAX_PENDING - length es) blank_install,
     pending_install_poll_due_us := poll_due,
     tracked_install_count := int (count_if tracked_entry es),
     submitted_install_count := int (count_if (\<lambda>e. pi_state e = INSTALL_TRACK_SUBMITTED) es)\<rparr>"

definition sample_entry :: "string \<Rightarrow> install_track_state \<Rightarrow> pending_install_entry" where
  "sample_entry t s = blank_install\<lparr>pi_title_id := t, pi_title_name := ''Game'', pi_source_path := ''/mnt/usb0/game'',
     pi_requested_at_us := 5, pi_state := s\<rparr>"

definition sample_world :: "install_queue \<Rightarrow> title_state \<Rightarrow> install_world" where
  "sample_world q st = \<lparr>iw_queue = q, iw_titles = st, iw_games = game_cache_init, iw_disk = (\<lambda>_. None), iw_notices = [],
     iw_snd0_updates = [], iw_app_db_invalidations = 0, iw_mount_releases = 0\<rparr>"

definition sample_service :: "u64 \<Rightarrow> u32 \<Rightarrow> string list option \<Rightarrow> service_env" where
  "sample_service now res db = \<lparr>sv_game = sample_genv, sv_status_error = None, sv_io = io_ok, sv_install_all = True,
     sv_sleeping = False, sv_app_db = db, sv_now = now, sv_install_result = res,
     sv_text_queued = (\<lambda>_. []), sv_text_more = (\<lambda>_. [])\<rparr>"

lemma sample_queue_inv:
  assumes "length es \<le> MAX_PENDING" and "list_all install_entry_ok es" and "distinct (map pi_title_id es)"
    and "count_if (\<lambda>e. pi_state e = INSTALL_TRACK_SUBMITTED) es = 0 \<Longrightarrow> due = 0"
  shows "queue_inv (sample_queue es due)"
  using assms keys_distinct_padded [of tracked_entry blank_install pi_title_id es]
  by (auto simp: queue_inv_def sample_queue_def install_queue_init_def count_if_def list_all_iff install_entry_ok_def
      split: if_splits)

lemma sample_entry_ok:
  "s \<noteq> INSTALL_TRACK_NONE \<Longrightarrow> wf_title_id t \<Longrightarrow> install_entry_ok (sample_entry t s)"
  by (simp add: install_entry_ok_def sample_entry_def tracked_entry_def wf_title_id_def)

section \<open>Properties\<close>

text \<open>
  C11. The install queue is consistent in every state the calls can reach, whatever the
  clock, the database and the installer answer: both counters are exactly the numbers of
  tracked and of submitted entries (so they never leave the range of the table), no title
  is tracked twice, and the three service operations never dereference a NULL counter entry.
\<close>

theorem install_queue_consistent:
  assumes "install_reach (\<lambda>_. True) (\<lambda>_ _. True) w"
  shows "tracked_install_count (iw_queue w) = int (count_if tracked_entry (pending_installs (iw_queue w)))
    \<and> submitted_install_count (iw_queue w)
        = int (count_if (\<lambda>e. pi_state e = INSTALL_TRACK_SUBMITTED) (pending_installs (iw_queue w)))
    \<and> tracked_install_count (iw_queue w) \<le> int MAX_PENDING
    \<and> keys_distinct tracked_entry pi_title_id (pending_installs (iw_queue w))
    \<and> sm_install_poll_pending v w \<noteq> None \<and> sm_install_note_submit_failure w \<noteq> None
    \<and> sm_install_service_pending v v_poll v_submit w \<noteq> None"
proof -
  have inv: "world_inv w" by (rule install_reach_inv [OF assms])
  then have q: "queue_inv (iw_queue w)" by (simp add: world_inv_def)
  have "tracked_entries (iw_queue w) \<le> MAX_PENDING"
    using count_if_le_length [of tracked_entry "pending_installs (iw_queue w)"] queue_table [OF q] by simp
  moreover have "sm_install_poll_pending v w \<noteq> None" by (rule poll_pending_total [OF inv, of v]) simp
  moreover have "sm_install_note_submit_failure w \<noteq> None" by (rule failure_loop [OF inv]) simp
  moreover have "sm_install_service_pending v v_poll v_submit w \<noteq> None"
    by (rule service_total [OF inv, of v v_poll v_submit]) simp
  ultimately show ?thesis using q by (simp add: queue_inv_def)
qed

theorem install_queue_consistent_witness:
  "tracked_install_count (iw_queue (sample_world install_queue_init title_state_init))
     = int (count_if tracked_entry (pending_installs (iw_queue (sample_world install_queue_init title_state_init))))
   \<and> sm_install_note_submit_failure (sample_world install_queue_init title_state_init) \<noteq> None"
  using install_queue_consistent [OF install_reach.start [OF title_inv_init], of "sample_world install_queue_init title_state_init"]
  by (simp add: sample_world_def)

lemma find_index_replicate: "P x \<Longrightarrow> 0 < n \<Longrightarrow> find_index P (replicate n x) = Some 0"
  by (cases n) simp_all

lemma pending_has_work:
  assumes "queue_inv q" and "is_title_install_pending q t"
  shows "sm_install_has_pending_work q"
proof -
  obtain k where "find_pending_install_entry q t = Some k"
    using assms(2) by (auto simp: is_title_install_pending_def)
  then have "0 < tracked_entries q"
    by (intro count_if_pos_nth [of k]) (simp_all add: find_pending_SomeD)
  then show ?thesis using assms(1) by (simp add: sm_install_has_pending_work_def queue_inv_def)
qed

definition sample_candidate :: scan_candidate where
  "sample_candidate = \<lparr>sc_path = ''/mnt/usb0/game'', sc_title_id = ''PPSA01234'', sc_title_name = ''Game'',
     sc_manual_source_path = [], sc_installed = False, sc_in_app_db = False, sc_manual = False\<rparr>"

lemma sample_candidate_work:
  "sm_install_has_pending_work (snd (sm_install_queue_candidate True now install_queue_init sample_candidate b))"
proof -
  have wf: "wf_candidate sample_candidate" by (simp add: wf_candidate_def sample_candidate_def)
  have r: "reserve_pending_install_entry install_queue_init (sc_title_id sample_candidate) = Some 0"
  proof -
    have "find_pending_install_entry install_queue_init (sc_title_id sample_candidate) = None"
      by (auto simp: find_pending_install_entry_def find_index_None_set install_queue_init_def)
    then show ?thesis
      using find_index_replicate [of "\<lambda>e. pi_state e = INSTALL_TRACK_NONE" blank_install MAX_PENDING]
      by (simp add: reserve_pending_install_entry_def install_queue_init_def)
  qed
  have s0: "pi_state (pending_installs install_queue_init ! 0) = INSTALL_TRACK_NONE"
    by (simp add: install_queue_init_def)
  have "is_title_install_pending (schedule_queued_install_submit now (place_candidate install_queue_init sample_candidate b 0)) (sc_title_id sample_candidate)"
    by (rule place_ok(3) [OF queue_inv_init wf r]) (simp_all add: s0 sample_candidate_def)
  moreover have "snd (sm_install_queue_candidate True now install_queue_init sample_candidate b)
      = schedule_queued_install_submit now (place_candidate install_queue_init sample_candidate b 0)"
    by (rule queue_candidate_cases [of True now install_queue_init sample_candidate b])
      (use r s0 in \<open>simp_all add: sm_install_queue_candidate_def sample_candidate_def place_candidate_def Let_def\<close>)
  ultimately show ?thesis
    using pending_has_work queue_candidate_inv [OF queue_inv_init wf, of True now b] by metis
qed

text \<open>
  C12. No install is left waiting without a wake-up: as long as titles are forgotten only
  while they are not submitted or nothing else is queued, every reachable state with pending
  work gives the scanner loop a non-zero deadline when the console is awake.
\<close>

theorem install_never_stalls:
  assumes "install_reach clock_ok forget_harmless w" and "sm_install_has_pending_work (iw_queue w)" and "now < 2 ^ 63"
  shows "sm_install_next_wake_us False install_all (iw_queue w) now \<noteq> 0"
proof -
  have q: "queue_inv (iw_queue w)" using install_reach_inv [OF assms(1)] by (simp add: world_inv_def)
  have live: "queue_live (iw_queue w)" by (rule install_reach_live [OF assms(1)])
  show ?thesis
  proof (cases "submitted_install_count (iw_queue w) \<le> 0")
    case True
    then show ?thesis
      using q live assms(2)
      by (simp add: sm_install_next_wake_us_def install_queue_active_def sm_install_has_pending_work_def
          queue_live_def queue_inv_def)
  next
    case False
    then show ?thesis
      using assms(2) clock_later [OF assms(3)]
      by (simp add: sm_install_next_wake_us_def install_queue_active_def sm_install_has_pending_work_def
          Let_def INSTALL_POLL_INTERVAL_US_def)
  qed
qed

theorem install_never_stalls_witness:
  "sm_install_next_wake_us False True (snd (sm_install_queue_candidate True 7 install_queue_init sample_candidate False)) 7 \<noteq> 0"
proof -
  have "wf_candidate sample_candidate" by (simp add: wf_candidate_def sample_candidate_def)
  from install_reach.candidate [OF install_reach.start [OF title_inv_init, of "sample_world install_queue_init title_state_init"] this]
  have "install_reach clock_ok forget_harmless
      (sample_world (snd (sm_install_queue_candidate True 7 install_queue_init sample_candidate False)) title_state_init)"
    by (simp add: sample_world_def)
  from install_never_stalls [OF this, of 7 True] show ?thesis
    using sample_candidate_work [of 7 False] by (simp add: sample_world_def)
qed

text \<open>
  A poll settles the submitted batch slot by slot: it always returns, removes exactly
  the submitted entries whose title the database lists or whose five minutes are over, leaves every
  other entry as it was, tells the user of each removed entry in table order (installed, or
  timed out), and asks for the release of the scan's mounts exactly when nothing is left to track.
\<close>

theorem install_poll_slotwise:
  assumes "install_reach env_ok forget_ok w" and "0 < submitted_install_count (iw_queue w)"
  shows "\<exists>w'. poll_pending_installs v w = Some w'
    \<and> pending_installs (iw_queue w') =
        map (\<lambda>e. if pi_state e = INSTALL_TRACK_SUBMITTED
                   \<and> (in_app_db (sv_app_db v) (pi_title_id e) \<or> install_timed_out (sv_now v) e)
                 then blank_install else e) (pending_installs (iw_queue w))
    \<and> iw_notices w' = iw_notices w @ concat (map (poll_notices v) (pending_installs (iw_queue w)))
    \<and> iw_mount_releases w' = iw_mount_releases w + (if sm_install_has_pending_work (iw_queue w') then 0 else 1)"
proof -
  obtain w' where w': "poll_pending_installs v w = Some w'" "world_inv w'"
    "pending_installs (iw_queue w') = map (polled_entry v) (pending_installs (iw_queue w))"
    "iw_notices w' = iw_notices w @ concat (map (poll_notices v) (pending_installs (iw_queue w)))"
    "iw_mount_releases w' = iw_mount_releases w + (if tracked_entries (iw_queue w') = 0 then 1 else 0)"
    by (rule poll_spec [OF install_reach_inv [OF assms(1)] assms(2), of v])
  then show ?thesis
    by (intro exI [of _ w'])
      (auto simp: polled_entry_def [abs_def] poll_done_def world_inv_def queue_inv_def sm_install_has_pending_work_def)
qed

text \<open>A batch of one: queued, submitted and accepted.\<close>

definition sample_submitted :: install_world where
  "sample_submitted = snd (sm_install_submit_queued (sample_service 7 0 None)
     (sample_world (snd (sm_install_queue_candidate True 7 install_queue_init sample_candidate False)) title_state_init))"

lemma sample_queued_reach:
  "install_reach env_ok forget_ok
     (sample_world (snd (sm_install_queue_candidate True 7 install_queue_init sample_candidate False)) title_state_init)"
proof -
  have "wf_candidate sample_candidate" by (simp add: wf_candidate_def sample_candidate_def)
  from install_reach.candidate [OF install_reach.start [OF title_inv_init, of "sample_world install_queue_init title_state_init"] this]
  show ?thesis by (simp add: sample_world_def)
qed

lemma candidate_submitted_count:
  "submitted_install_count (snd (sm_install_queue_candidate a now q c b)) = submitted_install_count q"
  by (rule queue_candidate_cases [of a now q c b]) (simp_all add: schedule_submit_fields place_fields)

lemma candidate_due:
  assumes "sm_install_has_pending_work (snd (sm_install_queue_candidate True 7 install_queue_init c False))"
  shows "submit_due (sample_service 7 res db) (snd (sm_install_queue_candidate True 7 install_queue_init c False))"
proof -
  let ?q = "snd (sm_install_queue_candidate True 7 install_queue_init c False)"
  have s: "submitted_install_count ?q = 0" by (simp add: candidate_submitted_count install_queue_init_def)
  have "queued_install_submit_due_us ?q \<in> {0, 1, 7}"
    by (rule queue_candidate_cases [of True 7 install_queue_init c False])
      (auto simp: schedule_submit_fields install_queue_init_def)
  then show ?thesis
    using assms s by (auto simp: submit_due_def sample_service_def count_queued_installs_def sm_install_has_pending_work_def)
qed

lemma sample_submitted_reach:
  "install_reach (\<lambda>_. True) (\<lambda>_ _. True) sample_submitted" "0 < submitted_install_count (iw_queue sample_submitted)"
proof -
  let ?w = "sample_world (snd (sm_install_queue_candidate True 7 install_queue_init sample_candidate False)) title_state_init"
  let ?v = "sample_service 7 0 None"
  note r = sample_queued_reach [of "\<lambda>_. True" "\<lambda>_ _. True"]
  have due: "submit_due ?v (iw_queue ?w)"
    using candidate_due [OF sample_candidate_work] by (simp add: sample_world_def)
  have "sv_install_result ?v = 0" by (simp add: sample_service_def)
  then obtain w' where w': "sm_install_submit_queued ?v ?w = (True, w')" "world_inv w'" "submitted_entries (iw_queue w') > 0"
    by (rule submit_accepted [OF install_reach_inv [OF r] due])
  show "install_reach (\<lambda>_. True) (\<lambda>_ _. True) sample_submitted"
    using install_reach.submit [OF r _ w'(1)] w'(1) by (simp add: sample_submitted_def)
  show "0 < submitted_install_count (iw_queue sample_submitted)"
    using w' by (simp add: sample_submitted_def world_inv_def queue_inv_def)
qed

theorem install_poll_slotwise_witness:
  "\<exists>w'. poll_pending_installs (sample_service 9 0 (Some [''PPSA01234''])) sample_submitted = Some w'
    \<and> iw_notices w' = iw_notices sample_submitted
        @ concat (map (poll_notices (sample_service 9 0 (Some [''PPSA01234'']))) (pending_installs (iw_queue sample_submitted)))"
  using install_poll_slotwise [OF sample_submitted_reach, of "sample_service 9 0 (Some [''PPSA01234''])"] by blast

text \<open>
  C30. An accepted batch request submits every queued title: all tracked entries are then
  submitted, stamped with the time of the call, their failure counters are zero again, other
  titles' counters are untouched, and a poll is scheduled.
\<close>

theorem install_submit_moves_batch:
  assumes "install_reach env_ok forget_ok w" and "submit_due v (iw_queue w)" and "sv_install_result v = 0"
  shows "\<exists>w'. sm_install_submit_queued v w = (True, w')
    \<and> pending_installs (iw_queue w') =
        map (\<lambda>e. if pi_state e = INSTALL_TRACK_QUEUED
                 then e\<lparr>pi_state := INSTALL_TRACK_SUBMITTED, pi_requested_at_us := sv_now v\<rparr> else e)
          (pending_installs (iw_queue w))
    \<and> count_queued_installs (iw_queue w') = 0
    \<and> submitted_install_count (iw_queue w') = tracked_install_count (iw_queue w')
    \<and> (\<forall>t. get_failed_mount_attempts (iw_titles w') t =
          (if t \<in> queued_titles (pending_installs (iw_queue w)) then 0 else get_failed_mount_attempts (iw_titles w) t))
    \<and> pending_install_poll_due_us (iw_queue w') = (if sv_now v = 0 then 1 else sv_now v + INSTALL_POLL_INTERVAL_US)"
proof -
  obtain w' where w': "sm_install_submit_queued v w = (True, w')" "world_inv w'"
    "pending_installs (iw_queue w') = map (submitted_entry (sv_now v)) (pending_installs (iw_queue w))"
    "\<And>x. get_failed_mount_attempts (iw_titles w') x =
      (if x \<in> queued_titles (pending_installs (iw_queue w)) then 0 else get_failed_mount_attempts (iw_titles w) x)"
    "submitted_entries (iw_queue w') = tracked_entries (iw_queue w')" "submitted_entries (iw_queue w') > 0"
    "pending_install_poll_due_us (iw_queue w') = (if sv_now v = 0 then 1 else sv_now v + INSTALL_POLL_INTERVAL_US)"
    by (rule submit_accepted [OF install_reach_inv [OF assms(1)] assms(2,3)]) (rule that)
  have q: "queue_inv (iw_queue w')" using w'(2) by (simp add: world_inv_def)
  have cnt: "submitted_install_count (iw_queue w') = tracked_install_count (iw_queue w')"
    using q w'(5) by (simp add: queue_inv_def)
  then have "count_queued_installs (iw_queue w') = 0" by (simp add: count_queued_installs_def)
  then show ?thesis
    using w'(1,3,4,7) cnt by (intro exI [of _ w']) (simp add: submitted_entry_def [abs_def])
qed

theorem install_submit_moves_batch_witness:
  "\<exists>w'. sm_install_submit_queued (sample_service 7 0 None)
      (sample_world (snd (sm_install_queue_candidate True 7 install_queue_init sample_candidate False)) title_state_init) = (True, w')
    \<and> count_queued_installs (iw_queue w') = 0"
proof -
  let ?w = "sample_world (snd (sm_install_queue_candidate True 7 install_queue_init sample_candidate False)) title_state_init"
  have "submit_due (sample_service 7 0 None) (iw_queue ?w)"
    using candidate_due [OF sample_candidate_work] by (simp add: sample_world_def)
  from install_submit_moves_batch [OF sample_queued_reach this] show ?thesis
    by (auto simp: sample_service_def)
qed

lemma failure_round:
  assumes inv: "world_inv w" and known: "counters_known w" and due: "submit_due vs (iw_queue w)"
    and res: "sv_install_result vs \<noteq> 0" and awake: "\<not> sv_sleeping v"
  obtains w' where "sm_install_service_pending v vp vs w = Some w'" "world_inv w'"
    "pending_installs (iw_queue w') = map (failed_entry (iw_titles w)) (pending_installs (iw_queue w))"
    "\<And>x. title_map (iw_titles w') x = (if x \<in> queued_titles (pending_installs (iw_queue w))
        then map_option bumped (title_map (iw_titles w) x) else title_map (iw_titles w) x)"
    "queued_install_submit_due_us (iw_queue w') \<in> {0, if sv_now vs = 0 then 1 else sv_now vs + INSTALL_SUBMIT_RETRY_US}"
proof -
  obtain w1 where w1: "sm_install_submit_queued vs w = (False, w1)" "world_inv w1" "iw_titles w1 = iw_titles w"
    "pending_installs (iw_queue w1) = pending_installs (iw_queue w)"
    "queued_install_submit_due_us (iw_queue w1) = (if sv_now vs = 0 then 1 else sv_now vs + INSTALL_SUBMIT_RETRY_US)"
    "queued_install_submit_failure_notified (iw_queue w1)"
    by (rule submit_refused [OF inv due res])
  have k1: "counters_known w1" using known w1(3,4) by (simp add: counters_known_def)
  obtain w2 where w2: "sm_install_note_submit_failure w1 = Some w2" "world_inv w2"
    "pending_installs (iw_queue w2) = map (failed_entry (iw_titles w)) (pending_installs (iw_queue w))"
    "\<And>x. title_map (iw_titles w2) x = (if x \<in> queued_titles (pending_installs (iw_queue w))
        then map_option bumped (title_map (iw_titles w) x) else title_map (iw_titles w) x)"
    using failure_known [OF w1(2) k1] w1(3,4) by metis
  have sub: "submitted_install_count (iw_queue w) \<le> 0" "count_queued_installs (iw_queue w) > 0"
    using due by (simp_all add: submit_due_def)
  then have act: "install_queue_active (sv_install_all v) (iw_queue w)"
    by (auto simp: install_queue_active_def count_queued_installs_def Let_def split: if_splits)
      (use inv in \<open>auto simp: world_inv_def queue_inv_def\<close>)
  have "sm_install_poll_pending vp w = Some w" using sub(1) by (simp add: sm_install_poll_pending_def poll_idle)
  then have run: "sm_install_service_pending v vp vs w = Some w2"
    using awake act sub(2) w1(1) w2(1) by (simp add: sm_install_service_pending_def)
  have "queued_install_submit_due_us (iw_queue w2) \<in> {0, queued_install_submit_due_us (iw_queue w1)}"
    by (rule failure_due [OF w2(1)])
  then show thesis using that [OF run] w2(2-4) w1(5) by simp
qed

lemma sat_inc_twice: "(2 :: u8) \<le> sat_inc (sat_inc c)"
  by (simp add: word_le_nat_alt unat_sat_inc)

lemma failed_twice:
  assumes t: "title_inv st" "title_inv st'" and map: "\<And>x. title_map st' x = (if x \<in> queued_titles es then map_option bumped (title_map st x) else title_map st x)"
    and e: "e \<in> set es" "pi_state e \<noteq> INSTALL_TRACK_SUBMITTED" "pi_state e = INSTALL_TRACK_QUEUED \<Longrightarrow> title_map st (pi_title_id e) \<noteq> None"
  shows "\<not> tracked_entry (failed_entry st' (failed_entry st e))"
proof (cases "pi_state e = INSTALL_TRACK_QUEUED")
  case False
  then have "pi_state e = INSTALL_TRACK_NONE" using e(2) by (cases "pi_state e") simp_all
  then show ?thesis by (simp add: failed_entry_def tracked_entry_def)
next
  case True
  then have "pi_title_id e \<in> queued_titles es" using e(1) by (auto simp: queued_titles_def)
  then have "get_failed_mount_attempts st' (pi_title_id e) = sat_inc (get_failed_mount_attempts st (pi_title_id e))"
    using e(3) [OF True] map [of "pi_title_id e"] by (auto simp: get_failed_map [OF t(1)] get_failed_map [OF t(2)] bumped_def)
  then show ?thesis using True sat_inc_twice by (simp add: failed_entry_def)
qed

lemma service_idle:
  assumes "world_inv w" and "\<not> sm_install_has_pending_work (iw_queue w)"
  shows "sm_install_service_pending v vp vs w = Some w"
proof -
  have "tracked_install_count (iw_queue w) = 0" "submitted_install_count (iw_queue w) = 0"
    using assms submitted_le_tracked [of "iw_queue w"]
    by (simp_all add: world_inv_def queue_inv_def sm_install_has_pending_work_def)
  then show ?thesis
    by (simp add: sm_install_service_pending_def sm_install_poll_pending_def poll_idle count_queued_installs_def)
qed

text \<open>
  C31. Retry limit: when the installer refuses the batch twice in a row, the second attempt
  made after the retry delay, the two service calls drop every queued title and the queue is
  empty; nothing is retried forever. (Each queued title has its entry in the title
  table: otherwise a full table could evict a counter between the attempts.)
\<close>

theorem install_retry_limit:
  assumes reach: "install_reach env_ok forget_ok w" and known: "counters_known w"
    and due: "submit_due vs1 (iw_queue w)" and res: "sv_install_result vs1 \<noteq> 0" "sv_install_result vs2 \<noteq> 0"
    and awake: "\<not> sv_sleeping v1" "\<not> sv_sleeping v2" "\<not> sv_sleeping vs2"
    and later: "sv_now vs1 + INSTALL_SUBMIT_RETRY_US \<le> sv_now vs2"
  shows "\<exists>w1 w2. sm_install_service_pending v1 vp1 vs1 w = Some w1 \<and> sm_install_service_pending v2 vp2 vs2 w1 = Some w2
    \<and> \<not> sm_install_has_pending_work (iw_queue w2)"
proof -
  let ?es = "pending_installs (iw_queue w)"
  have inv: "world_inv w" by (rule install_reach_inv [OF reach])
  obtain w1 where w1: "sm_install_service_pending v1 vp1 vs1 w = Some w1" "world_inv w1"
    "pending_installs (iw_queue w1) = map (failed_entry (iw_titles w)) ?es"
    "\<And>x. title_map (iw_titles w1) x = (if x \<in> queued_titles ?es then map_option bumped (title_map (iw_titles w) x) else title_map (iw_titles w) x)"
    "queued_install_submit_due_us (iw_queue w1) \<in> {0, if sv_now vs1 = 0 then 1 else sv_now vs1 + INSTALL_SUBMIT_RETRY_US}"
    by (rule failure_round [OF inv known due res(1) awake(1), of vp1]) (rule that)
  have nosub: "\<forall>e\<in>set ?es. pi_state e \<noteq> INSTALL_TRACK_SUBMITTED"
    using inv due by (simp add: submit_due_def world_inv_def queue_inv_def count_if_zero)
  have q1: "queue_inv (iw_queue w1)" using w1(2) by (simp add: world_inv_def)
  show ?thesis
  proof (cases "sm_install_has_pending_work (iw_queue w1)")
    case False
    then show ?thesis using w1(1) service_idle [OF w1(2) False] by blast
  next
    case True
    have "submitted_entries (iw_queue w1) = 0"
      using nosub unfolding count_if_zero w1(3) by (auto simp: failed_entry_def)
    then have cnt: "submitted_install_count (iw_queue w1) = 0" "count_queued_installs (iw_queue w1) > 0"
      using q1 True queued_count [OF q1] by (simp_all add: queue_inv_def sm_install_has_pending_work_def)
    have "(if sv_now vs1 = 0 then 1 else sv_now vs1 + INSTALL_SUBMIT_RETRY_US) \<le> sv_now vs2"
      using later order_trans [of 1 INSTALL_SUBMIT_RETRY_US "sv_now vs2"]
      by (cases "sv_now vs1 = 0") (simp_all add: INSTALL_SUBMIT_RETRY_US_def)
    then have due2: "submit_due vs2 (iw_queue w1)"
      using awake(3) cnt w1(5) by (auto simp: submit_due_def)
    have known1: "counters_known w1"
      using known w1(4) unfolding counters_known_def w1(3) by (auto simp: list_all_iff failed_entry_def)
    obtain w2 where w2: "sm_install_service_pending v2 vp2 vs2 w1 = Some w2" "world_inv w2"
        "pending_installs (iw_queue w2) = map (failed_entry (iw_titles w1)) (pending_installs (iw_queue w1))"
      by (rule failure_round [OF w1(2) known1 due2 res(2) awake(2), of vp2]) (rule that)
    have t: "title_inv (iw_titles w)" "title_inv (iw_titles w1)" using inv w1(2) by (simp_all add: world_inv_def)
    have "tracked_entries (iw_queue w2) = 0"
      using failed_twice [OF t w1(4)] nosub known
      unfolding count_if_zero w2(3) w1(3) counters_known_def list_all_iff by auto
    then have "\<not> sm_install_has_pending_work (iw_queue w2)"
      using w2(2) by (simp add: world_inv_def queue_inv_def sm_install_has_pending_work_def)
    then show ?thesis using w1(1) w2(1) by blast
  qed
qed

definition sample_title_state :: title_state where
  "sample_title_state = snd (get_or_create_title_state title_state_init ''PPSA01234'')"

lemma sample_title_state:
  "title_inv sample_title_state" "title_map sample_title_state ''PPSA01234'' \<noteq> None"
proof -
  have "wf_title_id ''PPSA01234''" by (simp add: wf_title_id_def)
  then obtain i st where st: "get_or_create_title_state title_state_init ''PPSA01234'' = (Some i, st)" "title_inv st"
      "title_map st ''PPSA01234'' = Some (title_of title_state_init ''PPSA01234'')"
    by (rule title_goc_inv [OF title_inv_init]) (rule that)
  have eq: "sample_title_state = st" by (simp only: sample_title_state_def st(1) snd_conv)
  show "title_inv sample_title_state" "title_map sample_title_state ''PPSA01234'' \<noteq> None"
    unfolding eq st(3) using st(2) by simp_all
qed

lemma candidate_titles:
  "queued_titles (pending_installs (snd (sm_install_queue_candidate True now install_queue_init sample_candidate b))) \<subseteq> {''PPSA01234''}"
proof (rule queue_candidate_cases [of True now install_queue_init sample_candidate b], goal_cases)
  case (3 k)
  then show ?case
    using set_update_subset_insert [of "replicate MAX_PENDING blank_install" k "queued_entry sample_candidate b"]
      queued_entry_fields(1) [of sample_candidate b]
    by (auto simp: queued_titles_def schedule_submit_fields place_fields install_queue_init_def
        wf_candidate_def sample_candidate_def dest!: set_mp)
qed (auto simp: queued_titles_def install_queue_init_def)

theorem install_retry_limit_witness:
  "\<exists>w1 w2. sm_install_service_pending (sample_service 7 1 None) (sample_service 7 1 None) (sample_service 7 1 None)
        (sample_world (snd (sm_install_queue_candidate True 7 install_queue_init sample_candidate False)) sample_title_state) = Some w1
    \<and> sm_install_service_pending (sample_service 3000000 1 None) (sample_service 3000000 1 None) (sample_service 3000000 1 None) w1 = Some w2
    \<and> \<not> sm_install_has_pending_work (iw_queue w2)"
proof -
  let ?q = "snd (sm_install_queue_candidate True 7 install_queue_init sample_candidate False)"
  let ?w = "sample_world ?q sample_title_state"
  have r: "install_reach (\<lambda>_. True) (\<lambda>_ _. True) ?w"
    using install_reach.others [OF sample_queued_reach sample_title_state(1), of "\<lambda>_. True" "\<lambda>_ _. True" "\<lambda>_. None" game_cache_init]
    by (simp add: sample_world_def)
  have k: "counters_known ?w"
    using candidate_titles [of 7 False] sample_title_state(2)
    by (auto simp: counters_known_def list_all_iff sample_world_def queued_titles_def)
  have d: "submit_due (sample_service 7 1 None) (iw_queue ?w)"
    using candidate_due [OF sample_candidate_work] by (simp add: sample_world_def)
  show ?thesis
    by (rule install_retry_limit [OF r k d]) (simp_all add: sample_service_def INSTALL_SUBMIT_RETRY_US_def)
qed

section \<open>Where the queue does not do what it means to\<close>

text \<open>Forgetting the only submitted title while others are queued leaves the queue without a deadline:
  \<^verbatim>\<open>sm_install_next_wake_us\<close> answers 0 (``no wake-up'') though work is pending.\<close>

lemma forget_last_submitted_stalls:
  assumes inv: "queue_inv q" and f: "find_pending_install_entry q t = Some k"
    and sub: "pi_state (pending_installs q ! k) = INSTALL_TRACK_SUBMITTED"
    and one: "submitted_install_count q = 1" and more: "count_queued_installs q > 0"
  shows "sm_install_has_pending_work (sm_install_forget_pending_title q t)
    \<and> sm_install_next_wake_us False a (sm_install_forget_pending_title q t) now = 0"
proof -
  let ?q = "clear_pending_install_entry q k"
  have q: "sm_install_forget_pending_title q t = ?q" using f by (simp add: sm_install_forget_pending_title_def)
  have "queued_install_submit_due_us q = 0" using inv one by (simp add: queue_inv_def)
  then have due: "queued_install_submit_due_us ?q = 0" by (simp add: clear_timers)
  have "submitted_install_count ?q = 0" "tracked_install_count ?q = tracked_install_count q - 1" "tracked_install_count q > 1"
    using sub one more by (auto simp: clear_pending_install_entry_def Let_def count_queued_installs_def split: if_splits)
  then show ?thesis
    using due by (simp add: q sm_install_has_pending_work_def sm_install_next_wake_us_def install_queue_active_def)
qed

text \<open>Such a queue: one title submitted, another queued behind it.\<close>

lemma forget_last_submitted_stalls_sample:
  "sm_install_next_wake_us False True (sm_install_forget_pending_title
     (sample_queue [sample_entry ''PPSA00001'' INSTALL_TRACK_SUBMITTED, sample_entry ''PPSA00002'' INSTALL_TRACK_QUEUED] 1)
     ''PPSA00001'') now = 0"
proof -
  let ?es = "[sample_entry ''PPSA00001'' INSTALL_TRACK_SUBMITTED, sample_entry ''PPSA00002'' INSTALL_TRACK_QUEUED]"
  have "queue_inv (sample_queue ?es 1)"
    by (rule sample_queue_inv) (simp_all add: sample_entry_ok wf_title_id_def sample_entry_def count_if_def install_entry_ok_def tracked_entry_def)
  moreover have "find_pending_install_entry (sample_queue ?es 1) ''PPSA00001'' = Some 0"
    by (simp add: find_pending_install_entry_def sample_queue_def sample_entry_def)
  ultimately show ?thesis
    using forget_last_submitted_stalls [of "sample_queue ?es 1" "''PPSA00001''" 0 True now]
    by (simp add: sample_queue_def sample_entry_def count_if_def count_queued_installs_def tracked_entry_def)
qed

text \<open>A title line that does not fit fills the buffer, so the ``and more'' text never appears.\<close>

lemma append_line_cases:
  assumes "append_batch_install_line sz n t (m, c) = (m', c')" and "length m < sz"
  shows "length m' < sz" and "c' = c + 1 \<or> c' = c \<and> Suc (length m') = sz"
  using assms by (auto simp: append_batch_install_line_def append_bounded_def Let_def split: if_splits)

lemma append_queued_grows: "fold append_queued es (m, c) = (m', c') \<Longrightarrow> length m \<le> length m'"
proof (induction es arbitrary: m c)
  case (Cons e es)
  obtain m1 c1 where s: "append_queued e (m, c) = (m1, c1)" by (cases "append_queued e (m, c)")
  then have "length m \<le> length m1"
    by (auto simp: append_queued_def append_batch_install_line_def append_bounded_def Let_def split: if_splits)
  moreover have "length m1 \<le> length m'" using Cons s by simp
  ultimately show ?case by simp
qed simp

lemma append_queued_loop:
  assumes "fold append_queued es (m, c) = (m', c')" and "length m < BATCH_MESSAGE_SIZE"
  shows "length m' < BATCH_MESSAGE_SIZE
    \<and> (Suc (length m') = BATCH_MESSAGE_SIZE \<or> c' = c + int (count_if (\<lambda>e. pi_state e = INSTALL_TRACK_QUEUED) es))"
  using assms
proof (induction es arbitrary: m c)
  case Nil
  then show ?case by (simp add: count_if_def)
next
  case (Cons e es)
  obtain m1 c1 where s: "append_queued e (m, c) = (m1, c1)" by (cases "append_queued e (m, c)")
  have rest: "fold append_queued es (m1, c1) = (m', c')" using Cons.prems(1) s by simp
  show ?case
  proof (cases "pi_state e = INSTALL_TRACK_QUEUED")
    case False
    then show ?thesis using Cons.IH [OF rest] s Cons.prems(2) by (simp add: append_queued_def count_if_def)
  next
    case True
    then have l: "append_batch_install_line BATCH_MESSAGE_SIZE (pi_title_name e) (pi_title_id e) (m, c) = (m1, c1)"
      using s by (simp add: append_queued_def)
    note a = append_line_cases [OF l Cons.prems(2)]
    note ih = Cons.IH [OF rest a(1)]
    have "length m1 \<le> length m'" using rest by (rule append_queued_grows)
    then show ?thesis using a ih True by (auto simp: count_if_def)
  qed
qed

lemma queued_entries_count:
  assumes "queue_inv q"
  shows "count_queued_installs q = int (count_if (\<lambda>e. pi_state e = INSTALL_TRACK_QUEUED) (pending_installs q))"
proof -
  have "count_if tracked_entry es = count_if (\<lambda>e. pi_state e = INSTALL_TRACK_QUEUED) es
      + count_if (\<lambda>e. pi_state e = INSTALL_TRACK_SUBMITTED) es" for es
  proof (induction es)
    case (Cons e es)
    then show ?case by (cases "pi_state e") (simp_all add: count_if_def tracked_entry_def)
  qed (simp add: count_if_def)
  then show ?thesis using queued_count [OF assms] by simp
qed

lemma batch_message_never_says_more:
  assumes "queue_inv q"
  shows "batch_message text_queued text_more q = batch_message text_queued (\<lambda>_. []) q"
proof -
  let ?m0 = "append_bounded BATCH_MESSAGE_SIZE [] (text_queued (count_queued_installs q))"
  obtain m c where f: "fold append_queued (pending_installs q) (?m0, 0) = (m, c)"
    by (cases "fold append_queued (pending_installs q) (?m0, 0)")
  have "length ?m0 < BATCH_MESSAGE_SIZE" by (simp add: append_bounded_def BATCH_MESSAGE_SIZE_def)
  then have "Suc (length m) = BATCH_MESSAGE_SIZE \<or> c = count_queued_installs q"
    using append_queued_loop [OF f] queued_entries_count [OF assms] by simp
  moreover have "append_bounded BATCH_MESSAGE_SIZE m x = m" if "Suc (length m) = BATCH_MESSAGE_SIZE" for x
    using that by (auto simp: append_bounded_def)
  ultimately show ?thesis unfolding batch_message_def Let_def f prod.case by auto
qed

end
