(* ===== verification/Json.thy ===== *)
theory Json
  imports SM_Prelude
begin

text \<open>
  Parsed JSON values, as far as the sources look at them. The text is parsed by json-c, which is
  not part of the sources: a parser is an argument of the definitions that need one. The
  members of an object are in order, with distinct keys, as json-c keeps them.
\<close>

datatype json = JString string | JObject "(string \<times> json) list" | JArray "json list" | JBool bool | JOther

text \<open>\<^verbatim>\<open>json_object_object_get_ex\<close>, which is false for a value that is not an object.\<close>

definition object_member :: "json option \<Rightarrow> string \<Rightarrow> json option" where
  "object_member object key = (case object of Some (JObject ms) \<Rightarrow> map_of ms key | _ \<Rightarrow> None)"

text \<open>The string of a value, when it fits an array of \<open>out_size\<close> bytes and holds no NUL.\<close>

definition json_text :: "json option \<Rightarrow> nat \<Rightarrow> string option" where
  "json_text j out_size =
     (case j of
        Some (JString s) \<Rightarrow> if s = [] \<or> length s \<ge> out_size \<or> CHR 0x00 \<in> set s then None else Some s
      | _ \<Rightarrow> None)"

lemma json_text_SomeD: "json_text j n = Some s \<Longrightarrow> s \<noteq> [] \<and> length s < n \<and> is_cstr s"
  by (auto simp: json_text_def is_cstr_def split: option.splits json.splits if_splits)

end
