(* ===== verification/Game_Info.thy ===== *)
theory Game_Info
  imports Path_State Json "HOL-Library.Monad_Syntax"
begin

text \<open>
  \<^verbatim>\<open>src/sm_gameinfo.c\<close>: the identity of a game (title id and name) read from
  \<^verbatim>\<open>sce_sys/param.json\<close> or \<^verbatim>\<open>sce_sys/param.sfo\<close>, and the cache of Path_State in front of it.

  The binary SFO parser works on an untrusted buffer. Every read of the buffer and every
  write to an output array is bounds-checked in the model: \<open>None\<close> is an access outside
  (undefined behaviour in C), so that the parser never returns \<open>None\<close> is its memory
  safety. Sizes are natural numbers: they come from 32-bit fields and the file size, so no sum
  reaches the range of \<^verbatim>\<open>size_t\<close>, and every difference stands behind the guard that keeps it
  from wrapping.

  JSON text is parsed by json-c, which is not part of the sources: the parser is the argument
  \<open>json_parse\<close>, from the text to the parsed value, \<open>None\<close> when json-c reports an error or text
  other than blanks is left.
\<close>

section \<open>Title ids\<close>

definition is_upper :: "char \<Rightarrow> bool" where
  "is_upper c \<longleftrightarrow> (65 :: nat) \<le> of_char c \<and> of_char c \<le> (90 :: nat)"

definition is_digit :: "char \<Rightarrow> bool" where
  "is_digit c \<longleftrightarrow> (48 :: nat) \<le> of_char c \<and> of_char c \<le> (57 :: nat)"

definition is_supported_game_title_id :: "string \<Rightarrow> bool" where
  "is_supported_game_title_id title_id \<longleftrightarrow>
     list_all (\<lambda>i. is_upper (char_at title_id i)) [0..<4]
     \<and> list_all (\<lambda>i. is_digit (char_at title_id i)) [4..<9]
     \<and> char_at title_id 9 = CHR 0x00 \<and> take 4 title_id \<noteq> ''NPXS''"

section \<open>The buffer\<close>

definition mem_byte :: "string \<Rightarrow> nat \<Rightarrow> u8 option" where
  "mem_byte b off = (if off < length b then Some (of_char (b ! off)) else None)"

definition mem_read :: "string \<Rightarrow> nat \<Rightarrow> nat \<Rightarrow> string option" where
  "mem_read b off n = (if off + n \<le> length b then Some (take n (drop off b)) else None)"

definition read_sfo_u32 :: "string \<Rightarrow> nat \<Rightarrow> u32 option" where
  "read_sfo_u32 data off = do {
     b0 \<leftarrow> mem_byte data off;
     b1 \<leftarrow> mem_byte data (off + 1);
     b2 \<leftarrow> mem_byte data (off + 2);
     b3 \<leftarrow> mem_byte data (off + 3);
     Some (ucast b0 OR push_bit 8 (ucast b1) OR push_bit 16 (ucast b2) OR push_bit 24 (ucast b3))
   }"

section \<open>The SFO parser\<close>

text \<open>Which output a key names: \<open>Some True\<close> the title id, \<open>Some False\<close> the title name.\<close>

definition sfo_field :: "string \<Rightarrow> nat \<Rightarrow> nat \<Rightarrow> bool option option" where
  "sfo_field data name key_space = do {
     is_id \<leftarrow> (if key_space \<ge> 9
               then do { m \<leftarrow> mem_read data name 9; Some (m = ''TITLE_ID'' @ [CHR 0x00]) } else Some False);
     if is_id then Some (Some True)
     else do {
       is_name \<leftarrow> (if key_space \<ge> 6
                   then do { m \<leftarrow> mem_read data name 6; Some (m = ''TITLE'' @ [CHR 0x00]) } else Some False);
       Some (if is_name then Some False else None)
     }
   }"

text \<open>Copying one field; the flag says whether the parser goes on.\<close>

definition sfo_copy :: "string \<Rightarrow> nat \<Rightarrow> nat \<Rightarrow> u8 \<Rightarrow> bool \<Rightarrow> string \<times> string \<Rightarrow> (bool \<times> string \<times> string) option" where
  "sfo_copy data text_at len fmt is_id out = do {
     let out_size = (if is_id then MAX_TITLE_ID else MAX_TITLE_NAME);
     let scan_length = (if len < out_size then len else out_size);
     scanned \<leftarrow> mem_read data text_at scan_length;
     let end = find_index (\<lambda>c. c = CHR 0x00) scanned;
     if end = None \<and> (fmt = 2 \<or> len \<ge> out_size) \<or> len = 0
     then Some (\<not> is_id, out)
     else do {
       let text_length = (case end of Some k \<Rightarrow> k | None \<Rightarrow> len);
       copied \<leftarrow> mem_read data text_at text_length;
       if text_length \<ge> out_size then None
       else Some (True, if is_id then (copied, snd out) else (fst out, copied))
     }
   }"

text \<open>The difference of two \<^verbatim>\<open>size_t\<close> values: it wraps around at 64 bits, so a smaller minuend gives
  a huge difference and not zero.\<close>

definition size_diff :: "nat \<Rightarrow> nat \<Rightarrow> nat" where
  "size_diff a b = unat (of_nat a - of_nat b :: u64)"

definition sfo_entry :: "string \<Rightarrow> nat \<Rightarrow> nat \<Rightarrow> nat \<Rightarrow> string \<times> string \<Rightarrow> (bool \<times> string \<times> string) option" where
  "sfo_entry data keys values i out = do {
     let entry = 20 + i * 16;
     b0 \<leftarrow> mem_byte data entry;
     b1 \<leftarrow> mem_byte data (entry + 1);
     let key = unat (ucast b0 OR push_bit 8 (ucast b1) :: u64);
     len \<leftarrow> read_sfo_u32 data (entry + 4);
     capacity \<leftarrow> read_sfo_u32 data (entry + 8);
     value \<leftarrow> read_sfo_u32 data (entry + 12);
     if key \<ge> size_diff values keys \<or> unat value > size_diff (length data) values
        \<or> len > capacity \<or> unat capacity > size_diff (size_diff (length data) values) (unat value)
     then Some (False, out)
     else do {
       b3 \<leftarrow> mem_byte data (entry + 3);
       b2 \<leftarrow> mem_byte data (entry + 2);
       if b3 \<noteq> 0 \<and> b3 \<noteq> 2 \<or> b2 \<noteq> 4 then Some (True, out)
       else do {
         field \<leftarrow> sfo_field data (keys + key) (size_diff (size_diff values keys) key);
         (case field of
            None \<Rightarrow> Some (True, out)
          | Some is_id \<Rightarrow> sfo_copy data (values + unat value) (unat len) b3 is_id out)
       }
     }
   }"

fun sfo_loop :: "string \<Rightarrow> nat \<Rightarrow> nat \<Rightarrow> nat list \<Rightarrow> string \<times> string \<Rightarrow> (bool \<times> string \<times> string) option" where
  "sfo_loop data keys values [] out = Some (True, out)"
| "sfo_loop data keys values (i # is) out =
     (case sfo_entry data keys values i out of
        None \<Rightarrow> None
      | Some (False, out') \<Rightarrow> Some (False, out')
      | Some (True, out') \<Rightarrow> sfo_loop data keys values is out')"

definition parse_game_sfo :: "string \<Rightarrow> string \<times> string \<Rightarrow> (bool \<times> string \<times> string) option" where
  "parse_game_sfo data out =
     (if length data < 20 then Some (False, out)
      else do {
        magic \<leftarrow> mem_read data 0 4;
        if magic \<noteq> CHR 0x00 # ''PSF'' then Some (False, out)
        else do {
          keys \<leftarrow> read_sfo_u32 data 8;
          values \<leftarrow> read_sfo_u32 data 12;
          count \<leftarrow> read_sfo_u32 data 16;
          if unat count > size_diff (length data) 20 div 16 \<or> unat keys < 20 + unat count * 16
             \<or> unat keys \<ge> unat values \<or> unat values \<ge> length data
          then Some (False, out)
          else (case sfo_loop data (unat keys) (unat values) [0..<unat count] out of
                  None \<Rightarrow> None
                | Some (False, out') \<Rightarrow> Some (False, out')
                | Some (True, out') \<Rightarrow> Some (is_supported_game_title_id (fst out'), out'))
        }
      })"

section \<open>JSON\<close>

definition extract_json_string :: "json \<Rightarrow> string \<Rightarrow> nat \<Rightarrow> string option" where
  "extract_json_string object key out_size =
     json_text (object_member (Some object) key) out_size"

definition title_name_of :: "json option \<Rightarrow> string option" where
  "title_name_of language =
     (case language of None \<Rightarrow> None | Some l \<Rightarrow> extract_json_string l ''titleName'' MAX_TITLE_NAME)"

fun first_title_name :: "(string \<times> json) list \<Rightarrow> string option" where
  "first_title_name [] = None"
| "first_title_name ((_, v) # ms) =
     (case extract_json_string v ''titleName'' MAX_TITLE_NAME of Some s \<Rightarrow> Some s | None \<Rightarrow> first_title_name ms)"

definition localized_title_name :: "json option \<Rightarrow> string option" where
  "localized_title_name localized =
     (case title_name_of (object_member localized ''en-US'') of
        Some s \<Rightarrow> Some s
      | None \<Rightarrow>
          (case localized of
             Some l \<Rightarrow>
               (case extract_json_string l ''defaultLanguage'' 32 of
                  Some lang \<Rightarrow> title_name_of (object_member localized lang)
                | None \<Rightarrow> None)
           | None \<Rightarrow> None))"

definition extract_title_name :: "json \<Rightarrow> string option" where
  "extract_title_name root =
     (let localized = object_member (Some root) ''localizedParameters'' in
      case localized_title_name localized of
        Some s \<Rightarrow> Some s
      | None \<Rightarrow>
          (case extract_json_string root ''titleName'' MAX_TITLE_NAME of
             Some s \<Rightarrow> Some s
           | None \<Rightarrow> (case localized of Some (JObject ms) \<Rightarrow> first_title_name ms | _ \<Rightarrow> None)))"

text \<open>The JSON branch of \<^verbatim>\<open>get_game_info\<close>: validity, id and name.\<close>

definition json_game_info :: "json option \<Rightarrow> bool \<times> string \<times> string" where
  "json_game_info parsed =
     (case parsed of
        Some (JObject ms) \<Rightarrow>
          (let root = JObject ms;
               found = (case extract_json_string root ''titleId'' MAX_TITLE_ID of
                          Some s \<Rightarrow> Some s
                        | None \<Rightarrow> extract_json_string root ''title_id'' MAX_TITLE_ID)
           in case found of
                None \<Rightarrow> (False, [], [])
              | Some t \<Rightarrow>
                  if is_supported_game_title_id t
                  then (True, t, case extract_title_name root of Some n \<Rightarrow> n | None \<Rightarrow> [])
                  else (False, t, []))
      | _ \<Rightarrow> (False, [], []))"

section \<open>Finding and reading the parameter file\<close>

fun resolve_param_names :: "host \<Rightarrow> string \<Rightarrow> string list \<Rightarrow> (string \<times> stat_buf) option" where
  "resolve_param_names h base_path [] = None"
| "resolve_param_names h base_path (n # ns) =
     (case bounded MAX_PATH (base_path @ ''/sce_sys/'' @ n) of
        None \<Rightarrow> None
      | Some p \<Rightarrow>
          (case h_stat h p of
             Inr st \<Rightarrow> if st_mode st = S_REG then Some (p, st) else resolve_param_names h base_path ns
           | Inl e \<Rightarrow> if e \<noteq> ENOENT \<and> e \<noteq> ENOTDIR then None else resolve_param_names h base_path ns))"

definition resolve_game_param :: "host \<Rightarrow> string \<Rightarrow> (string \<times> stat_buf) option" where
  "resolve_game_param h base_path = resolve_param_names h base_path [''param.json'', ''param.sfo'']"

definition directory_has_game_param :: "host \<Rightarrow> string \<Rightarrow> stat_buf option" where
  "directory_has_game_param h dir_path = map_option snd (resolve_game_param h dir_path)"

definition is_data_mounted :: "host \<Rightarrow> string \<Rightarrow> bool" where
  "is_data_mounted h title_id = (directory_has_game_param h (strlcpy (''/system_ex/app/'' @ title_id) MAX_PATH) \<noteq> None)"

definition game_param_stat_matches :: "stat_buf \<Rightarrow> stat_buf \<Rightarrow> bool" where
  "game_param_stat_matches current expected \<longleftrightarrow>
     st_mode current = S_REG \<and> st_dev current = st_dev expected \<and> st_ino current = st_ino expected
     \<and> st_size current = st_size expected \<and> st_mtime current = st_mtime expected
     \<and> st_mtime_nsec current = st_mtime_nsec expected \<and> st_ctime current = st_ctime expected
     \<and> st_ctime_nsec current = st_ctime_nsec expected"

text \<open>
  What the system answers while the file is read: whether it opens, the two \<^verbatim>\<open>fstat\<close> calls,
  the bytes the reads deliver before the end or an error, whether the two allocations
  succeed, and json-c.
\<close>

record param_env =
  pv_host :: host
  pv_open :: bool
  pv_fstat_before :: "stat_buf option"
  pv_fstat_after :: "stat_buf option"
  pv_bytes :: string
  pv_malloc :: bool
  pv_tokener :: bool
  pv_json_parse :: "string \<Rightarrow> json option"

definition MAX_PARAM_JSON_SIZE :: int where "MAX_PARAM_JSON_SIZE = 1024 * 1024"

definition fstat_matches :: "stat_buf option \<Rightarrow> stat_buf \<Rightarrow> bool" where
  "fstat_matches current expected = (case current of None \<Rightarrow> False | Some c \<Rightarrow> game_param_stat_matches c expected)"

text \<open>The text of the parameter file, or nothing when it cannot be read whole and unchanged.\<close>

definition read_game_param :: "param_env \<Rightarrow> stat_buf \<Rightarrow> string option" where
  "read_game_param v param_st =
     (let len = nat (st_size param_st) in
      if \<not> pv_open v \<or> \<not> fstat_matches (pv_fstat_before v) param_st \<or> \<not> pv_malloc v then None
      else if length (pv_bytes v) < len \<or> \<not> fstat_matches (pv_fstat_after v) param_st then None
      else Some (take len (pv_bytes v)))"

text \<open>Parsing by file kind. \<open>None\<close>: an access out of bounds; \<open>Some None\<close>: no tokener could
  be allocated.\<close>

definition parse_game_param :: "param_env \<Rightarrow> string \<Rightarrow> string \<Rightarrow> (bool \<times> string \<times> string) option option" where
  "parse_game_param v path buf =
     (if after_last (CHR ''/'') path = ''param.sfo'' then map_option Some (parse_game_sfo buf ([], []))
      else if \<not> pv_tokener v then Some None
      else Some (Some (json_game_info (pv_json_parse v buf))))"

definition get_game_info ::
  "param_env \<Rightarrow> string \<Rightarrow> stat_buf \<Rightarrow> path_state \<Rightarrow> ((bool \<times> string \<times> string) \<times> path_state) option" where
  "get_game_info v base_path param_st st =
     (if st_mode param_st \<noteq> S_REG then Some ((False, [], []), st)
      else
        (case load_cached_game_info st base_path param_st of
           (True, Some (t, n)) \<Rightarrow> Some ((True, t, n), st)
         | (True, None) \<Rightarrow> Some ((False, [], []), st)
         | (False, _) \<Rightarrow>
             if st_size param_st \<le> 0 \<or> st_size param_st > MAX_PARAM_JSON_SIZE then
               map_option (Pair (False, [], [])) (store_cached_game_info (pv_host v) st base_path param_st False [] [])
             else
               (case resolve_game_param (pv_host v) base_path of
                  None \<Rightarrow> Some ((False, [], []), st)
                | Some (path, _) \<Rightarrow>
                    (case read_game_param v param_st of
                       None \<Rightarrow> Some ((False, [], []), st)
                     | Some buf \<Rightarrow>
                         (case parse_game_param v path buf of
                            None \<Rightarrow> None
                          | Some None \<Rightarrow> Some ((False, [], []), st)
                          | Some (Some (vld, t, n)) \<Rightarrow>
                              (let t' = (if vld then t else []);
                                   n' = (if vld then (if n = [] then strlcpy t MAX_TITLE_NAME else n) else [])
                               in map_option (Pair (vld, t', n'))
                                    (store_cached_game_info (pv_host v) st base_path param_st vld t' n')))))))"

section \<open>Memory safety\<close>

lemma mem_byte_in: "off < length b \<Longrightarrow> mem_byte b off = Some (of_char (b ! off))"
  by (simp add: mem_byte_def)

lemma mem_read_in: "off + n \<le> length b \<Longrightarrow> mem_read b off n = Some (take n (drop off b))"
  by (simp add: mem_read_def)

lemma read_u32_in: "off + 4 \<le> length b \<Longrightarrow> \<exists>x. read_sfo_u32 b off = Some x"
  by (simp add: read_sfo_u32_def mem_byte_in)

lemma sfo_field_in:
  assumes "name + key_space \<le> length data"
  shows "\<exists>f. sfo_field data name key_space = Some f"
  using assms by (auto simp: sfo_field_def mem_read_in)

lemma find_index_less: "find_index P xs = Some k \<Longrightarrow> k < length xs"
  by (simp add: find_index_Some)

lemma sfo_copy_in:
  assumes "text_at + len \<le> length data"
  shows "\<exists>r. sfo_copy data text_at len fmt is_id out = Some r"
proof -
  define out_size where "out_size = (if is_id then MAX_TITLE_ID else MAX_TITLE_NAME)"
  define scan where "scan = (if len < out_size then len else out_size)"
  have scanned: "mem_read data text_at scan = Some (take scan (drop text_at data))"
    using assms by (intro mem_read_in) (auto simp: scan_def)
  define nul where "nul = find_index (\<lambda>c. c = CHR 0x00) (take scan (drop text_at data))"
  define text_length where "text_length = (case nul of Some k \<Rightarrow> k | None \<Rightarrow> len)"
  define stop where "stop \<longleftrightarrow> nul = None \<and> (fmt = 2 \<or> out_size \<le> len) \<or> len = 0"
  have copied: "mem_read data text_at text_length = Some (take text_length (drop text_at data))" "\<not> out_size \<le> text_length"
    if "\<not> stop"
  proof -
    have "text_length < out_size \<and> text_length \<le> len"
    proof (cases nul)
      case None
      then show ?thesis using that by (auto simp: text_length_def stop_def)
    next
      case (Some k)
      then have "k < scan" using find_index_less [of _ "take scan (drop text_at data)" k] by (simp add: nul_def)
      then show ?thesis using Some by (auto simp: text_length_def scan_def split: if_splits)
    qed
    then show "mem_read data text_at text_length = Some (take text_length (drop text_at data))" "\<not> out_size \<le> text_length"
      using assms by (auto intro!: mem_read_in)
  qed
  have "sfo_copy data text_at len fmt is_id out = (if stop then Some (\<not> is_id, out)
      else do { copied \<leftarrow> mem_read data text_at text_length;
        if out_size \<le> text_length then None
        else Some (True, if is_id then (copied, snd out) else (fst out, copied)) })"
    unfolding sfo_copy_def Let_def out_size_def [symmetric] scan_def [symmetric] scanned
    by (simp add: nul_def [symmetric] text_length_def [symmetric] stop_def [symmetric])
  moreover have "\<exists>r. (do { copied \<leftarrow> mem_read data text_at text_length;
        if out_size \<le> text_length then None
        else Some (True, if is_id then (copied, snd out) else (fst out, copied)) }) = Some r" if "\<not> stop"
    unfolding copied(1) [OF that] if_not_P [OF copied(2) [OF that]] bind.bind_lunit by blast
  ultimately show ?thesis by (cases stop) auto
qed

text \<open>Behind its guard a difference is the one of the natural numbers.\<close>

lemma size_diff_le: "b \<le> a \<Longrightarrow> a < 2 ^ 64 \<Longrightarrow> size_diff a b = a - b"
  by (simp add: size_diff_def unat_sub_if' unsigned_of_nat take_bit_nat_eq_self)

lemma sfo_entry_in:
  assumes e: "20 + i * 16 + 16 \<le> length data" and kv: "keys < values" and vs: "values < length data"
    and sz: "length data < 2 ^ 64"
  shows "\<exists>r. sfo_entry data keys values i out = Some r"
proof -
  let ?e = "20 + i * 16"
  obtain len where len: "read_sfo_u32 data (?e + 4) = Some len" using read_u32_in [of "?e + 4" data] e by auto
  obtain cap where cap: "read_sfo_u32 data (?e + 8) = Some cap" using read_u32_in [of "?e + 8" data] e by auto
  obtain val where val: "read_sfo_u32 data (?e + 12) = Some val" using read_u32_in [of "?e + 12" data] e by auto
  have bytes: "mem_byte data ?e = Some (of_char (data ! ?e))" "mem_byte data (?e + 1) = Some (of_char (data ! (?e + 1)))"
      "mem_byte data (?e + 2) = Some (of_char (data ! (?e + 2)))" "mem_byte data (?e + 3) = Some (of_char (data ! (?e + 3)))"
    using e by (simp_all add: mem_byte_in)
  define key where "key = unat (ucast (of_char (data ! ?e) :: u8) OR push_bit 8 (ucast (of_char (data ! (?e + 1)) :: u8)) :: u64)"
  define bad where "bad \<longleftrightarrow> key \<ge> size_diff values keys \<or> unat val > size_diff (length data) values
      \<or> len > cap \<or> unat cap > size_diff (size_diff (length data) values) (unat val)"
  have run: "sfo_entry data keys values i out =
      (if bad then Some (False, out)
       else if of_char (data ! (?e + 3)) \<noteq> (0 :: u8) \<and> of_char (data ! (?e + 3)) \<noteq> (2 :: u8) \<or> of_char (data ! (?e + 2)) \<noteq> (4 :: u8)
       then Some (True, out)
       else do {
         field \<leftarrow> sfo_field data (keys + key) (size_diff (size_diff values keys) key);
         (case field of
            None \<Rightarrow> Some (True, out)
          | Some is_id \<Rightarrow> sfo_copy data (values + unat val) (unat len) (of_char (data ! (?e + 3))) is_id out) })"
    unfolding sfo_entry_def Let_def bytes len cap val bind.bind_lunit key_def [symmetric] bad_def [symmetric] by simp
  show ?thesis
  proof (cases bad)
    case True
    then have "sfo_entry data keys values i out = Some (False, out)" by (simp only: run if_True)
    then show ?thesis by blast
  next
    case False
    have d: "size_diff values keys = values - keys" "size_diff (length data) values = length data - values"
      using kv vs sz by (simp_all add: size_diff_le)
    have g: "key < values - keys" "unat val \<le> length data - values" "unat len \<le> unat cap"
      using False by (simp_all add: bad_def d word_le_nat_alt not_less)
    have d2: "size_diff (size_diff values keys) key = values - keys - key"
        "size_diff (size_diff (length data) values) (unat val) = length data - values - unat val"
      unfolding d using g vs sz by (simp_all add: size_diff_le)
    have cap: "unat cap \<le> length data - values - unat val" using False by (simp add: bad_def d2)
    obtain f where f: "sfo_field data (keys + key) (size_diff (size_diff values keys) key) = Some f"
      unfolding d2 using sfo_field_in [of "keys + key" "values - keys - key" data] g kv vs by auto
    have "values + unat val + unat len \<le> length data" using g cap vs by linarith
    then have "\<exists>r. sfo_copy data (values + unat val) (unat len) fmt is_id out = Some r" for fmt is_id
      by (rule sfo_copy_in)
    then show ?thesis using False f unfolding run by (auto split: option.split simp del: split_paired_Ex)
  qed
qed

lemma sfo_loop_in:
  assumes "\<forall>i\<in>set is. 20 + i * 16 + 16 \<le> length data" and "keys < values" and "values < length data"
    and "length data < 2 ^ 64"
  shows "\<exists>r. sfo_loop data keys values is out = Some r"
  using assms(1)
proof (induction "is" arbitrary: out)
  case Nil
  then show ?case by (simp del: split_paired_Ex)
next
  case (Cons i "is")
  have "20 + i * 16 + 16 \<le> length data" using Cons.prems by simp
  then obtain go out' where e: "sfo_entry data keys values i out = Some (go, out')"
    using sfo_entry_in [OF _ assms(2,3,4), of i out] by (metis prod.exhaust)
  have "\<exists>r. sfo_loop data keys values is out' = Some r" using Cons by (simp del: split_paired_Ex)
  then show ?case using e by (cases go) (simp_all del: split_paired_Ex)
qed

lemma sfo_total:
  assumes sz: "length data < 2 ^ 64"
  shows "parse_game_sfo data out \<noteq> None"
proof (cases "length data < 20")
  case True
  then show ?thesis by (simp add: parse_game_sfo_def)
next
  case False
  then have n: "20 \<le> length data" by simp
  obtain keys where k: "read_sfo_u32 data 8 = Some keys" using read_u32_in [of 8 data] n by auto
  obtain vals where v: "read_sfo_u32 data 12 = Some vals" using read_u32_in [of 12 data] n by auto
  obtain count where c: "read_sfo_u32 data 16 = Some count" using read_u32_in [of 16 data] n by auto
  have m: "mem_read data 0 4 = Some (take 4 data)" using n by (simp add: mem_read_in)
  have loop: "\<exists>r. sfo_loop data (unat keys) (unat vals) [0..<unat count] out = Some r"
    if "unat count \<le> size_diff (length data) 20 div 16" "unat keys < unat vals" "unat vals < length data"
  proof (rule sfo_loop_in [OF _ that(2,3) sz])
    have "unat count * 16 \<le> length data - 20"
      using that(1) n sz by (simp add: size_diff_le less_eq_div_iff_mult_less_eq)
    then show "\<forall>i\<in>set [0..<unat count]. 20 + i * 16 + 16 \<le> length data" using n by auto
  qed
  show ?thesis
    using loop unfolding parse_game_sfo_def if_not_P [OF False] k v c m bind.bind_lunit
    by (auto split: option.split bool.split simp: not_less not_le)
qed

text \<open>
  C22. Memory safety of the SFO parser: whatever bytes the file holds, however long it is and
  whatever its offsets and lengths claim, \<^verbatim>\<open>parse_game_sfo\<close> returns without reading outside the
  buffer and without writing past the 32 and 256 bytes of its output arrays. Differences of
  offsets wrap around at 64 bits as \<^verbatim>\<open>size_t\<close> does, so a missing comparison of two offsets would
  show as an access out of bounds; the size of the buffer is itself a \<^verbatim>\<open>size_t\<close>.
\<close>

theorem sfo_parser_memory_safe:
  assumes "length data < 2 ^ 64"
  shows "parse_game_sfo data out \<noteq> None"
  using assms by (rule sfo_total)

text \<open>A file of 60 bytes with one entry whose key table (at 50) would begin behind its values (at 40).\<close>

definition hostile_sfo :: string where
  "hostile_sfo = CHR 0x00 # ''PSF'' @ replicate 4 (CHR 0x00) @ [CHR 0x32, CHR 0x00, CHR 0x00, CHR 0x00]
     @ [CHR 0x28, CHR 0x00, CHR 0x00, CHR 0x00] @ [CHR 0x01, CHR 0x00, CHR 0x00, CHR 0x00]
     @ [CHR 0x06, CHR 0x00, CHR 0x04, CHR 0x02] @ replicate 36 (CHR 0x00)"

theorem sfo_parser_memory_safe_witness:
  "length hostile_sfo < 2 ^ 64 \<and> parse_game_sfo hostile_sfo ([], []) \<noteq> None"
  using sfo_parser_memory_safe [of hostile_sfo "([], [])"] by (simp add: hostile_sfo_def)

section \<open>What a call answers\<close>

lemma char_at_ge: "length s \<le> i \<Longrightarrow> char_at s i = CHR 0x00"
  by (simp add: char_at_def)

lemma supported_length:
  assumes "is_supported_game_title_id t" and "is_cstr t"
  shows "length t = 9"
proof -
  have "is_digit (char_at t 8)" and nine: "char_at t 9 = CHR 0x00"
    using assms(1) by (simp_all add: is_supported_game_title_id_def list_all_iff)
  then have "char_at t 8 \<noteq> CHR 0x00" by (auto simp: is_digit_def)
  then have "8 < length t" using char_at_ge [of t 8] not_less by blast
  moreover have "\<not> 9 < length t"
  proof
    assume "9 < length t"
    then have "t ! 9 \<in> set t" "t ! 9 = CHR 0x00" using nine nth_mem by (blast, simp add: char_at_def)
    then show False using assms(2) by (simp add: is_cstr_def)
  qed
  ultimately show ?thesis by simp
qed

text \<open>The output arrays hold C strings that fit.\<close>

definition outputs_ok :: "string \<times> string \<Rightarrow> bool" where
  "outputs_ok out \<longleftrightarrow> is_cstr (fst out) \<and> length (fst out) < MAX_TITLE_ID \<and> is_cstr (snd out) \<and> length (snd out) < MAX_TITLE_NAME"

lemma mem_read_SomeD: "mem_read b off n = Some x \<Longrightarrow> x = take n (drop off b) \<and> length x = n"
  by (auto simp: mem_read_def split: if_splits)

lemma sfo_copy_outputs:
  assumes "sfo_copy data text_at len fmt is_id out = Some (go, out')" and "outputs_ok out"
  shows "outputs_ok out'"
proof -
  define out_size where "out_size = (if is_id then MAX_TITLE_ID else MAX_TITLE_NAME)"
  define scan where "scan = (if len < out_size then len else out_size)"
  obtain scanned where sc: "mem_read data text_at scan = Some scanned"
    using assms(1) unfolding sfo_copy_def Let_def out_size_def [symmetric] scan_def [symmetric]
    by (cases "mem_read data text_at scan") auto
  define nul where "nul = find_index (\<lambda>c. c = CHR 0x00) scanned"
  define text_length where "text_length = (case nul of Some k \<Rightarrow> k | None \<Rightarrow> len)"
  note scD = mem_read_SomeD [OF sc]
  consider (same) "out' = out"
    | (copy) copied where "mem_read data text_at text_length = Some copied" "text_length < out_size"
        "nul = None \<Longrightarrow> len < out_size" "out' = (if is_id then (copied, snd out) else (fst out, copied))"
    using assms(1)
    unfolding sfo_copy_def Let_def out_size_def [symmetric] scan_def [symmetric] sc bind.bind_lunit
      nul_def [symmetric] text_length_def [symmetric]
    by (cases "mem_read data text_at text_length") (auto split: if_splits)
  then show ?thesis
  proof cases
    case same
    then show ?thesis using assms(2) by simp
  next
    case copy
    note cp = mem_read_SomeD [OF copy(1)]
    have "CHR 0x00 \<notin> set copied"
    proof (cases nul)
      case None
      then have "scan = len" using copy(3) by (simp add: scan_def)
      then have "copied = scanned" using None scD cp by (simp add: text_length_def)
      then show ?thesis using None by (auto simp: nul_def find_index_None_set)
    next
      case (Some k)
      then have k: "k < length scanned" "\<forall>j<k. scanned ! j \<noteq> CHR 0x00" by (simp_all add: nul_def find_index_Some)
      have "copied = take k scanned" using Some scD cp k(1) by (simp add: text_length_def)
      then show ?thesis using k by (auto simp: in_set_conv_nth)
    qed
    then show ?thesis
      using copy(2,4) cp assms(2) by (auto simp: outputs_ok_def is_cstr_def out_size_def split: if_splits)
  qed
qed

lemma sfo_entry_outputs:
  assumes "sfo_entry data keys vals i out = Some (go, out')" and "outputs_ok out"
  shows "outputs_ok out'"
  using assms by (auto simp: sfo_entry_def Let_def bind_eq_Some_conv intro: sfo_copy_outputs split: if_splits option.splits)

lemma sfo_loop_outputs:
  "sfo_loop data keys vals is out = Some (go, out') \<Longrightarrow> outputs_ok out \<Longrightarrow> outputs_ok out'"
proof (induction "is" arbitrary: out)
  case (Cons i "is")
  obtain g out1 where e: "sfo_entry data keys vals i out = Some (g, out1)"
    using Cons.prems(1) by (cases "sfo_entry data keys vals i out") auto
  note ok = sfo_entry_outputs [OF e Cons.prems(2)]
  show ?case
  proof (cases g)
    case True
    then show ?thesis using Cons.IH [OF _ ok] Cons.prems(1) e by simp
  next
    case False
    then show ?thesis using Cons.prems(1) e ok by simp
  qed
qed simp

lemma parse_sfo_loop:
  assumes "parse_game_sfo data out = Some (vld, out')"
  obtains (stopped) "out' = out" "\<not> vld"
  | (looped) keys vals n g where "sfo_loop data keys vals [0..<n] out = Some (g, out')" "vld \<Longrightarrow> is_supported_game_title_id (fst out')"
proof (cases "length data < 20 \<or> take 4 data \<noteq> CHR 0x00 # ''PSF''")
  case True
  then show thesis using assms stopped by (auto simp: parse_game_sfo_def mem_read_def split: if_splits)
next
  case False
  then obtain keys vals count where u: "read_sfo_u32 data 8 = Some keys" "read_sfo_u32 data 12 = Some vals"
      "read_sfo_u32 data 16 = Some count"
    using read_u32_in [of 8 data] read_u32_in [of 12 data] read_u32_in [of 16 data] by auto
  have m: "mem_read data 0 4 = Some (take 4 data)" using False by (simp add: mem_read_in)
  show thesis
  proof (cases "unat count > size_diff (length data) 20 div 16 \<or> unat keys < 20 + unat count * 16
       \<or> unat keys \<ge> unat vals \<or> unat vals \<ge> length data")
    case True
    then show thesis using False assms stopped unfolding parse_game_sfo_def u m bind.bind_lunit by auto
  next
    case ok: False
    show thesis
    proof (cases "sfo_loop data (unat keys) (unat vals) [0..<unat count] out")
      case None
      then show thesis using False ok assms unfolding parse_game_sfo_def u m bind.bind_lunit by auto
    next
      case (Some ro)
      obtain g o1 where ro: "ro = (g, o1)" by (cases ro)
      have "out' = o1" "vld \<Longrightarrow> is_supported_game_title_id (fst o1)"
        using False ok assms Some ro unfolding parse_game_sfo_def u m bind.bind_lunit by (cases g; auto)+
      then show thesis using looped Some ro by blast
    qed
  qed
qed

lemma sfo_result:
  assumes "parse_game_sfo data ([], []) = Some (vld, t, n)"
  shows "outputs_ok (t, n)" and "vld \<Longrightarrow> is_supported_game_title_id t"
proof -
  have ok: "outputs_ok ([], [])" by (simp add: outputs_ok_def is_cstr_def)
  have "outputs_ok (t, n) \<and> (vld \<longrightarrow> is_supported_game_title_id t)"
    using assms
  proof (cases rule: parse_sfo_loop)
    case stopped
    then show ?thesis using ok by simp
  next
    case (looped keys vals k g)
    then show ?thesis using sfo_loop_outputs [OF looped(1) ok] by simp
  qed
  then show "outputs_ok (t, n)" "vld \<Longrightarrow> is_supported_game_title_id t" by simp_all
qed

lemma extract_SomeD: "extract_json_string j k n = Some s \<Longrightarrow> s \<noteq> [] \<and> length s < n \<and> is_cstr s"
  unfolding extract_json_string_def by (rule json_text_SomeD)

lemma first_title_name_SomeD: "first_title_name ms = Some s \<Longrightarrow> length s < MAX_TITLE_NAME \<and> is_cstr s"
  by (induction ms rule: first_title_name.induct) (auto split: option.splits dest: extract_SomeD)

lemma title_name_SomeD: "extract_title_name root = Some s \<Longrightarrow> length s < MAX_TITLE_NAME \<and> is_cstr s"
  by (auto simp: extract_title_name_def localized_title_name_def title_name_of_def Let_def
      split: option.splits json.splits dest: extract_SomeD first_title_name_SomeD)

lemma json_result:
  assumes "json_game_info parsed = (vld, t, n)"
  shows "outputs_ok (t, n)" and "vld \<Longrightarrow> is_supported_game_title_id t"
  using assms
  by (auto simp: json_game_info_def outputs_ok_def is_cstr_def [of "[]"] Let_def
      split: option.splits json.splits if_splits dest: extract_SomeD title_name_SomeD)

lemma parse_result:
  assumes "parse_game_param v path buf = Some (Some (vld, t, n))"
  shows "outputs_ok (t, n)" and "vld \<Longrightarrow> is_supported_game_title_id t"
  using assms sfo_result json_result
  by (auto simp: parse_game_param_def split: if_splits)

lemma get_info_cases:
  assumes "st_mode sb = S_REG" and "\<not> fst (load_cached_game_info st p sb)"
  obtains (unread) "get_game_info v p sb st = Some ((False, [], []), st)"
    | (big) "get_game_info v p sb st
        = map_option (Pair (False, [], [])) (store_cached_game_info (pv_host v) st p sb False [] [])"
    | (parsed) path buf vld t n where "parse_game_param v path buf = Some (Some (vld, t, n))"
        "get_game_info v p sb st =
          (let t' = (if vld then t else []); n' = (if vld then (if n = [] then strlcpy t MAX_TITLE_NAME else n) else [])
           in map_option (Pair (vld, t', n')) (store_cached_game_info (pv_host v) st p sb vld t' n'))"
proof -
  obtain c where c: "load_cached_game_info st p sb = (False, c)"
    using assms(2) by (cases "load_cached_game_info st p sb") auto
  show thesis
  proof (cases "st_size sb \<le> 0 \<or> st_size sb > MAX_PARAM_JSON_SIZE")
    case True
    then show thesis using big assms(1) c by (simp add: get_game_info_def)
  next
    case fits: False
    show thesis
    proof (cases "resolve_game_param (pv_host v) p = None \<or> read_game_param v sb = None")
      case True
      then show thesis using unread assms(1) c fits by (auto simp: get_game_info_def split: option.split)
    next
      case False
      then obtain path x buf where rd: "resolve_game_param (pv_host v) p = Some (path, x)" "read_game_param v sb = Some buf"
        by auto
      have "length buf < 2 ^ 64"
        using rd(2) fits by (auto simp: read_game_param_def Let_def MAX_PARAM_JSON_SIZE_def split: if_splits)
      then have total: "parse_game_param v path buf \<noteq> None"
        using sfo_total [of buf] by (auto simp: parse_game_param_def)
      show thesis
      proof (cases "parse_game_param v path buf")
        case None
        then show thesis using total by simp
      next
        case (Some r)
        show thesis
        proof (cases r)
          case None
          then show thesis using unread assms(1) c fits rd Some by (simp add: get_game_info_def)
        next
          case r: (Some q)
          obtain vld t n where "q = (vld, t, n)" by (cases q) auto
          then show thesis using parsed [of path buf vld t n] assms(1) c fits rd Some r by (simp add: get_game_info_def)
        qed
      qed
    qed
  qed
qed


lemma path_state_init_miss: "\<not> fst (load_cached_game_info path_state_init p sb)"
proof -
  have "path_map path_state_init p = None"
    by (auto simp: path_map_def path_state_init_def table_map_None blank_path_def)
  then have "find_path_state path_state_init p = None" using find_path_map [OF path_inv_init, of p] by simp
  then show ?thesis by (simp add: load_cached_game_info_def)
qed

definition sample_param_env :: param_env where
  "sample_param_env = \<lparr>pv_host = empty_host\<lparr>h_stat := (\<lambda>_. Inr sample_stat)\<rparr>, pv_open = True,
     pv_fstat_before = Some sample_stat, pv_fstat_after = Some sample_stat, pv_bytes = replicate 4096 CHR ''x'',
     pv_malloc = True, pv_tokener = True,
     pv_json_parse = (\<lambda>_. Some (JObject [(''titleId'', JString ''PPSA01234''), (''titleName'', JString ''Game'')]))\<rparr>"


section \<open>A writer for SFO files\<close>

text \<open>The reference layout: the header, two index entries (title id, title), the key table, the two
  values as NUL-terminated text.\<close>

definition le32 :: "nat \<Rightarrow> string" where
  "le32 n = [char_of n, char_of (n div 256), char_of (n div 65536), char_of (n div 16777216)]"

definition sfo_index :: "nat \<Rightarrow> nat \<Rightarrow> nat \<Rightarrow> nat \<Rightarrow> string" where
  "sfo_index key len capacity off =
     [char_of key, CHR 0x00, CHR 0x04, CHR 0x02] @ le32 len @ le32 capacity @ le32 off"

definition sfo_head :: "nat \<Rightarrow> string" where
  "sfo_head n =
     CHR 0x00 # ''PSF'' @ [CHR 0x01, CHR 0x01, CHR 0x00, CHR 0x00] @ le32 52 @ le32 68 @ le32 2
     @ sfo_index 0 10 16 0 @ sfo_index 9 (n + 1) (n + 1) 16
     @ ''TITLE_ID'' @ [CHR 0x00] @ ''TITLE'' @ [CHR 0x00, CHR 0x00]"

definition build_sfo :: "string \<Rightarrow> string \<Rightarrow> string" where
  "build_sfo title_id title_name =
     sfo_head (length title_name) @ title_id @ replicate 7 (CHR 0x00) @ title_name @ [CHR 0x00]"

lemma le32_length [simp]: "length (le32 n) = 4"
  by (simp add: le32_def)

lemma sfo_head_length [simp]: "length (sfo_head n) = 68"
  by (simp add: sfo_head_def sfo_index_def)

lemma le32_word:
  assumes "n < 2 ^ 32"
  shows "ucast (of_char (char_of n) :: u8) OR push_bit 8 (ucast (of_char (char_of (n div 256)) :: u8))
     OR push_bit 16 (ucast (of_char (char_of (n div 65536)) :: u8))
     OR push_bit 24 (ucast (of_char (char_of (n div 16777216)) :: u8)) = (of_nat n :: u32)"
proof (rule bit_eqI)
  fix i assume "possible_bit TYPE(u32) i"
  then have i: "i < 32" by (simp add: possible_bit_word)
  have c: "bit (of_char (char_of m) :: u8) k \<longleftrightarrow> k < 8 \<and> bit m k" for m k :: nat
  proof -
    have "(of_char (char_of m) :: u8) = of_nat (of_char (char_of m))" by (rule of_nat_of_char [symmetric])
    moreover have "(of_char (char_of m) :: nat) = take_bit 8 m" by (simp add: of_char_of take_bit_eq_mod)
    ultimately show ?thesis by (simp add: bit_simps)
  qed
  have quarters: "i < 8 \<or> 8 \<le> i \<and> i < 16 \<or> 16 \<le> i \<and> i < 24 \<or> 24 \<le> i" by linarith
  have d: "n div 256 = drop_bit 8 n" "n div 65536 = drop_bit 16 n" "n div 16777216 = drop_bit 24 n"
    by (simp_all add: drop_bit_eq_div)
  show "bit (ucast (of_char (char_of n) :: u8) OR push_bit 8 (ucast (of_char (char_of (n div 256)) :: u8))
     OR push_bit 16 (ucast (of_char (char_of (n div 65536)) :: u8))
     OR push_bit 24 (ucast (of_char (char_of (n div 16777216)) :: u8)) :: u32) i = bit (of_nat n :: u32) i"
    unfolding d using i quarters by (elim disjE conjE) (auto simp: bit_simps c le_diff_conv less_diff_conv2)
qed

lemma read_le32:
  assumes "n < 2 ^ 32" and "off + 4 \<le> length b" and "take 4 (drop off b) = le32 n"
  shows "read_sfo_u32 b off = Some (of_nat n)"
proof -
  have "b ! (off + j) = le32 n ! j" if "j < 4" for j
    using that assms(2) by (simp add: nth_drop flip: assms(3))
  from this [of 0] this [of 1] this [of 2] this [of 3]
  have "b ! off = char_of n" "b ! (off + 1) = char_of (n div 256)" "b ! (off + 2) = char_of (n div 65536)"
      "b ! (off + 3) = char_of (n div 16777216)"
    by (simp_all add: le32_def)
  then show ?thesis
    using assms(1,2) unfolding read_sfo_u32_def by (simp add: mem_byte_in le32_word)
qed

text \<open>Reading at a place of the head that does not depend on the values.\<close>

lemma build_take: "off + n \<le> 68 \<Longrightarrow> take n (drop off (build_sfo t m)) = take n (drop off (sfo_head (length m)))"
  by (simp add: build_sfo_def)

lemma build_nth: "off < 68 \<Longrightarrow> build_sfo t m ! off = sfo_head (length m) ! off"
  by (simp add: build_sfo_def nth_append)

lemma build_length: "length t = 9 \<Longrightarrow> length (build_sfo t m) = 85 + length m"
  by (simp add: build_sfo_def)

lemma build_fields:
  assumes t: "length t = 9" and m: "length m < MAX_TITLE_NAME"
  shows "read_sfo_u32 (build_sfo t m) 8 = Some 52" "read_sfo_u32 (build_sfo t m) 12 = Some 68"
    "read_sfo_u32 (build_sfo t m) 16 = Some 2"
    "read_sfo_u32 (build_sfo t m) 24 = Some 10" "read_sfo_u32 (build_sfo t m) 28 = Some 16"
    "read_sfo_u32 (build_sfo t m) 32 = Some 0"
    "read_sfo_u32 (build_sfo t m) 40 = Some (of_nat (length m + 1))" "read_sfo_u32 (build_sfo t m) 44 = Some (of_nat (length m + 1))"
    "read_sfo_u32 (build_sfo t m) 48 = Some 16"
  using read_le32 [of 52 8 "build_sfo t m"] read_le32 [of 68 12 "build_sfo t m"] read_le32 [of 2 16 "build_sfo t m"]
    read_le32 [of 10 24 "build_sfo t m"] read_le32 [of 16 28 "build_sfo t m"] read_le32 [of 0 32 "build_sfo t m"]
    read_le32 [of "length m + 1" 40 "build_sfo t m"] read_le32 [of "length m + 1" 44 "build_sfo t m"]
    read_le32 [of 16 48 "build_sfo t m"] m
  by (simp_all add: build_length [OF t] build_take) (simp_all add: sfo_head_def sfo_index_def le32_def)

lemma byte_of_nat: "(of_char (char_of n) :: u8) = of_nat (n mod 256)" for n :: nat
proof -
  have "(of_char (char_of n) :: u8) = of_nat (of_char (char_of n))" by (rule of_nat_of_char [symmetric])
  then show ?thesis by simp
qed

lemma find_nul: "is_cstr x \<Longrightarrow> find_index (\<lambda>c. c = CHR 0x00) (x @ CHR 0x00 # r) = Some (length x)"
  by (induction x) (auto simp: is_cstr_def)

lemma sfo_copy_text:
  assumes x: "is_cstr x" and sz: "length x < (if is_id then MAX_TITLE_ID else MAX_TITLE_NAME)"
    and d: "take (length x + 1) (drop text_at data) = x @ [CHR 0x00]"
  shows "sfo_copy data text_at (length x + 1) 2 is_id out = Some (True, if is_id then (x, snd out) else (fst out, x))"
proof -
  define out_size where "out_size = (if is_id then MAX_TITLE_ID else MAX_TITLE_NAME)"
  have len: "text_at + (length x + 1) \<le> length data"
    using arg_cong [OF d, of length] by auto
  have scan: "(if length x + 1 < out_size then length x + 1 else out_size) = length x + 1"
    using sz by (simp add: out_size_def [symmetric])
  have s1: "mem_read data text_at (length x + 1) = Some (x @ [CHR 0x00])" using len d by (simp add: mem_read_in)
  have "take (length x) (take (length x + 1) (drop text_at data)) = x" unfolding d by simp
  then have "take (length x) (drop text_at data) = x" by (simp add: min_def)
  then have s2: "mem_read data text_at (length x) = Some x" using len by (simp add: mem_read_in)
  have nul: "find_index (\<lambda>c. c = CHR 0x00) (x @ [CHR 0x00]) = Some (length x)" using find_nul [OF x] by simp
  show ?thesis
    unfolding sfo_copy_def Let_def out_size_def [symmetric] scan s1 bind.bind_lunit nul
    using sz by (simp add: s2 out_size_def)
qed

lemma sfo_entry_build:
  assumes t: "length t = 9" "is_cstr t" and m: "length m < MAX_TITLE_NAME" "is_cstr m"
  shows "sfo_entry (build_sfo t m) 52 68 0 out = Some (True, t, snd out)"
    and "sfo_entry (build_sfo t m) 52 68 1 out = Some (True, fst out, m)"
proof -
  let ?d = "build_sfo t m"
  note L = build_length [OF t(1), of m]
  note F = build_fields [OF t(1) m(1)]
  have b: "mem_byte ?d 20 = Some 0" "mem_byte ?d 21 = Some 0" "mem_byte ?d 22 = Some 4" "mem_byte ?d 23 = Some 2"
      "mem_byte ?d 36 = Some 9" "mem_byte ?d 37 = Some 0" "mem_byte ?d 38 = Some 4" "mem_byte ?d 39 = Some 2"
    by (simp_all add: mem_byte_in L build_nth) (simp_all add: sfo_head_def sfo_index_def le32_def byte_of_nat)
  have k: "mem_read ?d 52 9 = Some (''TITLE_ID'' @ [CHR 0x00])" "mem_read ?d 61 6 = Some (''TITLE'' @ [CHR 0x00])"
    by (simp_all add: mem_read_in L build_take) (simp_all add: sfo_head_def sfo_index_def le32_def)
  have f: "sfo_field ?d 52 16 = Some (Some True)" "sfo_field ?d 61 7 = Some (Some False)"
    by (simp_all add: sfo_field_def k)
  have v: "take (length t + 1) (drop 68 ?d) = t @ [CHR 0x00]" "take (length m + 1) (drop 84 ?d) = m @ [CHR 0x00]"
    using t(1) by (simp_all add: build_sfo_def)
  have c: "sfo_copy ?d 68 10 2 True out = Some (True, t, snd out)"
      "sfo_copy ?d 84 (length m + 1) 2 False out = Some (True, fst out, m)"
    using sfo_copy_text [of t True 68 ?d out] sfo_copy_text [of m False 84 ?d out] t m v by simp_all
  have ul: "unat (of_nat (length m + 1) :: u32) = length m + 1"
    using m(1) by (simp add: unsigned_of_nat take_bit_nat_eq_self_iff del: of_nat_add of_nat_Suc)
  have d: "size_diff 68 52 = 16" "size_diff 16 0 = 16" "size_diff 16 9 = 7"
      "size_diff (85 + length m) 68 = 17 + length m" "size_diff (17 + length m) 0 = 17 + length m"
      "size_diff (17 + length m) 16 = 1 + length m"
    using m(1) by (simp_all add: size_diff_le)
  show "sfo_entry ?d 52 68 0 out = Some (True, t, snd out)"
    using L F b f c d by (simp add: sfo_entry_def Let_def)
  show "sfo_entry ?d 52 68 1 out = Some (True, fst out, m)"
    using L F b f c d ul by (simp add: sfo_entry_def Let_def del: of_nat_Suc of_nat_add)
qed

text \<open>
  The SFO parser reads what a well-formed file says: the file laid out for a supported title
  id and any name of up to 255 bytes parses to exactly that id and name.
\<close>

theorem sfo_roundtrip:
  assumes "is_supported_game_title_id t" and "is_cstr t" and "is_cstr m" and "length m < MAX_TITLE_NAME"
  shows "parse_game_sfo (build_sfo t m) ([], []) = Some (True, t, m)"
proof -
  have t9: "length t = 9" by (rule supported_length [OF assms(1,2)])
  let ?d = "build_sfo t m"
  note L = build_length [OF t9, of m]
  note F = build_fields [OF t9 assms(4)]
  note E = sfo_entry_build [OF t9 assms(2,4,3)]
  have magic: "mem_read ?d 0 4 = Some (CHR 0x00 # ''PSF'')"
    by (simp add: mem_read_in L build_take [of 0 4, simplified]) (simp add: sfo_head_def)
  have loop: "sfo_loop ?d 52 68 [0..<2] ([], []) = Some (True, t, m)"
    using E by (simp add: upt_rec)
  show ?thesis
    unfolding parse_game_sfo_def F magic bind.bind_lunit using L loop assms(1,4) by (simp add: size_diff_le)
qed

theorem sfo_roundtrip_witness: "parse_game_sfo (build_sfo ''PPSA01234'' ''Game'') ([], []) = Some (True, ''PPSA01234'', ''Game'')"
  by (rule sfo_roundtrip) (simp_all add: is_supported_game_title_id_def is_upper_def is_digit_def char_at_def is_cstr_def upt_rec)

end
