(* ===== verification/Ini_File.thy ===== *)
theory Ini_File
  imports Text_Files
begin

text \<open>
  \<^verbatim>\<open>src/sm_config_file.c\<close>: INI documents. A document is the list of its lines; a line keeps
  the text it was read from until it is changed, so that comments and layout survive. Reading
  (strict, and the tolerant reading of old files), lookup, update, and writing.

  Memory allocation is taken to succeed. What the system does is in the arguments: \<open>open_err\<close> is
  what opening the file for reading fails with, \<open>io\<close> (Text_Files) and \<open>sync_err\<close> what
  happens while the temporary file is written, renamed and its directory synced. The
  temporary name is chosen by \<^verbatim>\<open>mkstemp\<close> and is not visible after the call.
\<close>

section \<open>Documents\<close>

record ini_line =
  il_raw :: "string option"
  il_section :: string
  il_key :: "string option"
  il_value :: string
  il_comment :: "string option"
  il_header :: bool

type_synonym ini = "ini_line list"

definition INI_MAX_BYTES :: nat where "INI_MAX_BYTES = 1024 * 1024"
definition INI_MAX_LINES :: nat where "INI_MAX_LINES = 8192"
definition INI_LINE_MAX :: nat where "INI_LINE_MAX = MAX_PATH * 2 + 2048"
definition INI_SECTION_SIZE :: nat where "INI_SECTION_SIZE = MAX_PATH + 32"

definition trim :: "string \<Rightarrow> string" where
  "trim s = rev (dropWhile isspace (rev (dropWhile isspace s)))"

definition is_comment :: "char \<Rightarrow> bool" where
  "is_comment c \<longleftrightarrow> c = CHR ''#'' \<or> c = CHR '';''"

abbreviation QUOTE :: char where "QUOTE \<equiv> CHR 0x22"
abbreviation BACKSLASH :: char where "BACKSLASH \<equiv> CHR 0x5C"

definition insert_line :: "ini \<Rightarrow> nat \<Rightarrow> ini_line \<Rightarrow> unit res \<times> ini" where
  "insert_line doc at line =
     (if length doc \<ge> INI_MAX_LINES then (Inl EFBIG, doc) else (Inr (), take at doc @ line # drop at doc))"

section \<open>Reading\<close>

text \<open>The text of a quoted value behind the opening quote: its characters and what follows the closing one.\<close>

fun unquote :: "string \<Rightarrow> (string \<times> string) option" where
  "unquote [] = None"
| "unquote (c # s) =
     (if c = QUOTE then Some ([], s)
      else if c = BACKSLASH then
        (case s of
           [] \<Rightarrow> None
         | d # s' \<Rightarrow>
             if d \<noteq> BACKSLASH \<and> d \<noteq> QUOTE then None
             else map_option (\<lambda>(v, r). (d # v, r)) (unquote s'))
      else if (of_char c :: nat) < 32 then None
      else map_option (\<lambda>(v, r). (c # v, r)) (unquote s))"

text \<open>\<^verbatim>\<open>strpbrk(s, "#;")\<close>: the text before it and the comment.\<close>

definition split_comment :: "string \<Rightarrow> string \<times> string option" where
  "split_comment s =
     (let c = dropWhile (\<lambda>x. \<not> is_comment x) s
      in (takeWhile (\<lambda>x. \<not> is_comment x) s, if c = [] then None else Some c))"

definition decode_value :: "string \<Rightarrow> (string \<times> string option) option" where
  "decode_value s =
     (case s of
        c # r \<Rightarrow>
          if c = QUOTE then
            (case unquote r of
               None \<Rightarrow> None
             | Some (v, rest) \<Rightarrow>
                 (let tail = trim rest in
                  if tail \<noteq> [] \<and> \<not> is_comment (hd tail) then None
                  else Some (v, if tail = [] then None else Some tail)))
          else (let (t, c) = split_comment s in Some (trim t, c))
      | [] \<Rightarrow> Some ([], None))"

text \<open>One physical line, its end included, of at most \<open>n\<close> bytes.\<close>

fun ini_raw :: "nat \<Rightarrow> string \<Rightarrow> errno + (string \<times> string)" where
  "ini_raw n [] = Inr ([], [])"
| "ini_raw 0 (c # s) = Inl (if c = CHR 0x00 then EINVAL else EFBIG)"
| "ini_raw (Suc n) (c # s) =
     (if c = CHR 0x00 then Inl EINVAL
      else if c = NL then Inr ([c], s)
      else map_sum id (\<lambda>(l, r). (c # l, r)) (ini_raw n s))"

text \<open>The closing bracket of a section header: the first one with nothing but blanks or a comment behind it.
  The text between the brackets and the text behind.\<close>

fun header_end :: "string \<Rightarrow> (string \<times> string) option" where
  "header_end [] = None"
| "header_end (c # s) =
     (let tail = dropWhile isspace s in
      if c = CHR '']'' \<and> (tail = [] \<or> is_comment (hd tail)) then Some ([], s)
      else map_option (\<lambda>(n, t). (c # n, t)) (header_end s))"

text \<open>The line, when there is one, and the section that the next lines are in.\<close>

definition parse_header :: "string \<Rightarrow> string \<Rightarrow> string \<Rightarrow> ini_line option \<times> string" where
  "parse_header section raw s =
     (case header_end s of
        None \<Rightarrow> (None, section)
      | Some (name, rest) \<Rightarrow>
          (let tail = trim rest; section' = strlcpy (trim name) INI_SECTION_SIZE in
           if length (trim name) \<ge> INI_SECTION_SIZE \<or> section' = [] then (None, section')
           else (Some \<lparr>il_raw = Some raw, il_section = section', il_key = None, il_value = [],
                       il_comment = (if tail = [] then None else Some tail), il_header = True\<rparr>, section')))"

datatype parsed_key = Malformed | Bad_Key | Key_Line ini_line

definition parse_key :: "bool \<Rightarrow> string \<Rightarrow> string \<Rightarrow> string \<Rightarrow> parsed_key" where
  "parse_key legacy section raw s =
     (if CHR ''='' \<notin> set s then Malformed
      else
        (let key = trim (takeWhile (\<lambda>c. c \<noteq> CHR ''='') s);
             v = trim (tl (dropWhile (\<lambda>c. c \<noteq> CHR ''='') s));
             decoded = (if legacy then (let (t, c) = split_comment v in Some (trim t, c)) else decode_value v)
         in if key = [] then Bad_Key
            else (case decoded of
                    None \<Rightarrow> Bad_Key
                  | Some (val, comment) \<Rightarrow>
                      Key_Line \<lparr>il_raw = Some raw, il_section = section, il_key = Some key, il_value = val,
                                il_comment = comment, il_header = False\<rparr>)))"

text \<open>One line: \<open>None\<close> fails the file, \<open>Some (None, _)\<close> skips a malformed line of an old file.\<close>

definition parse_line :: "bool \<Rightarrow> string \<Rightarrow> string \<Rightarrow> (ini_line option \<times> string) option" where
  "parse_line legacy section raw =
     (let s = trim raw in
      if s \<noteq> [] \<and> hd s = CHR ''['' then
        (case parse_header section raw (tl s) of
           (Some l, section') \<Rightarrow> Some (Some l, section')
         | (None, section') \<Rightarrow> if legacy then Some (None, section') else None)
      else if s \<noteq> [] \<and> \<not> is_comment (hd s) then
        (case parse_key legacy section raw s of
           Key_Line l \<Rightarrow> Some (Some l, section)
         | Malformed \<Rightarrow> if legacy then Some (None, section) else None
         | Bad_Key \<Rightarrow> None)
      else Some (Some \<lparr>il_raw = Some raw, il_section = section, il_key = None, il_value = [],
                       il_comment = None, il_header = False\<rparr>, section))"

lemma ini_raw_length: "ini_raw n s = Inr (l, r) \<Longrightarrow> length l + length r = length s"
proof (induction n s arbitrary: l r rule: ini_raw.induct)
  case (3 n c s)
  then show ?case by (cases "ini_raw n s") (auto split: if_splits)
qed (auto split: if_splits)

lemma ini_raw_shorter: "ini_raw n s = Inr (l, r) \<Longrightarrow> l \<noteq> [] \<Longrightarrow> length r < length s"
  using ini_raw_length [of n s l r] by (cases l) auto

function ini_lines :: "bool \<Rightarrow> string \<Rightarrow> string \<Rightarrow> ini \<Rightarrow> ini res" where
  "ini_lines legacy section s doc =
     (case ini_raw (INI_LINE_MAX - 1) s of
        Inl e \<Rightarrow> Inl e
      | Inr (raw, rest) \<Rightarrow>
          if raw = [] then Inr doc
          else
            (case parse_line legacy section raw of
               None \<Rightarrow> Inl EINVAL
             | Some (None, section') \<Rightarrow> ini_lines legacy section' rest doc
             | Some (Some line, section') \<Rightarrow>
                 (case insert_line doc (length doc) line of
                    (Inl e, _) \<Rightarrow> Inl e
                  | (Inr _, doc') \<Rightarrow> ini_lines legacy section' rest doc')))"
  by pat_completeness auto

termination
  by (relation "measure (\<lambda>(_, _, s, _). length s)") (auto dest: ini_raw_shorter)

declare ini_lines.simps [simp del]

definition sm_ini_read :: "errno option \<Rightarrow> disk \<Rightarrow> string \<Rightarrow> bool \<Rightarrow> ini res" where
  "sm_ini_read open_err d path legacy =
     (case open_err of
        Some e \<Rightarrow> if e = ENOENT then Inr [] else Inl e
      | None \<Rightarrow>
          (case d path of
             None \<Rightarrow> Inr []
           | Some s \<Rightarrow> if length s > INI_MAX_BYTES then Inl EINVAL else ini_lines legacy [] s []))"

section \<open>Lookup and update\<close>

definition line_is :: "string \<Rightarrow> string \<Rightarrow> ini_line \<Rightarrow> bool" where
  "line_is section key l = (case il_key l of None \<Rightarrow> False | Some k \<Rightarrow> strcaseeq section (il_section l) \<and> strcaseeq key k)"

definition sm_ini_get :: "ini \<Rightarrow> string \<Rightarrow> string \<Rightarrow> string option" where
  "sm_ini_get doc section key = map_option il_value (find (line_is section key) (rev doc))"

definition sm_ini_version :: "ini \<Rightarrow> unit res" where
  "sm_ini_version doc = (if sm_ini_get doc ''config'' ''version'' = Some ''2'' then Inr () else Inl EPROTONOSUPPORT)"

definition valid_text :: "string \<Rightarrow> bool" where
  "valid_text s \<longleftrightarrow> list_all (\<lambda>c. \<not> ((of_char c :: nat) < 32 \<or> (of_char c :: nat) = 127)) s"

definition names_ok :: "string \<Rightarrow> string \<Rightarrow> bool" where
  "names_ok section key \<longleftrightarrow> section \<noteq> [] \<and> key \<noteq> [] \<and> valid_text section \<and> valid_text key \<and> CHR ''='' \<notin> set key"

definition new_header :: "string \<Rightarrow> ini_line" where
  "new_header section = \<lparr>il_raw = None, il_section = section, il_key = None, il_value = [], il_comment = None, il_header = True\<rparr>"

definition new_line :: "string \<Rightarrow> string \<Rightarrow> string \<Rightarrow> ini_line" where
  "new_line section key val =
     \<lparr>il_raw = None, il_section = section, il_key = Some key, il_value = val, il_comment = None, il_header = False\<rparr>"

text \<open>The place behind the last line of a section.\<close>

definition section_end :: "ini \<Rightarrow> string \<Rightarrow> nat option" where
  "section_end doc section = fold (\<lambda>i a. if strcaseeq (il_section (doc ! i)) section then Some (Suc i) else a) [0..<length doc] None"

definition sm_ini_append :: "ini \<Rightarrow> string \<Rightarrow> string \<Rightarrow> string \<Rightarrow> unit res \<times> ini" where
  "sm_ini_append doc section key val =
     (if \<not> names_ok section key \<or> \<not> valid_text val then (Inl EINVAL, doc)
      else
        (case section_end doc section of
           Some at \<Rightarrow> insert_line doc at (new_line section key val)
         | None \<Rightarrow>
             (case insert_line doc (length doc) (new_header section) of
                (Inl e, doc1) \<Rightarrow> (Inl e, doc1)
              | (Inr _, doc1) \<Rightarrow> insert_line doc1 (length doc1) (new_line section key val))))"

text \<open>The loop over the lines: the first match takes the value, every other match becomes its comment.\<close>

fun set_lines :: "string \<Rightarrow> string \<Rightarrow> string option \<Rightarrow> bool \<Rightarrow> ini \<Rightarrow> bool \<times> ini" where
  "set_lines section key val fnd [] = (fnd, [])"
| "set_lines section key val fnd (l # ls) =
     (if \<not> line_is section key l then apsnd (Cons l) (set_lines section key val fnd ls)
      else
        (case val of
           Some v \<Rightarrow>
             if \<not> fnd then apsnd (Cons (l\<lparr>il_raw := None, il_value := v\<rparr>)) (set_lines section key val True ls)
             else apsnd (Cons (l\<lparr>il_raw := il_comment l, il_comment := None, il_key := None, il_value := []\<rparr>))
                    (set_lines section key val fnd ls)
         | None \<Rightarrow> apsnd (Cons (l\<lparr>il_raw := il_comment l, il_comment := None, il_key := None, il_value := []\<rparr>))
                    (set_lines section key val fnd ls)))"

definition sm_ini_set :: "ini \<Rightarrow> string \<Rightarrow> string \<Rightarrow> string option \<Rightarrow> unit res \<times> ini" where
  "sm_ini_set doc section key val =
     (if \<not> names_ok section key \<or> (case val of None \<Rightarrow> False | Some v \<Rightarrow> \<not> valid_text v) then (Inl EINVAL, doc)
      else
        (let (found, doc') = set_lines section key val False doc in
         case val of
           None \<Rightarrow> (Inr (), doc')
         | Some v \<Rightarrow> if found then (Inr (), doc') else sm_ini_append doc' section key v))"

definition sm_ini_rename_section :: "ini \<Rightarrow> string \<Rightarrow> string \<Rightarrow> unit res \<times> ini" where
  "sm_ini_rename_section doc old name =
     (if name = [] \<or> \<not> valid_text name then (Inl EINVAL, doc)
      else (Inr (), map (\<lambda>l. if \<not> strcaseeq (il_section l) old then l
                             else l\<lparr>il_section := name, il_raw := (if il_header l then None else il_raw l)\<rparr>) doc))"

definition sm_ini_remove_section :: "ini \<Rightarrow> string \<Rightarrow> ini" where
  "sm_ini_remove_section doc section = filter (\<lambda>l. \<not> strcaseeq section (il_section l)) doc"

section \<open>Writing\<close>

definition needs_quotes :: "string \<Rightarrow> bool" where
  "needs_quotes v \<longleftrightarrow> v = [] \<or> isspace (hd v) \<or> isspace (last v)
     \<or> list_ex (\<lambda>c. is_comment c \<or> c = QUOTE \<or> c = BACKSLASH) v"

definition escape :: "string \<Rightarrow> string" where
  "escape v = concat (map (\<lambda>c. if c = QUOTE \<or> c = BACKSLASH then [BACKSLASH, c] else [c]) v)"

definition write_value :: "string \<Rightarrow> string option" where
  "write_value v =
     (if \<not> valid_text v then None
      else if \<not> needs_quotes v then Some v
      else Some (QUOTE # escape v @ [QUOTE]))"

definition write_comment :: "string option \<Rightarrow> string" where
  "write_comment c = (case c of None \<Rightarrow> [] | Some s \<Rightarrow> '' '' @ s)"

definition line_text :: "ini_line \<Rightarrow> string option" where
  "line_text l =
     (case il_raw l of
        Some raw \<Rightarrow> Some (raw @ (if raw = [] \<or> last raw \<noteq> NL then [NL] else []))
      | None \<Rightarrow>
          if il_header l then Some ([NL, CHR ''[''] @ il_section l @ '']'' @ write_comment (il_comment l) @ [NL])
          else
            (case il_key l of
               Some k \<Rightarrow> map_option (\<lambda>v. k @ '' = '' @ v @ write_comment (il_comment l) @ [NL]) (write_value (il_value l))
             | None \<Rightarrow> Some []))"

fun doc_text :: "ini \<Rightarrow> string option" where
  "doc_text [] = Some []"
| "doc_text (l # ls) =
     (case line_text l of
        None \<Rightarrow> None
      | Some t \<Rightarrow> map_option (\<lambda>ts. t @ ts) (doc_text ls))"

text \<open>The directory of the file is synced; \<open>sync_err\<close> is what opening or syncing it fails with.\<close>

definition sync_parent :: "errno option \<Rightarrow> string \<Rightarrow> errno option" where
  "sync_parent sync_err path =
     (if length path \<ge> MAX_PATH then Some ENAMETOOLONG
      else if CHR ''/'' \<notin> set path then Some EINVAL
      else sync_err)"

definition sm_ini_write :: "io \<Rightarrow> errno option \<Rightarrow> string \<Rightarrow> ini \<Rightarrow> disk \<Rightarrow> unit res \<times> disk" where
  "sm_ini_write f sync_err path doc d =
     (case bounded MAX_PATH (path @ ''.XXXXXX'') of
        None \<Rightarrow> (Inl ENAMETOOLONG, d)
      | Some _ \<Rightarrow>
          (case io_open f of
             Some e \<Rightarrow> (Inl e, d)
           | None \<Rightarrow>
               (case doc_text doc of
                  None \<Rightarrow> (Inl EINVAL, d)
                | Some s \<Rightarrow>
                    if length s > INI_MAX_BYTES then (Inl EFBIG, d)
                    else
                      (case (io_write f, io_rename f) of
                         (Some e, _) \<Rightarrow> (Inl e, d)
                       | (None, Some e) \<Rightarrow> (Inl e, d)
                       | (None, None) \<Rightarrow>
                           (case sync_parent sync_err path of
                              Some e \<Rightarrow> (Inl e, d(path \<mapsto> s))
                            | None \<Rightarrow> (Inr (), d(path \<mapsto> s)))))))"

section \<open>Settings\<close>

text \<open>The settings a document holds, in the order of its lines: names are compared without case, and the
  last line for a name counts.\<close>

definition ci :: "string \<Rightarrow> string" where
  "ci = map tolower"

definition setting :: "ini_line \<Rightarrow> ((string \<times> string) \<times> string) list" where
  "setting l = (case il_key l of None \<Rightarrow> [] | Some k \<Rightarrow> [((ci (il_section l), ci k), il_value l)])"

definition settings :: "ini \<Rightarrow> ((string \<times> string) \<times> string) list" where
  "settings doc = concat (map setting doc)"

lemma settings_simps [simp]:
  "settings [] = []" "settings (l # ls) = setting l @ settings ls" "settings (a @ b) = settings a @ settings b"
  by (simp_all add: settings_def)

lemma line_is_setting: "line_is s k l \<longleftrightarrow> (\<exists>v. setting l = [((ci s, ci k), v)])"
  by (auto simp: line_is_def setting_def ci_def strcaseeq_def split: option.splits)

lemma line_is_settingD: "line_is s k l \<Longrightarrow> setting l = [((ci s, ci k), il_value l)]"
  by (auto simp: line_is_def setting_def ci_def strcaseeq_def split: option.splits)

lemma setting_other: "\<not> line_is s k l \<Longrightarrow> map_of (setting l) (ci s, ci k) = None"
  by (auto simp: line_is_def setting_def ci_def strcaseeq_def split: option.splits)

lemma rev_setting [simp]: "rev (setting l) = setting l"
  by (simp add: setting_def split: option.split)

lemma get_settings: "sm_ini_get doc s k = map_of (rev (settings doc)) (ci s, ci k)"
proof (induction doc rule: rev_induct)
  case (snoc l doc)
  show ?case
  proof (cases "line_is s k l")
    case True
    then show ?thesis by (simp add: sm_ini_get_def line_is_settingD)
  next
    case False
    then show ?thesis using snoc setting_other [OF False] by (simp add: sm_ini_get_def map_add_def)
  qed
qed (simp add: sm_ini_get_def)

lemma strcaseeq_ci: "strcaseeq a b \<longleftrightarrow> ci a = ci b"
  by (simp add: ci_def strcaseeq_def)

lemma set_lines_found:
  "fst (set_lines s k (Some v) fnd ls) \<longleftrightarrow> fnd \<or> list_ex (line_is s k) ls"
  by (induction ls arbitrary: fnd) auto

lemma settings_none: "\<not> list_ex (line_is s k) ls \<Longrightarrow> map_of (rev (settings ls)) (ci s, ci k) = None"
  by (induction ls) (auto simp: setting_other map_add_def)

lemma setting_retired: "setting (l\<lparr>il_raw := r, il_comment := c, il_key := None, il_value := []\<rparr>) = []"
  by (simp add: setting_def)

lemma setting_updated:
  "line_is s k l \<Longrightarrow> setting (l\<lparr>il_raw := r, il_value := v\<rparr>) = [((ci s, ci k), v)]"
  by (auto simp: line_is_def setting_def ci_def strcaseeq_def split: option.splits)

lemmas setting_changes = setting_retired setting_updated line_is_settingD setting_other

lemma set_lines_settings:
  "map_of (rev (settings (snd (set_lines s k val fnd ls)))) x =
     (if x = (ci s, ci k) then (if fnd \<or> \<not> list_ex (line_is s k) ls then None else val)
      else map_of (rev (settings ls)) x)"
proof (induction ls arbitrary: fnd val x)
  case (Cons l ls)
  show ?case
    by (cases "line_is s k l"; cases val; cases fnd; cases "x = (ci s, ci k)")
      (simp_all add: Cons.IH setting_changes map_add_def split: option.split)
qed simp

text \<open>A setting added behind its section is the one that counts.\<close>

lemma section_end_snoc [simp]:
  "section_end (doc @ [l]) s = (if strcaseeq (il_section l) s then Some (Suc (length doc)) else section_end doc s)"
proof -
  have "fold (\<lambda>i a. if strcaseeq (il_section ((doc @ [l]) ! i)) s then Some (Suc i) else a) [0..<length doc] None
      = fold (\<lambda>i a. if strcaseeq (il_section (doc ! i)) s then Some (Suc i) else a) [0..<length doc] None"
    by (intro fold_cong) (auto simp: nth_append)
  then show ?thesis by (simp add: section_end_def)
qed

lemma section_end_Nil [simp]: "section_end [] s = None"
  by (simp add: section_end_def)

lemma section_end_None: "section_end doc s = None \<Longrightarrow> l \<in> set doc \<Longrightarrow> \<not> strcaseeq (il_section l) s"
  by (induction doc rule: rev_induct) (auto split: if_splits)

lemma section_end_Some:
  "section_end doc s = Some at \<Longrightarrow>
     \<exists>a l b. doc = a @ l # b \<and> at = Suc (length a) \<and> strcaseeq (il_section l) s \<and> (\<forall>x\<in>set b. \<not> strcaseeq (il_section x) s)"
proof (induction doc rule: rev_induct)
  case (snoc x doc)
  show ?case
  proof (cases "strcaseeq (il_section x) s")
    case True
    then show ?thesis using snoc.prems by force
  next
    case False
    with snoc.prems have "section_end doc s = Some at" by simp
    then obtain a l b where "doc = a @ l # b" "at = Suc (length a)" "strcaseeq (il_section l) s"
      "\<forall>y\<in>set b. \<not> strcaseeq (il_section y) s" using snoc.IH by blast
    then show ?thesis using False by (intro exI [of _ a] exI [of _ l] exI [of _ "b @ [x]"]) auto
  qed
qed simp

lemma settings_other_section:
  "\<forall>l\<in>set doc. \<not> strcaseeq (il_section l) s \<Longrightarrow> map_of (rev (settings doc)) (ci s, ci k) = None"
  by (rule settings_none) (auto simp: list_ex_iff line_is_def strcaseeq_sym split: option.splits)

lemma setting_new [simp]: "setting (new_line s k v) = [((ci s, ci k), v)]" "setting (new_header s) = []"
  by (simp_all add: setting_def new_line_def new_header_def)

lemma append_settings:
  assumes "sm_ini_append doc s k v = (r, doc')"
  shows "map_of (rev (settings doc')) =
     (case r of Inl _ \<Rightarrow> map_of (rev (settings doc)) | Inr _ \<Rightarrow> (map_of (rev (settings doc)))((ci s, ci k) \<mapsto> v))"
proof (cases "names_ok s k \<and> valid_text v")
  case True
  show ?thesis
  proof (cases "section_end doc s")
    case None
    then show ?thesis using assms True
      by (auto simp: sm_ini_append_def insert_line_def split: if_splits)
  next
    case (Some at)
    then obtain a l b where d: "doc = a @ l # b" "at = Suc (length a)" "\<forall>x\<in>set b. \<not> strcaseeq (il_section x) s"
      using section_end_Some by blast
    have "map_of (rev (settings b)) (ci s, ci k) = None" using d(3) by (rule settings_other_section)
    then show ?thesis using assms True Some d(1,2)
      by (auto simp: sm_ini_append_def insert_line_def map_add_def fun_eq_iff split: if_splits option.split)
  qed
qed (use assms in \<open>auto simp: sm_ini_append_def\<close>)

text \<open>
  Setting a value by name: a call that succeeds leaves exactly that setting changed (removed when the
  value is \<open>NULL\<close>), in whatever case the names are asked for, even if the document had the name more than
  once; a call that fails changes no setting.
\<close>
theorem ini_set_get:
  assumes "sm_ini_set doc s k v = (r, doc')"
  shows "sm_ini_get doc' s' k' =
    (if r = Inr () \<and> strcaseeq s s' \<and> strcaseeq k k' then v else sm_ini_get doc s' k')"
proof (cases "names_ok s k \<and> (case v of None \<Rightarrow> True | Some x \<Rightarrow> valid_text x)")
  case True
  obtain fnd doc1 where sl: "set_lines s k v False doc = (fnd, doc1)" by fastforce
  have st: "map_of (rev (settings doc1)) x =
      (if x = (ci s, ci k) then (if list_ex (line_is s k) doc then v else None) else map_of (rev (settings doc)) x)" for x
    using set_lines_settings [of s k v False doc x] sl by simp
  show ?thesis
  proof (cases "v = None \<or> fnd")
    case now: True
    have "fnd = list_ex (line_is s k) doc" if "v = Some x" for x
      using set_lines_found [of s k x False doc] sl that by simp
    then show ?thesis using assms True sl st now
      by (auto simp: sm_ini_set_def get_settings strcaseeq_ci split: option.splits)
  next
    case False
    then obtain x where v: "v = Some x" "\<not> fnd" by auto
    then have none: "\<not> list_ex (line_is s k) doc" using set_lines_found [of s k x False doc] sl by simp
    have "sm_ini_append doc1 s k x = (r, doc')" using assms True sl v by (simp add: sm_ini_set_def)
    from append_settings [OF this] show ?thesis
      using st none v settings_none [OF none]
      by (auto simp: get_settings strcaseeq_ci split: sum.splits)
  qed
qed (use assms in \<open>auto simp: sm_ini_set_def split: option.splits\<close>)

definition sample_ini :: ini where
  "sample_ini =
     [new_header ''scan'', new_line ''scan'' ''depth'' ''1'', new_line ''Scan'' ''Depth'' ''2'', new_header ''api'']"

text \<open>Of two lines for the same name the first one takes the new value and the second one goes.\<close>

theorem ini_set_get_witness:
  "sm_ini_get (snd (sm_ini_set sample_ini ''SCAN'' ''depth'' (Some ''3''))) ''scan'' ''DEPTH'' = Some ''3''
   \<and> sm_ini_get sample_ini ''scan'' ''depth'' = Some ''2''"
proof -
  have same: "strcaseeq ''SCAN'' ''scan'' = True" "strcaseeq ''depth'' ''DEPTH'' = True" by code_simp+
  have "sm_ini_set sample_ini ''SCAN'' ''depth'' (Some ''3'') =
      (Inr (), snd (sm_ini_set sample_ini ''SCAN'' ''depth'' (Some ''3'')))" by code_simp
  from ini_set_get [OF this, of "''scan''" "''DEPTH''"]
  have "sm_ini_get (snd (sm_ini_set sample_ini ''SCAN'' ''depth'' (Some ''3''))) ''scan'' ''DEPTH'' = Some ''3''"
    by (simp add: same)
  moreover have "sm_ini_get sample_ini ''scan'' ''depth'' = Some ''2''" by code_simp
  ultimately show ?thesis by simp
qed

section \<open>What is written is read back\<close>

subsection \<open>Values and comments\<close>

definition trimmed :: "string \<Rightarrow> bool" where
  "trimmed s \<longleftrightarrow> s = [] \<or> \<not> isspace (hd s) \<and> \<not> isspace (last s)"

lemma trim_blanks:
  assumes "trimmed s" "list_all isspace a" "list_all isspace b"
  shows "trim (a @ s @ b) = s"
proof -
  have dw: "dropWhile isspace (x @ y) = dropWhile isspace y" if "list_all isspace x" for x y
    using that by (induction x) auto
  show ?thesis
  proof (cases "s = []")
    case True
    then show ?thesis using assms dw [of a b] dw [of b "[]"] by (auto simp: trim_def dest: set_dropWhileD)
  next
    case False
    have "dropWhile isspace (a @ s @ b) = s @ b"
      using False assms(1) dw [OF assms(2)] by (cases s) (auto simp: trimmed_def)
    moreover have "dropWhile isspace (rev b @ rev s) = rev s"
      using False assms(1) dw [of "rev b"] assms(3) by (cases s rule: rev_cases) (auto simp: trimmed_def list_all_iff)
    ultimately show ?thesis by (simp add: trim_def)
  qed
qed

lemma trim_trimmed: "trimmed s \<Longrightarrow> trim s = s"
  using trim_blanks [of s "[]" "[]"] by simp

lemma trimmed_trim: "trimmed (trim s)"
proof -
  define a where "a = dropWhile isspace s"
  have *: "hd (rev (dropWhile isspace (rev a))) = hd a" if "rev (dropWhile isspace (rev a)) \<noteq> []"
  proof -
    have "a = rev (dropWhile isspace (rev a)) @ rev (takeWhile isspace (rev a))"
      by (metis rev_append rev_rev_ident takeWhile_dropWhile_id)
    then show ?thesis using that by (metis hd_append2)
  qed
  show ?thesis using * hd_dropWhile [of isspace s] hd_dropWhile [of isspace "rev a"]
    by (fastforce simp: trimmed_def trim_def a_def last_rev)
qed

lemma trim_idem [simp]: "trim (trim s) = trim s"
  by (rule trim_trimmed [OF trimmed_trim])

lemma unquote_escape: "valid_text v \<Longrightarrow> unquote (escape v @ QUOTE # r) = Some (v, r)"
  by (induction v) (auto simp: escape_def valid_text_def)

definition plain :: "string \<Rightarrow> bool" where
  "plain s \<longleftrightarrow> NL \<notin> set s \<and> CHR 0x00 \<notin> set s"

definition comment_ok :: "string option \<Rightarrow> bool" where
  "comment_ok c = (case c of None \<Rightarrow> True | Some s \<Rightarrow> s \<noteq> [] \<and> is_comment (hd s) \<and> trimmed s \<and> plain s)"

lemma comment_trim: "comment_ok c \<Longrightarrow> trim (write_comment c) = (case c of None \<Rightarrow> [] | Some s \<Rightarrow> s)"
  using trim_blanks [of _ "'' ''" "[]"]
  by (auto simp: comment_ok_def write_comment_def trim_trimmed trimmed_def isspace_def split: option.splits)

lemma split_commentI:
  assumes "\<not> list_ex is_comment v" "comment_ok c"
  shows "split_comment (v @ write_comment c) = (case c of None \<Rightarrow> (v, None) | Some s \<Rightarrow> (v @ '' '', Some s))"
proof -
  have "takeWhile (\<lambda>x. \<not> is_comment x) v = v" "dropWhile (\<lambda>x. \<not> is_comment x) v = []"
    using assms(1) by (auto simp: list_ex_iff takeWhile_eq_all_conv)
  then show ?thesis using assms
    by (cases c; cases "the c")
      (auto simp: split_comment_def write_comment_def comment_ok_def list_ex_iff is_comment_def takeWhile_append dropWhile_append)
qed

text \<open>A value written with its comment is decoded to the same value and comment.\<close>

lemma decode_write:
  assumes "write_value v = Some w" "comment_ok c"
  shows "decode_value (w @ write_comment c) = Some (v, c)"
proof (cases "needs_quotes v")
  case True
  then have w: "w = QUOTE # escape v @ [QUOTE]" "valid_text v"
    using assms(1) by (auto simp: write_value_def split: if_splits)
  then show ?thesis using assms(2) comment_trim [OF assms(2)]
    by (auto simp: decode_value_def unquote_escape Let_def comment_ok_def split: option.splits)
next
  case False
  then have w: "w = v" "v \<noteq> []" "\<not> list_ex is_comment v" "hd v \<noteq> QUOTE" "trimmed v"
    using assms(1) by (auto simp: write_value_def needs_quotes_def list_ex_iff trimmed_def split: if_splits)
  have "trim (v @ '' '') = v" using trim_blanks [OF w(5), of "[]" "'' ''"] by (simp add: isspace_def)
  then show ?thesis using w split_commentI [OF w(3) assms(2)]
    by (cases v) (auto simp: decode_value_def trim_trimmed split: option.splits)
qed

subsection \<open>Lines\<close>

definition section_ok :: "string \<Rightarrow> bool" where
  "section_ok s \<longleftrightarrow> s \<noteq> [] \<and> trimmed s \<and> plain s \<and> length s < INI_SECTION_SIZE \<and> header_end (s @ '']'') = Some (s, [])"

definition key_ok :: "string \<Rightarrow> bool" where
  "key_ok k \<longleftrightarrow> k \<noteq> [] \<and> trimmed k \<and> plain k \<and> CHR ''='' \<notin> set k \<and> hd k \<noteq> CHR ''['' \<and> \<not> is_comment (hd k)"

text \<open>The physical lines a line is written as, without their line feeds.\<close>

definition body :: "string \<Rightarrow> string" where
  "body r = (if r \<noteq> [] \<and> last r = NL then butlast r else r)"

definition line_bodies :: "ini_line \<Rightarrow> string list" where
  "line_bodies l =
     (case il_raw l of
        Some r \<Rightarrow> [body r]
      | None \<Rightarrow>
          if il_header l then [[], CHR ''['' # il_section l @ '']'' @ write_comment (il_comment l)]
          else (case (il_key l, write_value (il_value l)) of
                  (Some k, Some v) \<Rightarrow> [k @ '' = '' @ v @ write_comment (il_comment l)]
                | _ \<Rightarrow> []))"

definition doc_bodies :: "ini \<Rightarrow> string list" where
  "doc_bodies doc = concat (map line_bodies doc)"

definition unlines :: "string list \<Rightarrow> string" where
  "unlines bs = concat (map (\<lambda>b. b @ [NL]) bs)"

lemma unlines_simps [simp]:
  "unlines [] = []" "unlines (b # bs) = b @ NL # unlines bs" "unlines (bs @ cs) = unlines bs @ unlines cs"
  by (simp_all add: unlines_def)

lemma doc_bodies_simps [simp]: "doc_bodies [] = []" "doc_bodies (l # ls) = line_bodies l @ doc_bodies ls"
  by (simp_all add: doc_bodies_def)

definition same_line :: "ini_line \<Rightarrow> ini_line \<Rightarrow> bool" where
  "same_line l l' \<longleftrightarrow> il_header l' = il_header l \<and> il_key l' = il_key l \<and> (il_key l \<noteq> None \<longrightarrow> il_value l' = il_value l)
     \<and> (il_header l \<longrightarrow> il_section l' = il_section l)"

definition raw_ok :: "ini_line \<Rightarrow> string \<Rightarrow> bool" where
  "raw_ok l r \<longleftrightarrow> plain (body r) \<and> (case parse_line False [] (body r @ [NL]) of Some (Some l', _) \<Rightarrow> same_line l l' | _ \<Rightarrow> False)"

text \<open>A line that keeps the text it was read from agrees with it; a changed line can be written.\<close>

definition line_ok :: "string \<Rightarrow> ini_line \<Rightarrow> bool" where
  "line_ok cur l \<longleftrightarrow> comment_ok (il_comment l)
     \<and> (if il_header l then section_ok (il_section l) \<and> il_key l = None else strcaseeq (il_section l) cur)
     \<and> (case il_key l of None \<Rightarrow> True | Some k \<Rightarrow> key_ok k \<and> (il_raw l = None \<longrightarrow> valid_text (il_value l)))
     \<and> (case il_raw l of None \<Rightarrow> True | Some r \<Rightarrow> raw_ok l r)"

definition next_section :: "string \<Rightarrow> ini_line \<Rightarrow> string" where
  "next_section cur l = (if il_header l then il_section l else cur)"

fun doc_ok :: "string \<Rightarrow> ini \<Rightarrow> bool" where
  "doc_ok cur [] \<longleftrightarrow> True"
| "doc_ok cur (l # ls) \<longleftrightarrow> line_ok cur l \<and> doc_ok (next_section cur l) ls"

lemma doc_ok_append [simp]: "doc_ok cur (a @ b) \<longleftrightarrow> doc_ok cur a \<and> doc_ok (foldl next_section cur a) b"
  by (induction a arbitrary: cur) auto

fun parse_bodies :: "string \<Rightarrow> string list \<Rightarrow> ini option" where
  "parse_bodies cur [] = Some []"
| "parse_bodies cur (b # bs) =
     (case parse_line False cur (b @ [NL]) of
        Some (Some l, cur') \<Rightarrow> map_option (Cons l) (parse_bodies cur' bs)
      | _ \<Rightarrow> None)"

lemma trim_line: "trimmed b \<Longrightarrow> trim (b @ [NL]) = b"
  using trim_blanks [of b "[]" "[NL]"] by (simp add: isspace_def)

lemma parse_header_section:
  "parse_header s raw t = (Some l, s') \<Longrightarrow> parse_header s2 raw2 t = (Some (l\<lparr>il_raw := Some raw2\<rparr>), s') \<and> il_section l = s' \<and> il_header l"
  by (cases "header_end t") (auto simp: parse_header_def Let_def split: if_splits)

lemma parse_key_section:
  "parse_key lg s raw t = Key_Line l \<Longrightarrow>
     il_section l = s \<and> \<not> il_header l \<and> parse_key lg s2 raw2 t = Key_Line (l\<lparr>il_section := s2, il_raw := Some raw2\<rparr>)"
  by (simp add: parse_key_def Let_def split: if_splits option.splits prod.splits) auto

lemma parse_line_section:
  assumes "parse_line False s raw = Some (Some l, s')" "trim raw2 = trim raw"
  shows "parse_line False s2 raw2 = Some (Some ((if il_header l then l else l\<lparr>il_section := s2\<rparr>)\<lparr>il_raw := Some raw2\<rparr>), next_section s2 l)"
    and "il_section l = s' \<and> (\<not> il_header l \<longrightarrow> s' = s)"
proof -
  let ?t = "trim raw"
  consider (header) "?t \<noteq> []" "hd ?t = CHR ''[''" | (key) "?t \<noteq> []" "hd ?t \<noteq> CHR ''[''" "\<not> is_comment (hd ?t)"
    | (other) "?t = [] \<or> hd ?t \<noteq> CHR ''['' \<and> is_comment (hd ?t)" by blast
  then have "parse_line False s2 raw2 = Some (Some ((if il_header l then l else l\<lparr>il_section := s2\<rparr>)\<lparr>il_raw := Some raw2\<rparr>), next_section s2 l)
    \<and> il_section l = s' \<and> (\<not> il_header l \<longrightarrow> s' = s)"
  proof cases
    case header
    with assms have "parse_header s raw (tl ?t) = (Some l, s')"
      by (auto simp: parse_line_def Let_def split: prod.splits option.splits)
    from parse_header_section [OF this, of s2 raw2] show ?thesis using header assms(2)
      by (simp add: parse_line_def next_section_def)
  next
    case key
    with assms have "parse_key False s raw ?t = Key_Line l" "s' = s"
      by (auto simp: parse_line_def Let_def split: parsed_key.splits)
    with parse_key_section [OF this(1), of s2 raw2] show ?thesis using key assms(2)
      by (simp add: parse_line_def next_section_def)
  qed (use assms in \<open>auto simp: parse_line_def next_section_def is_comment_def\<close>)
  then show "parse_line False s2 raw2 = Some (Some ((if il_header l then l else l\<lparr>il_section := s2\<rparr>)\<lparr>il_raw := Some raw2\<rparr>), next_section s2 l)"
    and "il_section l = s' \<and> (\<not> il_header l \<longrightarrow> s' = s)" by auto
qed

text \<open>Where the header of a section ends: behind the name is a comment or nothing, and no bracket inside the
  name has that.\<close>

definition ends_header :: "string \<Rightarrow> bool" where
  "ends_header t \<longleftrightarrow> dropWhile isspace t = [] \<or> is_comment (hd (dropWhile isspace t))"

definition no_end_inside :: "string \<Rightarrow> bool" where
  "no_end_inside n \<longleftrightarrow> (\<forall>a b. n = a @ CHR '']'' # b \<longrightarrow> \<not> ends_header (b @ '']''))"

lemma ends_header_inside: "ends_header (b @ CHR '']'' # t) \<longleftrightarrow> ends_header (b @ '']'')"
  by (induction b) (simp_all add: ends_header_def isspace_def is_comment_def)

lemma no_end_inside_Cons:
  "no_end_inside (c # n) \<longleftrightarrow> (c = CHR '']'' \<longrightarrow> \<not> ends_header (n @ '']'')) \<and> no_end_inside n"
  by (auto simp: no_end_inside_def Cons_eq_append_conv)

lemma header_end_iff: "header_end (n @ CHR '']'' # t) = Some (n, t) \<longleftrightarrow> ends_header t \<and> no_end_inside n"
proof (induction n)
  case Nil
  have "header_end t \<noteq> Some ([], t)" for t by (induction t) (auto simp: Let_def)
  then show ?case by (auto simp: Let_def ends_header_def no_end_inside_def)
next
  case (Cons c n)
  then show ?case using ends_header_inside [of n t]
    by (auto simp: Let_def no_end_inside_Cons ends_header_def [of "n @ CHR '']'' # t"] split: option.splits)
qed

lemma header_end_split: "header_end s = Some (n, t) \<Longrightarrow> s = n @ CHR '']'' # t"
  by (induction s arbitrary: n t) (auto simp: Let_def split: if_splits)

lemma append_one: "(@) [a] = (#) a" and append_none: "(@) [] = id"
  by (simp_all add: fun_eq_iff)

lemma trimmed_comment: "trimmed a \<Longrightarrow> a \<noteq> [] \<Longrightarrow> comment_ok c \<Longrightarrow> trimmed (a @ write_comment c)"
  by (cases c) (auto simp: trimmed_def write_comment_def comment_ok_def)

lemma write_value_Some: "valid_text v \<Longrightarrow> \<exists>w. write_value v = Some w"
  by (auto simp: write_value_def)

lemma write_value_trimmed: "write_value v = Some w \<Longrightarrow> w \<noteq> [] \<and> trimmed w"
  by (auto simp: write_value_def needs_quotes_def trimmed_def isspace_def split: if_splits)

lemma trimmed_append: "trimmed a \<Longrightarrow> a \<noteq> [] \<Longrightarrow> trimmed b \<Longrightarrow> b \<noteq> [] \<Longrightarrow> trimmed (a @ x @ b)"
  by (simp add: trimmed_def)

lemma parse_written_header:
  assumes "section_ok s" "comment_ok c"
  shows "\<exists>l. parse_line False cur ((CHR ''['' # s @ '']'' @ write_comment c) @ [NL]) = Some (Some l, s)
           \<and> il_header l \<and> il_section l = s \<and> il_key l = None"
proof -
  let ?b = "CHR ''['' # s @ '']'' @ write_comment c"
  have "trimmed (''['' @ s @ '']'')" by (rule trimmed_append) (simp_all add: trimmed_def isspace_def)
  from trimmed_comment [OF this _ assms(2)] have t: "trim (?b @ [NL]) = ?b"
    using trim_line [of ?b] by simp
  have tail: "ends_header (write_comment c)"
    using assms(2) by (cases c; cases "the c") (auto simp: ends_header_def write_comment_def comment_ok_def isspace_def is_comment_def)
  have he: "header_end (s @ CHR '']'' # write_comment c) = Some (s, write_comment c)"
    using assms(1) tail header_end_iff by (auto simp: section_ok_def)
  have s: "trim s = s" "strlcpy s INI_SECTION_SIZE = s" "s \<noteq> []" "\<not> length s \<ge> INI_SECTION_SIZE"
    using assms(1) by (auto simp: section_ok_def trim_trimmed strlcpy_id)
  obtain l where "parse_header cur (?b @ [NL]) (tl ?b) = (Some l, s)" "il_header l" "il_section l = s" "il_key l = None"
    unfolding parse_header_def using he s by (fastforce simp: Let_def)
  then show ?thesis using t by (simp add: parse_line_def)
qed

lemma parse_written_key:
  assumes "key_ok k" "write_value v = Some w" "comment_ok c"
  shows "\<exists>l. parse_line False cur ((k @ '' = '' @ w @ write_comment c) @ [NL]) = Some (Some l, cur)
           \<and> \<not> il_header l \<and> il_section l = cur \<and> il_key l = Some k \<and> il_value l = v"
proof -
  let ?b = "k @ '' = '' @ w @ write_comment c"
  have w: "w \<noteq> []" "trimmed (w @ write_comment c)"
    using write_value_trimmed [OF assms(2)] trimmed_comment assms(3) by auto
  have k: "k \<noteq> []" "trimmed k" "CHR ''='' \<notin> set k" "hd k \<noteq> CHR ''[''" "\<not> is_comment (hd k)"
    using assms(1) by (auto simp: key_ok_def)
  have t: "trim (?b @ [NL]) = ?b" using trimmed_append [OF k(2,1) w(2), of "'' = ''"] w(1) trim_line [of ?b] by simp
  have tw: "takeWhile (\<lambda>c. c \<noteq> CHR ''='') ?b = k @ '' ''" "dropWhile (\<lambda>c. c \<noteq> CHR ''='') ?b = ''= '' @ w @ write_comment c"
    using k(3) by (auto simp: takeWhile_append dropWhile_append)
  have tr: "trim (k @ '' '') = k" "trim ('' '' @ w @ write_comment c) = w @ write_comment c"
    using trim_blanks [OF k(2), of "[]" "'' ''"] trim_blanks [OF w(2), of "'' ''" "[]"] by (simp_all add: isspace_def)
  have "parse_key False cur (?b @ [NL]) ?b = Key_Line \<lparr>il_raw = Some (?b @ [NL]), il_section = cur, il_key = Some k,
      il_value = v, il_comment = c, il_header = False\<rparr>"
    unfolding parse_key_def tw using k tr decode_write [OF assms(2,3)] by simp
  then show ?thesis using k t by (simp add: parse_line_def)
qed

lemma parse_raw:
  assumes "raw_ok l r"
  shows "\<exists>l'. parse_line False cur (body r @ [NL]) = Some (Some l', next_section cur l) \<and> same_line l l'
           \<and> (\<not> il_header l \<longrightarrow> il_section l' = cur)"
proof -
  obtain l1 s1 where p: "parse_line False [] (body r @ [NL]) = Some (Some l1, s1)" and same: "same_line l l1"
    using assms by (auto simp: raw_ok_def split: option.splits prod.splits)
  show ?thesis using parse_line_section(1) [OF p refl, of cur] parse_line_section(2) [OF p refl] same
    by (auto simp: same_line_def next_section_def)
qed

text \<open>Reading back what one line is written as: the same setting, and the same section for what follows.\<close>

lemma parse_line_bodies:
  assumes "line_ok cur l"
  shows "\<exists>ls. settings ls = setting l \<and>
    (\<forall>bs. parse_bodies cur (line_bodies l @ bs) = map_option ((@) ls) (parse_bodies (next_section cur l) bs))"
proof (cases "il_raw l")
  case (Some r)
  then obtain l' where l': "parse_line False cur (body r @ [NL]) = Some (Some l', next_section cur l)" "same_line l l'"
    "\<not> il_header l \<longrightarrow> il_section l' = cur" using parse_raw [of l r cur] assms by (auto simp: line_ok_def)
  have "setting l' = setting l" using l'(2,3) assms
    by (auto simp: setting_def same_line_def line_ok_def strcaseeq_ci split: option.splits if_splits)
  then show ?thesis using Some l' by (intro exI [of _ "[l']"]) (auto simp: line_bodies_def append_one)
next
  case raw: None
  obtain b where b: "parse_line False cur [NL] = Some (Some b, cur)" "il_key b = None"
    by (simp add: parse_line_def trim_def isspace_def)
  show ?thesis
  proof (cases "il_header l")
    case True
    then have ok: "section_ok (il_section l)" "comment_ok (il_comment l)" "il_key l = None"
      using assms by (auto simp: line_ok_def)
    obtain h where h: "parse_line False cur ((CHR ''['' # il_section l @ '']'' @ write_comment (il_comment l)) @ [NL])
        = Some (Some h, il_section l)" "il_key h = None" using parse_written_header [OF ok(1,2)] by blast
    have two: "(@) [b, h] = (\<lambda>x. b # h # x)" by (simp add: fun_eq_iff)
    show ?thesis using raw True ok(3) h b
      by (intro exI [of _ "[b, h]"])
        (simp add: line_bodies_def setting_def next_section_def option.map_comp o_def two)
  next
    case False
    show ?thesis
    proof (cases "il_key l")
      case None
      then show ?thesis using raw False
        by (intro exI [of _ "[]"]) (auto simp: line_bodies_def setting_def next_section_def append_none option.map_id)
    next
      case (Some k)
      then have ok: "key_ok k" "valid_text (il_value l)" "comment_ok (il_comment l)" "strcaseeq (il_section l) cur"
        using assms raw False by (auto simp: line_ok_def)
      obtain w where w: "write_value (il_value l) = Some w" using write_value_Some [OF ok(2)] by blast
      obtain l' where l': "parse_line False cur ((k @ '' = '' @ w @ write_comment (il_comment l)) @ [NL]) = Some (Some l', cur)"
        "il_section l' = cur" "il_key l' = Some k" "il_value l' = il_value l"
        using parse_written_key [OF ok(1) w ok(3), of cur] by blast
      show ?thesis using raw False Some w l' ok(4)
        by (intro exI [of _ "[l']"]) (auto simp: line_bodies_def setting_def next_section_def strcaseeq_ci append_one)
    qed
  qed
qed

lemma parse_doc_bodies: "doc_ok cur doc \<Longrightarrow> \<exists>ls. parse_bodies cur (doc_bodies doc) = Some ls \<and> settings ls = settings doc"
proof (induction doc arbitrary: cur)
  case (Cons l doc)
  then obtain ls where ls: "parse_bodies (next_section cur l) (doc_bodies doc) = Some ls" "settings ls = settings doc" by auto
  obtain ls1 where "settings ls1 = setting l"
    "parse_bodies cur (line_bodies l @ doc_bodies doc) = map_option ((@) ls1) (parse_bodies (next_section cur l) (doc_bodies doc))"
    using parse_line_bodies [of cur l] Cons.prems by auto
  then show ?case using ls by auto
qed simp

subsection \<open>Files\<close>

lemma line_ok_text: "line_ok cur l \<Longrightarrow> line_text l = Some (unlines (line_bodies l))"
proof (cases "il_raw l")
  case (Some r)
  then show ?thesis
    by (cases r rule: rev_cases) (auto simp: line_text_def line_bodies_def body_def)
next
  case None
  assume "line_ok cur l"
  with None show ?thesis
    by (auto simp: line_text_def line_bodies_def line_ok_def write_value_def split: option.splits)
qed

lemma doc_ok_text: "doc_ok cur doc \<Longrightarrow> doc_text doc = Some (unlines (doc_bodies doc))"
  by (induction doc arbitrary: cur) (auto simp: line_ok_text)

lemma ini_raw_line: "plain b \<Longrightarrow> length b < n \<Longrightarrow> ini_raw n (b @ NL # rest) = Inr (b @ [NL], rest)"
proof (induction b arbitrary: n)
  case Nil
  then show ?case by (cases n) auto
next
  case (Cons c b)
  then show ?case by (cases n) (auto simp: plain_def)
qed

lemma ini_lines_bodies:
  assumes "parse_bodies cur bs = Some ls" "list_all plain bs" "list_all (\<lambda>b. length b + 1 < INI_LINE_MAX) bs"
    "length doc + length bs \<le> INI_MAX_LINES"
  shows "ini_lines False cur (unlines bs) doc = Inr (doc @ ls)"
  using assms
proof (induction bs arbitrary: cur doc ls)
  case Nil
  then show ?case by (simp add: ini_lines.simps)
next
  case (Cons b bs)
  obtain l cur' ls' where p: "parse_line False cur (b @ [NL]) = Some (Some l, cur')" "parse_bodies cur' bs = Some ls'" "ls = l # ls'"
    using Cons.prems(1) by (auto split: option.splits)
  have "ini_raw (INI_LINE_MAX - 1) (b @ NL # unlines bs) = Inr (b @ [NL], unlines bs)"
    using Cons.prems by (intro ini_raw_line) auto
  moreover have "insert_line doc (length doc) l = (Inr (), doc @ [l])" using Cons.prems by (simp add: insert_line_def)
  moreover have "ini_lines False cur' (unlines bs) (doc @ [l]) = Inr ((doc @ [l]) @ ls')"
    using Cons.prems by (intro Cons.IH p(2)) auto
  ultimately show ?case using p by (simp add: ini_lines.simps [of False cur])
qed

lemma plain_append [simp]: "plain (a @ b) \<longleftrightarrow> plain a \<and> plain b" "plain (c # a) \<longleftrightarrow> c \<noteq> NL \<and> c \<noteq> CHR 0x00 \<and> plain a" "plain []"
  by (auto simp: plain_def)

lemma valid_plain: "valid_text s \<Longrightarrow> plain s"
  by (induction s) (auto simp: plain_def valid_text_def)

lemma escape_plain: "plain v \<Longrightarrow> plain (escape v)"
  by (induction v) (auto simp: escape_def)

lemma write_value_plain: "write_value v = Some w \<Longrightarrow> plain w"
  by (auto simp: write_value_def valid_plain escape_plain split: if_splits)

lemma comment_plain: "comment_ok c \<Longrightarrow> plain (write_comment c)"
  by (auto simp: comment_ok_def write_comment_def split: option.splits)

lemma line_bodies_plain: "line_ok cur l \<Longrightarrow> list_all plain (line_bodies l)"
  by (auto simp: line_ok_def line_bodies_def raw_ok_def section_ok_def key_ok_def write_value_plain comment_plain
      split: option.splits)

lemma doc_bodies_plain: "doc_ok cur doc \<Longrightarrow> list_all plain (doc_bodies doc)"
  by (induction doc arbitrary: cur) (auto simp: line_bodies_plain)

text \<open>The limits of the reader: the length of a line and the number of lines.\<close>

definition fits :: "ini \<Rightarrow> bool" where
  "fits doc \<longleftrightarrow> list_all (\<lambda>b. length b + 1 < INI_LINE_MAX) (doc_bodies doc) \<and> length (doc_bodies doc) \<le> INI_MAX_LINES"

lemma write_read:
  assumes "doc_ok [] doc" "fits doc" "sm_ini_write f se path doc d = (Inr (), d')"
  shows "\<exists>doc'. sm_ini_read None d' path False = Inr doc' \<and> settings doc' = settings doc"
proof -
  obtain ls where ls: "parse_bodies [] (doc_bodies doc) = Some ls" "settings ls = settings doc"
    using parse_doc_bodies [OF assms(1)] by blast
  have "ini_lines False [] (unlines (doc_bodies doc)) [] = Inr ls"
    using ini_lines_bodies [OF ls(1) doc_bodies_plain [OF assms(1)], of "[]"] assms(2) by (simp add: fits_def)
  moreover have "d' path = Some (unlines (doc_bodies doc))" "length (unlines (doc_bodies doc)) \<le> INI_MAX_BYTES"
    using assms(3) doc_ok_text [OF assms(1)]
    by (auto simp: sm_ini_write_def split: option.splits if_splits)
  ultimately show ?thesis using ls(2) by (simp add: sm_ini_read_def)
qed

subsection \<open>Documents that were read\<close>

lemma trim_split: "\<exists>a b. s = a @ trim s @ b \<and> list_all isspace a \<and> list_all isspace b"
proof -
  define d where "d = dropWhile isspace s"
  have "s = takeWhile isspace s @ rev (dropWhile isspace (rev d)) @ rev (takeWhile isspace (rev d))"
    by (metis d_def rev_append rev_rev_ident takeWhile_dropWhile_id)
  then show ?thesis unfolding trim_def d_def
    by (intro exI [of _ "takeWhile isspace s"] exI [of _ "rev (takeWhile isspace (rev (dropWhile isspace s)))"])
      (auto simp: list_all_iff dest: set_takeWhileD)
qed

lemma plain_subset: "set a \<subseteq> set b \<Longrightarrow> plain b \<Longrightarrow> plain a"
  by (auto simp: plain_def)

lemma set_trim_subset: "set (trim s) \<subseteq> set s"
  using trim_split [of s] by (metis set_append Un_upper1 Un_upper2 subset_trans)

lemma trim_plain: "plain s \<Longrightarrow> plain (trim s)"
  using trim_split [of s] by (metis plain_append(1))

lemma hd_trim: "s \<noteq> [] \<Longrightarrow> \<not> isspace (hd s) \<Longrightarrow> hd (trim s) = hd s \<and> trim s \<noteq> []"
proof -
  assume s: "s \<noteq> []" "\<not> isspace (hd s)"
  obtain a b where ab: "s = a @ trim s @ b" "list_all isspace a" "list_all isspace b" using trim_split by blast
  have "hd s = hd a" if "a \<noteq> []" using ab(1) that by (metis hd_append2)
  then have "a = []" using ab(2) s(2) by (cases a) auto
  moreover have "trim s \<noteq> []" using calculation ab s by (cases b) auto
  ultimately show ?thesis using ab(1) by (metis append_Nil hd_append2)
qed

lemma trim_body: "plain b \<Longrightarrow> raw = b \<or> raw = b @ [NL] \<Longrightarrow> body raw = b \<and> trim raw = trim b"
proof -
  assume b: "plain b" "raw = b \<or> raw = b @ [NL]"
  obtain x y where xy: "b = x @ trim b @ y" "list_all isspace x" "list_all isspace y" using trim_split by blast
  have "trim (x @ trim b @ (y @ [NL])) = trim b"
    using xy by (intro trim_blanks trimmed_trim) (auto simp: isspace_def)
  moreover have "x @ trim b @ (y @ [NL]) = b @ [NL]" using xy(1) by (metis append.assoc)
  ultimately have "trim (b @ [NL]) = trim b" by simp
  then show ?thesis using b by (cases b rule: rev_cases) (auto simp: body_def butlast_append)
qed

lemma no_end_inside_trim:
  assumes "no_end_inside n"
  shows "no_end_inside (trim n)"
proof -
  obtain p q where pq: "n = p @ trim n @ q" "list_all isspace q" using trim_split by blast
  have same: "ends_header (b @ q @ '']'') \<longleftrightarrow> ends_header (b @ '']'')" for b
    using pq(2) by (induction b; induction q) (auto simp: ends_header_def isspace_def)
  show ?thesis unfolding no_end_inside_def
  proof (intro allI impI)
    fix a b
    assume "trim n = a @ CHR '']'' # b"
    then have "n = (p @ a) @ CHR '']'' # (b @ q)" using pq(1) by simp
    then have "\<not> ends_header ((b @ q) @ '']'')" using assms unfolding no_end_inside_def by blast
    then show "\<not> ends_header (b @ '']'')" using same [of b] by simp
  qed
qed

lemma ends_header_comment:
  assumes "ends_header t" "plain t"
  shows "comment_ok (if trim t = [] then None else Some (trim t))"
proof (cases "dropWhile isspace t")
  case Nil
  then have "trim t = []" by (auto simp: trim_def dest: set_dropWhileD)
  then show ?thesis by (simp add: comment_ok_def)
next
  case (Cons c r)
  then have c: "is_comment c" "\<not> isspace c" using assms(1) hd_dropWhile [of isspace t] by (auto simp: ends_header_def)
  have "trim t = trim (c # r)" using Cons c(2) by (simp add: trim_def)
  then show ?thesis using hd_trim [of "c # r"] c trimmed_trim [of t] trim_plain [OF assms(2)]
    by (simp add: comment_ok_def)
qed

lemma parse_header_ok:
  assumes "parse_header cur raw t = (Some l, cur')" "plain t"
  shows "section_ok (il_section l) \<and> comment_ok (il_comment l) \<and> il_key l = None \<and> il_raw l = Some raw \<and> cur' = il_section l"
proof -
  obtain n r where he: "header_end t = Some (n, r)" using assms(1) by (auto simp: parse_header_def split: option.splits)
  then have t: "t = n @ CHR '']'' # r" by (rule header_end_split)
  then have ends: "ends_header r" "no_end_inside n" using he header_end_iff by auto
  have "header_end (trim n @ '']'') = Some (trim n, [])"
    using no_end_inside_trim [OF ends(2)] header_end_iff [of "trim n" "[]"] by (simp add: ends_header_def)
  then show ?thesis using assms he t ends_header_comment [OF ends(1)]
    by (auto simp: parse_header_def Let_def section_ok_def strlcpy_id trimmed_trim trim_plain split: if_splits)
qed

lemma split_comment_ok:
  assumes "split_comment v = (a, c)" "trimmed v" "plain v"
  shows "comment_ok c"
proof (cases c)
  case (Some s)
  then have s: "s = dropWhile (\<lambda>x. \<not> is_comment x) v" "s \<noteq> []"
    using assms(1) by (auto simp: split_comment_def Let_def split: if_splits)
  then have h: "is_comment (hd s)" using hd_dropWhile [of "\<lambda>x. \<not> is_comment x" v] by simp
  have v: "v = takeWhile (\<lambda>x. \<not> is_comment x) v @ s" using s(1) by simp
  then have "plain s" using assms(3) by (metis plain_append(1))
  moreover have "last s = last v" using v s(2) by (metis last_appendR)
  moreover have "\<not> isspace (hd s)" using h by (auto simp: is_comment_def isspace_def)
  ultimately show ?thesis using Some s(2) h assms(2) by (auto simp: comment_ok_def trimmed_def s(1))
qed (simp add: comment_ok_def)

lemma unquote_split: "unquote s = Some (v, r) \<Longrightarrow> \<exists>a. s = a @ QUOTE # r"
proof (induction s arbitrary: v r rule: unquote.induct)
  case (2 c s)
  then show ?case by (fastforce split: if_splits list.splits)
qed simp

lemma decode_value_ok:
  assumes "decode_value v = Some (x, c)" "trimmed v" "plain v"
  shows "comment_ok c"
proof (cases v)
  case (Cons q r)
  show ?thesis
  proof (cases "q = QUOTE")
    case True
    then obtain rest where u: "unquote r = Some (x, rest)" "c = (if trim rest = [] then None else Some (trim rest))"
      "trim rest = [] \<or> is_comment (hd (trim rest))"
      using assms(1) Cons by (auto simp: decode_value_def Let_def split: option.splits if_splits)
    have "plain rest" using unquote_split [OF u(1)] assms(3) Cons by auto
    then show ?thesis using u(2,3) by (auto simp: comment_ok_def trimmed_trim trim_plain)
  next
    case False
    then show ?thesis using assms Cons split_comment_ok by (auto simp: decode_value_def split: prod.splits)
  qed
qed (use assms in \<open>simp add: decode_value_def comment_ok_def\<close>)

lemma parse_key_ok:
  assumes "parse_key False cur raw t = Key_Line l" "plain t" "trimmed t" "t \<noteq> []" "hd t \<noteq> CHR ''[''" "\<not> is_comment (hd t)"
  shows "(\<exists>k. il_key l = Some k \<and> key_ok k) \<and> comment_ok (il_comment l) \<and> il_raw l = Some raw"
proof -
  let ?k = "takeWhile (\<lambda>c. c \<noteq> CHR ''='') t" and ?v = "tl (dropWhile (\<lambda>c. c \<noteq> CHR ''='') t)"
  have l: "trim ?k \<noteq> []" "il_key l = Some (trim ?k)" "il_raw l = Some raw" "\<exists>x. decode_value (trim ?v) = Some (x, il_comment l)"
    using assms(1) by (auto simp: parse_key_def Let_def split: if_splits option.splits)
  have eq: "t = ?k @ dropWhile (\<lambda>c. c \<noteq> CHR ''='') t" by simp
  have ne: "?k \<noteq> []" using l(1) by (auto simp: trim_def)
  have hd: "hd ?k = hd t" using eq ne by (metis hd_append2)
  have pl: "plain ?k" "plain ?v"
    using assms(2) plain_subset [of _ t] set_takeWhileD set_dropWhileD by (metis subsetI, metis list.set_sel(2) subsetI tl_Nil)
  have "comment_ok (il_comment l)" using l(4) pl(2) decode_value_ok trimmed_trim trim_plain by blast
  moreover have "CHR ''='' \<notin> set (trim ?k)"
    using set_trim_subset [of ?k] by (auto dest: set_takeWhileD)
  moreover have "hd (trim ?k) = hd t" using hd_trim [OF ne] hd assms(3,4) by (simp add: trimmed_def)
  ultimately show ?thesis using l assms(5,6) trim_plain [OF pl(1)] by (simp add: key_ok_def trimmed_trim)
qed

lemma parse_line_ok:
  assumes "parse_line False cur raw = Some (Some l, cur')" "plain b" "raw = b \<or> raw = b @ [NL]"
  shows "line_ok cur l \<and> cur' = next_section cur l"
proof -
  let ?t = "trim raw"
  have t: "plain ?t" "trimmed ?t" "body raw = b" "trim (b @ [NL]) = ?t"
    using trim_body [OF assms(2,3)] trim_body [OF assms(2), of "b @ [NL]"] trim_plain [OF assms(2)]
    by (simp_all add: trimmed_trim)
  have kc: "comment_ok (il_comment l) \<and> il_raw l = Some raw \<and> (il_header l \<longrightarrow> section_ok (il_section l) \<and> il_key l = None)
      \<and> (\<forall>k. il_key l = Some k \<longrightarrow> key_ok k)"
  proof -
    consider (header) "?t \<noteq> []" "hd ?t = CHR ''[''" | (key) "?t \<noteq> []" "hd ?t \<noteq> CHR ''[''" "\<not> is_comment (hd ?t)"
      | (other) "?t = [] \<or> hd ?t \<noteq> CHR ''['' \<and> is_comment (hd ?t)" by blast
    then show ?thesis
    proof cases
      case header
      with assms have "parse_header cur raw (tl ?t) = (Some l, cur')"
        by (auto simp: parse_line_def Let_def split: prod.splits option.splits)
      moreover have "plain (tl ?t)" using t(1) header by (cases ?t) auto
      ultimately show ?thesis using parse_header_ok by fastforce
    next
      case key
      with assms have "parse_key False cur raw ?t = Key_Line l"
        by (auto simp: parse_line_def Let_def split: parsed_key.splits)
      from parse_key_ok [OF this t(1,2) key] parse_key_section [OF this] show ?thesis by auto
    qed (use assms in \<open>auto simp: parse_line_def is_comment_def comment_ok_def\<close>)
  qed
  have "raw_ok l raw" using parse_line_section(1) [OF assms(1) t(4), of "[]"] assms(2) t(3)
    by (simp add: raw_ok_def same_line_def)
  then show ?thesis using kc parse_line_section(2) [OF assms(1) refl]
    by (auto simp: line_ok_def next_section_def split: option.split)
qed

lemma parse_line_strict: "parse_line False cur raw \<noteq> Some (None, s)"
  by (simp add: parse_line_def Let_def split: option.split prod.split parsed_key.split)

lemma ini_raw_plain: "ini_raw n s = Inr (l, r) \<Longrightarrow> \<exists>b. plain b \<and> (l = b \<or> l = b @ [NL])"
proof (induction n s arbitrary: l r rule: ini_raw.induct)
  case (3 n c s)
  show ?case
  proof (cases "c = NL")
    case False
    with 3 obtain l' b where "l = c # l'" "c \<noteq> CHR 0x00" "plain b" "l' = b \<or> l' = b @ [NL]"
      by (cases "ini_raw n s") (auto split: if_splits)
    then show ?thesis using False by (intro exI [of _ "c # b"]) auto
  qed (use 3 in \<open>auto intro: exI [of _ "[]"]\<close>)
qed (auto intro: exI [of _ "[]"])

lemma ini_lines_ok:
  "ini_lines False cur s doc = Inr doc' \<Longrightarrow> doc_ok [] doc \<Longrightarrow> foldl next_section [] doc = cur \<Longrightarrow> doc_ok [] doc'"
proof (induction "False" cur s doc rule: ini_lines.induct)
  case (1 cur s doc)
  obtain raw rest where r: "ini_raw (INI_LINE_MAX - 1) s = Inr (raw, rest)"
    using "1.prems"(1) by (auto simp: ini_lines.simps [of _ cur] split: sum.splits)
  show ?case
  proof (cases "raw = []")
    case True
    then show ?thesis using "1.prems" r by (simp add: ini_lines.simps [of _ cur])
  next
    case False
    obtain b where b: "plain b" "raw = b \<or> raw = b @ [NL]" using ini_raw_plain [OF r] by blast
    obtain l cur' where l: "parse_line False cur raw = Some (Some l, cur')" "insert_line doc (length doc) l = (Inr (), doc @ [l])"
      "ini_lines False cur' rest (doc @ [l]) = Inr doc'"
      using "1.prems"(1) r False
      by (auto simp: ini_lines.simps [of _ cur] insert_line_def parse_line_strict split: option.splits prod.splits sum.splits if_splits)
    have "line_ok cur l \<and> cur' = next_section cur l" using parse_line_ok [OF l(1) b] .
    then show ?thesis using "1.hyps"(2) [OF r _ False l(1) _ _ l(2) [symmetric]] l(3) "1.prems" by auto
  qed
qed

lemma read_ok: "sm_ini_read oe d path False = Inr doc \<Longrightarrow> doc_ok [] doc"
  using ini_lines_ok [of "[]" _ "[]" doc] by (auto simp: sm_ini_read_def split: option.splits if_splits)

subsection \<open>Documents that were edited\<close>

datatype edit = Set_Key string string "string option" | Append_Key string string string
  | Rename_Section string string | Remove_Section string

fun edit_step :: "edit \<Rightarrow> ini \<Rightarrow> ini" where
  "edit_step (Set_Key s k v) doc = snd (sm_ini_set doc s k v)"
| "edit_step (Append_Key s k v) doc = snd (sm_ini_append doc s k v)"
| "edit_step (Rename_Section s n) doc = snd (sm_ini_rename_section doc s n)"
| "edit_step (Remove_Section s) doc = sm_ini_remove_section doc s"

fun edit_ok :: "edit \<Rightarrow> bool" where
  "edit_ok (Set_Key s k v) \<longleftrightarrow> section_ok s \<and> key_ok k"
| "edit_ok (Append_Key s k v) \<longleftrightarrow> section_ok s \<and> key_ok k"
| "edit_ok (Rename_Section s n) \<longleftrightarrow> s \<noteq> [] \<and> section_ok n"
| "edit_ok (Remove_Section s) \<longleftrightarrow> True"

lemma comment_raw_ok:
  assumes "comment_ok (Some c)" "il_key l = None" "\<not> il_header l"
  shows "raw_ok l c"
proof -
  have "body c = c" "trim (c @ [NL]) = c"
    using assms(1) trim_body [of c c] trim_line [of c] by (auto simp: comment_ok_def)
  then show ?thesis using assms
    by (auto simp: raw_ok_def comment_ok_def parse_line_def same_line_def is_comment_def)
qed

lemma retired_ok:
  "line_ok cur l \<Longrightarrow> \<not> il_header l \<Longrightarrow>
     line_ok cur (l\<lparr>il_raw := il_comment l, il_comment := None, il_key := None, il_value := []\<rparr>)"
  by (cases "il_comment l") (auto simp: line_ok_def comment_ok_def [of None] intro: comment_raw_ok)

lemma set_lines_ok:
  "doc_ok cur ls \<Longrightarrow> (\<forall>v. val = Some v \<longrightarrow> valid_text v) \<Longrightarrow> doc_ok cur (snd (set_lines s k val fnd ls))"
proof (induction ls arbitrary: cur fnd)
  case (Cons l ls)
  show ?case
  proof (cases "line_is s k l")
    case True
    then obtain key where "il_key l = Some key" by (auto simp: line_is_def split: option.splits)
    then have nh: "\<not> il_header l" using Cons.prems by (auto simp: line_ok_def split: if_splits)
    then have nx: "next_section cur l = cur" by (simp add: next_section_def)
    have ret: "line_ok cur (l\<lparr>il_raw := il_comment l, il_comment := None, il_key := None, il_value := []\<rparr>)"
      using retired_ok nh Cons.prems by simp
    have upd: "line_ok cur (l\<lparr>il_raw := None, il_value := v\<rparr>)" if "val = Some v" for v
      using Cons.prems that by (auto simp: line_ok_def split: option.splits)
    show ?thesis using True nh Cons.IH [of cur] Cons.prems ret upd
      by (cases val) (auto simp: next_section_def)
  next
    case False
    then show ?thesis using Cons by simp
  qed
qed simp

lemma new_line_ok:
  "strcaseeq s cur \<Longrightarrow> key_ok k \<Longrightarrow> valid_text v \<Longrightarrow> line_ok cur (new_line s k v)" "section_ok s \<Longrightarrow> line_ok cur (new_header s)"
  by (simp_all add: line_ok_def new_line_def new_header_def comment_ok_def)

lemma next_section_new [simp]: "next_section cur (new_header s) = s" "next_section cur (new_line s k v) = cur"
  by (simp_all add: next_section_def new_header_def new_line_def)

lemma section_after: "doc_ok cur (a @ [l]) \<Longrightarrow> strcaseeq (il_section l) (foldl next_section cur (a @ [l]))"
  by (auto simp: line_ok_def next_section_def split: if_splits)

lemma append_ok:
  assumes "doc_ok [] doc" "section_ok s" "key_ok k"
  shows "doc_ok [] (snd (sm_ini_append doc s k v))"
proof (cases "names_ok s k \<and> valid_text v")
  case True
  show ?thesis
  proof (cases "section_end doc s")
    case None
    then show ?thesis using True assms
      by (simp add: sm_ini_append_def insert_line_def new_line_ok next_section_new)
  next
    case (Some at)
    then obtain a l b where d: "doc = a @ l # b" "at = Suc (length a)" "strcaseeq (il_section l) s"
      using section_end_Some by blast
    let ?cur = "foldl next_section [] (a @ [l])"
    have al: "doc_ok [] (a @ [l])" "doc_ok ?cur b" using assms(1) d(1) by auto
    have "strcaseeq s ?cur" using section_after [OF al(1)] d(3) by (metis strcaseeq_sym strcaseeq_trans)
    then have "line_ok ?cur (new_line s k v)" using new_line_ok(1) assms(3) True by blast
    then have "doc_ok [] ((a @ [l]) @ new_line s k v # b)"
      using al by simp
    then show ?thesis using True Some d assms(1) by (simp add: sm_ini_append_def insert_line_def)
  qed
qed (use assms in \<open>auto simp: sm_ini_append_def\<close>)

lemma set_ok:
  assumes "doc_ok [] doc" "section_ok s" "key_ok k"
  shows "doc_ok [] (snd (sm_ini_set doc s k v))"
proof (cases "names_ok s k \<and> (case v of None \<Rightarrow> True | Some x \<Rightarrow> valid_text x)")
  case True
  have "doc_ok [] (snd (set_lines s k v False doc))"
    using True by (intro set_lines_ok assms(1)) (auto split: option.splits)
  then show ?thesis using True append_ok [OF _ assms(2,3)]
    by (auto simp: sm_ini_set_def split: option.splits prod.splits)
qed (use assms in \<open>auto simp: sm_ini_set_def split: option.splits\<close>)

lemma raw_ok_cong: "raw_ok l r \<Longrightarrow> \<not> il_header l \<Longrightarrow> raw_ok (l\<lparr>il_section := n, il_raw := x\<rparr>) r"
  by (auto simp: raw_ok_def same_line_def split: option.splits)

lemma rename_ok:
  assumes "doc_ok cur doc" "section_ok n" "valid_text n"
  shows "doc_ok (if strcaseeq cur s then n else cur) (snd (sm_ini_rename_section doc s n))"
proof -
  let ?f = "\<lambda>l. if \<not> strcaseeq (il_section l) s then l
                  else l\<lparr>il_section := n, il_raw := (if il_header l then None else il_raw l)\<rparr>"
  let ?c = "\<lambda>cur. if strcaseeq cur s then n else cur"
  have one: "line_ok (?c cur) (?f l) \<and> next_section (?c cur) (?f l) = ?c (next_section cur l)" if "line_ok cur l" for cur l
    using that assms(2) by (auto simp: line_ok_def next_section_def strcaseeq_ci raw_ok_cong split: option.splits if_splits)
  have "doc_ok (?c cur) (map ?f doc)" using assms(1)
    by (induction doc arbitrary: cur) (use one in auto)
  then show ?thesis using assms(2,3) by (simp add: sm_ini_rename_section_def section_ok_def)
qed

lemma remove_ok:
  "doc_ok cur doc \<Longrightarrow> (\<not> strcaseeq s cur \<longrightarrow> doc_ok cur (sm_ini_remove_section doc s))
     \<and> (strcaseeq s cur \<longrightarrow> (\<forall>x. doc_ok x (sm_ini_remove_section doc s)))"
proof (induction doc arbitrary: cur)
  case (Cons l doc)
  then show ?case
    by (auto simp: sm_ini_remove_section_def line_ok_def next_section_def strcaseeq_ci split: if_splits option.splits)
qed (simp add: sm_ini_remove_section_def)

lemma edit_step_ok: "doc_ok [] doc \<Longrightarrow> edit_ok e \<Longrightarrow> doc_ok [] (edit_step e doc)"
proof (cases e)
  case (Rename_Section s n)
  assume "doc_ok [] doc" "edit_ok e"
  then show ?thesis using Rename_Section rename_ok [of "[]" doc n s]
    by (cases "valid_text n") (auto simp: strcaseeq_def sm_ini_rename_section_def)
next
  case (Remove_Section s)
  assume "doc_ok [] doc"
  then show ?thesis using Remove_Section remove_ok [of "[]" doc s] by auto
qed (auto simp: set_ok append_ok)

lemma edits_ok: "doc_ok [] doc \<Longrightarrow> list_all edit_ok es \<Longrightarrow> doc_ok [] (fold edit_step es doc)"
  by (induction es arbitrary: doc) (auto simp: edit_step_ok)

text \<open>
  C27. Editing a configuration file: a file is read, any sequence of settings, additions, renamed and removed
  sections is applied to it (with names the format can carry), and it is written back. If the lines stay
  within the limits of the reader and the write succeeds, then reading the file again succeeds and gives
  every setting the value the edited document had, including values that need quotes or escapes and lines
  that carry comments.
\<close>
theorem ini_edits_survive_write:
  assumes "sm_ini_read oe d path False = Inr doc" "list_all edit_ok es" "doc' = fold edit_step es doc" "fits doc'"
    "sm_ini_write f se path doc' d = (Inr (), d')"
  shows "\<exists>back. sm_ini_read None d' path False = Inr back \<and> (\<forall>s k. sm_ini_get back s k = sm_ini_get doc' s k)"
proof -
  have "doc_ok [] doc'" using edits_ok [OF read_ok [OF assms(1)] assms(2)] assms(3) by simp
  from write_read [OF this assms(4,5)] show ?thesis by (auto simp: get_settings)
qed

definition sample_lines :: "string list" where
  "sample_lines = [''[scan] # where'', ''depth=1 ; one'', ''[api]'']"

definition sample_file :: disk where
  "sample_file = [''/data/config.ini'' \<mapsto> unlines sample_lines]"

definition sample_edits :: "edit list" where
  "sample_edits = [Set_Key ''scan'' ''depth'' (Some '' #2''), Append_Key ''fan'' ''target'' ''60'', Rename_Section ''api'' ''web'']"

text \<open>A value that needs quotes takes the place of one with a comment.\<close>

theorem ini_edits_survive_write_witness:
  "\<exists>doc back d'. sm_ini_read None sample_file ''/data/config.ini'' False = Inr doc
     \<and> sm_ini_write io_ok None ''/data/config.ini'' (fold edit_step sample_edits doc) sample_file = (Inr (), d')
     \<and> sm_ini_read None d' ''/data/config.ini'' False = Inr back
     \<and> sm_ini_get back ''scan'' ''depth'' = Some '' #2''"
proof -
  define doc where "doc = the (parse_bodies [] sample_lines)"
  define doc' where "doc' = fold edit_step sample_edits doc"
  have "parse_bodies [] sample_lines = Some doc" unfolding doc_def by code_simp
  moreover have "list_all plain sample_lines" by code_simp
  moreover have "length (unlines sample_lines) < 100" by code_simp
  ultimately have 1: "sm_ini_read None sample_file ''/data/config.ini'' False = Inr doc"
    using ini_lines_bodies [of "[]" sample_lines doc "[]"]
    by (simp add: sm_ini_read_def sample_file_def INI_MAX_BYTES_def INI_LINE_MAX_def INI_MAX_LINES_def sample_lines_def)
  have 2: "list_all edit_ok sample_edits" by code_simp
  have 3: "fits doc'" "sm_ini_get doc' ''scan'' ''depth'' = Some '' #2''" unfolding doc'_def doc_def by code_simp+
  have "case doc_text doc' of None \<Rightarrow> False | Some t \<Rightarrow> length t < 200" unfolding doc'_def doc_def by code_simp
  then obtain t where 4: "sm_ini_write io_ok None ''/data/config.ini'' doc' sample_file = (Inr (), sample_file(''/data/config.ini'' \<mapsto> t))"
    by (auto simp: sm_ini_write_def bounded_def io_ok_def sync_parent_def INI_MAX_BYTES_def split: option.splits)
  from ini_edits_survive_write [OF 1 2 doc'_def 3(1) 4] show ?thesis
    using 1 3(2) 4 unfolding doc'_def by metis
qed

subsection \<open>Names the format cannot carry\<close>

text \<open>A key that begins with a comment sign is accepted by \<open>sm_ini_set\<close>, but the line written for it is read as a comment.\<close>

lemma comment_key_is_lost:
  "fst (sm_ini_set [] ''scan'' ''#path'' (Some ''/data'')) = Inr ()
   \<and> map il_key (the (parse_bodies [] (doc_bodies (snd (sm_ini_set [] ''scan'' ''#path'' (Some ''/data'')))))) = [None, None, None]"
  by code_simp

text \<open>The tolerant reading skips malformed lines, but a line with an empty key fails the whole file.\<close>

lemma legacy_empty_key_fails: "parse_line True s ''=1'' = None" "parse_line True s ''[x'' = Some (None, s)"
  by code_simp+

end
