(* ===== verification/App_Db.thy ===== *)
theory App_Db
  imports App_Db_Titles Json
begin

text \<open>
  \<^verbatim>\<open>src/sm_appdb.c\<close>: access to the console's \<^verbatim>\<open>app.db\<close>. The write connection with its retry
  loops, the loading of title lists, the three caches in front of them, and the snapshot of
  game records.

  SQLite is not part of the sources. What it answers is in the arguments: \<open>db_env\<close> for a call on
  the write connection, by the number of the attempt, and \<open>query_env\<close> for a query on a
  connection of its own. A script of steps is what \<^verbatim>\<open>sqlite3_step\<close> answers, each with what
  \<^verbatim>\<open>should_stop_requested\<close> says before it; behind its end the answer is \<^verbatim>\<open>SQLITE_DONE\<close>.
  Each mutex makes the lines it covers one step; the line between the two critical sections of
  \<^verbatim>\<open>get_cached_app_db_title_list\<close> is where other threads may change the cache.
\<close>

datatype sqlite_rc = SQLITE_OK | SQLITE_ROW | SQLITE_DONE | SQLITE_BUSY | SQLITE_LOCKED | SQLITE_OTHER int

abbreviation APP_DB_STARTUP_MAINTENANCE_RETRIES :: nat where "APP_DB_STARTUP_MAINTENANCE_RETRIES \<equiv> 3"
abbreviation APP_DB_QUERY_BUSY_RETRIES :: nat where "APP_DB_QUERY_BUSY_RETRIES \<equiv> 3"
abbreviation APP_DB_UPDATE_BUSY_RETRIES :: nat where "APP_DB_UPDATE_BUSY_RETRIES \<equiv> 25"
abbreviation APP_DB_PREPARE_BUSY_RETRIES :: nat where "APP_DB_PREPARE_BUSY_RETRIES \<equiv> 25"

definition busy :: "sqlite_rc \<Rightarrow> bool" where
  "busy rc \<longleftrightarrow> rc = SQLITE_BUSY \<or> rc = SQLITE_LOCKED"

section \<open>The write connection\<close>

text \<open>\<open>de_open\<close>: \<open>None\<close> when opening succeeds, otherwise whether it leaves a handle; \<open>de_close\<close>: whether
  \<^verbatim>\<open>sqlite3_close_v2\<close> succeeds. A value of type \<open>bool\<close> is whether \<^verbatim>\<open>g_app_db\<close> is set.\<close>

record db_env =
  de_open :: "nat \<Rightarrow> bool option"
  de_close :: bool
  de_prepare :: "nat \<Rightarrow> sqlite_rc"
  de_exec :: "nat \<Rightarrow> sqlite_rc \<times> int"
  de_bind :: "nat \<Rightarrow> bool"
  de_step :: "nat \<Rightarrow> sqlite_rc \<times> int"
  de_stop :: "nat \<Rightarrow> bool"

definition close_sqlite_handle :: "bool \<Rightarrow> bool \<Rightarrow> bool \<times> bool" where
  "close_sqlite_handle close_ok handle = (if \<not> handle then (True, False) else if close_ok then (True, False) else (False, True))"

definition close_app_db :: "db_env \<Rightarrow> bool \<Rightarrow> bool" where
  "close_app_db e db = snd (close_sqlite_handle (de_close e) db)"

definition ensure_app_db_open :: "db_env \<Rightarrow> nat \<Rightarrow> bool \<Rightarrow> bool \<times> bool" where
  "ensure_app_db_open e attempt db =
     (if db then (True, True)
      else (case de_open e attempt of None \<Rightarrow> (True, True) | Some left \<Rightarrow> (False, close_app_db e left)))"

definition app_db_wait_retry :: "db_env \<Rightarrow> sqlite_rc \<Rightarrow> nat \<Rightarrow> nat \<Rightarrow> bool \<Rightarrow> bool \<Rightarrow> bool \<times> bool" where
  "app_db_wait_retry e rc attempt max_attempts close_before_retry db =
     (if \<not> busy rc then (False, db)
      else if attempt + 1 \<ge> max_attempts \<or> de_stop e attempt then (False, db)
      else (True, if close_before_retry then close_app_db e db else db))"

text \<open>The loops count \<open>attempt\<close> up to \<open>max_attempts\<close>; the last argument but one is what is left.\<close>

fun prepare_loop :: "db_env \<Rightarrow> nat \<Rightarrow> nat \<Rightarrow> nat \<Rightarrow> bool \<Rightarrow> sqlite_rc \<times> bool" where
  "prepare_loop e max_attempts attempt 0 db = (SQLITE_OTHER (-1), close_app_db e db)"
| "prepare_loop e max_attempts attempt (Suc n) db =
     (let (ok, db1) = ensure_app_db_open e attempt db in
      if \<not> ok then (SQLITE_OTHER (-1), db1)
      else if de_prepare e attempt = SQLITE_OK then (SQLITE_OK, db1)
      else
        (let (again, db2) = app_db_wait_retry e (de_prepare e attempt) attempt max_attempts True db1 in
         if again then prepare_loop e max_attempts (attempt + 1) n db2
         else (de_prepare e attempt, close_app_db e db2)))"

definition app_db_prepare_with_retry :: "db_env \<Rightarrow> nat \<Rightarrow> bool \<Rightarrow> sqlite_rc \<times> bool" where
  "app_db_prepare_with_retry e max_attempts db = prepare_loop e max_attempts 0 max_attempts db"

fun exec_loop :: "db_env \<Rightarrow> nat \<Rightarrow> nat \<Rightarrow> nat \<Rightarrow> bool \<Rightarrow> (bool \<times> int) \<times> bool" where
  "exec_loop e max_attempts attempt 0 db = ((False, 0), close_app_db e db)"
| "exec_loop e max_attempts attempt (Suc n) db =
     (let (ok, db1) = ensure_app_db_open e attempt db in
      if \<not> ok then ((False, 0), db1)
      else if fst (de_exec e attempt) = SQLITE_OK then ((True, snd (de_exec e attempt)), db1)
      else
        (let (again, db2) = app_db_wait_retry e (fst (de_exec e attempt)) attempt max_attempts False db1 in
         if again then exec_loop e max_attempts (attempt + 1) n db2
         else ((False, 0), close_app_db e db2)))"

definition app_db_exec_with_retry :: "db_env \<Rightarrow> nat \<Rightarrow> bool \<Rightarrow> (bool \<times> int) \<times> bool" where
  "app_db_exec_with_retry e max_attempts db = exec_loop e max_attempts 0 max_attempts db"

fun query_step_loop :: "db_env \<Rightarrow> nat \<Rightarrow> nat \<Rightarrow> bool \<Rightarrow> int \<times> bool" where
  "query_step_loop e attempt 0 db = (-1, db)"
| "query_step_loop e attempt (Suc n) db =
     (let (rc, v) = de_step e attempt in
      if rc = SQLITE_ROW then (v, db)
      else
        (let (again, db1) = app_db_wait_retry e rc attempt APP_DB_QUERY_BUSY_RETRIES False db in
         if again then query_step_loop e (attempt + 1) n db1 else (-1, db1)))"

definition app_db_query_int :: "db_env \<Rightarrow> bool \<Rightarrow> int \<times> bool" where
  "app_db_query_int e db =
     (case app_db_prepare_with_retry e APP_DB_STARTUP_MAINTENANCE_RETRIES db of
        (rc, db1) \<Rightarrow> if rc \<noteq> SQLITE_OK then (-1, db1) else query_step_loop e 0 APP_DB_QUERY_BUSY_RETRIES db1)"

definition app_db_run_startup_maintenance :: "db_env \<Rightarrow> bool \<Rightarrow> bool \<times> bool" where
  "app_db_run_startup_maintenance e db =
     (let (ok, db1) = ensure_app_db_open e 0 db in
      if \<not> ok then (False, db1)
      else
        (let (pending, db2) = app_db_query_int e db1 in
         if pending < 0 then (False, close_app_db e db2)
         else if pending > 0 then
           (let ((done1, changes), db3) = app_db_exec_with_retry e APP_DB_STARTUP_MAINTENANCE_RETRIES db2 in
            if \<not> done1 then (False, db3) else (True, close_app_db e db3))
         else (True, close_app_db e db2)))"

fun update_loop :: "db_env \<Rightarrow> nat \<Rightarrow> nat \<Rightarrow> bool \<Rightarrow> int \<times> bool" where
  "update_loop e attempt 0 db = (-1, db)"
| "update_loop e attempt (Suc n) db =
     (if \<not> de_bind e attempt then (-1, db)
      else
        (let (rc, changes) = de_step e attempt in
         if rc = SQLITE_DONE then (changes, db)
         else
           (let (again, db1) = app_db_wait_retry e rc attempt APP_DB_UPDATE_BUSY_RETRIES False db in
            if again then update_loop e (attempt + 1) n db1 else (-1, db1))))"

definition app_db_update_title :: "db_env \<Rightarrow> bool \<Rightarrow> int \<times> bool" where
  "app_db_update_title e db =
     (case app_db_prepare_with_retry e APP_DB_PREPARE_BUSY_RETRIES db of
        (rc, db1) \<Rightarrow>
          if rc \<noteq> SQLITE_OK then (-1, db1)
          else (let (result, db2) = update_loop e 0 APP_DB_UPDATE_BUSY_RETRIES db1 in (result, close_app_db e db2)))"

text \<open>The two updates differ in their SQL statement, that is, in what \<open>de_step\<close> does to the database.\<close>

definition update_snd0info :: "db_env \<Rightarrow> bool \<Rightarrow> int \<times> bool" where
  "update_snd0info e db = app_db_update_title e db"

definition normalize_snd0info_for_title :: "db_env \<Rightarrow> bool \<Rightarrow> int \<times> bool" where
  "normalize_snd0info_for_title e db = app_db_update_title e db"

section \<open>Loading a title list\<close>

type_synonym 'row script = "(bool \<times> sqlite_rc \<times> 'row) list"

fun step_app_db_title_query :: "nat \<Rightarrow> string option script \<Rightarrow> string list \<Rightarrow> bool \<times> string list" where
  "step_app_db_title_query busy_attempts [] ids = (True, ids)"
| "step_app_db_title_query busy_attempts ((stop, rc, title_id) # script) ids =
     (if stop then (False, ids)
      else if rc = SQLITE_ROW then step_app_db_title_query busy_attempts script (append_app_db_title ids title_id)
      else if rc = SQLITE_DONE then (True, ids)
      else if busy rc \<and> busy_attempts + 1 < APP_DB_QUERY_BUSY_RETRIES
      then step_app_db_title_query (busy_attempts + 1) script ids
      else (False, ids))"

record 'row query_env =
  qe_stop :: bool
  qe_open :: bool
  qe_prepare :: "nat \<Rightarrow> sqlite_rc"
  qe_prepare_stop :: "nat \<Rightarrow> bool"
  qe_script :: "'row script"
  qe_close :: bool

fun query_prepare_loop :: "'row query_env \<Rightarrow> nat \<Rightarrow> nat \<Rightarrow> sqlite_rc" where
  "query_prepare_loop q attempt 0 = qe_prepare q (attempt - 1)"
| "query_prepare_loop q attempt (Suc n) =
     (let rc = qe_prepare q attempt in
      if rc = SQLITE_OK then rc
      else if \<not> busy rc \<or> attempt + 1 \<ge> APP_DB_PREPARE_BUSY_RETRIES \<or> qe_prepare_stop q attempt then rc
      else query_prepare_loop q (attempt + 1) n)"

definition load_app_db_title_query :: "string option query_env \<Rightarrow> bool \<times> string list" where
  "load_app_db_title_query q =
     (if qe_stop q then (False, [])
      else if \<not> qe_open q then (False, [])
      else if query_prepare_loop q 0 APP_DB_PREPARE_BUSY_RETRIES \<noteq> SQLITE_OK then (False, [])
      else
        (let (loaded, ids) = step_app_db_title_query 0 (qe_script q) [] in
         if loaded \<and> qe_close q then (True, ids) else (False, [])))"

text \<open>The three lists, each with its SQL statement.\<close>

definition load_app_db_title_list :: "string option query_env \<Rightarrow> bool \<times> string list" where
  "load_app_db_title_list q = load_app_db_title_query q"

definition load_app_db_auto_remove_title_list :: "string option query_env \<Rightarrow> bool \<times> string list" where
  "load_app_db_auto_remove_title_list q = load_app_db_title_query q"

definition load_app_db_blocked_uninstall_ppsa_list :: "string option query_env \<Rightarrow> bool \<times> string list" where
  "load_app_db_blocked_uninstall_ppsa_list q = load_app_db_title_query q"

section \<open>The caches\<close>

record title_cache =
  tc_list :: "string list"
  tc_revision :: u64
  tc_mtime :: int
  tc_ready :: bool

record app_db =
  db_handle :: bool
  db_titles :: title_cache
  db_auto_remove :: title_cache
  db_blocked :: title_cache

definition app_db_init :: app_db where
  "app_db_init = (let c = \<lparr>tc_list = [], tc_revision = 0, tc_mtime = 0, tc_ready = False\<rparr>
     in \<lparr>db_handle = False, db_titles = c, db_auto_remove = c, db_blocked = c\<rparr>)"

definition free_app_db_title_list :: "title_cache \<Rightarrow> title_cache" where
  "free_app_db_title_list c = c\<lparr>tc_list := []\<rparr>"

definition invalidate_app_db_title_cache_entry :: "title_cache \<Rightarrow> title_cache" where
  "invalidate_app_db_title_cache_entry c = c\<lparr>tc_ready := False, tc_mtime := 0, tc_revision := tc_revision c + 1\<rparr>"

definition invalidate_app_db_title_cache :: "app_db \<Rightarrow> app_db" where
  "invalidate_app_db_title_cache s =
     s\<lparr>db_titles := invalidate_app_db_title_cache_entry (db_titles s),
       db_auto_remove := invalidate_app_db_title_cache_entry (db_auto_remove s),
       db_blocked := invalidate_app_db_title_cache_entry (db_blocked s)\<rparr>"

definition shutdown_app_db :: "db_env \<Rightarrow> app_db \<Rightarrow> app_db" where
  "shutdown_app_db e s =
     invalidate_app_db_title_cache
       (s\<lparr>db_handle := close_app_db e (db_handle s),
          db_titles := free_app_db_title_list (db_titles s),
          db_auto_remove := free_app_db_title_list (db_auto_remove s),
          db_blocked := free_app_db_title_list (db_blocked s)\<rparr>)"

definition copy_app_db_title_list :: "string list \<Rightarrow> string list" where
  "copy_app_db_title_list src = src"

text \<open>The two critical sections of \<^verbatim>\<open>get_cached_app_db_title_list\<close>. The first one answers from the cache or
  remembers the revision; \<open>mtime\<close> is what \<^verbatim>\<open>stat\<close> says of the file, \<open>None\<close> when it fails.\<close>

definition title_fetch_begin :: "bool \<Rightarrow> int option \<Rightarrow> title_cache \<Rightarrow> string list + u64" where
  "title_fetch_begin resume_grace mtime c =
     (if tc_ready c \<and> (resume_grace \<or> mtime = None \<or> tc_mtime c = the mtime)
      then Inl (copy_app_db_title_list (tc_list c)) else Inr (tc_revision c))"

definition title_fetch_finish ::
  "u64 \<Rightarrow> int option \<Rightarrow> bool \<times> string list \<Rightarrow> int option \<Rightarrow> title_cache \<Rightarrow> string list option \<times> title_cache" where
  "title_fetch_finish revision mtime load verified c =
     (let loaded = (mtime \<noteq> None \<and> fst load);
          source_unchanged = (loaded \<and> verified \<noteq> None \<and> verified = mtime);
          c' = (if source_unchanged \<and> tc_revision c = revision
                then c\<lparr>tc_list := snd load, tc_mtime := the mtime, tc_ready := True, tc_revision := tc_revision c + 1\<rparr>
                else c)
      in (if tc_ready c' then Some (copy_app_db_title_list (tc_list c')) else None, c'))"

text \<open>\<open>others\<close> is what other threads do to the cache between them.\<close>

definition get_cached_app_db_title_list ::
  "bool \<Rightarrow> int option \<Rightarrow> bool \<times> string list \<Rightarrow> int option \<Rightarrow> (title_cache \<Rightarrow> title_cache) \<Rightarrow> title_cache
   \<Rightarrow> string list option \<times> title_cache" where
  "get_cached_app_db_title_list resume_grace mtime load verified others c =
     (case title_fetch_begin resume_grace mtime c of
        Inl ids \<Rightarrow> (Some ids, c)
      | Inr revision \<Rightarrow> title_fetch_finish revision mtime load verified (others c))"

definition get_app_db_title_list_cached ::
  "bool \<Rightarrow> int option \<Rightarrow> string option query_env \<Rightarrow> int option \<Rightarrow> (title_cache \<Rightarrow> title_cache) \<Rightarrow> app_db
   \<Rightarrow> string list option \<times> app_db" where
  "get_app_db_title_list_cached grace mtime q verified others s =
     (let (r, c) = get_cached_app_db_title_list grace mtime (load_app_db_title_list q) verified others (db_titles s)
      in (r, s\<lparr>db_titles := c\<rparr>))"

definition get_app_db_auto_remove_title_list ::
  "bool \<Rightarrow> int option \<Rightarrow> string option query_env \<Rightarrow> int option \<Rightarrow> (title_cache \<Rightarrow> title_cache) \<Rightarrow> app_db
   \<Rightarrow> string list option \<times> app_db" where
  "get_app_db_auto_remove_title_list grace mtime q verified others s =
     (let (r, c) = get_cached_app_db_title_list grace mtime (load_app_db_auto_remove_title_list q) verified others (db_auto_remove s)
      in (r, s\<lparr>db_auto_remove := c\<rparr>))"

definition get_app_db_blocked_uninstall_ppsa_list ::
  "bool \<Rightarrow> int option \<Rightarrow> string option query_env \<Rightarrow> int option \<Rightarrow> (title_cache \<Rightarrow> title_cache) \<Rightarrow> app_db
   \<Rightarrow> string list option \<times> app_db" where
  "get_app_db_blocked_uninstall_ppsa_list grace mtime q verified others s =
     (let (r, c) = get_cached_app_db_title_list grace mtime (load_app_db_blocked_uninstall_ppsa_list q) verified others (db_blocked s)
      in (r, s\<lparr>db_blocked := c\<rparr>))"

section \<open>The snapshot of game records\<close>

text \<open>A row of \<^verbatim>\<open>tbl_contentinfo\<close>: text columns are \<open>None\<close> when they are \<open>NULL\<close>; \<open>row_app_info\<close> is
  what json-c makes of the text of \<^verbatim>\<open>AppInfoJson\<close>.\<close>

record content_row =
  row_title_id :: "string option"
  row_content_id :: "string option"
  row_title_name :: "string option"
  row_last_access_time :: "string option"
  row_install_time :: "string option"
  row_icon :: "string option"
  row_platform :: "int option"
  row_size :: int
  row_app_info :: "json option"
  row_metadata_path :: "string option"

definition copy_sqlite_text :: "string option \<Rightarrow> nat \<Rightarrow> string" where
  "copy_sqlite_text value out_size = strlcpy (case value of None \<Rightarrow> [] | Some s \<Rightarrow> s) out_size"

text \<open>Older databases keep the values as records with a \<^verbatim>\<open>key\<close> and a \<^verbatim>\<open>data\<close> member.\<close>

definition field_named :: "string \<Rightarrow> json \<Rightarrow> bool" where
  "field_named key field \<longleftrightarrow> object_member (Some field) ''key'' = Some (JString key)"

definition copy_json_string :: "json \<Rightarrow> string \<Rightarrow> nat \<Rightarrow> string option" where
  "copy_json_string object key out_size =
     (case object_member (Some object) key of
        Some v \<Rightarrow> json_text (Some v) out_size
      | None \<Rightarrow>
          (case object_member (Some object) ''field_list'' of
             Some (JArray fs) \<Rightarrow>
               json_text (case find (field_named key) fs of None \<Rightarrow> None | Some f \<Rightarrow> object_member (Some f) ''data'') out_size
           | _ \<Rightarrow> None))"

definition apply_app_info_metadata :: "json option \<Rightarrow> app_db_game_info \<Rightarrow> app_db_game_info" where
  "apply_app_info_metadata app_info entry =
     (case app_info of
        Some (JObject ms) \<Rightarrow>
          (let obj = JObject ms;
               keep = (\<lambda>key n old. case copy_json_string obj key n of None \<Rightarrow> old | Some s \<Rightarrow> s) in
           entry\<lparr>gi_last_access_time := keep ''#_last_access_time'' 64 (gi_last_access_time entry),
                 gi_install_time := keep ''#_install_time'' 64 (gi_install_time entry),
                 gi_version := (case copy_json_string obj ''CONTENT_VERSION'' 32 of
                                  Some s \<Rightarrow> s
                                | None \<Rightarrow> keep ''APP_VER'' 32 (gi_version entry))\<rparr>)
      | _ \<Rightarrow> entry)"

definition row_game_info :: "content_row \<Rightarrow> app_db_game_info" where
  "row_game_info row =
     (apply_app_info_metadata (row_app_info row)
        \<lparr>gi_title_id = copy_sqlite_text (row_title_id row) MAX_TITLE_ID,
         gi_content_id = copy_sqlite_text (row_content_id row) 128,
         gi_title_name = copy_sqlite_text (row_title_name row) MAX_TITLE_NAME,
         gi_version = [],
         gi_last_access_time = copy_sqlite_text (row_last_access_time row) 64,
         gi_install_time = copy_sqlite_text (row_install_time row) 64,
         gi_icon_path = copy_sqlite_text (row_icon row) MAX_PATH,
         gi_metadata_path = [],
         gi_platform = (case row_platform row of None \<Rightarrow> -1 | Some p \<Rightarrow> p),
         gi_installed_size = (if row_size row > 0 then word_of_int (row_size row) else 0)\<rparr>)
     \<lparr>gi_metadata_path := copy_sqlite_text (row_metadata_path row) MAX_PATH\<rparr>"

text \<open>A step of the script comes with what \<^verbatim>\<open>should_stop_requested\<close> or \<^verbatim>\<open>runtime_sleep_mode_active\<close> says before it;
  \<open>qe_stop\<close> is what they say at the end. On entry \<^verbatim>\<open>errno\<close> is 0.\<close>

fun snapshot_loop :: "nat \<Rightarrow> content_row script \<Rightarrow> app_db_game_info list \<Rightarrow> app_db_game_info list res" where
  "snapshot_loop busy_attempts [] entries = Inr entries"
| "snapshot_loop busy_attempts ((stop, rc, row) # script) entries =
     (if stop then Inl E_UNSET
      else if rc = SQLITE_ROW then snapshot_loop 0 script (entries @ [row_game_info row])
      else if rc = SQLITE_DONE then Inr entries
      else if busy rc \<and> busy_attempts + 1 < APP_DB_QUERY_BUSY_RETRIES
      then snapshot_loop (busy_attempts + 1) script entries
      else Inl EIO)"

definition app_db_game_info_snapshot :: "content_row query_env \<Rightarrow> app_db_game_info list res" where
  "app_db_game_info_snapshot q =
     (if \<not> qe_open q then Inl EIO
      else if qe_prepare q 0 \<noteq> SQLITE_OK then Inl EIO
      else
        (case snapshot_loop 0 (qe_script q) [] of
           Inl e \<Rightarrow> Inl (if qe_stop q then ECANCELED else if e = E_UNSET then EIO else e)
         | Inr entries \<Rightarrow>
             if \<not> qe_close q then Inl (if qe_stop q then ECANCELED else EIO) else Inr entries))"

section \<open>The write connection is released\<close>

lemma close_app_db_closes: "de_close e \<Longrightarrow> close_app_db e db = False"
  by (simp add: close_app_db_def close_sqlite_handle_def)

lemma prepare_loop_closed: "de_close e \<Longrightarrow> fst (prepare_loop e m a n db) \<noteq> SQLITE_OK \<Longrightarrow> snd (prepare_loop e m a n db) = False"
  by (induction n arbitrary: a db)
    (auto simp: Let_def ensure_app_db_open_def close_app_db_closes split: prod.splits option.splits if_splits)

lemma exec_loop_closed: "de_close e \<Longrightarrow> \<not> fst (fst (exec_loop e m a n db)) \<Longrightarrow> snd (exec_loop e m a n db) = False"
  by (induction n arbitrary: a db)
    (auto simp: Let_def ensure_app_db_open_def close_app_db_closes split: prod.splits option.splits if_splits)

lemma exec_failed_closed: "de_close e \<Longrightarrow> exec_loop e m a n db = ((False, k), db') \<Longrightarrow> \<not> db'"
  using exec_loop_closed [of e m a n db] by simp

text \<open>An update is repeated only while the database is busy, and reports what its last attempt did.\<close>

lemma update_loop_result:
  "fst (update_loop e a n db) = k \<Longrightarrow> k \<noteq> -1 \<Longrightarrow>
     \<exists>i. a \<le> i \<and> i < a + n \<and> de_step e i = (SQLITE_DONE, k) \<and> (\<forall>j. a \<le> j \<longrightarrow> j < i \<longrightarrow> busy (fst (de_step e j)))"
proof (induction n arbitrary: a db)
  case (Suc n)
  obtain rc changes where st: "de_step e a = (rc, changes)" by fastforce
  show ?case
  proof (cases "rc = SQLITE_DONE")
    case True
    then show ?thesis using Suc.prems st by (intro exI [of _ a]) (auto split: if_splits)
  next
    case False
    obtain again db1 where w: "app_db_wait_retry e rc a APP_DB_UPDATE_BUSY_RETRIES False db = (again, db1)" by fastforce
    have again: "again" "fst (update_loop e (a + 1) n db1) = k" using Suc.prems st False w by (auto split: if_splits)
    have "busy rc" using w again(1) by (auto simp: app_db_wait_retry_def split: if_splits)
    moreover obtain i where "a + 1 \<le> i" "i < a + 1 + n" "de_step e i = (SQLITE_DONE, k)"
      "\<forall>j. a + 1 \<le> j \<longrightarrow> j < i \<longrightarrow> busy (fst (de_step e j))" using Suc.IH [OF again(2) Suc.prems(2)] by blast
    ultimately show ?thesis using st by (intro exI [of _ i]) (auto simp: le_Suc_eq Suc_le_eq nat_less_le)
  qed
qed simp

text \<open>
  C17. The write connection to \<^verbatim>\<open>app.db\<close>: every operation that uses it leaves it closed, whatever SQLite
  answers (as long as closing works), so the console is never kept out; and an update of a title reports a
  number of rows only if one of its 25 attempts completed with it, every earlier one having been refused because
  the database was busy.
\<close>
theorem app_db_connection_released:
  assumes "de_close e"
  shows "\<not> snd (app_db_run_startup_maintenance e db) \<and> \<not> snd (update_snd0info e db) \<and> \<not> snd (normalize_snd0info_for_title e db)
    \<and> (fst (update_snd0info e db) \<noteq> -1 \<longrightarrow>
        (\<exists>i < APP_DB_UPDATE_BUSY_RETRIES. de_step e i = (SQLITE_DONE, fst (update_snd0info e db)) \<and> (\<forall>j < i. busy (fst (de_step e j)))))"
proof -
  have u: "\<not> snd (app_db_update_title e db)"
    using prepare_loop_closed [OF assms, of APP_DB_PREPARE_BUSY_RETRIES 0 APP_DB_PREPARE_BUSY_RETRIES db]
    by (auto simp: app_db_update_title_def app_db_prepare_with_retry_def close_app_db_closes [OF assms] split: prod.splits)
  have m: "\<not> snd (app_db_run_startup_maintenance e db)"
    by (auto dest: exec_failed_closed [OF assms] simp: app_db_run_startup_maintenance_def app_db_exec_with_retry_def close_app_db_closes [OF assms]
        ensure_app_db_open_def Let_def split: prod.splits option.splits)
  have "\<exists>i < APP_DB_UPDATE_BUSY_RETRIES. de_step e i = (SQLITE_DONE, k) \<and> (\<forall>j < i. busy (fst (de_step e j)))"
    if k: "k = fst (app_db_update_title e db)" "k \<noteq> -1" for k
  proof -
    obtain rc db1 where p: "app_db_prepare_with_retry e APP_DB_PREPARE_BUSY_RETRIES db = (rc, db1)" by fastforce
    have "fst (update_loop e 0 APP_DB_UPDATE_BUSY_RETRIES db1) = k"
      using k p by (auto simp: app_db_update_title_def split: if_splits prod.splits)
    from update_loop_result [OF this k(2)] show ?thesis by auto
  qed
  then show ?thesis using u m by (simp add: update_snd0info_def normalize_snd0info_for_title_def)
qed

definition sample_db_env :: db_env where
  "sample_db_env = \<lparr>de_open = (\<lambda>_. None), de_close = True, de_prepare = (\<lambda>_. SQLITE_OK), de_exec = (\<lambda>_. (SQLITE_OK, 1)),
     de_bind = (\<lambda>_. True), de_step = (\<lambda>i. if i < 2 then (SQLITE_BUSY, 0) else (SQLITE_DONE, 7)), de_stop = (\<lambda>_. False)\<rparr>"

text \<open>The update goes through at the third attempt.\<close>

theorem app_db_connection_released_witness:
  "\<not> snd (update_snd0info sample_db_env False) \<and> fst (update_snd0info sample_db_env False) = 7
   \<and> (\<exists>i < APP_DB_UPDATE_BUSY_RETRIES. de_step sample_db_env i = (SQLITE_DONE, 7))"
proof -
  have "de_close sample_db_env" by (simp add: sample_db_env_def)
  moreover have "fst (update_snd0info sample_db_env False) = 7" by code_simp
  ultimately show ?thesis using app_db_connection_released [of sample_db_env False] by force
qed

section \<open>A load that an invalidation overtook is dropped\<close>

text \<open>A cache with the fetches that are between their two critical sections. A fetch carries the
  revision it remembered and, for the statement only, the number of revisions there had been
  when it began. \<open>fs_invalidated\<close> is that number after the latest invalidation, \<open>fs_loaded\<close> the one of
  the fetch whose list is in the cache.\<close>

record fetch_state =
  fs_cache :: title_cache
  fs_flights :: "(u64 \<times> nat) list"
  fs_bumps :: nat
  fs_invalidated :: nat
  fs_loaded :: nat

definition fetch_start :: fetch_state where
  "fetch_start = \<lparr>fs_cache = db_titles app_db_init, fs_flights = [], fs_bumps = 0, fs_invalidated = 0, fs_loaded = 0\<rparr>"

definition fetch_invalidate :: "fetch_state \<Rightarrow> fetch_state" where
  "fetch_invalidate s = s\<lparr>fs_cache := invalidate_app_db_title_cache_entry (fs_cache s), fs_bumps := fs_bumps s + 1,
     fs_invalidated := fs_bumps s + 1\<rparr>"

definition fetch_finish :: "u64 \<Rightarrow> nat \<Rightarrow> int option \<Rightarrow> bool \<times> string list \<Rightarrow> int option \<Rightarrow> fetch_state \<Rightarrow> fetch_state" where
  "fetch_finish r n mtime load verified s =
     (let c = snd (title_fetch_finish r mtime load verified (fs_cache s)) in
      if tc_revision c = tc_revision (fs_cache s) then s\<lparr>fs_cache := c, fs_flights := remove1 (r, n) (fs_flights s)\<rparr>
      else s\<lparr>fs_cache := c, fs_flights := remove1 (r, n) (fs_flights s), fs_bumps := fs_bumps s + 1, fs_loaded := n\<rparr>)"

inductive fetch_reach :: "fetch_state \<Rightarrow> bool" where
  start: "fetch_reach fetch_start"
| invalidate: "fetch_reach s \<Longrightarrow> fetch_reach (fetch_invalidate s)"
| begin_fetch: "fetch_reach s \<Longrightarrow> title_fetch_begin grace mtime (fs_cache s) = Inr r
    \<Longrightarrow> fetch_reach (s\<lparr>fs_flights := (r, fs_bumps s) # fs_flights s\<rparr>)"
| finish: "fetch_reach s \<Longrightarrow> (r, n) \<in> set (fs_flights s) \<Longrightarrow> fetch_reach (fetch_finish r n mtime load verified s)"

definition fetch_inv :: "fetch_state \<Rightarrow> bool" where
  "fetch_inv s \<longleftrightarrow> tc_revision (fs_cache s) = of_nat (fs_bumps s) \<and> fs_invalidated s \<le> fs_bumps s
     \<and> (\<forall>(r, n) \<in> set (fs_flights s). r = of_nat n \<and> n \<le> fs_bumps s)
     \<and> (fs_bumps s < 2 ^ 64 \<longrightarrow> tc_ready (fs_cache s) \<longrightarrow> fs_invalidated s \<le> fs_loaded s)"

lemma of_nat_u64_inj: "m \<le> n \<Longrightarrow> n < 2 ^ 64 \<Longrightarrow> (of_nat m :: u64) = of_nat n \<Longrightarrow> m = n"
  by (simp add: word_of_nat_eq_iff take_bit_nat_eq_self)

lemma fetch_finish_inv:
  assumes "fetch_inv s" "(r, n) \<in> set (fs_flights s)"
  shows "fetch_inv (fetch_finish r n mtime load verified s)"
proof -
  define c where "c = snd (title_fetch_finish r mtime load verified (fs_cache s))"
  have c: "c = fs_cache s \<or> tc_revision (fs_cache s) = r \<and> tc_revision c = tc_revision (fs_cache s) + 1"
    by (auto simp: c_def title_fetch_finish_def Let_def)
  have r: "r = of_nat n" "n \<le> fs_bumps s" using assms by (auto simp: fetch_inv_def)
  have rest: "set (remove1 (r, n) (fs_flights s)) \<subseteq> set (fs_flights s)" by (rule set_remove1_subset)
  show ?thesis
  proof (cases "tc_revision c = tc_revision (fs_cache s)")
    case True
    then have "c = fs_cache s" using c by auto
    then show ?thesis using assms(1) rest
      by (auto simp: fetch_finish_def fetch_inv_def c_def [symmetric] Let_def)
  next
    case False
    then have "tc_revision (fs_cache s) = r" "tc_revision c = tc_revision (fs_cache s) + 1" using c by auto
    moreover from this(1) have "n = fs_bumps s" if "fs_bumps s < 2 ^ 64"
      using of_nat_u64_inj [OF r(2) that] assms(1) r(1) by (simp add: fetch_inv_def)
    moreover have "fetch_finish r n mtime load verified s =
        s\<lparr>fs_cache := c, fs_flights := remove1 (r, n) (fs_flights s), fs_bumps := fs_bumps s + 1, fs_loaded := n\<rparr>"
      using False by (simp add: fetch_finish_def c_def Let_def)
    moreover have "\<forall>(r', n') \<in> set (remove1 (r, n) (fs_flights s)). r' = of_nat n' \<and> n' \<le> fs_bumps s + 1"
      using assms(1) rest by (fastforce simp: fetch_inv_def)
    ultimately show ?thesis using assms(1) by (auto simp: fetch_inv_def)
  qed
qed

lemma fetch_reach_inv: "fetch_reach s \<Longrightarrow> fetch_inv s"
proof (induction rule: fetch_reach.induct)
  case (invalidate s)
  then show ?case
    by (fastforce simp: fetch_inv_def fetch_invalidate_def invalidate_app_db_title_cache_entry_def)
next
  case (begin_fetch s grace mtime r)
  then show ?case by (auto simp: fetch_inv_def title_fetch_begin_def split: if_splits)
next
  case start
  show ?case by (simp add: fetch_inv_def fetch_start_def app_db_init_def Let_def)
next
  case (finish s r n mtime load verified)
  show ?case by (rule fetch_finish_inv [OF finish.IH finish.hyps(2)])
qed

text \<open>
  C16. The title caches under concurrency: however fetches and invalidations of a cache interleave, a list that
  is in a ready cache was read by a fetch that began after the latest invalidation. A fetch that an
  invalidation overtakes is not published, although it finishes later (fewer than \<open>2 ^ 64\<close> revisions).
\<close>
theorem app_db_stale_load_dropped:
  assumes "fetch_reach s" "fs_bumps s < 2 ^ 64" "tc_ready (fs_cache s)"
  shows "fs_invalidated s \<le> fs_loaded s"
  using fetch_reach_inv [OF assms(1)] assms(2,3) by (simp add: fetch_inv_def)

text \<open>A fetch that begins behind an invalidation fills the cache.\<close>

theorem app_db_stale_load_dropped_witness:
  "\<exists>s. fetch_reach s \<and> tc_ready (fs_cache s) \<and> tc_list (fs_cache s) = [''PPSA00001''] \<and> fs_invalidated s = 1 \<and> fs_invalidated s \<le> fs_loaded s"
proof -
  let ?a = "fetch_invalidate fetch_start"
  let ?b = "?a\<lparr>fs_flights := (1, fs_bumps ?a) # fs_flights ?a\<rparr>"
  let ?c = "fetch_finish 1 1 (Some 5) (True, [''PPSA00001'']) (Some 5) ?b"
  have "title_fetch_begin False (Some 5) (fs_cache ?a) = Inr 1" by code_simp
  then have b: "fetch_reach ?b" by (intro fetch_reach.begin_fetch fetch_reach.invalidate fetch_reach.start)
  have "(1, 1) \<in> set (fs_flights ?b)" by (simp add: fetch_invalidate_def fetch_start_def)
  from fetch_reach.finish [OF b this] have c: "fetch_reach ?c" .
  have v: "fs_bumps ?c < 2 ^ 64" "tc_ready (fs_cache ?c)" "tc_list (fs_cache ?c) = [''PPSA00001'']" "fs_invalidated ?c = 1"
    by (simp_all add: fetch_finish_def fetch_invalidate_def fetch_start_def title_fetch_finish_def app_db_init_def
        invalidate_app_db_title_cache_entry_def copy_app_db_title_list_def Let_def)
  show ?thesis using app_db_stale_load_dropped [OF c v(1,2)] c v by blast
qed

section \<open>Searching what was loaded\<close>

text \<open>The rows a statement delivers until it is done, and the titles in them.\<close>

fun script_rows :: "'row script \<Rightarrow> 'row list" where
  "script_rows [] = []"
| "script_rows ((_, rc, row) # script) =
     (if rc = SQLITE_ROW then row # script_rows script else if rc = SQLITE_DONE then [] else script_rows script)"

definition script_titles :: "string option script \<Rightarrow> string list" where
  "script_titles script = filter (\<lambda>t. t \<noteq> []) (map (\<lambda>t. case t of None \<Rightarrow> [] | Some x \<Rightarrow> x) (script_rows script))"

lemma append_app_db_title_text:
  "append_app_db_title ids t =
     ids @ map (\<lambda>x. strlcpy x MAX_TITLE_ID) (filter (\<lambda>x. x \<noteq> []) [case t of None \<Rightarrow> [] | Some x \<Rightarrow> x])"
  by (simp add: append_app_db_title_def split: option.split)

lemma step_title_query_ids:
  "step_app_db_title_query b script ids = (True, ids') \<Longrightarrow> ids' = ids @ map (\<lambda>x. strlcpy x MAX_TITLE_ID) (script_titles script)"
proof (induction b script ids rule: step_app_db_title_query.induct)
  case (2 b stop rc title_id script ids)
  then show ?case
    by (cases "rc = SQLITE_ROW"; cases "rc = SQLITE_DONE")
      (auto simp: script_titles_def append_app_db_title_text split: if_splits)
qed (simp add: script_titles_def)

lemma snapshot_loop_entries:
  "snapshot_loop b script es = Inr es' \<Longrightarrow> es' = es @ map row_game_info (script_rows script)"
  by (induction b script es rule: snapshot_loop.induct) (auto split: if_splits)

lemma row_game_info_id: "gi_title_id (row_game_info row) = strlcpy (case row_title_id row of None \<Rightarrow> [] | Some x \<Rightarrow> x) MAX_TITLE_ID"
  by (simp add: row_game_info_def apply_app_info_metadata_def copy_sqlite_text_def Let_def split: option.split json.split)

text \<open>
  C18. Searching \<^verbatim>\<open>app.db\<close> data: SQLite delivers the rows ordered by title id, as the statements ask for. Then the
  binary search in a loaded title list answers exactly whether a row had the title (its first 31 bytes), and the
  binary search in a snapshot of game records gives the record of the first row with the title, or none.
\<close>
theorem app_db_lookup_is_search:
  assumes "load_app_db_title_query q = (True, ids)" "sorted (script_titles (qe_script q))"
    and "app_db_game_info_snapshot q' = Inr entries"
      "sorted (map (\<lambda>r. case row_title_id r of None \<Rightarrow> [] | Some x \<Rightarrow> x) (script_rows (qe_script q')))"
  shows "(app_db_title_list_contains ids t \<longleftrightarrow> t \<in> (\<lambda>x. strlcpy x MAX_TITLE_ID) ` set (script_titles (qe_script q)))
    \<and> app_db_find_game_info entries t = find (\<lambda>e. gi_title_id e = t) (map row_game_info (script_rows (qe_script q')))"
proof -
  obtain loaded ids1 where st: "step_app_db_title_query 0 (qe_script q) [] = (loaded, ids1)" by fastforce
  then have "loaded" "ids1 = ids"
    using assms(1) by (auto simp: load_app_db_title_query_def split: if_splits prod.splits)
  with st have ids: "ids = map (\<lambda>x. strlcpy x MAX_TITLE_ID) (script_titles (qe_script q))"
    using step_title_query_ids [of 0 "qe_script q" "[]"] by simp
  then have "sorted ids" using strlcpy_sorted assms(2) by blast
  then have found: "app_db_title_list_contains ids t \<longleftrightarrow> t \<in> (\<lambda>x. strlcpy x MAX_TITLE_ID) ` set (script_titles (qe_script q))"
    using contains_iff ids by simp
  have es: "entries = map row_game_info (script_rows (qe_script q'))"
    using assms(3) snapshot_loop_entries [of 0 "qe_script q'" "[]"]
    by (auto simp: app_db_game_info_snapshot_def split: if_splits sum.splits)
  then have "sorted (map gi_title_id entries)"
    using strlcpy_sorted [OF assms(4), of MAX_TITLE_ID] by (simp add: row_game_info_id [abs_def] o_def)
  then show ?thesis using found find_game_info_first es by simp
qed

definition sample_title_query :: "string option query_env" where
  "sample_title_query = \<lparr>qe_stop = False, qe_open = True, qe_prepare = (\<lambda>_. SQLITE_OK), qe_prepare_stop = (\<lambda>_. False),
     qe_script = [(False, SQLITE_ROW, Some ''CUSA00001''), (False, SQLITE_BUSY, None), (False, SQLITE_ROW, Some ''PPSA00001'')],
     qe_close = True\<rparr>"

definition sample_row :: "string \<Rightarrow> content_row" where
  "sample_row t = \<lparr>row_title_id = Some t, row_content_id = None, row_title_name = Some ''Game'', row_last_access_time = None,
     row_install_time = None, row_icon = None, row_platform = None, row_size = 5,
     row_app_info = Some (JObject [(''APP_VER'', JString ''01.00'')]), row_metadata_path = None\<rparr>"

definition sample_game_query :: "content_row query_env" where
  "sample_game_query = \<lparr>qe_stop = False, qe_open = True, qe_prepare = (\<lambda>_. SQLITE_OK), qe_prepare_stop = (\<lambda>_. False),
     qe_script = [(False, SQLITE_ROW, sample_row ''CUSA00001''), (False, SQLITE_ROW, sample_row ''PPSA00001'')], qe_close = True\<rparr>"

theorem app_db_lookup_is_search_witness:
  "app_db_title_list_contains (snd (load_app_db_title_query sample_title_query)) ''PPSA00001''
   \<and> app_db_find_game_info (projr (app_db_game_info_snapshot sample_game_query)) ''PPSA00001'' = Some (row_game_info (sample_row ''PPSA00001''))"
proof -
  have 1: "load_app_db_title_query sample_title_query = (True, snd (load_app_db_title_query sample_title_query))" by code_simp
  have 2: "sorted (script_titles (qe_script sample_title_query))"
    by (simp add: sample_title_query_def script_titles_def less_eq_char_def)
  have 3: "app_db_game_info_snapshot sample_game_query = Inr (projr (app_db_game_info_snapshot sample_game_query))" by code_simp
  have 4: "sorted (map (\<lambda>r. case row_title_id r of None \<Rightarrow> [] | Some x \<Rightarrow> x) (script_rows (qe_script sample_game_query)))"
    by (simp add: sample_game_query_def sample_row_def less_eq_char_def)
  note lookup = app_db_lookup_is_search [OF 1 2 3 4, of "''PPSA00001''"]
  have "''PPSA00001'' \<in> (\<lambda>x. strlcpy x MAX_TITLE_ID) ` set (script_titles (qe_script sample_title_query))"
    by (simp add: sample_title_query_def script_titles_def strlcpy_def)
  moreover have "find (\<lambda>e. gi_title_id e = ''PPSA00001'') (map row_game_info (script_rows (qe_script sample_game_query)))
      = Some (row_game_info (sample_row ''PPSA00001''))"
    by (simp add: sample_game_query_def row_game_info_id sample_row_def strlcpy_def)
  ultimately show ?thesis using lookup by simp
qed

end
