(* ===== verification/Image_Profile.thy ===== *)
theory Image_Profile
  imports Image_Cache
begin

text \<open>
  The decisions of \<^verbatim>\<open>src/sm_image.c\<close> that need no system call: what kind of image a file is, where it
  is mounted, and the parameters its device is attached and mounted with.

  \<open>image_config\<close> has the fields of \<^verbatim>\<open>runtime_config_t\<close> that the image code reads, and the two
  look-ups of the configuration it makes: the mode and the sector size set for one image by its
  file name. The size of \<^verbatim>\<open>f_mntonname\<close> in \<^verbatim>\<open>struct statfs\<close> is the argument \<open>mnamelen\<close>.
\<close>

type_synonym u16 = "16 word"

datatype image_fs_type = IMAGE_FS_UNKNOWN | IMAGE_FS_UFS | IMAGE_FS_EXFAT | IMAGE_FS_PFS | IMAGE_FS_PFSC_CONTAINER

text \<open>What \<^verbatim>\<open>statfs\<close> tells of a mounted file system.\<close>

record statfs_buf =
  f_mntonname :: string
  f_mntfromname :: string
  f_fstypename :: string
  f_bsize :: u64
  f_iosize :: u64
  f_rdonly :: bool

record image_config =
  stability_wait_seconds :: u32
  mount_read_only :: bool
  force_mount :: bool
  exfat_backend :: attach_backend
  ufs_backend :: attach_backend
  nested_pfs_index_cache_enabled :: bool
  lvd_sector_exfat :: u32
  lvd_sector_ufs :: u32
  lvd_sector_pfs :: u32
  md_sector_exfat :: u32
  md_sector_ufs :: u32
  image_mode_override :: "string \<Rightarrow> bool option"
  image_sector_size_override :: "string \<Rightarrow> u32 option"

section \<open>Kinds of images\<close>

text \<open>\<^verbatim>\<open>strrchr(name, '.')\<close>.\<close>

definition last_dot :: "string \<Rightarrow> string option" where
  "last_dot name = (if CHR ''.'' \<in> set name then Some (CHR ''.'' # after_last (CHR ''.'') name) else None)"

definition detect_image_fs_type :: "string \<Rightarrow> image_fs_type" where
  "detect_image_fs_type name =
     (case last_dot name of
        None \<Rightarrow> IMAGE_FS_UNKNOWN
      | Some dot \<Rightarrow>
          if strcaseeq dot ''.ffpkg'' then IMAGE_FS_UFS
          else if strcaseeq dot ''.exfat'' then IMAGE_FS_EXFAT
          else if strcaseeq dot ''.ffpfs'' then IMAGE_FS_PFS
          else if strcaseeq dot ''.ffpfsc'' then IMAGE_FS_PFSC_CONTAINER
          else IMAGE_FS_UNKNOWN)"

definition is_nested_pfs_image_file_name :: "string \<Rightarrow> bool" where
  "is_nested_pfs_image_file_name name = strcaseeq name ''pfs_image.dat''"

definition detect_image_fs_type_for_path :: "string \<Rightarrow> string option \<Rightarrow> image_fs_type" where
  "detect_image_fs_type_for_path p name =
     (let filename = (case name of Some n \<Rightarrow> if n = [] then get_filename_component p else n | None \<Rightarrow> get_filename_component p);
          fs_type = detect_image_fs_type filename
      in if fs_type \<noteq> IMAGE_FS_UNKNOWN then fs_type
         else if is_nested_pfs_image_file_name filename \<and> is_pfsc_image_mount_base_or_child p then IMAGE_FS_PFS
         else IMAGE_FS_UNKNOWN)"

definition is_supported_image_file_name :: "string \<Rightarrow> bool" where
  "is_supported_image_file_name name \<longleftrightarrow> detect_image_fs_type name \<noteq> IMAGE_FS_UNKNOWN"

definition is_supported_image_file_path :: "string \<Rightarrow> string \<Rightarrow> bool" where
  "is_supported_image_file_path full_path name \<longleftrightarrow> detect_image_fs_type_for_path full_path (Some name) \<noteq> IMAGE_FS_UNKNOWN"

definition image_fs_name :: "image_fs_type \<Rightarrow> string" where
  "image_fs_name t = (case t of IMAGE_FS_UFS \<Rightarrow> ''ufs'' | IMAGE_FS_EXFAT \<Rightarrow> ''exfatfs'' | IMAGE_FS_PFS \<Rightarrow> ''pfs''
     | IMAGE_FS_PFSC_CONTAINER \<Rightarrow> ''pfsc'' | IMAGE_FS_UNKNOWN \<Rightarrow> ''unknown'')"

definition image_fs_type_name_for_path :: "string \<Rightarrow> string" where
  "image_fs_type_name_for_path p = image_fs_name (detect_image_fs_type_for_path p None)"

definition image_fs_type_is_pfs :: "image_fs_type \<Rightarrow> bool" where
  "image_fs_type_is_pfs t \<longleftrightarrow> t = IMAGE_FS_PFS \<or> t = IMAGE_FS_PFSC_CONTAINER"

definition pfs_path_is_nested_inner :: "string \<Rightarrow> image_fs_type \<Rightarrow> bool" where
  "pfs_path_is_nested_inner p t \<longleftrightarrow> t = IMAGE_FS_PFS \<and> is_pfsc_image_mount_base_or_child p"

definition pfs_path_uses_nested_profile :: "string \<Rightarrow> image_fs_type \<Rightarrow> bool" where
  "pfs_path_uses_nested_profile p t \<longleftrightarrow> t = IMAGE_FS_PFSC_CONTAINER \<or> pfs_path_is_nested_inner p t"

section \<open>Mount points\<close>

definition strip_extension :: "string \<Rightarrow> nat \<Rightarrow> string" where
  "strip_extension filename out_size =
     take (out_size - 1)
       (if CHR ''.'' \<in> set filename then take (length filename - length (after_last (CHR ''.'') filename) - 1) filename
        else filename)"

text \<open>\<^verbatim>\<open>%08x\<close>.\<close>

definition hex_digit :: "nat \<Rightarrow> char" where
  "hex_digit d = (if d < 10 then char_of (48 + d) else char_of (87 + d))"

definition hex8 :: "u32 \<Rightarrow> string" where
  "hex8 h = map (\<lambda>i. hex_digit (unat h div 16 ^ i mod 16)) (rev [0..<8])"

definition mount_base_of :: "image_fs_type \<Rightarrow> string" where
  "mount_base_of t = (if t = IMAGE_FS_PFSC_CONTAINER then PFSC_IMAGE_MOUNT_BASE else IMAGE_MOUNT_BASE)"

definition build_image_mount_point_for_fs :: "nat \<Rightarrow> string \<Rightarrow> image_fs_type \<Rightarrow> string" where
  "build_image_mount_point_for_fs mnamelen file_path t =
     (let base_name = strip_extension (get_filename_component file_path) MAX_PATH;
          base = mount_base_of t;
          max_base_len = mnamelen - length base - 11
      in take (MAX_PATH - 1) (base @ ''/'' @ take max_base_len base_name @ ''_'' @ hex8 (sm_fnv1a32 file_path)))"

definition build_image_mount_point :: "nat \<Rightarrow> string \<Rightarrow> string" where
  "build_image_mount_point mnamelen file_path =
     build_image_mount_point_for_fs mnamelen file_path (detect_image_fs_type_for_path file_path None)"

definition get_image_mount_point_for_source :: "nat \<Rightarrow> string \<Rightarrow> string" where
  "get_image_mount_point_for_source mnamelen file_path = build_image_mount_point mnamelen file_path"

section \<open>Device parameters\<close>

definition PFS_NESTED_OUTER_IMG_TYPE :: u8 where "PFS_NESTED_OUTER_IMG_TYPE = 0x02"
definition PFS_NESTED_INNER_IMG_TYPE :: u8 where "PFS_NESTED_INNER_IMG_TYPE = 0x82"

definition get_nested_pfs_img_type :: "string \<Rightarrow> image_fs_type \<Rightarrow> u8" where
  "get_nested_pfs_img_type p t = (if pfs_path_is_nested_inner p t then PFS_NESTED_INNER_IMG_TYPE else PFS_NESTED_OUTER_IMG_TYPE)"

definition pfs_lvd_game_image_type_from_selector :: "u8 \<Rightarrow> u16" where
  "pfs_lvd_game_image_type_from_selector selector =
     (let idx = ((drop_bit 7 (ucast selector) AND 1) + 2 * (ucast selector AND 0x1F)) XOR (1 :: u32)
      in if idx \<ge> 8 then 5 else [1, 2, 3, 4, 8, 9, 10, 11] ! unat idx)"

record image_mount_profile =
  legacy :: bool
  nested_backing_cache :: bool

definition get_image_mount_profile :: "image_config \<Rightarrow> string \<Rightarrow> image_fs_type \<Rightarrow> image_mount_profile" where
  "get_image_mount_profile cfg file_path t =
     (let optimized_source = (path_matches_root_or_child file_path ''/data'' \<or> path_matches_root_or_child file_path ''/user'');
          path_selected_profile = (t = IMAGE_FS_UFS \<or> t = IMAGE_FS_EXFAT \<or> (t = IMAGE_FS_PFS \<and> \<not> pfs_path_is_nested_inner file_path t))
      in \<lparr>legacy = (pfs_path_uses_nested_profile file_path t \<or> path_selected_profile \<and> \<not> optimized_source),
          nested_backing_cache = nested_pfs_index_cache_enabled cfg\<rparr>)"

definition should_prepare_nested_backing_cache :: "image_mount_profile \<Rightarrow> string \<Rightarrow> bool" where
  "should_prepare_nested_backing_cache profile p \<longleftrightarrow> nested_backing_cache profile \<and> is_pfsc_image_mount_base_or_child p"

definition get_lvd_sector_size_fallback :: "image_config \<Rightarrow> image_fs_type \<Rightarrow> u32" where
  "get_lvd_sector_size_fallback cfg t =
     (case t of IMAGE_FS_UFS \<Rightarrow> lvd_sector_ufs cfg | IMAGE_FS_PFS \<Rightarrow> lvd_sector_pfs cfg
      | IMAGE_FS_PFSC_CONTAINER \<Rightarrow> lvd_sector_pfs cfg | _ \<Rightarrow> lvd_sector_exfat cfg)"

definition get_image_sector_size_override_or_default :: "image_config \<Rightarrow> string \<Rightarrow> u32 \<Rightarrow> u32" where
  "get_image_sector_size_override_or_default cfg p fallback =
     (let filename = get_filename_component p in
      if filename = [] then fallback
      else (case image_sector_size_override cfg filename of Some v \<Rightarrow> v | None \<Rightarrow> fallback))"

definition LVD_SECTOR_SIZE_PFS :: u32 where "LVD_SECTOR_SIZE_PFS = 4096"

text \<open>\<open>sfs\<close> is what \<^verbatim>\<open>statfs\<close> says of the file system the image file is on.\<close>

definition get_lvd_sector_size :: "image_config \<Rightarrow> statfs_buf res \<Rightarrow> string \<Rightarrow> image_fs_type \<Rightarrow> u32" where
  "get_lvd_sector_size cfg sfs p t =
     (let nested = pfs_path_uses_nested_profile p t;
          default_sector = (if nested then LVD_SECTOR_SIZE_PFS else get_lvd_sector_size_fallback cfg t);
          fallback = get_image_sector_size_override_or_default cfg p default_sector
      in if nested then fallback
         else (case sfs of
                 Inl _ \<Rightarrow> fallback
               | Inr s \<Rightarrow>
                   (let cluster = (if f_bsize s = 0 then f_iosize s else f_bsize s)
                    in if cluster = 0 \<or> cluster \<ge> ucast fallback then fallback else ucast cluster)))"

definition LVD_SECONDARY_UNIT_IMAGE_IO :: u32 where "LVD_SECONDARY_UNIT_IMAGE_IO = 0x10000"

definition get_lvd_secondary_unit :: "image_fs_type \<Rightarrow> u32 \<Rightarrow> bool \<Rightarrow> u32" where
  "get_lvd_secondary_unit t sector_size legacy_mount =
     (if legacy_mount \<and> t \<noteq> IMAGE_FS_EXFAT then sector_size
      else if LVD_SECONDARY_UNIT_IMAGE_IO mod sector_size = 0 then LVD_SECONDARY_UNIT_IMAGE_IO else sector_size)"

definition get_md_sector_size :: "image_config \<Rightarrow> image_fs_type \<Rightarrow> u32" where
  "get_md_sector_size cfg t = (case t of IMAGE_FS_UFS \<Rightarrow> md_sector_ufs cfg | _ \<Rightarrow> md_sector_exfat cfg)"

definition get_md_sector_size_for_path :: "image_config \<Rightarrow> string \<Rightarrow> image_fs_type \<Rightarrow> u32" where
  "get_md_sector_size_for_path cfg p t = get_image_sector_size_override_or_default cfg p (get_md_sector_size cfg t)"

text \<open>The option bits of \<^verbatim>\<open><sys/mdioctl.h>\<close> and the mount flags of \<^verbatim>\<open><sys/mount.h>\<close> by name: a mask is the
  list of the bits that are set.\<close>

datatype md_option = MD_AUTOUNIT | MD_ASYNC | MD_READONLY

datatype mnt_flag = MNT_RDONLY | MNT_NOATIME

definition get_md_attach_options :: "bool \<Rightarrow> md_option list" where
  "get_md_attach_options read_only = [MD_AUTOUNIT, MD_ASYNC] @ (if read_only then [MD_READONLY] else [])"

definition get_lvd_attach_raw_flags :: "image_fs_type \<Rightarrow> bool \<Rightarrow> bool \<Rightarrow> u16" where
  "get_lvd_attach_raw_flags t read_only legacy_mount =
     (if legacy_mount \<and> t = IMAGE_FS_UFS then (if read_only then 0x000D else 0x000C)
      else if read_only then 0x0009 else 0x0008)"

definition get_nmount_flags :: "image_fs_type \<Rightarrow> bool \<Rightarrow> bool \<Rightarrow> mnt_flag list \<times> string" where
  "get_nmount_flags t read_only legacy_mount =
     (if legacy_mount \<and> t = IMAGE_FS_UFS
      then ((if read_only then [MNT_RDONLY] else []) @ [MNT_NOATIME], if read_only then ''legacy_dd_ro'' else ''legacy_dd_rw'')
      else (if read_only then [MNT_RDONLY] else [], if read_only then ''rdonly'' else ''rw''))"

definition normalize_lvd_raw_flags :: "u16 \<Rightarrow> u16" where
  "normalize_lvd_raw_flags raw =
     0x0004 OR (raw AND 0x8000)
     OR (if raw AND 0x0001 \<noteq> 0 then 0x0008 else 0)
     OR (if raw AND 0x0002 \<noteq> 0 then 0x0080 else 0)
     OR (if raw AND 0x0004 \<noteq> 0 then 0x0002 else 0)
     OR (if raw AND 0x0008 \<noteq> 0 then 0x0010 else 0)"

definition get_lvd_image_type :: "string \<Rightarrow> image_fs_type \<Rightarrow> bool \<Rightarrow> u16" where
  "get_lvd_image_type p t legacy_mount =
     (if pfs_path_uses_nested_profile p t then pfs_lvd_game_image_type_from_selector (get_nested_pfs_img_type p t)
      else if t = IMAGE_FS_UFS then (if legacy_mount then 7 else 5)
      else if t = IMAGE_FS_EXFAT then (if legacy_mount then 0 else 5)
      else if t = IMAGE_FS_PFS then 5
      else 0)"

definition backing_fs_supports_pfs_metadata_cache :: "string \<Rightarrow> bool" where
  "backing_fs_supports_pfs_metadata_cache fs_name \<longleftrightarrow>
     fs_name \<in> {''pfs'', ''ppr_pfs'', ''transaction_pfs'', ''nullfs'', ''unionfs''}"

definition select_image_backend :: "image_config \<Rightarrow> image_fs_type \<Rightarrow> attach_backend" where
  "select_image_backend cfg t =
     (if t = IMAGE_FS_EXFAT then exfat_backend cfg
      else if t = IMAGE_FS_UFS then ufs_backend cfg
      else ATTACH_BACKEND_LVD)"

text \<open>\<open>r\<close> is what \<^verbatim>\<open>stat\<close> says of the image file.\<close>

definition get_lvd_source_type :: "stat_buf res \<Rightarrow> u16" where
  "get_lvd_source_type r =
     (case r of Inr st \<Rightarrow> if st_mode st = S_CHR \<or> st_mode st = S_BLK then 2 else 1 | Inl _ \<Rightarrow> 1)"

section \<open>Mount points are short, flat and distinct\<close>

lemma hex8_length [simp]: "length (hex8 h) = 8"
  by (simp add: hex8_def)

lemma hex_digit_inj: "a < 16 \<Longrightarrow> b < 16 \<Longrightarrow> hex_digit a = hex_digit b \<Longrightarrow> a = b"
  by (auto simp: hex_digit_def of_char_eq_iff [symmetric] split: if_splits)

lemma hex_digit_not_slash: "d < 16 \<Longrightarrow> hex_digit d \<noteq> CHR ''/''"
  by (auto simp: hex_digit_def of_char_eq_iff [symmetric, where 'a = nat] split: if_splits)

lemma hex8_no_slash: "CHR ''/'' \<notin> set (hex8 h)"
proof
  assume "CHR ''/'' \<in> set (hex8 h)"
  then obtain i where "CHR ''/'' = hex_digit (unat h div 16 ^ i mod 16)" by (auto simp: hex8_def)
  with hex_digit_not_slash [of "unat h div 16 ^ i mod 16"] show False by simp
qed

text \<open>Equal digits up to a place give equal remainders.\<close>

lemma digits_determine:
  fixes m n :: nat
  assumes "\<forall>i < k. m div 16 ^ i mod 16 = n div 16 ^ i mod 16"
  shows "m mod 16 ^ k = n mod 16 ^ k"
  using assms
proof (induction k)
  case (Suc k)
  have split: "x mod 16 ^ Suc k = 16 ^ k * (x div 16 ^ k mod 16) + x mod 16 ^ k" for x :: nat
    using mod_mult2_eq [of x "16 ^ k" 16] by (simp add: mult.commute)
  show ?case using Suc by (simp only: split) simp
qed simp

lemma hex8_inj: "hex8 g = hex8 h \<longleftrightarrow> g = h"
proof
  assume eq: "hex8 g = hex8 h"
  have "\<forall>i < 8. unat g div 16 ^ i mod 16 = unat h div 16 ^ i mod 16"
  proof (intro allI impI)
    fix i :: nat assume "i < 8"
    then have "hex_digit (unat g div 16 ^ i mod 16) = hex_digit (unat h div 16 ^ i mod 16)"
      using eq unfolding hex8_def by (simp add: map_eq_conv)
    then show "unat g div 16 ^ i mod 16 = unat h div 16 ^ i mod 16"
      by (intro hex_digit_inj) simp_all
  qed
  from digits_determine [OF this] have "unat g mod 16 ^ 8 = unat h mod 16 ^ 8" .
  moreover have "unat x mod 16 ^ 8 = unat x" for x :: u32
    using unsigned_less [of x, where 'a = nat] by simp
  ultimately show "g = h" by (simp add: word_unat_eq_iff)
qed simp

lemma after_last_free: "c \<notin> set (after_last c s)"
  by (auto simp: after_last_def dest: set_takeWhileD)

lemma filename_no_slash: "CHR ''/'' \<notin> set (get_filename_component p)"
  by (auto simp: get_filename_component_def after_last_free after_last_def dest: set_takeWhileD)

lemma strip_extension_subset: "set (strip_extension s n) \<subseteq> set s"
  by (auto simp: strip_extension_def dest: in_set_takeD)

lemma mount_point_shape:
  assumes "length (mount_base_of t) + 11 < mnamelen" "mnamelen \<le> MAX_PATH"
  obtains stem where "build_image_mount_point_for_fs mnamelen p t
      = mount_base_of t @ ''/'' @ stem @ ''_'' @ hex8 (sm_fnv1a32 p)"
    "CHR ''/'' \<notin> set stem" "length (mount_base_of t) + length stem + 11 \<le> mnamelen"
proof
  let ?stem = "take (mnamelen - length (mount_base_of t) - 11) (strip_extension (get_filename_component p) MAX_PATH)"
  show "CHR ''/'' \<notin> set ?stem"
    using strip_extension_subset [of "get_filename_component p" MAX_PATH] filename_no_slash [of p]
    by (auto dest!: in_set_takeD)
  show len: "length (mount_base_of t) + length ?stem + 11 \<le> mnamelen" using assms by simp
  show "build_image_mount_point_for_fs mnamelen p t = mount_base_of t @ ''/'' @ ?stem @ ''_'' @ hex8 (sm_fnv1a32 p)"
    using len assms unfolding build_image_mount_point_for_fs_def Let_def by (intro take_all) simp
qed

text \<open>
  C19. When the base directories leave room for a name in \<^verbatim>\<open>f_mntonname\<close> (the static assertions of
  \<^verbatim>\<open>build_image_mount_point_for_fs\<close>), the mount point of an image fits there with its NUL, so it can be
  compared verbatim with what the kernel reports; it is a direct child of its base directory; and images
  whose paths hash differently have different mount points, whatever their file names and kinds are.
\<close>

theorem image_mount_point_wellformed:
  assumes "length (mount_base_of t) + 11 < mnamelen" "length (mount_base_of t') + 11 < mnamelen" "mnamelen \<le> MAX_PATH"
  shows "length (build_image_mount_point_for_fs mnamelen p t) < mnamelen
    \<and> (\<exists>name. build_image_mount_point_for_fs mnamelen p t = mount_base_of t @ ''/'' @ name
         \<and> name \<noteq> [] \<and> CHR ''/'' \<notin> set name)
    \<and> (sm_fnv1a32 p \<noteq> sm_fnv1a32 q
         \<longrightarrow> build_image_mount_point_for_fs mnamelen p t \<noteq> build_image_mount_point_for_fs mnamelen q t')"
proof -
  obtain s where s: "build_image_mount_point_for_fs mnamelen p t = mount_base_of t @ ''/'' @ s @ ''_'' @ hex8 (sm_fnv1a32 p)"
    "CHR ''/'' \<notin> set s" "length (mount_base_of t) + length s + 11 \<le> mnamelen"
    using mount_point_shape [OF assms(1,3)] by blast
  obtain u where u: "build_image_mount_point_for_fs mnamelen q t' = mount_base_of t' @ ''/'' @ u @ ''_'' @ hex8 (sm_fnv1a32 q)"
    using mount_point_shape [OF assms(2,3)] by blast
  have "hex8 (sm_fnv1a32 p) = hex8 (sm_fnv1a32 q)"
    if "build_image_mount_point_for_fs mnamelen p t = build_image_mount_point_for_fs mnamelen q t'"
  proof -
    have "(mount_base_of t @ ''/'' @ s @ ''_'') @ hex8 (sm_fnv1a32 p) = (mount_base_of t' @ ''/'' @ u @ ''_'') @ hex8 (sm_fnv1a32 q)"
      using that unfolding s u by simp
    then show ?thesis by (subst (asm) append_eq_append_conv) simp_all
  qed
  then show ?thesis using s hex8_no_slash [of "sm_fnv1a32 p"] by (auto simp: hex8_inj)
qed

theorem image_mount_point_wellformed_witness:
  "length (build_image_mount_point_for_fs 88 ''/data/homebrew/Game.ffpkg'' IMAGE_FS_UFS) < 88"
  using image_mount_point_wellformed [of IMAGE_FS_UFS 88 IMAGE_FS_PFSC_CONTAINER "''/data/homebrew/Game.ffpkg''" "''/data/b.exfat''"]
  by (simp add: mount_base_of_def IMAGE_MOUNT_BASE_def PFSC_IMAGE_MOUNT_BASE_def)

section \<open>Device parameters are usable\<close>

text \<open>The flags a device is attached with are the four combinations \<^verbatim>\<open>sm_mount_defs.h\<close> names.\<close>

lemma lvd_flags_normalized:
  "normalize_lvd_raw_flags (get_lvd_attach_raw_flags t read_only legacy_mount)
   = (if legacy_mount \<and> t = IMAGE_FS_UFS then (if read_only then 0x1E else 0x16) else if read_only then 0x1C else 0x14)"
  by (simp add: normalize_lvd_raw_flags_def get_lvd_attach_raw_flags_def)

lemma secondary_unit_is_multiple: "sector_size \<noteq> 0 \<Longrightarrow> get_lvd_secondary_unit t sector_size legacy_mount mod sector_size = 0"
  by (simp add: get_lvd_secondary_unit_def)

text \<open>An image is never attached with a sector larger than the clusters of the file system it is stored on, and the
  sector size is never raised over the configured one.\<close>

lemma lvd_sector_size_bound:
  assumes "\<not> pfs_path_uses_nested_profile p t"
  shows "get_lvd_sector_size cfg sfs p t \<le> get_image_sector_size_override_or_default cfg p (get_lvd_sector_size_fallback cfg t)"
proof -
  have *: "ucast c \<le> (f :: u32)" if "c < (ucast f :: u64)" for c f
    using that by (simp add: word_less_nat_alt word_le_nat_alt unsigned_ucast_eq)
      (meson le_trans less_imp_le take_bit_nat_less_eq_self)
  show ?thesis using assms
    by (auto simp: get_lvd_sector_size_def Let_def not_le intro: * split: sum.split)
qed

end
