(* ===== verification/Kernel.thy ===== *)
theory Kernel
  imports Image_Profile "HOL-Library.State_Monad"
begin

text \<open>
  The operating system behind the image code (\<^verbatim>\<open>src/sm_mount_device.c\<close>, \<^verbatim>\<open>src/sm_image.c\<close>). It is not
  part of the sources, so it is an argument: a record of operations on a state \<open>'k\<close> of its own,
  about which nothing is known. A program is a state transformer (\<^theory_text>\<open>HOL-Library.State_Monad\<close>)
  over a world that holds the kernel's state, \<^verbatim>\<open>errno\<close>, and the trace of the calls made so far
  with their answers. Statements about what the program asks the kernel to do are statements about
  the trace.
\<close>

section \<open>Calls and answers\<close>

text \<open>The requests of the two attach calls: \<^verbatim>\<open>struct md_ioctl\<close> and \<^verbatim>\<open>lvd_ioctl_attach_v0_t\<close> with its one layer, less the
  fields that are the same in every request.\<close>

record lvd_attach =
  la_image_type :: u16
  la_device_size :: u64
  la_sector_size :: u32
  la_secondary_unit :: u32
  la_flags :: u16
  la_source_type :: u16
  la_path :: string

datatype attach_request =
    MD_Attach string int u32 "md_option list"
  | LVD_Attach lvd_attach

record nmount_request =
  nr_options :: "(string \<times> string option) list"
  nr_flags :: "mnt_flag list"

text \<open>A directory entry: \<^verbatim>\<open>d_name\<close> and \<^verbatim>\<open>d_type\<close>.\<close>

datatype dirent_type = DT_DIR | DT_REG | DT_UNKNOWN | DT_OTHER

type_synonym dirent = "string \<times> dirent_type"

datatype event =
    E_Stat string "stat_buf res"
  | E_Statfs string "statfs_buf res"
  | E_Mounts "statfs_buf list res"
  | E_Open_Ctrl attach_backend "unit res"
  | E_Attach attach_request "int res"
  | E_Detach attach_backend int "unit res"
  | E_Nmount nmount_request "unit res"
  | E_Unmount string "unit res"
  | E_Rmdir string "unit res"
  | E_Mkdir string "unit res"
  | E_Opendir string "dirent list res"
  | E_Open_File string "unit res"
  | E_Fstatfs string "statfs_buf res"
  | E_Pfs_Cache string "unit res"
  | E_Cleanup_Links string

text \<open>\<open>k_mnamelen\<close> is the size of \<^verbatim>\<open>f_mntonname\<close>, \<open>k_mounts\<close> is \<^verbatim>\<open>sm_mount_table_snapshot\<close>. \<open>k_open_file\<close>, \<open>k_fstatfs\<close> and \<open>k_pfs_cache\<close> are the calls
  on the descriptor of an image file, which its path stands for; \<open>k_nmount_errmsg\<close> is the text
  the kernel left in the \<^verbatim>\<open>errmsg\<close> buffer of the latest \<^verbatim>\<open>nmount\<close>, \<open>k_usleep\<close> lets time pass.

  The other threads of the program are seen through the same interface: \<open>k_stop\<close> and \<open>k_suspended\<close> are
  \<^verbatim>\<open>should_stop_requested\<close> and \<^verbatim>\<open>runtime_sleep_mode_active\<close>, \<open>k_protected\<close> is \<^verbatim>\<open>sm_shellcore_source_is_protected\<close>,
  \<open>k_config\<close> the configuration as \<^verbatim>\<open>runtime_config\<close> copies it, \<open>k_autotune\<close> \<^verbatim>\<open>upsert_image_sector_size_autotune\<close>, and
  \<open>k_cleanup_links\<close> \<^verbatim>\<open>cleanup_mount_links_for_source_unmount\<close>.\<close>

record 'k kernel =
  k_mnamelen :: nat
  k_stat :: "string \<Rightarrow> 'k \<Rightarrow> stat_buf res \<times> 'k"
  k_statfs :: "string \<Rightarrow> 'k \<Rightarrow> statfs_buf res \<times> 'k"
  k_mounts :: "'k \<Rightarrow> statfs_buf list res \<times> 'k"
  k_open_ctrl :: "attach_backend \<Rightarrow> 'k \<Rightarrow> unit res \<times> 'k"
  k_attach :: "attach_request \<Rightarrow> 'k \<Rightarrow> int res \<times> 'k"
  k_detach :: "attach_backend \<Rightarrow> int \<Rightarrow> 'k \<Rightarrow> unit res \<times> 'k"
  k_nmount :: "nmount_request \<Rightarrow> 'k \<Rightarrow> unit res \<times> 'k"
  k_unmount :: "string \<Rightarrow> 'k \<Rightarrow> unit res \<times> 'k"
  k_rmdir :: "string \<Rightarrow> 'k \<Rightarrow> unit res \<times> 'k"
  k_mkdir :: "string \<Rightarrow> 'k \<Rightarrow> unit res \<times> 'k"
  k_opendir :: "string \<Rightarrow> 'k \<Rightarrow> dirent list res \<times> 'k"
  k_open_file :: "string \<Rightarrow> 'k \<Rightarrow> unit res \<times> 'k"
  k_fstatfs :: "string \<Rightarrow> 'k \<Rightarrow> statfs_buf res \<times> 'k"
  k_pfs_cache :: "string \<Rightarrow> 'k \<Rightarrow> unit res \<times> 'k"
  k_nmount_errmsg :: "'k \<Rightarrow> string \<times> 'k"
  k_time :: "'k \<Rightarrow> int \<times> 'k"
  k_usleep :: "'k \<Rightarrow> 'k"
  k_stop :: "'k \<Rightarrow> bool \<times> 'k"
  k_suspended :: "'k \<Rightarrow> bool \<times> 'k"
  k_protected :: "string \<Rightarrow> 'k \<Rightarrow> bool \<times> 'k"
  k_config :: "'k \<Rightarrow> image_config \<times> 'k"
  k_autotune :: "string \<Rightarrow> u32 \<Rightarrow> 'k \<Rightarrow> u32 option \<times> 'k"
  k_cleanup_links :: "string \<Rightarrow> 'k \<Rightarrow> 'k"

section \<open>The world and its programs\<close>

record 'k world =
  w_kernel :: 'k
  w_errno :: "errno option"
  w_trace :: "event list"

definition sys :: "('k \<Rightarrow> 'a res \<times> 'k) \<Rightarrow> ('a res \<Rightarrow> event) \<Rightarrow> (('k, 'm) world_scheme, 'a res) state" where
  "sys op ev = State (\<lambda>w. let (r, k) = op (w_kernel w) in
     (r, w\<lparr>w_kernel := k, w_trace := w_trace w @ [ev r], w_errno := (case r of Inl e \<Rightarrow> Some e | Inr _ \<Rightarrow> w_errno w)\<rparr>))"

definition ask :: "('k \<Rightarrow> 'a \<times> 'k) \<Rightarrow> (('k, 'm) world_scheme, 'a) state" where
  "ask op = State (\<lambda>w. let (r, k) = op (w_kernel w) in (r, w\<lparr>w_kernel := k\<rparr>))"

definition set_errno :: "errno \<Rightarrow> (('k, 'm) world_scheme, unit) state" where
  "set_errno e = State (\<lambda>w. ((), w\<lparr>w_errno := Some e\<rparr>))"

definition put_errno :: "errno option \<Rightarrow> (('k, 'm) world_scheme, unit) state" where
  "put_errno e = State (\<lambda>w. ((), w\<lparr>w_errno := e\<rparr>))"

definition get_errno :: "(('k, 'm) world_scheme, errno option) state" where
  "get_errno = State (\<lambda>w. (w_errno w, w))"

text \<open>A step of the program's own state; a failing one sets \<^verbatim>\<open>errno\<close> unless it leaves it alone.\<close>

definition gets :: "('w \<Rightarrow> 'a) \<Rightarrow> ('w, 'a) state" where
  "gets f = State (\<lambda>w. (f w, w))"

definition modify :: "('w \<Rightarrow> 'w) \<Rightarrow> ('w, unit) state" where
  "modify f = State (\<lambda>w. ((), f w))"

definition usleep :: "'k kernel \<Rightarrow> (('k, 'm) world_scheme, unit) state" where
  "usleep K = modify (\<lambda>w. w\<lparr>w_kernel := k_usleep K (w_kernel w)\<rparr>)"

abbreviation sys_stat where "sys_stat K p \<equiv> sys (k_stat K p) (E_Stat p)"
abbreviation sys_statfs where "sys_statfs K p \<equiv> sys (k_statfs K p) (E_Statfs p)"
abbreviation sys_mounts where "sys_mounts K \<equiv> sys (k_mounts K) E_Mounts"
abbreviation sys_open_ctrl where "sys_open_ctrl K b \<equiv> sys (k_open_ctrl K b) (E_Open_Ctrl b)"
abbreviation sys_attach where "sys_attach K r \<equiv> sys (k_attach K r) (E_Attach r)"
abbreviation sys_detach where "sys_detach K b u \<equiv> sys (k_detach K b u) (E_Detach b u)"
abbreviation sys_nmount where "sys_nmount K r \<equiv> sys (k_nmount K r) (E_Nmount r)"
abbreviation sys_unmount where "sys_unmount K p \<equiv> sys (k_unmount K p) (E_Unmount p)"
abbreviation sys_rmdir where "sys_rmdir K p \<equiv> sys (k_rmdir K p) (E_Rmdir p)"
abbreviation sys_mkdir where "sys_mkdir K p \<equiv> sys (k_mkdir K p) (E_Mkdir p)"
abbreviation sys_opendir where "sys_opendir K p \<equiv> sys (k_opendir K p) (E_Opendir p)"

abbreviation sys_open_file where "sys_open_file K p \<equiv> sys (k_open_file K p) (E_Open_File p)"
abbreviation sys_fstatfs where "sys_fstatfs K p \<equiv> sys (k_fstatfs K p) (E_Fstatfs p)"
abbreviation sys_pfs_cache where "sys_pfs_cache K p \<equiv> sys (k_pfs_cache K p) (E_Pfs_Cache p)"

definition cleanup_links :: "'k kernel \<Rightarrow> string \<Rightarrow> (('k, 'm) world_scheme, unit) state" where
  "cleanup_links K mp = modify (\<lambda>w. w\<lparr>w_kernel := k_cleanup_links K mp (w_kernel w), w_trace := w_trace w @ [E_Cleanup_Links mp]\<rparr>)"

text \<open>A loop over a list that carries a value, and one that a step may leave.\<close>

fun fold_m :: "('a \<Rightarrow> 'b \<Rightarrow> ('w, 'b) state) \<Rightarrow> 'a list \<Rightarrow> 'b \<Rightarrow> ('w, 'b) state" where
  "fold_m f [] b = State_Monad.return b"
| "fold_m f (x # xs) b = do { b' \<leftarrow> f x b; fold_m f xs b' }"

fun while_m :: "('a \<Rightarrow> ('w, bool) state) \<Rightarrow> 'a list \<Rightarrow> ('w, unit) state" where
  "while_m f [] = State_Monad.return ()"
| "while_m f (x # xs) = do { go \<leftarrow> f x; if go then while_m f xs else State_Monad.return () }"

abbreviation ret :: "'a \<Rightarrow> ('w, 'a) state" where "ret \<equiv> State_Monad.return"

section \<open>Reasoning about programs\<close>

named_theorems wp \<open>weakest preconditions of the program steps\<close>

definition wp :: "('w, 'a) state \<Rightarrow> ('a \<Rightarrow> 'w \<Rightarrow> bool) \<Rightarrow> 'w \<Rightarrow> bool" where
  "wp m Q w \<longleftrightarrow> (case run_state m w of (a, w') \<Rightarrow> Q a w')"

lemma wp_run: "wp m Q w \<Longrightarrow> run_state m w = (a, w') \<Longrightarrow> Q a w'"
  by (simp add: wp_def)

lemma wp_mono: "wp m Q w \<Longrightarrow> (\<And>a w'. Q a w' \<Longrightarrow> R a w') \<Longrightarrow> wp m R w"
  by (auto simp: wp_def split: prod.splits)

lemma wp_bind [wp]: "wp (State_Monad.bind m f) Q = wp m (\<lambda>a. wp (f a) Q)"
  by (simp add: wp_def fun_eq_iff split: prod.split)

lemma wp_ret [wp]: "wp (ret a) Q = Q a"
  by (simp add: wp_def fun_eq_iff)

lemma wp_gets [wp]: "wp (gets f) Q = (\<lambda>w. Q (f w) w)"
  by (simp add: wp_def gets_def fun_eq_iff)

lemma wp_modify [wp]: "wp (modify f) Q = (\<lambda>w. Q () (f w))"
  by (simp add: wp_def modify_def fun_eq_iff)

lemma wp_if [wp]: "wp (if b then m else n) Q = (\<lambda>w. if b then wp m Q w else wp n Q w)"
  by (simp add: fun_eq_iff)

lemma wp_case_prod [wp]: "wp (case p of (a, b) \<Rightarrow> f a b) Q = (case p of (a, b) \<Rightarrow> wp (f a b) Q)"
  by (simp split: prod.split)

lemma wp_case_option [wp]: "wp (case x of None \<Rightarrow> m | Some y \<Rightarrow> f y) Q = (case x of None \<Rightarrow> wp m Q | Some y \<Rightarrow> wp (f y) Q)"
  by (simp split: option.split)

lemma wp_case_sum [wp]: "wp (case x of Inl e \<Rightarrow> f e | Inr y \<Rightarrow> g y) Q = (case x of Inl e \<Rightarrow> wp (f e) Q | Inr y \<Rightarrow> wp (g y) Q)"
  by (simp split: sum.split)

lemma wp_let [wp]: "wp (let x = t in f x) Q = (let x = t in wp (f x) Q)"
  by (simp add: Let_def)

text \<open>A relation that every step of a program keeps: reflexive and transitive, so that it is
  shown step by step.\<close>

named_theorems steps \<open>each program only makes the world evolve along the relation\<close>

lemma steps_bind:
  "transp R \<Longrightarrow> state_io_rel R m \<Longrightarrow> (\<And>a. state_io_rel R (f a)) \<Longrightarrow> state_io_rel R (State_Monad.bind m f)"
  by (auto simp: state_io_rel_def transp_def split: prod.split)
    (metis prod.sel(2) prod.collapse)

lemma steps_ret: "reflp R \<Longrightarrow> state_io_rel R (ret a)"
  by (simp add: state_io_rel_def reflp_def)

lemma steps_gets: "reflp R \<Longrightarrow> state_io_rel R (gets f)"
  by (simp add: state_io_rel_def reflp_def gets_def)

lemma steps_modify: "(\<And>w. R w (f w)) \<Longrightarrow> state_io_rel R (modify f)"
  by (simp add: state_io_rel_def modify_def)

section \<open>Programs that only talk to the kernel\<close>

text \<open>\<open>frame w evs w'\<close>: the calls \<open>evs\<close> were made, and the program's own state is as before.\<close>

definition frame :: "('k, 'm) world_scheme \<Rightarrow> event list \<Rightarrow> ('k, 'm) world_scheme \<Rightarrow> bool" where
  "frame w evs w' \<longleftrightarrow> w_trace w' = w_trace w @ evs \<and> world.more w' = world.more w"

lemma frame_refl: "frame w [] w"
  by (simp add: frame_def)

lemma frame_trans: "frame w a w1 \<Longrightarrow> frame w1 b w2 \<Longrightarrow> frame w (a @ b) w2"
  by (simp add: frame_def)

lemma frame_quiet: "frame w a w1 \<Longrightarrow> frame w1 [] w2 \<Longrightarrow> frame w a w2"
  using frame_trans by fastforce

lemma wp_sys: "wp (sys op ev) Q w \<longleftrightarrow> (\<forall>r w'. run_state (sys op ev) w = (r, w') \<longrightarrow> Q r w')"
  by (auto simp: wp_def)

lemma sys_frame: "run_state (sys op ev) w = (r, w') \<Longrightarrow> frame w [ev r] w'"
  by (auto simp: sys_def frame_def split: prod.splits)

lemma wp_sysI: "(\<And>r w'. frame w [ev r] w' \<Longrightarrow> Q r w') \<Longrightarrow> wp (sys op ev) Q w"
  by (auto simp: wp_sys dest: sys_frame)

lemma wp_askI: "(\<And>r w'. frame w [] w' \<Longrightarrow> Q r w') \<Longrightarrow> wp (ask op) Q w"
  by (auto simp: wp_def ask_def frame_def split: prod.splits)

lemma wp_usleepI: "(\<And>w'. frame w [] w' \<Longrightarrow> Q () w') \<Longrightarrow> wp (usleep K) Q w"
  by (auto simp: wp_def usleep_def modify_def frame_def)

lemma wp_set_errnoI: "(\<And>w'. frame w [] w' \<Longrightarrow> w_errno w' = Some e \<Longrightarrow> Q () w') \<Longrightarrow> wp (set_errno e) Q w"
  by (auto simp: wp_def set_errno_def frame_def)

lemma wp_put_errnoI: "(\<And>w'. frame w [] w' \<Longrightarrow> w_errno w' = e \<Longrightarrow> Q () w') \<Longrightarrow> wp (put_errno e) Q w"
  by (auto simp: wp_def put_errno_def frame_def)

lemma wp_get_errno [wp]: "wp get_errno Q = (\<lambda>w. Q (w_errno w) w)"
  by (simp add: wp_def get_errno_def fun_eq_iff)

lemmas wp_calls = wp_sysI wp_askI wp_usleepI wp_set_errnoI wp_put_errnoI

end
