(* ===== verification/Mount_Device.thy ===== *)
theory Mount_Device
  imports Kernel
begin

text \<open>
  \<^verbatim>\<open>src/sm_mount_device.c\<close>: device nodes and mount points as the kernel shows them, and the protocol
  that detaches a device unit. A detach request is sent only for the very node that was attached,
  and a unit counts as released only when the kernel shows that it is gone or belongs to
  someone else by now. Log lines are left out.
\<close>

record 'k dev_world = "'k world" +
  w_cache :: image_cache

abbreviation LVD_NODE_WAIT_RETRIES :: nat where "LVD_NODE_WAIT_RETRIES \<equiv> 100"

definition attach_backend_name :: "attach_backend \<Rightarrow> string" where
  "attach_backend_name b = (case b of ATTACH_BACKEND_LVD \<Rightarrow> ''LVD'' | ATTACH_BACKEND_MD \<Rightarrow> ''MD'' | ATTACH_BACKEND_NONE \<Rightarrow> ''UNKNOWN'')"

section \<open>Nodes and mount points\<close>

fun node_wait_loop :: "'k kernel \<Rightarrow> string \<Rightarrow> bool \<Rightarrow> nat \<Rightarrow> (('k, 'm) world_scheme, bool) state" where
  "node_wait_loop K devname should_exist 0 = ret False"
| "node_wait_loop K devname should_exist (Suc n) = do {
     r \<leftarrow> sys_stat K devname;
     let seen = (case r of Inr _ \<Rightarrow> should_exist | Inl e \<Rightarrow> \<not> should_exist \<and> (e = ENOENT \<or> e = ENOTDIR));
     if seen then ret True else do { usleep K; node_wait_loop K devname should_exist n }
   }"

definition wait_for_dev_node_state :: "'k kernel \<Rightarrow> string \<Rightarrow> bool \<Rightarrow> (('k, 'm) world_scheme, bool) state" where
  "wait_for_dev_node_state K devname should_exist = node_wait_loop K devname should_exist LVD_NODE_WAIT_RETRIES"

text \<open>\<^verbatim>\<open>strtol(s, &end, 10)\<close>: the value and the text behind it, \<open>None\<close> when there is no number. A value out
  of range is out of the range of an \<^verbatim>\<open>int\<close> too.\<close>

definition strtol10 :: "string \<Rightarrow> (int \<times> string) option" where
  "strtol10 s =
     (let t = dropWhile isspace s;
          neg = (t \<noteq> [] \<and> hd t = CHR ''-'');
          u = (if t \<noteq> [] \<and> (hd t = CHR ''-'' \<or> hd t = CHR ''+'') then tl t else t);
          isdig = (\<lambda>c. (48 :: nat) \<le> of_char c \<and> of_char c \<le> (57 :: nat));
          ds = takeWhile isdig u
      in if ds = [] then None
         else (let v = foldl (\<lambda>a c. a * 10 + (int (of_char c :: nat) - 48)) 0 ds
               in Some (if neg then - v else v, dropWhile isdig u)))"

definition parse_unit_from_dev_path :: "string \<Rightarrow> string \<Rightarrow> int option" where
  "parse_unit_from_dev_path dev_path prefix =
     (if \<not> starts_with prefix dev_path then None
      else (case strtol10 (drop (length prefix) dev_path) of
              None \<Rightarrow> None
            | Some (u, rest) \<Rightarrow> if rest \<noteq> [] \<or> u < 0 \<or> u > 2147483647 then None else Some u))"

definition device_of_node :: "string \<Rightarrow> (attach_backend \<times> int) option" where
  "device_of_node from =
     (case parse_unit_from_dev_path from ''/dev/lvd'' of
        Some u \<Rightarrow> Some (ATTACH_BACKEND_LVD, u)
      | None \<Rightarrow> map_option (\<lambda>u. (ATTACH_BACKEND_MD, u)) (parse_unit_from_dev_path from ''/dev/md''))"

fun device_in_table :: "string \<Rightarrow> statfs_buf list \<Rightarrow> (attach_backend \<times> int) option" where
  "device_in_table mp [] = None"
| "device_in_table mp (m # ms) =
     (if f_mntonname m \<noteq> mp then device_in_table mp ms
      else (case device_of_node (f_mntfromname m) of Some d \<Rightarrow> Some d | None \<Rightarrow> device_in_table mp ms))"

definition resolve_device_from_mount ::
  "'k kernel \<Rightarrow> string \<Rightarrow> (('k, 'm) dev_world_scheme, (attach_backend \<times> int) option) state" where
  "resolve_device_from_mount K mp = do {
     c \<leftarrow> gets w_cache;
     (case resolve_device_from_mount_cache c mp of
        Some d \<Rightarrow> ret (Some d)
      | None \<Rightarrow> do {
          r \<leftarrow> sys_statfs K mp;
          (case r of
             Inl _ \<Rightarrow> ret None
           | Inr sfs \<Rightarrow>
               if f_mntonname sfs \<noteq> mp then ret None
               else (case device_of_node (f_mntfromname sfs) of
                       Some d \<Rightarrow> ret (Some d)
                     | None \<Rightarrow> do {
                         t \<leftarrow> sys_mounts K;
                         ret (case t of Inl _ \<Rightarrow> None | Inr ms \<Rightarrow> device_in_table mp ms) }))
        })
   }"

definition is_path_mountpoint :: "'k kernel \<Rightarrow> string \<Rightarrow> (('k, 'm) world_scheme, bool) state" where
  "is_path_mountpoint K p = do {
     r \<leftarrow> sys_statfs K p;
     if (case r of Inr sfs \<Rightarrow> f_mntonname sfs = p | Inl _ \<Rightarrow> False) then ret True
     else do {
       t \<leftarrow> sys_mounts K;
       ret (case t of Inl _ \<Rightarrow> True | Inr ms \<Rightarrow> list_ex (\<lambda>m. f_mntonname m = p) ms)
     }
   }"

definition is_active_image_mount_point :: "'k kernel \<Rightarrow> string \<Rightarrow> (('k, 'm) world_scheme, bool) state" where
  "is_active_image_mount_point K p = is_path_mountpoint K p"

text \<open>The wait for \<^verbatim>\<open>/dev/lvd2\<close>: \<open>n\<close> polls of half a second are left of the 15 seconds.\<close>

fun lvd_release_loop :: "'k kernel \<Rightarrow> nat \<Rightarrow> (('k, 'm) world_scheme, bool) state" where
  "lvd_release_loop K n = do {
     t \<leftarrow> sys_mounts K;
     (case t of
        Inl _ \<Rightarrow> ret False
      | Inr ms \<Rightarrow>
          if \<not> list_ex (\<lambda>m. f_mntfromname m = ''/dev/lvd2'') ms then ret True
          else do {
            stop \<leftarrow> ask (k_stop K);
            if stop then ret False
            else (case n of 0 \<Rightarrow> ret True | Suc n' \<Rightarrow> do { usleep K; lvd_release_loop K n' })
          })
   }"

definition wait_for_lvd_release :: "'k kernel \<Rightarrow> (('k, 'm) world_scheme, bool) state" where
  "wait_for_lvd_release K = lvd_release_loop K 30"

section \<open>Detaching a unit\<close>

definition build_attached_unit_devname :: "attach_backend \<Rightarrow> int \<Rightarrow> string" where
  "build_attached_unit_devname b u =
     (if b = ATTACH_BACKEND_MD then ''/dev/md'' else ''/dev/lvd'') @ string_of_nat (nat u)"

definition node_identity_of :: "attached_unit_detach_state \<Rightarrow> stat_buf \<Rightarrow> attached_unit_detach_state" where
  "node_identity_of ds st =
     ds\<lparr>node_identity_valid := True, node_device := st_dev st, node_inode := st_ino st, node_rdev := st_rdev st\<rparr>"

definition read_device_node_identity ::
  "'k kernel \<Rightarrow> string \<Rightarrow> attached_unit_detach_state \<Rightarrow> (('k, 'm) world_scheme, bool \<times> attached_unit_detach_state) state" where
  "read_device_node_identity K devname ds = do {
     r \<leftarrow> sys_stat K devname;
     ret (case r of Inl _ \<Rightarrow> (False, ds) | Inr st \<Rightarrow> (True, node_identity_of ds st))
   }"

definition device_node_is_mounted :: "'k kernel \<Rightarrow> string \<Rightarrow> (('k, 'm) world_scheme, bool) state" where
  "device_node_is_mounted K devname = do {
     t \<leftarrow> sys_mounts K;
     ret (case t of Inl _ \<Rightarrow> True | Inr ms \<Rightarrow> list_ex (\<lambda>m. f_mntfromname m = devname) ms)
   }"

definition same_node :: "attached_unit_detach_state \<Rightarrow> stat_buf \<Rightarrow> bool" where
  "same_node ds st \<longleftrightarrow> node_device ds = st_dev st \<and> node_inode ds = st_ino st \<and> node_rdev ds = st_rdev st"

definition detach_target_is_released_or_reused ::
  "'k kernel \<Rightarrow> string \<Rightarrow> attached_unit_detach_state \<Rightarrow> (('k, 'm) world_scheme, bool) state" where
  "detach_target_is_released_or_reused K devname ds =
     (if \<not> node_identity_valid ds then do { set_errno EAGAIN; ret False }
      else do {
        r \<leftarrow> sys_stat K devname;
        (case r of
           Inl e \<Rightarrow> ret (e = ENOENT \<or> e = ENOTDIR)
         | Inr st \<Rightarrow> if \<not> same_node ds st then ret True else device_node_is_mounted K devname)
      })"

datatype attached_unit_detach_prepare = ATTACHED_UNIT_DETACH_COMPLETE | ATTACHED_UNIT_DETACH_REQUEST | ATTACHED_UNIT_DETACH_PENDING

definition prepare_attached_unit_detach ::
  "'k kernel \<Rightarrow> attach_backend \<Rightarrow> int \<Rightarrow> attached_unit_detach_state
   \<Rightarrow> (('k, 'm) world_scheme, attached_unit_detach_prepare \<times> attached_unit_detach_state) state" where
  "prepare_attached_unit_detach K b u ds = do {
     let devname = build_attached_unit_devname b u;
     (known, rs) \<leftarrow> (if node_identity_valid ds then ret (True, ds) else read_device_node_identity K devname ds);
     if \<not> known then do { set_errno EAGAIN; ret (ATTACHED_UNIT_DETACH_PENDING, rs) }
     else do {
       gone \<leftarrow> detach_target_is_released_or_reused K devname rs;
       if gone then ret (ATTACHED_UNIT_DETACH_COMPLETE, rs)
       else if requested rs then do { set_errno EINPROGRESS; ret (ATTACHED_UNIT_DETACH_PENDING, rs) }
       else ret (ATTACHED_UNIT_DETACH_REQUEST, rs)
     }
   }"

definition wait_for_attached_unit_release ::
  "'k kernel \<Rightarrow> attach_backend \<Rightarrow> int \<Rightarrow> attached_unit_detach_state \<Rightarrow> (('k, 'm) world_scheme, bool) state" where
  "wait_for_attached_unit_release K b u ds =
     (if \<not> node_identity_valid ds then do { set_errno EAGAIN; ret False }
      else do {
        let devname = build_attached_unit_devname b u;
        absent \<leftarrow> wait_for_dev_node_state K devname False;
        if absent then ret True
        else do {
          gone \<leftarrow> detach_target_is_released_or_reused K devname ds;
          if gone then ret True else do { set_errno EINPROGRESS; ret False }
        }
      })"

definition finish_accepted_detach ::
  "attached_unit_detach_state \<Rightarrow> (('k, 'm) world_scheme, bool \<times> attached_unit_detach_state) state" where
  "finish_accepted_detach rs = do { set_errno EINPROGRESS; ret (False, rs\<lparr>requested := True\<rparr>) }"

definition finish_failed_detach ::
  "'k kernel \<Rightarrow> string \<Rightarrow> attached_unit_detach_state \<Rightarrow> errno \<Rightarrow> (('k, 'm) world_scheme, bool) state" where
  "finish_failed_detach K devname rs detach_errno = do {
     gone \<leftarrow> (if node_identity_valid rs then detach_target_is_released_or_reused K devname rs else ret False);
     if gone then ret True else do { set_errno detach_errno; ret False }
   }"

text \<open>\<^verbatim>\<open>detach_lvd_unit\<close> and \<^verbatim>\<open>detach_md_unit\<close> differ in the control device and the request. The second
  result is the caller's detach state, which only an accepted request changes.\<close>

definition detach_unit ::
  "'k kernel \<Rightarrow> attach_backend \<Rightarrow> int \<Rightarrow> attached_unit_detach_state
   \<Rightarrow> (('k, 'm) world_scheme, bool \<times> attached_unit_detach_state) state" where
  "detach_unit K b u ds = do {
     (prepare, rs) \<leftarrow> prepare_attached_unit_detach K b u ds;
     (case prepare of
        ATTACHED_UNIT_DETACH_COMPLETE \<Rightarrow> ret (True, ds)
      | ATTACHED_UNIT_DETACH_PENDING \<Rightarrow> ret (False, ds)
      | ATTACHED_UNIT_DETACH_REQUEST \<Rightarrow> do {
          fd \<leftarrow> sys_open_ctrl K b;
          (case fd of
             Inl _ \<Rightarrow> ret (False, ds)
           | Inr _ \<Rightarrow> do {
               r \<leftarrow> sys_detach K b u;
               (case r of
                  Inl e \<Rightarrow> do {
                    ok \<leftarrow> finish_failed_detach K (build_attached_unit_devname b u) rs e;
                    ret (ok, ds) }
                | Inr _ \<Rightarrow> finish_accepted_detach rs)
             })
        })
   }"

definition detach_lvd_unit ::
  "'k kernel \<Rightarrow> int \<Rightarrow> attached_unit_detach_state \<Rightarrow> (('k, 'm) world_scheme, bool \<times> attached_unit_detach_state) state" where
  "detach_lvd_unit K u ds = detach_unit K ATTACH_BACKEND_LVD u ds"

definition detach_md_unit ::
  "'k kernel \<Rightarrow> int \<Rightarrow> attached_unit_detach_state \<Rightarrow> (('k, 'm) world_scheme, bool \<times> attached_unit_detach_state) state" where
  "detach_md_unit K u ds = detach_unit K ATTACH_BACKEND_MD u ds"

definition detach_attached_unit ::
  "'k kernel \<Rightarrow> attach_backend \<Rightarrow> int \<Rightarrow> attached_unit_detach_state
   \<Rightarrow> (('k, 'm) world_scheme, bool \<times> attached_unit_detach_state) state" where
  "detach_attached_unit K b u ds =
     (if u < 0 \<or> b \<noteq> ATTACH_BACKEND_MD \<and> b \<noteq> ATTACH_BACKEND_LVD then do { set_errno EINVAL; ret (False, ds) }
      else if b = ATTACH_BACKEND_MD then detach_md_unit K u ds else detach_lvd_unit K u ds)"

declare lvd_release_loop.simps [simp del]

section \<open>What a detach asks the kernel for\<close>

text \<open>The identity of the node a detach is about: the recorded one, or the one its first call reads.\<close>

definition target_identity :: "attached_unit_detach_state \<Rightarrow> event list \<Rightarrow> attached_unit_detach_state" where
  "target_identity ds evs =
     (if node_identity_valid ds then ds
      else (case evs of E_Stat _ (Inr st) # _ \<Rightarrow> node_identity_of ds st | _ \<Rightarrow> ds))"

text \<open>The calls end with a sign that the node is gone, is another node, or is in use again.\<close>

definition shows_released :: "string \<Rightarrow> attached_unit_detach_state \<Rightarrow> event list \<Rightarrow> bool" where
  "shows_released dev ds evs \<longleftrightarrow>
     (\<exists>p e. evs = p @ [E_Stat dev (Inl e)] \<and> (e = ENOENT \<or> e = ENOTDIR))
     \<or> (\<exists>p st. evs = p @ [E_Stat dev (Inr st)] \<and> \<not> same_node ds st)
     \<or> (\<exists>p st t. evs = p @ [E_Stat dev (Inr st), E_Mounts t] \<and> same_node ds st
           \<and> (case t of Inl _ \<Rightarrow> True | Inr ms \<Rightarrow> list_ex (\<lambda>m. f_mntfromname m = dev) ms))"

text \<open>The calls end with a sign that the node is the recorded one and not mounted anywhere, unless it could
  not be examined.\<close>

definition shows_held :: "string \<Rightarrow> attached_unit_detach_state \<Rightarrow> event list \<Rightarrow> bool" where
  "shows_held dev ds evs \<longleftrightarrow>
     (\<exists>p e. evs = p @ [E_Stat dev (Inl e)] \<and> e \<noteq> ENOENT \<and> e \<noteq> ENOTDIR)
     \<or> (\<exists>p st ms. evs = p @ [E_Stat dev (Inr st), E_Mounts (Inr ms)] \<and> same_node ds st
           \<and> \<not> list_ex (\<lambda>m. f_mntfromname m = dev) ms)"

lemma shows_prefix: "shows_released dev ds b \<Longrightarrow> shows_released dev ds (a @ b)"
  "shows_held dev ds b \<Longrightarrow> shows_held dev ds (a @ b)"
  unfolding shows_released_def shows_held_def by (metis append.assoc)+

lemma wp_detach_target:
  assumes "node_identity_valid ds"
    and "\<And>gone evs w'. frame w evs w' \<Longrightarrow> evs \<noteq> [] \<Longrightarrow> (\<exists>r. hd evs = E_Stat dev r) \<Longrightarrow>
      if gone then shows_released dev ds evs else shows_held dev ds evs \<Longrightarrow>
      (\<forall>b u r. E_Detach b u r \<notin> set evs) \<Longrightarrow> Q gone w'"
  shows "wp (detach_target_is_released_or_reused K dev ds) Q w"
proof -
  have q1: "Q (e = ENOENT \<or> e = ENOTDIR) w'" if "frame w [E_Stat dev (Inl e)] w'" for e w'
    using assms(2) [OF that, of "e = ENOENT \<or> e = ENOTDIR"] by (auto simp: shows_released_def shows_held_def)
  have q2: "Q True w'" if "frame w [E_Stat dev (Inr st)] w'" "\<not> same_node ds st" for st w'
    using assms(2) [OF that(1), of True] that(2) by (auto simp: shows_released_def)
  have q3: "Q (case t of Inl _ \<Rightarrow> True | Inr ms \<Rightarrow> list_ex (\<lambda>m. f_mntfromname m = dev) ms) w'"
    if "frame w [E_Stat dev (Inr st), E_Mounts t] w'" "same_node ds st" for st t w'
    using that
    by (cases t) (auto intro!: assms(2) [OF that(1)] simp: shows_released_def shows_held_def)
  have m: "wp (device_node_is_mounted K dev) Q w1" if f: "frame w [E_Stat dev (Inr st)] w1" "same_node ds st" for st w1
    unfolding device_node_is_mounted_def wp
    by (intro wp_sysI q3 [OF _ f(2)]) (use frame_trans [OF f(1)] in fastforce)
  show ?thesis using assms(1) unfolding detach_target_is_released_or_reused_def
    by (auto simp: wp intro!: wp_sysI split: sum.split intro: q1 q2 m)
qed

definition no_detach :: "event list \<Rightarrow> bool" where
  "no_detach evs \<longleftrightarrow> (\<forall>b u r. E_Detach b u r \<notin> set evs)"

lemma no_detach_simps [simp]: "no_detach []" "no_detach (a @ x) \<longleftrightarrow> no_detach a \<and> no_detach x"
  "no_detach (E_Stat p r # a) \<longleftrightarrow> no_detach a" "no_detach (E_Mounts t # a) \<longleftrightarrow> no_detach a"
  "no_detach (E_Open_Ctrl b r' # a) \<longleftrightarrow> no_detach a" "\<not> no_detach (E_Detach b u r'' # a)"
  by (auto simp: no_detach_def)

lemma target_identity_append: "evs \<noteq> [] \<Longrightarrow> target_identity ds (evs @ x) = target_identity ds evs"
  by (cases evs) (simp_all add: target_identity_def split: event.split)

lemma target_identity_known [simp]: "node_identity_valid ds \<Longrightarrow> target_identity ds evs = ds"
  by (simp add: target_identity_def)

lemma identity_of_valid [simp]: "node_identity_valid (node_identity_of ds st)" "requested (node_identity_of ds st) = requested ds"
  by (simp_all add: node_identity_of_def)

lemma wp_prepare:
  assumes "\<And>p rs evs w'. frame w evs w' \<Longrightarrow> evs \<noteq> [] \<Longrightarrow> no_detach evs \<Longrightarrow>
      (p = ATTACHED_UNIT_DETACH_COMPLETE \<Longrightarrow> shows_released (build_attached_unit_devname b u) (target_identity ds evs) evs) \<Longrightarrow>
      (p = ATTACHED_UNIT_DETACH_REQUEST \<Longrightarrow> shows_held (build_attached_unit_devname b u) (target_identity ds evs) evs
         \<and> \<not> requested ds \<and> rs = target_identity ds evs \<and> node_identity_valid rs) \<Longrightarrow> Q (p, rs) w'"
  shows "wp (prepare_attached_unit_detach K b u ds) Q w"
proof -
  let ?dev = "build_attached_unit_devname b u"
  have known: "wp (do { gone \<leftarrow> detach_target_is_released_or_reused K ?dev rs;
        if gone then ret (ATTACHED_UNIT_DETACH_COMPLETE, rs)
        else if requested rs then do { set_errno EINPROGRESS; ret (ATTACHED_UNIT_DETACH_PENDING, rs) }
        else ret (ATTACHED_UNIT_DETACH_REQUEST, rs) }) Q w1"
    if f: "frame w e1 w1" and ok: "node_identity_valid rs" "requested rs = requested ds" "no_detach e1"
      and t: "\<And>evs. target_identity ds (e1 @ evs) = rs" for e1 w1 rs
    unfolding wp
  proof (rule wp_detach_target [OF ok(1)], goal_cases)
    case (1 gone evs w2)
    have fr: "frame w (e1 @ evs) w2" using frame_trans [OF f 1(1)] .
    have e: "e1 @ evs \<noteq> []" "no_detach (e1 @ evs)" using 1 ok(3) by (auto simp: no_detach_def)
    have sh: "if gone then shows_released ?dev (target_identity ds (e1 @ evs)) (e1 @ evs)
        else shows_held ?dev (target_identity ds (e1 @ evs)) (e1 @ evs)" using 1(4) t shows_prefix by auto
    show ?case
    proof (cases "gone \<or> \<not> requested rs")
      case True
      then show ?thesis using sh t ok by (auto simp: wp intro!: assms [OF fr e])
    next
      case False
      then show ?thesis by (auto simp: wp intro!: wp_set_errnoI assms [OF frame_quiet [OF fr] e])
    qed
  qed
  show ?thesis
  proof (cases "node_identity_valid ds")
    case True
    then show ?thesis using known [OF frame_refl, of ds]
      by (simp add: prepare_attached_unit_detach_def wp)
  next
    case False
    have "wp (if node_identity_valid ds then ret (True, ds) else read_device_node_identity K ?dev ds)
        (\<lambda>(k, rs). wp (if \<not> k then do { set_errno EAGAIN; ret (ATTACHED_UNIT_DETACH_PENDING, rs) }
          else do { gone \<leftarrow> detach_target_is_released_or_reused K ?dev rs;
            if gone then ret (ATTACHED_UNIT_DETACH_COMPLETE, rs)
            else if requested rs then do { set_errno EINPROGRESS; ret (ATTACHED_UNIT_DETACH_PENDING, rs) }
            else ret (ATTACHED_UNIT_DETACH_REQUEST, rs) }) Q) w"
      unfolding read_device_node_identity_def wp if_not_P [OF False]
    proof (rule wp_sysI, goal_cases)
      case (1 r w1)
      show ?case
      proof (cases r)
        case (Inl e)
        then show ?thesis by (auto simp: wp intro!: wp_set_errnoI assms [OF frame_quiet [OF 1]])
      next
        case (Inr st)
        then show ?thesis using known [OF 1, of "node_identity_of ds st"] False
          by (simp add: target_identity_def wp cong: if_cong split del: if_split)
      qed
    qed
    then show ?thesis unfolding prepare_attached_unit_detach_def wp Let_def .
  qed
qed

text \<open>Everything a detach does. The calls end with the sign of release, or no request was sent, or one was
  sent behind the sign that the node is still the recorded one.\<close>

definition detach_outcome ::
  "attach_backend \<Rightarrow> int \<Rightarrow> attached_unit_detach_state \<Rightarrow> bool \<Rightarrow> attached_unit_detach_state \<Rightarrow> event list \<Rightarrow> bool" where
  "detach_outcome b u ds ok ds' evs \<longleftrightarrow>
     (ok \<longrightarrow> shows_released (build_attached_unit_devname b u) (target_identity ds evs) evs)
     \<and> (no_detach evs \<and> ds' = ds
        \<or> (\<exists>pre r post. evs = pre @ [E_Open_Ctrl b (Inr ()), E_Detach b u r] @ post \<and> no_detach pre \<and> no_detach post
             \<and> \<not> requested ds \<and> shows_held (build_attached_unit_devname b u) (target_identity ds evs) pre
             \<and> (case r of Inl _ \<Rightarrow> ds' = ds | Inr _ \<Rightarrow> \<not> ok \<and> post = [] \<and> ds' = (target_identity ds evs)\<lparr>requested := True\<rparr>)))"

lemma wp_detach_unit:
  assumes q: "\<And>ok ds' evs w'. frame w evs w' \<Longrightarrow> detach_outcome b u ds ok ds' evs \<Longrightarrow> Q (ok, ds') w'"
  shows "wp (detach_unit K b u ds) Q w"
  unfolding detach_unit_def wp
proof (rule wp_prepare, goal_cases)
  case (1 p rs e1 w1)
  let ?dev = "build_attached_unit_devname b u"
  have idt: "target_identity ds (e1 @ x) = target_identity ds e1" for x
    using 1(2) by (rule target_identity_append)
  show ?case
  proof (cases p)
    case ATTACHED_UNIT_DETACH_COMPLETE
    then show ?thesis using 1 q [OF 1(1), of True ds] by (simp add: wp detach_outcome_def)
  next
    case ATTACHED_UNIT_DETACH_PENDING
    then show ?thesis using 1 q [OF 1(1), of False ds] by (simp add: wp detach_outcome_def)
  next
    case req: ATTACHED_UNIT_DETACH_REQUEST
    have rs: "shows_held ?dev rs e1" "\<not> requested ds" "rs = target_identity ds e1" "node_identity_valid rs"
      using 1(5) [OF req] by auto
    have sent: "detach_outcome b u ds ok ds' (e1 @ [E_Open_Ctrl b (Inr ()), E_Detach b u r] @ post)"
      if "no_detach post" "ok \<longrightarrow> shows_released ?dev rs post" and
        "case r of Inl _ \<Rightarrow> ds' = ds | Inr _ \<Rightarrow> \<not> ok \<and> post = [] \<and> ds' = rs\<lparr>requested := True\<rparr>" for ok ds' r post
      using that rs 1(3) idt shows_prefix(1) [of ?dev rs post "e1 @ [E_Open_Ctrl b (Inr ()), E_Detach b u r]"]
      unfolding detach_outcome_def by (metis append.assoc)
    have "wp (sys_open_ctrl K b) (\<lambda>fd. wp (case fd of Inl _ \<Rightarrow> ret (False, ds)
        | Inr _ \<Rightarrow> do { r \<leftarrow> sys_detach K b u;
            (case r of Inl e \<Rightarrow> do { ok \<leftarrow> finish_failed_detach K ?dev rs e; ret (ok, ds) }
             | Inr _ \<Rightarrow> finish_accepted_detach rs) }) Q) w1"
    proof (rule wp_sysI)
      fix fd w2
      assume f2: "frame w1 [E_Open_Ctrl b fd] w2"
      note f2' = frame_trans [OF 1(1) f2]
      show "wp (case fd of Inl _ \<Rightarrow> ret (False, ds)
        | Inr _ \<Rightarrow> do { r \<leftarrow> sys_detach K b u;
            (case r of Inl e \<Rightarrow> do { ok \<leftarrow> finish_failed_detach K ?dev rs e; ret (ok, ds) }
             | Inr _ \<Rightarrow> finish_accepted_detach rs) }) Q w2"
      proof (cases fd)
        case (Inl e)
        then show ?thesis using q [OF f2', of False ds] 1(3) by (simp add: wp detach_outcome_def)
      next
        case (Inr x)
        show ?thesis unfolding Inr sum.case wp
        proof (rule wp_sysI, goal_cases)
          case (1 r w3)
          have f3: "frame w (e1 @ [E_Open_Ctrl b (Inr ()), E_Detach b u r]) w3"
            using frame_trans [OF f2' 1] Inr by simp
          show ?case
          proof (cases r)
            case acc: (Inr y)
            have "detach_outcome b u ds False (rs\<lparr>requested := True\<rparr>) (e1 @ [E_Open_Ctrl b (Inr ()), E_Detach b u r])"
              using sent [where post = "[]" and ok = False and r = r] acc by simp
            then show ?thesis using acc
              by (auto simp: wp finish_accepted_detach_def intro!: wp_set_errnoI q [OF frame_quiet [OF f3]])
          next
            case rej: (Inl e)
            have res: "Q (ok, ds) w5" if "frame w3 evs w5" "no_detach evs" "ok \<longrightarrow> shows_released ?dev rs evs" for ok evs w5
              using q [OF frame_trans [OF f3 that(1)], of ok ds] sent [where r = r, OF that(2,3)] rej by simp
            have "wp (detach_target_is_released_or_reused K ?dev rs)
                (\<lambda>gone. wp (if gone then ret True else do { set_errno e; ret False }) (\<lambda>ok. Q (ok, ds))) w3"
            proof (rule wp_detach_target [OF rs(4)], goal_cases)
              case (1 gone evs w4)
              then show ?case using res [of evs] frame_quiet [OF 1(1)]
                by (auto simp: wp no_detach_def intro!: wp_set_errnoI)
            qed
            then show ?thesis using rej rs(4) by (simp add: finish_failed_detach_def wp)
          qed
        qed
      qed
    qed
    then show ?thesis unfolding req prod.case attached_unit_detach_prepare.case wp .
  qed
qed

lemma wp_detach_attached_unit:
  assumes q: "\<And>ok ds' evs w'. frame w evs w' \<Longrightarrow> detach_outcome b u ds ok ds' evs \<Longrightarrow> Q (ok, ds') w'"
  shows "wp (detach_attached_unit K b u ds) Q w"
proof (cases "u < 0 \<or> b \<noteq> ATTACH_BACKEND_MD \<and> b \<noteq> ATTACH_BACKEND_LVD")
  case True
  then show ?thesis
    by (auto simp: detach_attached_unit_def wp intro!: wp_set_errnoI q) (simp_all add: detach_outcome_def)
next
  case False
  have "wp (detach_unit K b u ds) Q w" by (rule wp_detach_unit) (rule q)
  then show ?thesis using False
    by (auto simp: detach_attached_unit_def detach_md_unit_def detach_lvd_unit_def)
qed


text \<open>A kernel that keeps one node and accepts every request.\<close>

definition sample_node :: stat_buf where
  "sample_node = \<lparr>st_mode = S_OTHER, st_dev = 1, st_ino = 2, st_rdev = 3, st_size = 0, st_mtime = 0, st_mtime_nsec = 0,
     st_ctime = 0, st_ctime_nsec = 0\<rparr>"

definition sample_config :: image_config where
  "sample_config = \<lparr>stability_wait_seconds = 10, mount_read_only = True, force_mount = False,
     exfat_backend = ATTACH_BACKEND_LVD, ufs_backend = ATTACH_BACKEND_LVD, nested_pfs_index_cache_enabled = False,
     lvd_sector_exfat = 512, lvd_sector_ufs = 4096, lvd_sector_pfs = 4096, md_sector_exfat = 512, md_sector_ufs = 512,
     image_mode_override = (\<lambda>_. None), image_sector_size_override = (\<lambda>_. None)\<rparr>"

definition sample_kernel :: "unit kernel" where
  "sample_kernel = \<lparr>k_mnamelen = 88, k_stat = (\<lambda>_ k. (Inr sample_node, k)), k_statfs = (\<lambda>_ k. (Inl ENOENT, k)), k_mounts = (\<lambda>k. (Inr [], k)),
     k_open_ctrl = (\<lambda>_ k. (Inr (), k)), k_attach = (\<lambda>_ k. (Inr 4, k)), k_detach = (\<lambda>_ _ k. (Inr (), k)),
     k_nmount = (\<lambda>_ k. (Inr (), k)), k_unmount = (\<lambda>_ k. (Inr (), k)), k_rmdir = (\<lambda>_ k. (Inr (), k)),
     k_mkdir = (\<lambda>_ k. (Inr (), k)), k_opendir = (\<lambda>_ k. (Inr [], k)),
     k_open_file = (\<lambda>_ k. (Inl ENOENT, k)), k_fstatfs = (\<lambda>_ k. (Inl ENOENT, k)), k_pfs_cache = (\<lambda>_ k. (Inl ENOENT, k)),
     k_nmount_errmsg = (\<lambda>k. ([], k)), k_time = (\<lambda>k. (1000, k)), k_usleep = (\<lambda>k. k),
     k_stop = (\<lambda>k. (False, k)), k_suspended = (\<lambda>k. (False, k)), k_protected = (\<lambda>_ k. (False, k)),
     k_config = (\<lambda>k. (sample_config, k)), k_autotune = (\<lambda>_ _ k. (None, k)), k_cleanup_links = (\<lambda>_ k. k)\<rparr>"


section \<open>Waiting for the release\<close>

lemma wp_node_wait:
  assumes "\<And>ok evs w'. frame w evs w' \<Longrightarrow> no_detach evs \<Longrightarrow>
      (ok \<Longrightarrow> \<exists>p r. evs = p @ [E_Stat dev r] \<and> (if ex then \<exists>st. r = Inr st else r = Inl ENOENT \<or> r = Inl ENOTDIR)) \<Longrightarrow> Q ok w'"
  shows "wp (node_wait_loop K dev ex n) Q w"
  using assms
proof (induction n arbitrary: w)
  case 0
  then show ?case using 0 [OF frame_refl] by (simp add: wp)
next
  case (Suc n)
  show ?case unfolding node_wait_loop.simps wp Let_def
  proof (rule wp_sysI, goal_cases)
    case (1 r w1)
    let ?seen = "case r of Inr _ \<Rightarrow> ex | Inl e \<Rightarrow> \<not> ex \<and> (e = ENOENT \<or> e = ENOTDIR)"
    show ?case
    proof (cases ?seen)
      case True
      then show ?thesis using Suc.prems [OF 1, of True] by (cases r) auto
    next
      case False
      have "wp (usleep K) (\<lambda>_. wp (node_wait_loop K dev ex n) Q) w1"
      proof (rule wp_usleepI)
        fix w2
        assume "frame w1 [] w2"
        then have f: "frame w [E_Stat dev r] w2" using frame_quiet 1 by blast
        show "wp (node_wait_loop K dev ex n) Q w2"
        proof (rule Suc.IH)
          fix ok evs w'
          assume a: "frame w2 evs w'" "no_detach evs"
            "ok \<Longrightarrow> \<exists>p r. evs = p @ [E_Stat dev r] \<and> (if ex then \<exists>st. r = Inr st else r = Inl ENOENT \<or> r = Inl ENOTDIR)"
          show "Q ok w'"
            by (rule Suc.prems [OF frame_trans [OF f a(1)]]) (use a(2,3) in \<open>auto, metis append_Cons append_Nil\<close>)
        qed
      qed
      then show ?thesis using False by (simp add: wp)
    qed
  qed
qed

lemma wp_wait_release:
  assumes "\<And>ok evs w'. frame w evs w' \<Longrightarrow> no_detach evs \<Longrightarrow>
      (ok \<Longrightarrow> shows_released (build_attached_unit_devname b u) ds evs) \<Longrightarrow> Q ok w'"
  shows "wp (wait_for_attached_unit_release K b u ds) Q w"
proof (cases "node_identity_valid ds")
  case False
  then show ?thesis by (auto simp: wait_for_attached_unit_release_def wp intro!: wp_set_errnoI assms)
next
  case True
  let ?dev = "build_attached_unit_devname b u"
  have "wp (node_wait_loop K ?dev False LVD_NODE_WAIT_RETRIES) (\<lambda>absent. wp (if absent then ret True else do {
      gone \<leftarrow> detach_target_is_released_or_reused K ?dev ds;
      if gone then ret True else do { set_errno EINPROGRESS; ret False } }) Q) w"
  proof (rule wp_node_wait, goal_cases)
    case (1 absent e1 w1)
    show ?case
    proof (cases absent)
      case True
      then have "shows_released ?dev ds e1" using 1(3) by (auto simp: shows_released_def)
      then show ?thesis using assms [OF 1(1,2), of True] True by (simp add: wp)
    next
      case False
      have "wp (detach_target_is_released_or_reused K ?dev ds)
          (\<lambda>gone. wp (if gone then ret True else do { set_errno EINPROGRESS; ret False }) Q) w1"
      proof (rule wp_detach_target [OF \<open>node_identity_valid ds\<close>], goal_cases)
        case (1 gone e2 w2)
        note f = frame_trans [OF \<open>frame w e1 w1\<close> 1(1)]
        have nd: "no_detach (e1 @ e2)" using \<open>no_detach e1\<close> 1(5) by (auto simp: no_detach_def)
        show ?case
        proof (cases gone)
          case True
          then show ?thesis using assms [OF f nd, of True] 1(4) shows_prefix(1) by (simp add: wp)
        next
          case False
          then show ?thesis by (auto simp: wp intro!: wp_set_errnoI assms [OF frame_quiet [OF f] nd])
        qed
      qed
      then show ?thesis using False by (simp add: wp)
    qed
  qed
  then show ?thesis using True by (simp add: wait_for_attached_unit_release_def wait_for_dev_node_state_def wp Let_def)
qed

end
