(* ===== verification/Stability.thy ===== *)
theory Stability
  imports Kernel
begin

text \<open>
  \<^verbatim>\<open>src/sm_stability.c\<close>: a source is left alone until nothing has been written to it for the configured
  time. The clock and the file system are those of the kernel argument; \<^verbatim>\<open>difftime\<close> of two times is their
  difference.
\<close>

definition get_path_last_change_time :: "stat_buf option \<Rightarrow> int" where
  "get_path_last_change_time st =
     (case st of None \<Rightarrow> 0 | Some s \<Rightarrow> if st_ctime s > st_mtime s then st_ctime s else st_mtime s)"

text \<open>The answer, the age of the latest change and the error of \<^verbatim>\<open>stat\<close>.\<close>

definition is_path_stable_now :: "'k kernel \<Rightarrow> string \<Rightarrow> (('k, 'm) world_scheme, bool \<times> int \<times> errno option) state" where
  "is_path_stable_now K p = do {
     now \<leftarrow> ask (k_time K);
     r \<leftarrow> sys_stat K p;
     (case r of
        Inl e \<Rightarrow> ret (False, -1, Some e)
      | Inr st \<Rightarrow>
          (let root_diff = now - get_path_last_change_time (Some st) in
           if root_diff < 0 then ret (True, root_diff, None)
           else do {
             cfg \<leftarrow> ask (k_config K);
             ret (root_diff \<ge> uint (stability_wait_seconds cfg), root_diff, None)
           }))
   }"

definition wait_for_stability_fast :: "'k kernel \<Rightarrow> string \<Rightarrow> (('k, 'm) world_scheme, bool) state" where
  "wait_for_stability_fast K p = do { (stable, _, _) \<leftarrow> is_path_stable_now K p; ret stable }"

text \<open>\<^verbatim>\<open>is_source_stable_for_mount\<close> of \<^verbatim>\<open>src/sm_mount_device.c\<close>.\<close>

definition is_source_stable_for_mount :: "'k kernel \<Rightarrow> string \<Rightarrow> (('k, 'm) world_scheme, bool) state" where
  "is_source_stable_for_mount K p = do { (stable, _, _) \<leftarrow> is_path_stable_now K p; ret stable }"

text \<open>A source counts as stable exactly when the kernel knows it and its latest change lies in the future or at least
  the configured time back.\<close>

lemma stable_sources:
  "run_state (is_source_stable_for_mount K p) w = (b, w') \<Longrightarrow> k_time K (w_kernel w) = (now, k1)
   \<Longrightarrow> k_stat K p k1 = (Inr st, k2) \<Longrightarrow> k_config K k2 = (cfg, k3)
   \<Longrightarrow> b \<longleftrightarrow> now < max (st_ctime st) (st_mtime st)
             \<or> now - max (st_ctime st) (st_mtime st) \<ge> uint (stability_wait_seconds cfg)"
  by (auto simp: is_source_stable_for_mount_def is_path_stable_now_def ask_def sys_def Let_def max_def
      get_path_last_change_time_def split: if_splits)

lemma missing_source_unstable:
  "run_state (is_source_stable_for_mount K p) w = (b, w') \<Longrightarrow> k_stat K p (snd (k_time K (w_kernel w))) = (Inl e, k2) \<Longrightarrow> \<not> b"
  by (auto simp: is_source_stable_for_mount_def is_path_stable_now_def ask_def sys_def split: if_splits prod.splits)

end
