(* ===== verification/Image_Unmount.thy ===== *)
theory Image_Unmount
  imports Stability Mount_Device Game_Cache Path_State
begin

text \<open>
  The release half of \<^verbatim>\<open>src/sm_image.c\<close>: an image is unmounted, its device detached and its mount directory
  removed, in this order. Releasing a PFSC container first releases the images stored in it, which is a
  recursion: \<open>unmount_image_impl\<close> takes the number of levels it may descend, and \<open>w_fault\<close> records that it ran out of
  them. \<open>w_fault\<close> is also set where the code would dereference NULL. Log lines are left out.
\<close>

section \<open>The state of the image code\<close>

text \<open>The last error of \<^verbatim>\<open>src/sm_log.c\<close>; the texts of the messages are named by their keys.\<close>

datatype error_text =
    IMAGE_UNREADABLE_DAMAGED
  | IMAGE_CACHE_FULL_TRACK nat string
  | FS_CLUSTER_SMALL u64 u32 string
  | MOUNT_ERRMSG string

record sm_error =
  se_valid :: bool
  se_code :: "errno option"
  se_message :: "error_text option"
  se_path :: string
  se_notified :: bool

datatype image_notice =
    IMAGE_REJECTED_CLUSTER_AUTOTUNED string u64 u32 u32
  | IMAGE_REJECTED_CLUSTER_CONFIG string u64 u32
  | ERROR_MESSAGE error_text string
  | IMAGE_MOUNT_FAILED "errno option" string

record 'k image_world = "'k dev_world" +
  w_games :: game_state
  w_paths :: path_state
  w_error :: sm_error
  w_notices :: "image_notice list"
  w_fault :: bool

definition fault :: "(('k, 'm) image_world_scheme, unit) state" where
  "fault = modify (\<lambda>w. w\<lparr>w_fault := True\<rparr>)"

text \<open>An operation of the image cache. The node of a device is looked up while it runs; a failure sets
  \<^verbatim>\<open>errno\<close> unless the operation leaves it alone.\<close>

definition kernel_host :: "'k kernel \<Rightarrow> 'k \<Rightarrow> host" where
  "kernel_host K k = \<lparr>h_stat = (\<lambda>p. fst (k_stat K p k)), h_realpath = (\<lambda>_. None)\<rparr>"

definition cache_op ::
  "'k kernel \<Rightarrow> (host \<Rightarrow> image_cache \<Rightarrow> 'a res \<times> image_cache) \<Rightarrow> (('k, 'm) dev_world_scheme, 'a res) state" where
  "cache_op K f = State (\<lambda>w. let (r, c) = f (kernel_host K (w_kernel w)) (w_cache w) in
     (r, w\<lparr>w_cache := c, w_errno := (case r of Inl e \<Rightarrow> if e = E_UNSET then w_errno w else Some e | Inr _ \<Rightarrow> w_errno w)\<rparr>))"

definition ok :: "'a res \<Rightarrow> bool" where
  "ok r \<longleftrightarrow> (case r of Inl _ \<Rightarrow> False | Inr _ \<Rightarrow> True)"

definition errno_or :: "errno \<Rightarrow> (('k, 'm) world_scheme, errno) state" where
  "errno_or d = do { e \<leftarrow> get_errno; ret (case e of None \<Rightarrow> d | Some x \<Rightarrow> x) }"

section \<open>Releasing one image\<close>

record unmount_result =
  filesystem_released :: bool
  device_released :: bool
  directory_removed :: bool
  ur_error :: "errno option"

definition unmount_completed :: "unmount_result \<Rightarrow> bool" where
  "unmount_completed r \<longleftrightarrow> filesystem_released r \<and> device_released r \<and> directory_removed r"

definition unmount_failed :: "errno \<Rightarrow> (('k, 'm) world_scheme, unmount_result) state" where
  "unmount_failed e = do {
     set_errno e;
     ret \<lparr>filesystem_released = False, device_released = False, directory_removed = False, ur_error = Some e\<rparr> }"

definition entry_changed :: "image_cache_entry \<Rightarrow> image_cache_entry \<Rightarrow> bool" where
  "entry_changed current expected \<longleftrightarrow>
     e_generation current \<noteq> e_generation expected \<or> e_path current \<noteq> e_path expected
     \<or> e_mount_point current \<noteq> e_mount_point expected \<or> e_unit_id current \<noteq> e_unit_id expected
     \<or> e_backend current \<noteq> e_backend expected
     \<or> node_identity_valid (e_detach_state expected)
       \<and> (\<not> node_identity_valid (e_detach_state current)
          \<or> node_device (e_detach_state current) \<noteq> node_device (e_detach_state expected)
          \<or> node_inode (e_detach_state current) \<noteq> node_inode (e_detach_state expected)
          \<or> node_rdev (e_detach_state current) \<noteq> node_rdev (e_detach_state expected))"

definition invalidate_matching_image_cache_entry ::
  "'k kernel \<Rightarrow> nat \<Rightarrow> image_cache_entry \<Rightarrow> (('k, 'm) dev_world_scheme, bool) state" where
  "invalidate_matching_image_cache_entry K index expected = do {
     c \<leftarrow> gets w_cache;
     (case get_image_cache_entry c (int index) of
        None \<Rightarrow> do { set_errno ESTALE; ret False }
      | Some current \<Rightarrow>
          if entry_changed current expected then do { set_errno ESTALE; ret False }
          else do {
            r \<leftarrow> cache_op K (\<lambda>h c. invalidate_image_cache_entry c (int index) current);
            ret (ok r)
          })
   }"

definition has_device :: "image_cache_entry \<Rightarrow> bool" where
  "has_device e \<longleftrightarrow> e_backend e \<noteq> ATTACH_BACKEND_NONE \<and> e_unit_id e \<ge> 0"

definition detach_cached_image_device ::
  "'k kernel \<Rightarrow> string \<Rightarrow> u64 \<Rightarrow> attach_backend \<Rightarrow> int \<Rightarrow> (('k, 'm) dev_world_scheme, bool) state" where
  "detach_cached_image_device K file_path gen b u = do {
     r \<leftarrow> cache_op K (\<lambda>h c. claim_image_cache_detach h c (Some file_path) gen u b);
     (case r of
        Inl _ \<Rightarrow> ret False
      | Inr entry \<Rightarrow> do {
          let detach_was_requested = requested (e_detach_state entry);
          (detached, ds) \<leftarrow> detach_attached_unit K b u (e_detach_state entry);
          detach_errno \<leftarrow> get_errno;
          f \<leftarrow> cache_op K (\<lambda>h c. finish_image_cache_detach_attempt c (Some file_path) (e_generation entry) u b ds);
          if \<not> ok f then do { set_errno ESTALE; ret False }
          else if detached then ret True
          else if \<not> detach_was_requested \<and> requested ds then wait_for_attached_unit_release K b u ds
          else do { put_errno detach_errno; ret False }
        })
   }"

text \<open>The device the release is about, and the reservation of its detach in the cache: the error, or the generation of the
  record that tracks it (0 when there is no device).\<close>

definition resolve_release_device ::
  "'k kernel \<Rightarrow> string \<Rightarrow> int \<Rightarrow> attach_backend \<Rightarrow> (('k, 'm) dev_world_scheme, attach_backend \<times> int) state" where
  "resolve_release_device K mp u b =
     (if u < 0 \<or> b = ATTACH_BACKEND_NONE
      then do {
        d \<leftarrow> resolve_device_from_mount K mp;
        ret (case d of None \<Rightarrow> (ATTACH_BACKEND_NONE, -1) | Some x \<Rightarrow> x)
      }
      else ret (b, u))"

definition reserve_release ::
  "'k kernel \<Rightarrow> string \<Rightarrow> attach_backend \<Rightarrow> int \<Rightarrow> u64 \<Rightarrow> (('k, 'm) dev_world_scheme, u64 res) state" where
  "reserve_release K file_path b u expected = do {
     c \<leftarrow> gets w_cache;
     (case find_image_cache_entry c (Some file_path) of
        Some (e, _) \<Rightarrow>
          if \<not> has_device e then ret (if b \<noteq> ATTACH_BACKEND_NONE \<and> u \<ge> 0 then Inl ESTALE else Inr 0)
          else if expected \<noteq> 0 \<and> e_generation e \<noteq> expected \<or> e_unit_id e \<noteq> u \<or> e_backend e \<noteq> b then ret (Inl ESTALE)
          else if e_state e = ATTACHED_DEVICE_ATTACHING \<and> expected = 0 then ret (Inl EBUSY)
          else do {
            r \<leftarrow> cache_op K (\<lambda>h c. mark_image_cache_detach_requested h c (Some (e_path e)) (e_generation e)
                    (e_unit_id e) (e_backend e));
            if ok r then ret (Inr (e_generation e)) else do { x \<leftarrow> errno_or ESTALE; ret (Inl x) }
          }
      | None \<Rightarrow> ret (if b \<noteq> ATTACH_BACKEND_NONE \<and> u \<ge> 0 then Inl ESTALE else Inr 0))
   }"

text \<open>The stacked layers, at most \<^verbatim>\<open>MAX_LAYERED_UNMOUNT_ATTEMPTS\<close> of them; an error ends the release.\<close>

abbreviation MAX_LAYERED_UNMOUNT_ATTEMPTS :: nat where "MAX_LAYERED_UNMOUNT_ATTEMPTS \<equiv> 4"

fun unmount_layers :: "'k kernel \<Rightarrow> string \<Rightarrow> nat \<Rightarrow> (('k, 'm) world_scheme, errno option) state" where
  "unmount_layers K mp 0 = ret None"
| "unmount_layers K mp (Suc n) = do {
     active \<leftarrow> is_active_image_mount_point K mp;
     if \<not> active then ret None
     else do {
       r \<leftarrow> sys_unmount K mp;
       (case r of
          Inr _ \<Rightarrow> unmount_layers K mp n
        | Inl e \<Rightarrow> ret (if e = ENOENT \<or> e = EINVAL then None else Some e))
     }
   }"

text \<open>The end of the release, once no file system is mounted there any more.\<close>

definition release_device_and_directory ::
  "'k kernel \<Rightarrow> string \<Rightarrow> string \<Rightarrow> u64 \<Rightarrow> attach_backend \<Rightarrow> int \<Rightarrow> (('k, 'm) dev_world_scheme, unmount_result) state" where
  "release_device_and_directory K file_path mp gen b u = do {
     (dev_ok, dev_error) \<leftarrow>
       (if b \<noteq> ATTACH_BACKEND_NONE \<and> u \<ge> 0
        then do {
          done \<leftarrow> detach_cached_image_device K file_path gen b u;
          if done then ret (True, None) else do { e \<leftarrow> errno_or EIO; ret (False, Some e) }
        }
        else ret (True, None));
     r \<leftarrow> sys_rmdir K mp;
     let (removed, dir_error) = (case r of Inr _ \<Rightarrow> (True, None) | Inl e \<Rightarrow> if e = ENOENT then (True, None) else (False, Some e));
     let error = (case dev_error of Some e \<Rightarrow> Some e | None \<Rightarrow> dir_error);
     (case error of Some e \<Rightarrow> set_errno e | None \<Rightarrow> ret ());
     ret \<lparr>filesystem_released = True, device_released = dev_ok, directory_removed = removed, ur_error = error\<rparr>
   }"

definition release_filesystem ::
  "'k kernel \<Rightarrow> string \<Rightarrow> string \<Rightarrow> u64 \<Rightarrow> attach_backend \<Rightarrow> int \<Rightarrow> (('k, 'm) dev_world_scheme, unmount_result) state" where
  "release_filesystem K file_path mp gen b u = do {
     r \<leftarrow> unmount_layers K mp MAX_LAYERED_UNMOUNT_ATTEMPTS;
     (case r of
        Some e \<Rightarrow> unmount_failed e
      | None \<Rightarrow> do {
          active \<leftarrow> is_active_image_mount_point K mp;
          if active then unmount_failed EBUSY
          else release_device_and_directory K file_path mp gen b u
        })
   }"

section \<open>Containers\<close>

text \<open>A release of the image of a slot, as the loops over the cache call it.\<close>

type_synonym ('k, 'm) unmounter =
  "string \<Rightarrow> int \<Rightarrow> attach_backend \<Rightarrow> bool \<Rightarrow> u64 \<Rightarrow> (('k, 'm) image_world_scheme, unmount_result) state"

text \<open>One slot of the loop over the images stored in a container; \<open>unmount\<close> is the recursive call, \<open>all_unmounted\<close> the flag
  the loop carries.\<close>

definition unmount_child_step ::
  "'k kernel \<Rightarrow> ('k, 'm) unmounter \<Rightarrow> string \<Rightarrow> bool \<Rightarrow> nat \<Rightarrow> bool \<Rightarrow> (('k, 'm) image_world_scheme, bool) state" where
  "unmount_child_step K unmount mp cleanup k all_unmounted = do {
     c \<leftarrow> gets w_cache;
     (case get_image_cache_entry c (int k) of
        None \<Rightarrow> ret all_unmounted
      | Some e \<Rightarrow>
          if \<not> path_matches_root_or_child (e_path e) mp then ret all_unmounted
          else if e_state e = ATTACHED_DEVICE_ATTACHING then do { set_errno EBUSY; ret False }
          else if \<not> has_device e then ret all_unmounted
          else do {
            r \<leftarrow> unmount (e_path e) (e_unit_id e) (e_backend e) cleanup 0;
            if unmount_completed r
            then do { _ \<leftarrow> invalidate_matching_image_cache_entry K k e; ret all_unmounted }
            else do { (case ur_error r of Some x \<Rightarrow> set_errno x | None \<Rightarrow> ret ()); ret False }
          })
   }"

definition unmount_child_image_mounts_for_container ::
  "'k kernel \<Rightarrow> ('k, 'm) unmounter \<Rightarrow> string \<Rightarrow> bool \<Rightarrow> (('k, 'm) image_world_scheme, bool) state" where
  "unmount_child_image_mounts_for_container K unmount mp cleanup =
     fold_m (unmount_child_step K unmount mp cleanup) [0..<MAX_IMAGE_MOUNTS] True"

text \<open>\<^verbatim>\<open>unmount_image_impl\<close> with its recursive calls as an argument.\<close>

definition release_tracked ::
  "'k kernel \<Rightarrow> ('k, 'm) unmounter \<Rightarrow> string \<Rightarrow> image_fs_type \<Rightarrow> string \<Rightarrow> attach_backend \<Rightarrow> int \<Rightarrow> bool \<Rightarrow> u64
   \<Rightarrow> (('k, 'm) image_world_scheme, unmount_result) state" where
  "release_tracked K unmount file_path t mp b u cleanup gen = do {
     children \<leftarrow> (if t = IMAGE_FS_PFSC_CONTAINER then unmount_child_image_mounts_for_container K unmount mp cleanup else ret True);
     if \<not> children then do { e \<leftarrow> errno_or EBUSY; unmount_failed e }
     else do {
       (if cleanup
        then do { cleanup_links K mp; modify (\<lambda>w. w\<lparr>w_games := clear_cached_game mp (w_games w)\<rparr>) }
        else ret ());
       release_filesystem K file_path mp gen b u
     }
   }"

definition unmount_image_body :: "'k kernel \<Rightarrow> ('k, 'm) unmounter \<Rightarrow> ('k, 'm) unmounter" where
  "unmount_image_body K unmount file_path u b cleanup expected = do {
     protected \<leftarrow> ask (k_protected K file_path);
     if protected then unmount_failed EBUSY
     else do {
       let t = detect_image_fs_type_for_path file_path None;
       let mp = build_image_mount_point_for_fs (k_mnamelen K) file_path t;
       (rb, ru) \<leftarrow> resolve_release_device K mp u b;
       r \<leftarrow> reserve_release K file_path rb ru expected;
       (case r of
          Inl e \<Rightarrow> unmount_failed e
        | Inr gen \<Rightarrow> release_tracked K unmount file_path t mp rb ru cleanup gen)
     }
   }"

fun unmount_image_impl :: "'k kernel \<Rightarrow> nat \<Rightarrow> ('k, 'm) unmounter" where
  "unmount_image_impl K 0 file_path u b cleanup expected = do { fault; unmount_failed EBUSY }"
| "unmount_image_impl K (Suc n) file_path u b cleanup expected =
     unmount_image_body K (unmount_image_impl K n) file_path u b cleanup expected"

text \<open>Containers cannot be nested deeper than there are slots.\<close>

definition NESTED_RELEASES :: nat where "NESTED_RELEASES = Suc MAX_IMAGE_MOUNTS"

definition unmount_image ::
  "'k kernel \<Rightarrow> string \<Rightarrow> int \<Rightarrow> attach_backend \<Rightarrow> (('k, 'm) image_world_scheme, unmount_result) state" where
  "unmount_image K file_path u b = unmount_image_impl K NESTED_RELEASES file_path u b True 0"

definition unmount_runtime_image ::
  "'k kernel \<Rightarrow> string \<Rightarrow> int \<Rightarrow> attach_backend \<Rightarrow> (('k, 'm) image_world_scheme, unmount_result) state" where
  "unmount_runtime_image K file_path u b = unmount_image_impl K NESTED_RELEASES file_path u b False 0"

section \<open>Releases by path, by root and at the end\<close>

definition release_runtime_image_attachment :: "'k kernel \<Rightarrow> string \<Rightarrow> u64 \<Rightarrow> (('k, 'm) image_world_scheme, bool) state" where
  "release_runtime_image_attachment K file_path gen = do {
     c \<leftarrow> gets w_cache;
     (case find_image_cache_entry c (Some file_path) of
        None \<Rightarrow> do { set_errno ESTALE; ret False }
      | Some (e, index) \<Rightarrow>
          if e_generation e \<noteq> gen then do { set_errno ESTALE; ret False }
          else if \<not> has_device e then do {
            r \<leftarrow> cache_op K (\<lambda>h c. cancel_image_attachment c (Some file_path) gen);
            ret (ok r)
          }
          else do {
            r \<leftarrow> unmount_image_impl K NESTED_RELEASES (e_path e) (e_unit_id e) (e_backend e) False gen;
            if \<not> unmount_completed r then ret False else invalidate_matching_image_cache_entry K index e
          })
   }"

definition release_runtime_image_mount :: "'k kernel \<Rightarrow> string \<Rightarrow> (('k, 'm) image_world_scheme, bool) state" where
  "release_runtime_image_mount K file_path = do {
     c \<leftarrow> gets w_cache;
     (case find_image_cache_entry c (Some file_path) of
        None \<Rightarrow> ret True
      | Some (e, index) \<Rightarrow>
          if e_state e = ATTACHED_DEVICE_ATTACHING then do { set_errno EBUSY; ret False }
          else if \<not> has_device e then ret True
          else do {
            r \<leftarrow> unmount_runtime_image K (e_path e) (e_unit_id e) (e_backend e);
            if \<not> unmount_completed r then ret False
            else do { _ \<leftarrow> invalidate_matching_image_cache_entry K index e; ret True }
          })
   }"

text \<open>The unmount of one slot with the removal of its record, shared by the loops over the cache.\<close>

definition unmount_slot :: "'k kernel \<Rightarrow> nat \<Rightarrow> image_cache_entry \<Rightarrow> (('k, 'm) image_world_scheme, bool) state" where
  "unmount_slot K k e = do {
     r \<leftarrow> unmount_runtime_image K (e_path e) (e_unit_id e) (e_backend e);
     if unmount_completed r then do { _ \<leftarrow> invalidate_matching_image_cache_entry K k e; ret True } else ret False
   }"

text \<open>The flags \<open>any_remaining\<close>, \<open>progress\<close> and \<open>all_released\<close> of a pass.\<close>

definition release_pass_step ::
  "'k kernel \<Rightarrow> nat \<Rightarrow> bool \<times> bool \<times> bool \<Rightarrow> (('k, 'm) image_world_scheme, bool \<times> bool \<times> bool) state" where
  "release_pass_step K k flags = (case flags of (any_remaining, progress, all_released) \<Rightarrow> do {
     c \<leftarrow> gets w_cache;
     (case get_image_cache_entry c (int k) of
        None \<Rightarrow> ret flags
      | Some e \<Rightarrow>
          if e_state e = ATTACHED_DEVICE_ATTACHING then ret (True, progress, False)
          else if \<not> has_device e then ret flags
          else do {
            protected \<leftarrow> ask (k_protected K (e_path e));
            if protected then ret flags
            else do {
              released \<leftarrow> unmount_slot K k e;
              ret (if released then (any_remaining, True, all_released) else (True, progress, False))
            }
          })
   })"

fun release_passes :: "'k kernel \<Rightarrow> nat \<Rightarrow> bool \<Rightarrow> (('k, 'm) image_world_scheme, bool) state" where
  "release_passes K 0 all_released = ret all_released"
| "release_passes K (Suc n) all_released = do {
     (any_remaining, progress, all_released') \<leftarrow> fold_m (release_pass_step K) [0..<MAX_IMAGE_MOUNTS] (False, False, all_released);
     if \<not> any_remaining then ret True
     else if \<not> progress then ret all_released'
     else release_passes K n all_released'
   }"

definition release_runtime_image_mounts :: "'k kernel \<Rightarrow> (('k, 'm) image_world_scheme, bool) state" where
  "release_runtime_image_mounts K = release_passes K MAX_LAYERED_UNMOUNT_ATTEMPTS True"

definition service_pending_image_detach ::
  "'k kernel \<Rightarrow> nat \<Rightarrow> image_cache_entry \<Rightarrow> (('k, 'm) image_world_scheme, bool) state" where
  "service_pending_image_detach K k e =
     (if e_state e \<noteq> ATTACHED_DEVICE_DETACH_REQUESTED then ret False
      else do { _ \<leftarrow> unmount_slot K k e; ret True })"

definition suspend_unmount_step :: "'k kernel \<Rightarrow> nat \<Rightarrow> bool \<Rightarrow> (('k, 'm) image_world_scheme, bool) state" where
  "suspend_unmount_step K k all_unmounted = do {
     c \<leftarrow> gets w_cache;
     (case get_image_cache_entry c (int k) of
        None \<Rightarrow> ret all_unmounted
      | Some e \<Rightarrow>
          if \<not> is_usb_storage_path (e_path e) then ret all_unmounted
          else if e_state e = ATTACHED_DEVICE_ATTACHING then ret False
          else if \<not> has_device e then ret all_unmounted
          else do { released \<leftarrow> unmount_slot K k e; ret (if released then all_unmounted else False) })
   }"

definition unmount_usb_image_mounts_for_suspend :: "'k kernel \<Rightarrow> (('k, 'm) image_world_scheme, bool) state" where
  "unmount_usb_image_mounts_for_suspend K = fold_m (suspend_unmount_step K) [0..<MAX_IMAGE_MOUNTS] True"

definition shutdown_pass_step :: "'k kernel \<Rightarrow> nat \<Rightarrow> bool \<times> bool \<Rightarrow> (('k, 'm) image_world_scheme, bool \<times> bool) state" where
  "shutdown_pass_step K k flags = (case flags of (any_remaining, progress) \<Rightarrow> do {
     c \<leftarrow> gets w_cache;
     (case get_image_cache_entry c (int k) of
        None \<Rightarrow> ret flags
      | Some e \<Rightarrow>
          if \<not> has_device e then ret flags
          else do { released \<leftarrow> unmount_slot K k e; ret (if released then (any_remaining, True) else (True, progress)) })
   })"

fun shutdown_passes :: "'k kernel \<Rightarrow> nat \<Rightarrow> (('k, 'm) image_world_scheme, bool) state" where
  "shutdown_passes K 0 = ret False"
| "shutdown_passes K (Suc n) = do {
     (any_remaining, progress) \<leftarrow> fold_m (shutdown_pass_step K) [0..<MAX_IMAGE_MOUNTS] (False, False);
     if \<not> any_remaining then ret True
     else if \<not> progress then ret False
     else shutdown_passes K n
   }"

definition shutdown_image_mounts :: "'k kernel \<Rightarrow> (('k, 'm) image_world_scheme, bool) state" where
  "shutdown_image_mounts K = shutdown_passes K MAX_LAYERED_UNMOUNT_ATTEMPTS"

text \<open>Empty directories below the mount bases.\<close>

definition remove_mount_dir_step :: "'k kernel \<Rightarrow> string \<Rightarrow> string option \<Rightarrow> dirent \<Rightarrow> (('k, 'm) world_scheme, bool) state" where
  "remove_mount_dir_step K base skip_name d = do {
     stop \<leftarrow> ask (k_stop K);
     if stop then ret False
     else if starts_with ''.'' (fst d) \<or> skip_name = Some (fst d) then ret True
     else do {
       let full_path = strlcpy (base @ ''/'' @ fst d) MAX_PATH;
       is_dir \<leftarrow> (case snd d of
           DT_DIR \<Rightarrow> ret True
         | DT_UNKNOWN \<Rightarrow> do { r \<leftarrow> sys_stat K full_path; ret (case r of Inr st \<Rightarrow> st_mode st = S_DIR | Inl _ \<Rightarrow> False) }
         | _ \<Rightarrow> ret False);
       (if is_dir then do { _ \<leftarrow> sys_rmdir K full_path; ret () } else ret ());
       ret True
     }
   }"

definition cleanup_mount_dirs_under :: "'k kernel \<Rightarrow> string \<Rightarrow> string option \<Rightarrow> (('k, 'm) world_scheme, unit) state" where
  "cleanup_mount_dirs_under K base skip_name = do {
     d \<leftarrow> sys_opendir K base;
     (case d of Inl _ \<Rightarrow> ret () | Inr entries \<Rightarrow> while_m (remove_mount_dir_step K base skip_name) entries)
   }"

definition cleanup_mount_dirs :: "'k kernel \<Rightarrow> (('k, 'm) world_scheme, unit) state" where
  "cleanup_mount_dirs K = do {
     cleanup_mount_dirs_under K PFSC_IMAGE_MOUNT_BASE None;
     cleanup_mount_dirs_under K IMAGE_MOUNT_BASE (Some ''pfsc'')
   }"

end
