(* ===== verification/Image_Mount.thy ===== *)
theory Image_Mount
  imports Image_Unmount
begin

text \<open>
  The mount half of \<^verbatim>\<open>src/sm_image.c\<close>: an image is reserved in the cache, attached to a device, mounted and checked,
  and only then recorded as mounted. Whatever fails on the way is undone through \<open>release_runtime_image_attachment\<close>.
  Log lines are left out.
\<close>

section \<open>The last error\<close>

definition no_error :: sm_error where
  "no_error = \<lparr>se_valid = False, se_code = None, se_message = None, se_path = [], se_notified = False\<rparr>"

definition sm_error_clear :: "(('k, 'm) image_world_scheme, unit) state" where
  "sm_error_clear = modify (\<lambda>w. w\<lparr>w_error := no_error\<rparr>)"

definition sm_error_set :: "errno option \<Rightarrow> string \<Rightarrow> error_text \<Rightarrow> (('k, 'm) image_world_scheme, unit) state" where
  "sm_error_set code p text = modify (\<lambda>w. w\<lparr>w_error := \<lparr>se_valid = True, se_code = code, se_message = Some text,
     se_path = strlcpy p MAX_PATH, se_notified = False\<rparr>\<rparr>)"

definition sm_error_mark_notified :: "(('k, 'm) image_world_scheme, unit) state" where
  "sm_error_mark_notified = modify (\<lambda>w. w\<lparr>w_error := (w_error w)\<lparr>se_notified := True\<rparr>\<rparr>)"

definition sm_error_notified :: "(('k, 'm) image_world_scheme, bool) state" where
  "sm_error_notified = gets (\<lambda>w. se_notified (w_error w))"

definition notify :: "image_notice \<Rightarrow> (('k, 'm) image_world_scheme, unit) state" where
  "notify n = modify (\<lambda>w. w\<lparr>w_notices := w_notices w @ [n]\<rparr>)"

definition notify_image_mount_failed :: "string \<Rightarrow> errno option \<Rightarrow> (('k, 'm) image_world_scheme, unit) state" where
  "notify_image_mount_failed p mount_err = do {
     e \<leftarrow> gets w_error;
     (case se_message e of
        Some text \<Rightarrow>
          if se_valid e \<and> text \<noteq> MOUNT_ERRMSG [] then do {
            notify (ERROR_MESSAGE text (if se_path e \<noteq> [] then se_path e else p));
            sm_error_mark_notified
          }
          else notify (IMAGE_MOUNT_FAILED mount_err p)
      | None \<Rightarrow> notify (IMAGE_MOUNT_FAILED mount_err p))
   }"

section \<open>Attaching the device\<close>

definition rollback_unpublished_attached_unit ::
  "'k kernel \<Rightarrow> attach_backend \<Rightarrow> int \<Rightarrow> string \<Rightarrow> (('k, 'm) world_scheme, unit) state" where
  "rollback_unpublished_attached_unit K b u devname = do {
     (detached, ds) \<leftarrow> detach_attached_unit K b u blank_detach_state;
     (detached, ds) \<leftarrow>
       (if \<not> detached \<and> \<not> node_identity_valid ds
        then do {
          present \<leftarrow> wait_for_dev_node_state K devname True;
          if present then detach_attached_unit K b u ds else ret (detached, ds)
        }
        else ret (detached, ds));
     (if \<not> detached \<and> requested ds then do { _ \<leftarrow> wait_for_attached_unit_release K b u ds; ret () } else ret ())
   }"

definition prepare_nested_image_backing_cache :: "'k kernel \<Rightarrow> string \<Rightarrow> (('k, 'm) world_scheme, unit) state" where
  "prepare_nested_image_backing_cache K file_path = do {
     fd \<leftarrow> sys_open_file K file_path;
     if \<not> ok fd then ret ()
     else do {
       r \<leftarrow> sys_fstatfs K file_path;
       (case r of
          Inl _ \<Rightarrow> ret ()
        | Inr sfs \<Rightarrow>
            if \<not> backing_fs_supports_pfs_metadata_cache (f_fstypename sfs) then ret ()
            else do { _ \<leftarrow> sys_pfs_cache K file_path; ret () })
     }
   }"

text \<open>The unit and the node of the device, \<open>None\<close> when the attach failed.\<close>

definition attached_unit :: "attach_backend \<Rightarrow> int res \<Rightarrow> (int \<times> string) option" where
  "attached_unit b r =
     (case r of Inl _ \<Rightarrow> None | Inr u \<Rightarrow> if u < 0 then None else Some (u, build_attached_unit_devname b u))"

definition attach_md_backend ::
  "'k kernel \<Rightarrow> string \<Rightarrow> image_fs_type \<Rightarrow> bool \<Rightarrow> int \<Rightarrow> (('k, 'm) world_scheme, (int \<times> string) option) state" where
  "attach_md_backend K file_path t read_only file_size = do {
     fd \<leftarrow> sys_open_ctrl K ATTACH_BACKEND_MD;
     if \<not> ok fd then ret None
     else do {
       cfg \<leftarrow> ask (k_config K);
       r \<leftarrow> sys_attach K (MD_Attach file_path file_size (get_md_sector_size_for_path cfg file_path t)
             (get_md_attach_options read_only));
       ret (attached_unit ATTACH_BACKEND_MD r)
     }
   }"

definition attach_lvd_backend_as ::
  "'k kernel \<Rightarrow> string \<Rightarrow> image_fs_type \<Rightarrow> bool \<Rightarrow> int \<Rightarrow> image_mount_profile \<Rightarrow> u16
   \<Rightarrow> (('k, 'm) world_scheme, (int \<times> string) option) state" where
  "attach_lvd_backend_as K file_path t read_only file_size profile image_type = do {
     (if should_prepare_nested_backing_cache profile file_path then prepare_nested_image_backing_cache K file_path else ret ());
     fd \<leftarrow> sys_open_ctrl K ATTACH_BACKEND_LVD;
     if \<not> ok fd then ret None
     else do {
       st \<leftarrow> sys_stat K file_path;
       cfg \<leftarrow> ask (k_config K);
       sfs \<leftarrow> (if pfs_path_uses_nested_profile file_path t then ret (Inl E_UNSET) else sys_statfs K file_path);
       let sector_size = get_lvd_sector_size cfg sfs file_path t;
       r \<leftarrow> sys_attach K (LVD_Attach \<lparr>la_image_type = image_type, la_device_size = of_int file_size, la_sector_size = sector_size,
             la_secondary_unit = get_lvd_secondary_unit t sector_size (legacy profile),
             la_flags = normalize_lvd_raw_flags (get_lvd_attach_raw_flags t read_only (legacy profile)),
             la_source_type = get_lvd_source_type st, la_path = file_path\<rparr>);
       ret (attached_unit ATTACH_BACKEND_LVD r)
     }
   }"

definition attach_image_device ::
  "'k kernel \<Rightarrow> string \<Rightarrow> image_fs_type \<Rightarrow> bool \<Rightarrow> int \<Rightarrow> attach_backend \<Rightarrow> image_mount_profile \<Rightarrow> u16 \<Rightarrow> u64
   \<Rightarrow> (('k, 'm) image_world_scheme, (int \<times> string) option) state" where
  "attach_image_device K file_path t read_only file_size b profile image_type gen = do {
     attached \<leftarrow>
       (if b = ATTACH_BACKEND_MD then attach_md_backend K file_path t read_only file_size
        else if b = ATTACH_BACKEND_LVD then attach_lvd_backend_as K file_path t read_only file_size profile image_type
        else do { set_errno EINVAL; ret None });
     (case attached of
        None \<Rightarrow> do {
          attach_errno \<leftarrow> get_errno;
          _ \<leftarrow> cache_op K (\<lambda>h c. cancel_image_attachment c (Some file_path) gen);
          put_errno attach_errno;
          ret None
        }
      | Some (u, devname) \<Rightarrow> do {
          published \<leftarrow> cache_op K (\<lambda>h c. publish_image_attachment h c (Some file_path) gen u b);
          if \<not> ok published then do {
            _ \<leftarrow> cache_op K (\<lambda>h c. cancel_image_attachment c (Some file_path) gen);
            rollback_unpublished_attached_unit K b u devname;
            set_errno EIO;
            ret None
          }
          else do {
            present \<leftarrow> wait_for_dev_node_state K devname True;
            if \<not> present then do {
              _ \<leftarrow> release_runtime_image_attachment K file_path gen;
              set_errno ETIMEDOUT;
              ret None
            }
            else ret (Some (u, devname))
          }
        })
   }"

section \<open>Mounting the file system\<close>

definition directory_has_visible_entries :: "'k kernel \<Rightarrow> string \<Rightarrow> (('k, 'm) world_scheme, bool) state" where
  "directory_has_visible_entries K p = do {
     d \<leftarrow> sys_opendir K p;
     ret (case d of Inl _ \<Rightarrow> False | Inr es \<Rightarrow> list_ex (\<lambda>e. \<not> starts_with ''.'' (fst e)) es)
   }"

text \<open>\<open>None\<close> when the root can be opened, else the error.\<close>

definition is_image_mount_root_accessible :: "'k kernel \<Rightarrow> string \<Rightarrow> (('k, 'm) world_scheme, errno option) state" where
  "is_image_mount_root_accessible K mp = do {
     d \<leftarrow> sys_opendir K mp;
     ret (case d of Inl e \<Rightarrow> Some e | Inr _ \<Rightarrow> None)
   }"

definition reject_mounted_image_io ::
  "'k kernel \<Rightarrow> string \<Rightarrow> u64 \<Rightarrow> errno option \<Rightarrow> (('k, 'm) image_world_scheme, bool) state" where
  "reject_mounted_image_io K file_path gen io_err = do {
     sm_error_set io_err file_path IMAGE_UNREADABLE_DAMAGED;
     _ \<leftarrow> release_runtime_image_attachment K file_path gen;
     put_errno io_err;
     ret False
   }"

definition verify_exfat_nmount_result ::
  "'k kernel \<Rightarrow> string \<Rightarrow> u64 \<Rightarrow> string \<Rightarrow> string \<Rightarrow> (('k, 'm) image_world_scheme, bool) state" where
  "verify_exfat_nmount_result K file_path gen devname mp = do {
     r \<leftarrow> sys_statfs K mp;
     if (case r of Inr sfs \<Rightarrow> f_fstypename sfs = ''exfatfs'' \<and> f_mntfromname sfs = devname \<and> f_mntonname sfs = mp
                 | Inl _ \<Rightarrow> False)
     then ret True
     else do {
       verify_errno \<leftarrow> (case r of Inr _ \<Rightarrow> ret (Some EINVAL) | Inl _ \<Rightarrow> get_errno);
       released \<leftarrow> release_runtime_image_attachment K file_path gen;
       e \<leftarrow> get_errno;
       put_errno (if \<not> released \<and> e \<noteq> None then e else verify_errno);
       ret False
     }
   }"

definition PFS_ZERO_EKPFS_KEY_HEX :: string where
  "PFS_ZERO_EKPFS_KEY_HEX = replicate 64 (CHR ''0'')"

definition option_of :: "string \<Rightarrow> string \<Rightarrow> string \<times> string option" where
  "option_of k v = (k, Some v)"

definition flag_option :: "string \<Rightarrow> string \<times> string option" where
  "flag_option k = (k, None)"

text \<open>The option vectors; \<^verbatim>\<open>errmsg\<close> names a buffer, and \<^verbatim>\<open>force\<close>, the last option, is left out unless it is asked for.
  \<open>None\<close> for a kind of image that cannot be mounted. The nested selectors have neither of the bits
  that \<^verbatim>\<open>disc\<close> and \<^verbatim>\<open>finalized\<close> are taken from.\<close>

definition nmount_options :: "string \<Rightarrow> image_fs_type \<Rightarrow> string \<Rightarrow> string \<Rightarrow> bool \<Rightarrow> (string \<times> string option) list option" where
  "nmount_options file_path t devname mp force =
     (let disc = (if pfs_path_uses_nested_profile file_path t \<and> get_nested_pfs_img_type file_path t AND 0x40 \<noteq> 0
                  then ''1'' else ''0'');
          tail = [flag_option ''automounted'', flag_option ''errmsg''] @ (if force then [flag_option ''force''] else [])
      in if t = IMAGE_FS_UFS then
           Some ([option_of ''fstype'' ''ufs'', option_of ''from'' devname, option_of ''fspath'' mp, option_of ''budgetid'' ''game'',
                  flag_option ''async'', flag_option ''noatime''] @ tail)
         else if t = IMAGE_FS_EXFAT then
           Some ([option_of ''from'' devname, option_of ''fspath'' mp, option_of ''fstype'' ''exfatfs'', option_of ''budgetid'' ''game'',
                  option_of ''large'' ''yes'', option_of ''timezone'' ''static'', flag_option ''async'', flag_option ''noatime'',
                  flag_option ''ignoreacl''] @ tail)
         else if image_fs_type_is_pfs t then
           Some ([option_of ''from'' devname, option_of ''fspath'' mp, option_of ''fstype'' ''pfs'', option_of ''sigverify'' ''0'',
                  option_of ''mkeymode'' ''AC'', option_of ''budgetid'' ''game'', option_of ''playgo'' ''0'', option_of ''disc'' disc,
                  option_of ''ekpfs'' PFS_ZERO_EKPFS_KEY_HEX, flag_option ''async'', flag_option ''noatime''] @ tail)
         else None)"

definition perform_image_nmount ::
  "'k kernel \<Rightarrow> string \<Rightarrow> u64 \<Rightarrow> image_fs_type \<Rightarrow> string \<Rightarrow> string \<Rightarrow> bool \<Rightarrow> bool \<Rightarrow> image_mount_profile
   \<Rightarrow> (('k, 'm) image_world_scheme, bool) state" where
  "perform_image_nmount K file_path gen t devname mp read_only force profile =
     (case nmount_options file_path t devname mp force of
        None \<Rightarrow> do {
          _ \<leftarrow> release_runtime_image_attachment K file_path gen;
          set_errno EINVAL;
          ret False
        }
      | Some options \<Rightarrow> do {
          r \<leftarrow> sys_nmount K \<lparr>nr_options = options, nr_flags = fst (get_nmount_flags t read_only (legacy profile))\<rparr>;
          (case r of
             Inr _ \<Rightarrow> if t \<noteq> IMAGE_FS_EXFAT then ret True else verify_exfat_nmount_result K file_path gen devname mp
           | Inl e \<Rightarrow> do {
               errmsg \<leftarrow> ask (k_nmount_errmsg K);
               (if errmsg \<noteq> [] then sm_error_set (Some e) file_path (MOUNT_ERRMSG errmsg) else ret ());
               _ \<leftarrow> release_runtime_image_attachment K file_path gen;
               set_errno e;
               ret False
             })
        })"

definition reject_small_cluster ::
  "'k kernel \<Rightarrow> string \<Rightarrow> u64 \<Rightarrow> string \<Rightarrow> u64 \<Rightarrow> u32 \<Rightarrow> (('k, 'm) image_world_scheme, bool) state" where
  "reject_small_cluster K file_path gen devname fs_block_size min_device_sector = do {
     tuned \<leftarrow> (if fs_block_size \<le> 0xFFFFFFFF then ask (k_autotune K (get_filename_component file_path) (ucast fs_block_size))
              else ret None);
     sm_error_set (Some EINVAL) file_path (FS_CLUSTER_SMALL fs_block_size min_device_sector devname);
     (case tuned of
        Some tuned_size \<Rightarrow> notify (IMAGE_REJECTED_CLUSTER_AUTOTUNED file_path fs_block_size min_device_sector tuned_size)
      | None \<Rightarrow> notify (IMAGE_REJECTED_CLUSTER_CONFIG file_path fs_block_size min_device_sector));
     sm_error_mark_notified;
     _ \<leftarrow> release_runtime_image_attachment K file_path gen;
     set_errno EINVAL;
     ret False
   }"

definition min_device_sector ::
  "'k kernel \<Rightarrow> string \<Rightarrow> image_fs_type \<Rightarrow> attach_backend \<Rightarrow> (('k, 'm) world_scheme, u32) state" where
  "min_device_sector K file_path t b = do {
     cfg \<leftarrow> ask (k_config K);
     if b = ATTACH_BACKEND_MD then ret (get_md_sector_size_for_path cfg file_path t)
     else do {
       sfs \<leftarrow> (if pfs_path_uses_nested_profile file_path t then ret (Inl E_UNSET) else sys_statfs K file_path);
       ret (get_lvd_sector_size cfg sfs file_path t)
     }
   }"

definition validate_mounted_image ::
  "'k kernel \<Rightarrow> string \<Rightarrow> u64 \<Rightarrow> image_fs_type \<Rightarrow> attach_backend \<Rightarrow> string \<Rightarrow> string
   \<Rightarrow> (('k, 'm) image_world_scheme, bool) state" where
  "validate_mounted_image K file_path gen t b devname mp = do {
     r \<leftarrow> sys_statfs K mp;
     (case r of
        Inl e \<Rightarrow> reject_mounted_image_io K file_path gen (Some e)
      | Inr sfs \<Rightarrow> do {
          sector \<leftarrow> min_device_sector K file_path t b;
          if f_bsize sfs < ucast sector then reject_small_cluster K file_path gen devname (f_bsize sfs) sector
          else do {
            root_err \<leftarrow> is_image_mount_root_accessible K mp;
            (case root_err of Some e \<Rightarrow> reject_mounted_image_io K file_path gen (Some e) | None \<Rightarrow> ret True)
          }
        })
   }"

section \<open>Mounts that exist already\<close>

definition get_cached_image_mount :: "image_cache \<Rightarrow> string \<Rightarrow> image_cache_entry option" where
  "get_cached_image_mount c file_path =
     (case find_image_cache_entry c (Some file_path) of Some (e, _) \<Rightarrow> if has_device e then Some e else None | None \<Rightarrow> None)"

text \<open>Whether the mount is taken over, and whether it could not be recorded.\<close>

definition reuse_existing_image_mount ::
  "'k kernel \<Rightarrow> string \<Rightarrow> string \<Rightarrow> (('k, 'm) image_world_scheme, bool \<times> bool) state" where
  "reuse_existing_image_mount K file_path mp = do {
     st \<leftarrow> sys_stat K mp;
     if \<not> (case st of Inr s \<Rightarrow> st_mode s = S_DIR | Inl _ \<Rightarrow> False) then ret (False, False)
     else do {
       d \<leftarrow> resolve_device_from_mount K mp;
       (case d of
          Some (b, u) \<Rightarrow> do {
            root_err \<leftarrow> is_image_mount_root_accessible K mp;
            cached \<leftarrow> cache_op K (\<lambda>h c. cache_image_mount h c file_path mp u b);
            if root_err \<noteq> None then
              (if \<not> ok cached then ret (False, True)
               else do { released \<leftarrow> release_runtime_image_mount K file_path; ret (False, \<not> released) })
            else if \<not> ok cached then do {
              sm_error_set (Some ENOSPC) file_path (IMAGE_CACHE_FULL_TRACK MAX_IMAGE_MOUNTS mp);
              set_errno ENOSPC;
              ret (False, True)
            }
            else ret (True, False)
          }
        | None \<Rightarrow> do { _ \<leftarrow> directory_has_visible_entries K mp; ret (False, False) })
     }
   }"

definition handle_existing :: "'k kernel \<Rightarrow> string \<Rightarrow> string \<Rightarrow> (('k, 'm) image_world_scheme, bool \<times> bool) state" where
  "handle_existing K file_path mp = do {
     (reused, cache_failed) \<leftarrow> reuse_existing_image_mount K file_path mp;
     if reused then do { suspended \<leftarrow> ask (k_suspended K); ret (True, \<not> suspended) } else ret (cache_failed, False)
   }"

text \<open>Whether the request is settled, and whether the image is mounted then.\<close>

definition handle_cached_or_existing_image_mount ::
  "'k kernel \<Rightarrow> string \<Rightarrow> string \<Rightarrow> (('k, 'm) image_world_scheme, bool \<times> bool) state" where
  "handle_cached_or_existing_image_mount K file_path mp = do {
     suspended \<leftarrow> ask (k_suspended K);
     if suspended then ret (True, False)
     else do {
       c \<leftarrow> gets w_cache;
       (case get_cached_image_mount c file_path of
          None \<Rightarrow> handle_existing K file_path mp
        | Some e \<Rightarrow>
            if e_state e = ATTACHED_DEVICE_DETACH_REQUESTED
            then do { _ \<leftarrow> release_runtime_image_mount K file_path; ret (True, False) }
            else if e_state e = ATTACHED_DEVICE_ATTACHING then ret (True, False)
            else do {
              active \<leftarrow> is_active_image_mount_point K mp;
              root_err \<leftarrow> (if active then is_image_mount_root_accessible K mp else ret (Some ENOENT));
              if active \<and> root_err = None then ret (True, True)
              else do {
                released \<leftarrow> release_runtime_image_attachment K (e_path e) (e_generation e);
                if \<not> released then ret (True, False) else handle_existing K file_path mp
              }
            })
     }
   }"

definition stat_image_file :: "'k kernel \<Rightarrow> string \<Rightarrow> (('k, 'm) world_scheme, stat_buf option) state" where
  "stat_image_file K file_path = do {
     r \<leftarrow> sys_stat K file_path;
     (case r of
        Inl _ \<Rightarrow> ret None
      | Inr st \<Rightarrow> if st_size st < 0 then do { set_errno EINVAL; ret None } else ret (Some st))
   }"

definition ensure_mount_dirs :: "'k kernel \<Rightarrow> string \<Rightarrow> (('k, 'm) world_scheme, unit) state" where
  "ensure_mount_dirs K mp = do {
     _ \<leftarrow> sys_mkdir K IMAGE_MOUNT_BASE;
     _ \<leftarrow> (if is_pfsc_image_mount_base_or_child mp then sys_mkdir K PFSC_IMAGE_MOUNT_BASE else ret (Inr ()));
     _ \<leftarrow> sys_mkdir K mp;
     ret ()
   }"

section \<open>The pipeline\<close>

text \<open>A request that names a mode is refused when the image is mounted in the other one.\<close>

definition mode_matches :: "'k kernel \<Rightarrow> string \<Rightarrow> bool \<Rightarrow> (('k, 'm) world_scheme, bool) state" where
  "mode_matches K mp read_only = do {
     r \<leftarrow> sys_statfs K mp;
     if (case r of Inr sfs \<Rightarrow> f_rdonly sfs = read_only | Inl _ \<Rightarrow> False) then ret True
     else do { set_errno EBUSY; ret False }
   }"

text \<open>From the reservation to the record, from the last step to the first: every failure releases the attachment.\<close>

definition commit_image_mount ::
  "'k kernel \<Rightarrow> string \<Rightarrow> u64 \<Rightarrow> int \<Rightarrow> attach_backend \<Rightarrow> string \<Rightarrow> (('k, 'm) image_world_scheme, bool) state" where
  "commit_image_mount K file_path gen u b mp = do {
     asleep \<leftarrow> ask (k_suspended K);
     committed \<leftarrow> (if asleep then ret (Inl E_UNSET)
                   else cache_op K (\<lambda>h c. complete_image_attachment h c (Some file_path) gen u b));
     if ok committed then do { _ \<leftarrow> sys_statfs K mp; ret True }
     else do {
       _ \<leftarrow> release_runtime_image_attachment K file_path gen;
       set_errno (if asleep then ECANCELED else EAGAIN);
       ret False
     }
   }"

definition check_mounted_image ::
  "'k kernel \<Rightarrow> string \<Rightarrow> u64 \<Rightarrow> image_fs_type \<Rightarrow> int \<Rightarrow> attach_backend \<Rightarrow> string \<Rightarrow> string
   \<Rightarrow> (('k, 'm) image_world_scheme, bool) state" where
  "check_mounted_image K file_path gen t u b devname mp = do {
     asleep \<leftarrow> ask (k_suspended K);
     if asleep then do { _ \<leftarrow> release_runtime_image_attachment K file_path gen; ret False }
     else do {
       valid \<leftarrow> validate_mounted_image K file_path gen t b devname mp;
       if \<not> valid then ret False else commit_image_mount K file_path gen u b mp
     }
   }"

definition mount_attached_image ::
  "'k kernel \<Rightarrow> string \<Rightarrow> u64 \<Rightarrow> image_fs_type \<Rightarrow> int \<Rightarrow> attach_backend \<Rightarrow> string \<Rightarrow> string \<Rightarrow> bool \<Rightarrow> bool \<Rightarrow> image_mount_profile
   \<Rightarrow> (('k, 'm) image_world_scheme, bool) state" where
  "mount_attached_image K file_path gen t u b devname mp read_only force profile = do {
     asleep \<leftarrow> ask (k_suspended K);
     if asleep then do { _ \<leftarrow> release_runtime_image_attachment K file_path gen; ret False }
     else do {
       mounted \<leftarrow> perform_image_nmount K file_path gen t devname mp read_only force profile;
       if \<not> mounted then ret False else check_mounted_image K file_path gen t u b devname mp
     }
   }"

definition mount_reserved_image ::
  "'k kernel \<Rightarrow> string \<Rightarrow> image_fs_type \<Rightarrow> string \<Rightarrow> bool \<Rightarrow> bool \<Rightarrow> attach_backend \<Rightarrow> int \<Rightarrow> image_mount_profile \<Rightarrow> u16 \<Rightarrow> u64
   \<Rightarrow> (('k, 'm) image_world_scheme, bool) state" where
  "mount_reserved_image K file_path t mp read_only force b file_size profile image_type gen = do {
     ensure_mount_dirs K mp;
     attached \<leftarrow> attach_image_device K file_path t read_only file_size b profile image_type gen;
     (case attached of
        None \<Rightarrow> ret False
      | Some (u, devname) \<Rightarrow> mount_attached_image K file_path gen t u b devname mp read_only force profile)
   }"

text \<open>The reservation, under the lock of the mount state.\<close>

definition mount_new_image ::
  "'k kernel \<Rightarrow> image_config \<Rightarrow> string \<Rightarrow> image_fs_type \<Rightarrow> string \<Rightarrow> bool \<Rightarrow> bool \<Rightarrow> (('k, 'm) image_world_scheme, bool) state" where
  "mount_new_image K cfg file_path t mp read_only overridden = do {
     st \<leftarrow> stat_image_file K file_path;
     (case st of
        None \<Rightarrow> ret False
      | Some s \<Rightarrow> do {
          let profile = get_image_mount_profile cfg file_path t;
          asleep \<leftarrow> ask (k_suspended K);
          if asleep then ret False
          else do {
            c \<leftarrow> gets w_cache;
            if (case find_image_cache_entry c (Some file_path) of
                  Some (e, _) \<Rightarrow> e_state e = ATTACHED_DEVICE_MOUNTED | None \<Rightarrow> False)
            then (if overridden then mode_matches K mp read_only else ret True)
            else do {
              r \<leftarrow> cache_op K (\<lambda>h c. begin_image_attachment c file_path mp);
              (case r of
                 Inl _ \<Rightarrow> ret False
               | Inr gen \<Rightarrow>
                   mount_reserved_image K file_path t mp read_only (force_mount cfg) (select_image_backend cfg t) (st_size s)
                     profile (get_lvd_image_type file_path t (legacy profile)) gen)
            }
          }
        })
   }"

definition requested_read_only :: "image_config \<Rightarrow> string \<Rightarrow> image_fs_type \<Rightarrow> bool option \<Rightarrow> bool" where
  "requested_read_only cfg file_path t override =
     (let filename = get_filename_component file_path;
          configured = (if filename = [] then mount_read_only cfg
                        else (case image_mode_override cfg filename of Some ro \<Rightarrow> ro | None \<Rightarrow> mount_read_only cfg))
      in if pfs_path_uses_nested_profile file_path t then True
         else (case override of Some ro \<Rightarrow> ro | None \<Rightarrow> configured))"

definition mount_image_with_mode ::
  "'k kernel \<Rightarrow> string \<Rightarrow> image_fs_type \<Rightarrow> bool option \<Rightarrow> (('k, 'm) image_world_scheme, bool) state" where
  "mount_image_with_mode K file_path t override = do {
     sm_error_clear;
     cfg \<leftarrow> ask (k_config K);
     if override = Some False \<and> pfs_path_uses_nested_profile file_path t then do { set_errno ENOTSUP; ret False }
     else do {
       let read_only = requested_read_only cfg file_path t override;
       asleep \<leftarrow> ask (k_suspended K);
       if asleep then ret False
       else do {
         let mp = build_image_mount_point_for_fs (k_mnamelen K) file_path t;
         (handled, success) \<leftarrow> handle_cached_or_existing_image_mount K file_path mp;
         if handled then
           (if override = None then ret success
            else if success then mode_matches K mp read_only
            else do {
              e \<leftarrow> get_errno;
              (if e \<noteq> Some ENOSPC then set_errno EBUSY else ret ());
              ret False
            })
         else mount_new_image K cfg file_path t mp read_only (override \<noteq> None)
       }
     }
   }"

definition mount_image :: "'k kernel \<Rightarrow> string \<Rightarrow> image_fs_type \<Rightarrow> (('k, 'm) image_world_scheme, bool) state" where
  "mount_image K file_path t = mount_image_with_mode K file_path t None"

section \<open>Attempts and retries\<close>

definition note_mount_failure :: "'k kernel \<Rightarrow> string \<Rightarrow> errno option \<Rightarrow> (('k, 'm) image_world_scheme, unit) state" where
  "note_mount_failure K p mount_err = do {
     ps \<leftarrow> gets w_paths;
     k \<leftarrow> gets w_kernel;
     (case bump_image_mount_attempts (kernel_host K k) ps p of
        None \<Rightarrow> fault
      | Some (n, ps') \<Rightarrow> do {
          modify (\<lambda>w. w\<lparr>w_paths := ps'\<rparr>);
          notified \<leftarrow> sm_error_notified;
          if n = 1 \<and> \<not> notified then notify_image_mount_failed p mount_err else ret ()
        })
   }"

definition note_mount_success :: "string \<Rightarrow> (('k, 'm) image_world_scheme, unit) state" where
  "note_mount_success p = modify (\<lambda>w. w\<lparr>w_paths := clear_image_mount_attempts (w_paths w) p\<rparr>)"

text \<open>The result, and whether the source is still being written to.\<close>

definition maybe_mount_image_file_with_mode ::
  "'k kernel \<Rightarrow> string \<Rightarrow> string \<Rightarrow> bool option \<Rightarrow> (('k, 'm) image_world_scheme, bool \<times> bool) state" where
  "maybe_mount_image_file_with_mode K full_path display_name override = do {
     let t = detect_image_fs_type_for_path full_path (Some display_name);
     if t = IMAGE_FS_UNKNOWN then ret (False, False)
     else do {
       stable \<leftarrow> is_source_stable_for_mount K full_path;
       if \<not> stable then ret (False, True)
       else do {
         ps \<leftarrow> gets w_paths;
         if is_image_mount_limited ps full_path then ret (False, False)
         else do {
           mounted \<leftarrow> mount_image_with_mode K full_path t override;
           if mounted then do { note_mount_success full_path; ret (True, False) }
           else do {
             mount_err \<leftarrow> get_errno;
             if override \<noteq> None \<and> (mount_err = Some EBUSY \<or> mount_err = Some ENOTSUP) then ret (False, False)
             else do { note_mount_failure K full_path mount_err; put_errno mount_err; ret (False, False) }
           }
         }
       }
     }
   }"

definition maybe_mount_image_file ::
  "'k kernel \<Rightarrow> string \<Rightarrow> string \<Rightarrow> (('k, 'm) image_world_scheme, bool \<times> bool) state" where
  "maybe_mount_image_file K full_path display_name = maybe_mount_image_file_with_mode K full_path display_name None"

text \<open>The mount point and the source of a mount that was lost and may be made again, \<open>None\<close> when it is to be left alone.\<close>

definition prepare_image_mount_retry :: "'k kernel \<Rightarrow> image_cache_entry \<Rightarrow> (('k, 'm) image_world_scheme, string option) state" where
  "prepare_image_mount_retry K e = do {
     let mp = build_image_mount_point (k_mnamelen K) (e_path e);
     active \<leftarrow> is_active_image_mount_point K mp;
     root_err \<leftarrow> (if active then is_image_mount_root_accessible K mp
                 else do { modify (\<lambda>w. w\<lparr>w_games := clear_cached_game mp (w_games w)\<rparr>); ret (Some ENOENT) });
     if active \<and> root_err = None then ret None
     else do {
       released \<leftarrow> release_runtime_image_attachment K (e_path e) (e_generation e);
       if \<not> released then ret None
       else do {
         modify (\<lambda>w. w\<lparr>w_paths := clear_missing_param_entry (w_paths w) mp\<rparr>);
         ret (Some (strlcpy (e_path e) MAX_PATH))
       }
     }
   }"

definition path_exists_now :: "'k kernel \<Rightarrow> string \<Rightarrow> (('k, 'm) world_scheme, bool) state" where
  "path_exists_now K p = (if p = [] then ret False else do { r \<leftarrow> sys_stat K p; ret (ok r) })"

text \<open>What the clean-up does with a slot that holds a device of a source that is not protected.\<close>

definition cleanup_stale_slot :: "'k kernel \<Rightarrow> nat \<Rightarrow> image_cache_entry \<Rightarrow> (('k, 'm) image_world_scheme, unit) state" where
  "cleanup_stale_slot K k e = do {
     serviced \<leftarrow> service_pending_image_detach K k e;
     if serviced then ret ()
     else if e_state e = ATTACHED_DEVICE_ATTACHING then ret ()
     else do {
       exists \<leftarrow> path_exists_now K (e_path e);
       if \<not> exists then do {
         r \<leftarrow> unmount_image K (e_path e) (e_unit_id e) (e_backend e);
         if unmount_completed r then do { _ \<leftarrow> invalidate_matching_image_cache_entry K k e; ret () } else ret ()
       }
       else do {
         retry \<leftarrow> prepare_image_mount_retry K e;
         (case retry of
            None \<Rightarrow> ret ()
          | Some source_path \<Rightarrow> do {
              mounted \<leftarrow> mount_image K source_path (detect_image_fs_type_for_path (e_path e) None);
              if mounted then note_mount_success source_path
              else do { mount_err \<leftarrow> get_errno; note_mount_failure K source_path mount_err }
            })
       }
     }
   }"

definition cleanup_stale_step ::
  "'k kernel \<Rightarrow> (image_cache_entry \<Rightarrow> bool) \<Rightarrow> nat \<Rightarrow> (('k, 'm) image_world_scheme, bool) state" where
  "cleanup_stale_step K concerned k = do {
     stop \<leftarrow> ask (k_stop K);
     if stop then ret False
     else do {
       c \<leftarrow> gets w_cache;
       (case get_image_cache_entry c (int k) of
          None \<Rightarrow> ret True
        | Some e \<Rightarrow>
            if \<not> has_device e \<or> \<not> concerned e then ret True
            else do {
              protected \<leftarrow> ask (k_protected K (e_path e));
              (if protected then ret () else cleanup_stale_slot K k e);
              ret True
            })
     }
   }"

definition cleanup_stale_image_mounts :: "'k kernel \<Rightarrow> (('k, 'm) image_world_scheme, unit) state" where
  "cleanup_stale_image_mounts K = do {
     stop \<leftarrow> ask (k_stop K);
     c \<leftarrow> gets w_cache;
     if stop \<or> \<not> list_ex (\<lambda>k. case get_image_cache_entry c (int k) of Some e \<Rightarrow> has_device e | None \<Rightarrow> False) [0..<MAX_IMAGE_MOUNTS]
     then ret ()
     else while_m (cleanup_stale_step K (\<lambda>_. True)) [0..<MAX_IMAGE_MOUNTS]
   }"

definition cleanup_stale_image_mounts_for_root :: "'k kernel \<Rightarrow> string option \<Rightarrow> (('k, 'm) image_world_scheme, unit) state" where
  "cleanup_stale_image_mounts_for_root K root =
     (case root of
        None \<Rightarrow> cleanup_stale_image_mounts K
      | Some r \<Rightarrow>
          if r = [] then cleanup_stale_image_mounts K
          else do {
            stop \<leftarrow> ask (k_stop K);
            if stop then ret ()
            else while_m (cleanup_stale_step K (\<lambda>e. path_matches_root_or_child (e_path e) r
                   \<or> path_matches_root_or_child (e_mount_point e) r)) [0..<MAX_IMAGE_MOUNTS]
          })"

end
