(* ===== verification/Image_Programs.thy ===== *)
theory Image_Programs
  imports Image_Mount
begin

text \<open>
  What every program of \<^verbatim>\<open>src/sm_image.c\<close> keeps. The locale \<open>image_programs\<close> is about a relation between the world before and
  behind a program: if it is a preorder that the calls of the kernel and the single operations on the program's own
  tables respect, then the programs respect it. Releases descend into containers, so the locale also has a
  predicate that says how many levels a source may need.
\<close>

section \<open>Programs that respect a relation\<close>

named_theorems keeps \<open>programs that respect the relation\<close>

text \<open>The source paths of the slots in use, as the operations report them.\<close>

definition cached_paths :: "image_cache \<Rightarrow> string set" where
  "cached_paths c = {strlcpy (path e) MAX_PATH | e. e \<in> set (slots c) \<and> slot_valid e}"

text \<open>A step of the cache: \<open>fresh\<close> are the sources that may be reserved, \<open>source\<close> those that may be recorded as mounted.\<close>

inductive image_op :: "(string \<Rightarrow> bool) \<Rightarrow> (string \<Rightarrow> bool) \<Rightarrow> image_cache \<Rightarrow> image_cache \<Rightarrow> bool" for fresh source where
  "fresh p \<Longrightarrow> image_op fresh source c (snd (begin_image_attachment c p m))"
| "source p \<Longrightarrow> image_op fresh source c (snd (cache_image_mount h c p m u b))"
| "image_op fresh source c (snd (cancel_image_attachment c src gen))"
| "image_op fresh source c (snd (publish_image_attachment h c src gen u b))"
| "source p \<Longrightarrow> image_op fresh source c (snd (complete_image_attachment h c (Some p) gen u b))"
| "image_op fresh source c (snd (mark_image_cache_detach_requested h c src gen u b))"
| "image_op fresh source c (snd (claim_image_cache_detach h c src gen u b))"
| "image_op fresh source c (snd (finish_image_cache_detach_attempt c src gen u b ds))"
| "image_op fresh source c (snd (invalidate_image_cache_entry c i x))"

definition container_child :: "'k kernel \<Rightarrow> ('k, 'm) image_world_scheme \<Rightarrow> string \<Rightarrow> string \<Rightarrow> bool" where
  "container_child K w p q \<longleftrightarrow>
     detect_image_fs_type_for_path p None = IMAGE_FS_PFSC_CONTAINER
     \<and> path_matches_root_or_child q (build_image_mount_point_for_fs (k_mnamelen K) p IMAGE_FS_PFSC_CONTAINER)
     \<and> q \<in> cached_paths (w_cache w)"

definition kept :: "('w \<Rightarrow> 'w \<Rightarrow> bool) \<Rightarrow> ('w, 'a) state \<Rightarrow> 'w \<Rightarrow> bool" where
  "kept R m w \<longleftrightarrow> wp m (\<lambda>_. R w) w"

definition kept_all :: "('w \<Rightarrow> 'w \<Rightarrow> bool) \<Rightarrow> ('w, 'a) state \<Rightarrow> bool" where
  "kept_all R m \<longleftrightarrow> (\<forall>w. kept R m w)"

lemma entry_cached:
  assumes "get_image_cache_entry c (int k) = Some e" "length (slots c) = MAX_IMAGE_MOUNTS"
  shows "e_path e \<in> cached_paths c"
proof -
  have "slots c ! k \<in> set (slots c)" "slot_valid (slots c ! k)" "e = copy_cache_entry (slots c ! k)"
    using assms by (auto simp: get_image_cache_entry_def split: if_splits)
  then show ?thesis by (auto simp: cached_paths_def copy_cache_entry_def)
qed

lemma found_cached:
  assumes "find_image_cache_entry c (Some p) = Some (e, k)"
  shows "e_path e \<in> cached_paths c" "e_path e = strlcpy p MAX_PATH"
proof -
  have "k < length (slots c)" "slot_valid (slots c ! k)" "path (slots c ! k) = p" "e = copy_cache_entry (slots c ! k)"
    using assms by (auto simp: find_image_cache_entry_def find_source_path_index_def find_index_Some)
  then show "e_path e \<in> cached_paths c" "e_path e = strlcpy p MAX_PATH"
    using nth_mem [of k "slots c"] by (auto simp: cached_paths_def copy_cache_entry_def)
qed

section \<open>Programs that only call the kernel\<close>

locale kernel_programs =
  fixes R :: "('k, 'm) world_scheme \<Rightarrow> ('k, 'm) world_scheme \<Rightarrow> bool"
  assumes R_refl: "R w w"
    and R_trans: "R w1 w2 \<Longrightarrow> R w2 w3 \<Longrightarrow> R w1 w3"
    and R_call: "frame w evs w' \<Longrightarrow> R w w'"
begin

lemma kept_bind:
  assumes "kept R m w" "\<And>a w'. run_state m w = (a, w') \<Longrightarrow> kept R (f a) w'"
  shows "kept R (State_Monad.bind m f) w"
  using assms by (auto simp: kept_def wp_def split: prod.splits intro: R_trans)

lemma kept_gets: "kept R (f (g w)) w \<Longrightarrow> kept R (State_Monad.bind (gets g) f) w"
  by (simp add: kept_def wp)

lemma keptD [keeps]: "kept_all R m \<Longrightarrow> kept R m w"
  by (simp add: kept_all_def)

lemma kept_bind_all [keeps]: "kept_all R m \<Longrightarrow> (\<And>a. kept_all R (f a)) \<Longrightarrow> kept_all R (State_Monad.bind m f)"
  by (auto simp: kept_all_def intro: kept_bind)

lemma kept_ret [keeps]: "kept_all R (ret a)"
  by (simp add: kept_all_def kept_def wp R_refl)

lemma kept_gets_all [keeps]: "kept_all R (gets f)"
  by (simp add: kept_all_def kept_def wp R_refl)

lemma kept_if [keeps]: "(b \<Longrightarrow> kept_all R m) \<Longrightarrow> (\<not> b \<Longrightarrow> kept_all R n) \<Longrightarrow> kept_all R (if b then m else n)"
  by simp

lemma kept_let [keeps]: "(\<And>x. x = t \<Longrightarrow> kept_all R (f x)) \<Longrightarrow> kept_all R (let x = t in f x)"
  by simp

lemma kept_option [keeps]:
  "(x = None \<Longrightarrow> kept_all R m) \<Longrightarrow> (\<And>y. x = Some y \<Longrightarrow> kept_all R (f y)) \<Longrightarrow> kept_all R (case x of None \<Rightarrow> m | Some y \<Rightarrow> f y)"
  by (cases x) simp_all

lemma kept_sum [keeps]:
  "(\<And>y. x = Inl y \<Longrightarrow> kept_all R (g y)) \<Longrightarrow> (\<And>y. x = Inr y \<Longrightarrow> kept_all R (f y))
   \<Longrightarrow> kept_all R (case x of Inl y \<Rightarrow> g y | Inr y \<Rightarrow> f y)"
  by (cases x) simp_all

lemma kept_prod [keeps]: "(\<And>a b. p = (a, b) \<Longrightarrow> kept_all R (f a b)) \<Longrightarrow> kept_all R (case p of (a, b) \<Rightarrow> f a b)"
  by (cases p) simp

lemma kept_fold [keeps]: "(\<And>x b. kept_all R (f x b)) \<Longrightarrow> kept_all R (fold_m f xs b)"
  by (induction xs arbitrary: b) (auto intro: keeps)

lemma kept_while [keeps]: "(\<And>x. kept_all R (f x)) \<Longrightarrow> kept_all R (while_m f xs)"
  by (induction xs) (auto intro!: keeps)

lemma kept_call [keeps]: "kept_all R (sys op ev)" "kept_all R (ask op')" "kept_all R (usleep K')" "kept_all R (set_errno e)"
    "kept_all R (put_errno e')" "kept_all R get_errno" "kept_all R (cleanup_links K' mp)"
  by (auto simp: kept_all_def kept_def wp cleanup_links_def R_refl intro!: wp_calls intro: R_call)
    (rule R_call [of _ "[E_Cleanup_Links mp]"], simp add: frame_def)

lemma kept_bindI: "kept R m w \<Longrightarrow> (\<And>a. kept_all R (f a)) \<Longrightarrow> kept R (State_Monad.bind m f) w"
  by (rule kept_bind) (auto simp: kept_all_def)

lemma kept_node_wait [keeps]: "kept_all R (node_wait_loop K dev ex n)"
  by (induction n) (auto simp: Let_def intro!: keeps)

lemma kept_devices [keeps]:
  "kept_all R (wait_for_dev_node_state K dev ex)"
  "kept_all R (is_active_image_mount_point K mp)"
  "kept_all R (detach_target_is_released_or_reused K dev ds)"
  unfolding wait_for_dev_node_state_def is_active_image_mount_point_def is_path_mountpoint_def
    detach_target_is_released_or_reused_def device_node_is_mounted_def
  by (intro keeps)+

lemma kept_wait_release [keeps]: "kept_all R (wait_for_attached_unit_release K b u ds)"
  unfolding wait_for_attached_unit_release_def by (intro keeps)

lemma kept_prepare_case [keeps]:
  "kept_all R m1 \<Longrightarrow> kept_all R m2 \<Longrightarrow> kept_all R m3 \<Longrightarrow> kept_all R (case p of ATTACHED_UNIT_DETACH_COMPLETE \<Rightarrow> m1
      | ATTACHED_UNIT_DETACH_REQUEST \<Rightarrow> m2 | ATTACHED_UNIT_DETACH_PENDING \<Rightarrow> m3)"
  by (cases p) simp_all

lemma kept_detach_unit [keeps]: "kept_all R (detach_unit K b u ds)"
  unfolding detach_unit_def prepare_attached_unit_detach_def read_device_node_identity_def finish_failed_detach_def
    finish_accepted_detach_def
  by (intro keeps)

lemma kept_detach [keeps]: "kept_all R (detach_attached_unit K b u ds)"
  unfolding detach_attached_unit_def detach_md_unit_def detach_lvd_unit_def by (intro keeps)

lemma kept_errno_or [keeps]: "kept_all R (errno_or d)" "kept_all R (unmount_failed e)"
  unfolding errno_or_def unmount_failed_def by (intro keeps)+

lemma kept_unmount_layers [keeps]: "kept_all R (unmount_layers K mp n)"
  by (induction n) (auto intro!: keeps)

lemma kept_dirent_case [keeps]:
  "kept_all R m1 \<Longrightarrow> kept_all R m2 \<Longrightarrow> kept_all R m3 \<Longrightarrow> kept_all R m4
   \<Longrightarrow> kept_all R (case d of DT_DIR \<Rightarrow> m1 | DT_REG \<Rightarrow> m2 | DT_UNKNOWN \<Rightarrow> m3 | DT_OTHER \<Rightarrow> m4)"
  by (cases d) simp_all

lemma kept_cleanup_dirs [keeps]: "kept_all R (cleanup_mount_dirs K)"
  unfolding cleanup_mount_dirs_def cleanup_mount_dirs_under_def remove_mount_dir_step_def by (intro keeps)

lemma kept_rollback [keeps]: "kept_all R (rollback_unpublished_attached_unit K b u dev)"
  unfolding rollback_unpublished_attached_unit_def by (intro keeps)

lemma kept_attach_calls [keeps]:
  "kept_all R (attach_md_backend K p t ro sz)"
  "kept_all R (attach_lvd_backend_as K p t ro sz profile ty)"
  unfolding attach_md_backend_def attach_lvd_backend_as_def prepare_nested_image_backing_cache_def by (intro keeps)+

lemma kept_mount_calls [keeps]:
  "kept_all R (directory_has_visible_entries K mp)"
  "kept_all R (is_image_mount_root_accessible K mp)"
  "kept_all R (min_device_sector K p t b)"
  "kept_all R (stat_image_file K p)"
  "kept_all R (ensure_mount_dirs K mp)"
  "kept_all R (mode_matches K mp ro)"
  "kept_all R (path_exists_now K p)"
  unfolding directory_has_visible_entries_def is_image_mount_root_accessible_def min_device_sector_def stat_image_file_def
    ensure_mount_dirs_def mode_matches_def path_exists_now_def
  by (intro keeps)+

end

text \<open>Such programs leave everything but the kernel and \<^verbatim>\<open>errno\<close> alone, and add to the trace.\<close>

definition calls_only :: "('k, 'm) world_scheme \<Rightarrow> ('k, 'm) world_scheme \<Rightarrow> bool" where
  "calls_only w w' \<longleftrightarrow> (\<exists>evs. frame w evs w')"

interpretation calls: kernel_programs calls_only
  by (unfold_locales; unfold calls_only_def; use frame_refl frame_trans in blast)

section \<open>Releases\<close>

locale image_releases = kernel_programs R
  for R :: "('k, 'm) image_world_scheme \<Rightarrow> ('k, 'm) image_world_scheme \<Rightarrow> bool" +
  fixes K :: "'k kernel"
    and active :: "('k, 'm) image_world_scheme \<Rightarrow> bool"
    and depth :: "string \<Rightarrow> nat \<Rightarrow> bool"
    and fresh :: "string \<Rightarrow> bool"
    and source :: "string \<Rightarrow> bool"
  assumes R_idle: "\<not> active w \<Longrightarrow> R w w'"
    and active_slots: "active w \<Longrightarrow> length (slots (w_cache w)) = MAX_IMAGE_MOUNTS"
    and R_cache: "image_op fresh source (w_cache w) c \<Longrightarrow> R w (w\<lparr>w_cache := c, w_errno := e\<rparr>)"
    and R_games: "R w (w\<lparr>w_games := g\<rparr>)"
    and depth_zero: "depth p 0 \<Longrightarrow> R w (w\<lparr>w_fault := True\<rparr>)"
    and depth_child: "depth p (Suc n) \<Longrightarrow> active w \<Longrightarrow> container_child K w p q \<Longrightarrow> depth q n"
    and depth_cached: "active w \<Longrightarrow> q \<in> cached_paths (w_cache w) \<Longrightarrow> depth q NESTED_RELEASES"
begin

lemma kept_games [keeps]: "kept_all R (modify (\<lambda>w. w\<lparr>w_games := g w\<rparr>))"
  by (simp add: kept_all_def kept_def wp R_games)

lemma kept_cache_op: "(\<And>h c. image_op fresh source c (snd (f h c))) \<Longrightarrow> kept_all R (cache_op K f)"
  by (auto simp: kept_all_def kept_def wp_def cache_op_def split: prod.split)
    (metis R_cache snd_conv)

lemma kept_cache_ops [keeps]:
  "fresh p \<Longrightarrow> kept_all R (cache_op K (\<lambda>h c. begin_image_attachment c p m))"
  "source p \<Longrightarrow> kept_all R (cache_op K (\<lambda>h c. cache_image_mount h c p m u b))"
  "kept_all R (cache_op K (\<lambda>h c. cancel_image_attachment c src gen))"
  "kept_all R (cache_op K (\<lambda>h c. publish_image_attachment h c src gen u b))"
  "source p \<Longrightarrow> kept_all R (cache_op K (\<lambda>h c. complete_image_attachment h c (Some p) gen u b))"
  "kept_all R (cache_op K (\<lambda>h c. mark_image_cache_detach_requested h c src gen u b))"
  "kept_all R (cache_op K (\<lambda>h c. claim_image_cache_detach h c src gen u b))"
  "kept_all R (cache_op K (\<lambda>h c. finish_image_cache_detach_attempt c src gen u b ds))"
  "kept_all R (cache_op K (\<lambda>h c. invalidate_image_cache_entry c i x))"
  by (rule kept_cache_op, erule image_op.intros | rule kept_cache_op, rule image_op.intros)+

lemma kept_resolve [keeps]: "kept_all R (resolve_device_from_mount K mp)"
  unfolding resolve_device_from_mount_def by (intro keeps)

lemma kept_release_parts [keeps]:
  "kept_all R (invalidate_matching_image_cache_entry K k e)"
  "kept_all R (detach_cached_image_device K p gen b u)"
  "kept_all R (resolve_release_device K mp u b)"
  "kept_all R (reserve_release K p b u gen)"
  unfolding invalidate_matching_image_cache_entry_def detach_cached_image_device_def resolve_release_device_def
    reserve_release_def
  by (intro keeps)+

lemma kept_release_filesystem [keeps]: "kept_all R (release_filesystem K p mp gen b u)"
  unfolding release_filesystem_def release_device_and_directory_def by (intro keeps)

lemma kept_allI: "(\<And>w. active w \<Longrightarrow> kept R m w) \<Longrightarrow> kept_all R m"
  unfolding kept_all_def by (metis (no_types, lifting) R_idle kept_def wp_def case_prod_beta)

lemma kept_children:
  assumes rec: "\<And>w q u b g. active w \<Longrightarrow> path_matches_root_or_child q mp \<Longrightarrow> q \<in> cached_paths (w_cache w)
      \<Longrightarrow> kept R (unmount q u b cleanup g) w"
  shows "kept_all R (unmount_child_image_mounts_for_container K unmount mp cleanup)"
  unfolding unmount_child_image_mounts_for_container_def
proof (intro kept_fold kept_allI)
  fix k all_unmounted w
  assume act: "active w"
  show "kept R (unmount_child_step K unmount mp cleanup k all_unmounted) w"
    unfolding unmount_child_step_def
  proof (rule kept_gets, goal_cases)
    case 1
    show ?case
    proof (cases "get_image_cache_entry (w_cache w) (int k)")
    case (Some e)
    have "kept R (unmount (e_path e) (e_unit_id e) (e_backend e) cleanup 0) w" if "path_matches_root_or_child (e_path e) mp"
      using rec [OF act that] entry_cached [OF Some active_slots [OF act]] by blast
    note call = kept_bindI [OF this]
    show ?thesis unfolding Some option.case
      by (cases "path_matches_root_or_child (e_path e) mp"; simp) (intro conjI impI keptD call keeps; assumption)+
    qed (simp add: keptD kept_ret)
  qed
qed

lemma kept_release_tracked:
  assumes "t = IMAGE_FS_PFSC_CONTAINER \<Longrightarrow> kept_all R (unmount_child_image_mounts_for_container K unmount mp cleanup)"
  shows "kept_all R (release_tracked K unmount p t mp b u cleanup gen)"
  unfolding release_tracked_def using assms by (auto intro!: keeps)

lemma kept_body:
  assumes rec: "\<And>w q u b g. active w \<Longrightarrow> container_child K w p q \<Longrightarrow> kept R (unmount q u b cleanup g) w"
  shows "kept_all R (unmount_image_body K unmount p u b cleanup expected)"
proof -
  have "kept_all R (unmount_child_image_mounts_for_container K unmount
      (build_image_mount_point_for_fs (k_mnamelen K) p (detect_image_fs_type_for_path p None)) cleanup)"
    if "detect_image_fs_type_for_path p None = IMAGE_FS_PFSC_CONTAINER"
    using that by (intro kept_children rec) (auto simp: container_child_def)
  then show ?thesis
    unfolding unmount_image_body_def by (auto simp: Let_def intro!: keeps kept_release_tracked)
qed

lemma kept_unmount_impl: "depth p n \<Longrightarrow> kept_all R (unmount_image_impl K n p u b cleanup expected)"
proof (induction n arbitrary: p u b cleanup expected)
  case 0
  have "kept_all R fault" using depth_zero [OF 0] by (simp add: kept_all_def kept_def fault_def wp)
  then show ?case by (auto intro!: keeps)
next
  case (Suc n)
  show ?case unfolding unmount_image_impl.simps
  proof (rule kept_body)
    fix w q u b g
    assume "active w" "container_child K w p q"
    then show "kept R (unmount_image_impl K n q u b cleanup g) w"
      using depth_child Suc by (blast intro: keptD)
  qed
qed

lemma kept_unmount [keeps]:
  "depth p NESTED_RELEASES \<Longrightarrow> kept_all R (unmount_image K p u b)"
  "depth p NESTED_RELEASES \<Longrightarrow> kept_all R (unmount_runtime_image K p u b)"
  unfolding unmount_image_def unmount_runtime_image_def by (erule kept_unmount_impl)+

lemma kept_unmount_slot [keeps]: "depth (e_path e) NESTED_RELEASES \<Longrightarrow> kept_all R (unmount_slot K k e)"
  unfolding unmount_slot_def by (auto intro!: keeps)

text \<open>A program that begins with a look at the cache.\<close>

lemma kept_look:
  assumes "\<And>w. active w \<Longrightarrow> kept_all R (f (w_cache w))"
  shows "kept_all R (State_Monad.bind (gets w_cache) f)"
  by (rule kept_allI, rule kept_gets, rule keptD, rule assms)

lemma kept_releases [keeps]:
  "kept_all R (release_runtime_image_attachment K p gen)"
  "kept_all R (release_runtime_image_mount K p)"
  unfolding release_runtime_image_attachment_def release_runtime_image_mount_def
  by (rule kept_look, intro keeps kept_unmount_impl, blast dest: found_cached(1) intro: depth_cached)+

subsection \<open>Loops over the cache\<close>

lemma slot_depth:
  "get_image_cache_entry (w_cache w) (int k) = Some e \<Longrightarrow> active w \<Longrightarrow> depth (e_path e) NESTED_RELEASES"
  using entry_cached active_slots depth_cached by blast

lemma kept_release_pass [keeps]: "kept_all R (release_pass_step K k flags)"
  unfolding release_pass_step_def
  by ((rule kept_prod)+, rule kept_look, intro keeps) (blast dest: slot_depth)

lemma kept_release_passes [keeps]: "kept_all R (release_passes K n b)"
  by (induction n arbitrary: b) (auto intro!: keeps)

lemma kept_suspend_step [keeps]: "kept_all R (suspend_unmount_step K k b)"
  unfolding suspend_unmount_step_def by (rule kept_look, intro keeps) (blast dest: slot_depth)

lemma kept_shutdown_pass [keeps]: "kept_all R (shutdown_pass_step K k flags)"
  unfolding shutdown_pass_step_def
  by ((rule kept_prod)+, rule kept_look, intro keeps) (blast dest: slot_depth)

lemma kept_shutdown_passes [keeps]: "kept_all R (shutdown_passes K n)"
  by (induction n) (auto intro!: keeps)

lemma kept_service_detach [keeps]: "depth (e_path e) NESTED_RELEASES \<Longrightarrow> kept_all R (service_pending_image_detach K k e)"
  unfolding service_pending_image_detach_def by (intro keeps)

lemma kept_all_releases [keeps]:
  "kept_all R (release_runtime_image_mounts K)"
  "kept_all R (unmount_usb_image_mounts_for_suspend K)"
  "kept_all R (shutdown_image_mounts K)"
  unfolding release_runtime_image_mounts_def unmount_usb_image_mounts_for_suspend_def shutdown_image_mounts_def
  by (intro keeps)+

end

section \<open>Mounts\<close>

locale image_mounts = image_releases +
  assumes R_error: "R w (w\<lparr>w_error := er\<rparr>)"
    and R_notices: "R w (w\<lparr>w_notices := ns\<rparr>)"
    and R_success: "R w (w\<lparr>w_paths := clear_image_mount_attempts (w_paths w) p\<rparr>)"
    and R_retry: "R w (w\<lparr>w_paths := clear_missing_param_entry (w_paths w) p\<rparr>)"
    and R_failure: "bump_image_mount_attempts (kernel_host K (w_kernel w)) (w_paths w) p = Some (cnt, ps)
          \<Longrightarrow> R w (w\<lparr>w_paths := ps\<rparr>)"
    and R_null: "source p \<Longrightarrow> bump_image_mount_attempts (kernel_host K (w_kernel w)) (w_paths w) p = None
          \<Longrightarrow> R w (w\<lparr>w_fault := True\<rparr>)"
    and source_cached: "active w \<Longrightarrow> q \<in> cached_paths (w_cache w) \<Longrightarrow> source q"
begin

lemma kept_modify [keeps]: "kept_all R (modify (\<lambda>w. w\<lparr>w_error := er w\<rparr>))"
    "kept_all R (modify (\<lambda>w. w\<lparr>w_notices := ns w\<rparr>))"
    "kept_all R (modify (\<lambda>w. w\<lparr>w_paths := clear_image_mount_attempts (w_paths w) p\<rparr>))"
    "kept_all R (modify (\<lambda>w. w\<lparr>w_paths := clear_missing_param_entry (w_paths w) p\<rparr>))"
  by (simp_all add: kept_all_def kept_def wp R_error R_notices R_success R_retry)

lemma kept_errors [keeps]: "kept_all R sm_error_clear" "kept_all R (sm_error_set code p text)" "kept_all R sm_error_mark_notified"
    "kept_all R sm_error_notified" "kept_all R (notify notice)" "kept_all R (note_mount_success q)"
  unfolding sm_error_clear_def sm_error_set_def sm_error_mark_notified_def sm_error_notified_def notify_def note_mount_success_def
  by (rule keeps)+

lemma kept_notify_failed [keeps]: "kept_all R (notify_image_mount_failed p e)"
  unfolding notify_image_mount_failed_def by (intro keeps)

lemma kept_note_failure [keeps]:
  assumes "source p"
  shows "kept_all R (note_mount_failure K p e)"
proof (rule kept_allI)
  fix w
  show "kept R (note_mount_failure K p e) w" unfolding note_mount_failure_def
  proof (rule kept_gets, rule kept_gets, cases "bump_image_mount_attempts (kernel_host K (w_kernel w)) (w_paths w) p")
    case None
    then show "kept R (case bump_image_mount_attempts (kernel_host K (w_kernel w)) (w_paths w) p of None \<Rightarrow> fault
        | Some (n, ps') \<Rightarrow> do {
            modify (\<lambda>w. w\<lparr>w_paths := ps'\<rparr>);
            notified \<leftarrow> sm_error_notified;
            if n = 1 \<and> \<not> notified then notify_image_mount_failed p e else ret () }) w"
      using R_null [OF assms None] by (simp add: fault_def kept_def wp)
  next
    case (Some r)
    obtain n ps where r: "r = (n, ps)" by (cases r)
    have "kept R (modify (\<lambda>w. w\<lparr>w_paths := ps\<rparr>)) w" using R_failure Some r by (simp add: kept_def wp)
    then show "kept R (case bump_image_mount_attempts (kernel_host K (w_kernel w)) (w_paths w) p of None \<Rightarrow> fault
        | Some (n, ps') \<Rightarrow> do {
            modify (\<lambda>w. w\<lparr>w_paths := ps'\<rparr>);
            notified \<leftarrow> sm_error_notified;
            if n = 1 \<and> \<not> notified then notify_image_mount_failed p e else ret () }) w"
      unfolding Some r by (simp add: kept_bindI keeps)
  qed
qed

lemma kept_attach [keeps]: "kept_all R (attach_image_device K p t ro sz b profile ty gen)"
  unfolding attach_image_device_def by (intro keeps)

lemma kept_mount_parts [keeps]:
  "kept_all R (reject_mounted_image_io K p gen e)"
  "kept_all R (verify_exfat_nmount_result K p gen dev mp)"
  "kept_all R (reject_small_cluster K p gen dev bs sec)"
  unfolding reject_mounted_image_io_def verify_exfat_nmount_result_def reject_small_cluster_def
  by (intro keeps)+

lemma kept_nmount [keeps]:
  "kept_all R (perform_image_nmount K p gen t dev mp ro force profile)"
  "kept_all R (validate_mounted_image K p gen t b dev mp)"
  unfolding perform_image_nmount_def validate_mounted_image_def by (intro keeps)+

lemma kept_mount_reserved [keeps]:
  "source p \<Longrightarrow> kept_all R (mount_reserved_image K p t mp ro force b sz profile ty gen)"
  unfolding mount_reserved_image_def mount_attached_image_def check_mounted_image_def commit_image_mount_def by (intro keeps)

lemma kept_existing [keeps]: "source p \<Longrightarrow> kept_all R (handle_cached_or_existing_image_mount K p mp)"
  unfolding handle_cached_or_existing_image_mount_def handle_existing_def reuse_existing_image_mount_def by (intro keeps)

lemma kept_mount [keeps]:
  "fresh p \<Longrightarrow> source p \<Longrightarrow> kept_all R (mount_image_with_mode K p t override)"
  "fresh p \<Longrightarrow> source p \<Longrightarrow> kept_all R (mount_image K p t)"
  unfolding mount_image_def mount_image_with_mode_def mount_new_image_def by (intro keeps; assumption)+

lemma kept_maybe_mount [keeps]:
  "fresh p \<Longrightarrow> source p \<Longrightarrow> kept_all R (maybe_mount_image_file_with_mode K p name override)"
  "fresh p \<Longrightarrow> source p \<Longrightarrow> kept_all R (maybe_mount_image_file K p name)"
  unfolding maybe_mount_image_file_def maybe_mount_image_file_with_mode_def is_source_stable_for_mount_def
    is_path_stable_now_def by (intro keeps; assumption)+

lemma kept_retry [keeps]: "kept_all R (prepare_image_mount_retry K e)"
  unfolding prepare_image_mount_retry_def by (intro keeps)

end

section \<open>Clean-up\<close>

text \<open>The clean-up mounts images again that are in the cache.\<close>

locale image_programs = image_mounts +
  assumes fresh_cached: "active w \<Longrightarrow> q \<in> cached_paths (w_cache w) \<Longrightarrow> fresh q"
begin

lemma kept_cleanup_slot [keeps]:
  assumes "depth (e_path e) NESTED_RELEASES" "source (strlcpy (e_path e) MAX_PATH)" "fresh (strlcpy (e_path e) MAX_PATH)"
  shows "kept_all R (cleanup_stale_slot K k e)"
proof -
  have tail: "kept_all R (do {
      retry \<leftarrow> prepare_image_mount_retry K e;
      (case retry of
         None \<Rightarrow> ret ()
       | Some source_path \<Rightarrow> do {
           mounted \<leftarrow> mount_image K source_path (detect_image_fs_type_for_path (e_path e) None);
           if mounted then note_mount_success source_path
           else do { mount_err \<leftarrow> get_errno; note_mount_failure K source_path mount_err }
         }) })"
  proof (rule kept_allI, rule kept_bind, rule keptD, rule kept_retry, goal_cases)
    case (1 w retry w')
    then have "retry = None \<or> retry = Some (strlcpy (e_path e) MAX_PATH)"
      by (auto simp: prepare_image_mount_retry_def Let_def split: prod.splits if_splits)
    then show ?case using assms(2,3) by (auto intro!: keeps)
  qed
  show ?thesis unfolding cleanup_stale_slot_def using assms(1)
    by - (rule tail | rule keeps | assumption)+
qed

lemma kept_cleanup_step [keeps]: "kept_all R (cleanup_stale_step K concerned k)"
proof -
  have "kept_all R (do { c \<leftarrow> gets w_cache;
      (case get_image_cache_entry c (int k) of
          None \<Rightarrow> ret True
        | Some e \<Rightarrow>
            if \<not> has_device e \<or> \<not> concerned e then ret True
            else do {
              protected \<leftarrow> ask (k_protected K (e_path e));
              (if protected then ret () else cleanup_stale_slot K k e);
              ret True
            }) })"
  proof (rule kept_look, intro keeps)
    fix w e
    assume a: "active w" "get_image_cache_entry (w_cache w) (int k) = Some e"
    then show "depth (e_path e) NESTED_RELEASES" using slot_depth by blast
    have "strlcpy (e_path e) MAX_PATH = e_path e" using a(2)
      by (auto simp: get_image_cache_entry_def copy_cache_entry_def split: if_splits)
    then show "source (strlcpy (e_path e) MAX_PATH)" "fresh (strlcpy (e_path e) MAX_PATH)"
      using source_cached fresh_cached entry_cached active_slots a by metis+
  qed
  then show ?thesis unfolding cleanup_stale_step_def
    by (intro kept_bind_all [OF kept_call(2)] kept_if kept_ret)
qed

lemma kept_cleanup [keeps]:
  "kept_all R (cleanup_stale_image_mounts K)"
  "kept_all R (cleanup_stale_image_mounts_for_root K root)"
  unfolding cleanup_stale_image_mounts_for_root_def cleanup_stale_image_mounts_def by (intro keeps)+

end

end
