(* ===== verification/Image_Safety.thy ===== *)
theory Image_Safety
  imports Image_Programs
begin

text \<open>
  What the programs of \<^verbatim>\<open>src/sm_image.c\<close> guarantee whatever the kernel answers: the image cache only takes the steps of its
  own operations, releases end, and no program but a mount adds a reservation.
\<close>

section \<open>Single operations on the cache\<close>

lemma cached_paths_set_slot:
  "cached_paths (set_slot c k e) \<subseteq> cached_paths c \<union> (if slot_valid e then {strlcpy (path e) MAX_PATH} else {})"
  using set_update_subset_insert [of "slots c" k e] by (auto simp: cached_paths_def set_slot_def)

lemma cached_paths_slots: "slots c = slots c' \<Longrightarrow> cached_paths c = cached_paths c'"
  by (simp add: cached_paths_def)

lemma cached_paths_kept:
  assumes "k < length (slots c)" "slot_valid (slots c ! k)" "path e = path (slots c ! k)"
  shows "cached_paths (set_slot c k e) \<subseteq> cached_paths c"
proof -
  have "strlcpy (path e) MAX_PATH \<in> cached_paths c" using assms nth_mem by (force simp: cached_paths_def)
  then show ?thesis using cached_paths_set_slot [of c k e] by (auto split: if_splits)
qed

lemma cached_paths_blank: "cached_paths (set_slot c k blank_slot) \<subseteq> cached_paths c"
  using cached_paths_set_slot [of c k blank_slot] by simp

lemma refresh_keeps [simp]:
  "path (snd (refresh_attached_unit_identity h e)) = path e"
  "slot_valid (snd (refresh_attached_unit_identity h e)) = slot_valid e"
  "dev_state (snd (refresh_attached_unit_identity h e)) = dev_state e"
  "generation (snd (refresh_attached_unit_identity h e)) = generation e"
  by (auto simp: refresh_attached_unit_identity_def split: sum.split)

lemma record_index: "find_attachment_record c p gen u b = Some k \<Longrightarrow> k < length (slots c) \<and> slot_valid (slots c ! k)"
  by (auto simp: find_attachment_record_def find_source_path_index_def find_index_Some split: option.splits if_splits)

lemma reservation_index: "find_reservation c p gen = Some k \<Longrightarrow> k < length (slots c) \<and> slot_valid (slots c ! k)"
  by (auto simp: find_reservation_def find_source_path_index_def find_index_Some Let_def split: option.splits if_splits)

text \<open>An operation keeps the number of slots, and of the paths only the given source can be new.\<close>

lemma resolve_paths:
  assumes "resolve_or_merge_mapping_index c p m = Inr (ki, merged, c1)"
  shows "length (slots c1) = length (slots c) \<and> cached_paths c1 \<subseteq> cached_paths c"
  using assms cached_paths_blank
  by (fastforce simp: resolve_or_merge_mapping_index_def split: sum.splits prod.splits option.splits if_splits)

definition writes_mapping :: "image_cache \<Rightarrow> string \<Rightarrow> image_cache \<Rightarrow> bool" where
  "writes_mapping c1 p c' \<longleftrightarrow>
     (\<exists>c2 k e. slots c2 = slots c1 \<and> path e = strlcpy p MAX_PATH
        \<and> (dev_state e = ATTACHED_DEVICE_RELEASED \<or> e = slots c1 ! k) \<and> c' = set_slot c2 k e)"

lemma writes_mappingI:
  "slots c2 = slots c1 \<Longrightarrow> path e = strlcpy p MAX_PATH \<Longrightarrow> dev_state e = ATTACHED_DEVICE_RELEASED \<or> e = slots c1 ! k
   \<Longrightarrow> writes_mapping c1 p (set_slot c2 k e)"
  by (auto simp: writes_mapping_def)

lemma upsert_writes:
  assumes "upsert_image_source_mapping c p m = (r, c')"
  shows "c' = c \<or> (\<exists>ki merged c1. resolve_or_merge_mapping_index c p m = Inr (ki, merged, c1)
    \<and> (c' = c1 \<or> writes_mapping c1 p c'))"
proof (cases "p = [] \<or> m = [] \<or> length p \<ge> MAX_PATH \<or> length m \<ge> MAX_PATH")
  case True
  then show ?thesis using assms by (auto simp: upsert_image_source_mapping_def split: if_splits)
next
  case False
  then have fits: "strlcpy p MAX_PATH = p" "strlcpy m MAX_PATH = m" by (simp_all add: strlcpy_id)
  show ?thesis
  proof (cases "resolve_or_merge_mapping_index c p m")
    case (Inl e)
    then show ?thesis using assms False by (auto simp: upsert_image_source_mapping_def)
  next
    case (Inr y)
    obtain ki merged c1 where y: "y = (ki, merged, c1)" by (cases y) auto
    obtain g c2 where g: "next_cache_generation c1 = (g, c2)" by (cases "next_cache_generation c1")
    note s2 = slots_next_generation [OF g]
    have "c' = c1 \<or> writes_mapping c1 p c'"
    proof (cases ki)
      case None
      show ?thesis
      proof (cases "find_index (\<lambda>e. \<not> slot_valid e) (slots c1)")
        case (Some k)
        have c': "c' = set_slot c2 k ((slots c1 ! k)\<lparr>path := strlcpy p MAX_PATH, mount_point := strlcpy m MAX_PATH, unit_id := -1,
            backend := ATTACH_BACKEND_NONE, dev_state := ATTACHED_DEVICE_RELEASED, generation := g, slot_valid := True\<rparr>)"
          using assms False None Some by (auto simp: upsert_image_source_mapping_def Inr y g Let_def)
        show ?thesis unfolding c' by (rule disjI2, rule writes_mappingI) (simp_all add: s2)
      qed (use assms False None in \<open>auto simp: upsert_image_source_mapping_def Inr y\<close>)
    next
      case (Some k)
      let ?e = "slots c1 ! k"
      let ?changed = "merged \<or> path ?e \<noteq> p \<or> mount_point ?e \<noteq> m"
      let ?e1 = "?e\<lparr>path := strlcpy p MAX_PATH, mount_point := strlcpy m MAX_PATH\<rparr>"
      have c': "c' = (if \<not> cache_entry_is_metadata_only ?e \<and> ?changed then c1
          else if ?changed then set_slot c2 k (?e1\<lparr>generation := g\<rparr>) else set_slot c1 k ?e1)"
        using assms False by (auto simp: upsert_image_source_mapping_def Inr y g Some Let_def split: if_splits)
      have "writes_mapping c1 p (set_slot c2 k (?e1\<lparr>generation := g\<rparr>))" if "cache_entry_is_metadata_only ?e"
        by (rule writes_mappingI) (use that s2 in \<open>simp_all add: cache_entry_is_metadata_only_def\<close>)
      moreover have "writes_mapping c1 p (set_slot c1 k ?e1)" if "\<not> ?changed"
        by (rule writes_mappingI) (use that fits in simp_all)
      ultimately show ?thesis unfolding c' by auto
    qed
    then show ?thesis using Inr y by blast
  qed
qed

lemma upsert_paths:
  assumes "upsert_image_source_mapping c p m = (r, c')"
  shows "length (slots c') = length (slots c)" "cached_paths c' \<subseteq> cached_paths c \<union> {strlcpy p MAX_PATH}"
proof -
  have wr: "length (slots c') = length (slots c1)" "cached_paths c' \<subseteq> cached_paths c1 \<union> {strlcpy p MAX_PATH}"
    if m: "writes_mapping c1 p c'" for c1
  proof -
    obtain c2 k e where w: "slots c2 = slots c1" "path e = strlcpy p MAX_PATH" "c' = set_slot c2 k e"
      using m by (auto simp: writes_mapping_def)
    show "length (slots c') = length (slots c1)" "cached_paths c' \<subseteq> cached_paths c1 \<union> {strlcpy p MAX_PATH}"
      using w cached_paths_set_slot [of c2 k e] cached_paths_slots [OF w(1)] by (auto split: if_splits)
  qed
  show "length (slots c') = length (slots c)"
    using upsert_writes [OF assms] resolve_paths wr(1) by metis
  show "cached_paths c' \<subseteq> cached_paths c \<union> {strlcpy p MAX_PATH}"
    using upsert_writes [OF assms] resolve_paths wr(2) by blast
qed

lemma begin_paths:
  assumes "cache_inv c"
  shows "cached_paths (snd (begin_image_attachment c p m)) \<subseteq> cached_paths c \<union> {strlcpy p MAX_PATH}"
proof -
  obtain r c1 where u: "upsert_image_source_mapping c p m = (r, c1)" by (cases "upsert_image_source_mapping c p m")
  note up = upsert_paths(2) [OF u]
  show ?thesis
  proof (cases r)
    case (Inl e)
    then show ?thesis using u up by (simp add: begin_image_attachment_def)
  next
    case (Inr k)
    note ok = upsert_ok [OF assms u [unfolded Inr]]
    obtain g c2 where g: "next_cache_generation c1 = (g, c2)" by (cases "next_cache_generation c1")
    note s2 = slots_next_generation [OF g]
    let ?e = "(slots c2 ! k)\<lparr>generation := g, unit_id := -1, backend := ATTACH_BACKEND_NONE,
      dev_state := ATTACHED_DEVICE_ATTACHING, detach_state := blank_detach_state, detach_attempt_active := False\<rparr>"
    have "cached_paths (set_slot c2 k ?e) \<subseteq> cached_paths c2"
      by (rule cached_paths_kept) (use ok s2 cache_inv_length [OF ok(1)] in auto)
    then show ?thesis using u Inr up g cached_paths_slots [OF s2] by (auto simp: begin_image_attachment_def)
  qed
qed

lemma cache_mount_paths:
  assumes "cache_inv c"
  shows "cached_paths (snd (cache_image_mount h c p m un b)) \<subseteq> cached_paths c \<union> {strlcpy p MAX_PATH}"
proof -
  obtain r c1 where u: "upsert_image_source_mapping c p m = (r, c1)" by (cases "upsert_image_source_mapping c p m")
  note up = upsert_paths(2) [OF u]
  show ?thesis
  proof (cases "un < 0 \<or> \<not> attach_backend_is_valid b \<or> (\<exists>e. r = Inl e)")
    case True
    then show ?thesis using u up by (auto simp: cache_image_mount_def)
  next
    case False
    then obtain k where k: "r = Inr k" by (cases r) auto
    note ok = upsert_ok [OF assms u [unfolded k]]
    obtain g c2 where g: "next_cache_generation c1 = (g, c2)" by (cases "next_cache_generation c1")
    note s2 = slots_next_generation [OF g]
    let ?e = "reset_attached_unit_identity h ((slots c2 ! k)\<lparr>generation := g, unit_id := un, backend := b,
      dev_state := ATTACHED_DEVICE_MOUNTED, detach_attempt_active := False\<rparr>)"
    have "cached_paths (set_slot c2 k ?e) \<subseteq> cached_paths c2"
      by (rule cached_paths_kept)
        (use ok s2 cache_inv_length [OF ok(1)] in \<open>auto simp: reset_attached_unit_identity_def\<close>)
    then show ?thesis using u k False up g cached_paths_slots [OF s2] by (auto simp: cache_image_mount_def)
  qed
qed

text \<open>A slot in use is written: it keeps its path and is left in its state, asked to detach, or mounted.\<close>

definition rewrites_slot :: "(string \<Rightarrow> bool) \<Rightarrow> image_cache \<Rightarrow> image_cache \<Rightarrow> bool" where
  "rewrites_slot source c c' \<longleftrightarrow>
     (\<exists>k e. k < length (slots c) \<and> slot_valid (slots c ! k) \<and> c' = set_slot c k e \<and> slot_valid e \<and> path e = path (slots c ! k)
        \<and> generation e = generation (slots c ! k)
        \<and> (dev_state e = dev_state (slots c ! k) \<or> dev_state e = ATTACHED_DEVICE_DETACH_REQUESTED
           \<or> dev_state e = ATTACHED_DEVICE_MOUNTED \<and> source (path e)))"

lemma rewrites_slotI:
  "k < length (slots c) \<and> slot_valid (slots c ! k) \<Longrightarrow> slot_valid e \<Longrightarrow> path e = path (slots c ! k)
   \<Longrightarrow> generation e = generation (slots c ! k) \<Longrightarrow> dev_state e = dev_state (slots c ! k) \<or> dev_state e = ATTACHED_DEVICE_DETACH_REQUESTED
       \<or> dev_state e = ATTACHED_DEVICE_MOUNTED \<and> source (path e)
   \<Longrightarrow> rewrites_slot source c (set_slot c k e)"
  unfolding rewrites_slot_def by (intro exI [of _ k] exI [of _ e]) simp

lemma publish_shape: "snd (publish_image_attachment h c src gen u b) = c \<or> rewrites_slot source c (snd (publish_image_attachment h c src gen u b))"
  by (auto simp: publish_image_attachment_def intro!: rewrites_slotI dest: reservation_index split: option.split)

lemma record_path: "find_attachment_record c p gen u b = Some k \<Longrightarrow> path (slots c ! k) = p"
  by (auto simp: find_attachment_record_def find_source_path_index_def find_index_Some split: option.splits if_splits)

lemma complete_shape: "source p \<Longrightarrow> snd (complete_image_attachment h c (Some p) gen u b) = c
    \<or> rewrites_slot source c (snd (complete_image_attachment h c (Some p) gen u b))"
  by (auto simp: complete_image_attachment_def record_path intro!: rewrites_slotI dest: record_index split: option.split)

lemma mark_shape: "snd (mark_image_cache_detach_requested h c src gen u b) = c
    \<or> rewrites_slot source c (snd (mark_image_cache_detach_requested h c src gen u b))"
proof -
  have "rewrites_slot source c (set_slot c k (snd (refresh_attached_unit_identity h
      ((slots c ! k)\<lparr>dev_state := ATTACHED_DEVICE_DETACH_REQUESTED\<rparr>))))" if "find_attachment_record c p gen u b = Some k" for p k
    using record_index [OF that] by (intro rewrites_slotI) simp_all
  then show ?thesis by (auto simp: mark_image_cache_detach_requested_def Let_def case_prod_beta split: option.split)
qed

lemma claim_shape: "snd (claim_image_cache_detach h c src gen u b) = c
    \<or> rewrites_slot source c (snd (claim_image_cache_detach h c src gen u b))"
proof -
  let ?e = "\<lambda>k. snd (refresh_attached_unit_identity h (slots c ! k))"
  have "rewrites_slot source c (set_slot c k (?e k))" "rewrites_slot source c (set_slot c k
      ((?e k)\<lparr>dev_state := ATTACHED_DEVICE_DETACH_REQUESTED, detach_attempt_active := True\<rparr>))"
    if "find_attachment_record c p gen u b = Some k" for p k
    using record_index [OF that] by (intro rewrites_slotI; simp)+
  then show ?thesis by (auto simp: claim_image_cache_detach_def Let_def case_prod_beta split: option.split)
qed

lemma finish_shape: "snd (finish_image_cache_detach_attempt c src gen u b ds) = c
    \<or> rewrites_slot source c (snd (finish_image_cache_detach_attempt c src gen u b ds))"
  by (auto simp: finish_image_cache_detach_attempt_def intro!: rewrites_slotI dest: record_index split: option.split)

text \<open>The operations that take no new source blank a slot or rewrite one.\<close>

lemma image_op_shape:
  assumes "image_op fresh source c c'"
  shows "(\<exists>p m. fresh p \<and> c' = snd (begin_image_attachment c p m)) \<or> (\<exists>p m h u b. source p \<and> c' = snd (cache_image_mount h c p m u b))
    \<or> c' = c \<or> (\<exists>k. c' = set_slot c k blank_slot) \<or> rewrites_slot source c c'"
  using assms
proof (cases rule: image_op.cases)
  case (3 src gen)
  then show ?thesis by (auto simp: cancel_image_attachment_def split: option.splits)
next
  case (9 i x)
  then show ?thesis by (auto simp: invalidate_image_cache_entry_def Let_def)
next
  case (4 h src gen u b)
  then show ?thesis using publish_shape by metis
next
  case (5 p h gen u b)
  then show ?thesis using complete_shape by metis
next
  case (6 h src gen u b)
  then show ?thesis using mark_shape by metis
next
  case (7 h src gen u b)
  then show ?thesis using claim_shape by metis
next
  case (8 src gen u b ds)
  then show ?thesis using finish_shape by metis
qed blast+

lemma frame_own:
  fixes w w' :: "('k, 'm) image_world_scheme"
  assumes "frame w evs w'"
  shows "w_cache w' = w_cache w" "w_games w' = w_games w" "w_paths w' = w_paths w" "w_fault w' = w_fault w"
  using assms by (cases w; cases w'; simp add: frame_def)+

section \<open>The cache takes its own steps only\<close>

lemma image_op_step: "image_op fresh source c c' \<Longrightarrow> cache_step c c'"
  by (auto elim!: image_op.cases intro: cache_step.intros)

definition tracked_cache :: "('k, 'm) image_world_scheme \<Rightarrow> ('k, 'm) image_world_scheme \<Rightarrow> bool" where
  "tracked_cache w w' \<longleftrightarrow>
     (cache_inv (w_cache w) \<longrightarrow> cache_inv (w_cache w') \<and> cache_step\<^sup>*\<^sup>* (w_cache w) (w_cache w'))"

lemma tracked_cache_op:
  assumes "image_op fresh source (w_cache w) c"
  shows "tracked_cache w (w\<lparr>w_cache := c, w_errno := e\<rparr>)"
  using image_op_step [OF assms] cache_step_ok [OF image_op_step [OF assms]]
  by (auto simp: tracked_cache_def step_ok_def)

interpretation tracked: image_programs tracked_cache K "\<lambda>w. cache_inv (w_cache w)" "\<lambda>_ _. True" "\<lambda>_. True" "\<lambda>_. True" for K
proof (unfold_locales, goal_cases)
  case (2 w1 w2 w3)
  then show ?case by (auto simp: tracked_cache_def intro: rtranclp_trans)
next
  case (3 w evs w')
  then show ?case using frame_own [OF 3] by (simp add: tracked_cache_def)
next
  case (6 w c e)
  then show ?case by (rule tracked_cache_op)
qed (simp_all add: tracked_cache_def cache_inv_length)

section \<open>Releases end\<close>

text \<open>The sources \<open>P\<close> are stored inside each other up to a depth: \<open>rank\<close> grows from an image to the container it is in.\<close>

definition ranked :: "'k kernel \<Rightarrow> string set \<Rightarrow> (string \<Rightarrow> nat) \<Rightarrow> bool" where
  "ranked K P rank \<longleftrightarrow>
     (\<forall>p \<in> P. rank p \<le> MAX_IMAGE_MOUNTS)
     \<and> (\<forall>p \<in> P. \<forall>q \<in> P. detect_image_fs_type_for_path p None = IMAGE_FS_PFSC_CONTAINER
          \<longrightarrow> path_matches_root_or_child q (build_image_mount_point_for_fs (k_mnamelen K) p IMAGE_FS_PFSC_CONTAINER)
          \<longrightarrow> rank q < rank p)"

definition sources_known :: "'k kernel \<Rightarrow> string set \<Rightarrow> (string \<Rightarrow> nat) \<Rightarrow> ('k, 'm) image_world_scheme \<Rightarrow> bool" where
  "sources_known K P rank w \<longleftrightarrow>
     cache_inv (w_cache w) \<and> cached_paths (w_cache w) \<subseteq> P \<and> path_reach (\<lambda>_. True) (w_paths w) \<and> ranked K P rank"

definition no_new_fault :: "'k kernel \<Rightarrow> string set \<Rightarrow> (string \<Rightarrow> nat) \<Rightarrow> ('k, 'm) image_world_scheme \<Rightarrow> ('k, 'm) image_world_scheme \<Rightarrow> bool" where
  "no_new_fault K P rank w w' \<longleftrightarrow>
     (sources_known K P rank w \<longrightarrow> sources_known K P rank w' \<and> (w_fault w' \<longrightarrow> w_fault w))"

lemma image_op_paths:
  assumes "image_op (\<lambda>p. strlcpy p MAX_PATH \<in> P) (\<lambda>p. strlcpy p MAX_PATH \<in> P) c c'" "cache_inv c" "cached_paths c \<subseteq> P"
  shows "cached_paths c' \<subseteq> P"
proof -
  have "cached_paths c' \<subseteq> cached_paths c" if "rewrites_slot source c c'" for source
    using that cached_paths_kept by (auto simp: rewrites_slot_def)
  then show ?thesis
    using image_op_shape [OF assms(1)] begin_paths [OF assms(2)] cache_mount_paths [OF assms(2)] cached_paths_blank assms(3)
    by blast
qed

lemma bump_total: "path_reach (\<lambda>_. True) st \<Longrightarrow> bump_image_mount_attempts h st p \<noteq> None"
  using path_goc_total [OF path_reach_refs, of "\<lambda>_. True" st h p] by (auto simp: bump_image_mount_attempts_def Let_def)

lemma ranked_child:
  "ranked K P rank \<Longrightarrow> cached_paths (w_cache w) \<subseteq> P \<Longrightarrow> p \<in> P \<Longrightarrow> container_child K w p q \<Longrightarrow> q \<in> P \<and> rank q < rank p"
  by (auto simp: ranked_def container_child_def)

lemma ranked_bound: "ranked K P rank \<Longrightarrow> p \<in> P \<Longrightarrow> rank p < NESTED_RELEASES"
  by (auto simp: ranked_def NESTED_RELEASES_def)

lemma cached_path_fits: "q \<in> cached_paths c \<Longrightarrow> strlcpy q MAX_PATH = q"
  by (auto simp: cached_paths_def)

interpretation bounded: image_programs "no_new_fault K P rank" K "sources_known K P rank"
  "\<lambda>p n. p \<in> P \<and> rank p < n" "\<lambda>p. strlcpy p MAX_PATH \<in> P" "\<lambda>p. strlcpy p MAX_PATH \<in> P" for K P rank
proof (unfold_locales, goal_cases)
  case (3 w evs w')
  then show ?case using frame_own [OF 3] by (simp add: no_new_fault_def sources_known_def)
next
  case (6 w c e)
  then show ?case using image_op_paths [OF 6] cache_step_ok [OF image_op_step [OF 6]]
    by (auto simp: no_new_fault_def sources_known_def step_ok_def)
next
  case (9 p n w q)
  then show ?case using ranked_child [of K P rank w p q] by (auto simp: sources_known_def)
next
  case (16 p w)
  then show ?case using bump_total [of "w_paths w" "kernel_host K (w_kernel w)" p]
    by (auto simp: no_new_fault_def sources_known_def)
next
  case (15 w p cnt ps)
  then show ?case using path_reach.bump_image [OF _ TrueI 15] by (auto simp: no_new_fault_def sources_known_def)
next
  case (10 w q)
  then show ?case using ranked_bound [of K P rank q] by (auto simp: sources_known_def)
next
  case (17 w q)
  then show ?case using cached_path_fits by (auto simp: sources_known_def)
qed (auto simp: no_new_fault_def sources_known_def cache_inv_length
    intro: path_reach.clear_image path_reach.clear_missing)

section \<open>Reservations\<close>

text \<open>The sources that are being attached, with the generations of their records.\<close>

definition reservations :: "image_cache \<Rightarrow> (string \<times> u64) set" where
  "reservations c = {(path e, generation e) | e. e \<in> set (slots c) \<and> slot_valid e \<and> dev_state e = ATTACHED_DEVICE_ATTACHING}"

definition no_new_reservation :: "('k, 'm) image_world_scheme \<Rightarrow> ('k, 'm) image_world_scheme \<Rightarrow> bool" where
  "no_new_reservation w w' \<longleftrightarrow>
     (cache_inv (w_cache w) \<longrightarrow> cache_inv (w_cache w') \<and> reservations (w_cache w') \<subseteq> reservations (w_cache w))"

lemma reservations_slots: "slots c = slots c' \<Longrightarrow> reservations c = reservations c'"
  by (simp add: reservations_def)

lemma reservations_set_slot:
  "reservations (set_slot c k e) \<subseteq> reservations c
     \<union> (if slot_valid e \<and> dev_state e = ATTACHED_DEVICE_ATTACHING then {(path e, generation e)} else {})"
  using set_update_subset_insert [of "slots c" k e] by (auto simp: reservations_def)

lemma reservations_rewrite:
  assumes "rewrites_slot source c c'"
  shows "reservations c' \<subseteq> reservations c"
proof -
  obtain k e where k: "k < length (slots c)" "slot_valid (slots c ! k)" "c' = set_slot c k e" "path e = path (slots c ! k)"
    "generation e = generation (slots c ! k)"
    "dev_state e = dev_state (slots c ! k) \<or> dev_state e = ATTACHED_DEVICE_DETACH_REQUESTED \<or> dev_state e = ATTACHED_DEVICE_MOUNTED"
    using assms unfolding rewrites_slot_def by blast
  have "(path e, generation e) \<in> reservations c" if "dev_state e = ATTACHED_DEVICE_ATTACHING"
    unfolding reservations_def by (rule CollectI, rule exI [of _ "slots c ! k"]) (use k that in auto)
  then show ?thesis using reservations_set_slot [of c k e] k(3) by (auto split: if_splits)
qed

lemma resolve_reservations:
  assumes "resolve_or_merge_mapping_index c p m = Inr (ki, merged, c1)"
  shows "reservations c1 \<subseteq> reservations c"
  using assms reservations_set_slot [of c _ blank_slot]
  by (fastforce simp: resolve_or_merge_mapping_index_def split: sum.splits prod.splits option.splits if_splits)

lemma upsert_reservations:
  assumes "upsert_image_source_mapping c p m = (r, c')"
  shows "reservations c' \<subseteq> reservations c"
proof -
  have "reservations c' \<subseteq> reservations c1" if wr: "writes_mapping c1 p c'" for c1
  proof -
    obtain c2 k e where w: "slots c2 = slots c1" "dev_state e = ATTACHED_DEVICE_RELEASED \<or> e = slots c1 ! k" "c' = set_slot c2 k e"
      using wr by (auto simp: writes_mapping_def)
    have "slots c' = slots c1" if "e = slots c1 ! k" using that w(1,3) by simp
    then show ?thesis using w reservations_set_slot [of c2 k e] reservations_slots [OF w(1)] reservations_slots [of c' c1]
      by (auto split: if_splits)
  qed
  then show ?thesis using upsert_writes [OF assms] resolve_reservations by blast
qed

lemma cache_mount_reservations: "reservations (snd (cache_image_mount h c p m un b)) \<subseteq> reservations c"
proof -
  obtain r c1 where u: "upsert_image_source_mapping c p m = (r, c1)" by (cases "upsert_image_source_mapping c p m")
  obtain g c2 where g: "next_cache_generation c1 = (g, c2)" by (cases "next_cache_generation c1")
  have "reservations (set_slot c2 k (reset_attached_unit_identity h
      ((slots c2 ! k)\<lparr>generation := g, unit_id := un, backend := b, dev_state := ATTACHED_DEVICE_MOUNTED,
         detach_attempt_active := False\<rparr>))) \<subseteq> reservations c2" (is "reservations (set_slot c2 k (?e k)) \<subseteq> _") for k
    using reservations_set_slot [of c2 k "?e k"] by (simp add: reset_attached_unit_identity_def)
  then show ?thesis
    using upsert_reservations [OF u] reservations_slots [OF slots_next_generation [OF g]]
    by (auto simp: cache_image_mount_def u g split: sum.split)
qed

lemma image_op_reservations: "image_op (\<lambda>_. False) source c c' \<Longrightarrow> reservations c' \<subseteq> reservations c"
  using image_op_shape [of "\<lambda>_. False" source c c'] cache_mount_reservations reservations_rewrite
    reservations_set_slot [of c _ blank_slot] by fastforce

interpretation unreserved: image_mounts no_new_reservation K "\<lambda>w. cache_inv (w_cache w)" "\<lambda>_ _. True" "\<lambda>_. False" "\<lambda>_. True" for K
proof (unfold_locales, goal_cases)
  case (3 w evs w')
  then show ?case using frame_own [OF 3] by (simp add: no_new_reservation_def)
next
  case (6 w c e)
  then show ?case using image_op_reservations [OF 6] cache_step_ok [OF image_op_step [OF 6]]
    by (auto simp: no_new_reservation_def step_ok_def)
qed (auto simp: no_new_reservation_def cache_inv_length)

section \<open>Runs of the image code\<close>

text \<open>The entry points of \<^verbatim>\<open>src/sm_image.c\<close>, in any order and with any arguments, and in between whatever other threads do to
  the cache through its operations and to the rest of the world.\<close>

inductive image_action :: "'k kernel \<Rightarrow> ('k, 'm) image_world_scheme \<Rightarrow> ('k, 'm) image_world_scheme \<Rightarrow> bool" for K where
  mount: "image_action K w (snd (run_state (mount_image_with_mode K p t override) w))"
| maybe_mount: "image_action K w (snd (run_state (maybe_mount_image_file_with_mode K p name override) w))"
| unmount: "image_action K w (snd (run_state (unmount_image K p u b) w))"
| unmount_runtime: "image_action K w (snd (run_state (unmount_runtime_image K p u b) w))"
| release: "image_action K w (snd (run_state (release_runtime_image_mount K p) w))"
| release_all: "image_action K w (snd (run_state (release_runtime_image_mounts K) w))"
| cleanup: "image_action K w (snd (run_state (cleanup_stale_image_mounts_for_root K root) w))"
| suspend: "image_action K w (snd (run_state (unmount_usb_image_mounts_for_suspend K) w))"
| cleanup_dirs: "image_action K w (snd (run_state (cleanup_mount_dirs K) w))"
| shutdown: "image_action K w (snd (run_state (shutdown_image_mounts K) w))"
| others: "cache_step (w_cache w) c \<Longrightarrow> image_action K w (w\<lparr>w_cache := c, w_kernel := k, w_games := g, w_errno := e\<rparr>)"

lemma tracked_program: "kept_all tracked_cache m \<Longrightarrow> tracked_cache w (snd (run_state m w))"
  by (simp add: kept_all_def kept_def wp_def case_prod_beta)

lemma image_action_tracked: "image_action K w w' \<Longrightarrow> tracked_cache w w'"
proof (induction rule: image_action.induct)
  case (others w c k g e)
  then show ?case using cache_step_ok [OF others] by (auto simp: tracked_cache_def step_ok_def)
qed (rule tracked_program, rule keeps TrueI | simp)+

lemma tracked_run: "tracked_cache w w' \<Longrightarrow> cache_run n (w_cache w) \<Longrightarrow> \<exists>n'. n \<le> n' \<and> cache_run n' (w_cache w')"
proof -
  assume t: "tracked_cache w w'" "cache_run n (w_cache w)"
  have "cache_step\<^sup>*\<^sup>* c c' \<Longrightarrow> cache_run n c \<Longrightarrow> \<exists>n'. n \<le> n' \<and> cache_run n' c'" for c c'
    by (induction rule: rtranclp_induct) (use cache_run.run_step le_SucI in blast)+
  then show ?thesis using t cache_run_inv [OF t(2)] by (auto simp: tracked_cache_def)
qed

definition sample_image_world :: "unit image_world" where
  "sample_image_world = \<lparr>w_kernel = (), w_errno = None, w_trace = [], w_cache = image_cache_init,
     w_games = \<lparr>games = game_cache_init, game_titles = title_state_init\<rparr>, w_paths = path_state_init, w_error = no_error,
     w_notices = [], w_fault = False\<rparr>"

text \<open>
  The image code keeps the image cache sound: however the entry points of \<^verbatim>\<open>src/sm_image.c\<close> are called, whatever the
  kernel answers and whatever other threads do through the operations of the cache in between, the cache is always in a state that
  a sequence of its own operations reaches from the empty table, so that every guarantee about reachable caches (one owner per
  source, mount point and device, unique handles) holds behind every program run.
\<close>
lemma image_code_keeps_cache:
  assumes "(image_action K)\<^sup>*\<^sup>* w w'" "cache_run n (w_cache w)"
  shows "\<exists>n'. n \<le> n' \<and> cache_run n' (w_cache w')"
  using assms
proof (induction rule: rtranclp_induct)
  case (step w1 w2)
  then show ?case using tracked_run [OF image_action_tracked] by (meson le_trans)
qed blast

lemma no_fault_program:
  "kept_all (no_new_fault K P rank) m \<Longrightarrow> sources_known K P rank w \<Longrightarrow> \<not> w_fault w \<Longrightarrow> \<not> w_fault (snd (run_state m w))"
  by (auto simp: kept_all_def kept_def wp_def no_new_fault_def case_prod_beta)

text \<open>
  C3. Every operation of the image code returns and none dereferences NULL: when the known sources are stored inside each other
  without a cycle (\<open>rank\<close> grows from an image to the container it is stored in), the recursion of a release into the images of a
  container stays within the number of slots, for an unmount, for a release, for the loops over all slots and for the
  mounts and retries that release on failure, whatever the kernel answers.
\<close>
theorem image_operations_return:
  assumes "sources_known K P rank w" "\<not> w_fault w" "p \<in> P" "length p < MAX_PATH"
  shows "\<not> w_fault (snd (run_state (unmount_image K p u b) w))
    \<and> \<not> w_fault (snd (run_state (release_runtime_image_mount K p) w))
    \<and> \<not> w_fault (snd (run_state (release_runtime_image_mounts K) w))
    \<and> \<not> w_fault (snd (run_state (unmount_usb_image_mounts_for_suspend K) w))
    \<and> \<not> w_fault (snd (run_state (shutdown_image_mounts K) w))
    \<and> \<not> w_fault (snd (run_state (cleanup_stale_image_mounts_for_root K root) w))
    \<and> \<not> w_fault (snd (run_state (maybe_mount_image_file_with_mode K p name override) w))"
proof -
  have p: "strlcpy p MAX_PATH \<in> P" using assms(3,4) by (simp add: strlcpy_id)
  have d: "p \<in> P \<and> rank p < NESTED_RELEASES" using assms ranked_bound by (auto simp: sources_known_def)
  show ?thesis
    by (intro conjI no_fault_program [OF _ assms(1,2)] bounded.kept_unmount(1) [where P = P and rank = rank, OF d] bounded.kept_releases(2)
        bounded.kept_all_releases bounded.kept_cleanup(2) bounded.kept_maybe_mount(1) [where P = P and rank = rank, OF p p])
qed

text \<open>Two images, one of them a container the other one is stored in.\<close>

definition sample_container :: string where
  "sample_container = ''/data/pack.ffpfsc''"

definition sample_inner :: string where
  "sample_inner = build_image_mount_point_for_fs 88 sample_container IMAGE_FS_PFSC_CONTAINER @ ''/game.exfat''"

theorem image_operations_return_witness:
  "\<not> w_fault (snd (run_state (unmount_image sample_kernel sample_container 3 ATTACH_BACKEND_LVD) sample_image_world))"
proof -
  let ?P = "{sample_container, sample_inner}"
  let ?rank = "\<lambda>p. if p = sample_container then 1 else 0 :: nat"
  obtain stem where mp: "build_image_mount_point_for_fs 88 sample_container IMAGE_FS_PFSC_CONTAINER = ''/mnt/shadowmnt/pfsc/'' @ stem"
    using mount_point_shape [of IMAGE_FS_PFSC_CONTAINER 88 sample_container]
    by (auto simp: mount_base_of_def PFSC_IMAGE_MOUNT_BASE_def)
  have "get_filename_component sample_inner = ''game.exfat''"
    by (simp add: sample_inner_def get_filename_component_def after_last_def)
  moreover have "detect_image_fs_type ''game.exfat'' = IMAGE_FS_EXFAT" by code_simp
  ultimately have "detect_image_fs_type_for_path sample_inner None = IMAGE_FS_EXFAT"
    by (simp add: detect_image_fs_type_for_path_def)
  moreover have "\<not> path_matches_root_or_child sample_container (build_image_mount_point_for_fs (k_mnamelen sample_kernel)
      sample_container IMAGE_FS_PFSC_CONTAINER)"
    using path_matches_starts [of sample_container "build_image_mount_point_for_fs 88 sample_container IMAGE_FS_PFSC_CONTAINER"]
    by (auto simp: mp [unfolded sample_container_def] sample_kernel_def sample_container_def)
  moreover have "sample_inner \<noteq> sample_container" by (simp add: sample_inner_def mp [unfolded sample_container_def] sample_container_def)
  ultimately have "ranked sample_kernel ?P ?rank" by (simp add: ranked_def)
  moreover have "cached_paths image_cache_init = {}" by (auto simp: cached_paths_def image_cache_init_def)
  ultimately have "sources_known sample_kernel ?P ?rank sample_image_world"
    using cache_inv_init path_reach.start by (simp add: sources_known_def sample_image_world_def)
  moreover have "length sample_container < MAX_PATH" by (simp add: sample_container_def)
  ultimately show ?thesis
    using image_operations_return [of sample_kernel ?P ?rank sample_image_world sample_container 3 ATTACH_BACKEND_LVD]
    by (simp add: sample_image_world_def)
qed

end
