(* ===== verification/Image_Outcome.thy ===== *)
theory Image_Outcome
  imports Image_Safety
begin

text \<open>
  How a mount ends: with the image recorded as mounted, or without a reservation of its own left in the cache.
\<close>

section \<open>A release gives the reservation up\<close>

lemma wp_keptI: "kept_all R m \<Longrightarrow> (\<And>a w'. R w w' \<Longrightarrow> Q a w') \<Longrightarrow> wp m Q w"
  by (auto simp: kept_all_def kept_def wp_def split: prod.splits)

lemma wp_ask: "wp (ask op) Q w \<longleftrightarrow> Q (fst (op (w_kernel w))) (w\<lparr>w_kernel := snd (op (w_kernel w))\<rparr>)"
  by (simp add: wp_def ask_def case_prod_beta Let_def)

lemma wp_cache_op: "wp (cache_op K f) Q w \<longleftrightarrow>
    (case f (kernel_host K (w_kernel w)) (w_cache w) of (r, c) \<Rightarrow>
       Q r (w\<lparr>w_cache := c, w_errno := (case r of Inl e \<Rightarrow> if e = E_UNSET then w_errno w else Some e | Inr _ \<Rightarrow> w_errno w)\<rparr>))"
  by (simp add: wp_def cache_op_def case_prod_beta Let_def)

text \<open>No reservation of the source is left; all reservations of it have the given generation.\<close>

definition gone :: "string \<Rightarrow> ('k, 'm) image_world_scheme \<Rightarrow> bool" where
  "gone p w \<longleftrightarrow> cache_inv (w_cache w) \<and> (\<forall>g. (p, g) \<notin> reservations (w_cache w))"

definition own :: "string \<Rightarrow> u64 \<Rightarrow> ('k, 'm) image_world_scheme \<Rightarrow> bool" where
  "own p gen w \<longleftrightarrow> cache_inv (w_cache w) \<and> (\<forall>g. (p, g) \<in> reservations (w_cache w) \<longrightarrow> g = gen)"

lemma gone_kept: "gone p w \<Longrightarrow> no_new_reservation w w' \<Longrightarrow> gone p w'"
  by (auto simp: gone_def no_new_reservation_def)

lemma own_kept: "own p gen w \<Longrightarrow> no_new_reservation w w' \<Longrightarrow> own p gen w'"
  by (auto simp: own_def no_new_reservation_def)

lemma gone_own: "gone p w \<Longrightarrow> own p gen w"
  by (auto simp: own_def gone_def)

lemma unique_slot:
  assumes "cache_inv c" "find_source_path_index c p = Some k"
  shows "k < length (slots c)" "slot_valid (slots c ! k)" "path (slots c ! k) = p" "slot_ok (slots c ! k)"
    and "\<And>e. e \<in> set (slots c) \<Longrightarrow> slot_valid e \<Longrightarrow> path e = p \<Longrightarrow> e = slots c ! k"
proof -
  show k: "k < length (slots c)" "slot_valid (slots c ! k)" "path (slots c ! k) = p"
    using assms(2) by (auto simp: find_source_path_index_def find_index_Some)
  show "slot_ok (slots c ! k)" using cache_inv_slot [OF assms(1) k(1)] .
  fix e
  assume "e \<in> set (slots c)" "slot_valid e" "path e = p"
  moreover have "keys_distinct slot_valid path (slots c)" using assms(1) by (simp add: cache_inv_def)
  ultimately show "e = slots c ! k" using k keys_distinctD by (metis in_set_conv_nth)
qed

lemma reserved_slot:
  assumes "cache_inv c" "find_source_path_index c p = Some k" "(p, g) \<in> reservations c"
  shows "dev_state (slots c ! k) = ATTACHED_DEVICE_ATTACHING" "generation (slots c ! k) = g"
  using assms unique_slot(5) [OF assms(1,2)] by (auto simp: reservations_def)

lemma unreserved_source: "find_source_path_index c p = None \<Longrightarrow> (p, g) \<notin> reservations c"
  by (auto simp: find_source_path_index_def find_index_None reservations_def in_set_conv_nth)

text \<open>A slot of the source that is blanked or asked to detach is the end of its reservation.\<close>

lemma reservation_ended:
  assumes "cache_inv c" "find_source_path_index c p = Some k"
    and "\<not> (slot_valid e \<and> path e = p \<and> dev_state e = ATTACHED_DEVICE_ATTACHING)"
  shows "(p, g) \<notin> reservations (set_slot c k e)"
proof
  assume "(p, g) \<in> reservations (set_slot c k e)"
  then obtain j where j: "j < length (slots c)" "slot_valid ((slots c)[k := e] ! j)" "path ((slots c)[k := e] ! j) = p"
    "dev_state ((slots c)[k := e] ! j) = ATTACHED_DEVICE_ATTACHING"
    by (auto simp: reservations_def in_set_conv_nth)
  then have "j \<noteq> k" using assms(3) by auto
  then have "slot_valid (slots c ! j)" "path (slots c ! j) = p" using j by simp_all
  then show False
    using \<open>j \<noteq> k\<close> j(1) unique_slot [OF assms(1,2)] keys_distinctD [of slot_valid path "slots c" j k] assms(1)
    by (simp add: cache_inv_def)
qed

lemma cancel_ends:
  assumes "cache_inv c" "find_source_path_index c p = Some k" "gen = generation (slots c ! k)" "\<not> attached (slots c ! k)"
  shows "(p, g) \<notin> reservations (snd (cancel_image_attachment c (Some p) gen))"
proof -
  note s = unique_slot(1-4) [OF assms(1,2)]
  have un: "unattached (slots c ! k)" "gen \<noteq> 0" using s assms by (auto simp: slot_ok_def device_ok_def)
  show ?thesis
  proof (cases "dev_state (slots c ! k) = ATTACHED_DEVICE_ATTACHING")
    case True
    then have "find_reservation c p gen = Some k" using assms un by (simp add: find_reservation_def unattached_def)
    then show ?thesis using reservation_ended [OF assms(1,2)] un by (simp add: cancel_image_attachment_def)
  next
    case False
    then have "find_reservation c p gen = None" using assms by (simp add: find_reservation_def)
    then show ?thesis using reserved_slot [OF assms(1,2)] False by (auto simp: cancel_image_attachment_def)
  qed
qed

lemma mark_ends:
  assumes "cache_inv c" "find_source_path_index c p = Some k" "attached (slots c ! k)" "gen = generation (slots c ! k)"
    "u = unit_id (slots c ! k)" "b = backend (slots c ! k)"
  shows "(p, g) \<notin> reservations (snd (mark_image_cache_detach_requested h c (Some p) gen u b))"
proof -
  note s = unique_slot(1-4) [OF assms(1,2)]
  have "find_attachment_record c p gen u b = Some k" using assms by (simp add: find_attachment_record_def)
  moreover have "gen \<noteq> 0" "\<not> u < 0" "attach_backend_is_valid b" using s assms by (auto simp: slot_ok_def attached_def)
  ultimately show ?thesis
    using reservation_ended [OF assms(1,2), of "snd (refresh_attached_unit_identity h
      ((slots c ! k)\<lparr>dev_state := ATTACHED_DEVICE_DETACH_REQUESTED\<rparr>))" g]
    by (simp add: mark_image_cache_detach_requested_def case_prod_beta Let_def)
qed

definition unprotected :: "'k kernel \<Rightarrow> string \<Rightarrow> bool" where
  "unprotected K p \<longleftrightarrow> (\<forall>k. \<not> fst (k_protected K p k))"

lemma has_device_attached:
  "slot_ok e \<Longrightarrow> slot_valid e \<Longrightarrow> has_device (copy_cache_entry e) \<longleftrightarrow> attached e"
  by (auto simp: has_device_def copy_cache_entry_def slot_ok_def device_ok_def attached_def unattached_def attach_backend_is_valid_def)

lemma entry_path: "slot_ok e \<Longrightarrow> slot_valid e \<Longrightarrow> e_path (copy_cache_entry e) = path e"
  by (simp add: copy_cache_entry_def slot_ok_def strlcpy_id)

lemma copy_entry [simp]: "e_generation (copy_cache_entry e) = generation e" "e_unit_id (copy_cache_entry e) = unit_id e"
    "e_backend (copy_cache_entry e) = backend e" "e_state (copy_cache_entry e) = dev_state e"
  by (simp_all add: copy_cache_entry_def)

lemma reserve_release_ends:
  assumes inv: "cache_inv (w_cache w)" and k: "find_source_path_index (w_cache w) p = Some k" and a: "attached (slots (w_cache w) ! k)"
    and Q: "\<And>r w'. gone p w' \<Longrightarrow> Q r w'"
  shows "wp (reserve_release K p (backend (slots (w_cache w) ! k)) (unit_id (slots (w_cache w) ! k))
    (generation (slots (w_cache w) ! k))) Q w"
proof -
  let ?s = "slots (w_cache w) ! k"
  note s = unique_slot(1-4) [OF inv k]
  have e: "find_image_cache_entry (w_cache w) (Some p) = Some (copy_cache_entry ?s, k)"
    using k by (simp add: find_image_cache_entry_def)
  have d: "has_device (copy_cache_entry ?s)" using has_device_attached [OF s(4,2)] a by simp
  have f: "e_path (copy_cache_entry ?s) = p" "e_generation (copy_cache_entry ?s) = generation ?s"
    "e_unit_id (copy_cache_entry ?s) = unit_id ?s" "e_backend (copy_cache_entry ?s) = backend ?s" "generation ?s \<noteq> 0"
    using entry_path [OF s(4,2)] s by (auto simp: copy_cache_entry_def slot_ok_def)
  have m: "gone p (w\<lparr>w_cache := snd (mark_image_cache_detach_requested h (w_cache w) (Some p) (generation ?s) (unit_id ?s) (backend ?s)),
      w_errno := x\<rparr>)" for h x
    using mark_ends [OF inv k a refl refl refl] cache_step_ok [OF cache_step.intros(7)] inv by (auto simp: gone_def step_ok_def)
  show ?thesis unfolding reserve_release_def wp
    using d f m by (auto simp: e wp wp_cache_op errno_or_def case_prod_beta intro!: Q)
qed

lemma kept_release_tracked_impl:
  "kept_all no_new_reservation (release_tracked K (unmount_image_impl K n) p t mp b u cleanup gen)"
  by (intro unreserved.kept_release_tracked unreserved.kept_children unreserved.keptD unreserved.kept_unmount_impl TrueI)

lemma unmount_ends:
  fixes w :: "('k, 'm) image_world_scheme"
  assumes inv: "cache_inv (w_cache w)" and k: "find_source_path_index (w_cache w) p = Some k"
    and a: "attached (slots (w_cache w) ! k)" and un: "unprotected K p"
    and Q: "\<And>r w'. gone p w' \<Longrightarrow> Q r w'"
  shows "wp (unmount_image_impl K NESTED_RELEASES p (unit_id (slots (w_cache w) ! k)) (backend (slots (w_cache w) ! k)) cleanup
    (generation (slots (w_cache w) ! k))) Q w"
proof -
  let ?s = "slots (w_cache w) ! k"
  let ?w = "w\<lparr>w_kernel := snd (k_protected K p (w_kernel w))\<rparr>"
  let ?t = "detect_image_fs_type_for_path p None"
  let ?mp = "build_image_mount_point_for_fs (k_mnamelen K) p ?t"
  have rest: "wp (case r of Inl e \<Rightarrow> unmount_failed e
      | Inr gen \<Rightarrow> release_tracked K (unmount_image_impl K MAX_IMAGE_MOUNTS) p ?t ?mp (backend ?s) (unit_id ?s) cleanup gen) Q w'"
    if "gone p w'" for r and w' :: "('k, 'm) image_world_scheme"
    by (rule wp_keptI [where R = no_new_reservation])
      (auto intro!: unreserved.kept_sum unreserved.kept_errno_or kept_release_tracked_impl Q gone_kept [OF that])
  have "wp (reserve_release K p (backend ?s) (unit_id ?s) (generation ?s)) (\<lambda>r. wp (case r of Inl e \<Rightarrow> unmount_failed e
      | Inr gen \<Rightarrow> release_tracked K (unmount_image_impl K MAX_IMAGE_MOUNTS) p ?t ?mp (backend ?s) (unit_id ?s) cleanup gen) Q) ?w"
    using reserve_release_ends [of ?w p k _ K] inv k a rest by simp
  moreover have "\<not> unit_id ?s < 0" "backend ?s \<noteq> ATTACH_BACKEND_NONE" using a by (auto simp: attached_def attach_backend_is_valid_def)
  moreover have "\<not> fst (k_protected K p (w_kernel w))" using un by (simp add: unprotected_def)
  ultimately show ?thesis
    unfolding NESTED_RELEASES_def unmount_image_impl.simps unmount_image_body_def Let_def wp wp_ask resolve_release_device_def
    by (simp add: wp)
qed

lemma release_ends:
  fixes w :: "('k, 'm) image_world_scheme"
  assumes own: "own p gen w" and un: "unprotected K p"
    and Q: "\<And>r w'. gone p w' \<Longrightarrow> Q r w'"
  shows "wp (release_runtime_image_attachment K p gen) Q w"
proof -
  have inv: "cache_inv (w_cache w)" using own by (simp add: own_def)
  have kept: "wp m Q w'" if "kept_all no_new_reservation m" "gone p w'" for m and w' :: "('k, 'm) image_world_scheme"
    using that by (intro wp_keptI [OF that(1)] Q) (rule gone_kept)
  show ?thesis
  proof (cases "find_source_path_index (w_cache w) p")
    case None
    then have g: "gone p w" using inv unreserved_source by (auto simp: gone_def)
    show ?thesis by (rule kept [OF _ g]) (rule unreserved.kept_releases)
  next
    case (Some k)
    let ?s = "slots (w_cache w) ! k"
    note s = unique_slot(1-4) [OF inv Some]
    have e: "find_image_cache_entry (w_cache w) (Some p) = Some (copy_cache_entry ?s, k)"
      using Some by (simp add: find_image_cache_entry_def)
    consider "generation ?s \<noteq> gen" | "generation ?s = gen" "\<not> attached ?s" | "generation ?s = gen" "attached ?s" by blast
    then show ?thesis
    proof cases
      case 1
      then have g: "gone p w" using reserved_slot [OF inv Some] own inv by (auto simp: gone_def own_def)
      show ?thesis by (rule kept [OF _ g]) (rule unreserved.kept_releases)
    next
      case 2
      have "gone p (w\<lparr>w_cache := snd (cancel_image_attachment (w_cache w) (Some p) gen), w_errno := x\<rparr>)" for x
        using cancel_ends [OF inv Some _ 2(2)] 2(1) cache_step_ok [OF cache_step.intros(3)] inv
        by (auto simp: gone_def step_ok_def)
      then show ?thesis using 2 has_device_attached [OF s(4,2)] unfolding release_runtime_image_attachment_def wp
        by (auto simp: e wp wp_cache_op copy_cache_entry_def case_prod_beta intro!: Q)
    next
      case 3
      have "wp (if \<not> unmount_completed r then ret False else invalidate_matching_image_cache_entry K k (copy_cache_entry ?s)) Q w'"
        if "gone p w'" for r and w' :: "('k, 'm) image_world_scheme"
        by (rule kept [OF _ that]) (intro keeps)
      then have "wp (unmount_image_impl K NESTED_RELEASES p (unit_id ?s) (backend ?s) False gen) (\<lambda>r. wp (if \<not> unmount_completed r
          then ret False else invalidate_matching_image_cache_entry K k (copy_cache_entry ?s)) Q) w"
        using unmount_ends [OF inv Some 3(2) un] 3(1) by metis
      then show ?thesis using 3 has_device_attached [OF s(4,2)] entry_path [OF s(4,2)] s(3)
        unfolding release_runtime_image_attachment_def wp by (simp add: e wp split del: if_split)
    qed
  qed
qed

section \<open>Attach, mount and check\<close>

text \<open>The reservation as it is made: no device yet.\<close>

definition begun :: "string \<Rightarrow> u64 \<Rightarrow> ('k, 'm) image_world_scheme \<Rightarrow> bool" where
  "begun p gen w \<longleftrightarrow> cache_inv (w_cache w) \<and> (\<exists>k. find_source_path_index (w_cache w) p = Some k
     \<and> generation (slots (w_cache w) ! k) = gen \<and> \<not> attached (slots (w_cache w) ! k))"

lemma begun_own: "begun p gen w \<Longrightarrow> own p gen w"
  using reserved_slot by (fastforce simp: begun_def own_def)

lemma calls_cache:
  fixes w w' :: "('k, 'm) image_world_scheme"
  shows "calls_only w w' \<Longrightarrow> w_cache w' = w_cache w"
  using frame_own(1) by (auto simp: calls_only_def)

lemma calls_keep:
  fixes w w' :: "('k, 'm) image_world_scheme"
  assumes "calls_only w w'"
  shows "begun p gen w \<Longrightarrow> begun p gen w'" "gone p w \<Longrightarrow> gone p w'" "own p gen w \<Longrightarrow> own p gen w'"
  using calls_cache [OF assms] by (simp_all add: begun_def gone_def own_def)

lemmas wp_callsI = wp_keptI [where R = calls_only]
lemmas wp_unreservedI = wp_keptI [where R = no_new_reservation]

text \<open>A program all of whose ends are reached without the reservation.\<close>

lemma wp_goneI:
  assumes "kept_all no_new_reservation m" "gone p w" "\<And>a w'. gone p w' \<Longrightarrow> Q a w'"
  shows "wp m Q w"
  using assms by (intro wp_unreservedI) (auto intro: gone_kept)

lemma cancel_gone:
  assumes "begun p gen w"
  shows "gone p (w\<lparr>w_cache := snd (cancel_image_attachment (w_cache w) (Some p) gen), w_errno := e\<rparr>)"
  using assms cancel_ends cache_step_ok [OF cache_step.intros(3)] by (auto simp: begun_def gone_def step_ok_def)

lemma publish_failed: "publish_image_attachment h c src gen u b = (Inl e, c') \<Longrightarrow> c' = c"
  by (auto simp: publish_image_attachment_def split: option.splits if_splits)

lemma wp_attach:
  fixes w :: "('k, 'm) image_world_scheme"
  assumes begun: "begun p gen w" and un: "unprotected K p"
    and N: "\<And>w'. gone p w' \<Longrightarrow> Q None w'" and S: "\<And>x w'. own p gen w' \<Longrightarrow> Q (Some x) w'"
  shows "wp (attach_image_device K p t ro sz b profile ty gen) Q w"
  unfolding attach_image_device_def wp_bind
proof (rule wp_callsI, intro keeps, goal_cases)
  case (1 r w1)
  note b1 = calls_keep(1) [OF 1 begun]
  show ?case
  proof (cases r)
    case None
    have "wp (put_errno e) (\<lambda>_. Q None) w2" if "gone p w2" for e and w2 :: "('k, 'm) image_world_scheme"
      by (rule wp_goneI [OF _ that]) (auto intro!: keeps N)
    then show ?thesis unfolding None option.case wp wp_cache_op using cancel_gone [OF b1] by (simp add: case_prod_beta)
  next
    case (Some x)
    obtain u dev where x: "x = (u, dev)" by (cases x)
    let ?p = "publish_image_attachment (kernel_host K (w_kernel w1)) (w_cache w1) (Some p) gen u b"
    let ?rest = "\<lambda>published. if \<not> ok published then do {
            _ \<leftarrow> cache_op K (\<lambda>h c. cancel_image_attachment c (Some p) gen);
            rollback_unpublished_attached_unit K b u dev;
            set_errno EIO;
            ret None
          }
          else do {
            present \<leftarrow> wait_for_dev_node_state K dev True;
            if \<not> present then do {
              _ \<leftarrow> release_runtime_image_attachment K p gen;
              set_errno ETIMEDOUT;
              ret None
            }
            else ret (Some (u, dev))
          }"
    have fail: "wp (?rest (Inl e)) Q w2" if b2: "begun p gen w2" for e and w2 :: "('k, 'm) image_world_scheme"
    proof -
      have "wp (do { rollback_unpublished_attached_unit K b u dev; set_errno EIO; ret None }) Q w3" if "gone p w3"
        for w3 :: "('k, 'm) image_world_scheme"
        unfolding wp_bind wp_ret by (rule wp_goneI [OF _ that], intro keeps) (auto intro!: wp_goneI [where p = p] keeps N)
      then show ?thesis using cancel_gone [OF b2] by (simp add: ok_def wp wp_cache_op case_prod_beta)
    qed
    have success: "wp (?rest (Inr y)) Q w2" if o: "own p gen w2" for y and w2 :: "('k, 'm) image_world_scheme"
    proof -
      have "wp (wait_for_dev_node_state K dev True) (\<lambda>present. wp (if \<not> present then do {
              _ \<leftarrow> release_runtime_image_attachment K p gen; set_errno ETIMEDOUT; ret None }
            else ret (Some (u, dev))) Q) w2"
      proof (rule wp_callsI, intro keeps, goal_cases)
        case (1 present w3)
        note o3 = calls_keep(3) [OF 1 o]
        have "wp (release_runtime_image_attachment K p gen) (\<lambda>_. wp (set_errno ETIMEDOUT) (\<lambda>_. Q None)) w3"
          by (rule release_ends [OF o3 un], rule wp_goneI [where p = p]) (auto intro!: keeps N)
        then show ?case using S [OF o3] by (simp add: wp)
      qed
      then show ?thesis by (simp add: ok_def wp)
    qed
    have "no_new_reservation w1 (w1\<lparr>w_cache := snd ?p, w_errno := e\<rparr>)" for e
      by (rule unreserved.R_cache) (rule image_op.intros)
    then have o2: "own p gen (w1\<lparr>w_cache := snd ?p, w_errno := e\<rparr>)" for e
      using own_kept [OF begun_own [OF b1]] by blast
    have b2: "begun p gen (w1\<lparr>w_cache := snd ?p, w_errno := e\<rparr>)" if "fst ?p = Inl x" for x e
    proof -
      have "?p = (Inl x, snd ?p)" using that by (metis prod.collapse)
      from publish_failed [OF this] show ?thesis using b1 by (simp add: begun_def)
    qed
    have "wp (cache_op K (\<lambda>h c. publish_image_attachment h c (Some p) gen u b)) (\<lambda>r. wp (?rest r) Q) w1"
      unfolding wp_cache_op
    proof (cases "fst ?p")
      case (Inl e)
      then show "case ?p of (r, c) \<Rightarrow> wp (?rest r) Q (w1\<lparr>w_cache := c, w_errno := (case r of Inl e \<Rightarrow>
          if e = E_UNSET then w_errno w1 else Some e | Inr _ \<Rightarrow> w_errno w1)\<rparr>)"
        using fail [OF b2 [OF Inl]] by (simp only: case_prod_beta)
    next
      case (Inr y)
      then show "case ?p of (r, c) \<Rightarrow> wp (?rest r) Q (w1\<lparr>w_cache := c, w_errno := (case r of Inl e \<Rightarrow>
          if e = E_UNSET then w_errno w1 else Some e | Inr _ \<Rightarrow> w_errno w1)\<rparr>)"
        using success [OF o2] by (simp only: case_prod_beta)
    qed
    then show ?thesis unfolding Some x option.case prod.case wp_bind .
  qed
qed

lemma wp_ownI:
  assumes "kept_all no_new_reservation m" "own p gen w" "\<And>a w'. own p gen w' \<Longrightarrow> Q a w'"
  shows "wp m Q w"
  using assms by (intro wp_unreservedI) (auto intro: own_kept)

text \<open>Every failure ends like this.\<close>

lemma wp_give_up:
  assumes "own p gen w" "unprotected K p" "\<And>r. kept_all no_new_reservation (m r)" "\<And>w'. gone p w' \<Longrightarrow> Q False w'"
  shows "wp (do { r \<leftarrow> release_runtime_image_attachment K p gen; m r; ret False }) Q w"
  unfolding wp_bind wp_ret
  by (rule release_ends [OF assms(1,2)], rule wp_goneI [OF assms(3)]) (use assms(4) in auto)

lemma wp_reject_io:
  assumes "own p gen w" "unprotected K p" "\<And>w'. gone p w' \<Longrightarrow> Q False w'"
  shows "wp (reject_mounted_image_io K p gen e) Q w"
  unfolding reject_mounted_image_io_def wp_bind [of "sm_error_set e p IMAGE_UNREADABLE_DAMAGED"]
  by (rule wp_ownI [OF _ assms(1)], intro keeps) (rule wp_give_up [OF _ assms(2)]; use assms(3) in \<open>auto intro!: keeps\<close>)

lemma wp_verify_exfat:
  assumes own: "own p gen w" and un: "unprotected K p" and T: "\<And>w'. own p gen w' \<Longrightarrow> Q True w'" and F: "\<And>w'. gone p w' \<Longrightarrow> Q False w'"
  shows "wp (verify_exfat_nmount_result K p gen dev mp) Q w"
  unfolding verify_exfat_nmount_result_def wp_bind [of "sys_statfs K mp"]
proof (rule wp_ownI [OF _ own], intro keeps, goal_cases)
  case (1 r w1)
  have give: "wp (do { released \<leftarrow> release_runtime_image_attachment K p gen; e \<leftarrow> get_errno;
      put_errno (if \<not> released \<and> e \<noteq> None then e else v); ret False }) Q w2" if o: "own p gen w2" for v w2
  proof -
    have "wp (do { released \<leftarrow> release_runtime_image_attachment K p gen;
        do { e \<leftarrow> get_errno; put_errno (if \<not> released \<and> e \<noteq> None then e else v) }; ret False }) Q w2"
      by (rule wp_give_up [OF o un]) (intro keeps F)+
    then show ?thesis unfolding wp_bind .
  qed
  have "wp (do { verify_errno \<leftarrow> (case r of Inr _ \<Rightarrow> ret (Some EINVAL) | Inl _ \<Rightarrow> get_errno);
      released \<leftarrow> release_runtime_image_attachment K p gen; e \<leftarrow> get_errno;
      put_errno (if \<not> released \<and> e \<noteq> None then e else verify_errno); ret False }) Q w1"
    unfolding wp_bind [of "case r of Inr _ \<Rightarrow> ret (Some EINVAL) | Inl _ \<Rightarrow> get_errno"]
    by (rule wp_ownI [OF _ 1], intro keeps, rule give)
  then show ?case using T [OF 1] by (simp add: wp_ret)
qed

lemma wp_nmount:
  assumes own: "own p gen w" and un: "unprotected K p" and T: "\<And>w'. own p gen w' \<Longrightarrow> Q True w'" and F: "\<And>w'. gone p w' \<Longrightarrow> Q False w'"
  shows "wp (perform_image_nmount K p gen t dev mp ro force profile) Q w"
proof (cases "nmount_options p t dev mp force")
  case None
  then show ?thesis unfolding perform_image_nmount_def None option.case
    by (intro wp_give_up [OF own un, where m = "\<lambda>_. set_errno EINVAL"] keeps F)
next
  case (Some options)
  show ?thesis unfolding perform_image_nmount_def Some option.case wp_bind [of "sys_nmount K _"]
  proof (rule wp_ownI [OF _ own], intro keeps, goal_cases)
    case (1 r w1)
    show ?case
    proof (cases r)
      case (Inr x)
      then show ?thesis using T [OF 1] wp_verify_exfat [OF 1 un, of Q] T F by (simp add: wp_ret)
    next
      case (Inl e)
      have "wp (if errmsg \<noteq> [] then sm_error_set (Some e) p (MOUNT_ERRMSG errmsg) else ret ())
          (\<lambda>_. wp (do { _ \<leftarrow> release_runtime_image_attachment K p gen; set_errno e; ret False }) Q) w2"
        if o: "own p gen w2" for errmsg w2
        by (rule wp_ownI [OF _ o], intro keeps) (intro wp_give_up [OF _ un, where m = "\<lambda>_. set_errno e"] keeps F)
      then show ?thesis unfolding Inl sum.case wp_bind [of "ask _"] wp_bind [of "If _ _ _"]
        by (intro wp_ownI [OF _ 1] keeps)
    qed
  qed
qed

lemma wp_small_cluster:
  assumes own: "own p gen w" and un: "unprotected K p" and F: "\<And>w'. gone p w' \<Longrightarrow> Q False w'"
  shows "wp (reject_small_cluster K p gen dev bs sec) Q w"
  unfolding reject_small_cluster_def wp_bind wp_ret
  by (rule wp_ownI [OF _ own], (intro keeps)[1], rule wp_ownI, (intro keeps)[1], assumption, rule wp_ownI, (intro keeps)[1],
      assumption, rule wp_ownI, (intro keeps)[1], assumption, rule release_ends [OF _ un], assumption, rule wp_goneI,
      (intro keeps)[1], assumption, rule F)

lemma wp_validate:
  assumes own: "own p gen w" and un: "unprotected K p" and T: "\<And>w'. own p gen w' \<Longrightarrow> Q True w'" and F: "\<And>w'. gone p w' \<Longrightarrow> Q False w'"
  shows "wp (validate_mounted_image K p gen t b dev mp) Q w"
  unfolding validate_mounted_image_def wp_bind [of "sys_statfs K mp"]
proof (rule wp_ownI [OF _ own], intro keeps, goal_cases)
  case (1 r w1)
  show ?case
  proof (cases r)
    case (Inl e)
    then show ?thesis using wp_reject_io [OF 1 un, of Q] F by simp
  next
    case (Inr sfs)
    have root: "wp (case root_err of Some e \<Rightarrow> reject_mounted_image_io K p gen (Some e) | None \<Rightarrow> ret True) Q w2"
      if "own p gen w2" for root_err w2
      using wp_reject_io [OF that un, of Q] F T [OF that] by (simp add: wp_ret split: option.split)
    have "wp (if f_bsize sfs < ucast sector then reject_small_cluster K p gen dev (f_bsize sfs) sector
        else do { root_err \<leftarrow> is_image_mount_root_accessible K mp;
          (case root_err of Some e \<Rightarrow> reject_mounted_image_io K p gen (Some e) | None \<Rightarrow> ret True) }) Q w2"
      if o: "own p gen w2" for sector w2
    proof (cases "f_bsize sfs < ucast sector")
      case False
      have "wp (is_image_mount_root_accessible K mp) (\<lambda>root_err. wp (case root_err of
          Some e \<Rightarrow> reject_mounted_image_io K p gen (Some e) | None \<Rightarrow> ret True) Q) w2"
        by (rule wp_ownI [OF _ o], intro keeps, rule root)
      then show ?thesis using False by (simp add: wp_bind)
    qed (use wp_small_cluster [OF o un, of Q] F in simp)
    then show ?thesis unfolding Inr sum.case wp_bind [of "min_device_sector K p t b"]
      by (intro wp_ownI [OF _ 1] keeps)
  qed
qed

section \<open>The whole pipeline\<close>

definition mounted :: "string \<Rightarrow> image_cache \<Rightarrow> bool" where
  "mounted p c \<longleftrightarrow> (\<exists>e \<in> set (slots c). slot_valid e \<and> path e = p \<and> dev_state e = ATTACHED_DEVICE_MOUNTED \<and> attached e)"

lemma mountedI:
  assumes "cache_inv c" "k < length (slots c)" "slot_valid (slots c ! k)" "path (slots c ! k) = p"
    "dev_state (slots c ! k) = ATTACHED_DEVICE_MOUNTED"
  shows "mounted p c"
  unfolding mounted_def
  by (rule bexI [of _ "slots c ! k"]) (use assms cache_inv_slot [OF assms(1,2)] in \<open>auto simp: slot_ok_def device_ok_def\<close>)

lemma complete_mounted:
  assumes "cache_inv c" "complete_image_attachment h c (Some p) gen u b = (Inr x, c')"
  shows "mounted p c'"
proof -
  have inv: "cache_inv c'" using cache_step_ok [OF cache_step.intros(5) [of c h "Some p" gen u b]] assms by (simp add: step_ok_def)
  obtain k where k: "find_attachment_record c p gen u b = Some k"
    "c' = set_slot c k (snd (refresh_attached_unit_identity h ((slots c ! k)\<lparr>dev_state := ATTACHED_DEVICE_MOUNTED\<rparr>)))"
    using assms(2) by (auto simp: complete_image_attachment_def split: if_splits option.splits)
  show ?thesis
    by (rule mountedI [OF inv, of k]) (use record_index [OF k(1)] record_path [OF k(1)] k(2) in auto)
qed

lemma cache_mount_mounted:
  assumes "cache_inv c" "cache_image_mount h c p m u b = (Inr x, c')"
  shows "mounted p c'"
proof -
  have inv: "cache_inv c'" using cache_step_ok [OF cache_step.intros(6) [of c h p m u b]] assms by (simp add: step_ok_def)
  obtain k c1 where up: "upsert_image_source_mapping c p m = (Inr k, c1)"
    using assms(2) by (auto simp: cache_image_mount_def split: if_splits prod.splits sum.splits)
  note o = upsert_ok [OF assms(1) up]
  obtain g c2 where g: "next_cache_generation c1 = (g, c2)" by (cases "next_cache_generation c1")
  note s2 = slots_next_generation [OF g]
  have "c' = set_slot c2 k (reset_attached_unit_identity h ((slots c2 ! k)\<lparr>generation := g, unit_id := u, backend := b,
      dev_state := ATTACHED_DEVICE_MOUNTED, detach_attempt_active := False\<rparr>))"
    using assms(2) up g by (auto simp: cache_image_mount_def split: if_splits)
  then show ?thesis
    by (intro mountedI [OF inv, of k]) (use o s2 cache_inv_length [OF o(1)] in \<open>auto simp: reset_attached_unit_identity_def\<close>)
qed

lemma begin_begun:
  assumes "cache_inv (w_cache w)" "begin_image_attachment (w_cache w) p m = (Inr g, c')"
  shows "begun p g (w\<lparr>w_cache := c', w_errno := e\<rparr>)"
proof -
  have inv: "cache_inv c'" using cache_step_ok [OF cache_step.intros(2) [of "w_cache w" p m]] assms by (simp add: step_ok_def)
  obtain k c1 where up: "upsert_image_source_mapping (w_cache w) p m = (Inr k, c1)"
    using assms(2) by (auto simp: begin_image_attachment_def split: prod.splits sum.splits)
  note o = upsert_ok [OF assms(1) up]
  obtain g' c2 where g: "next_cache_generation c1 = (g', c2)" by (cases "next_cache_generation c1")
  note s2 = slots_next_generation [OF g]
  have c': "g' = g" "c' = set_slot c2 k ((slots c2 ! k)\<lparr>generation := g, unit_id := -1, backend := ATTACH_BACKEND_NONE,
      dev_state := ATTACHED_DEVICE_ATTACHING, detach_state := blank_detach_state, detach_attempt_active := False\<rparr>)"
    using assms(2) up g by (auto simp: begin_image_attachment_def split: if_splits)
  let ?s = "slots c' ! k"
  have s: "k < length (slots c')" "slot_valid ?s" "path ?s = p" "generation ?s = g" "\<not> attached ?s"
    using c'(2) o s2 cache_inv_length [OF o(1)] by (auto simp: attached_def)
  then obtain j where j: "find_source_path_index c' p = Some j"
    by (cases "find_source_path_index c' p") (auto simp: find_source_path_index_def find_index_None)
  have "?s = slots c' ! j" by (rule unique_slot(5) [OF inv j]) (use s in auto)
  then show ?thesis using inv j s by (auto simp: begun_def)
qed

lemma wp_commit:
  fixes w :: "('k, 'm) image_world_scheme"
  assumes own: "own p gen w" and un: "unprotected K p"
    and T: "\<And>w'. mounted p (w_cache w') \<Longrightarrow> Q True w'" and F: "\<And>w'. gone p w' \<Longrightarrow> Q False w'"
  shows "wp (commit_image_mount K p gen u b mp) Q w"
  unfolding commit_image_mount_def wp_bind [of "ask _"]
proof (rule wp_ownI [OF _ own], intro keeps, goal_cases)
  case (1 asleep w1)
  define rest :: "unit res \<Rightarrow> (('k, 'm) image_world_scheme, bool) state"
    where "rest committed = (if ok committed then do { _ \<leftarrow> sys_statfs K mp; ret True }
      else do { _ \<leftarrow> release_runtime_image_attachment K p gen; set_errno (if asleep then ECANCELED else EAGAIN); ret False })"
    for committed
  have fail: "wp (rest (Inl e)) Q w2" if "own p gen w2" for e and w2
    using wp_give_up [OF that un, where m = "\<lambda>_. set_errno (if asleep then ECANCELED else EAGAIN)" and Q = Q] F
    by (simp add: ok_def keeps rest_def)
  have success: "wp (rest (Inr x)) Q w2" if m: "mounted p (w_cache w2)" for x and w2 :: "('k, 'm) image_world_scheme"
  proof -
    have "Q True w3" if "calls_only w2 w3" for w3 :: "('k, 'm) image_world_scheme"
      using m calls_cache [OF that] by (intro T) simp
    then have "wp (sys_statfs K mp) (\<lambda>_. Q True) w2" by (intro wp_callsI keeps)
    then show ?thesis by (simp add: ok_def wp_bind wp_ret rest_def)
  qed
  let ?c = "complete_image_attachment (kernel_host K (w_kernel w1)) (w_cache w1) (Some p) gen u b"
  have "no_new_reservation w1 (w1\<lparr>w_cache := snd ?c, w_errno := e\<rparr>)" for e
    by (rule unreserved.R_cache) (rule image_op.intros, rule TrueI)
  then have o2: "own p gen (w1\<lparr>w_cache := snd ?c, w_errno := e\<rparr>)" for e using own_kept [OF 1] by blast
  have m2: "mounted p (w_cache (w1\<lparr>w_cache := snd ?c, w_errno := e\<rparr>))" if "fst ?c = Inr x" for x e
    using complete_mounted [of "w_cache w1" _ p gen u b x "snd ?c"] that 1 by (simp add: own_def) (metis prod.collapse)
  have "wp (rest (fst ?c)) Q (w1\<lparr>w_cache := snd ?c, w_errno := e\<rparr>)" for e
    using fail [OF o2] success [OF m2] by (cases "fst ?c") simp_all
  then have "wp (cache_op K (\<lambda>h c. complete_image_attachment h c (Some p) gen u b)) (\<lambda>r. wp (rest r) Q) w1"
    unfolding wp_cache_op case_prod_beta by blast
  then show ?case using fail [OF 1, of E_UNSET] unfolding rest_def [symmetric] wp_bind by (simp add: wp_ret)
qed

text \<open>A stage that keeps the reservation or has given it up, and what follows it.\<close>

lemma wp_asleep:
  assumes "own p gen w" "unprotected K p" "\<And>w'. own p gen w' \<Longrightarrow> wp m Q w'" "\<And>w'. gone p w' \<Longrightarrow> Q False w'"
  shows "wp (do { asleep \<leftarrow> ask (k_suspended K);
    if asleep then do { _ \<leftarrow> release_runtime_image_attachment K p gen; ret False } else m }) Q w"
proof -
  have "wp (if asleep then do { _ \<leftarrow> release_runtime_image_attachment K p gen; ret False } else m) Q w1"
    if "own p gen w1" for asleep w1
    using assms(3) [OF that] release_ends [OF that assms(2)] assms(4) by (simp add: wp_bind wp_ret)
  then show ?thesis unfolding wp_bind by (intro wp_ownI [OF _ assms(1)] keeps)
qed

lemma wp_check:
  assumes own: "own p gen w" and un: "unprotected K p"
    and T: "\<And>w'. mounted p (w_cache w') \<Longrightarrow> Q True w'" and F: "\<And>w'. gone p w' \<Longrightarrow> Q False w'"
  shows "wp (check_mounted_image K p gen t u b dev mp) Q w"
  unfolding check_mounted_image_def
  by (rule wp_asleep [OF own un], unfold wp_bind, rule wp_validate [OF _ un]; simp add: wp_ret F wp_commit [OF _ un T F])

lemma wp_mount_attached:
  assumes own: "own p gen w" and un: "unprotected K p"
    and T: "\<And>w'. mounted p (w_cache w') \<Longrightarrow> Q True w'" and F: "\<And>w'. gone p w' \<Longrightarrow> Q False w'"
  shows "wp (mount_attached_image K p gen t u b dev mp ro force profile) Q w"
  unfolding mount_attached_image_def
  by (rule wp_asleep [OF own un], unfold wp_bind, rule wp_nmount [OF _ un]; simp add: wp_ret F wp_check [OF _ un T F])

lemma wp_mount_reserved:
  assumes begun: "begun p gen w" and un: "unprotected K p"
    and T: "\<And>w'. mounted p (w_cache w') \<Longrightarrow> Q True w'" and F: "\<And>w'. gone p w' \<Longrightarrow> Q False w'"
  shows "wp (mount_reserved_image K p t mp ro force b sz profile ty gen) Q w"
  unfolding mount_reserved_image_def wp_bind
proof (rule wp_callsI, intro keeps, rule wp_attach [OF calls_keep(1) [OF _ begun] un], goal_cases)
  case (3 a w1 x w2)
  then show ?case by (cases x) (simp add: wp_mount_attached [OF _ un T F])
qed (simp_all add: wp_ret F)

text \<open>A mount that is taken over or found again is recorded as mounted.\<close>

lemma wp_invI:
  assumes "kept_all no_new_reservation m" "cache_inv (w_cache w)" "\<And>a w'. cache_inv (w_cache w') \<Longrightarrow> Q a w'"
  shows "wp m Q w"
  using assms by (intro wp_unreservedI) (auto simp: no_new_reservation_def)

lemma wp_discard: "wp m (\<lambda>a w'. True) = (\<lambda>_. True)"
  by (simp add: wp_def case_prod_beta fun_eq_iff)

lemma wp_cache_opI:
  "(\<And>h r c e. f h (w_cache w) = (r, c) \<Longrightarrow> Q r (w\<lparr>w_cache := c, w_errno := e\<rparr>)) \<Longrightarrow> wp (cache_op K f) Q w"
  unfolding wp_cache_op by (simp split: prod.split)

lemma wp_record_existing:
  assumes "cache_inv (w_cache w)"
  shows "wp (do {
      cached \<leftarrow> cache_op K (\<lambda>h c. cache_image_mount h c p mp u b);
      if root_err \<noteq> None then
        (if \<not> ok cached then ret (False, True)
         else do { released \<leftarrow> release_runtime_image_mount K p; ret (False, \<not> released) })
      else if \<not> ok cached then do { sm_error_set er p tx; set_errno ENOSPC; ret (False, True) }
      else ret (True, False) }) (\<lambda>(reused, _) w'. reused \<longrightarrow> mounted p (w_cache w')) w"
  unfolding wp_bind [of "cache_op K _"]
proof (rule wp_cache_opI, goal_cases)
  case (1 h r c e)
  then have "mounted p c" if "r = Inr x" for x using cache_mount_mounted [OF assms, of h p mp u b x c] that by simp
  then show ?case by (cases r) (simp_all add: ok_def wp_bind wp_ret wp_if wp_discard)
qed

lemma wp_reuse:
  assumes inv: "cache_inv (w_cache w)"
  shows "wp (reuse_existing_image_mount K p mp) (\<lambda>(reused, _) w'. reused \<longrightarrow> mounted p (w_cache w')) w"
  unfolding reuse_existing_image_mount_def wp_bind [of "sys_stat K mp"]
proof (rule wp_invI [OF _ inv], intro keeps, goal_cases)
  case (1 st w1)
  show ?case unfolding wp_if wp_bind [of "resolve_device_from_mount K mp"]
  proof (simp add: wp_ret, intro impI, rule wp_invI [OF _ 1], intro keeps, goal_cases)
    case (1 d w2)
    note inv2 = this(2)
    have "wp (is_image_mount_root_accessible K mp) (\<lambda>root_err. wp (do {
      cached \<leftarrow> cache_op K (\<lambda>h c. cache_image_mount h c p mp u b);
      if root_err \<noteq> None then
        (if \<not> ok cached then ret (False, True)
         else do { released \<leftarrow> release_runtime_image_mount K p; ret (False, \<not> released) })
      else if \<not> ok cached then do { sm_error_set (Some ENOSPC) p (IMAGE_CACHE_FULL_TRACK MAX_IMAGE_MOUNTS mp); set_errno ENOSPC; ret (False, True) }
      else ret (True, False) }) (\<lambda>(reused, _) w'. reused \<longrightarrow> mounted p (w_cache w'))) w2" for b u
      by (rule wp_invI [OF _ inv2], intro keeps) (rule wp_record_existing)
    then show ?case by (cases d) (simp_all add: wp_bind [of "directory_has_visible_entries K mp"] wp_ret wp_discard
      wp_bind [of "is_image_mount_root_accessible K mp"] case_prod_beta)
  qed
qed

lemma wp_existing:
  assumes "cache_inv (w_cache w)"
  shows "wp (handle_existing K p mp) (\<lambda>(handled, success) w'. success \<longrightarrow> handled \<and> mounted p (w_cache w')) w"
  unfolding handle_existing_def wp_bind [of "reuse_existing_image_mount K p mp"]
proof (rule wp_mono [OF wp_reuse [OF assms]], goal_cases)
  case (1 a w1)
  obtain reused failed where a: "a = (reused, failed)" by (cases a)
  show ?case
  proof (cases reused)
    case True
    then have "mounted p (w_cache w2)" if "calls_only w1 w2" for w2 using 1 a calls_cache [OF that] by simp
    then have "wp (ask (k_suspended K)) (\<lambda>s w'. \<not> s \<longrightarrow> True \<and> mounted p (w_cache w')) w1"
      by (intro wp_callsI keeps) simp
    then show ?thesis using True by (simp add: a wp_bind wp_ret)
  qed (simp add: a wp_ret)
qed

lemma cached_mounted:
  assumes "cache_inv c" "get_cached_image_mount c p = Some e" "e_state e \<noteq> ATTACHED_DEVICE_DETACH_REQUESTED"
    "e_state e \<noteq> ATTACHED_DEVICE_ATTACHING"
  shows "mounted p c"
proof -
  obtain k where k: "find_source_path_index c p = Some k" "e = copy_cache_entry (slots c ! k)" "has_device e"
    using assms(2) by (auto simp: get_cached_image_mount_def find_image_cache_entry_def split: option.splits if_splits prod.splits)
  note s = unique_slot(1-4) [OF assms(1) k(1)]
  have "dev_state (slots c ! k) \<noteq> ATTACHED_DEVICE_RELEASED"
    using s(2,4) k has_device_attached [OF s(4,2)] by (auto simp: slot_ok_def device_ok_def attached_def unattached_def)
  then have "dev_state (slots c ! k) = ATTACHED_DEVICE_MOUNTED" using assms(3,4) k(2) by (cases "dev_state (slots c ! k)") simp_all
  then show ?thesis by (rule mountedI [OF assms(1) s(1-3)])
qed

lemma wp_cached_or_existing:
  assumes inv: "cache_inv (w_cache w)"
  shows "wp (handle_cached_or_existing_image_mount K p mp) (\<lambda>(handled, success) w'. success \<longrightarrow> handled \<and> mounted p (w_cache w')) w"
    (is "wp _ ?Q w")
  unfolding handle_cached_or_existing_image_mount_def wp_bind [of "ask _"]
proof (rule wp_invI [OF _ inv], intro keeps, goal_cases)
  case (1 suspended w1)
  have later: "wp (do { r \<leftarrow> release_runtime_image_attachment K q g; if \<not> r then ret (True, False) else handle_existing K p mp }) ?Q w2"
    if "cache_inv (w_cache w2)" for w2 q g
    unfolding wp_bind by (rule wp_invI [OF _ that], intro keeps) (simp add: wp_if wp_ret wp_existing)
  have release: "wp (do { _ \<leftarrow> release_runtime_image_mount K p; ret (True, False) }) ?Q w2" for w2
    by (simp add: wp_bind wp_ret wp_discard)
  have "wp (do {
      active \<leftarrow> is_active_image_mount_point K mp;
      root_err \<leftarrow> (if active then is_image_mount_root_accessible K mp else ret (Some ENOENT));
      if active \<and> root_err = None then ret (True, True)
      else do { r \<leftarrow> release_runtime_image_attachment K q g; if \<not> r then ret (True, False) else handle_existing K p mp } }) ?Q w1"
    if m: "mounted p (w_cache w1)" for q g
  proof -
    have "wp (if active \<and> root_err = None then ret (True, True)
      else do { r \<leftarrow> release_runtime_image_attachment K q g; if \<not> r then ret (True, False) else handle_existing K p mp }) ?Q w3"
      if "calls_only w1 w3" for active root_err w3
      using later [of w3] m 1 calls_cache [OF that] by (simp add: wp_ret)
    note last = this
    show ?thesis unfolding wp_bind [of "is_active_image_mount_point K mp"] wp_bind [of "if _ then _ else _"]
      by (rule wp_callsI, intro keeps, rule wp_callsI, intro keeps) (rule last, erule (1) calls.R_trans)
  qed
  then show ?case using 1 cached_mounted [OF 1, of p] release
    by (cases "get_cached_image_mount (w_cache w1) p") (simp_all add: wp_ret wp_if wp_gets wp_bind [of "gets _"] wp_existing)
qed

text \<open>How a request for a source ends: mounted, or without a reservation the source did not have before.\<close>

definition mount_outcome :: "string \<Rightarrow> ('k, 'm) image_world_scheme \<Rightarrow> bool \<Rightarrow> ('k, 'm) image_world_scheme \<Rightarrow> bool" where
  "mount_outcome p w success w' \<longleftrightarrow>
     (if success then mounted p (w_cache w')
      else \<forall>g. (p, g) \<in> reservations (w_cache w') \<longrightarrow> (p, g) \<in> reservations (w_cache w))"

lemma mount_outcomeI:
  "mounted p (w_cache w') \<Longrightarrow> mount_outcome p w True w'"
  "gone p w' \<Longrightarrow> mount_outcome p w False w'"
  "no_new_reservation w w' \<Longrightarrow> cache_inv (w_cache w) \<Longrightarrow> mount_outcome p w False w'"
  by (auto simp: mount_outcome_def gone_def no_new_reservation_def)

lemma wp_mode_matches:
  assumes "no_new_reservation w w1" "cache_inv (w_cache w)" "mounted p (w_cache w1)"
  shows "wp (mode_matches K mp ro) (mount_outcome p w) w1"
proof (rule wp_callsI, intro keeps, goal_cases)
  case (1 r w2)
  then show ?case using assms calls_cache [OF 1] by (cases r) (auto simp: mount_outcome_def no_new_reservation_def)
qed

lemma wp_reservation:
  assumes nn: "no_new_reservation w w1" and inv: "cache_inv (w_cache w)" and un: "unprotected K p"
  shows "wp (do {
      r \<leftarrow> cache_op K (\<lambda>h c. begin_image_attachment c p mp);
      (case r of Inl _ \<Rightarrow> ret False | Inr gen \<Rightarrow> mount_reserved_image K p t mp ro force b sz profile ty gen) })
    (mount_outcome p w) w1"
  unfolding wp_bind [of "cache_op K _"]
proof (rule wp_cache_opI, goal_cases)
  case (1 h r c e)
  show ?case
  proof (cases r)
    case (Inl x)
    obtain r1 c1 where u: "upsert_image_source_mapping (w_cache w1) p mp = (r1, c1)" by (cases "upsert_image_source_mapping (w_cache w1) p mp")
    then have "c = c1" using 1 Inl by (auto simp: begin_image_attachment_def split: sum.splits if_splits prod.splits)
    then have "reservations c \<subseteq> reservations (w_cache w)"
      using upsert_reservations [OF u] nn inv by (auto simp: no_new_reservation_def)
    then show ?thesis using Inl by (auto simp: wp_ret mount_outcome_def)
  next
    case (Inr g)
    have "cache_inv (w_cache w1)" using nn inv by (simp add: no_new_reservation_def)
    then show ?thesis using wp_mount_reserved [OF begin_begun un mount_outcomeI(1,2)] 1 Inr by simp
  qed
qed

lemma find_mounted:
  assumes "cache_inv c" "find_image_cache_entry c (Some p) = Some (e, k)" "e_state e = ATTACHED_DEVICE_MOUNTED"
  shows "mounted p c"
  using assms unique_slot(1-3) [OF assms(1)] by (intro mountedI [OF assms(1)]) (auto simp: find_image_cache_entry_def split: option.splits)

lemma wp_unless_mounted:
  assumes nn: "no_new_reservation w w1" and inv: "cache_inv (w_cache w)" and m: "wp m (mount_outcome p w) w1"
  shows "wp (if (case find_image_cache_entry (w_cache w1) (Some p) of Some (e, _) \<Rightarrow> e_state e = ATTACHED_DEVICE_MOUNTED | None \<Rightarrow> False)
      then (if overridden then mode_matches K mp ro else ret True) else m) (mount_outcome p w) w1"
proof -
  have "cache_inv (w_cache w1)" using nn inv by (simp add: no_new_reservation_def)
  note f = find_mounted [OF this]
  show ?thesis
    by (auto simp: m wp_ret f wp_mode_matches [OF nn inv] mount_outcomeI(1) split: option.splits)
qed

lemma wp_mount_new:
  assumes nn: "no_new_reservation w w1" and inv: "cache_inv (w_cache w)" and un: "unprotected K p"
  shows "wp (mount_new_image K cfg p t mp ro overridden) (mount_outcome p w) w1"
  unfolding mount_new_image_def Let_def wp_bind [of "stat_image_file K p"]
proof (rule wp_unreservedI, intro keeps, goal_cases)
  case (1 st w2)
  note nn2 = unreserved.R_trans [OF nn 1]
  show ?case
  proof (cases st)
    case (Some s)
    show ?thesis unfolding Some option.case wp_bind [of "ask _"]
    proof (rule wp_unreservedI, intro keeps, goal_cases)
      case (1 asleep w3)
      note nn3 = unreserved.R_trans [OF nn2 1]
      show ?case
      proof (cases asleep)
        case False
        then show ?thesis
          unfolding if_not_P [OF False] wp_bind [of "gets _"] wp_gets
          by (intro wp_unless_mounted [OF nn3 inv] wp_reservation [OF nn3 inv un])
      qed (simp add: wp_ret mount_outcomeI(3) [OF nn3 inv])
    qed
  qed (simp add: wp_ret mount_outcomeI(3) [OF nn2 inv])
qed

lemma wp_handled:
  assumes nn: "no_new_reservation w w1" and inv: "cache_inv (w_cache w)" and m: "success \<longrightarrow> mounted p (w_cache w1)"
  shows "wp (if override = None then ret success
      else if success then mode_matches K mp ro
      else do { e \<leftarrow> get_errno; (if e \<noteq> Some ENOSPC then set_errno EBUSY else ret ()); ret False }) (mount_outcome p w) w1"
proof (cases "override = None \<or> success")
  case True
  then show ?thesis using m mount_outcomeI(1) [of p w1 w] mount_outcomeI(3) [OF nn inv, of p] wp_mode_matches [OF nn inv, of p K mp ro]
    by (cases success) (auto simp: wp_ret)
next
  case False
  have "wp (do { e \<leftarrow> get_errno; (if e \<noteq> Some ENOSPC then set_errno EBUSY else ret ()); ret False }) (mount_outcome p w) w1"
    unfolding wp_bind [of get_errno] wp_bind [of "if _ then _ else _"] wp_get_errno wp_ret
    by (rule wp_unreservedI, intro keeps) (rule mount_outcomeI(3) [OF unreserved.R_trans [OF nn] inv])
  then show ?thesis using False by auto
qed

lemma wp_and: "wp m P w \<Longrightarrow> wp m Q w \<Longrightarrow> wp m (\<lambda>a w'. P a w' \<and> Q a w') w"
  by (simp add: wp_def case_prod_beta)

lemma wp_mount_requested:
  assumes nn: "no_new_reservation w w1" and inv: "cache_inv (w_cache w)" and un: "unprotected K p"
  shows "wp (do {
      (handled, success) \<leftarrow> handle_cached_or_existing_image_mount K p mp;
      if handled then
        (if override = None then ret success
         else if success then mode_matches K mp ro
         else do { e \<leftarrow> get_errno; (if e \<noteq> Some ENOSPC then set_errno EBUSY else ret ()); ret False })
      else mount_new_image K cfg p t mp ro (override \<noteq> None) }) (mount_outcome p w) w1"
  unfolding wp_bind [of "handle_cached_or_existing_image_mount K p mp"]
proof (rule wp_mono [OF wp_and [OF wp_cached_or_existing wp_unreservedI [where Q = "\<lambda>_. no_new_reservation w1"]]], goal_cases)
  case 1
  show ?case using nn inv by (simp add: no_new_reservation_def)
next
  case 2
  show ?case by (intro keeps) (rule TrueI)
next
  case (4 a w2)
  then have nn2: "no_new_reservation w w2" using unreserved.R_trans [OF nn] by blast
  obtain handled success where a: "a = (handled, success)" by (cases a)
  then have "success \<longrightarrow> handled \<and> mounted p (w_cache w2)" using 4 by simp
  then show ?case using wp_handled [OF nn2 inv, of success p override K mp ro] wp_mount_new [OF nn2 inv un]
    by (cases handled) (simp_all add: a)
qed

text \<open>
  C1. A request to mount an image is settled either way. When it succeeds, the image is recorded in the cache as mounted, with
  its device; when it fails, for whatever reason and at whatever step (the attach, the node, \<open>nmount\<close>, the checks of the mounted
  file system, a suspend in between, another thread), the reservation of the source it had made is gone, so that
  the image can be tried again. The source must not be protected by the users of its mount meanwhile.
\<close>
theorem image_mount_outcome:
  assumes inv: "cache_inv (w_cache w)" and un: "\<forall>k. \<not> fst (k_protected K p k)"
    and r: "run_state (mount_image_with_mode K p t override) w = (success, w')"
  shows "if success then \<exists>e \<in> set (slots (w_cache w')). slot_valid e \<and> path e = p \<and> dev_state e = ATTACHED_DEVICE_MOUNTED \<and> attached e
    else \<forall>g. (p, g) \<in> reservations (w_cache w') \<longrightarrow> (p, g) \<in> reservations (w_cache w)"
proof -
  have un': "unprotected K p" using un by (simp add: unprotected_def)
  have "wp (mount_image_with_mode K p t override) (mount_outcome p w) w"
    unfolding mount_image_with_mode_def Let_def wp_bind [of sm_error_clear] wp_bind [of "ask _"]
  proof (rule wp_unreservedI, intro keeps, rule wp_unreservedI, intro keeps, goal_cases)
    case (1 _ w1 cfg w2)
    note nn2 = unreserved.R_trans [OF 1]
    have "wp (do { set_errno ENOTSUP; ret False }) (mount_outcome p w) w2"
      unfolding wp_bind wp_ret by (rule wp_unreservedI, intro keeps) (rule mount_outcomeI(3) [OF unreserved.R_trans [OF nn2] inv])
    note unsupported = this
    show ?case unfolding wp_if wp_bind [of "ask _"]
    proof (split if_split, intro conjI impI unsupported, rule wp_unreservedI, intro keeps, goal_cases)
      case (1 asleep w3)
      note nn3 = unreserved.R_trans [OF nn2 1(2)]
      show ?case unfolding wp_ret
        by (split if_split) (intro conjI impI mount_outcomeI(3) [OF nn3 inv] wp_mount_requested [OF nn3 inv un'])
    qed
  qed
  from wp_run [OF this r] show ?thesis by (auto simp: mount_outcome_def mounted_def split: if_splits)
qed

theorem image_mount_outcome_witness:
  "\<exists>success w'. run_state (mount_image_with_mode sample_kernel ''/data/a.exfat'' IMAGE_FS_EXFAT None) sample_image_world = (success, w')
     \<and> (if success then \<exists>e \<in> set (slots (w_cache w')). slot_valid e \<and> path e = ''/data/a.exfat'' \<and> dev_state e = ATTACHED_DEVICE_MOUNTED \<and> attached e
        else \<forall>g. (''/data/a.exfat'', g) \<in> reservations (w_cache w') \<longrightarrow> (''/data/a.exfat'', g) \<in> reservations (w_cache sample_image_world))"
proof -
  obtain success w' where r: "run_state (mount_image_with_mode sample_kernel ''/data/a.exfat'' IMAGE_FS_EXFAT None) sample_image_world = (success, w')"
    by fastforce
  have "cache_inv (w_cache sample_image_world)" using cache_inv_init by (simp add: sample_image_world_def)
  moreover have "\<forall>k. \<not> fst (k_protected sample_kernel ''/data/a.exfat'' k)" by (simp add: sample_kernel_def)
  ultimately show ?thesis using r image_mount_outcome [OF _ _ r] by blast
qed

section \<open>Protected sources\<close>

text \<open>
  A source that is protected when its mount fails after the device was published keeps its reservation: the release is refused
  before the record is looked at, and nothing later asks for it again, since every other release skips records that are
  being attached.
\<close>

lemma wp_set_errno: "wp (set_errno e) Q = (\<lambda>w. Q () (w\<lparr>w_errno := Some e\<rparr>))"
  by (simp add: wp_def set_errno_def fun_eq_iff)

lemma release_of_protected_refused:
  assumes inv: "cache_inv (w_cache w)" and prot: "\<forall>k. fst (k_protected K p k)"
    and k: "find_source_path_index (w_cache w) p = Some k" "attached (slots (w_cache w) ! k)" "generation (slots (w_cache w) ! k) = gen"
  shows "wp (release_runtime_image_attachment K p gen) (\<lambda>r w'. \<not> r \<and> w_cache w' = w_cache w) w"
proof -
  note s = unique_slot(1-4) [OF inv k(1)]
  have "find_image_cache_entry (w_cache w) (Some p) = Some (copy_cache_entry (slots (w_cache w) ! k), k)"
    using k(1) by (simp add: find_image_cache_entry_def)
  moreover have "has_device (copy_cache_entry (slots (w_cache w) ! k))" "e_path (copy_cache_entry (slots (w_cache w) ! k)) = p"
    using has_device_attached [OF s(4,2)] k(2) entry_path [OF s(4,2)] s(3) by simp_all
  moreover have "wp (unmount_image_impl K NESTED_RELEASES p u b cl gen) (\<lambda>r w'. \<not> unmount_completed r \<and> w_cache w' = w_cache w) w"
    for u b cl
    unfolding NESTED_RELEASES_def unmount_image_impl.simps
    using prot by (simp add: unmount_image_body_def wp_bind wp_ask unmount_failed_def wp_ret unmount_completed_def wp_set_errno)
  then have "wp (unmount_image_impl K NESTED_RELEASES p u b cl gen) (\<lambda>r. wp (if \<not> unmount_completed r then ret False else m)
      (\<lambda>r w'. \<not> r \<and> w_cache w' = w_cache w)) w" for u b cl m
    by (rule wp_mono) (simp add: wp_ret)
  ultimately show ?thesis using k(3) by (simp add: release_runtime_image_attachment_def wp_bind wp_gets)
qed

lemma attaching_release_refused:
  assumes "cache_inv (w_cache w)" "find_source_path_index (w_cache w) p = Some k"
    "dev_state (slots (w_cache w) ! k) = ATTACHED_DEVICE_ATTACHING"
  shows "wp (release_runtime_image_mount K p) (\<lambda>r w'. \<not> r \<and> w_cache w' = w_cache w) w"
  using assms(2,3) by (simp add: release_runtime_image_mount_def find_image_cache_entry_def wp_bind wp_gets wp_ret wp_def set_errno_def)

end
