(* ===== verification/Image_Reserved.thy ===== *)
theory Image_Reserved
  imports Image_Outcome
begin

text \<open>
  An image that is being attached belongs to the thread that reserved it: releases of other callers, by path, by root, for a suspend or at the
  end of the program, do not touch its record, and neither does a release with a handle that is not the reservation's own.
\<close>

section \<open>Programs that spare a reservation\<close>

text \<open>Slot \<open>k\<close> holds the record \<open>e\<close> of an image that is being attached.\<close>

definition reserved_at :: "nat \<Rightarrow> image_slot \<Rightarrow> ('k, 'm) image_world_scheme \<Rightarrow> bool" where
  "reserved_at k e w \<longleftrightarrow> cache_inv (w_cache w) \<and> k < MAX_IMAGE_MOUNTS \<and> slots (w_cache w) ! k = e
     \<and> slot_valid e \<and> dev_state e = ATTACHED_DEVICE_ATTACHING"

definition spares :: "nat \<Rightarrow> image_slot \<Rightarrow> ('k, 'm) image_world_scheme \<Rightarrow> ('k, 'm) image_world_scheme \<Rightarrow> bool" where
  "spares k e w w' \<longleftrightarrow> (reserved_at k e w \<longrightarrow> reserved_at k e w')"

lemma reserved_cong: "w_cache w' = w_cache w \<Longrightarrow> reserved_at k e w' = reserved_at k e w"
  by (simp add: reserved_at_def)

interpretation spare: kernel_programs "spares k e" for k e
  by unfold_locales (auto simp: spares_def dest: frame_own(1) reserved_cong)

lemma spare_allI:
  assumes "\<And>w. reserved_at k e w \<Longrightarrow> kept (spares k e) m w"
  shows "kept_all (spares k e) m"
proof -
  have "kept (spares k e) m w" if "\<not> reserved_at k e w" for w
    using that by (simp add: kept_def wp_def spares_def split: prod.split)
  then show ?thesis using assms by (auto simp: kept_all_def)
qed

lemma spare_look:
  fixes f :: "image_cache \<Rightarrow> (('k, 'm) image_world_scheme, 'a) state"
  assumes "\<And>w :: ('k, 'm) image_world_scheme. reserved_at k e w \<Longrightarrow> kept_all (spares k e) (f (w_cache w))"
  shows "kept_all (spares k e) (State_Monad.bind (gets w_cache) f)"
  by (rule spare_allI, rule spare.kept_gets, rule spare.keptD, rule assms)

lemma spare_games [keeps]: "kept_all (spares k e) (modify (\<lambda>w. w\<lparr>w_games := g w\<rparr>))"
  by (simp add: kept_all_def kept_def wp spares_def reserved_at_def)

lemma spare_cache_op:
  assumes "\<And>h c. cache_step c (snd (f h c))"
    and "\<And>h c. cache_inv c \<Longrightarrow> slots c ! k = e \<Longrightarrow> slots (snd (f h c)) ! k = e"
  shows "kept_all (spares k e) (cache_op K f)"
proof -
  have "cache_inv (snd (f h c))" if "cache_inv c" for h c
    using cache_step_ok [OF assms(1)] that by (auto simp: step_ok_def)
  then show ?thesis
    using assms(2) by (auto simp: kept_all_def kept_def wp_cache_op spares_def reserved_at_def split: prod.split)
      (metis snd_conv)+
qed

text \<open>The operations on records, for another source; \<open>claim\<close> also with the handle 0.\<close>

lemma spare_record_ops:
  assumes "p \<noteq> path e"
  shows "kept_all (spares k e) (cache_op K (\<lambda>h c. mark_image_cache_detach_requested h c (Some p) gen u b))"
    and "kept_all (spares k e) (cache_op K (\<lambda>h c. claim_image_cache_detach h c (Some p) gen u b))"
    and "kept_all (spares k e) (cache_op K (\<lambda>h c. finish_image_cache_detach_attempt c (Some p) gen u b ds))"
    and "kept_all (spares k e) (cache_op K (\<lambda>h c. cancel_image_attachment c (Some p) gen))"
proof -
  have rec: "i \<noteq> k" if "find_attachment_record c p gen u b = Some i" "slots c ! k = e" for c i
    using find_attachment_SomeD(3) [OF that(1)] that(2) assms by auto
  have res: "i \<noteq> k" if "find_reservation c p gen = Some i" "slots c ! k = e" for c i
    using find_reservation_SomeD(3) [OF that(1)] that(2) assms by auto
  show "kept_all (spares k e) (cache_op K (\<lambda>h c. mark_image_cache_detach_requested h c (Some p) gen u b))"
    by (rule spare_cache_op, rule cache_step.intros)
      (auto simp: mark_image_cache_detach_requested_def Let_def case_prod_beta dest: rec split: option.split)
  show "kept_all (spares k e) (cache_op K (\<lambda>h c. claim_image_cache_detach h c (Some p) gen u b))"
    by (rule spare_cache_op, rule cache_step.intros)
      (auto simp: claim_image_cache_detach_def Let_def case_prod_beta dest: rec split: option.split)
  show "kept_all (spares k e) (cache_op K (\<lambda>h c. finish_image_cache_detach_attempt c (Some p) gen u b ds))"
    by (rule spare_cache_op, rule cache_step.intros)
      (auto simp: finish_image_cache_detach_attempt_def dest: rec split: option.split)
  show "kept_all (spares k e) (cache_op K (\<lambda>h c. cancel_image_attachment c (Some p) gen))"
    by (rule spare_cache_op, rule cache_step.intros)
      (auto simp: cancel_image_attachment_def dest: res split: option.split)
qed

lemma spare_invalidate:
  assumes "j \<noteq> k"
  shows "kept_all (spares k e) (invalidate_matching_image_cache_entry K j x)"
proof -
  have "kept_all (spares k e) (cache_op K (\<lambda>h c. invalidate_image_cache_entry c (int j) y))" for y
    by (rule spare_cache_op, rule cache_step.intros) (use assms in \<open>auto simp: invalidate_image_cache_entry_def Let_def\<close>)
  then show ?thesis unfolding invalidate_matching_image_cache_entry_def by (intro keeps)
qed

lemma spare_detach:
  assumes "p \<noteq> path e \<or> gen = 0"
  shows "kept_all (spares k e) (detach_cached_image_device K p gen b u)"
proof (cases "p = path e")
  case False
  then show ?thesis unfolding detach_cached_image_device_def by (intro keeps spare_record_ops)
next
  case True
  then have "gen = 0" using assms by simp
  then have "wp (detach_cached_image_device K p gen b u) (\<lambda>_. spares k e w) w" for w :: "('a, 'b) image_world_scheme"
    by (simp add: detach_cached_image_device_def wp_bind wp_cache_op claim_image_cache_detach_def wp_ret spares_def reserved_at_def)
  then show ?thesis by (simp add: kept_all_def kept_def)
qed

lemma spare_release_filesystem:
  assumes "p \<noteq> path e \<or> gen = 0"
  shows "kept_all (spares k e) (release_filesystem K p mp gen b u)"
  unfolding release_filesystem_def release_device_and_directory_def by (intro keeps spare_detach [OF assms])

lemma spared_entry:
  assumes r: "reserved_at k e w" and f: "find_image_cache_entry (w_cache w) (Some p) = Some (x, j)"
  obtains (same) "j = k" "p = path e" "x = copy_cache_entry e"
    | (other) "j \<noteq> k" "p \<noteq> path e" "e_path x = p"
proof -
  have inv: "cache_inv (w_cache w)" and k: "k < length (slots (w_cache w))" "slots (w_cache w) ! k = e" "slot_valid e"
    using r cache_inv_length by (auto simp: reserved_at_def)
  have j: "find_source_path_index (w_cache w) p = Some j" and x: "x = copy_cache_entry (slots (w_cache w) ! j)"
    using f by (auto simp: find_image_cache_entry_def)
  note s = unique_slot(1-4) [OF inv j]
  show thesis
  proof (cases "j = k")
    case True
    then show thesis using same s(3) k(2) x by simp
  next
    case False
    have "p \<noteq> path e"
      using keys_distinctD [of slot_valid path "slots (w_cache w)" j k] inv s k False by (auto simp: cache_inv_def)
    moreover have "e_path x = p" using x entry_path [OF s(4,2)] s(3) by simp
    ultimately show thesis using other False by blast
  qed
qed

definition own_handle :: "image_slot \<Rightarrow> string \<Rightarrow> u64 \<Rightarrow> bool" where
  "own_handle e p gen \<longleftrightarrow> gen \<noteq> 0 \<and> p = path e \<and> gen = generation e"

lemma reserve_spares:
  assumes foreign: "\<not> own_handle e p expected" and r: "reserved_at k e w"
  shows "wp (reserve_release K p b u expected)
    (\<lambda>r w'. reserved_at k e w' \<and> (\<forall>gen. r = Inr gen \<longrightarrow> p \<noteq> path e \<or> gen = 0)) w"
proof (cases "find_image_cache_entry (w_cache w) (Some p)")
  case None
  then show ?thesis using r by (simp add: reserve_release_def wp)
next
  case (Some y)
  obtain x j where y: "y = (x, j)" by (cases y)
  from r Some [unfolded y] show ?thesis
  proof (cases rule: spared_entry)
    case same
    then show ?thesis using r foreign Some y
      by (auto simp: reserve_release_def wp own_handle_def reserved_at_def)
  next
    case other
    have "kept_all (spares k e) (cache_op K (\<lambda>h c. mark_image_cache_detach_requested h c (Some (e_path x)) g v d))" for g v d
      by (rule spare_record_ops) (use other in simp)
    then have "kept (spares k e) (reserve_release K p b u expected) w"
      unfolding reserve_release_def
      by (intro spare.kept_gets) (simp only: Some y option.case prod.case, intro spare.keptD keeps)
    then have "wp (reserve_release K p b u expected) (\<lambda>_. spares k e w) w" by (simp add: kept_def)
    then show ?thesis by (rule wp_mono) (use r other in \<open>auto simp: spares_def\<close>)
  qed
qed

section \<open>Releases\<close>

lemma spare_children:
  assumes rec: "\<And>q u b. kept_all (spares k e) (unmount q u b cleanup 0)"
  shows "kept_all (spares k e) (unmount_child_image_mounts_for_container K unmount mp cleanup)"
  unfolding unmount_child_image_mounts_for_container_def
proof (rule spare.kept_fold)
  fix j all_unmounted
  show "kept_all (spares k e) (unmount_child_step K unmount mp cleanup j all_unmounted)"
    unfolding unmount_child_step_def
  proof (rule spare_look)
    fix w :: "('a, 'b) image_world_scheme"
    assume r: "reserved_at k e w"
    have att: "e_state x = ATTACHED_DEVICE_ATTACHING" if "get_image_cache_entry (w_cache w) (int j) = Some x" "j = k" for x
      using that r by (auto simp: get_image_cache_entry_def copy_cache_entry_def reserved_at_def split: if_splits)
    show "kept_all (spares k e) (case get_image_cache_entry (w_cache w) (int j) of
        None \<Rightarrow> ret all_unmounted
      | Some x \<Rightarrow>
          if \<not> path_matches_root_or_child (e_path x) mp then ret all_unmounted
          else if e_state x = ATTACHED_DEVICE_ATTACHING then do { set_errno EBUSY; ret False }
          else if \<not> has_device x then ret all_unmounted
          else do {
            r \<leftarrow> unmount (e_path x) (e_unit_id x) (e_backend x) cleanup 0;
            if unmount_completed r
            then do { _ \<leftarrow> invalidate_matching_image_cache_entry K j x; ret all_unmounted }
            else do { (case ur_error r of Some x \<Rightarrow> set_errno x | None \<Rightarrow> ret ()); ret False }
          })"
      using att by (intro keeps rec spare_invalidate) auto
  qed
qed

lemma spare_release_tracked:
  assumes "\<And>q u b. kept_all (spares k e) (unmount q u b cleanup 0)" and "p \<noteq> path e \<or> gen = 0"
  shows "kept_all (spares k e) (release_tracked K unmount p t mp b u cleanup gen)"
  unfolding release_tracked_def
  by (intro keeps spare_children spare_release_filesystem) (use assms in simp_all)

lemma spare_body:
  assumes rec: "\<And>q u b. kept_all (spares k e) (unmount q u b cleanup 0)" and foreign: "\<not> own_handle e p expected"
  shows "kept_all (spares k e) (unmount_image_body K unmount p u b cleanup expected)"
proof -
  have tail: "kept_all (spares k e) (do {
       r \<leftarrow> reserve_release K p rb ru expected;
       (case r of
          Inl x \<Rightarrow> unmount_failed x
        | Inr gen \<Rightarrow> release_tracked K unmount p t mp rb ru cleanup gen) })" for rb ru t mp
  proof (rule spare_allI)
    fix w :: "('a, 'b) image_world_scheme"
    assume r: "reserved_at k e w"
    note res = reserve_spares [OF foreign r, of K rb ru]
    show "kept (spares k e) (do {
       r \<leftarrow> reserve_release K p rb ru expected;
       (case r of
          Inl x \<Rightarrow> unmount_failed x
        | Inr gen \<Rightarrow> release_tracked K unmount p t mp rb ru cleanup gen) }) w"
    proof (rule spare.kept_bind)
      show "kept (spares k e) (reserve_release K p rb ru expected) w"
        unfolding kept_def using res by (rule wp_mono) (simp add: spares_def)
      fix a w'
      assume "run_state (reserve_release K p rb ru expected) w = (a, w')"
      from wp_run [OF res this] have "p \<noteq> path e \<or> gen = 0" if "a = Inr gen" for gen using that by blast
      then show "kept (spares k e) (case a of Inl x \<Rightarrow> unmount_failed x
          | Inr gen \<Rightarrow> release_tracked K unmount p t mp rb ru cleanup gen) w'"
        by (cases a) (auto intro!: spare.keptD keeps spare_release_tracked rec)
    qed
  qed
  show ?thesis unfolding unmount_image_body_def resolve_release_device_def resolve_device_from_mount_def
    by (intro keeps tail)
qed

lemma spare_impl: "\<not> own_handle e p expected \<Longrightarrow> kept_all (spares k e) (unmount_image_impl K n p u b cleanup expected)"
proof (induction n arbitrary: p u b cleanup expected)
  case 0
  have "kept_all (spares k e) (fault :: (('a, 'b) image_world_scheme, unit) state)"
    by (simp add: kept_all_def kept_def fault_def wp spares_def reserved_at_def)
  then show ?case unfolding unmount_image_impl.simps by (intro keeps)
next
  case (Suc n)
  have "\<not> own_handle e q 0" for q by (simp add: own_handle_def)
  then show ?case unfolding unmount_image_impl.simps by (intro spare_body Suc)
qed

lemma spare_unmount [keeps]:
  "kept_all (spares k e) (unmount_image K p u b)"
  "kept_all (spares k e) (unmount_runtime_image K p u b)"
  unfolding unmount_image_def unmount_runtime_image_def by (rule spare_impl, simp add: own_handle_def)+

lemma spare_unmount_slot: "j \<noteq> k \<Longrightarrow> kept_all (spares k e) (unmount_slot K j x)"
  unfolding unmount_slot_def by (intro keeps spare_invalidate)

text \<open>Its own slot: the release is refused before anything is done.\<close>

lemma reserved_entry:
  assumes "reserved_at k e w"
  shows "find_image_cache_entry (w_cache w) (Some (path e)) = Some (copy_cache_entry e, k)"
    and "e_path (copy_cache_entry e) = path e" and "e_state (copy_cache_entry e) = ATTACHED_DEVICE_ATTACHING"
proof -
  have inv: "cache_inv (w_cache w)" and k: "k < length (slots (w_cache w))" "slots (w_cache w) ! k = e" "slot_valid e"
    using assms cache_inv_length by (auto simp: reserved_at_def)
  show "find_image_cache_entry (w_cache w) (Some (path e)) = Some (copy_cache_entry e, k)"
    using find_source_eq [OF inv k(1)] k by (simp add: find_image_cache_entry_def)
  show "e_path (copy_cache_entry e) = path e" using entry_path cache_inv_slot [OF inv k(1)] k by simp
  show "e_state (copy_cache_entry e) = ATTACHED_DEVICE_ATTACHING" using assms by (simp add: reserved_at_def)
qed

lemma reserved_unmount_refused:
  assumes r: "reserved_at k e w" and d: "has_device (copy_cache_entry e)"
  shows "wp (unmount_runtime_image K (path e) (unit_id e) (backend e)) (\<lambda>r w'. \<not> unmount_completed r) w"
proof -
  have f: "find_image_cache_entry (w_cache w) (Some (path e)) = Some (copy_cache_entry e, k)"
    "e_state (copy_cache_entry e) = ATTACHED_DEVICE_ATTACHING" using reserved_entry [OF r] by simp_all
  have "\<not> (unit_id e < 0 \<or> backend e = ATTACH_BACKEND_NONE)" using d by (auto simp: has_device_def)
  then show ?thesis
    unfolding unmount_runtime_image_def NESTED_RELEASES_def unmount_image_impl.simps using d f
    by (simp add: unmount_image_body_def wp wp_ask Let_def resolve_release_device_def
        reserve_release_def unmount_failed_def wp_set_errno unmount_completed_def)
qed

lemma spare_own_slot:
  assumes "x = copy_cache_entry e" "has_device x"
  shows "kept_all (spares k e) (unmount_slot K j x)"
proof (rule spare_allI)
  fix w :: "('a, 'b) image_world_scheme"
  assume r: "reserved_at k e w"
  have x: "e_path x = path e" "e_unit_id x = unit_id e" "e_backend x = backend e"
    using reserved_entry(2) [OF r] assms(1) by simp_all
  show "kept (spares k e) (unmount_slot K j x) w" unfolding unmount_slot_def x
  proof (rule spare.kept_bind)
    show "kept (spares k e) (unmount_runtime_image K (path e) (unit_id e) (backend e)) w" by (intro spare.keptD spare_unmount)
    fix a w'
    assume "run_state (unmount_runtime_image K (path e) (unit_id e) (backend e)) w = (a, w')"
    from wp_run [OF reserved_unmount_refused [OF r assms(2) [unfolded assms(1)]] this]
    show "kept (spares k e) (if unmount_completed a then do { _ \<leftarrow> invalidate_matching_image_cache_entry K j x; ret True } else ret False) w'"
      by (simp add: spare.keptD spare.kept_ret)
  qed
qed

section \<open>Loops over the cache\<close>

lemma spare_slot_entry:
  assumes "reserved_at k e w" "get_image_cache_entry (w_cache w) (int k) = Some x"
  shows "x = copy_cache_entry e" "e_state x = ATTACHED_DEVICE_ATTACHING"
  using assms by (auto simp: get_image_cache_entry_def reserved_at_def split: if_splits)

lemma spare_any_slot:
  assumes "reserved_at k e w" "get_image_cache_entry (w_cache w) (int j) = Some x" "has_device x"
  shows "kept_all (spares k e) (unmount_slot K j x)"
proof (cases "j = k")
  case True
  then show ?thesis using spare_own_slot [OF spare_slot_entry(1) [OF assms(1)] assms(3)] assms(2) by simp
qed (rule spare_unmount_slot)

lemma spare_release_pass [keeps]: "kept_all (spares k e) (release_pass_step K j flags)"
  unfolding release_pass_step_def
  by ((rule spare.kept_prod)+, rule spare_look, intro keeps, rule spare_any_slot) simp_all

lemma spare_suspend_step [keeps]: "kept_all (spares k e) (suspend_unmount_step K j b)"
  unfolding suspend_unmount_step_def by (rule spare_look, intro keeps, rule spare_any_slot) simp_all

lemma spare_shutdown_pass [keeps]: "kept_all (spares k e) (shutdown_pass_step K j flags)"
  unfolding shutdown_pass_step_def
  by ((rule spare.kept_prod)+, rule spare_look, intro keeps, rule spare_any_slot) simp_all

lemma spare_release_passes [keeps]: "kept_all (spares k e) (release_passes K n b)"
  by (induction n arbitrary: b) (auto intro!: keeps)

lemma spare_shutdown_passes [keeps]: "kept_all (spares k e) (shutdown_passes K n)"
  by (induction n) (auto intro!: keeps)

lemma spare_all_releases [keeps]:
  "kept_all (spares k e) (release_runtime_image_mounts K)"
  "kept_all (spares k e) (unmount_usb_image_mounts_for_suspend K)"
  "kept_all (spares k e) (shutdown_image_mounts K)"
  unfolding release_runtime_image_mounts_def unmount_usb_image_mounts_for_suspend_def shutdown_image_mounts_def
  by (intro keeps)+

lemma spare_release_mount [keeps]: "kept_all (spares k e) (release_runtime_image_mount K p)"
  unfolding release_runtime_image_mount_def
proof (rule spare_look, rule keeps, goal_cases)
  case (2 w y)
  obtain x j where y: "y = (x, j)" by (cases y)
  from 2(1) 2(2) [unfolded y] show ?case
  proof (cases rule: spared_entry)
    case same
    then show ?thesis using reserved_entry(3) [OF 2(1)] by (simp add: y keeps)
  next
    case other
    then show ?thesis unfolding y prod.case by (intro keeps spare_invalidate)
  qed
qed (rule keeps)

lemma spare_release_attachment:
  assumes "(p, gen) \<noteq> (path e, generation e)"
  shows "kept_all (spares k e) (release_runtime_image_attachment K p gen)"
  unfolding release_runtime_image_attachment_def
proof (rule spare_look, rule keeps, goal_cases)
  case (2 w y)
  obtain x j where y: "y = (x, j)" by (cases y)
  from 2(1) 2(2) [unfolded y] show ?case
  proof (cases rule: spared_entry)
    case same
    then show ?thesis using assms by (simp add: y keeps)
  next
    case other
    then have "\<not> own_handle e (e_path x) gen" by (simp add: own_handle_def)
    then show ?thesis using other unfolding y prod.case by (intro keeps spare_invalidate spare_record_ops spare_impl)
  qed
qed (intro keeps)

lemma reserved_unmount_stays:
  assumes r: "reserved_at k e w" and d: "has_device (copy_cache_entry e)"
  shows "wp (unmount_image K (path e) u b) (\<lambda>r w'. \<not> filesystem_released r) w"
proof -
  let ?Q = "\<lambda>r w'. \<not> filesystem_released r"
  have failed: "wp (unmount_failed x) ?Q w'" for x and w' :: "('a, 'b) image_world_scheme"
    by (simp add: unmount_failed_def wp wp_set_errno)
  have reserve: "wp (reserve_release K (path e) rb ru 0) (\<lambda>r w'. \<exists>x. r = Inl x) w'" if "reserved_at k e w'"
    for rb ru and w' :: "('a, 'b) image_world_scheme"
    using reserved_entry [OF that] d by (simp add: reserve_release_def wp)
  have tail: "wp (reserve_release K (path e) rb ru 0) (\<lambda>r. wp (case r of Inl x \<Rightarrow> unmount_failed x | Inr gen \<Rightarrow> m gen) ?Q) w'"
    if "reserved_at k e w'" for rb ru m and w' :: "('a, 'b) image_world_scheme"
    using reserve [OF that] by (rule wp_mono) (auto simp: failed)
  have res: "kept_all (spares k e) (resolve_release_device K mp u b :: (('a, 'b) image_world_scheme, _) state)" for mp
    unfolding resolve_release_device_def resolve_device_from_mount_def by (intro keeps)
  have dev: "wp (State_Monad.bind (resolve_release_device K mp u b) (\<lambda>(rb, ru). State_Monad.bind (reserve_release K (path e) rb ru 0)
      (\<lambda>r. case r of Inl x \<Rightarrow> unmount_failed x | Inr gen \<Rightarrow> m rb ru gen))) ?Q w'"
    if "reserved_at k e w'" for mp m and w' :: "('a, 'b) image_world_scheme"
    unfolding wp_bind [of "resolve_release_device K mp u b"]
  proof (rule wp_keptI [OF res], goal_cases)
    case (1 a w'')
    then have "reserved_at k e w''" using that by (simp add: spares_def)
    then show ?case using tail by (cases a) (simp add: wp_bind)
  qed
  have "reserved_at k e (w\<lparr>w_kernel := x\<rparr>)" for x using r by (simp add: reserved_at_def)
  then show ?thesis
    unfolding unmount_image_def NESTED_RELEASES_def unmount_image_impl.simps unmount_image_body_def Let_def
    unfolding wp_bind [of "ask (k_protected K (path e))"] wp_ask wp_if
    using failed dev by simp
qed

lemma spared_slot: "kept_all (spares k e) m \<Longrightarrow> reserved_at k e w \<Longrightarrow> slots (w_cache (snd (run_state m w))) ! k = e"
  by (auto simp: kept_all_def kept_def wp_def spares_def reserved_at_def case_prod_beta)

lemma reserved_release_refused:
  assumes r: "reserved_at k e w"
  shows "run_state (release_runtime_image_mount K (path e)) w = (False, w\<lparr>w_errno := Some EBUSY\<rparr>)"
    and "gen \<noteq> generation e \<Longrightarrow> run_state (release_runtime_image_attachment K (path e) gen) w = (False, w\<lparr>w_errno := Some ESTALE\<rparr>)"
  using reserved_entry [OF r]
  by (simp_all add: release_runtime_image_mount_def release_runtime_image_attachment_def gets_def set_errno_def)


text \<open>An image whose device is attached but not mounted yet.\<close>

definition sample_attached :: image_cache where
  "sample_attached = snd (publish_image_attachment node_host sample_reserved (Some ''/a.exfat'') 2 3 ATTACH_BACKEND_LVD)"

definition sample_attaching_world :: "unit image_world" where
  "sample_attaching_world = sample_image_world\<lparr>w_cache := sample_attached\<rparr>"

lemma sample_attached_slot:
  "cache_run 2 sample_attached" "slot_valid (slots sample_attached ! 0)" "path (slots sample_attached ! 0) = ''/a.exfat''"
  "dev_state (slots sample_attached ! 0) = ATTACHED_DEVICE_ATTACHING" "has_device (copy_cache_entry (slots sample_attached ! 0))"
proof -
  show "cache_run 2 sample_attached"
    using run_step [OF sample_runs(1) cache_step.intros(4)] by (simp add: sample_attached_def numeral_2_eq_2)
  have f0: "find_source_path_index sample_reserved ''/a.exfat'' = Some 0"
    by (simp add: sample_reserved_def begin_init find_source_path_index_def find_index_Some reservation_def)
  have s0: "slots sample_reserved ! 0 = reservation 2 ''/a.exfat'' ''/mnt/a''" "length (slots sample_reserved) = MAX_IMAGE_MOUNTS"
    by (simp_all add: sample_reserved_def begin_init)
  show "slot_valid (slots sample_attached ! 0)" "path (slots sample_attached ! 0) = ''/a.exfat''"
    "dev_state (slots sample_attached ! 0) = ATTACHED_DEVICE_ATTACHING" "has_device (copy_cache_entry (slots sample_attached ! 0))"
    by (simp_all add: sample_attached_def publish_image_attachment_def find_reservation_def f0 s0 Let_def refresh_attached_unit_identity_def
        node_host_def set_slot_def reservation_def attach_backend_is_valid_def blank_detach_state_def has_device_def)
qed


end
