(* ===== verification/Languages.thy ===== *)
theory Languages
  imports Path_Utils
begin

text \<open>
  \<^verbatim>\<open>src/sm_l10n.c\<close>: the language of the texts. The catalogs of texts are data (\<^verbatim>\<open>src/lang/*.inc\<close>): an argument that gives the
  text of a key in a language, when there is one. What the system answers for its language is an argument too.
\<close>

section \<open>Definitions\<close>

record sm_region =
  country :: string
  lang :: string
  locale_name :: string

definition region :: "string \<Rightarrow> string \<Rightarrow> string \<Rightarrow> sm_region" where
  "region c l n = \<lparr>country = c, lang = l, locale_name = n\<rparr>"

definition g_regions :: "sm_region list" where
  "g_regions =
     [region ''jp'' ''ja'' ''ja-JP'', region ''us'' ''en'' ''en-US'', region ''fr'' ''fr'' ''fr-FR'', region ''es'' ''es'' ''es-ES'',
      region ''de'' ''de'' ''de-DE'', region ''it'' ''it'' ''it-IT'', region ''nl'' ''nl'' ''nl-NL'', region ''pt'' ''pt'' ''pt-PT'',
      region ''ru'' ''ru'' ''ru-RU'', region ''kr'' ''ko'' ''ko-KR'', region ''tw'' ''zh'' ''zh-TW'', region ''cn'' ''zh'' ''zh-CN'',
      region ''fi'' ''fi'' ''fi-FI'', region ''se'' ''sv'' ''sv-SE'', region ''dk'' ''da'' ''da-DK'', region ''no'' ''no'' ''no-NO'',
      region ''pl'' ''pl'' ''pl-PL'', region ''br'' ''pt'' ''pt-BR'', region ''gb'' ''en'' ''en-GB'', region ''tr'' ''tr'' ''tr-TR'',
      region ''mx'' ''es'' ''es-MX'', region ''sa'' ''ar'' ''ar-SA'', region ''ca'' ''fr'' ''fr-CA'', region ''cz'' ''cs'' ''cs-CZ'',
      region ''hu'' ''hu'' ''hu-HU'', region ''gr'' ''el'' ''el-GR'', region ''ro'' ''ro'' ''ro-RO'', region ''th'' ''th'' ''th-TH'',
      region ''vn'' ''vi'' ''vi-VN'', region ''id'' ''id'' ''id-ID'', region ''ua'' ''uk'' ''uk-UA'']"

abbreviation SM_LANGUAGE_AUTO :: int where "SM_LANGUAGE_AUTO \<equiv> -1"
abbreviation SM_LANGUAGE_EN_US :: int where "SM_LANGUAGE_EN_US \<equiv> 1"
abbreviation SM_LANGUAGE_UNINITIALIZED :: int where "SM_LANGUAGE_UNINITIALIZED \<equiv> -2"
abbreviation SM_SYSTEM_LANGUAGE_COUNT :: int where "SM_SYSTEM_LANGUAGE_COUNT \<equiv> 31"

definition is_valid_language_id :: "int \<Rightarrow> bool" where
  "is_valid_language_id n \<longleftrightarrow> 0 \<le> n \<and> n < int (length g_regions)"

definition is_valid_system_language_id :: "int \<Rightarrow> bool" where
  "is_valid_system_language_id n \<longleftrightarrow> 0 \<le> n \<and> n < SM_SYSTEM_LANGUAGE_COUNT"

definition language_code_matches :: "string \<Rightarrow> string \<Rightarrow> bool" where
  "language_code_matches val code =
     (if length code \<ge> 16 then False
      else strcaseeq val code \<or> strcaseeq val (map (\<lambda>c. if c = CHR ''-'' then CHR ''_'' else c) code))"

definition sm_l10n_parse_language_id :: "string \<Rightarrow> int option" where
  "sm_l10n_parse_language_id val =
     (if strcaseeq val ''auto'' \<or> strcaseeq val ''system'' \<or> strcaseeq val ''default'' then Some SM_LANGUAGE_AUTO
      else map_option int (find_index (\<lambda>r. language_code_matches val (locale_name r) \<or> strcaseeq val (country r) \<or> strcaseeq val (lang r))
             g_regions))"

definition sm_l10n_language_name :: "int \<Rightarrow> string" where
  "sm_l10n_language_name n =
     (if n = SM_LANGUAGE_AUTO then ''auto''
      else if \<not> is_valid_language_id n then ''invalid''
      else locale_name (g_regions ! nat n))"

text \<open>The active language, from the configured one and the system's (\<open>None\<close>: the query failed).\<close>

definition sm_l10n_init :: "int \<Rightarrow> int option \<Rightarrow> int" where
  "sm_l10n_init configured sys_lang =
     (let auto_language = (configured = SM_LANGUAGE_AUTO);
          active = (if auto_language
                    then (case sys_lang of
                            Some n \<Rightarrow> if is_valid_system_language_id n then n else SM_LANGUAGE_EN_US
                          | None \<Rightarrow> SM_LANGUAGE_EN_US)
                    else configured)
      in if is_valid_language_id active then active else SM_LANGUAGE_EN_US)"

text \<open>The text of a key and the active language afterwards; \<open>catalog\<close> is the text of a key in a language.\<close>

definition sm_l10n_get :: "(nat \<Rightarrow> nat \<Rightarrow> string option) \<Rightarrow> nat \<Rightarrow> int \<Rightarrow> int option \<Rightarrow> int \<Rightarrow> int \<Rightarrow> string \<times> int" where
  "sm_l10n_get catalog count configured sys_lang active key =
     (if key < 0 \<or> key \<ge> int count then ([], active)
      else
        (let active' = (if is_valid_language_id active then active else sm_l10n_init configured sys_lang)
         in (case catalog (nat active') (nat key) of
               Some t \<Rightarrow> t
             | None \<Rightarrow> (case catalog 1 (nat key) of Some t \<Rightarrow> t | None \<Rightarrow> []), active')))"

section \<open>Lemmas\<close>

lemma regions_count [simp]: "length g_regions = 31"
  by (simp add: g_regions_def)

lemma init_valid: "is_valid_language_id (sm_l10n_init configured sys_lang)"
  by (simp add: sm_l10n_init_def is_valid_language_id_def Let_def)

lemma parse_language_valid:
  assumes "sm_l10n_parse_language_id v = Some n"
  shows "n = SM_LANGUAGE_AUTO \<or> is_valid_language_id n"
  using assms find_index_SomeD(1) [of _ g_regions]
  by (auto simp: sm_l10n_parse_language_id_def is_valid_language_id_def split: if_splits)

text \<open>A text is found for every key that has an English one, and the language it is looked up in exists.\<close>

lemma get_language_valid: "0 \<le> key \<Longrightarrow> key < int n \<Longrightarrow> is_valid_language_id (snd (sm_l10n_get cat n configured sys active key))"
  using init_valid by (simp add: sm_l10n_get_def Let_def)

end
