(* ===== verification/Smb_Address.thy ===== *)
theory Smb_Address
  imports Path_Utils
begin

text \<open>
  \<^verbatim>\<open>src/sm_smb.c\<close>, the addresses of network shares: named connections, their validation, and the translation of
  \<^verbatim>\<open>smb://<name>/<path>\<close> to a server, a share and a path in it. The connections are those of the configuration, given as an
  argument. The transfers themselves go through libsmb2.
\<close>

section \<open>Definitions\<close>

record smb_connection =
  sc_name :: string
  sc_path :: string
  sc_username :: string
  sc_password :: string
  sc_active :: bool
  sc_read_only :: bool

record smb_address =
  sa_path :: string
  sa_server :: string
  sa_share :: string
  sa_relative :: string
  sa_user :: string
  sa_domain :: string
  sa_password :: string
  sa_read_only :: bool

abbreviation SLASH :: char where "SLASH \<equiv> CHR ''/''"

definition sm_smb_path :: "string \<Rightarrow> bool" where
  "sm_smb_path path \<longleftrightarrow> starts_with ''smb://'' path"

definition control_char :: "char \<Rightarrow> bool" where
  "control_char c \<longleftrightarrow> (of_char c :: nat) < 32 \<or> (of_char c :: nat) = 127"

text \<open>The text up to the first slash, and the text behind it when there is one (\<^verbatim>\<open>strchr\<close>).\<close>

definition head_part :: "string \<Rightarrow> string" where
  "head_part s = takeWhile (\<lambda>c. c \<noteq> SLASH) s"

definition tail_part :: "string \<Rightarrow> string option" where
  "tail_part s = (case dropWhile (\<lambda>c. c \<noteq> SLASH) s of [] \<Rightarrow> None | _ # r \<Rightarrow> Some r)"

lemma tail_part_length: "tail_part s = Some r \<Longrightarrow> length r < length s"
  using length_dropWhile_le [of "\<lambda>c. c \<noteq> SLASH" s] by (auto simp: tail_part_def split: list.splits)

function component_loop :: "string \<Rightarrow> bool" where
  "component_loop p =
     (if p = [] then True
      else if head_part p = [] \<or> head_part p = ''.'' \<or> head_part p = ''..'' then False
      else (case tail_part p of None \<Rightarrow> True | Some r \<Rightarrow> component_loop r))"
  by pat_completeness auto
termination by (relation "measure length") (auto dest: tail_part_length)

declare component_loop.simps [simp del]

definition safe_components :: "string \<Rightarrow> bool" where
  "safe_components path \<longleftrightarrow> list_all (\<lambda>c. \<not> control_char c \<and> c \<noteq> CHR 0x5C) path \<and> component_loop path"

text \<open>\<^verbatim>\<open>if (size && s[size - 1] == '/') s[size - 1] = 0;\<close>\<close>

definition drop_slash :: "string \<Rightarrow> string" where
  "drop_slash s = (if s \<noteq> [] \<and> last s = SLASH then butlast s else s)"

text \<open>The domain and the user of \<^verbatim>\<open>domain\user\<close>.\<close>

definition split_user :: "string \<Rightarrow> (string \<times> string) option" where
  "split_user user =
     (case dropWhile (\<lambda>c. c \<noteq> CHR 0x5C) user of
        [] \<Rightarrow> Some ([], user)
      | _ # rest \<Rightarrow>
          (let domain = takeWhile (\<lambda>c. c \<noteq> CHR 0x5C) user
           in if domain = [] \<or> length domain \<ge> 256 \<or> rest = [] then None else Some (domain, rest)))"

definition base_address :: "smb_connection \<Rightarrow> smb_address res" where
  "base_address c =
     (if \<not> sm_smb_path (sc_path c) \<or> \<not> safe_components (drop 6 (sc_path c)) then Inl EINVAL
      else
        (let server = head_part (drop 6 (sc_path c)) in
         case tail_part (drop 6 (sc_path c)) of
           None \<Rightarrow> Inl EINVAL
         | Some share_path \<Rightarrow>
             if server = [] \<or> share_path = [] then Inl EINVAL
             else if length server \<ge> 256 then Inl ENAMETOOLONG
             else if list_ex (\<lambda>c. isspace c \<or> c = CHR ''@'' \<or> c = CHR ''?'' \<or> c = CHR ''#'') server then Inl EINVAL
             else if head_part share_path = [] \<or> length (head_part share_path) \<ge> 256 then Inl EINVAL
             else
               (let relative = (case tail_part share_path of None \<Rightarrow> [] | Some r \<Rightarrow> r) in
                if length relative \<ge> MAX_PATH then Inl ENAMETOOLONG
                else
                  (case split_user (sc_username c) of
                     None \<Rightarrow> Inl EINVAL
                   | Some (domain, user) \<Rightarrow>
                       Inr \<lparr>sa_path = [], sa_server = map tolower server, sa_share = head_part share_path,
                            sa_relative = drop_slash relative, sa_user = strlcpy user 256, sa_domain = domain,
                            sa_password = strlcpy (sc_password c) 512, sa_read_only = sc_read_only c\<rparr>))))"

definition sm_smb_validate :: "smb_connection \<Rightarrow> unit res" where
  "sm_smb_validate c =
     (if length (sc_name c) \<ge> 64 \<or> length (sc_path c) \<ge> MAX_PATH \<or> length (sc_username c) \<ge> 256 \<or> length (sc_password c) \<ge> 512
      then Inl EINVAL
      else if sc_name c = [] \<or> sc_name c = ''.'' \<or> sc_name c = ''..'' \<or> isspace (hd (sc_name c)) \<or> isspace (last (sc_name c))
      then Inl EINVAL
      else if list_ex (\<lambda>c. control_char c \<or> c \<in> set (CHR 0x5C # ''/:@?#%'')) (sc_name c) then Inl EINVAL
      else if list_ex control_char (sc_username c) \<or> list_ex control_char (sc_password c) then Inl EINVAL
      else map_sum id (\<lambda>_. ()) (base_address c))"

text \<open>The connection of a name (\<^verbatim>\<open>sm_smb_get\<close> asks the configuration).\<close>

definition sm_config_smb_get :: "smb_connection list \<Rightarrow> string \<Rightarrow> smb_connection res" where
  "sm_config_smb_get conns name = (case find (\<lambda>c. strcaseeq name (sc_name c)) conns of Some c \<Rightarrow> Inr c | None \<Rightarrow> Inl ENOENT)"

definition active_address :: "smb_connection list \<Rightarrow> string \<Rightarrow> smb_address res" where
  "active_address conns alias =
     (case sm_config_smb_get conns alias of
        Inl e \<Rightarrow> Inl e
      | Inr c \<Rightarrow> if \<not> sc_active c then Inl ENODEV else base_address c)"

definition sm_smb_parse_address :: "smb_connection list \<Rightarrow> string \<Rightarrow> smb_address res" where
  "sm_smb_parse_address conns path =
     (if \<not> sm_smb_path path \<or> length path \<ge> MAX_PATH then Inl EINVAL
      else
        (let alias = head_part (drop 6 path);
             slash = tail_part (drop 6 path);
             below = (case slash of None \<Rightarrow> [] | Some r \<Rightarrow> r)
         in if alias = [] \<or> length alias \<ge> 64 \<or> (slash \<noteq> None \<and> \<not> safe_components below) then Inl EINVAL
            else
              (case active_address conns alias of
                 Inl e \<Rightarrow> Inl e
               | Inr a \<Rightarrow>
                   (let relative = sa_relative a @ (if sa_relative a \<noteq> [] \<and> below \<noteq> [] then [SLASH] else []) @ below in
                    if length relative \<ge> MAX_PATH then Inl ENAMETOOLONG
                    else
                      (let full = ''smb://'' @ alias @ (if below \<noteq> [] then [SLASH] else []) @ below in
                       if length full \<ge> MAX_PATH then Inl ENAMETOOLONG
                       else Inr (a\<lparr>sa_relative := drop_slash relative, sa_path := drop_slash full\<rparr>))))))"

definition sm_smb_normalize :: "smb_connection list \<Rightarrow> string \<Rightarrow> string res" where
  "sm_smb_normalize conns path = map_sum id (\<lambda>a. strlcpy (sa_path a) MAX_PATH) (sm_smb_parse_address conns path)"

definition sm_smb_path_within :: "smb_connection list \<Rightarrow> string \<Rightarrow> string \<Rightarrow> bool" where
  "sm_smb_path_within conns path root =
     (case (sm_smb_parse_address conns path, sm_smb_parse_address conns root) of
        (Inr a, Inr b) \<Rightarrow>
          strcaseeq (sa_server a) (sa_server b) \<and> strcaseeq (sa_share a) (sa_share b)
          \<and> strcaseeq (take (length (sa_relative b)) (sa_relative a)) (sa_relative b)
          \<and> (sa_relative b = [] \<or> char_at (sa_relative a) (length (sa_relative b)) = CHR 0x00
             \<or> char_at (sa_relative a) (length (sa_relative b)) = SLASH)
      | _ \<Rightarrow> False)"

section \<open>Components\<close>

text \<open>The components of a path and what a safe one looks like.\<close>

function components :: "string \<Rightarrow> string list" where
  "components p = head_part p # (case tail_part p of None \<Rightarrow> [] | Some r \<Rightarrow> components r)"
  by pat_completeness auto
termination by (relation "measure length") (auto dest: tail_part_length)

declare components.simps [simp del]

definition safe_name :: "string \<Rightarrow> bool" where
  "safe_name n \<longleftrightarrow> n \<noteq> [] \<and> n \<noteq> ''.'' \<and> n \<noteq> ''..'' \<and> SLASH \<notin> set n \<and> CHR 0x5C \<notin> set n"

lemma head_part_no_slash: "SLASH \<notin> set (head_part s)"
  by (auto simp: head_part_def dest: set_takeWhileD)

lemma split_slash:
  "SLASH \<notin> set a \<Longrightarrow> takeWhile (\<lambda>c. c \<noteq> SLASH) (a @ SLASH # r) = a"
  "SLASH \<notin> set a \<Longrightarrow> dropWhile (\<lambda>c. c \<noteq> SLASH) (a @ SLASH # r) = SLASH # r"
  "SLASH \<notin> set a \<Longrightarrow> takeWhile (\<lambda>c. c \<noteq> SLASH) a = a"
  "SLASH \<notin> set a \<Longrightarrow> dropWhile (\<lambda>c. c \<noteq> SLASH) a = []"
  by (induction a) auto

lemma parts_slash: "SLASH \<notin> set a \<Longrightarrow> head_part (a @ SLASH # r) = a \<and> tail_part (a @ SLASH # r) = Some r"
  unfolding head_part_def tail_part_def by (simp only: split_slash list.case simp_thms)

lemma parts_plain: "SLASH \<notin> set a \<Longrightarrow> head_part a = a \<and> tail_part a = None"
  unfolding head_part_def tail_part_def by (simp only: split_slash list.case simp_thms)

lemma parts: "s = head_part s @ (case tail_part s of None \<Rightarrow> [] | Some r \<Rightarrow> SLASH # r)"
proof (cases "SLASH \<in> set s")
  case True
  then obtain a r where "s = a @ SLASH # r" "SLASH \<notin> set a" by (meson split_list_first)
  then show ?thesis using parts_slash [of a r] by simp
next
  case False
  then show ?thesis using parts_plain [of s] by simp
qed

lemma components_slash: "components (a @ SLASH # b) = components a @ components b"
proof (induction a rule: components.induct)
  case (1 a)
  show ?case
  proof (cases "tail_part a")
    case None
    then have "SLASH \<notin> set a" using parts [of a] head_part_no_slash [of a] by simp
    then show ?thesis using parts_slash [of a b] parts_plain [of a] by (simp add: components.simps [of "a @ SLASH # b"] components.simps [of a])
  next
    case (Some r)
    then have a: "a = head_part a @ SLASH # r" using parts [of a] by simp
    then have "a @ SLASH # b = head_part a @ SLASH # (r @ SLASH # b)" by simp
    then have "head_part (a @ SLASH # b) = head_part a" "tail_part (a @ SLASH # b) = Some (r @ SLASH # b)"
      using parts_slash [OF head_part_no_slash, of a "r @ SLASH # b"] by metis+
    then show ?thesis using 1 [OF Some] Some by (simp add: components.simps [of "a @ SLASH # b"] components.simps [of a])
  qed
qed

lemma drop_slash_snoc [simp]: "drop_slash (s @ [SLASH]) = s"
  by (simp add: drop_slash_def)

lemma drop_slash_append: "s \<noteq> [] \<Longrightarrow> drop_slash (a @ s) = a @ drop_slash s"
  by (simp add: drop_slash_def butlast_append)

lemma drop_slash_Nil [simp]: "drop_slash [] = []"
  by (simp add: drop_slash_def)

definition safe_path :: "string \<Rightarrow> bool" where
  "safe_path p \<longleftrightarrow> p = [] \<or> list_all safe_name (components p)"

lemma safe_components_tail:
  "safe_components (a @ SLASH # b) \<Longrightarrow> SLASH \<notin> set a \<Longrightarrow> safe_components b"
  using parts_slash [of a b] by (auto simp: safe_components_def component_loop.simps [of "a @ SLASH # b"] split: if_splits)

lemma safe_dropped_nonempty: "safe_components p \<Longrightarrow> p \<noteq> [] \<Longrightarrow> drop_slash p \<noteq> []"
proof
  assume "safe_components p" "p \<noteq> []" "drop_slash p = []"
  moreover from this have "p = [SLASH]" by (cases p rule: rev_cases) (auto simp: drop_slash_def split: if_splits)
  ultimately show False by (simp add: safe_components_def component_loop.simps [of "[SLASH]"] head_part_def)
qed

lemma safe_path_ends: "safe_path b \<Longrightarrow> drop_slash b = b"
proof (cases b rule: rev_cases)
  case (snoc b' x)
  then show "safe_path b \<Longrightarrow> drop_slash b = b" using components_slash [of b' "[]"]
    by (auto simp: drop_slash_def safe_path_def components.simps [of "[]"] safe_name_def head_part_def tail_part_def)
qed simp

lemma safe_path_loop: "safe_path p \<Longrightarrow> component_loop p"
proof (induction p rule: components.induct)
  case (1 p)
  show ?case
  proof (cases "p = []")
    case False
    then have l: "list_all safe_name (components p)" using "1.prems" by (simp add: safe_path_def)
    then have "safe_name (head_part p)" by (simp add: components.simps [of p])
    moreover have "component_loop r" if "tail_part p = Some r" for r
      using 1 that l by (auto simp: components.simps [of p] safe_path_def)
    ultimately show ?thesis by (auto simp: component_loop.simps [of p] safe_name_def split: option.splits)
  qed (simp add: component_loop.simps [of "[]"])
qed

lemma safe_dropped: "safe_components p \<Longrightarrow> safe_path (drop_slash p)"
proof (induction p rule: components.induct)
  case (1 p)
  show ?case
  proof (cases "p = []")
    case False
    have h: "safe_name (head_part p)"
      using "1.prems" False head_part_no_slash [of p]
      by (auto simp: safe_name_def safe_components_def list_all_iff component_loop.simps [of p] head_part_def split: if_splits dest!: set_takeWhileD)
    then have n: "head_part p \<noteq> []" by (simp add: safe_name_def)
    show ?thesis
    proof (cases "tail_part p")
      case None
      then have p: "p = head_part p" using parts [of p] by simp
      moreover have "last p \<noteq> SLASH" using p n head_part_no_slash [of p] last_in_set [of p] by metis
      ultimately have "drop_slash p = p" by (simp add: drop_slash_def)
      then show ?thesis using h None by (simp add: safe_path_def components.simps [of p])
    next
      case (Some r)
      have p: "p = head_part p @ SLASH # r" using parts [of p] Some by simp
      then have "safe_components r" using safe_components_tail [of "head_part p" r] "1.prems" head_part_no_slash [of p] by simp
      then have r: "safe_path (drop_slash r)" using "1.IH" Some by blast
      show ?thesis
      proof (cases "r = []")
        case True
        then have "drop_slash p = head_part p" using p drop_slash_snoc by metis
        then show ?thesis using h parts_plain [OF head_part_no_slash, of p] by (simp add: safe_path_def components.simps [of "head_part p"])
      next
        case False
        then have d: "drop_slash p = head_part p @ SLASH # drop_slash r"
          using p drop_slash_append [of "SLASH # r" "head_part p"] drop_slash_append [of r "[SLASH]"] by simp
        have "drop_slash r \<noteq> []" using safe_dropped_nonempty [OF \<open>safe_components r\<close> False] .
        then have "list_all safe_name (components (head_part p) @ components (drop_slash r))"
          using r h parts_plain [OF head_part_no_slash, of p] by (simp add: safe_path_def components.simps [of "head_part p"])
        then show ?thesis unfolding d safe_path_def components_slash by blast
      qed
    qed
  qed (simp add: safe_path_def)
qed

lemma safe_path_join: "safe_path a \<Longrightarrow> safe_path b \<Longrightarrow> a \<noteq> [] \<Longrightarrow> b \<noteq> [] \<Longrightarrow> safe_path (a @ SLASH # b)"
  by (auto simp: safe_path_def components_slash)

section \<open>Addresses\<close>

lemma base_address_safe:
  assumes "base_address c = Inr b"
  shows "safe_path (sa_relative b)"
proof -
  obtain sp where s: "safe_components (drop 6 (sc_path c))" "tail_part (drop 6 (sc_path c)) = Some sp"
    and r: "sa_relative b = drop_slash (case tail_part sp of None \<Rightarrow> [] | Some r \<Rightarrow> r)"
    using assms by (auto simp: base_address_def Let_def split: if_splits option.splits prod.splits)
  have "safe_components sp"
    using s parts [of "drop 6 (sc_path c)"] safe_components_tail [OF _ head_part_no_slash, of "drop 6 (sc_path c)" sp] by simp
  then have "safe_components r'" if "tail_part sp = Some r'" for r'
    using parts [of sp] that safe_components_tail [OF _ head_part_no_slash, of sp r'] by simp
  moreover have "safe_components []" by (simp add: safe_components_def component_loop.simps [of "[]"])
  ultimately have "safe_components (case tail_part sp of None \<Rightarrow> [] | Some r \<Rightarrow> r)" by (cases "tail_part sp") simp_all
  then show ?thesis using safe_dropped r by simp
qed

lemma parse_address_shape:
  assumes "sm_smb_parse_address conns path = Inr a"
  obtains nm below b where
    "nm = head_part (drop 6 path)" "below = (case tail_part (drop 6 path) of None \<Rightarrow> [] | Some r \<Rightarrow> r)"
    "nm \<noteq> []" "length nm < 64" "safe_components below" "active_address conns nm = Inr b"
    "a = b\<lparr>sa_relative := drop_slash (sa_relative b @ (if sa_relative b \<noteq> [] \<and> below \<noteq> [] then [SLASH] else []) @ below),
       sa_path := drop_slash (''smb://'' @ nm @ (if below \<noteq> [] then [SLASH] else []) @ below)\<rparr>"
    "length (sa_relative b @ (if sa_relative b \<noteq> [] \<and> below \<noteq> [] then [SLASH] else []) @ below) < MAX_PATH"
    "length (''smb://'' @ nm @ (if below \<noteq> [] then [SLASH] else []) @ below) < MAX_PATH"
proof -
  have "safe_components []" by (simp add: safe_components_def component_loop.simps [of "[]"])
  then show ?thesis
    using assms that by (auto simp: sm_smb_parse_address_def Let_def split: if_splits sum.splits option.splits)
qed

lemma joined_relative:
  assumes "safe_path b" "safe_components below"
  shows "safe_path (drop_slash (b @ (if b \<noteq> [] \<and> below \<noteq> [] then [SLASH] else []) @ below))
    \<and> (b = [] \<or> (\<exists>r. drop_slash (b @ (if b \<noteq> [] \<and> below \<noteq> [] then [SLASH] else []) @ below) = b @ r \<and> (r = [] \<or> hd r = SLASH)))"
proof (cases "b = [] \<or> below = []")
  case True
  then show ?thesis
  proof
    assume b: "below = []"
    then show ?thesis using safe_path_ends [OF assms(1)] assms(1) by auto
  qed (use safe_dropped [OF assms(2)] in simp)
next
  case False
  have d: "drop_slash (b @ SLASH # below) = b @ SLASH # drop_slash below"
    using False drop_slash_append [of "SLASH # below" b] drop_slash_append [of below "[SLASH]"] by simp
  then show ?thesis using safe_dropped_nonempty [OF assms(2)] False d safe_path_join [OF assms(1) safe_dropped [OF assms(2)]] by simp
qed

text \<open>
  C26. No address leaves the directory its connection is for. Whatever text follows \<^verbatim>\<open>smb://\<close>, a path that is accepted belongs to
  an active connection of the configuration, on the server and the share of this connection; it is the directory of the
  connection or lies below it, and none of its components is empty, \<^verbatim>\<open>.\<close> or \<^verbatim>\<open>..\<close> or holds a backslash.
\<close>
theorem smb_address_confined:
  assumes "sm_smb_parse_address conns path = Inr a"
  shows "\<exists>c \<in> set conns. sc_active c \<and> (\<exists>b. base_address c = Inr b
    \<and> sa_server a = sa_server b \<and> sa_share a = sa_share b
    \<and> (sa_relative a = [] \<or> list_all safe_name (components (sa_relative a)))
    \<and> (sa_relative b = [] \<or> (\<exists>r. sa_relative a = sa_relative b @ r \<and> (r = [] \<or> hd r = SLASH))))"
proof -
  from assms obtain nm below b where p: "safe_components below" "active_address conns nm = Inr b"
    "a = b\<lparr>sa_relative := drop_slash (sa_relative b @ (if sa_relative b \<noteq> [] \<and> below \<noteq> [] then [SLASH] else []) @ below),
       sa_path := drop_slash (''smb://'' @ nm @ (if below \<noteq> [] then [SLASH] else []) @ below)\<rparr>"
    by (rule parse_address_shape)
  obtain c where c: "c \<in> set conns" "sc_active c" "base_address c = Inr b"
    using p(2) by (auto simp: active_address_def sm_config_smb_get_def find_Some_iff split: sum.splits option.splits if_splits)
      (meson nth_mem)
  have "safe_path (sa_relative a) \<and> (sa_relative b = [] \<or> (\<exists>r. sa_relative a = sa_relative b @ r \<and> (r = [] \<or> hd r = SLASH)))"
    using joined_relative [OF base_address_safe [OF c(3)] p(1)] by (simp add: p(3))
  then show ?thesis using c p(3) by (auto simp: safe_path_def intro!: bexI [of _ c])
qed

definition sample_connection :: smb_connection where
  "sample_connection = \<lparr>sc_name = ''nas'', sc_path = ''smb://Box/games/ps5'', sc_username = ''home'' @ [CHR 0x5C] @ ''me'',
     sc_password = ''x'', sc_active = True, sc_read_only = True\<rparr>"

theorem smb_address_confined_witness:
  "\<exists>a. sm_smb_parse_address [sample_connection] ''smb://NAS/new/a.exfat/'' = Inr a
     \<and> sa_relative a = ''ps5/new/a.exfat'' \<and> list_all safe_name (components (sa_relative a))"
proof -
  have p: "map_sum id (\<lambda>a. (sa_relative a, sa_server a)) (sm_smb_parse_address [sample_connection] ''smb://NAS/new/a.exfat/'') = Inr (''ps5/new/a.exfat'', ''box'')"
    by code_simp
  then obtain a where "sm_smb_parse_address [sample_connection] ''smb://NAS/new/a.exfat/'' = Inr a" "sa_relative a = ''ps5/new/a.exfat''"
    by (cases "sm_smb_parse_address [sample_connection] ''smb://NAS/new/a.exfat/''") auto
  then show ?thesis using smb_address_confined [of "[sample_connection]" "''smb://NAS/new/a.exfat/''" a] by auto
qed

section \<open>Normal form\<close>

lemma safe_again: "safe_components p \<Longrightarrow> safe_components (drop_slash p)"
  using safe_path_loop [OF safe_dropped] by (auto simp: safe_components_def drop_slash_def list_all_iff dest: in_set_butlastD)

text \<open>
  The normal form of an address is one: what \<^verbatim>\<open>sm_smb_normalize\<close> makes of an accepted path is accepted again, as the same
  address, and is its own normal form.
\<close>
theorem smb_normalize_idempotent:
  assumes "sm_smb_parse_address conns path = Inr a"
  shows "sm_smb_parse_address conns (sa_path a) = Inr a \<and> sm_smb_normalize conns (sa_path a) = Inr (sa_path a)"
proof -
  from assms obtain nm below b where p: "nm = head_part (drop 6 path)" "nm \<noteq> []" "length nm < 64" "safe_components below"
    "active_address conns nm = Inr b"
    "a = b\<lparr>sa_relative := drop_slash (sa_relative b @ (if sa_relative b \<noteq> [] \<and> below \<noteq> [] then [SLASH] else []) @ below),
       sa_path := drop_slash (''smb://'' @ nm @ (if below \<noteq> [] then [SLASH] else []) @ below)\<rparr>"
    "length (sa_relative b @ (if sa_relative b \<noteq> [] \<and> below \<noteq> [] then [SLASH] else []) @ below) < MAX_PATH"
    "length (''smb://'' @ nm @ (if below \<noteq> [] then [SLASH] else []) @ below) < MAX_PATH"
    by (rule parse_address_shape)
  have n: "SLASH \<notin> set nm" using p(1) head_part_no_slash by simp
  have dd: "drop_slash (drop_slash below) = drop_slash below" using safe_path_ends [OF safe_dropped [OF p(4)]] .
  have len: "length (drop_slash below) \<le> length below" by (simp add: drop_slash_def)
  have "sm_smb_parse_address conns (sa_path a) = Inr a"
  proof (cases "below = []")
    case True
    have "last nm \<noteq> SLASH" using n p(2) last_in_set by metis
    then have "sa_path a = ''smb://'' @ nm" using True p(2,6) by (simp add: drop_slash_def)
    then show ?thesis using True p parts_plain [OF n] by (simp add: sm_smb_parse_address_def sm_smb_path_def starts_with_def Let_def drop_slash_def)
  next
    case False
    have path: "sa_path a = ''smb://'' @ nm @ SLASH # drop_slash below"
      using False p(6) drop_slash_append [of below "''smb://'' @ nm @ [SLASH]"] by simp
    have rel: "sa_relative a = drop_slash (sa_relative b @ (if sa_relative b \<noteq> [] then [SLASH] else []) @ drop_slash below)"
      using False p(6) drop_slash_append [of below "sa_relative b @ [SLASH]"] drop_slash_append [of "drop_slash below" "sa_relative b @ [SLASH]"]
        safe_dropped_nonempty [OF p(4) False] dd by simp
    have "length (sa_relative b @ (if sa_relative b \<noteq> [] then [SLASH] else []) @ drop_slash below) < MAX_PATH"
      "length (sa_path a) < MAX_PATH"
      using p(7,8) len False path by (simp_all split: if_splits)
    moreover have "drop_slash (sa_path a) = sa_path a"
      using path drop_slash_append [of "drop_slash below" "''smb://'' @ nm @ [SLASH]"] safe_dropped_nonempty [OF p(4) False] dd by simp
    ultimately show ?thesis
      using False p parts_slash [OF n, of "drop_slash below"] safe_dropped_nonempty [OF p(4) False] safe_again [OF p(4)] rel path
      by (simp add: sm_smb_parse_address_def sm_smb_path_def starts_with_def Let_def)
  qed
  moreover have "length (sa_path a) < MAX_PATH" using p(6,8) by (auto simp: drop_slash_def split: if_splits)
  ultimately show ?thesis by (simp add: sm_smb_normalize_def strlcpy_id)
qed

theorem smb_normalize_idempotent_witness:
  "sm_smb_normalize [sample_connection] ''smb://NAS/new/a.exfat'' = Inr ''smb://NAS/new/a.exfat''"
proof -
  have "map_sum id (\<lambda>a. sa_path a) (sm_smb_parse_address [sample_connection] ''smb://NAS/new/a.exfat/'') = Inr ''smb://NAS/new/a.exfat''"
    by code_simp
  then obtain a where "sm_smb_parse_address [sample_connection] ''smb://NAS/new/a.exfat/'' = Inr a" "sa_path a = ''smb://NAS/new/a.exfat''"
    by (cases "sm_smb_parse_address [sample_connection] ''smb://NAS/new/a.exfat/''") auto
  then show ?thesis using smb_normalize_idempotent [of "[sample_connection]" "''smb://NAS/new/a.exfat/''" a] by auto
qed

end
