(* ===== verification/Config_Values.thy ===== *)
theory Config_Values
  imports Ini_File Image_Profile Game_Info Languages Smb_Address
begin

text \<open>
  \<^verbatim>\<open>src/sm_config_mount.c\<close>, the values: how the two documents \<^verbatim>\<open>config.ini\<close> and \<^verbatim>\<open>profiles.ini\<close> become the configuration the
  program runs with. The settings of both are flattened to a list of keys and values in the names of the first version
  of the file, and each is parsed, checked and stored; one setting that cannot be used makes the whole configuration invalid. Log lines are left
  out. Counted arrays are lists; the table of image rules has its fixed number of slots.
\<close>

section \<open>Data\<close>

datatype fakelib_mode = SM_FAKELIB_FULL | SM_FAKELIB_EMULATORS | SM_FAKELIB_DISABLED | SM_FAKELIB_DEFAULT

record runtime_config =
  c_api_enabled :: bool
  c_debug_enabled :: bool
  c_quiet_mode :: bool
  c_library_sync_notification :: bool
  c_mount_read_only :: bool
  c_force_mount :: bool
  c_persistent_image_mounts :: bool
  c_app_install_all_enabled :: bool
  c_auto_remove_missing_games :: bool
  c_auto_remove_games_with_dlc :: bool
  c_backport_fakelib_enabled :: bool
  c_global_fakelib_enabled :: bool
  c_global_fakelib_game_priority :: bool
  c_update_emulators_enabled :: bool
  c_auto_update_ampr_enabled :: bool
  c_api_bind_address :: string
  c_api_port :: u32
  c_global_fakelib_path :: string
  c_emulators_path :: string
  c_ampr_update_url :: string
  c_fakelib_default_mode :: fakelib_mode
  c_fakelib_rules :: "(string \<times> fakelib_mode) list"
  c_global_fakelib_exclude_title_ids :: "string list"
  c_scan_depth :: u32
  c_scan_interval_us :: u32
  c_stability_wait_seconds :: u32
  c_auto_remove_missing_delay_seconds :: u32
  c_fan_target_temperature_c :: u32
  c_language_id :: int
  c_exfat_backend :: attach_backend
  c_ufs_backend :: attach_backend
  c_nested_pfs_index_cache_enabled :: bool
  c_lvd_sector_exfat :: u32
  c_lvd_sector_ufs :: u32
  c_lvd_sector_pfs :: u32
  c_md_sector_exfat :: u32
  c_md_sector_ufs :: u32

record image_mode_rule =
  ir_filename :: string
  ir_read_only :: bool
  ir_mode_valid :: bool
  ir_sector_size :: u32
  ir_sector_size_valid :: bool
  ir_valid :: bool

record config_state =
  cs_cfg :: runtime_config
  cs_scan_paths :: "string list"
  cs_custom_scan_path_count :: nat
  cs_rules :: "image_mode_rule list"
  cs_smb :: "smb_connection list"

abbreviation MAX_SCAN_PATHS :: nat where "MAX_SCAN_PATHS \<equiv> 256"
abbreviation MAX_IMAGE_MODE_RULES :: nat where "MAX_IMAGE_MODE_RULES \<equiv> 128"
abbreviation MAX_FAKELIB_EXCLUDE_RULES :: nat where "MAX_FAKELIB_EXCLUDE_RULES \<equiv> 128"
abbreviation SM_SMB_CONNECTIONS_MAX :: nat where "SM_SMB_CONNECTIONS_MAX \<equiv> 16"
abbreviation MAX_API_BIND_ADDRESS :: nat where "MAX_API_BIND_ADDRESS \<equiv> 16"
abbreviation MIN_SCAN_DEPTH :: u32 where "MIN_SCAN_DEPTH \<equiv> 1"
abbreviation MAX_SCAN_DEPTH :: u32 where "MAX_SCAN_DEPTH \<equiv> 2"
abbreviation MIN_SCAN_INTERVAL_SECONDS :: u32 where "MIN_SCAN_INTERVAL_SECONDS \<equiv> 1"
abbreviation MAX_SCAN_INTERVAL_SECONDS :: u32 where "MAX_SCAN_INTERVAL_SECONDS \<equiv> 3600"
abbreviation MAX_STABILITY_WAIT_SECONDS :: u32 where "MAX_STABILITY_WAIT_SECONDS \<equiv> 3600"
abbreviation MIN_AUTO_REMOVE_MISSING_DELAY_SECONDS :: u32 where "MIN_AUTO_REMOVE_MISSING_DELAY_SECONDS \<equiv> 1"
abbreviation MAX_AUTO_REMOVE_MISSING_DELAY_SECONDS :: u32 where "MAX_AUTO_REMOVE_MISSING_DELAY_SECONDS \<equiv> 86400"
abbreviation FAN_TARGET_TEMPERATURE_SYSTEM :: u32 where "FAN_TARGET_TEMPERATURE_SYSTEM \<equiv> 0"
abbreviation MIN_FAN_TARGET_TEMPERATURE_C :: u32 where "MIN_FAN_TARGET_TEMPERATURE_C \<equiv> 50"
abbreviation MAX_FAN_TARGET_TEMPERATURE_C :: u32 where "MAX_FAN_TARGET_TEMPERATURE_C \<equiv> 91"

definition DEFAULT_BACKPORT_SCAN_PATH :: string where "DEFAULT_BACKPORT_SCAN_PATH = ''/data/homebrew''"
definition DEFAULT_GLOBAL_FAKELIB_PATH :: string where "DEFAULT_GLOBAL_FAKELIB_PATH = ''/data/shadowmount/fakelib''"
definition DEFAULT_EMULATORS_PATH :: string where "DEFAULT_EMULATORS_PATH = ''/data/shadowmount/emus''"
definition DEFAULT_AMPR_UPDATE_URL :: string where
  "DEFAULT_AMPR_UPDATE_URL = ''https://github.com/drakmor/ampr_emu/releases/latest/download/libSceAmpr.sprx''"

definition k_default_scan_paths :: "string list" where
  "k_default_scan_paths =
     [DEFAULT_BACKPORT_SCAN_PATH, ''/data/etaHEN/games'', ''/mnt/ext0/homebrew'', ''/mnt/ext0/etaHEN/games'',
      ''/mnt/ext1/homebrew'', ''/mnt/ext1/etaHEN/games'',
      ''/mnt/usb0/homebrew'', ''/mnt/usb1/homebrew'', ''/mnt/usb2/homebrew'', ''/mnt/usb3/homebrew'',
      ''/mnt/usb4/homebrew'', ''/mnt/usb5/homebrew'', ''/mnt/usb6/homebrew'', ''/mnt/usb7/homebrew'',
      ''/mnt/usb0/etaHEN/games'', ''/mnt/usb1/etaHEN/games'', ''/mnt/usb2/etaHEN/games'', ''/mnt/usb3/etaHEN/games'',
      ''/mnt/usb4/etaHEN/games'', ''/mnt/usb5/etaHEN/games'', ''/mnt/usb6/etaHEN/games'', ''/mnt/usb7/etaHEN/games'',
      ''/mnt/usb0'', ''/mnt/usb1'', ''/mnt/usb2'', ''/mnt/usb3'', ''/mnt/usb4'', ''/mnt/usb5'', ''/mnt/usb6'', ''/mnt/usb7'',
      ''/mnt/ext0'', ''/mnt/ext1'']"

section \<open>C library\<close>

text \<open>\<^verbatim>\<open>isalnum\<close>, \<^verbatim>\<open>toupper\<close> and the digits of \<^verbatim>\<open>strtoul\<close> in the C locale.\<close>

definition isalnum :: "char \<Rightarrow> bool" where
  "isalnum c \<longleftrightarrow> (let n = of_char c :: nat in 48 \<le> n \<and> n \<le> 57 \<or> 65 \<le> n \<and> n \<le> 90 \<or> 97 \<le> n \<and> n \<le> 122)"

definition toupper :: "char \<Rightarrow> char" where
  "toupper c = (let n = of_char c :: nat in if 97 \<le> n \<and> n \<le> 122 then char_of (n - 32) else c)"

definition digit_value :: "char \<Rightarrow> nat" where
  "digit_value c =
     (let n = of_char c :: nat in
      if 48 \<le> n \<and> n \<le> 57 then n - 48 else if 97 \<le> n \<and> n \<le> 122 then n - 87 else if 65 \<le> n \<and> n \<le> 90 then n - 55 else 36)"

definition number_of :: "nat \<Rightarrow> string \<Rightarrow> nat" where
  "number_of base s = fold (\<lambda>c n. base * n + digit_value c) s 0"

text \<open>\<^verbatim>\<open>strtoul(s, &end, 0)\<close>: the value and the text behind it; \<open>None\<close> when there is no number or it is out of range.\<close>

definition strtoul0 :: "string \<Rightarrow> (nat \<times> string) option" where
  "strtoul0 s =
     (let s1 = dropWhile isspace s;
          neg = (s1 \<noteq> [] \<and> hd s1 = CHR ''-'');
          s2 = (if s1 \<noteq> [] \<and> (hd s1 = CHR ''-'' \<or> hd s1 = CHR ''+'') then tl s1 else s1);
          hex = (length s2 > 2 \<and> hd s2 = CHR ''0'' \<and> (s2 ! 1 = CHR ''x'' \<or> s2 ! 1 = CHR ''X'') \<and> digit_value (s2 ! 2) < 16);
          base = (if hex then 16 else if s2 \<noteq> [] \<and> hd s2 = CHR ''0'' then 8 else 10);
          digits = takeWhile (\<lambda>c. digit_value c < base) (if hex then drop 2 s2 else s2);
          v = number_of base digits
      in if digits = [] \<or> v \<ge> 2 ^ 64 then None
         else Some (if neg then (2 ^ 64 - v) mod 2 ^ 64 else v, dropWhile (\<lambda>c. digit_value c < base) (if hex then drop 2 s2 else s2)))"

text \<open>\<^verbatim>\<open>inet_pton(AF_INET, ...)\<close>: four decimal numbers without leading zeros.\<close>

fun octets :: "string \<Rightarrow> string \<Rightarrow> string list" where
  "octets cur [] = [rev cur]"
| "octets cur (c # s) = (if c = CHR ''.'' then rev cur # octets [] s else octets (c # cur) s)"

definition octet_ok :: "string \<Rightarrow> bool" where
  "octet_ok p \<longleftrightarrow> p \<noteq> [] \<and> list_all is_digit p \<and> (length p > 1 \<longrightarrow> hd p \<noteq> CHR ''0'') \<and> number_of 10 p \<le> 255"

definition inet_pton4 :: "string \<Rightarrow> bool" where
  "inet_pton4 s \<longleftrightarrow> length (octets [] s) = 4 \<and> list_all octet_ok (octets [] s)"

text \<open>\<^verbatim>\<open>strncasecmp(s, pre, strlen(pre)) == 0\<close>.\<close>

definition starts_case :: "string \<Rightarrow> string \<Rightarrow> bool" where
  "starts_case pre s \<longleftrightarrow> strcaseeq (take (length pre) s) pre"

section \<open>Values\<close>

definition ascii_blank :: "char \<Rightarrow> bool" where
  "ascii_blank c \<longleftrightarrow> c = CHR '' '' \<or> c = CHR 0x09 \<or> c = CHR 0x0D \<or> c = CHR 0x0A"

definition trim_ascii :: "string \<Rightarrow> string" where
  "trim_ascii s = rev (dropWhile ascii_blank (rev (dropWhile ascii_blank s)))"

definition normalize_title_id_value :: "string \<Rightarrow> string option" where
  "normalize_title_id_value val =
     (if length val \<ge> MAX_TITLE_ID then None
      else
        (let trimmed = trim_ascii val
         in if trimmed = [] \<or> \<not> list_all isalnum trimmed then None else Some (map toupper trimmed)))"

definition normalize_image_filename_value :: "string \<Rightarrow> string option" where
  "normalize_image_filename_value val =
     (if length val \<ge> MAX_PATH then None
      else
        (let filename = get_filename_component (trim_ascii val) in if filename = [] then None else Some filename))"

text \<open>Trailing slashes, while more than one character is left.\<close>

definition strip_slashes :: "string \<Rightarrow> string" where
  "strip_slashes s = (if s = [] then [] else hd s # rev (dropWhile (\<lambda>c. c = CHR ''/'') (rev (tl s))))"

definition normalize_absolute_path_value :: "string \<Rightarrow> string option" where
  "normalize_absolute_path_value val =
     (if length val \<ge> MAX_PATH then None
      else
        (let trimmed = trim_ascii val in
         if trimmed = [] \<or> hd trimmed \<noteq> CHR ''/'' \<or> list_ex (\<lambda>c. control_char c \<or> c = CHR ''#'') trimmed then None
         else Some (strip_slashes trimmed)))"

definition normalize_http_url_value :: "string \<Rightarrow> string option" where
  "normalize_http_url_value val =
     (if length val \<ge> MAX_PATH then None
      else
        (let trimmed = trim_ascii val;
             authority = (if starts_case ''https://'' trimmed then Some (drop 8 trimmed)
                          else if starts_case ''http://'' trimmed then Some (drop 7 trimmed) else None)
         in (case authority of
               None \<Rightarrow> None
             | Some a \<Rightarrow>
                 if a = [] \<or> hd a \<in> set ''/?#'' \<or> list_ex (\<lambda>c. control_char c \<or> isspace c) trimmed then None
                 else Some trimmed)))"

definition parse_bool_ini :: "string \<Rightarrow> bool option" where
  "parse_bool_ini val =
     (if val = ''1'' \<or> strcaseeq val ''true'' \<or> strcaseeq val ''yes'' \<or> strcaseeq val ''on'' \<or> strcaseeq val ''ro'' then Some True
      else if val = ''0'' \<or> strcaseeq val ''false'' \<or> strcaseeq val ''no'' \<or> strcaseeq val ''off'' \<or> strcaseeq val ''rw'' then Some False
      else None)"

definition parse_u32_ini :: "string \<Rightarrow> u32 option" where
  "parse_u32_ini val =
     (case strtoul0 val of
        Some (v, rest) \<Rightarrow> if rest \<noteq> [] \<or> v > 0xFFFFFFFF then None else Some (of_nat v)
      | None \<Rightarrow> None)"

definition is_valid_sector_size :: "u32 \<Rightarrow> bool" where
  "is_valid_sector_size n \<longleftrightarrow> \<not> (n < 512 \<or> n > 1024 * 1024) \<and> n AND (n - 1) = 0"

definition parse_image_sector_rule_value :: "string \<Rightarrow> (string \<times> u32) option" where
  "parse_image_sector_rule_value val =
     (if length val \<ge> MAX_PATH \<or> CHR '':'' \<notin> set val then None
      else
        (let sector_value = after_last (CHR '':'') val;
             filename = take (length val - length sector_value - 1) val
         in (case normalize_image_filename_value (trim_ascii filename) of
               None \<Rightarrow> None
             | Some f \<Rightarrow>
                 (case parse_u32_ini (trim_ascii sector_value) of
                    Some n \<Rightarrow> if is_valid_sector_size n then Some (f, n) else None
                  | None \<Rightarrow> None))))"

definition parse_backend_ini :: "string \<Rightarrow> attach_backend option" where
  "parse_backend_ini val =
     (if strcaseeq val ''lvd'' then Some ATTACH_BACKEND_LVD
      else if strcaseeq val ''md'' \<or> strcaseeq val ''mdctl'' then Some ATTACH_BACKEND_MD
      else None)"

fun sm_config_fakelib_mode_name :: "fakelib_mode \<Rightarrow> string" where
  "sm_config_fakelib_mode_name SM_FAKELIB_FULL = ''full''"
| "sm_config_fakelib_mode_name SM_FAKELIB_EMULATORS = ''emulators''"
| "sm_config_fakelib_mode_name SM_FAKELIB_DISABLED = ''disabled''"
| "sm_config_fakelib_mode_name SM_FAKELIB_DEFAULT = ''default''"

definition sm_config_parse_fakelib_mode :: "string \<Rightarrow> fakelib_mode option" where
  "sm_config_parse_fakelib_mode val =
     find (\<lambda>m. strcaseeq val (sm_config_fakelib_mode_name m))
       [SM_FAKELIB_FULL, SM_FAKELIB_EMULATORS, SM_FAKELIB_DISABLED, SM_FAKELIB_DEFAULT]"

section \<open>Tables of the configuration\<close>

definition add_runtime_scan_path :: "string \<Rightarrow> string list \<Rightarrow> string list option" where
  "add_runtime_scan_path raw paths =
     (let p = rev (dropWhile isspace (rev (dropWhile isspace raw))) in
      if p = [] \<or> length p \<ge> MAX_PATH then None
      else
        (let normalized = strip_slashes p in
         if normalized \<in> set paths then Some paths
         else if length paths \<ge> MAX_SCAN_PATHS then None
         else Some (paths @ [normalized])))"

definition try_add_scan_path :: "string \<Rightarrow> string list \<Rightarrow> string list" where
  "try_add_scan_path p paths = (case add_runtime_scan_path p paths of Some ps \<Rightarrow> ps | None \<Rightarrow> paths)"

definition add_runtime_managed_scan_paths :: "string list \<Rightarrow> string list" where
  "add_runtime_managed_scan_paths paths = try_add_scan_path IMAGE_MOUNT_BASE (try_add_scan_path PFSC_IMAGE_MOUNT_BASE paths)"

definition init_runtime_scan_paths_defaults :: "config_state \<Rightarrow> config_state" where
  "init_runtime_scan_paths_defaults s =
     s\<lparr>cs_scan_paths := add_runtime_managed_scan_paths (fold try_add_scan_path k_default_scan_paths []),
       cs_custom_scan_path_count := 0\<rparr>"

definition blank_rule :: image_mode_rule where
  "blank_rule = \<lparr>ir_filename = [], ir_read_only = False, ir_mode_valid = False, ir_sector_size = 0, ir_sector_size_valid = False,
     ir_valid = False\<rparr>"

text \<open>The two loops of both kinds of image rules: the rule of the file, or the first free slot.\<close>

definition update_image_rule :: "string \<Rightarrow> (image_mode_rule \<Rightarrow> image_mode_rule) \<Rightarrow> image_mode_rule list \<Rightarrow> image_mode_rule list option" where
  "update_image_rule filename f rules =
     (case find_index (\<lambda>r. ir_valid r \<and> strcaseeq (ir_filename r) filename) rules of
        Some k \<Rightarrow> Some (rules[k := f (rules ! k)])
      | None \<Rightarrow>
          (case find_index (\<lambda>r. \<not> ir_valid r) rules of
             Some k \<Rightarrow> Some (rules[k := f ((rules ! k)\<lparr>ir_filename := strlcpy filename MAX_PATH, ir_valid := True\<rparr>)])
           | None \<Rightarrow> None))"

definition set_image_mode_rule :: "string \<Rightarrow> bool \<Rightarrow> image_mode_rule list \<Rightarrow> image_mode_rule list option" where
  "set_image_mode_rule p read_only rules =
     (case normalize_image_filename_value p of
        None \<Rightarrow> None
      | Some f \<Rightarrow> update_image_rule f (\<lambda>r. r\<lparr>ir_read_only := read_only, ir_mode_valid := True\<rparr>) rules)"

definition set_image_sector_rule :: "string \<Rightarrow> image_mode_rule list \<Rightarrow> image_mode_rule list option" where
  "set_image_sector_rule val rules =
     (case parse_image_sector_rule_value val of
        None \<Rightarrow> None
      | Some (f, n) \<Rightarrow> update_image_rule f (\<lambda>r. r\<lparr>ir_sector_size := n, ir_sector_size_valid := True\<rparr>) rules)"

definition parse_title_fakelib_rule :: "string \<Rightarrow> string \<Rightarrow> (string \<times> fakelib_mode) option" where
  "parse_title_fakelib_rule key val =
     (let title_of = (\<lambda>raw. case normalize_title_id_value raw of
                              Some t \<Rightarrow> if is_supported_game_title_id t then Some t else None
                            | None \<Rightarrow> None) in
      if strcaseeq key ''fakelib_exclude'' then map_option (\<lambda>t. (t, SM_FAKELIB_DISABLED)) (title_of val)
      else if \<not> strcaseeq key ''fakelib_mode'' then None
      else
        (let raw_title = takeWhile (\<lambda>c. c \<noteq> CHR '':'') val in
         if CHR '':'' \<notin> set val \<or> length raw_title \<ge> MAX_TITLE_ID then None
         else
           (case title_of raw_title of
              None \<Rightarrow> None
            | Some t \<Rightarrow> map_option (Pair t) (sm_config_parse_fakelib_mode (drop (Suc (length raw_title)) val)))))"

definition set_title_fakelib_rule ::
  "(string \<times> fakelib_mode) \<Rightarrow> (string \<times> fakelib_mode) list \<Rightarrow> (string \<times> fakelib_mode) list option" where
  "set_title_fakelib_rule tm rules =
     (case find_index (\<lambda>r. fst r = fst tm) rules of
        Some k \<Rightarrow> Some (if snd tm = SM_FAKELIB_DEFAULT then take k rules @ drop (Suc k) rules else rules[k := (fst (rules ! k), snd tm)])
      | None \<Rightarrow>
          if snd tm = SM_FAKELIB_DEFAULT then Some rules
          else if length rules \<ge> MAX_FAKELIB_EXCLUDE_RULES then None
          else Some (rules @ [(strlcpy (fst tm) MAX_TITLE_ID, snd tm)]))"

definition add_global_fakelib_exclude_rule :: "string \<Rightarrow> string list \<Rightarrow> string list option" where
  "add_global_fakelib_exclude_rule val ids =
     (case normalize_title_id_value val of
        None \<Rightarrow> None
      | Some t \<Rightarrow>
          if t \<in> set ids then Some ids
          else if length ids \<ge> MAX_FAKELIB_EXCLUDE_RULES then None
          else Some (ids @ [strlcpy t MAX_TITLE_ID]))"

section \<open>Defaults\<close>

definition default_config :: runtime_config where
  "default_config =
     \<lparr>c_api_enabled = True, c_debug_enabled = True, c_quiet_mode = False, c_library_sync_notification = True, c_mount_read_only = True,
      c_force_mount = False, c_persistent_image_mounts = False, c_app_install_all_enabled = False, c_auto_remove_missing_games = False,
      c_auto_remove_games_with_dlc = False, c_backport_fakelib_enabled = True, c_global_fakelib_enabled = True,
      c_global_fakelib_game_priority = True, c_update_emulators_enabled = True, c_auto_update_ampr_enabled = False,
      c_api_bind_address = ''0.0.0.0'', c_api_port = 10101, c_global_fakelib_path = DEFAULT_GLOBAL_FAKELIB_PATH,
      c_emulators_path = DEFAULT_EMULATORS_PATH, c_ampr_update_url = DEFAULT_AMPR_UPDATE_URL, c_fakelib_default_mode = SM_FAKELIB_FULL,
      c_fakelib_rules = [], c_global_fakelib_exclude_title_ids = [], c_scan_depth = 1, c_scan_interval_us = 15000000,
      c_stability_wait_seconds = 10, c_auto_remove_missing_delay_seconds = 300,
      c_fan_target_temperature_c = FAN_TARGET_TEMPERATURE_SYSTEM, c_language_id = SM_LANGUAGE_AUTO,
      c_exfat_backend = ATTACH_BACKEND_LVD, c_ufs_backend = ATTACH_BACKEND_LVD, c_nested_pfs_index_cache_enabled = False,
      c_lvd_sector_exfat = 512, c_lvd_sector_ufs = 4096, c_lvd_sector_pfs = 4096, c_md_sector_exfat = 512, c_md_sector_ufs = 4096\<rparr>"

definition init_runtime_config_defaults :: config_state where
  "init_runtime_config_defaults =
     init_runtime_scan_paths_defaults
       \<lparr>cs_cfg = default_config, cs_scan_paths = [], cs_custom_scan_path_count = 0,
        cs_rules = replicate MAX_IMAGE_MODE_RULES blank_rule, cs_smb = []\<rparr>"

section \<open>One document of settings\<close>

record config_key =
  ck_section :: string
  ck_key :: string
  ck_legacy :: string

definition ckey :: "string \<Rightarrow> string \<Rightarrow> string \<Rightarrow> config_key" where
  "ckey s k l = \<lparr>ck_section = s, ck_key = k, ck_legacy = l\<rparr>"

definition sm_config_keys :: "config_key list" where
  "sm_config_keys =
     [ckey ''general'' ''debug'' ''debug'', ckey ''general'' ''quiet_mode'' ''quiet_mode'',
      ckey ''general'' ''library_sync_notification'' ''library_sync_notification'', ckey ''general'' ''language'' ''language'',
      ckey ''api'' ''enabled'' ''api_enabled'', ckey ''api'' ''bind_address'' ''api_bind_address'', ckey ''api'' ''port'' ''api_port'',
      ckey ''scan'' ''depth'' ''scan_depth'', ckey ''scan'' ''path'' ''scanpath'',
      ckey ''scan'' ''interval_seconds'' ''scan_interval_seconds'',
      ckey ''scan'' ''stability_wait_seconds'' ''stability_wait_seconds'',
      ckey ''mount'' ''mode'' ''mount_read_only'', ckey ''mount'' ''force'' ''force_mount'',
      ckey ''mount'' ''persistent_images'' ''persistent_image_mounts'',
      ckey ''mount'' ''exfat_backend'' ''exfat_backend'', ckey ''mount'' ''ufs_backend'' ''ufs_backend'',
      ckey ''mount'' ''nested_pfs_index_cache'' ''nested_pfs_index_cache'',
      ckey ''library'' ''install_all'' ''app_install_all'', ckey ''library'' ''remove_missing'' ''auto_remove_missing_games'',
      ckey ''library'' ''remove_with_dlc'' ''auto_remove_games_with_dlc'',
      ckey ''library'' ''remove_delay_seconds'' ''auto_remove_missing_delay_seconds'',
      ckey ''fakelib'' ''enabled'' ''backport_fakelib'', ckey ''fakelib'' ''default_mode'' ''fakelib_default_mode'',
      ckey ''fakelib'' ''global_enabled'' ''global_fakelib'', ckey ''fakelib'' ''global_path'' ''global_fakelib_path'',
      ckey ''fakelib'' ''global_priority'' ''global_fakelib_priority'',
      ckey ''emulators'' ''update_enabled'' ''update_emulators'', ckey ''emulators'' ''path'' ''emulators_path'',
      ckey ''emulators'' ''auto_update_ampr'' ''auto_update_ampr'', ckey ''emulators'' ''ampr_update_url'' ''ampr_update_url'',
      ckey ''fan'' ''target_temperature'' ''fan_target_temperature'',
      ckey ''sectors'' ''lvd_exfat'' ''lvd_exfat_sector_size'', ckey ''sectors'' ''lvd_ufs'' ''lvd_ufs_sector_size'',
      ckey ''sectors'' ''lvd_pfs'' ''lvd_pfs_sector_size'', ckey ''sectors'' ''md_exfat'' ''md_exfat_sector_size'',
      ckey ''sectors'' ''md_ufs'' ''md_ufs_sector_size'']"

definition find_config_key :: "string \<Rightarrow> string \<Rightarrow> config_key option" where
  "find_config_key section key = find (\<lambda>m. strcaseeq section (ck_section m) \<and> strcaseeq key (ck_key m)) sm_config_keys"

text \<open>The document \<^verbatim>\<open>flat\<close> gets a line in its section \<^verbatim>\<open>runtime\<close>, then the rest is flattened.\<close>

definition flat_append :: "ini \<Rightarrow> string \<Rightarrow> string \<Rightarrow> (ini \<Rightarrow> ini res) \<Rightarrow> ini res" where
  "flat_append flat key val rest =
     (case sm_ini_append flat ''runtime'' key val of (Inl e, _) \<Rightarrow> Inl e | (Inr _, flat') \<Rightarrow> rest flat')"

text \<open>\<^verbatim>\<open>sm_ini_get(...) != line->value\<close>: the same name is set again behind the line.\<close>

definition set_again :: "ini_line \<Rightarrow> ini \<Rightarrow> bool" where
  "set_again l ls = (case il_key l of None \<Rightarrow> False | Some k \<Rightarrow> list_ex (line_is (il_section l) k) ls)"

fun flatten_main :: "ini \<Rightarrow> ini \<Rightarrow> ini res" where
  "flatten_main [] flat = Inr flat"
| "flatten_main (l # ls) flat =
     (case il_key l of
        None \<Rightarrow> flatten_main ls flat
      | Some k \<Rightarrow>
          if strcaseeq (il_section l) ''config'' \<or> starts_case ''smb:'' (il_section l) then flatten_main ls flat
          else
            (case find_config_key (il_section l) k of
               None \<Rightarrow> flatten_main ls flat
             | Some m \<Rightarrow>
                 if ck_legacy m \<noteq> ''scanpath'' \<and> set_again l ls then flatten_main ls flat
                 else flat_append flat (ck_legacy m) (il_value l) (flatten_main ls)))"

text \<open>What a line of \<^verbatim>\<open>profiles.ini\<close> means: an error, nothing, or a setting.\<close>

datatype profile_setting = Bad_Profile | No_Setting | Setting string string

definition game_profile :: "string \<Rightarrow> string \<Rightarrow> string \<Rightarrow> profile_setting" where
  "game_profile identity key val =
     (case normalize_title_id_value identity of
        None \<Rightarrow> Bad_Profile
      | Some title \<Rightarrow>
          if \<not> is_supported_game_title_id title then Bad_Profile
          else if strcaseeq key ''fakelib'' then Setting ''fakelib_mode'' (strlcpy (title @ '':'' @ val) (MAX_PATH + 64))
          else if strcaseeq key ''ignore_global_fakelib'' then
            (if strcaseeq val ''default'' then No_Setting
             else (case parse_bool_ini val of
                     None \<Rightarrow> Bad_Profile
                   | Some excluded \<Rightarrow> if excluded then Setting ''global_fakelib_exclude'' title else No_Setting))
          else No_Setting)"

definition image_profile :: "string \<Rightarrow> string \<Rightarrow> string \<Rightarrow> profile_setting" where
  "image_profile identity key val =
     (if CHR ''/'' \<in> set identity then Bad_Profile
      else
        (case normalize_image_filename_value identity of
           None \<Rightarrow> Bad_Profile
         | Some filename \<Rightarrow>
             if strcaseeq val ''default'' then No_Setting
             else if strcaseeq key ''mount_mode'' then
               (if strcaseeq val ''ro'' then Setting ''image_ro'' filename
                else if strcaseeq val ''rw'' then Setting ''image_rw'' filename
                else Bad_Profile)
             else if strcaseeq key ''sector_size'' then Setting ''image_sector'' (strlcpy (filename @ '':'' @ val) (MAX_PATH + 64))
             else No_Setting))"

definition profile_line :: "ini_line \<Rightarrow> string \<Rightarrow> profile_setting" where
  "profile_line l key =
     (if starts_case ''game:'' (il_section l) then game_profile (drop 5 (il_section l)) key (il_value l)
      else if starts_case ''image:'' (il_section l) then image_profile (drop 6 (il_section l)) key (il_value l)
      else No_Setting)"

fun flatten_profiles :: "ini \<Rightarrow> ini \<Rightarrow> ini res" where
  "flatten_profiles [] flat = Inr flat"
| "flatten_profiles (l # ls) flat =
     (case il_key l of
        None \<Rightarrow> flatten_profiles ls flat
      | Some k \<Rightarrow>
          if strcaseeq (il_section l) ''config'' \<or> set_again l ls then flatten_profiles ls flat
          else
            (case profile_line l k of
               Bad_Profile \<Rightarrow> Inl EINVAL
             | No_Setting \<Rightarrow> flatten_profiles ls flat
             | Setting key val \<Rightarrow> flat_append flat key val (flatten_profiles ls)))"

definition flatten_documents :: "ini \<Rightarrow> ini \<Rightarrow> ini res" where
  "flatten_documents main profiles =
     (case flatten_main main [] of Inl e \<Rightarrow> Inl e | Inr flat \<Rightarrow> flatten_profiles profiles flat)"

section \<open>Connections\<close>

definition smb_flag :: "ini \<Rightarrow> string \<Rightarrow> string \<Rightarrow> bool \<Rightarrow> bool option" where
  "smb_flag doc section key dflt =
     (case sm_ini_get doc section key of None \<Rightarrow> Some dflt | Some v \<Rightarrow> parse_bool_ini v)"

definition smb_text :: "ini \<Rightarrow> string \<Rightarrow> string \<Rightarrow> string" where
  "smb_text doc section key = (case sm_ini_get doc section key of None \<Rightarrow> [] | Some v \<Rightarrow> v)"

definition read_smb_connection :: "ini \<Rightarrow> string \<Rightarrow> smb_connection option" where
  "read_smb_connection doc section =
     (case (sm_ini_get doc section ''path'', smb_flag doc section ''active'' True, smb_flag doc section ''read_only'' False) of
        (Some p, Some active, Some ro) \<Rightarrow>
          (let c = \<lparr>sc_name = drop 4 section, sc_path = p, sc_username = smb_text doc section ''username'',
                    sc_password = smb_text doc section ''password'', sc_active = active, sc_read_only = ro\<rparr>
           in if length p \<ge> MAX_PATH \<or> length (sc_username c) \<ge> 256 \<or> length (sc_password c) \<ge> 512
                 \<or> (case sm_smb_validate c of Inl _ \<Rightarrow> True | Inr _ \<Rightarrow> False)
              then None else Some c)
      | _ \<Rightarrow> None)"

fun smb_loop :: "ini \<Rightarrow> ini \<Rightarrow> smb_connection list \<Rightarrow> smb_connection list res" where
  "smb_loop doc [] items = Inr items"
| "smb_loop doc (l # ls) items =
     (if \<not> il_header l \<or> \<not> starts_case ''smb:'' (il_section l) then smb_loop doc ls items
      else if list_ex (\<lambda>c. strcaseeq (sc_name c) (drop 4 (il_section l))) items then smb_loop doc ls items
      else if length items = SM_SMB_CONNECTIONS_MAX then Inl ENOSPC
      else if length (drop 4 (il_section l)) \<ge> 64 then Inl EINVAL
      else (case read_smb_connection doc (il_section l) of None \<Rightarrow> Inl EINVAL | Some c \<Rightarrow> smb_loop doc ls (items @ [c])))"

definition read_smb_connections :: "ini \<Rightarrow> smb_connection list res" where
  "read_smb_connections doc = smb_loop doc doc []"

section \<open>Settings\<close>

text \<open>A setting of the configuration proper: its value and the configuration before it give the one after it, \<open>None\<close> when the value
  is refused.\<close>

type_synonym cfg_setting = "string \<Rightarrow> runtime_config \<Rightarrow> runtime_config option"

definition by_bool :: "(bool \<Rightarrow> runtime_config \<Rightarrow> runtime_config) \<Rightarrow> cfg_setting" where
  "by_bool put v c = map_option (\<lambda>b. put b c) (parse_bool_ini v)"

definition by_u32 :: "(u32 \<Rightarrow> bool) \<Rightarrow> (u32 \<Rightarrow> runtime_config \<Rightarrow> runtime_config) \<Rightarrow> cfg_setting" where
  "by_u32 valid put v c = (case parse_u32_ini v of Some n \<Rightarrow> if valid n then Some (put n c) else None | None \<Rightarrow> None)"

definition by_path :: "(string \<Rightarrow> runtime_config \<Rightarrow> runtime_config) \<Rightarrow> cfg_setting" where
  "by_path put v c = map_option (\<lambda>p. put (strlcpy p MAX_PATH) c) (normalize_absolute_path_value v)"

definition by_backend :: "(attach_backend \<Rightarrow> runtime_config \<Rightarrow> runtime_config) \<Rightarrow> cfg_setting" where
  "by_backend put v c = map_option (\<lambda>b. put b c) (parse_backend_ini v)"

definition set_language :: cfg_setting where
  "set_language v c = map_option (\<lambda>n. c\<lparr>c_language_id := n\<rparr>) (sm_l10n_parse_language_id v)"

definition set_bind_address :: cfg_setting where
  "set_bind_address v c =
     (if length v \<ge> MAX_API_BIND_ADDRESS \<or> \<not> inet_pton4 v then None else Some (c\<lparr>c_api_bind_address := strlcpy v MAX_API_BIND_ADDRESS\<rparr>))"

definition set_fakelib_default_mode :: cfg_setting where
  "set_fakelib_default_mode v c =
     (case sm_config_parse_fakelib_mode v of
        Some m \<Rightarrow> if m \<noteq> SM_FAKELIB_DEFAULT then Some (c\<lparr>c_fakelib_default_mode := m\<rparr>) else None
      | None \<Rightarrow> None)"

definition set_fakelib_rule :: "string \<Rightarrow> cfg_setting" where
  "set_fakelib_rule key v c =
     (case parse_title_fakelib_rule key v of
        None \<Rightarrow> None
      | Some tm \<Rightarrow> map_option (\<lambda>rs. c\<lparr>c_fakelib_rules := rs\<rparr>) (set_title_fakelib_rule tm (c_fakelib_rules c)))"

definition set_priority :: cfg_setting where
  "set_priority v c =
     (if strcaseeq v ''game'' then Some (c\<lparr>c_global_fakelib_game_priority := True\<rparr>)
      else if strcaseeq v ''global'' then Some (c\<lparr>c_global_fakelib_game_priority := False\<rparr>)
      else None)"

definition set_global_exclude :: cfg_setting where
  "set_global_exclude v c =
     map_option (\<lambda>ids. c\<lparr>c_global_fakelib_exclude_title_ids := ids\<rparr>) (add_global_fakelib_exclude_rule v (c_global_fakelib_exclude_title_ids c))"

definition set_update_url :: cfg_setting where
  "set_update_url v c = map_option (\<lambda>u. c\<lparr>c_ampr_update_url := strlcpy u MAX_PATH\<rparr>) (normalize_http_url_value v)"

definition set_fan_target :: cfg_setting where
  "set_fan_target v c =
     (if strcaseeq v ''system'' \<or> strcaseeq v ''auto'' then Some (c\<lparr>c_fan_target_temperature_c := FAN_TARGET_TEMPERATURE_SYSTEM\<rparr>)
      else by_u32 (\<lambda>n. MIN_FAN_TARGET_TEMPERATURE_C \<le> n \<and> n \<le> MAX_FAN_TARGET_TEMPERATURE_C)
             (\<lambda>n c. c\<lparr>c_fan_target_temperature_c := n\<rparr>) v c)"

text \<open>The settings in the order the loop compares their names.\<close>

definition cfg_general_settings :: "(string \<times> cfg_setting) list" where
  "cfg_general_settings =
     [(''debug'', by_bool (\<lambda>b c. c\<lparr>c_debug_enabled := b\<rparr>)),
      (''quiet_mode'', by_bool (\<lambda>b c. c\<lparr>c_quiet_mode := b\<rparr>)),
      (''library_sync_notification'', by_bool (\<lambda>b c. c\<lparr>c_library_sync_notification := b\<rparr>)),
      (''language'', set_language), (''lang'', set_language), (''locale'', set_language),
      (''api_enabled'', by_bool (\<lambda>b c. c\<lparr>c_api_enabled := b\<rparr>)),
      (''api_bind_address'', set_bind_address), (''api_bind_adress'', set_bind_address),
      (''api_port'', by_u32 (\<lambda>n. n \<noteq> 0 \<and> n \<le> 65535) (\<lambda>n c. c\<lparr>c_api_port := n\<rparr>)),
      (''mount_read_only'', by_bool (\<lambda>b c. c\<lparr>c_mount_read_only := b\<rparr>)),
      (''read_only'', by_bool (\<lambda>b c. c\<lparr>c_mount_read_only := b\<rparr>)),
      (''force_mount'', by_bool (\<lambda>b c. c\<lparr>c_force_mount := b\<rparr>)),
      (''persistent_image_mounts'', by_bool (\<lambda>b c. c\<lparr>c_persistent_image_mounts := b\<rparr>)),
      (''app_install_all'', by_bool (\<lambda>b c. c\<lparr>c_app_install_all_enabled := b\<rparr>)),
      (''auto_remove_missing_games'', by_bool (\<lambda>b c. c\<lparr>c_auto_remove_missing_games := b\<rparr>)),
      (''auto_remove_games_with_dlc'', by_bool (\<lambda>b c. c\<lparr>c_auto_remove_games_with_dlc := b\<rparr>))]"

definition cfg_fakelib_settings :: "(string \<times> cfg_setting) list" where
  "cfg_fakelib_settings =
     [(''scan_depth'', by_u32 (\<lambda>n. MIN_SCAN_DEPTH \<le> n \<and> n \<le> MAX_SCAN_DEPTH) (\<lambda>n c. c\<lparr>c_scan_depth := n\<rparr>)),
      (''backport_fakelib'', by_bool (\<lambda>b c. c\<lparr>c_backport_fakelib_enabled := b\<rparr>)),
      (''fakelib_default_mode'', set_fakelib_default_mode),
      (''fakelib_exclude'', set_fakelib_rule ''fakelib_exclude''), (''fakelib_mode'', set_fakelib_rule ''fakelib_mode''),
      (''global_fakelib'', by_bool (\<lambda>b c. c\<lparr>c_global_fakelib_enabled := b\<rparr>)),
      (''global_fakelib_enabled'', by_bool (\<lambda>b c. c\<lparr>c_global_fakelib_enabled := b\<rparr>)),
      (''global_fakelib_path'', by_path (\<lambda>p c. c\<lparr>c_global_fakelib_path := p\<rparr>)),
      (''global_fakelib_priority'', set_priority),
      (''global_fakelib_exclude'', set_global_exclude), (''global_fakelib_exclude_title'', set_global_exclude)]"

definition cfg_emulator_settings :: "(string \<times> cfg_setting) list" where
  "cfg_emulator_settings =
     [(''update_emulators'', by_bool (\<lambda>b c. c\<lparr>c_update_emulators_enabled := b\<rparr>)),
      (''emulators_path'', by_path (\<lambda>p c. c\<lparr>c_emulators_path := p\<rparr>)),
      (''auto_update_ampr'', by_bool (\<lambda>b c. c\<lparr>c_auto_update_ampr_enabled := b\<rparr>)),
      (''ampr_update_url'', set_update_url),
      (''fan_target_temperature'', set_fan_target),
      (''scan_interval_seconds'', by_u32 (\<lambda>n. MIN_SCAN_INTERVAL_SECONDS \<le> n \<and> n \<le> MAX_SCAN_INTERVAL_SECONDS)
         (\<lambda>n c. c\<lparr>c_scan_interval_us := n * 1000000\<rparr>)),
      (''scan_interval_sec'', by_u32 (\<lambda>n. MIN_SCAN_INTERVAL_SECONDS \<le> n \<and> n \<le> MAX_SCAN_INTERVAL_SECONDS)
         (\<lambda>n c. c\<lparr>c_scan_interval_us := n * 1000000\<rparr>)),
      (''stability_wait_seconds'', by_u32 (\<lambda>n. n \<le> MAX_STABILITY_WAIT_SECONDS) (\<lambda>n c. c\<lparr>c_stability_wait_seconds := n\<rparr>)),
      (''stability_wait_sec'', by_u32 (\<lambda>n. n \<le> MAX_STABILITY_WAIT_SECONDS) (\<lambda>n c. c\<lparr>c_stability_wait_seconds := n\<rparr>)),
      (''auto_remove_missing_delay_seconds'',
         by_u32 (\<lambda>n. MIN_AUTO_REMOVE_MISSING_DELAY_SECONDS \<le> n \<and> n \<le> MAX_AUTO_REMOVE_MISSING_DELAY_SECONDS)
           (\<lambda>n c. c\<lparr>c_auto_remove_missing_delay_seconds := n\<rparr>)),
      (''auto_remove_missing_delay_sec'',
         by_u32 (\<lambda>n. MIN_AUTO_REMOVE_MISSING_DELAY_SECONDS \<le> n \<and> n \<le> MAX_AUTO_REMOVE_MISSING_DELAY_SECONDS)
           (\<lambda>n c. c\<lparr>c_auto_remove_missing_delay_seconds := n\<rparr>))]"

definition cfg_device_settings :: "(string \<times> cfg_setting) list" where
  "cfg_device_settings =
     [(''exfat_backend'', by_backend (\<lambda>b c. c\<lparr>c_exfat_backend := b\<rparr>)),
      (''ufs_backend'', by_backend (\<lambda>b c. c\<lparr>c_ufs_backend := b\<rparr>)),
      (''nested_pfs_index_cache'', by_bool (\<lambda>b c. c\<lparr>c_nested_pfs_index_cache_enabled := b\<rparr>)),
      (''legacy_gddr5_cache'', by_bool (\<lambda>b c. c\<lparr>c_nested_pfs_index_cache_enabled := b\<rparr>)),
      (''lvd_exfat_sector_size'', by_u32 is_valid_sector_size (\<lambda>n c. c\<lparr>c_lvd_sector_exfat := n\<rparr>)),
      (''lvd_ufs_sector_size'', by_u32 is_valid_sector_size (\<lambda>n c. c\<lparr>c_lvd_sector_ufs := n\<rparr>)),
      (''lvd_pfs_sector_size'', by_u32 is_valid_sector_size (\<lambda>n c. c\<lparr>c_lvd_sector_pfs := n\<rparr>)),
      (''md_exfat_sector_size'', by_u32 is_valid_sector_size (\<lambda>n c. c\<lparr>c_md_sector_exfat := n\<rparr>)),
      (''md_ufs_sector_size'', by_u32 is_valid_sector_size (\<lambda>n c. c\<lparr>c_md_sector_ufs := n\<rparr>))]"

definition cfg_settings :: "(string \<times> cfg_setting) list" where
  "cfg_settings = cfg_general_settings @ cfg_fakelib_settings @ cfg_emulator_settings @ cfg_device_settings"

lemmas cfg_settings_defs = cfg_settings_def cfg_general_settings_def cfg_fakelib_settings_def cfg_emulator_settings_def cfg_device_settings_def

text \<open>The configuration being built, with \<^verbatim>\<open>has_custom_scanpaths\<close> and \<^verbatim>\<open>invalid\<close>.\<close>

record parse_state =
  ps_state :: config_state
  ps_custom :: bool
  ps_invalid :: bool

definition put_state :: "config_state option \<Rightarrow> parse_state \<Rightarrow> parse_state" where
  "put_state r ps = (case r of None \<Rightarrow> ps\<lparr>ps_invalid := True\<rparr> | Some s \<Rightarrow> ps\<lparr>ps_state := s\<rparr>)"

definition scanpath_setting :: "string \<Rightarrow> parse_state \<Rightarrow> parse_state" where
  "scanpath_setting v ps =
     (let ps1 = (if ps_custom ps then ps
                 else ps\<lparr>ps_state := (ps_state ps)\<lparr>cs_scan_paths := [], cs_custom_scan_path_count := 0\<rparr>, ps_custom := True\<rparr>);
          s = ps_state ps1
      in put_state (map_option (\<lambda>paths. s\<lparr>cs_scan_paths := paths\<rparr>) (add_runtime_scan_path v (cs_scan_paths s))) ps1)"

definition apply_setting :: "string \<Rightarrow> string \<Rightarrow> parse_state \<Rightarrow> parse_state" where
  "apply_setting key v ps =
     (let s = ps_state ps in
      if strcaseeq key ''image_ro'' \<or> strcaseeq key ''image_rw'' then
        put_state (map_option (\<lambda>rs. s\<lparr>cs_rules := rs\<rparr>) (set_image_mode_rule v (strcaseeq key ''image_ro'') (cs_rules s))) ps
      else if strcaseeq key ''image_sector'' then
        put_state (map_option (\<lambda>rs. s\<lparr>cs_rules := rs\<rparr>) (set_image_sector_rule v (cs_rules s))) ps
      else if strcaseeq key ''scanpath'' then scanpath_setting v ps
      else
        (case find (\<lambda>(k, _). strcaseeq key k) cfg_settings of
           None \<Rightarrow> ps
         | Some (_, put) \<Rightarrow> put_state (map_option (\<lambda>c. s\<lparr>cs_cfg := c\<rparr>) (put v (cs_cfg s))) ps))"

definition apply_line :: "ini_line \<Rightarrow> parse_state \<Rightarrow> parse_state" where
  "apply_line l ps = (case il_key l of None \<Rightarrow> ps | Some k \<Rightarrow> apply_setting k (il_value l) ps)"

text \<open>The managed scan paths come behind those of the user.\<close>

definition finish_scan_paths :: "parse_state \<Rightarrow> config_state" where
  "finish_scan_paths ps =
     (let s = ps_state ps;
          s1 = (if ps_custom ps \<and> cs_scan_paths s = [] then init_runtime_scan_paths_defaults s
                else if ps_custom ps then s\<lparr>cs_custom_scan_path_count := length (cs_scan_paths s)\<rparr>
                else s)
      in s1\<lparr>cs_scan_paths := add_runtime_managed_scan_paths (cs_scan_paths s1)\<rparr>)"

definition parse_runtime_config_state :: "ini \<Rightarrow> ini \<Rightarrow> config_state res" where
  "parse_runtime_config_state main profiles =
     (case flatten_documents main profiles of
        Inl e \<Rightarrow> Inl e
      | Inr flat \<Rightarrow>
          (case read_smb_connections main of
             Inl e \<Rightarrow> Inl e
           | Inr smb \<Rightarrow>
               (let ps = fold apply_line flat \<lparr>ps_state = init_runtime_config_defaults\<lparr>cs_smb := smb\<rparr>, ps_custom = False, ps_invalid = False\<rparr>
                in if ps_invalid ps then Inl EINVAL else Inr (finish_scan_paths ps))))"

section \<open>Accepted configurations\<close>

lemma and_pred_power:
  fixes n :: nat
  assumes "n AND (n - 1) = 0" "0 < n"
  shows "\<exists>k. n = 2 ^ k"
  using assms
proof (induction n rule: less_induct)
  case (less n)
  show ?case
  proof (cases "even n")
    case True
    then obtain m where m: "n = 2 * m" by blast
    then have "n - 1 = 2 * (m - 1) + 1" using less.prems(2) by simp
    then have "n AND (n - 1) = 2 * (m AND (m - 1))" using m by (simp add: and_rec [of "2 * m"])
    then have "\<exists>k. m = 2 ^ k" using less.IH [of m] less.prems m by simp
    then show ?thesis using m by (metis power_Suc)
  next
    case False
    then obtain m where m: "n = 2 * m + 1" by (metis oddE)
    then have "n AND (n - 1) = 2 * m" by (simp add: and_rec [of "Suc (2 * m)"])
    then have "n = 2 ^ 0" using less.prems m by simp
    then show ?thesis by blast
  qed
qed

lemma sector_size_power:
  assumes "is_valid_sector_size n"
  shows "\<exists>k. 9 \<le> k \<and> k \<le> 20 \<and> unat n = 2 ^ k"
proof -
  have b: "512 \<le> unat n" "unat n \<le> 1048576" using assms by (auto simp: is_valid_sector_size_def word_less_nat_alt not_less)
  have "unat (n AND (n - 1)) = 0" using assms by (simp add: is_valid_sector_size_def)
  moreover have "unat (n - 1) = unat n - 1" using b by (intro unat_minus_one) auto
  ultimately have "unat n AND (unat n - 1) = 0" by (simp add: unsigned_and_eq)
  then obtain k where k: "unat n = 2 ^ k" using and_pred_power b by fastforce
  have "9 \<le> k" "k \<le> 20" using b k power_increasing_iff [of "2::nat" 9 k] power_increasing_iff [of "2::nat" k 20] by simp_all
  then show ?thesis using k by blast
qed

definition absolute_path :: "string \<Rightarrow> bool" where
  "absolute_path p \<longleftrightarrow> p \<noteq> [] \<and> hd p = CHR ''/'' \<and> length p < MAX_PATH \<and> (p = ''/'' \<or> last p \<noteq> CHR ''/'')
     \<and> list_all (\<lambda>c. \<not> control_char c \<and> c \<noteq> CHR ''#'') p"

definition numbers_ok :: "runtime_config \<Rightarrow> bool" where
  "numbers_ok c \<longleftrightarrow>
     1 \<le> unat (c_api_port c) \<and> unat (c_api_port c) \<le> 65535
     \<and> 1 \<le> unat (c_scan_depth c) \<and> unat (c_scan_depth c) \<le> 2
     \<and> (\<exists>n. 1 \<le> n \<and> n \<le> 3600 \<and> unat (c_scan_interval_us c) = n * 1000000)
     \<and> unat (c_stability_wait_seconds c) \<le> 3600
     \<and> 1 \<le> unat (c_auto_remove_missing_delay_seconds c) \<and> unat (c_auto_remove_missing_delay_seconds c) \<le> 86400
     \<and> (c_fan_target_temperature_c c = 0 \<or> 50 \<le> unat (c_fan_target_temperature_c c) \<and> unat (c_fan_target_temperature_c c) \<le> 91)
     \<and> list_all (\<lambda>n. \<exists>k. 9 \<le> k \<and> k \<le> 20 \<and> unat n = 2 ^ k)
         [c_lvd_sector_exfat c, c_lvd_sector_ufs c, c_lvd_sector_pfs c, c_md_sector_exfat c, c_md_sector_ufs c]"

definition names_in_config_ok :: "runtime_config \<Rightarrow> bool" where
  "names_in_config_ok c \<longleftrightarrow>
     inet_pton4 (c_api_bind_address c) \<and> length (c_api_bind_address c) < MAX_API_BIND_ADDRESS
     \<and> absolute_path (c_global_fakelib_path c) \<and> absolute_path (c_emulators_path c) \<and> length (c_ampr_update_url c) < MAX_PATH
     \<and> (c_language_id c = SM_LANGUAGE_AUTO \<or> is_valid_language_id (c_language_id c))
     \<and> c_exfat_backend c \<in> {ATTACH_BACKEND_LVD, ATTACH_BACKEND_MD} \<and> c_ufs_backend c \<in> {ATTACH_BACKEND_LVD, ATTACH_BACKEND_MD}"

definition titles_ok :: "runtime_config \<Rightarrow> bool" where
  "titles_ok c \<longleftrightarrow>
     c_fakelib_default_mode c \<noteq> SM_FAKELIB_DEFAULT
     \<and> length (c_fakelib_rules c) \<le> MAX_FAKELIB_EXCLUDE_RULES \<and> distinct (map fst (c_fakelib_rules c))
     \<and> list_all (\<lambda>(t, m). is_supported_game_title_id t \<and> length t < MAX_TITLE_ID \<and> m \<noteq> SM_FAKELIB_DEFAULT) (c_fakelib_rules c)
     \<and> length (c_global_fakelib_exclude_title_ids c) \<le> MAX_FAKELIB_EXCLUDE_RULES \<and> distinct (c_global_fakelib_exclude_title_ids c)
     \<and> list_all (\<lambda>t. t \<noteq> [] \<and> length t < MAX_TITLE_ID) (c_global_fakelib_exclude_title_ids c)"

definition config_ok :: "runtime_config \<Rightarrow> bool" where
  "config_ok c \<longleftrightarrow> numbers_ok c \<and> names_in_config_ok c \<and> titles_ok c"

lemma numbers_frame [simp]:
  "numbers_ok (c\<lparr>c_api_bind_address := x0\<rparr>) = numbers_ok c" "numbers_ok (c\<lparr>c_global_fakelib_path := x1\<rparr>) = numbers_ok c"
    "numbers_ok (c\<lparr>c_emulators_path := x2\<rparr>) = numbers_ok c" "numbers_ok (c\<lparr>c_ampr_update_url := x3\<rparr>) = numbers_ok c"
    "numbers_ok (c\<lparr>c_language_id := x4\<rparr>) = numbers_ok c" "numbers_ok (c\<lparr>c_exfat_backend := x5\<rparr>) = numbers_ok c"
    "numbers_ok (c\<lparr>c_ufs_backend := x6\<rparr>) = numbers_ok c" "numbers_ok (c\<lparr>c_fakelib_default_mode := x7\<rparr>) = numbers_ok c"
    "numbers_ok (c\<lparr>c_fakelib_rules := x8\<rparr>) = numbers_ok c"
    "numbers_ok (c\<lparr>c_global_fakelib_exclude_title_ids := x9\<rparr>) = numbers_ok c"
    "numbers_ok (c\<lparr>c_api_enabled := x10\<rparr>) = numbers_ok c" "numbers_ok (c\<lparr>c_debug_enabled := x11\<rparr>) = numbers_ok c"
    "numbers_ok (c\<lparr>c_quiet_mode := x12\<rparr>) = numbers_ok c"
    "numbers_ok (c\<lparr>c_library_sync_notification := x13\<rparr>) = numbers_ok c"
    "numbers_ok (c\<lparr>c_mount_read_only := x14\<rparr>) = numbers_ok c" "numbers_ok (c\<lparr>c_force_mount := x15\<rparr>) = numbers_ok c"
    "numbers_ok (c\<lparr>c_persistent_image_mounts := x16\<rparr>) = numbers_ok c"
    "numbers_ok (c\<lparr>c_app_install_all_enabled := x17\<rparr>) = numbers_ok c"
    "numbers_ok (c\<lparr>c_auto_remove_missing_games := x18\<rparr>) = numbers_ok c"
    "numbers_ok (c\<lparr>c_auto_remove_games_with_dlc := x19\<rparr>) = numbers_ok c"
    "numbers_ok (c\<lparr>c_backport_fakelib_enabled := x20\<rparr>) = numbers_ok c"
    "numbers_ok (c\<lparr>c_global_fakelib_enabled := x21\<rparr>) = numbers_ok c"
    "numbers_ok (c\<lparr>c_global_fakelib_game_priority := x22\<rparr>) = numbers_ok c"
    "numbers_ok (c\<lparr>c_update_emulators_enabled := x23\<rparr>) = numbers_ok c"
    "numbers_ok (c\<lparr>c_auto_update_ampr_enabled := x24\<rparr>) = numbers_ok c"
    "numbers_ok (c\<lparr>c_nested_pfs_index_cache_enabled := x25\<rparr>) = numbers_ok c"
  by (simp_all add: numbers_ok_def)

lemma names_frame [simp]:
  "names_in_config_ok (c\<lparr>c_api_port := x0\<rparr>) = names_in_config_ok c"
    "names_in_config_ok (c\<lparr>c_scan_depth := x1\<rparr>) = names_in_config_ok c"
    "names_in_config_ok (c\<lparr>c_scan_interval_us := x2\<rparr>) = names_in_config_ok c"
    "names_in_config_ok (c\<lparr>c_stability_wait_seconds := x3\<rparr>) = names_in_config_ok c"
    "names_in_config_ok (c\<lparr>c_auto_remove_missing_delay_seconds := x4\<rparr>) = names_in_config_ok c"
    "names_in_config_ok (c\<lparr>c_fan_target_temperature_c := x5\<rparr>) = names_in_config_ok c"
    "names_in_config_ok (c\<lparr>c_lvd_sector_exfat := x6\<rparr>) = names_in_config_ok c"
    "names_in_config_ok (c\<lparr>c_lvd_sector_ufs := x7\<rparr>) = names_in_config_ok c"
    "names_in_config_ok (c\<lparr>c_lvd_sector_pfs := x8\<rparr>) = names_in_config_ok c"
    "names_in_config_ok (c\<lparr>c_md_sector_exfat := x9\<rparr>) = names_in_config_ok c"
    "names_in_config_ok (c\<lparr>c_md_sector_ufs := x10\<rparr>) = names_in_config_ok c"
    "names_in_config_ok (c\<lparr>c_fakelib_default_mode := x11\<rparr>) = names_in_config_ok c"
    "names_in_config_ok (c\<lparr>c_fakelib_rules := x12\<rparr>) = names_in_config_ok c"
    "names_in_config_ok (c\<lparr>c_global_fakelib_exclude_title_ids := x13\<rparr>) = names_in_config_ok c"
    "names_in_config_ok (c\<lparr>c_api_enabled := x14\<rparr>) = names_in_config_ok c"
    "names_in_config_ok (c\<lparr>c_debug_enabled := x15\<rparr>) = names_in_config_ok c"
    "names_in_config_ok (c\<lparr>c_quiet_mode := x16\<rparr>) = names_in_config_ok c"
    "names_in_config_ok (c\<lparr>c_library_sync_notification := x17\<rparr>) = names_in_config_ok c"
    "names_in_config_ok (c\<lparr>c_mount_read_only := x18\<rparr>) = names_in_config_ok c"
    "names_in_config_ok (c\<lparr>c_force_mount := x19\<rparr>) = names_in_config_ok c"
    "names_in_config_ok (c\<lparr>c_persistent_image_mounts := x20\<rparr>) = names_in_config_ok c"
    "names_in_config_ok (c\<lparr>c_app_install_all_enabled := x21\<rparr>) = names_in_config_ok c"
    "names_in_config_ok (c\<lparr>c_auto_remove_missing_games := x22\<rparr>) = names_in_config_ok c"
    "names_in_config_ok (c\<lparr>c_auto_remove_games_with_dlc := x23\<rparr>) = names_in_config_ok c"
    "names_in_config_ok (c\<lparr>c_backport_fakelib_enabled := x24\<rparr>) = names_in_config_ok c"
    "names_in_config_ok (c\<lparr>c_global_fakelib_enabled := x25\<rparr>) = names_in_config_ok c"
    "names_in_config_ok (c\<lparr>c_global_fakelib_game_priority := x26\<rparr>) = names_in_config_ok c"
    "names_in_config_ok (c\<lparr>c_update_emulators_enabled := x27\<rparr>) = names_in_config_ok c"
    "names_in_config_ok (c\<lparr>c_auto_update_ampr_enabled := x28\<rparr>) = names_in_config_ok c"
    "names_in_config_ok (c\<lparr>c_nested_pfs_index_cache_enabled := x29\<rparr>) = names_in_config_ok c"
  by (simp_all add: names_in_config_ok_def)

lemma titles_frame [simp]:
  "titles_ok (c\<lparr>c_api_port := x0\<rparr>) = titles_ok c" "titles_ok (c\<lparr>c_scan_depth := x1\<rparr>) = titles_ok c"
    "titles_ok (c\<lparr>c_scan_interval_us := x2\<rparr>) = titles_ok c" "titles_ok (c\<lparr>c_stability_wait_seconds := x3\<rparr>) = titles_ok c"
    "titles_ok (c\<lparr>c_auto_remove_missing_delay_seconds := x4\<rparr>) = titles_ok c"
    "titles_ok (c\<lparr>c_fan_target_temperature_c := x5\<rparr>) = titles_ok c"
    "titles_ok (c\<lparr>c_lvd_sector_exfat := x6\<rparr>) = titles_ok c" "titles_ok (c\<lparr>c_lvd_sector_ufs := x7\<rparr>) = titles_ok c"
    "titles_ok (c\<lparr>c_lvd_sector_pfs := x8\<rparr>) = titles_ok c" "titles_ok (c\<lparr>c_md_sector_exfat := x9\<rparr>) = titles_ok c"
    "titles_ok (c\<lparr>c_md_sector_ufs := x10\<rparr>) = titles_ok c" "titles_ok (c\<lparr>c_api_bind_address := x11\<rparr>) = titles_ok c"
    "titles_ok (c\<lparr>c_global_fakelib_path := x12\<rparr>) = titles_ok c" "titles_ok (c\<lparr>c_emulators_path := x13\<rparr>) = titles_ok c"
    "titles_ok (c\<lparr>c_ampr_update_url := x14\<rparr>) = titles_ok c" "titles_ok (c\<lparr>c_language_id := x15\<rparr>) = titles_ok c"
    "titles_ok (c\<lparr>c_exfat_backend := x16\<rparr>) = titles_ok c" "titles_ok (c\<lparr>c_ufs_backend := x17\<rparr>) = titles_ok c"
    "titles_ok (c\<lparr>c_api_enabled := x18\<rparr>) = titles_ok c" "titles_ok (c\<lparr>c_debug_enabled := x19\<rparr>) = titles_ok c"
    "titles_ok (c\<lparr>c_quiet_mode := x20\<rparr>) = titles_ok c" "titles_ok (c\<lparr>c_library_sync_notification := x21\<rparr>) = titles_ok c"
    "titles_ok (c\<lparr>c_mount_read_only := x22\<rparr>) = titles_ok c" "titles_ok (c\<lparr>c_force_mount := x23\<rparr>) = titles_ok c"
    "titles_ok (c\<lparr>c_persistent_image_mounts := x24\<rparr>) = titles_ok c"
    "titles_ok (c\<lparr>c_app_install_all_enabled := x25\<rparr>) = titles_ok c"
    "titles_ok (c\<lparr>c_auto_remove_missing_games := x26\<rparr>) = titles_ok c"
    "titles_ok (c\<lparr>c_auto_remove_games_with_dlc := x27\<rparr>) = titles_ok c"
    "titles_ok (c\<lparr>c_backport_fakelib_enabled := x28\<rparr>) = titles_ok c"
    "titles_ok (c\<lparr>c_global_fakelib_enabled := x29\<rparr>) = titles_ok c"
    "titles_ok (c\<lparr>c_global_fakelib_game_priority := x30\<rparr>) = titles_ok c"
    "titles_ok (c\<lparr>c_update_emulators_enabled := x31\<rparr>) = titles_ok c"
    "titles_ok (c\<lparr>c_auto_update_ampr_enabled := x32\<rparr>) = titles_ok c"
    "titles_ok (c\<lparr>c_nested_pfs_index_cache_enabled := x33\<rparr>) = titles_ok c"
  by (simp_all add: titles_ok_def)

definition keeps_config :: "cfg_setting \<Rightarrow> bool" where
  "keeps_config put \<longleftrightarrow> (\<forall>v c c'. config_ok c \<longrightarrow> put v c = Some c' \<longrightarrow> config_ok c')"

lemma keeps_by_bool: "(\<And>b c. config_ok c \<Longrightarrow> config_ok (put b c)) \<Longrightarrow> keeps_config (by_bool put)"
  by (auto simp: keeps_config_def by_bool_def)

lemma keeps_by_u32: "(\<And>n c. valid n \<Longrightarrow> config_ok c \<Longrightarrow> config_ok (put n c)) \<Longrightarrow> keeps_config (by_u32 valid put)"
  by (auto simp: keeps_config_def by_u32_def split: option.splits if_splits)

lemma keeps_by_backend:
  "(\<And>b c. b \<in> {ATTACH_BACKEND_LVD, ATTACH_BACKEND_MD} \<Longrightarrow> config_ok c \<Longrightarrow> config_ok (put b c)) \<Longrightarrow> keeps_config (by_backend put)"
  by (auto simp: keeps_config_def by_backend_def parse_backend_ini_def split: if_splits)

lemma trim_ascii_subset: "set (trim_ascii s) \<subseteq> set s" "length (trim_ascii s) \<le> length s"
proof -
  show "set (trim_ascii s) \<subseteq> set s" unfolding trim_ascii_def by (auto dest!: set_dropWhileD)
  show "length (trim_ascii s) \<le> length s" unfolding trim_ascii_def
    by (metis length_dropWhile_le length_rev le_trans)
qed

lemma strip_slashes_props:
  assumes "s \<noteq> []"
  shows "strip_slashes s \<noteq> []" "hd (strip_slashes s) = hd s" "length (strip_slashes s) \<le> length s" "set (strip_slashes s) \<subseteq> set s"
    and "strip_slashes s = [hd s] \<or> last (strip_slashes s) \<noteq> CHR ''/''"
proof -
  obtain c t where s: "s = c # t" using assms by (cases s) auto
  let ?d = "dropWhile (\<lambda>c. c = CHR ''/'') (rev t)"
  have e: "strip_slashes s = c # rev ?d" using s by (simp add: strip_slashes_def)
  show "strip_slashes s \<noteq> []" "hd (strip_slashes s) = hd s" using e s by simp_all
  show "length (strip_slashes s) \<le> length s" using e s length_dropWhile_le [of "\<lambda>c. c = CHR ''/''" "rev t"] by simp
  show "set (strip_slashes s) \<subseteq> set s" using e s by (auto dest!: set_dropWhileD)
  show "strip_slashes s = [hd s] \<or> last (strip_slashes s) \<noteq> CHR ''/''"
    using e s hd_dropWhile [of "\<lambda>c. c = CHR ''/''" "rev t"] by (cases ?d) (auto simp: last_rev)
qed

lemma absolute_path_normalized:
  assumes "normalize_absolute_path_value v = Some p"
  shows "absolute_path p"
proof -
  have v: "length v < MAX_PATH" "trim_ascii v \<noteq> []" "hd (trim_ascii v) = CHR ''/''"
    "list_all (\<lambda>c. \<not> control_char c \<and> c \<noteq> CHR ''#'') (trim_ascii v)" "p = strip_slashes (trim_ascii v)"
    using assms by (auto simp: normalize_absolute_path_value_def Let_def list_ex_iff list_all_iff split: if_splits)
  show ?thesis
    using v strip_slashes_props [OF v(2)] trim_ascii_subset(2) [of v] unfolding absolute_path_def by (auto simp: list_all_iff)
qed

lemma keeps_by_path: "(\<And>p c. absolute_path p \<Longrightarrow> config_ok c \<Longrightarrow> config_ok (put p c)) \<Longrightarrow> keeps_config (by_path put)"
proof -
  have "strlcpy p MAX_PATH = p" if "absolute_path p" for p using that by (simp add: absolute_path_def strlcpy_id)
  then show "(\<And>p c. absolute_path p \<Longrightarrow> config_ok c \<Longrightarrow> config_ok (put p c)) \<Longrightarrow> keeps_config (by_path put)"
    using absolute_path_normalized by (auto simp: keeps_config_def by_path_def)
qed

lemma keeps_language: "keeps_config set_language"
  using parse_language_valid by (auto simp: keeps_config_def set_language_def config_ok_def) (auto simp: names_in_config_ok_def)

lemma keeps_bind: "keeps_config set_bind_address"
  by (auto simp: keeps_config_def set_bind_address_def config_ok_def strlcpy_id split: if_splits) (auto simp: names_in_config_ok_def)

lemma keeps_default_mode: "keeps_config set_fakelib_default_mode"
  by (auto simp: keeps_config_def set_fakelib_default_mode_def config_ok_def split: option.splits if_splits) (auto simp: titles_ok_def)

lemma keeps_priority: "keeps_config set_priority"
  by (auto simp: keeps_config_def set_priority_def config_ok_def split: if_splits)

lemma keeps_url: "keeps_config set_update_url"
  by (auto simp: keeps_config_def set_update_url_def config_ok_def) (auto simp: names_in_config_ok_def length_strlcpy)

lemma interval_ok: "1 \<le> n \<Longrightarrow> n \<le> 3600 \<Longrightarrow> \<exists>m. 1 \<le> m \<and> m \<le> 3600 \<and> unat (n * 1000000 :: u32) = m * 1000000" for n :: u32
proof (intro exI conjI)
  assume "1 \<le> n" "n \<le> 3600"
  then have b: "1 \<le> unat n" "unat n \<le> 3600" by (simp_all add: word_le_nat_alt)
  then show "1 \<le> unat n" "unat n \<le> 3600" by simp_all
  show "unat (n * 1000000) = unat n * 1000000" using b by (simp add: unat_word_ariths)
qed

text \<open>What makes a number acceptable, per setting.\<close>

lemma numbers_put:
  assumes "numbers_ok c"
  shows "n \<noteq> 0 \<Longrightarrow> n \<le> 65535 \<Longrightarrow> numbers_ok (c\<lparr>c_api_port := n\<rparr>)"
    and "1 \<le> n \<Longrightarrow> n \<le> 2 \<Longrightarrow> numbers_ok (c\<lparr>c_scan_depth := n\<rparr>)"
    and "1 \<le> n \<Longrightarrow> n \<le> 3600 \<Longrightarrow> numbers_ok (c\<lparr>c_scan_interval_us := n * 1000000\<rparr>)"
    and "n \<le> 3600 \<Longrightarrow> numbers_ok (c\<lparr>c_stability_wait_seconds := n\<rparr>)"
    and "1 \<le> n \<Longrightarrow> n \<le> 86400 \<Longrightarrow> numbers_ok (c\<lparr>c_auto_remove_missing_delay_seconds := n\<rparr>)"
    and "n = 0 \<or> 50 \<le> n \<and> n \<le> 91 \<Longrightarrow> numbers_ok (c\<lparr>c_fan_target_temperature_c := n\<rparr>)"
proof -
  show "n \<noteq> 0 \<Longrightarrow> n \<le> 65535 \<Longrightarrow> numbers_ok (c\<lparr>c_api_port := n\<rparr>)"
    using assms by (simp add: numbers_ok_def word_le_nat_alt unat_gt_0 Suc_le_eq)
  show "1 \<le> n \<Longrightarrow> n \<le> 2 \<Longrightarrow> numbers_ok (c\<lparr>c_scan_depth := n\<rparr>)" using assms by (simp add: numbers_ok_def word_le_nat_alt)
  show "n \<le> 3600 \<Longrightarrow> numbers_ok (c\<lparr>c_stability_wait_seconds := n\<rparr>)" using assms by (simp add: numbers_ok_def word_le_nat_alt)
  show "1 \<le> n \<Longrightarrow> n \<le> 86400 \<Longrightarrow> numbers_ok (c\<lparr>c_auto_remove_missing_delay_seconds := n\<rparr>)"
    using assms by (simp add: numbers_ok_def word_le_nat_alt)
  show "n = 0 \<or> 50 \<le> n \<and> n \<le> 91 \<Longrightarrow> numbers_ok (c\<lparr>c_fan_target_temperature_c := n\<rparr>)"
    using assms by (simp add: numbers_ok_def word_le_nat_alt)
  show "1 \<le> n \<Longrightarrow> n \<le> 3600 \<Longrightarrow> numbers_ok (c\<lparr>c_scan_interval_us := n * 1000000\<rparr>)"
    using assms interval_ok [of n] by (simp add: numbers_ok_def)
qed

lemma sectors_put:
  assumes "numbers_ok c" "is_valid_sector_size n"
  shows "numbers_ok (c\<lparr>c_lvd_sector_exfat := n\<rparr>)" "numbers_ok (c\<lparr>c_lvd_sector_ufs := n\<rparr>)" "numbers_ok (c\<lparr>c_lvd_sector_pfs := n\<rparr>)"
    "numbers_ok (c\<lparr>c_md_sector_exfat := n\<rparr>)" "numbers_ok (c\<lparr>c_md_sector_ufs := n\<rparr>)"
  using assms sector_size_power [OF assms(2)] by (simp_all add: numbers_ok_def)

lemma names_put:
  assumes "names_in_config_ok c"
  shows "absolute_path p \<Longrightarrow> names_in_config_ok (c\<lparr>c_global_fakelib_path := p\<rparr>)"
    and "absolute_path p \<Longrightarrow> names_in_config_ok (c\<lparr>c_emulators_path := p\<rparr>)"
    and "b \<in> {ATTACH_BACKEND_LVD, ATTACH_BACKEND_MD} \<Longrightarrow> names_in_config_ok (c\<lparr>c_exfat_backend := b\<rparr>)"
    and "b \<in> {ATTACH_BACKEND_LVD, ATTACH_BACKEND_MD} \<Longrightarrow> names_in_config_ok (c\<lparr>c_ufs_backend := b\<rparr>)"
  using assms by (simp_all add: names_in_config_ok_def)

lemma keeps_fan: "keeps_config set_fan_target"
  using numbers_put(6)
  by (auto simp: keeps_config_def set_fan_target_def by_u32_def config_ok_def split: if_splits option.splits)

lemma normalized_title: "normalize_title_id_value v = Some t \<Longrightarrow> t \<noteq> [] \<and> length t < MAX_TITLE_ID"
  using trim_ascii_subset(2) [of v] by (auto simp: normalize_title_id_value_def Let_def split: if_splits)

lemma parsed_title_rule:
  assumes "parse_title_fakelib_rule key v = Some (t, m)"
  shows "is_supported_game_title_id t \<and> length t < MAX_TITLE_ID"
  using assms normalized_title by (auto simp: parse_title_fakelib_rule_def Let_def split: if_splits option.splits)

lemma keeps_fakelib_rule: "keeps_config (set_fakelib_rule key)"
  unfolding keeps_config_def
proof (intro allI impI)
  fix v c c'
  assume c: "config_ok c" and "set_fakelib_rule key v c = Some c'"
  then obtain t m rs where p: "parse_title_fakelib_rule key v = Some (t, m)" "set_title_fakelib_rule (t, m) (c_fakelib_rules c) = Some rs"
    and c': "c' = c\<lparr>c_fakelib_rules := rs\<rparr>"
    by (auto simp: set_fakelib_rule_def split: option.splits)
  note t = parsed_title_rule [OF p(1)]
  let ?R = "c_fakelib_rules c"
  have R: "length ?R \<le> MAX_FAKELIB_EXCLUDE_RULES" "distinct (map fst ?R)"
    "list_all (\<lambda>(t, m). is_supported_game_title_id t \<and> length t < MAX_TITLE_ID \<and> m \<noteq> SM_FAKELIB_DEFAULT) ?R"
    using c by (simp_all add: config_ok_def titles_ok_def)
  have "length rs \<le> MAX_FAKELIB_EXCLUDE_RULES \<and> distinct (map fst rs)
    \<and> list_all (\<lambda>(t, m). is_supported_game_title_id t \<and> length t < MAX_TITLE_ID \<and> m \<noteq> SM_FAKELIB_DEFAULT) rs"
  proof (cases "find_index (\<lambda>r. fst r = t) ?R")
    case None
    then have "t \<notin> fst ` set ?R" by (auto simp: find_index_None_set)
    then show ?thesis using p(2) None R t by (auto simp: set_title_fakelib_rule_def strlcpy_id split: if_splits)
  next
    case (Some k)
    then have k: "k < length ?R" by (simp add: find_index_Some)
    have r: "rs = (if m = SM_FAKELIB_DEFAULT then take k ?R @ drop (Suc k) ?R else ?R[k := (fst (?R ! k), m)])"
      using p(2) Some by (auto simp: set_title_fakelib_rule_def split: if_splits)
    show ?thesis
    proof (cases "m = SM_FAKELIB_DEFAULT")
      case True
      have sub: "set (take k ?R @ drop (Suc k) ?R) \<subseteq> set ?R" using set_take_subset [of k ?R] set_drop_subset [of "Suc k" ?R] by auto
      have "distinct (take k (map fst ?R) @ drop (Suc k) (map fst ?R))"
        using R(2) by (metis distinct_append distinct_take distinct_drop set_take_disj_set_drop_if_distinct le_SucI order_refl)
      then show ?thesis using True r R sub k by (auto simp: take_map drop_map list_all_iff min_def)
    next
      case False
      have "map fst (?R[k := (fst (?R ! k), m)]) = map fst ?R" using k by (simp add: map_update list_update_same_conv)
      moreover have "list_all (\<lambda>(t, m). is_supported_game_title_id t \<and> length t < MAX_TITLE_ID \<and> m \<noteq> SM_FAKELIB_DEFAULT) (?R[k := (fst (?R ! k), m)])"
        using R(3) k False by (auto simp: list_all_length nth_list_update case_prod_beta)
      ultimately show ?thesis using False r R(1,2) by simp
    qed
  qed
  then show "config_ok c'" using c c' by (simp add: config_ok_def numbers_ok_def names_in_config_ok_def titles_ok_def)
qed

lemma keeps_exclude: "keeps_config set_global_exclude"
  unfolding keeps_config_def
proof (intro allI impI)
  fix v c c'
  assume c: "config_ok c" and "set_global_exclude v c = Some c'"
  then obtain ids where p: "add_global_fakelib_exclude_rule v (c_global_fakelib_exclude_title_ids c) = Some ids"
    and c': "c' = c\<lparr>c_global_fakelib_exclude_title_ids := ids\<rparr>"
    by (auto simp: set_global_exclude_def)
  then show "config_ok c'"
    using c normalized_title [of v]
    by (auto simp: add_global_fakelib_exclude_rule_def config_ok_def numbers_ok_def names_in_config_ok_def titles_ok_def strlcpy_id
        split: option.splits if_splits)
qed

lemma settings_keep: "list_all (\<lambda>(k, put). keeps_config put) cfg_settings"
  unfolding cfg_settings_defs append.simps list.pred_inject prod.case
  by (intro conjI TrueI keeps_by_bool keeps_by_u32 keeps_by_backend keeps_by_path keeps_language keeps_bind keeps_default_mode keeps_priority
      keeps_url keeps_fan keeps_fakelib_rule keeps_exclude; simp add: config_ok_def numbers_put sectors_put names_put)

definition scan_path_ok :: "string \<Rightarrow> bool" where
  "scan_path_ok p \<longleftrightarrow> p \<noteq> [] \<and> length p < MAX_PATH \<and> (p = ''/'' \<or> last p \<noteq> CHR ''/'')"

definition scan_paths_ok :: "string list \<Rightarrow> bool" where
  "scan_paths_ok ps \<longleftrightarrow> length ps \<le> MAX_SCAN_PATHS \<and> distinct ps \<and> list_all scan_path_ok ps"

definition rule_ok :: "image_mode_rule \<Rightarrow> bool" where
  "rule_ok r \<longleftrightarrow> ir_filename r \<noteq> [] \<and> length (ir_filename r) < MAX_PATH
     \<and> (ir_sector_size_valid r \<longrightarrow> (\<exists>k. 9 \<le> k \<and> k \<le> 20 \<and> unat (ir_sector_size r) = 2 ^ k))"

text \<open>The slots are a table: one rule per file name, names compared without case.\<close>

definition rules_ok :: "image_mode_rule list \<Rightarrow> bool" where
  "rules_ok rs \<longleftrightarrow> length rs = MAX_IMAGE_MODE_RULES \<and> list_all (\<lambda>r. if ir_valid r then rule_ok r else r = blank_rule) rs
     \<and> keys_distinct ir_valid (\<lambda>r. ci (ir_filename r)) rs"

definition smb_ok :: "smb_connection list \<Rightarrow> bool" where
  "smb_ok cs \<longleftrightarrow> length cs \<le> SM_SMB_CONNECTIONS_MAX \<and> distinct (map (\<lambda>c. ci (sc_name c)) cs) \<and> list_all (\<lambda>c. sm_smb_validate c = Inr ()) cs"

definition state_ok :: "config_state \<Rightarrow> bool" where
  "state_ok s \<longleftrightarrow> config_ok (cs_cfg s) \<and> scan_paths_ok (cs_scan_paths s) \<and> cs_custom_scan_path_count s \<le> length (cs_scan_paths s)
     \<and> rules_ok (cs_rules s) \<and> smb_ok (cs_smb s)"

lemma add_scan_path_ok:
  assumes "add_runtime_scan_path raw ps = Some ps'" "scan_paths_ok ps"
  shows "scan_paths_ok ps' \<and> length ps \<le> length ps' \<and> ps' \<noteq> []"
proof -
  let ?p = "rev (dropWhile isspace (rev (dropWhile isspace raw)))"
  have p: "?p \<noteq> []" "length ?p < MAX_PATH" "ps' = (if strip_slashes ?p \<in> set ps then ps else ps @ [strip_slashes ?p])"
    "strip_slashes ?p \<in> set ps \<or> length ps < MAX_SCAN_PATHS"
    using assms(1) by (auto simp: add_runtime_scan_path_def Let_def split: if_splits)
  note s = strip_slashes_props [OF p(1)]
  have "scan_path_ok (strip_slashes ?p)" using s(1,3,5) p(2) s(2) unfolding scan_path_ok_def by (auto simp del: rev_is_Nil_conv)
  then show ?thesis using p(3,4) assms(2) by (auto simp: scan_paths_ok_def split: if_splits)
qed

lemma try_add_ok: "scan_paths_ok ps \<Longrightarrow> scan_paths_ok (try_add_scan_path p ps) \<and> length ps \<le> length (try_add_scan_path p ps)"
  using add_scan_path_ok by (auto simp: try_add_scan_path_def split: option.split)

lemma managed_ok: "scan_paths_ok ps \<Longrightarrow> scan_paths_ok (add_runtime_managed_scan_paths ps) \<and> length ps \<le> length (add_runtime_managed_scan_paths ps)"
  using try_add_ok unfolding add_runtime_managed_scan_paths_def by (meson le_trans)

lemma default_paths_ok: "scan_paths_ok (fold try_add_scan_path xs ps)" if "scan_paths_ok ps"
  using that try_add_ok by (induction xs arbitrary: ps) auto

lemma update_rule_ok:
  assumes "rules_ok rs" "update_image_rule n f rs = Some rs'" "n \<noteq> []" "length n < MAX_PATH"
    and f: "\<And>r. ir_filename (f r) = ir_filename r" "\<And>r. ir_valid (f r) = ir_valid r" "\<And>r. rule_ok r \<Longrightarrow> rule_ok (f r)"
  shows "rules_ok rs'"
proof (cases "find_index (\<lambda>r. ir_valid r \<and> strcaseeq (ir_filename r) n) rs")
  case (Some k)
  then have k: "k < length rs" "ir_valid (rs ! k)" "rs' = rs[k := f (rs ! k)]"
    using assms(2) find_index_SomeD [OF Some] by (auto simp: update_image_rule_def)
  have "rule_ok (rs ! k)" using assms(1) k by (simp add: rules_ok_def list_all_length)
  moreover have "keys_distinct ir_valid (\<lambda>r. ci (ir_filename r)) (rs[k := f (rs ! k)])"
    by (rule keys_distinct_update) (use assms(1) k f keys_distinctD [of ir_valid "\<lambda>r. ci (ir_filename r)" rs _ k] in \<open>auto simp: rules_ok_def\<close>)
  ultimately show ?thesis using assms(1) k f by (auto simp: rules_ok_def list_all_length nth_list_update)
next
  case None
  then obtain k where k: "find_index (\<lambda>r. \<not> ir_valid r) rs = Some k"
    and rs': "rs' = rs[k := f ((rs ! k)\<lparr>ir_filename := n, ir_valid := True\<rparr>)]"
    using assms(2,4) by (auto simp: update_image_rule_def strlcpy_id split: option.splits)
  then have k': "k < length rs" "\<not> ir_valid (rs ! k)" by (auto simp: find_index_Some)
  then have b: "rs ! k = blank_rule" using assms(1) by (simp add: rules_ok_def list_all_length)
  have "rule_ok ((rs ! k)\<lparr>ir_filename := n, ir_valid := True\<rparr>)" using assms(3,4) b by (simp add: rule_ok_def blank_rule_def)
  note ok = f(3) [OF this]
  have "keys_distinct ir_valid (\<lambda>r. ci (ir_filename r)) (rs[k := f ((rs ! k)\<lparr>ir_filename := n, ir_valid := True\<rparr>)])"
    by (rule keys_distinct_update)
      (use assms(1) None k' f in \<open>auto simp: rules_ok_def find_index_None strcaseeq_def ci_def\<close>)
  then show ?thesis using assms(1) k' f ok rs' by (auto simp: rules_ok_def list_all_length nth_list_update)
qed

lemma normalized_filename: "normalize_image_filename_value v = Some n \<Longrightarrow> n \<noteq> [] \<and> length n < MAX_PATH"
proof -
  assume a: "normalize_image_filename_value v = Some n"
  have "length (get_filename_component s) \<le> length s" for s
    by (auto simp: get_filename_component_def after_last_def intro: order_trans [OF length_takeWhile_le])
  from this [of "trim_ascii v"] show ?thesis
    using a trim_ascii_subset(2) [of v] by (auto simp: normalize_image_filename_value_def Let_def split: if_splits)
qed

lemma mode_rule_ok: "rules_ok rs \<Longrightarrow> set_image_mode_rule p ro rs = Some rs' \<Longrightarrow> rules_ok rs'"
  using normalized_filename update_rule_ok [of rs _ "\<lambda>r. r\<lparr>ir_read_only := ro, ir_mode_valid := True\<rparr>" rs']
  by (auto simp: set_image_mode_rule_def rule_ok_def split: option.splits)

lemma parsed_sector_rule:
  assumes "parse_image_sector_rule_value v = Some (f, n)"
  shows "f \<noteq> []" "length f < MAX_PATH" "is_valid_sector_size n"
  using assms normalized_filename by (auto simp: parse_image_sector_rule_value_def Let_def split: if_splits option.splits)

lemma sector_rule_ok:
  assumes "rules_ok rs" "set_image_sector_rule v rs = Some rs'"
  shows "rules_ok rs'"
proof -
  obtain f n where p: "parse_image_sector_rule_value v = Some (f, n)"
    "update_image_rule f (\<lambda>r. r\<lparr>ir_sector_size := n, ir_sector_size_valid := True\<rparr>) rs = Some rs'"
    using assms(2) by (auto simp: set_image_sector_rule_def split: option.splits)
  show ?thesis
    by (rule update_rule_ok [OF assms(1) p(2) parsed_sector_rule(1,2) [OF p(1)]])
      (use sector_size_power [OF parsed_sector_rule(3) [OF p(1)]] in \<open>simp_all add: rule_ok_def\<close>)
qed

text \<open>A setting keeps the configuration acceptable, and as long as none was refused there is a scan path once the user named one.\<close>

definition parse_ok :: "parse_state \<Rightarrow> bool" where
  "parse_ok ps \<longleftrightarrow> state_ok (ps_state ps) \<and> cs_custom_scan_path_count (ps_state ps) = 0
     \<and> (ps_custom ps \<and> \<not> ps_invalid ps \<longrightarrow> cs_scan_paths (ps_state ps) \<noteq> [])"

lemma parse_ok_put:
  assumes "parse_ok ps"
    and "\<And>s. r = Some s \<Longrightarrow> state_ok s \<and> cs_custom_scan_path_count s = 0 \<and> (cs_scan_paths (ps_state ps) \<noteq> [] \<longrightarrow> cs_scan_paths s \<noteq> [])"
  shows "parse_ok (put_state r ps)"
  using assms by (cases r) (auto simp: parse_ok_def put_state_def)

lemma parse_ok_scanpath:
  assumes "parse_ok ps"
  shows "parse_ok (scanpath_setting v ps)"
proof -
  define s where "s = (if ps_custom ps then ps_state ps else (ps_state ps)\<lparr>cs_scan_paths := [], cs_custom_scan_path_count := 0\<rparr>)"
  have s: "state_ok s" "cs_custom_scan_path_count s = 0" using assms by (auto simp: s_def parse_ok_def state_ok_def scan_paths_ok_def)
  have e: "scanpath_setting v ps = (case add_runtime_scan_path v (cs_scan_paths s) of
      None \<Rightarrow> \<lparr>ps_state = s, ps_custom = True, ps_invalid = True\<rparr>
    | Some p \<Rightarrow> \<lparr>ps_state = s\<lparr>cs_scan_paths := p\<rparr>, ps_custom = True, ps_invalid = ps_invalid ps\<rparr>)"
    by (cases ps) (auto simp: scanpath_setting_def s_def put_state_def Let_def split: option.split)
  show ?thesis
  proof (cases "add_runtime_scan_path v (cs_scan_paths s)")
    case None
    then show ?thesis using s e by (simp add: parse_ok_def)
  next
    case (Some p)
    have "scan_paths_ok (cs_scan_paths s)" using s by (simp add: state_ok_def)
    from add_scan_path_ok [OF Some this] show ?thesis using Some s e by (simp add: parse_ok_def state_ok_def)
  qed
qed

lemma parse_ok_setting: "parse_ok (apply_setting k v ps)" if "parse_ok ps"
proof -
  have s: "state_ok (ps_state ps)" "cs_custom_scan_path_count (ps_state ps) = 0" using that by (simp_all add: parse_ok_def)
  have mode: "parse_ok (put_state (map_option (\<lambda>rs. (ps_state ps)\<lparr>cs_rules := rs\<rparr>) (set_image_mode_rule v b (cs_rules (ps_state ps)))) ps)" for b
    by (rule parse_ok_put [OF that]) (use s mode_rule_ok in \<open>auto simp: state_ok_def\<close>)
  have sector: "parse_ok (put_state (map_option (\<lambda>rs. (ps_state ps)\<lparr>cs_rules := rs\<rparr>) (set_image_sector_rule v (cs_rules (ps_state ps)))) ps)"
    by (rule parse_ok_put [OF that]) (use s sector_rule_ok in \<open>auto simp: state_ok_def\<close>)
  have cfg: "parse_ok (put_state (map_option (\<lambda>c. (ps_state ps)\<lparr>cs_cfg := c\<rparr>) (put v (cs_cfg (ps_state ps)))) ps)" if "(n, put) \<in> set cfg_settings" for n put
  proof (rule parse_ok_put [OF \<open>parse_ok ps\<close>])
    have "keeps_config put" using settings_keep that by (auto simp: list_all_iff)
    then show "state_ok s' \<and> cs_custom_scan_path_count s' = 0 \<and> (cs_scan_paths (ps_state ps) \<noteq> [] \<longrightarrow> cs_scan_paths s' \<noteq> [])"
      if "map_option (\<lambda>c. (ps_state ps)\<lparr>cs_cfg := c\<rparr>) (put v (cs_cfg (ps_state ps))) = Some s'" for s'
      using that s by (auto simp: keeps_config_def state_ok_def)
  qed
  show ?thesis
  proof (cases "find (\<lambda>(n, _). strcaseeq k n) cfg_settings")
    case (Some x)
    then have "x \<in> set cfg_settings" by (metis find_Some_iff nth_mem)
    then show ?thesis using Some that mode sector parse_ok_scanpath [OF that] cfg [of "fst x" "snd x"]
      by (simp add: apply_setting_def Let_def case_prod_beta)
  qed (simp add: apply_setting_def Let_def that mode sector parse_ok_scanpath [OF that])
qed

lemma parse_ok_lines: "parse_ok (fold apply_line ls ps)" if "parse_ok ps"
  using that
proof (induction ls arbitrary: ps)
  case (Cons l ls)
  then show ?case using parse_ok_setting by (cases "il_key l") (simp_all add: apply_line_def)
qed simp

lemma default_config_ok: "config_ok default_config"
proof -
  have "numbers_ok default_config"
    unfolding numbers_ok_def default_config_def
    using exI [of "\<lambda>n. 1 \<le> n \<and> n \<le> 3600 \<and> (15000000::nat) = n * 1000000" 15] sector_size_power [of 512] sector_size_power [of 4096]
    by (simp add: is_valid_sector_size_def)
  moreover have "inet_pton4 ''0.0.0.0''" by code_simp
  then have "names_in_config_ok default_config"
    by (simp add: names_in_config_ok_def default_config_def absolute_path_def DEFAULT_GLOBAL_FAKELIB_PATH_def DEFAULT_EMULATORS_PATH_def
        DEFAULT_AMPR_UPDATE_URL_def control_char_def)
  moreover have "titles_ok default_config" by (simp add: titles_ok_def default_config_def)
  ultimately show ?thesis by (simp add: config_ok_def)
qed

lemma read_connection_ok:
  assumes "read_smb_connection doc s = Some c"
  shows "sm_smb_validate c = Inr () \<and> sc_name c = drop 4 s"
  using assms by (auto simp: read_smb_connection_def Let_def split: option.splits if_splits sum.splits)

lemma smb_loop_ok: "smb_ok items \<Longrightarrow> smb_loop doc ls items = Inr cs \<Longrightarrow> smb_ok cs"
proof (induction ls arbitrary: items)
  case (Cons l ls)
  have "smb_ok (items @ [c])"
    if c: "read_smb_connection doc (il_section l) = Some c" "\<not> list_ex (\<lambda>c. strcaseeq (sc_name c) (drop 4 (il_section l))) items"
      "length items \<noteq> SM_SMB_CONNECTIONS_MAX" for c
    using Cons.prems(1) read_connection_ok [OF c(1)] c(2,3) by (auto simp: smb_ok_def list_ex_iff strcaseeq_def ci_def)
  then show ?case using Cons by (auto split: if_splits option.splits)
qed simp

lemma managed_state_ok: "state_ok s \<Longrightarrow> state_ok (s\<lparr>cs_scan_paths := add_runtime_managed_scan_paths (cs_scan_paths s)\<rparr>)"
  using managed_ok [of "cs_scan_paths s"] le_trans by (auto simp: state_ok_def)

lemma parsed_state_ok:
  assumes "parse_runtime_config_state main profiles = Inr s"
  shows "state_ok s"
proof -
  obtain flat smb where smb: "read_smb_connections main = Inr smb"
    and s: "s = finish_scan_paths (fold apply_line flat \<lparr>ps_state = init_runtime_config_defaults\<lparr>cs_smb := smb\<rparr>, ps_custom = False, ps_invalid = False\<rparr>)"
    using assms by (auto simp: parse_runtime_config_state_def Let_def split: sum.splits if_splits)
  let ?ps = "fold apply_line flat \<lparr>ps_state = init_runtime_config_defaults\<lparr>cs_smb := smb\<rparr>, ps_custom = False, ps_invalid = False\<rparr>"
  have "smb_ok smb" using smb smb_loop_ok [of "[]"] by (simp add: read_smb_connections_def smb_ok_def)
  moreover have "scan_paths_ok (add_runtime_managed_scan_paths (fold try_add_scan_path k_default_scan_paths []))"
    using managed_ok default_paths_ok [of "[]"] by (simp add: scan_paths_ok_def)
  moreover have "rules_ok (replicate MAX_IMAGE_MODE_RULES blank_rule)" by (simp add: rules_ok_def list_all_length blank_rule_def)
  ultimately have "parse_ok ?ps"
    using default_config_ok by (intro parse_ok_lines) (simp add: parse_ok_def state_ok_def init_runtime_config_defaults_def init_runtime_scan_paths_defaults_def)
  then have ps: "state_ok (ps_state ?ps)" by (simp add: parse_ok_def)
  let ?d = "init_runtime_scan_paths_defaults (ps_state ?ps)"
  have "state_ok ?d" using ps managed_ok default_paths_ok [of "[]"] by (simp add: state_ok_def init_runtime_scan_paths_defaults_def scan_paths_ok_def)
  moreover have "state_ok ((ps_state ?ps)\<lparr>cs_custom_scan_path_count := length (cs_scan_paths (ps_state ?ps))\<rparr>)"
    using ps by (simp add: state_ok_def)
  ultimately show ?thesis
    unfolding s finish_scan_paths_def Let_def by (intro managed_state_ok) (use ps in simp)
qed

text \<open>
  C23. A configuration that is accepted is one the program can run with. Whatever the two files say, either reading fails or every
  number is in its range (ports, scan depth and interval, delays, fan target; every sector size a power of two between 512 bytes
  and 1 MiB, the interval in microseconds without overflow), every path is absolute or at least not empty, no table is over
  its limit or names a title, an image, a scan path or a connection twice, every connection passes the validation of its
  addresses, and the scan paths of the user are counted within the list.
\<close>
theorem accepted_config_wellformed:
  assumes "parse_runtime_config_state main profiles = Inr s"
  shows "state_ok s"
  using assms by (rule parsed_state_ok)

definition sample_main :: ini where
  "sample_main = [new_line ''general'' ''debug'' ''0'']"

lemma sample_flat: "flatten_documents sample_main [] = Inr [new_header ''runtime'', new_line ''runtime'' ''debug'' ''0'']"
proof -
  have "find_config_key ''general'' ''debug'' = Some (ckey ''general'' ''debug'' ''debug'')"
    by (simp add: find_config_key_def sm_config_keys_def ckey_def)
  moreover have "\<not> strcaseeq ''general'' ''config'' \<and> \<not> starts_case ''smb:'' ''general''" by code_simp
  moreover have "sm_ini_append [] ''runtime'' ''debug'' ''0'' = (Inr (), [new_header ''runtime'', new_line ''runtime'' ''debug'' ''0''])"
    by code_simp
  ultimately show ?thesis
    by (simp add: flatten_documents_def sample_main_def new_line_def flat_append_def ckey_def set_again_def)
qed

theorem accepted_config_wellformed_witness:
  "\<exists>s. parse_runtime_config_state sample_main [] = Inr s \<and> \<not> c_debug_enabled (cs_cfg s) \<and> state_ok s"
proof -
  let ?init = "\<lparr>ps_state = init_runtime_config_defaults\<lparr>cs_smb := []\<rparr>, ps_custom = False, ps_invalid = False\<rparr>"
  have keys: "list_all (\<lambda>k. \<not> strcaseeq ''debug'' k) [''image_ro'', ''image_rw'', ''image_sector'', ''scanpath'']" by code_simp
  have "apply_setting ''debug'' ''0'' ?init = ?init\<lparr>ps_state := (ps_state ?init)\<lparr>cs_cfg := (cs_cfg (ps_state ?init))\<lparr>c_debug_enabled := False\<rparr>\<rparr>\<rparr>"
    using keys by (simp add: apply_setting_def cfg_settings_defs by_bool_def parse_bool_ini_def strcaseeq_def tolower_def put_state_def)
  moreover have smb: "read_smb_connections sample_main = Inr []" by (simp add: read_smb_connections_def sample_main_def new_line_def)
  ultimately have r: "parse_runtime_config_state sample_main []
      = Inr (finish_scan_paths (?init\<lparr>ps_state := (ps_state ?init)\<lparr>cs_cfg := (cs_cfg (ps_state ?init))\<lparr>c_debug_enabled := False\<rparr>\<rparr>\<rparr>))"
    using smb by (simp add: parse_runtime_config_state_def sample_flat new_line_def new_header_def apply_line_def)
  then show ?thesis using accepted_config_wellformed [OF r] by (simp add: finish_scan_paths_def Let_def)
qed

section \<open>Two limits\<close>

text \<open>A list of scan paths that is full leaves no room for the managed ones: the mounted images are not scanned then.\<close>

lemma full_scan_paths_drop_managed:
  assumes "length ps = MAX_SCAN_PATHS" "IMAGE_MOUNT_BASE \<notin> set ps" "PFSC_IMAGE_MOUNT_BASE \<notin> set ps"
  shows "add_runtime_managed_scan_paths ps = ps"
proof -
  have "strip_slashes IMAGE_MOUNT_BASE = IMAGE_MOUNT_BASE" "strip_slashes PFSC_IMAGE_MOUNT_BASE = PFSC_IMAGE_MOUNT_BASE"
    by (simp_all add: strip_slashes_def IMAGE_MOUNT_BASE_def PFSC_IMAGE_MOUNT_BASE_def)
  moreover have "rev (dropWhile isspace (rev (dropWhile isspace p))) = p" if "p \<in> {IMAGE_MOUNT_BASE, PFSC_IMAGE_MOUNT_BASE}" for p
    using that by (auto simp: IMAGE_MOUNT_BASE_def PFSC_IMAGE_MOUNT_BASE_def isspace_def)
  ultimately show ?thesis
    using assms by (simp add: add_runtime_managed_scan_paths_def try_add_scan_path_def add_runtime_scan_path_def)
qed

text \<open>The fall-back to the default scan paths is never taken: a scan path that is refused has made the configuration invalid.\<close>

lemma custom_scan_paths_nonempty:
  assumes "parse_ok ps" "ps' = fold apply_line ls ps" "ps_custom ps'" "\<not> ps_invalid ps'"
  shows "cs_scan_paths (ps_state ps') \<noteq> []"
  using parse_ok_lines [OF assms(1), of ls] assms(2-4) by (simp add: parse_ok_def)

end
