(* ===== verification/Config_Store.thy ===== *)
theory Config_Store
  imports Config_Values
begin

text \<open>
  \<^verbatim>\<open>src/sm_config_mount.c\<close>, the configuration the program runs with: the questions other parts ask of it, loading and
  reloading it from the two files, and the operations that change one of the files and publish what changed.

  \<open>config_store\<close> has the variables of the file. What the system does during one operation is in \<open>config_env\<close>: what \<^verbatim>\<open>stat\<close> tells of a
  path, what opening a path for reading fails with, and what happens while a file is replaced. Each operation runs under the
  file mutex, so it is one step. Memory allocation is taken to succeed, and a mode is one of the four of its enumeration.
\<close>

section \<open>State\<close>

record config_file_stamp =
  fs_present :: bool
  fs_inode :: u64
  fs_size :: u64
  fs_mtime_sec :: u64
  fs_mtime_nsec :: u64
  fs_ctime_sec :: u64
  fs_ctime_nsec :: u64

record config_env =
  e_stat :: "string \<Rightarrow> config_file_stamp option"
  e_open :: "string \<Rightarrow> errno option"
  e_io :: io
  e_sync :: "errno option"
  e_residue :: bool

record config_store =
  st_ready :: bool
  st_state :: config_state
  st_main_stamp :: config_file_stamp
  st_profiles_stamp :: config_file_stamp


definition blank_config_stamp :: config_file_stamp where
  "blank_config_stamp = \<lparr>fs_present = False, fs_inode = 0, fs_size = 0, fs_mtime_sec = 0, fs_mtime_nsec = 0, fs_ctime_sec = 0, fs_ctime_nsec = 0\<rparr>"

definition read_config_file_stamp :: "config_env \<Rightarrow> string \<Rightarrow> config_file_stamp" where
  "read_config_file_stamp e p = (case e_stat e p of None \<Rightarrow> blank_config_stamp | Some st \<Rightarrow> st\<lparr>fs_present := True\<rparr>)"

definition config_file_stamp_equals :: "config_file_stamp \<Rightarrow> config_file_stamp \<Rightarrow> bool" where
  "config_file_stamp_equals a b \<longleftrightarrow>
     fs_present a = fs_present b \<and> fs_inode a = fs_inode b \<and> fs_size a = fs_size b \<and> fs_mtime_sec a = fs_mtime_sec b
     \<and> fs_mtime_nsec a = fs_mtime_nsec b \<and> fs_ctime_sec a = fs_ctime_sec b \<and> fs_ctime_nsec a = fs_ctime_nsec b"

text \<open>\<^verbatim>\<open>memcmp\<close> of the two states: it also sees the bytes behind the texts, so it can find a difference between states that say the
  same (\<open>e_residue\<close>), never equality of states that do not.\<close>

definition runtime_config_states_equal :: "config_env \<Rightarrow> config_state \<Rightarrow> config_state \<Rightarrow> bool" where
  "runtime_config_states_equal e a b \<longleftrightarrow> a = b \<and> \<not> e_residue e"

definition init_runtime_config :: "config_env \<Rightarrow> config_store \<Rightarrow> config_store" where
  "init_runtime_config e st =
     st\<lparr>st_ready := True, st_state := init_runtime_config_defaults,
        st_main_stamp := read_config_file_stamp e CONFIG_FILE, st_profiles_stamp := read_config_file_stamp e PROFILES_FILE\<rparr>"

definition ensure_runtime_config_ready :: "config_env \<Rightarrow> config_store \<Rightarrow> config_store" where
  "ensure_runtime_config_ready e st = (if st_ready st then st else init_runtime_config e st)"

section \<open>Questions\<close>

text \<open>They are asked of the state once it is ready.\<close>

definition get_scan_path_count :: "config_state \<Rightarrow> nat" where
  "get_scan_path_count s = length (cs_scan_paths s)"

definition get_scan_path :: "config_state \<Rightarrow> int \<Rightarrow> string option" where
  "get_scan_path s i = (if 0 \<le> i \<and> i < int (get_scan_path_count s) then Some (strlcpy (cs_scan_paths s ! nat i) MAX_PATH) else None)"

definition get_backport_scan_path_count :: "config_state \<Rightarrow> nat" where
  "get_backport_scan_path_count s = get_scan_path_count s + 1"

definition get_backport_scan_path :: "config_state \<Rightarrow> int \<Rightarrow> string option" where
  "get_backport_scan_path s i =
     (if 0 \<le> i \<and> i \<le> int (get_scan_path_count s)
      then Some (strlcpy (if i = int (get_scan_path_count s) then DEFAULT_BACKPORT_SCAN_PATH else cs_scan_paths s ! nat i) MAX_PATH)
      else None)"

definition get_custom_scan_path_count :: "config_state \<Rightarrow> nat" where
  "get_custom_scan_path_count s = cs_custom_scan_path_count s"

definition get_custom_scan_path :: "config_state \<Rightarrow> int \<Rightarrow> string option" where
  "get_custom_scan_path s i =
     (if 0 \<le> i \<and> i < int (get_custom_scan_path_count s) then Some (strlcpy (cs_scan_paths s ! nat i) MAX_PATH) else None)"

definition get_scan_depth_for_root :: "config_state \<Rightarrow> string \<Rightarrow> u32" where
  "get_scan_depth_for_root s scan_path =
     (let d = c_scan_depth (cs_cfg s);
          d' = (if d < MIN_SCAN_DEPTH then MIN_SCAN_DEPTH else d)
      in if is_pfsc_image_mount_base_or_child scan_path then d' + 1 else d')"

definition find_image_rule :: "(image_mode_rule \<Rightarrow> bool) \<Rightarrow> config_state \<Rightarrow> string \<Rightarrow> image_mode_rule option" where
  "find_image_rule valid s filename =
     (case normalize_image_filename_value filename of
        None \<Rightarrow> None
      | Some n \<Rightarrow> find (\<lambda>r. ir_valid r \<and> valid r \<and> strcaseeq (ir_filename r) n) (cs_rules s))"

definition get_image_mode_override :: "config_state \<Rightarrow> string \<Rightarrow> bool option" where
  "get_image_mode_override s filename = map_option ir_read_only (find_image_rule ir_mode_valid s filename)"

definition get_image_sector_size_override :: "config_state \<Rightarrow> string \<Rightarrow> u32 option" where
  "get_image_sector_size_override s filename = map_option ir_sector_size (find_image_rule ir_sector_size_valid s filename)"

definition sm_config_title_fakelib_override :: "runtime_config \<Rightarrow> string \<Rightarrow> fakelib_mode" where
  "sm_config_title_fakelib_override c title =
     (case find (\<lambda>(t, _). strcaseeq t title) (c_fakelib_rules c) of Some (_, m) \<Rightarrow> m | None \<Rightarrow> SM_FAKELIB_DEFAULT)"

definition sm_config_title_fakelib_mode :: "runtime_config \<Rightarrow> string \<Rightarrow> fakelib_mode" where
  "sm_config_title_fakelib_mode c title =
     (let m = sm_config_title_fakelib_override c title in if m = SM_FAKELIB_DEFAULT then c_fakelib_default_mode c else m)"

definition get_fakelib_mode_for_title :: "config_state \<Rightarrow> string \<Rightarrow> fakelib_mode" where
  "get_fakelib_mode_for_title s title = sm_config_title_fakelib_mode (cs_cfg s) title"

definition is_fakelib_excluded_for_title :: "config_state \<Rightarrow> string \<Rightarrow> bool" where
  "is_fakelib_excluded_for_title s title \<longleftrightarrow> get_fakelib_mode_for_title s title = SM_FAKELIB_DISABLED"

definition sm_config_title_global_fakelib_excluded :: "runtime_config \<Rightarrow> string \<Rightarrow> bool" where
  "sm_config_title_global_fakelib_excluded c title = list_ex (\<lambda>t. strcaseeq t title) (c_global_fakelib_exclude_title_ids c)"

definition is_global_fakelib_excluded_for_title :: "config_state \<Rightarrow> string \<Rightarrow> bool" where
  "is_global_fakelib_excluded_for_title s title =
     (case normalize_title_id_value title of None \<Rightarrow> False | Some t \<Rightarrow> sm_config_title_global_fakelib_excluded (cs_cfg s) t)"

definition sm_config_smb_snapshot :: "config_state \<Rightarrow> smb_connection list" where
  "sm_config_smb_snapshot s = cs_smb s"

text \<open>What the image code (Image\_Profile) reads of the configuration.\<close>

definition image_config_of :: "config_state \<Rightarrow> image_config" where
  "image_config_of s =
     (let c = cs_cfg s in
      \<lparr>stability_wait_seconds = c_stability_wait_seconds c, mount_read_only = c_mount_read_only c, force_mount = c_force_mount c,
       exfat_backend = c_exfat_backend c, ufs_backend = c_ufs_backend c,
       nested_pfs_index_cache_enabled = c_nested_pfs_index_cache_enabled c, lvd_sector_exfat = c_lvd_sector_exfat c,
       lvd_sector_ufs = c_lvd_sector_ufs c, lvd_sector_pfs = c_lvd_sector_pfs c, md_sector_exfat = c_md_sector_exfat c,
       md_sector_ufs = c_md_sector_ufs c, image_mode_override = get_image_mode_override s,
       image_sector_size_override = get_image_sector_size_override s\<rparr>)"

section \<open>Loading\<close>

definition read_documents :: "config_env \<Rightarrow> disk \<Rightarrow> (ini \<times> ini) res" where
  "read_documents e d =
     (case sm_ini_read (e_open e CONFIG_FILE) d CONFIG_FILE False of
        Inl er \<Rightarrow> Inl er
      | Inr main \<Rightarrow>
          (case sm_ini_version main of
             Inl er \<Rightarrow> Inl er
           | Inr _ \<Rightarrow>
               (case sm_ini_read (e_open e PROFILES_FILE) d PROFILES_FILE False of
                  Inl er \<Rightarrow> Inl er
                | Inr profiles \<Rightarrow>
                    if profiles = [] then Inr (main, profiles)
                    else (case sm_ini_version profiles of Inl er \<Rightarrow> Inl er | Inr _ \<Rightarrow> Inr (main, profiles)))))"

definition load_runtime_config_state :: "config_env \<Rightarrow> disk \<Rightarrow> config_state res" where
  "load_runtime_config_state e d =
     (case read_documents e d of Inl er \<Rightarrow> Inl er | Inr (main, profiles) \<Rightarrow> parse_runtime_config_state main profiles)"

definition load_runtime_config :: "config_env \<Rightarrow> disk \<Rightarrow> config_store \<Rightarrow> bool \<times> config_store" where
  "load_runtime_config e d st0 =
     (let st = ensure_runtime_config_ready e st0 in
      case load_runtime_config_state e d of
        Inl _ \<Rightarrow> (False, st)
      | Inr s \<Rightarrow> (True, st\<lparr>st_state := s, st_main_stamp := read_config_file_stamp e CONFIG_FILE,
                          st_profiles_stamp := read_config_file_stamp e PROFILES_FILE\<rparr>))"

text \<open>The result, and whether the configuration is another one.\<close>

definition reload_runtime_config_if_changed :: "config_env \<Rightarrow> disk \<Rightarrow> config_store \<Rightarrow> (bool \<times> bool) \<times> config_store" where
  "reload_runtime_config_if_changed e d st0 =
     (let st = ensure_runtime_config_ready e st0;
          new_stamp = read_config_file_stamp e CONFIG_FILE;
          profiles_stamp = read_config_file_stamp e PROFILES_FILE
      in if config_file_stamp_equals new_stamp (st_main_stamp st) \<and> config_file_stamp_equals profiles_stamp (st_profiles_stamp st)
         then ((True, False), st)
         else
           (case load_runtime_config_state e d of
              Inl _ \<Rightarrow> ((False, False), st)
            | Inr parsed \<Rightarrow>
                (let changed = (\<not> runtime_config_states_equal e (st_state st) parsed);
                     st1 = (if changed then st\<lparr>st_state := parsed\<rparr> else st)
                 in ((True, changed), st1\<lparr>st_main_stamp := new_stamp, st_profiles_stamp := profiles_stamp\<rparr>))))"

section \<open>Changing\<close>

definition publish_individual :: "config_state \<Rightarrow> config_state \<Rightarrow> config_state" where
  "publish_individual parsed s =
     s\<lparr>cs_cfg := (cs_cfg s)\<lparr>c_fakelib_rules := c_fakelib_rules (cs_cfg parsed),
                            c_global_fakelib_exclude_title_ids := c_global_fakelib_exclude_title_ids (cs_cfg parsed)\<rparr>,
       cs_rules := cs_rules parsed\<rparr>"

definition publish_smb :: "config_state \<Rightarrow> config_state \<Rightarrow> config_state" where
  "publish_smb parsed s = s\<lparr>cs_smb := cs_smb parsed\<rparr>"

definition save_document ::
  "config_env \<Rightarrow> ini \<Rightarrow> ini \<Rightarrow> bool \<Rightarrow> bool \<Rightarrow> config_store \<times> disk \<Rightarrow> unit res \<times> config_store \<times> disk" where
  "save_document e main profiles individual smb sd =
     (case sm_ini_set (if individual then profiles else main) ''config'' ''version'' (Some ''2'') of
        (Inl er, _) \<Rightarrow> (Inl er, sd)
      | (Inr _, doc) \<Rightarrow>
          (case parse_runtime_config_state (if individual then main else doc) (if individual then doc else profiles) of
             Inl er \<Rightarrow> (Inl er, sd)
           | Inr parsed \<Rightarrow>
               (case sm_ini_write (e_io e) (e_sync e) (if individual then PROFILES_FILE else CONFIG_FILE) doc (snd sd) of
                  (Inl er, d) \<Rightarrow> (Inl er, fst sd, d)
                | (Inr _, d) \<Rightarrow>
                    (let s = st_state (fst sd);
                         s1 = (if individual then publish_individual parsed s else s);
                         s2 = (if smb then publish_smb parsed s1 else s1)
                     in (Inr (), (fst sd)\<lparr>st_state := s2\<rparr>, d)))))"

text \<open>A chain of changes of one document, up to the first that fails.\<close>

fun edit_document :: "edit list \<Rightarrow> ini \<Rightarrow> ini res" where
  "edit_document [] doc = Inr doc"
| "edit_document (Set_Key s k v # es) doc =
     (case sm_ini_set doc s k v of (Inl er, _) \<Rightarrow> Inl er | (Inr _, doc') \<Rightarrow> edit_document es doc')"
| "edit_document (Append_Key s k v # es) doc =
     (case sm_ini_append doc s k v of (Inl er, _) \<Rightarrow> Inl er | (Inr _, doc') \<Rightarrow> edit_document es doc')"
| "edit_document (Rename_Section old name # es) doc =
     (case sm_ini_rename_section doc old name of (Inl er, _) \<Rightarrow> Inl er | (Inr _, doc') \<Rightarrow> edit_document es doc')"
| "edit_document (Remove_Section s # es) doc = edit_document es (sm_ini_remove_section doc s)"

text \<open>The common shape of the operations below: read both documents, edit one, save it. \<open>check\<close> is what is asked of the main document
  before.\<close>

definition change_documents ::
  "config_env \<Rightarrow> (ini \<Rightarrow> errno option) \<Rightarrow> bool \<Rightarrow> bool \<Rightarrow> edit list \<Rightarrow> config_store \<times> disk \<Rightarrow> unit res \<times> config_store \<times> disk" where
  "change_documents e check individual smb es sd =
     (case read_documents e (snd sd) of
        Inl er \<Rightarrow> (Inl er, sd)
      | Inr (main, profiles) \<Rightarrow>
          (case check main of
             Some er \<Rightarrow> (Inl er, sd)
           | None \<Rightarrow>
               (case edit_document es (if individual then profiles else main) of
                  Inl er \<Rightarrow> (Inl er, sd)
                | Inr doc \<Rightarrow> save_document e (if individual then main else doc) (if individual then doc else profiles) individual smb sd)))"

definition ready_then :: "config_env \<Rightarrow> (config_store \<times> disk \<Rightarrow> 'r \<times> config_store \<times> disk) \<Rightarrow> config_store \<times> disk \<Rightarrow> 'r \<times> config_store \<times> disk" where
  "ready_then e f sd = f (ensure_runtime_config_ready e (fst sd), snd sd)"

definition write_title_fakelib_policy ::
  "config_env \<Rightarrow> string \<Rightarrow> fakelib_mode \<Rightarrow> bool \<Rightarrow> config_store \<times> disk \<Rightarrow> unit res \<times> config_store \<times> disk" where
  "write_title_fakelib_policy e title_id mode global_only sd =
     (case normalize_title_id_value title_id of
        None \<Rightarrow> (Inl EINVAL, sd)
      | Some title \<Rightarrow>
          if \<not> is_supported_game_title_id title then (Inl EINVAL, sd)
          else
            (let section = ''game:'' @ title;
                 val = (if global_only then (if mode = SM_FAKELIB_DISABLED then Some ''on'' else None)
                        else if mode = SM_FAKELIB_DEFAULT then None else Some (sm_config_fakelib_mode_name mode))
             in ready_then e (change_documents e (\<lambda>_. None) True False
                  [Set_Key section (if global_only then ''ignore_global_fakelib'' else ''fakelib'') val]) sd))"

definition sm_config_set_title_fakelib_mode :: "config_env \<Rightarrow> string \<Rightarrow> fakelib_mode \<Rightarrow> config_store \<times> disk \<Rightarrow> unit res \<times> config_store \<times> disk" where
  "sm_config_set_title_fakelib_mode e title mode = write_title_fakelib_policy e title mode False"

definition sm_config_set_title_global_fakelib_excluded :: "config_env \<Rightarrow> string \<Rightarrow> bool \<Rightarrow> config_store \<times> disk \<Rightarrow> unit res \<times> config_store \<times> disk" where
  "sm_config_set_title_global_fakelib_excluded e title excluded =
     write_title_fakelib_policy e title (if excluded then SM_FAKELIB_DISABLED else SM_FAKELIB_DEFAULT) True"

definition sm_config_set_title_fakelib_enabled :: "config_env \<Rightarrow> string \<Rightarrow> bool \<Rightarrow> config_store \<times> disk \<Rightarrow> unit res \<times> config_store \<times> disk" where
  "sm_config_set_title_fakelib_enabled e title enabled =
     sm_config_set_title_fakelib_mode e title (if enabled then SM_FAKELIB_FULL else SM_FAKELIB_DISABLED)"

text \<open>The result is the size written.\<close>

definition upsert_image_sector_size_autotune :: "config_env \<Rightarrow> string \<Rightarrow> u32 \<Rightarrow> config_store \<times> disk \<Rightarrow> u32 res \<times> config_store \<times> disk" where
  "upsert_image_sector_size_autotune e filename sector_size sd =
     (case normalize_image_filename_value filename of
        None \<Rightarrow> (Inl EINVAL, sd)
      | Some name \<Rightarrow>
          if \<not> is_valid_sector_size sector_size then (Inl EINVAL, sd)
          else
            (case ready_then e (change_documents e (\<lambda>_. None) True False
                    [Set_Key (''image:'' @ name) ''sector_size'' (Some (string_of_nat (unat sector_size)))]) sd of
               (r, sd') \<Rightarrow> (map_sum id (\<lambda>_. sector_size) r, sd')))"

definition flag_text :: "bool \<Rightarrow> string" where
  "flag_text b = (if b then ''on'' else ''off'')"

text \<open>\<open>previous\<close> is the name of the connection to change, \<open>connection\<close> what it becomes.\<close>

definition smb_update_check :: "string option \<Rightarrow> smb_connection option \<Rightarrow> ini \<Rightarrow> errno option" where
  "smb_update_check previous connection main =
     (let old = ''smb:'' @ (case previous of Some p \<Rightarrow> p | None \<Rightarrow> []);
          named = (case previous of Some p \<Rightarrow> p \<noteq> [] | None \<Rightarrow> False)
      in if named \<and> sm_ini_get main old ''path'' = None then Some ENOENT
         else
           (case connection of
              None \<Rightarrow> None
            | Some c \<Rightarrow>
                if (case previous of Some p \<Rightarrow> \<not> strcaseeq p (sc_name c) | None \<Rightarrow> True)
                   \<and> sm_ini_get main (''smb:'' @ sc_name c) ''path'' \<noteq> None
                then Some EEXIST else None))"

definition smb_update_edits :: "string option \<Rightarrow> smb_connection option \<Rightarrow> edit list" where
  "smb_update_edits previous connection =
     (let named = (case previous of Some p \<Rightarrow> if p = [] then None else Some p | None \<Rightarrow> None) in
      (case (named, connection) of
         (Some p, None) \<Rightarrow> [Remove_Section (''smb:'' @ p)]
       | (Some p, Some c) \<Rightarrow> if p \<noteq> sc_name c then [Rename_Section (''smb:'' @ p) (''smb:'' @ sc_name c)] else []
       | (None, _) \<Rightarrow> [])
      @ (case connection of
           None \<Rightarrow> []
         | Some c \<Rightarrow>
             (let section = ''smb:'' @ sc_name c in
              [Set_Key section ''path'' (Some (sc_path c)), Set_Key section ''username'' (Some (sc_username c)),
               Set_Key section ''password'' (Some (sc_password c)), Set_Key section ''active'' (Some (flag_text (sc_active c))),
               Set_Key section ''read_only'' (Some (flag_text (sc_read_only c)))])))"

definition sm_config_smb_update ::
  "config_env \<Rightarrow> string option \<Rightarrow> smb_connection option \<Rightarrow> config_store \<times> disk \<Rightarrow> unit res \<times> config_store \<times> disk" where
  "sm_config_smb_update e previous connection sd =
     (case (case connection of
              Some c \<Rightarrow> sm_smb_validate c
            | None \<Rightarrow> if previous = None \<or> previous = Some [] then Inl EINVAL else Inr ()) of
        Inl er \<Rightarrow> (Inl er, sd)
      | Inr _ \<Rightarrow>
          if (case previous of Some p \<Rightarrow> length p \<ge> 64 | None \<Rightarrow> False) then (Inl EINVAL, sd)
          else ready_then e (change_documents e (smb_update_check previous connection) False True (smb_update_edits previous connection)) sd)"

definition sm_smb_save :: "config_env \<Rightarrow> string option \<Rightarrow> smb_connection option \<Rightarrow> config_store \<times> disk \<Rightarrow> unit res \<times> config_store \<times> disk" where
  "sm_smb_save e previous c sd = (case c of None \<Rightarrow> (Inl EINVAL, sd) | Some _ \<Rightarrow> sm_config_smb_update e previous c sd)"

definition sm_smb_remove :: "config_env \<Rightarrow> string option \<Rightarrow> config_store \<times> disk \<Rightarrow> unit res \<times> config_store \<times> disk" where
  "sm_smb_remove e name sd = sm_config_smb_update e name None sd"

text \<open>The scan paths of the web page, normalised and without duplicates.\<close>

fun web_scan_paths :: "string list \<Rightarrow> string list \<Rightarrow> string list option" where
  "web_scan_paths [] acc = Some acc"
| "web_scan_paths (p # ps) acc =
     (case normalize_absolute_path_value p of
        None \<Rightarrow> None
      | Some n \<Rightarrow>
          if n = ''/'' \<or> is_under_image_mount_base n then None
          else web_scan_paths ps (if n \<in> set acc then acc else acc @ [n]))"

record web_settings =
  ws_debug :: bool
  ws_quiet :: bool
  ws_update_emulators :: bool
  ws_auto_update_ampr :: bool
  ws_remove_missing :: bool
  ws_remove_delay :: u32
  ws_allow_lan :: bool
  ws_fan_target :: u32
  ws_scan_paths :: "string list"
  ws_fakelib_mode :: fakelib_mode

definition web_settings_ok :: "web_settings \<Rightarrow> bool" where
  "web_settings_ok w \<longleftrightarrow>
     \<not> (ws_remove_delay w < MIN_AUTO_REMOVE_MISSING_DELAY_SECONDS \<or> ws_remove_delay w > MAX_AUTO_REMOVE_MISSING_DELAY_SECONDS
        \<or> ws_fan_target w \<noteq> FAN_TARGET_TEMPERATURE_SYSTEM
          \<and> (ws_fan_target w < MIN_FAN_TARGET_TEMPERATURE_C \<or> ws_fan_target w > MAX_FAN_TARGET_TEMPERATURE_C)
        \<or> length (ws_scan_paths w) > MAX_SCAN_PATHS \<or> ws_fakelib_mode w = SM_FAKELIB_DEFAULT)"

definition web_settings_edits :: "web_settings \<Rightarrow> string list \<Rightarrow> edit list" where
  "web_settings_edits w paths =
     [Set_Key ''general'' ''debug'' (Some (flag_text (ws_debug w))), Set_Key ''general'' ''quiet_mode'' (Some (flag_text (ws_quiet w))),
      Set_Key ''emulators'' ''update_enabled'' (Some (flag_text (ws_update_emulators w))),
      Set_Key ''emulators'' ''auto_update_ampr'' (Some (flag_text (ws_auto_update_ampr w))),
      Set_Key ''fakelib'' ''default_mode'' (Some (sm_config_fakelib_mode_name (ws_fakelib_mode w))),
      Set_Key ''library'' ''remove_missing'' (Some (flag_text (ws_remove_missing w))),
      Set_Key ''library'' ''remove_delay_seconds'' (Some (string_of_nat (unat (ws_remove_delay w)))),
      Set_Key ''api'' ''bind_address'' (Some (if ws_allow_lan w then ''0.0.0.0'' else ''127.0.0.1'')),
      Set_Key ''fan'' ''target_temperature''
        (Some (if ws_fan_target w = FAN_TARGET_TEMPERATURE_SYSTEM then ''system'' else string_of_nat (unat (ws_fan_target w)))),
      Set_Key ''scan'' ''path'' None]
     @ map (\<lambda>p. Append_Key ''scan'' ''path'' p) paths"

definition sm_config_write_web_settings :: "config_env \<Rightarrow> web_settings \<Rightarrow> config_store \<times> disk \<Rightarrow> unit res \<times> config_store \<times> disk" where
  "sm_config_write_web_settings e w sd =
     (if \<not> web_settings_ok w then (Inl EINVAL, sd)
      else
        (case web_scan_paths (ws_scan_paths w) [] of
           None \<Rightarrow> (Inl EINVAL, sd)
         | Some paths \<Rightarrow> ready_then e (change_documents e (\<lambda>_. None) False False (web_settings_edits w paths)) sd))"

section \<open>Every configuration in force is acceptable\<close>

text \<open>The operations that write.\<close>

inductive config_write :: "config_env \<Rightarrow> config_store \<times> disk \<Rightarrow> bool \<Rightarrow> config_store \<times> disk \<Rightarrow> bool" for e where
  fakelib: "sm_config_set_title_fakelib_mode e t m sd = (r, sd') \<Longrightarrow> config_write e sd (r = Inr ()) sd'"
| excluded: "sm_config_set_title_global_fakelib_excluded e t b sd = (r, sd') \<Longrightarrow> config_write e sd (r = Inr ()) sd'"
| enabled: "sm_config_set_title_fakelib_enabled e t b sd = (r, sd') \<Longrightarrow> config_write e sd (r = Inr ()) sd'"
| autotune: "upsert_image_sector_size_autotune e f n sd = (ar, sd') \<Longrightarrow> config_write e sd (\<exists>v. ar = Inr v) sd'"
| smb: "sm_config_smb_update e prev conn sd = (r, sd') \<Longrightarrow> config_write e sd (r = Inr ()) sd'"
| web: "sm_config_write_web_settings e w sd = (r, sd') \<Longrightarrow> config_write e sd (r = Inr ()) sd'"

text \<open>Before the first operation the state is not ready; files change at any time by other hands.\<close>

inductive config_reachable :: "config_store \<times> disk \<Rightarrow> bool" where
  start: "\<not> st_ready st \<Longrightarrow> config_reachable (st, d)"
| ready: "config_reachable (st, d) \<Longrightarrow> config_reachable (ensure_runtime_config_ready e st, d)"
| edited: "config_reachable (st, d) \<Longrightarrow> config_reachable (st, d')"
| load: "config_reachable (st, d) \<Longrightarrow> load_runtime_config e d st = (ok, st') \<Longrightarrow> config_reachable (st', d)"
| reload: "config_reachable (st, d) \<Longrightarrow> reload_runtime_config_if_changed e d st = (ok, st') \<Longrightarrow> config_reachable (st', d)"
| saved: "config_reachable sd \<Longrightarrow> config_write e sd ok sd' \<Longrightarrow> config_reachable sd'"

definition store_ok :: "config_store \<Rightarrow> bool" where
  "store_ok st \<longleftrightarrow> (st_ready st \<longrightarrow> state_ok (st_state st))"

lemma defaults_ok: "state_ok init_runtime_config_defaults"
  using default_config_ok managed_ok [OF default_paths_ok [of "[]"]]
  by (simp add: state_ok_def init_runtime_config_defaults_def init_runtime_scan_paths_defaults_def scan_paths_ok_def rules_ok_def
      smb_ok_def list_all_length blank_rule_def)

lemma ensure_ok: "store_ok st \<Longrightarrow> store_ok (ensure_runtime_config_ready e st) \<and> st_ready (ensure_runtime_config_ready e st)"
  by (simp add: store_ok_def ensure_runtime_config_ready_def init_runtime_config_def defaults_ok)

lemma loaded_ok: "load_runtime_config_state e d = Inr s \<Longrightarrow> state_ok s"
  by (auto simp: load_runtime_config_state_def parsed_state_ok split: sum.splits)

lemma publish_ok:
  assumes "state_ok s" "state_ok parsed"
  shows "state_ok (publish_individual parsed s)" "state_ok (publish_smb parsed s)"
proof -
  have "titles_ok ((cs_cfg s)\<lparr>c_fakelib_rules := c_fakelib_rules (cs_cfg parsed),
      c_global_fakelib_exclude_title_ids := c_global_fakelib_exclude_title_ids (cs_cfg parsed)\<rparr>)"
    using assms by (simp add: state_ok_def config_ok_def titles_ok_def)
  then show "state_ok (publish_individual parsed s)"
    using assms by (simp add: state_ok_def publish_individual_def config_ok_def)
  show "state_ok (publish_smb parsed s)" using assms by (simp add: state_ok_def publish_smb_def)
qed

text \<open>What a change of the files does to the store: nothing, or it publishes a part of an accepted configuration.\<close>

definition changed_store :: "config_store \<Rightarrow> config_store \<Rightarrow> bool" where
  "changed_store st st' \<longleftrightarrow> st' = st \<or> (\<exists>parsed f g. state_ok parsed
     \<and> st' = st\<lparr>st_state := (if g then publish_smb parsed else id) ((if f then publish_individual parsed else id) (st_state st))\<rparr>)"

lemma changed_store_ok: "changed_store st st' \<Longrightarrow> store_ok st \<Longrightarrow> store_ok st'"
  by (auto simp: changed_store_def store_ok_def publish_ok)

text \<open>A file is replaced whole or not at all, and no other file changes.\<close>

lemma written_file:
  assumes "sm_ini_write f se p doc d = (r, d')"
  shows "d' = d \<or> d' = d(p := doc_text doc)" "r \<noteq> Inr () \<Longrightarrow> se = None \<Longrightarrow> sync_parent None p = None \<Longrightarrow> d' = d"
  using assms by (auto simp: sm_ini_write_def sync_parent_def split: option.splits if_splits prod.splits)

lemma config_paths [simp]: "sync_parent None CONFIG_FILE = None" "sync_parent None PROFILES_FILE = None"
  by (simp_all add: sync_parent_def CONFIG_FILE_def PROFILES_FILE_def)

text \<open>The outcome of a change: on success part of an accepted configuration is published; on failure nothing is, and the files are as they were
  unless the directory could not be synced. One file at most changes, and gets the whole text of a document that was accepted.\<close>

definition change_outcome :: "config_env \<Rightarrow> config_store \<times> disk \<Rightarrow> bool \<Rightarrow> config_store \<times> disk \<Rightarrow> bool" where
  "change_outcome e sd ok sd' \<longleftrightarrow>
     changed_store (fst sd) (fst sd')
     \<and> (snd sd' = snd sd
        \<or> (\<exists>main profiles s. parse_runtime_config_state main profiles = Inr s
             \<and> (snd sd' = (snd sd)(CONFIG_FILE := doc_text main) \<or> snd sd' = (snd sd)(PROFILES_FILE := doc_text profiles))))
     \<and> (\<not> ok \<longrightarrow> fst sd' = fst sd \<and> (e_sync e = None \<longrightarrow> snd sd' = snd sd))"

lemma save_outcome:
  assumes "save_document e main profiles i m sd = (r, sd')"
  shows "change_outcome e sd (r = Inr ()) sd'"
proof -
  let ?p = "if i then PROFILES_FILE else CONFIG_FILE"
  obtain sr doc where s: "sm_ini_set (if i then profiles else main) ''config'' ''version'' (Some ''2'') = (sr, doc)" by fastforce
  define main' where "main' = (if i then main else doc)"
  define profiles' where "profiles' = (if i then doc else profiles)"
  consider "sd' = sd" "r \<noteq> Inr ()"
    | parsed wr d where "parse_runtime_config_state main' profiles' = Inr parsed" "sm_ini_write (e_io e) (e_sync e) ?p doc (snd sd) = (wr, d)"
      "r = wr" "sd' = ((if wr = Inr () then (fst sd)\<lparr>st_state := (if m then publish_smb parsed else id) ((if i then publish_individual parsed else id) (st_state (fst sd)))\<rparr>
         else fst sd), d)"
    using assms s by (auto simp: save_document_def Let_def main'_def profiles'_def split: sum.splits prod.splits if_splits)
  then show ?thesis
  proof cases
    case (2 parsed wr d)
    have "d = snd sd \<or> d = (snd sd)(CONFIG_FILE := doc_text main') \<or> d = (snd sd)(PROFILES_FILE := doc_text profiles')"
      using written_file(1) [OF 2(2)] by (auto simp: main'_def profiles'_def split: if_splits)
    moreover have "d = snd sd" if "wr \<noteq> Inr ()" "e_sync e = None" using written_file(2) [OF 2(2) that] by simp
    moreover have "changed_store (fst sd) (fst sd')"
      using 2 parsed_state_ok [OF 2(1)] unfolding changed_store_def by (cases "wr = Inr ()") auto
    ultimately show ?thesis using 2 by (auto simp: change_outcome_def)
  qed (simp add: change_outcome_def changed_store_def)
qed

lemma outcome_unchanged: "change_outcome e sd False sd"
  by (simp add: change_outcome_def changed_store_def)

lemma change_documents_outcome:
  assumes "change_documents e check i m es sd = (r, sd')"
  shows "change_outcome e sd (r = Inr ()) sd'"
proof -
  consider "sd' = sd" "r \<noteq> Inr ()" | main profiles where "save_document e main profiles i m sd = (r, sd')"
    using assms by (auto simp: change_documents_def split: sum.splits option.splits prod.splits)
  then show ?thesis using outcome_unchanged save_outcome by cases auto
qed

text \<open>The same for every operation that writes, with the store made ready first.\<close>

definition write_outcome :: "config_env \<Rightarrow> config_store \<times> disk \<Rightarrow> bool \<Rightarrow> config_store \<times> disk \<Rightarrow> bool" where
  "write_outcome e sd ok sd' \<longleftrightarrow> sd' = sd \<and> \<not> ok \<or> change_outcome e (ensure_runtime_config_ready e (fst sd), snd sd) ok sd'"

lemma ready_change_outcome:
  "ready_then e (change_documents e check i m es) sd = (r, sd') \<Longrightarrow> write_outcome e sd (r = Inr ()) sd'"
  using change_documents_outcome by (auto simp: ready_then_def write_outcome_def)

lemma policy_outcome: "write_title_fakelib_policy e t m g sd = (r, sd') \<Longrightarrow> write_outcome e sd (r = Inr ()) sd'"
proof -
  assume a: "write_title_fakelib_policy e t m g sd = (r, sd')"
  consider "sd' = sd" "r \<noteq> Inr ()" | es where "ready_then e (change_documents e (\<lambda>_. None) True False es) sd = (r, sd')"
    using a by (auto simp: write_title_fakelib_policy_def Let_def split: option.splits if_splits)
  then show ?thesis by cases (auto simp: write_outcome_def [of e sd False] dest: ready_change_outcome)
qed

lemma config_write_outcome: "config_write e sd ok sd' \<Longrightarrow> write_outcome e sd ok sd'"
proof (induction rule: config_write.induct)
  case (autotune f n sd ar sd')
  consider "sd' = sd" "\<nexists>v. ar = Inr v"
    | r es where "ready_then e (change_documents e (\<lambda>_. None) True False es) sd = (r, sd')" "ar = map_sum id (\<lambda>_. n) r"
    using autotune by (auto simp: upsert_image_sector_size_autotune_def split: option.splits if_splits prod.splits)
  then show ?case
  proof cases
    case (2 r es)
    have "(\<exists>v. ar = Inr v) \<longleftrightarrow> r = Inr ()" using 2(2) by (cases r) auto
    then show ?thesis using ready_change_outcome [OF 2(1)] by simp
  qed (simp add: write_outcome_def)
next
  case (smb prev conn sd r sd')
  consider "sd' = sd" "r \<noteq> Inr ()" | check es where "ready_then e (change_documents e check False True es) sd = (r, sd')"
    using smb by (auto simp: sm_config_smb_update_def split: option.splits if_splits sum.splits) (metis sum.distinct(1))+
  then show ?case by cases (auto simp: write_outcome_def [of e sd False] dest: ready_change_outcome)
next
  case (web w sd r sd')
  consider "sd' = sd" "r \<noteq> Inr ()" | es where "ready_then e (change_documents e (\<lambda>_. None) False False es) sd = (r, sd')"
    using web by (auto simp: sm_config_write_web_settings_def split: option.splits if_splits)
  then show ?case by cases (auto simp: write_outcome_def [of e sd False] dest: ready_change_outcome)
qed (auto simp: sm_config_set_title_fakelib_mode_def sm_config_set_title_global_fakelib_excluded_def sm_config_set_title_fakelib_enabled_def
    dest: policy_outcome)

lemma reload_store: "reload_runtime_config_if_changed e d st = (ok, st') \<Longrightarrow> store_ok st \<Longrightarrow> store_ok st'"
  using ensure_ok [of st e] loaded_ok [of e d]
  by (auto simp: reload_runtime_config_if_changed_def Let_def store_ok_def split: if_splits sum.splits)

lemma load_store: "load_runtime_config e d st = (ok, st') \<Longrightarrow> store_ok st \<Longrightarrow> store_ok st'"
  using ensure_ok [of st e] loaded_ok [of e d]
  by (auto simp: load_runtime_config_def Let_def store_ok_def split: sum.splits)

lemma reachable_store_ok: "config_reachable sd \<Longrightarrow> store_ok (fst sd)"
proof (induction rule: config_reachable.induct)
  case (saved sd e ok sd')
  then show ?case using config_write_outcome [OF saved(2)] ensure_ok [of "fst sd" e] changed_store_ok
    by (auto simp: write_outcome_def change_outcome_def)
next
  case (start st d)
  then show ?case by (simp add: store_ok_def)
qed (auto simp: ensure_ok dest: reload_store load_store)

text \<open>
  C4. The configuration in force is always one the program can run with: however loads, reloads, the operations that write
  (a fakelib mode, a sector size found by tuning, a connection, the settings of the web page) and edits of the files by other programs are ordered,
  and whatever the system answers, once the configuration has been made ready every number is in its range, every table within its limit
  and without duplicates, and every connection valid.
\<close>
theorem running_config_wellformed:
  assumes "config_reachable (st, d)" "st_ready st"
  shows "state_ok (st_state st)"
  using reachable_store_ok [OF assms(1)] assms(2) by (simp add: store_ok_def)

definition idle_env :: config_env where
  "idle_env = \<lparr>e_stat = (\<lambda>_. None), e_open = (\<lambda>_. None), e_io = io_ok, e_sync = None, e_residue = False\<rparr>"

definition fresh_store :: config_store where
  "fresh_store = \<lparr>st_ready = False, st_state = init_runtime_config_defaults, st_main_stamp = blank_config_stamp, st_profiles_stamp = blank_config_stamp\<rparr>"

theorem running_config_wellformed_witness:
  "config_reachable (snd (load_runtime_config idle_env Map.empty fresh_store), Map.empty)
   \<and> state_ok (st_state (snd (load_runtime_config idle_env Map.empty fresh_store)))"
proof -
  have r: "config_reachable (snd (load_runtime_config idle_env Map.empty fresh_store), Map.empty)"
    by (rule config_reachable.load [OF config_reachable.start [of fresh_store], of _ _ "fst (load_runtime_config idle_env Map.empty fresh_store)"])
      (simp_all add: fresh_store_def)
  moreover have "st_ready (snd (load_runtime_config idle_env Map.empty fresh_store))"
    by (simp add: load_runtime_config_def Let_def ensure_runtime_config_ready_def init_runtime_config_def fresh_store_def split: sum.split)
  ultimately show ?thesis using running_config_wellformed [OF r] by simp
qed

text \<open>
  C24. A change of the configuration that is refused has no effect: when one of the operations that write does not succeed, the
  configuration in force and the stamps it was loaded with are those from before (made ready if they were not), and no file has changed unless
  what failed was syncing the directory after the file was replaced; even then only one of the two files has changed, as a whole,
  to a document that was accepted.
\<close>
theorem failed_write_keeps_config:
  assumes "config_write e (st, d) False (st', d')"
  shows "(st' = st \<or> st' = ensure_runtime_config_ready e st)
    \<and> (e_sync e = None \<longrightarrow> d' = d)
    \<and> (d' = d \<or> (\<exists>main profiles s. parse_runtime_config_state main profiles = Inr s
           \<and> (d' = d(CONFIG_FILE := doc_text main) \<or> d' = d(PROFILES_FILE := doc_text profiles))))"
  using config_write_outcome [OF assms] by (auto simp: write_outcome_def change_outcome_def)

theorem failed_write_keeps_config_witness:
  "fst (sm_config_set_title_fakelib_mode idle_env ''bad'' SM_FAKELIB_FULL (fresh_store, Map.empty)) = Inl EINVAL
   \<and> snd (snd (sm_config_set_title_fakelib_mode idle_env ''bad'' SM_FAKELIB_FULL (fresh_store, Map.empty))) = Map.empty"
proof -
  let ?r = "sm_config_set_title_fakelib_mode idle_env ''bad'' SM_FAKELIB_FULL (fresh_store, Map.empty)"
  have "normalize_title_id_value ''bad'' = Some ''BAD'' \<and> \<not> is_supported_game_title_id ''BAD''" by code_simp
  then have r: "?r = (Inl EINVAL, fresh_store, Map.empty)"
    by (simp add: sm_config_set_title_fakelib_mode_def write_title_fakelib_policy_def)
  have "config_write idle_env (fresh_store, Map.empty) (Inl EINVAL = Inr ()) (fresh_store, Map.empty)"
    by (rule config_write.fakelib [OF r])
  then have "config_write idle_env (fresh_store, Map.empty) False (fresh_store, Map.empty)" by simp
  from failed_write_keeps_config [OF this] show ?thesis using r by (simp add: idle_env_def)
qed

lemma stamp_equals_iff: "config_file_stamp_equals a b \<longleftrightarrow> a = b"
  by (cases a; cases b) (simp add: config_file_stamp_equals_def)

end
