(* ===== verification/Config_Persistence.thy ===== *)
theory Config_Persistence
  imports Config_Store
begin

text \<open>
  From an operation that saves a setting to the configuration of the next start: the settings a document holds decide, by the order of its lines, what
  the program reads from it, and a document that was written is read back with the same settings. Shown for the fakelib mode of a title,
  across writing, flattening and parsing. The last section follows a process from its first load on: the configuration in force is the one the files hold.
\<close>

section \<open>Titles\<close>

definition is_uppercased :: "string \<Rightarrow> bool" where
  "is_uppercased t \<longleftrightarrow> map toupper t = t \<and> list_all isalnum t"

lemma ascii_blank_code: "ascii_blank c \<longleftrightarrow> (of_char c :: nat) \<in> {9, 10, 13, 32}"
proof -
  have "(of_char c :: nat) = of_char d \<longleftrightarrow> c = d" for d by (rule of_char_eq_iff)
  from this [of "CHR 0x09"] this [of "CHR 0x0A"] this [of "CHR 0x0D"] this [of "CHR '' ''"] show ?thesis
    by (auto simp: ascii_blank_def)
qed

lemma case_folding:
  "toupper (tolower c) = toupper c" "isalnum (tolower c) = isalnum c" "ascii_blank (tolower c) = ascii_blank c"
  "isalnum c \<Longrightarrow> isalnum (toupper c)" "toupper (toupper c) = toupper c"
  by (auto simp: toupper_def tolower_def isalnum_def ascii_blank_code Let_def)

lemma alnum_plain: "isalnum c \<Longrightarrow> \<not> ascii_blank c \<and> c \<noteq> CHR '':''"
  by (auto simp: isalnum_def ascii_blank_def Let_def)

lemma fold_inj:
  assumes "toupper c = c" "toupper d = d" "tolower c = tolower d"
  shows "c = d"
  using assms by (metis case_folding(1))

lemma uppercased_eq: "is_uppercased a \<Longrightarrow> is_uppercased b \<Longrightarrow> strcaseeq a b \<longleftrightarrow> a = b"
proof (induction a arbitrary: b)
  case Nil
  then show ?case by (auto simp: strcaseeq_def)
next
  case (Cons c a)
  then show ?case by (cases b) (auto simp: is_uppercased_def strcaseeq_def dest: fold_inj)
qed

lemma trim_ascii_ci: "trim_ascii (ci s) = ci (trim_ascii s)"
  by (simp add: trim_ascii_def ci_def rev_map dropWhile_map comp_def case_folding)

lemma normalize_title_ci: "normalize_title_id_value (ci s) = normalize_title_id_value s"
  by (auto simp: normalize_title_id_value_def trim_ascii_ci Let_def) (auto simp: ci_def list_all_iff comp_def case_folding)

lemma normalize_title_uppercased: "normalize_title_id_value s = Some t \<Longrightarrow> is_uppercased t \<and> t \<noteq> [] \<and> length t < MAX_TITLE_ID"
  using normalized_title [of s t]
  by (auto simp: normalize_title_id_value_def Let_def is_uppercased_def list_all_iff case_folding split: if_splits)

lemma normalize_title_idem: "is_uppercased t \<Longrightarrow> t \<noteq> [] \<Longrightarrow> length t < MAX_TITLE_ID \<Longrightarrow> normalize_title_id_value t = Some t"
proof -
  assume t: "is_uppercased t" "t \<noteq> []" "length t < MAX_TITLE_ID"
  have "dropWhile ascii_blank s = s" if "list_all isalnum s" for s using that alnum_plain by (cases s) auto
  then have "trim_ascii t = t" using t by (simp add: trim_ascii_def is_uppercased_def)
  then show ?thesis using t by (simp add: normalize_title_id_value_def is_uppercased_def)
qed

section \<open>Rules of titles\<close>

definition rules_upper :: "(string \<times> fakelib_mode) list \<Rightarrow> bool" where
  "rules_upper rs \<longleftrightarrow> distinct (map fst rs) \<and> list_all (\<lambda>(t, _). is_uppercased t) rs"

definition rule_mode :: "(string \<times> fakelib_mode) list \<Rightarrow> string \<Rightarrow> fakelib_mode" where
  "rule_mode rs t = (case map_of rs t of Some m \<Rightarrow> m | None \<Rightarrow> SM_FAKELIB_DEFAULT)"

lemma override_rule_mode:
  "rules_upper (c_fakelib_rules c) \<Longrightarrow> is_uppercased t \<Longrightarrow> sm_config_title_fakelib_override c t = rule_mode (c_fakelib_rules c) t"
proof -
  have "(case find (\<lambda>(u, _). strcaseeq u t) rs of Some (_, m) \<Rightarrow> m | None \<Rightarrow> SM_FAKELIB_DEFAULT) = rule_mode rs t"
    if "list_all (\<lambda>(u, _). is_uppercased u) rs" "is_uppercased t" for rs
    using that by (induction rs) (auto simp: rule_mode_def uppercased_eq)
  then show "rules_upper (c_fakelib_rules c) \<Longrightarrow> is_uppercased t \<Longrightarrow> ?thesis"
    by (simp add: rules_upper_def sm_config_title_fakelib_override_def)
qed

lemma set_rule_mode:
  assumes "set_title_fakelib_rule (t, m) rs = Some rs'" "rules_upper rs" "is_uppercased t" "length t < MAX_TITLE_ID"
  shows "rules_upper rs' \<and> rule_mode rs' u = (if u = t then m else rule_mode rs u)"
proof (cases "find_index (\<lambda>r. fst r = t) rs")
  case None
  then have "t \<notin> fst ` set rs" by (auto simp: find_index_None_set)
  moreover then have "map_of rs t = None" by (simp add: map_of_eq_None_iff)
  ultimately show ?thesis using None assms
    by (auto simp: set_title_fakelib_rule_def rules_upper_def rule_mode_def strlcpy_id map_add_def split: if_splits option.split)
next
  case (Some k)
  then have k: "k < length rs" "fst (rs ! k) = t" by (auto simp: find_index_Some)
  define a n b where "a = take k rs" and "n = snd (rs ! k)" and "b = drop (Suc k) rs"
  have rs: "rs = a @ (t, n) # b" unfolding a_def b_def n_def using k by (metis id_take_nth_drop prod.collapse)
  have a: "length a = k" using k by (simp add: a_def)
  have rs': "rs' = (if m = SM_FAKELIB_DEFAULT then a @ b else a @ (t, m) # b)"
    using assms(1) Some a unfolding rs by (auto simp: set_title_fakelib_rule_def list_update_append split: if_splits)
  have d: "distinct (map fst a)" "distinct (map fst b)" "fst ` set a \<inter> fst ` set b = {}" "t \<notin> fst ` set a" "t \<notin> fst ` set b"
    "list_all (\<lambda>(t, _). is_uppercased t) a" "list_all (\<lambda>(t, _). is_uppercased t) b"
    using assms(2) by (simp_all add: rules_upper_def rs)
  then have n: "map_of a t = None" "map_of b t = None" by (simp_all add: map_of_eq_None_iff)
  have "rule_mode rs' u = (if u = t then m else rule_mode rs u)"
    by (cases "u = t"; cases "m = SM_FAKELIB_DEFAULT") (simp_all add: rule_mode_def rs rs' n map_add_def split: option.split)
  moreover have "rules_upper rs'" using d assms(3) by (simp add: rules_upper_def rs')
  ultimately show ?thesis by simp
qed

section \<open>The settings of a document\<close>

text \<open>What a flat document holds, and the settings of \<^verbatim>\<open>profiles.ini\<close> in their old names.\<close>

definition kvs :: "ini \<Rightarrow> (string \<times> string) list" where
  "kvs doc = concat (map (\<lambda>l. case il_key l of None \<Rightarrow> [] | Some k \<Rightarrow> [(k, il_value l)]) doc)"

definition apply_kv :: "string \<times> string \<Rightarrow> parse_state \<Rightarrow> parse_state" where
  "apply_kv kv = apply_setting (fst kv) (snd kv)"

lemma apply_kv_pair [simp]: "apply_kv (k, v) = apply_setting k v"
  by (simp add: apply_kv_def)

lemma apply_lines_kvs: "fold apply_line doc ps = fold apply_kv (kvs doc) ps"
  by (induction doc arbitrary: ps) (auto simp: kvs_def apply_line_def apply_kv_def split: option.split)

definition is_flat :: "ini \<Rightarrow> bool" where
  "is_flat doc \<longleftrightarrow> list_all (\<lambda>l. il_section l = ''runtime'') doc"

lemma flat_append_kvs:
  assumes "flat_append flat k v rest = Inr res" "is_flat flat"
  shows "\<exists>flat'. is_flat flat' \<and> kvs flat' = kvs flat @ [(k, v)] \<and> rest flat' = Inr res"
proof -
  obtain flat' where f: "sm_ini_append flat ''runtime'' k v = (Inr (), flat')" "rest flat' = Inr res"
    using assms(1) by (auto simp: flat_append_def split: sum.splits prod.splits)
  have "section_end flat ''runtime'' = (if flat = [] then None else Some (length flat))"
    using assms(2) by (cases flat rule: rev_cases) (auto simp: is_flat_def)
  then have "flat' = (if flat = [] then [new_header ''runtime''] else flat) @ [new_line ''runtime'' k v]"
    using f(1) by (auto simp: sm_ini_append_def insert_line_def split: if_splits)
  then show ?thesis using f(2) assms(2) by (intro exI [of _ flat']) (auto simp: is_flat_def kvs_def new_line_def new_header_def)
qed

definition touches_rules :: "string \<Rightarrow> bool" where
  "touches_rules k \<longleftrightarrow> strcaseeq k ''fakelib_mode'' \<or> strcaseeq k ''fakelib_exclude''"

lemma legacy_keys_frame: "list_all (\<lambda>m. \<not> touches_rules (ck_legacy m)) sm_config_keys"
  by code_simp

lemma flatten_main_kvs:
  "flatten_main doc flat = Inr flat' \<Longrightarrow> is_flat flat \<Longrightarrow>
     is_flat flat' \<and> (\<exists>add. kvs flat' = kvs flat @ add \<and> list_all (\<lambda>kv. \<not> touches_rules (fst kv)) add)"
proof (induction doc arbitrary: flat)
  case (Cons l ls)
  show ?case
  proof (cases "flatten_main (l # ls) flat = flatten_main ls flat")
    case True
    then show ?thesis using Cons by simp
  next
    case False
    then obtain k m where m: "find_config_key (il_section l) k = Some m" "flat_append flat (ck_legacy m) (il_value l) (flatten_main ls) = Inr flat'"
      using Cons.prems(1) by (auto split: option.splits if_splits)
    from flat_append_kvs [OF m(2) Cons.prems(2)] obtain f where f: "is_flat f" "kvs f = kvs flat @ [(ck_legacy m, il_value l)]" "flatten_main ls f = Inr flat'"
      by blast
    have "m \<in> set sm_config_keys" using m(1) by (auto simp: find_config_key_def find_Some_iff)
    then have "\<not> touches_rules (ck_legacy m)" using legacy_keys_frame by (auto simp: list_all_iff)
    then show ?thesis using Cons.IH [OF f(3,1)] f(2) by auto
  qed
qed auto

fun profile_kvs :: "ini \<Rightarrow> (string \<times> string) list" where
  "profile_kvs [] = []"
| "profile_kvs (l # ls) =
     (case il_key l of
        None \<Rightarrow> []
      | Some k \<Rightarrow>
          if strcaseeq (il_section l) ''config'' \<or> set_again l ls then []
          else (case profile_line l k of Setting key val \<Rightarrow> [(key, val)] | _ \<Rightarrow> [])) @ profile_kvs ls"

lemma flatten_profiles_kvs:
  "flatten_profiles doc flat = Inr flat' \<Longrightarrow> is_flat flat \<Longrightarrow> is_flat flat' \<and> kvs flat' = kvs flat @ profile_kvs doc"
proof (induction doc arbitrary: flat)
  case (Cons l ls)
  show ?case
  proof (cases "flatten_profiles (l # ls) flat = flatten_profiles ls flat \<and> profile_kvs (l # ls) = profile_kvs ls")
    case True
    then show ?thesis using Cons by simp
  next
    case False
    then obtain key val where m: "profile_kvs (l # ls) = (key, val) # profile_kvs ls" "flat_append flat key val (flatten_profiles ls) = Inr flat'"
      using Cons.prems(1) by (auto split: option.splits if_splits profile_setting.splits)
    from flat_append_kvs [OF m(2) Cons.prems(2)] show ?thesis using Cons.IH m(1) by auto
  qed
qed auto

section \<open>The mode of a title\<close>

abbreviation rules_of :: "parse_state \<Rightarrow> (string \<times> fakelib_mode) list" where
  "rules_of ps \<equiv> c_fakelib_rules (cs_cfg (ps_state ps))"

text \<open>Every setting but the two kinds of rules leaves the rules.\<close>

definition keeps_rules :: "cfg_setting \<Rightarrow> bool" where
  "keeps_rules put \<longleftrightarrow> (\<forall>v c c'. put v c = Some c' \<longrightarrow> c_fakelib_rules c' = c_fakelib_rules c)"

lemma keeps_rules_builders:
  "(\<And>b c. c_fakelib_rules (put1 b c) = c_fakelib_rules c) \<Longrightarrow> keeps_rules (by_bool put1)"
  "(\<And>b c. c_fakelib_rules (put2 b c) = c_fakelib_rules c) \<Longrightarrow> keeps_rules (by_u32 valid put2)"
  "(\<And>b c. c_fakelib_rules (put3 b c) = c_fakelib_rules c) \<Longrightarrow> keeps_rules (by_path put3)"
  "(\<And>b c. c_fakelib_rules (put4 b c) = c_fakelib_rules c) \<Longrightarrow> keeps_rules (by_backend put4)"
  "keeps_rules set_language" "keeps_rules set_bind_address" "keeps_rules set_fakelib_default_mode" "keeps_rules set_priority"
  "keeps_rules set_global_exclude" "keeps_rules set_update_url" "keeps_rules set_fan_target"
  by (auto simp: keeps_rules_def by_bool_def by_u32_def by_path_def by_backend_def set_language_def set_bind_address_def
      set_fakelib_default_mode_def set_priority_def set_global_exclude_def set_update_url_def set_fan_target_def split: option.splits if_splits)

lemma settings_keep_rules: "list_all (\<lambda>(k, put). touches_rules k \<or> keeps_rules put) cfg_settings"
proof -
  have "touches_rules ''fakelib_exclude''" "touches_rules ''fakelib_mode''" by code_simp+
  then show ?thesis by (simp add: cfg_settings_defs keeps_rules_builders)
qed

lemma apply_setting_invalid: "ps_invalid ps \<Longrightarrow> ps_invalid (apply_setting k v ps)"
  by (auto simp: apply_setting_def put_state_def scanpath_setting_def Let_def split: option.split)

lemma apply_kvs_invalid: "ps_invalid ps \<Longrightarrow> ps_invalid (fold apply_kv xs ps)"
  by (induction xs arbitrary: ps) (auto simp: apply_kv_def apply_setting_invalid)

lemma other_setting_rules:
  assumes "\<not> touches_rules k"
  shows "rules_of (apply_setting k v ps) = rules_of ps"
proof (cases "find (\<lambda>(k', _). strcaseeq k k') cfg_settings")
  case None
  then show ?thesis by (auto simp: apply_setting_def put_state_def scanpath_setting_def Let_def split: option.split)
next
  case (Some x)
  then have x: "x \<in> set cfg_settings" "strcaseeq k (fst x)" by (auto simp: find_Some_iff split_beta)
  then have "\<not> touches_rules (fst x)" using assms by (auto simp: touches_rules_def dest: strcaseeq_trans)
  then have "keeps_rules (snd x)" using x(1) settings_keep_rules by (auto simp: list_all_iff)
  then show ?thesis using Some
    by (auto simp: apply_setting_def put_state_def scanpath_setting_def Let_def keeps_rules_def split_beta split: option.split)
qed

lemma fakelib_setting:
  "apply_setting ''fakelib_mode'' v ps = put_state (map_option (\<lambda>c. (ps_state ps)\<lparr>cs_cfg := c\<rparr>) (set_fakelib_rule ''fakelib_mode'' v (cs_cfg (ps_state ps)))) ps"
proof -
  have "find (\<lambda>(k', _). strcaseeq ''fakelib_mode'' k') cfg_settings = Some (''fakelib_mode'', set_fakelib_rule ''fakelib_mode'')"
    by (simp add: cfg_settings_defs strcaseeq_def tolower_def)
  moreover have "list_all (\<lambda>k. \<not> strcaseeq ''fakelib_mode'' k) [''image_ro'', ''image_rw'', ''image_sector'', ''scanpath'']" by code_simp
  ultimately show ?thesis by (simp add: apply_setting_def Let_def)
qed

definition names_title :: "string \<Rightarrow> string \<Rightarrow> bool" where
  "names_title t section \<longleftrightarrow> starts_case ''game:'' section \<and> normalize_title_id_value (drop 5 section) = Some t"

text \<open>No second section of the document names the title (with blanks in front of it).\<close>

definition sole_section :: "ini \<Rightarrow> string \<Rightarrow> bool" where
  "sole_section doc t \<longleftrightarrow>
     list_all (\<lambda>((section, key), _). key = ''fakelib'' \<and> names_title t section \<longrightarrow> section = ci (''game:'' @ t)) (settings doc)"

lemma tolower_idem: "tolower (tolower c) = tolower c"
  by (simp add: tolower_def Let_def)

lemma names_title_ci: "names_title t (ci section) = names_title t section"
proof -
  have "drop 5 (ci section) = ci (drop 5 section)" "take n (ci section) = ci (take n section)" for n
    by (simp_all add: ci_def drop_map take_map)
  moreover have "strcaseeq (ci a) b = strcaseeq a b" for a b
    by (simp add: strcaseeq_def ci_def comp_def tolower_idem)
  ultimately show ?thesis by (simp add: names_title_def starts_case_def normalize_title_ci)
qed

lemma titled_section: "names_title t (''game:'' @ t)" if "is_uppercased t" "t \<noteq> []" "length t < MAX_TITLE_ID"
proof -
  have "strcaseeq ''game:'' ''game:''" by simp
  then show ?thesis using normalize_title_idem [OF that] by (simp add: names_title_def starts_case_def)
qed

definition parsed_mode :: "string \<Rightarrow> string \<Rightarrow> fakelib_mode" where
  "parsed_mode t v = snd (the (parse_title_fakelib_rule ''fakelib_mode'' (strlcpy (t @ '':'' @ v) (MAX_PATH + 64))))"

lemma parsed_rule_title:
  assumes "parse_title_fakelib_rule ''fakelib_mode'' (strlcpy (t @ '':'' @ v) (MAX_PATH + 64)) = Some (u, m)"
    "is_uppercased t" "t \<noteq> []" "length t < MAX_TITLE_ID"
  shows "u = t"
proof -
  have n: "list_all (\<lambda>c. c \<noteq> CHR '':'') t" using assms(2) alnum_plain by (auto simp: is_uppercased_def list_all_iff)
  have "strlcpy (t @ '':'' @ v) (MAX_PATH + 64) = t @ CHR '':'' # take (MAX_PATH + 62 - length t) v"
    using assms(4) by (simp add: strlcpy_def take_Cons' min_def)
  then have "takeWhile (\<lambda>c. c \<noteq> CHR '':'') (strlcpy (t @ '':'' @ v) (MAX_PATH + 64)) = t"
    using n by (simp add: takeWhile_append2 list_all_iff)
  moreover have "\<not> strcaseeq ''fakelib_mode'' ''fakelib_exclude''" by code_simp
  ultimately show ?thesis using assms(1) normalize_title_idem [OF assms(2-4)]
    by (auto simp: parse_title_fakelib_rule_def Let_def split: if_splits option.splits)
qed

lemma fakelib_step:
  assumes "\<not> ps_invalid (apply_setting ''fakelib_mode'' (strlcpy (u @ '':'' @ v) (MAX_PATH + 64)) ps)" (is "\<not> ps_invalid ?ps")
    and "rules_upper (rules_of ps)" "is_uppercased u" "u \<noteq> []" "length u < MAX_TITLE_ID"
  shows "rules_upper (rules_of ?ps) \<and> rule_mode (rules_of ?ps) t = (if t = u then parsed_mode u v else rule_mode (rules_of ps) t)"
proof -
  let ?v = "strlcpy (u @ '':'' @ v) (MAX_PATH + 64)"
  obtain x m rs where p: "parse_title_fakelib_rule ''fakelib_mode'' ?v = Some (x, m)" "set_title_fakelib_rule (x, m) (rules_of ps) = Some rs"
    "rules_of ?ps = rs"
    using assms(1) by (auto simp: fakelib_setting set_fakelib_rule_def put_state_def split: option.splits)
  have "x = u" using parsed_rule_title [OF p(1) assms(3-5)] .
  then show ?thesis using set_rule_mode [OF p(2)[unfolded \<open>x = u\<close>] assms(2,3,5), of t] p(1,3) by (simp add: parsed_mode_def)
qed

lemma profile_settings:
  "profile_line l k = Setting key val \<Longrightarrow>
     key = ''fakelib_mode'' \<and> strcaseeq k ''fakelib'' \<and> (\<exists>u. names_title u (il_section l) \<and> val = strlcpy (u @ '':'' @ il_value l) (MAX_PATH + 64))
     \<or> \<not> touches_rules key \<and> \<not> (strcaseeq k ''fakelib'' \<and> starts_case ''game:'' (il_section l))"
proof -
  have "list_all (\<lambda>k. \<not> touches_rules k) [''global_fakelib_exclude'', ''image_ro'', ''image_rw'', ''image_sector'']" by code_simp
  moreover have "\<not> (strcaseeq k ''fakelib'' \<and> strcaseeq k ''ignore_global_fakelib'')"
    using strcaseeq_trans [of "''fakelib''" k "''ignore_global_fakelib''"] by (auto simp: strcaseeq_sym [of k]) (code_simp)
  ultimately show "profile_line l k = Setting key val \<Longrightarrow> ?thesis"
    by (auto simp: profile_line_def game_profile_def image_profile_def names_title_def split: if_splits option.splits)
qed

lemma profile_step:
  assumes "profile_line l k = Setting key val" "\<not> ps_invalid (apply_setting key val ps)" "rules_upper (rules_of ps)"
  shows "rules_upper (rules_of (apply_setting key val ps)) \<and> rule_mode (rules_of (apply_setting key val ps)) t
    = (if strcaseeq k ''fakelib'' \<and> names_title t (il_section l) then parsed_mode t (il_value l) else rule_mode (rules_of ps) t)"
  using profile_settings [OF assms(1)]
proof (elim disjE conjE exE)
  fix u assume u: "key = ''fakelib_mode''" "strcaseeq k ''fakelib''" "names_title u (il_section l)" "val = strlcpy (u @ '':'' @ il_value l) (MAX_PATH + 64)"
  have n: "normalize_title_id_value (drop 5 (il_section l)) = Some u" using u(3) by (simp add: names_title_def)
  have "names_title t (il_section l) \<longleftrightarrow> t = u" using u(3) by (auto simp: names_title_def)
  then show ?thesis using fakelib_step [of u "il_value l" ps t] assms(2,3) u normalize_title_uppercased [OF n] by simp
qed (use assms(3) in \<open>auto simp: other_setting_rules names_title_def\<close>)

lemma get_Cons:
  "sm_ini_get (l # ls) s k = (case sm_ini_get ls s k of Some v \<Rightarrow> Some v | None \<Rightarrow> if line_is s k l then Some (il_value l) else None)"
proof (cases "line_is s k l")
  case True
  then show ?thesis by (simp add: get_settings line_is_settingD map_add_def split: option.split)
qed (simp add: get_settings setting_other map_add_def split: option.split)

lemma line_is_ci: "ci s = ci s' \<Longrightarrow> ci k = ci k' \<Longrightarrow> line_is s k = line_is s' k'"
  by (intro ext) (simp add: line_is_def strcaseeq_ci split: option.split)

lemma sole_Cons:
  assumes "sole_section (l # ls) t"
  shows "sole_section ls t" "il_key l = Some k \<Longrightarrow> strcaseeq k ''fakelib'' \<Longrightarrow> names_title t (il_section l) \<Longrightarrow> line_is (''game:'' @ t) ''fakelib'' l"
proof -
  show "sole_section ls t" using assms by (simp add: sole_section_def)
  have "ci ''fakelib'' = ''fakelib''" by code_simp
  then show "il_key l = Some k \<Longrightarrow> strcaseeq k ''fakelib'' \<Longrightarrow> names_title t (il_section l) \<Longrightarrow> line_is (''game:'' @ t) ''fakelib'' l"
    using assms by (auto simp: sole_section_def setting_def line_is_def strcaseeq_ci names_title_ci)
qed

text \<open>The settings of the profiles give a title the mode its line says, and leave it when there is none.\<close>

lemma profiles_mode:
  assumes t: "is_uppercased t" "t \<noteq> []" "length t < MAX_TITLE_ID" "is_supported_game_title_id t"
  shows "\<not> ps_invalid (fold apply_kv (profile_kvs doc) ps) \<Longrightarrow> rules_upper (rules_of ps) \<Longrightarrow> sole_section doc t \<Longrightarrow>
    rules_upper (rules_of (fold apply_kv (profile_kvs doc) ps))
    \<and> rule_mode (rules_of (fold apply_kv (profile_kvs doc) ps)) t
      = (case sm_ini_get doc (''game:'' @ t) ''fakelib'' of Some v \<Rightarrow> parsed_mode t v | None \<Rightarrow> rule_mode (rules_of ps) t)"
proof (induction doc arbitrary: ps)
  case (Cons l ls)
  let ?is = "line_is (''game:'' @ t) ''fakelib''"
  have named: "names_title t (il_section l)" "strcaseeq k ''fakelib''" "\<not> strcaseeq (il_section l) ''config''"
    "set_again l ls \<longleftrightarrow> list_ex ?is ls" if "?is l" "il_key l = Some k" for k
  proof -
    have c: "ci (il_section l) = ci (''game:'' @ t)" "ci k = ci ''fakelib''" using that by (simp_all add: line_is_def strcaseeq_ci)
    show "names_title t (il_section l)" using titled_section [OF t(1-3)] names_title_ci [of t] c(1) by metis
    show "strcaseeq k ''fakelib''" using c by (simp add: strcaseeq_ci)
    have "hd (ci (''game:'' @ t)) \<noteq> hd (ci ''config'')" by (simp add: ci_def tolower_def)
    then have "ci (il_section l) \<noteq> ci ''config''" unfolding c(1) by auto
    then show "\<not> strcaseeq (il_section l) ''config''" by (simp only: strcaseeq_ci not_False_eq_True)
    show "set_again l ls \<longleftrightarrow> list_ex ?is ls" using line_is_ci [OF c] that(2) by (simp add: set_again_def)
  qed
  have none: "sm_ini_get ls (''game:'' @ t) ''fakelib'' = None \<longleftrightarrow> \<not> list_ex ?is ls"
    using settings_none [of "''game:'' @ t" "''fakelib''" ls] find_None_iff [of ?is "rev ls"] by (auto simp: sm_ini_get_def list_ex_iff)
  show ?case
  proof (cases "profile_kvs (l # ls) = profile_kvs ls")
    case True
    have "list_ex ?is ls" if isl: "?is l"
    proof (rule ccontr)
      assume n: "\<not> list_ex ?is ls"
      obtain k where k: "il_key l = Some k" using isl by (auto simp: line_is_def split: option.splits)
      have "profile_line l k = Setting ''fakelib_mode'' (strlcpy (t @ '':'' @ il_value l) (MAX_PATH + 64))"
        using named [OF isl k] t(4) by (simp add: profile_line_def game_profile_def names_title_def)
      then have "length (profile_kvs (l # ls)) = Suc (length (profile_kvs ls))" using named(3,4) [OF isl k] n k by simp
      then show False using True by simp
    qed
    then have "sm_ini_get (l # ls) (''game:'' @ t) ''fakelib'' = sm_ini_get ls (''game:'' @ t) ''fakelib''"
      using none by (auto simp: get_Cons split: option.split)
    then show ?thesis using Cons sole_Cons(1) True by simp
  next
    case False
    then obtain k key val where p: "il_key l = Some k" "profile_line l k = Setting key val" "\<not> set_again l ls"
      "profile_kvs (l # ls) = (key, val) # profile_kvs ls"
      by (auto split: option.splits if_splits profile_setting.splits)
    let ?ps = "apply_setting key val ps"
    have valid: "\<not> ps_invalid (fold apply_kv (profile_kvs ls) ?ps)" using Cons.prems(1) unfolding p(4) fold_simps apply_kv_pair .
    then have "\<not> ps_invalid ?ps" using apply_kvs_invalid by blast
    then have step: "rules_upper (rules_of ?ps)" "rule_mode (rules_of ?ps) t
        = (if strcaseeq k ''fakelib'' \<and> names_title t (il_section l) then parsed_mode t (il_value l) else rule_mode (rules_of ps) t)"
      using profile_step [OF p(2) _ Cons.prems(2), of t] by blast+
    have "?is l \<longleftrightarrow> strcaseeq k ''fakelib'' \<and> names_title t (il_section l)"
      using named [OF _ p(1)] sole_Cons(2) [OF Cons.prems(3) p(1)] by blast
    moreover have "sm_ini_get ls (''game:'' @ t) ''fakelib'' = None" if "?is l" using that named(4) [OF that p(1)] p(3) none by simp
    ultimately show ?thesis
      using Cons.IH [OF valid step(1) sole_Cons(1) [OF Cons.prems(3)]] step(2)
      unfolding p(4) fold_simps apply_kv_pair by (auto simp: get_Cons split: option.split)
  qed
qed (simp add: get_settings)

lemma main_kvs_mode:
  "list_all (\<lambda>kv. \<not> touches_rules (fst kv)) xs \<Longrightarrow> rules_of (fold apply_kv xs ps) = rules_of ps"
  by (induction xs arbitrary: ps) (auto simp: apply_kv_def other_setting_rules)

lemma parsed_title_mode:
  assumes "parse_runtime_config_state main profiles = Inr s" "sole_section profiles t" "normalize_title_id_value x = Some t" "is_supported_game_title_id t"
  shows "sm_config_title_fakelib_override (cs_cfg s) t
    = (case sm_ini_get profiles (''game:'' @ t) ''fakelib'' of Some v \<Rightarrow> parsed_mode t v | None \<Rightarrow> SM_FAKELIB_DEFAULT)"
proof -
  obtain flat smb where f: "flatten_documents main profiles = Inr flat"
    and s: "s = finish_scan_paths (fold apply_line flat \<lparr>ps_state = init_runtime_config_defaults\<lparr>cs_smb := smb\<rparr>, ps_custom = False, ps_invalid = False\<rparr>)"
    and v: "\<not> ps_invalid (fold apply_line flat \<lparr>ps_state = init_runtime_config_defaults\<lparr>cs_smb := smb\<rparr>, ps_custom = False, ps_invalid = False\<rparr>)"
    using assms(1) by (auto simp: parse_runtime_config_state_def Let_def split: sum.splits if_splits)
  let ?init = "\<lparr>ps_state = init_runtime_config_defaults\<lparr>cs_smb := smb\<rparr>, ps_custom = False, ps_invalid = False\<rparr>"
  obtain f1 where m: "flatten_main main [] = Inr f1" "flatten_profiles profiles f1 = Inr flat"
    using f by (auto simp: flatten_documents_def split: sum.splits)
  obtain add where a: "is_flat f1" "kvs f1 = add" "list_all (\<lambda>kv. \<not> touches_rules (fst kv)) add"
    using flatten_main_kvs [OF m(1)] by (auto simp: is_flat_def kvs_def)
  have k: "kvs flat = add @ profile_kvs profiles" using flatten_profiles_kvs [OF m(2) a(1)] a(2) by simp
  let ?ps = "fold apply_kv add ?init"
  have r: "rules_of ?ps = []"
    using main_kvs_mode [OF a(3), of ?init] by (simp add: init_runtime_config_defaults_def init_runtime_scan_paths_defaults_def default_config_def)
  have t: "is_uppercased t" "t \<noteq> []" "length t < MAX_TITLE_ID" using normalize_title_uppercased [OF assms(3)] by simp_all
  have "cs_cfg s = cs_cfg (ps_state (fold apply_kv (profile_kvs profiles) ?ps))"
    by (simp add: s finish_scan_paths_def Let_def init_runtime_scan_paths_defaults_def apply_lines_kvs k)
  moreover have "\<not> ps_invalid (fold apply_kv (profile_kvs profiles) ?ps)" using v by (simp add: apply_lines_kvs k)
  from profiles_mode [OF t assms(4) this _ assms(2)] r
  have "rules_upper (rules_of (fold apply_kv (profile_kvs profiles) ?ps))
    \<and> rule_mode (rules_of (fold apply_kv (profile_kvs profiles) ?ps)) t
      = (case sm_ini_get profiles (''game:'' @ t) ''fakelib'' of Some v \<Rightarrow> parsed_mode t v | None \<Rightarrow> SM_FAKELIB_DEFAULT)"
    by (simp add: rules_upper_def rule_mode_def split: option.split)
  ultimately show ?thesis using override_rule_mode [of "cs_cfg s" t] t(1) by simp
qed

section \<open>A mode that was saved\<close>

text \<open>Reading back what was written, when it can be read at all.\<close>

lemma ini_raw_long: "plain b \<Longrightarrow> n \<le> length b \<Longrightarrow> \<exists>e. ini_raw n (b @ NL # rest) = Inl e"
proof (induction b arbitrary: n)
  case Nil
  then show ?case by (cases n) auto
next
  case (Cons c b)
  show ?case
  proof (cases n)
    case (Suc i)
    then obtain e where "ini_raw i (b @ NL # rest) = Inl e" using Cons.IH [of i] Cons.prems by auto
    then show ?thesis using Suc Cons.prems by (auto simp: plain_def)
  qed (use Cons.prems in \<open>simp add: plain_def\<close>)
qed

lemma ini_lines_bodies_only:
  "ini_lines False cur (unlines bs) doc = Inr res \<Longrightarrow> parse_bodies cur bs = Some ls \<Longrightarrow> list_all plain bs \<Longrightarrow> res = doc @ ls"
proof (induction bs arbitrary: cur doc ls)
  case Nil
  then show ?case by (simp add: ini_lines.simps)
next
  case (Cons b bs)
  obtain l cur' ls' where p: "parse_line False cur (b @ [NL]) = Some (Some l, cur')" "parse_bodies cur' bs = Some ls'" "ls = l # ls'"
    using Cons.prems(2) by (auto split: option.splits)
  have b: "plain b" "list_all plain bs" using Cons.prems(3) by simp_all
  have "length b < INI_LINE_MAX - 1"
  proof (rule ccontr)
    assume "\<not> length b < INI_LINE_MAX - 1"
    then have "\<exists>e. ini_raw (INI_LINE_MAX - 1) (b @ NL # unlines bs) = Inl e" by (intro ini_raw_long b) simp
    then show False using Cons.prems(1) by (auto simp: ini_lines.simps [of False cur])
  qed
  then have r: "ini_raw (INI_LINE_MAX - 1) (b @ NL # unlines bs) = Inr (b @ [NL], unlines bs)" by (intro ini_raw_line b)
  show ?case
  proof (cases "length doc \<ge> INI_MAX_LINES")
    case True
    then show ?thesis using Cons.prems(1) r p by (simp add: ini_lines.simps [of False cur] insert_line_def)
  next
    case False
    then have "ini_lines False cur' (unlines bs) (doc @ [l]) = Inr res"
      using Cons.prems(1) r p by (simp add: ini_lines.simps [of False cur] insert_line_def)
    from Cons.IH [OF this p(2) b(2)] show ?thesis using p(3) by simp
  qed
qed

lemma read_back:
  assumes "doc_ok [] doc" "sm_ini_write f se p doc d = (Inr (), d')" "sm_ini_read None d' p False = Inr back"
  shows "settings back = settings doc"
proof -
  obtain ls where ls: "parse_bodies [] (doc_bodies doc) = Some ls" "settings ls = settings doc"
    using parse_doc_bodies [OF assms(1)] by blast
  have "d' p = Some (unlines (doc_bodies doc))"
    using assms(2) doc_ok_text [OF assms(1)] by (auto simp: sm_ini_write_def split: option.splits if_splits)
  then have "ini_lines False [] (unlines (doc_bodies doc)) [] = Inr back" using assms(3) by (auto simp: sm_ini_read_def split: if_splits)
  from ini_lines_bodies_only [OF this ls(1) doc_bodies_plain [OF assms(1)]] show ?thesis using ls(2) by simp
qed

text \<open>Setting a value keeps every other line's names.\<close>

lemma set_settings_names:
  assumes "sm_ini_set doc s k v = (r, doc')"
  shows "fst ` set (settings doc') \<subseteq> insert (ci s, ci k) (fst ` set (settings doc))"
proof -
  obtain fnd doc1 where sl: "set_lines s k v False doc = (fnd, doc1)" by fastforce
  have "fst ` set (settings (snd (set_lines s k v f ls))) \<subseteq> insert (ci s, ci k) (fst ` set (settings ls))" for f ls
  proof (induction ls arbitrary: f)
    case (Cons l ls)
    show ?case using Cons [of f] Cons [of True] by (cases "line_is s k l"; cases v; cases f) (auto simp: setting_changes)
  qed simp
  from this [of False doc] sl have 1: "fst ` set (settings doc1) \<subseteq> insert (ci s, ci k) (fst ` set (settings doc))" by simp
  have ins: "fst ` set (settings (snd (insert_line a n l))) \<subseteq> fst ` set (setting l) \<union> fst ` set (settings a)" for a n l
  proof -
    have "set (settings a) = set (settings (take n a)) \<union> set (settings (drop n a))" by (metis append_take_drop_id set_append settings_simps(3))
    then show ?thesis by (auto simp: insert_line_def)
  qed
  have "fst ` set (settings (snd (sm_ini_append a s k w))) \<subseteq> insert (ci s, ci k) (fst ` set (settings a))" for a w
  proof (cases "section_end a s")
    case None
    obtain r1 a1 where a1: "insert_line a (length a) (new_header s) = (r1, a1)" by fastforce
    have h: "fst ` set (settings a1) \<subseteq> fst ` set (settings a)" using ins [of a "length a" "new_header s"] a1 by simp
    have "fst ` set (settings (snd (insert_line a1 (length a1) (new_line s k w)))) \<subseteq> insert (ci s, ci k) (fst ` set (settings a1))"
      using ins [of a1 "length a1" "new_line s k w"] by simp
    then have "fst ` set (settings (snd (insert_line a1 (length a1) (new_line s k w)))) \<subseteq> insert (ci s, ci k) (fst ` set (settings a))"
      by (rule subset_trans [OF _ insert_mono [OF h]])
    with h show ?thesis using None a1 by (simp add: sm_ini_append_def subset_insertI2 split: sum.split)
  next
    case (Some n)
    then show ?thesis using ins [of a n "new_line s k w"] by (auto simp: sm_ini_append_def)
  qed
  then have 2: "fst ` set (settings (snd (sm_ini_append doc1 s k w))) \<subseteq> insert (ci s, ci k) (fst ` set (settings doc))" for w
    using 1 by blast
  consider "doc' = doc" | "doc' = doc1" | w where "sm_ini_append doc1 s k w = (r, doc')"
    using assms sl by (auto simp: sm_ini_set_def split: if_splits option.splits)
  then show ?thesis
  proof cases
    case (3 w)
    then show ?thesis using 2 [of w] by simp
  qed (use 1 in auto)
qed

lemma mode_name_parses:
  assumes "is_uppercased t" "t \<noteq> []" "length t < MAX_TITLE_ID" "is_supported_game_title_id t"
  shows "parsed_mode t (sm_config_fakelib_mode_name m) = m"
proof -
  let ?v = "sm_config_fakelib_mode_name m"
  have n: "list_all (\<lambda>c. c \<noteq> CHR '':'') t" using assms(1) alnum_plain by (auto simp: is_uppercased_def list_all_iff)
  have "length ?v < 16" by (cases m) auto
  then have v: "strlcpy (t @ '':'' @ ?v) (MAX_PATH + 64) = t @ CHR '':'' # ?v" using assms(3) by (simp add: strlcpy_id)
  have w: "takeWhile (\<lambda>c. c \<noteq> CHR '':'') (t @ CHR '':'' # ?v) = t" using n by (simp add: takeWhile_append2 list_all_iff)
  have p: "sm_config_parse_fakelib_mode ?v = Some m" by (cases m; simp; code_simp)
  have "\<not> strcaseeq ''fakelib_mode'' ''fakelib_exclude''" by code_simp
  then show ?thesis using normalize_title_idem [OF assms(1-3)] assms(3,4) p
    unfolding parsed_mode_def v by (simp add: parse_title_fakelib_rule_def Let_def w)
qed

lemma header_end_plain: "CHR '']'' \<notin> set n \<Longrightarrow> header_end (n @ '']'') = Some (n, [])"
  by (induction n) auto

lemma alnum_chars: "isalnum c \<Longrightarrow> \<not> isspace c \<and> c \<noteq> CHR '']'' \<and> c \<noteq> NL \<and> c \<noteq> CHR 0x00"
  by (auto simp: isalnum_def isspace_def Let_def)

lemma game_section_ok: "is_uppercased t \<Longrightarrow> length t < MAX_TITLE_ID \<Longrightarrow> section_ok (''game:'' @ t)"
proof -
  assume t: "is_uppercased t" "length t < MAX_TITLE_ID"
  then have a: "\<not> isspace c \<and> c \<noteq> CHR '']'' \<and> c \<noteq> NL \<and> c \<noteq> CHR 0x00" if "c \<in> set t" for c
    using that alnum_chars by (auto simp: is_uppercased_def list_all_iff)
  have "header_end ((''game:'' @ t) @ '']'') = Some (''game:'' @ t, [])" by (rule header_end_plain) (use a in auto)
  moreover have "trimmed (''game:'' @ t)" using a last_in_set [of t] by (auto simp: trimmed_def isspace_def)
  moreover have "plain (''game:'' @ t)" using a by (auto simp: plain_def)
  ultimately show ?thesis using t(2) by (simp add: section_ok_def INI_SECTION_SIZE_def)
qed

lemma fakelib_key_ok: "key_ok ''fakelib''" "section_ok ''config''" "key_ok ''version''"
  by code_simp+

text \<open>
  C6. A fakelib mode that was saved is the mode of the title from then on: the operation that sets it leaves the
  configuration in force with that mode for the title (no rule for the default mode), and so does every later start of the program that can load the
  files it wrote, as long as no second section of \<^verbatim>\<open>profiles.ini\<close> names the same title.
\<close>
theorem fakelib_mode_persists:
  assumes "sm_config_set_title_fakelib_mode e x m (st, d) = (Inr (), st', d')"
    "normalize_title_id_value x = Some t"
    "read_documents e d = Inr (main, profiles)" "sole_section profiles t"
  shows "sm_config_title_fakelib_override (cs_cfg (st_state st')) t = m
    \<and> (\<forall>e2 st2 st3. load_runtime_config e2 d' st2 = (True, st3) \<and> e_open e2 PROFILES_FILE = None
         \<longrightarrow> sm_config_title_fakelib_override (cs_cfg (st_state st3)) t = m)"
proof -
  have t: "is_uppercased t" "t \<noteq> []" "length t < MAX_TITLE_ID" using normalize_title_uppercased [OF assms(2)] by simp_all
  define val where "val = (if m = SM_FAKELIB_DEFAULT then None else Some (sm_config_fakelib_mode_name m))"
  obtain doc1 where sup: "is_supported_game_title_id t" and d1: "sm_ini_set profiles (''game:'' @ t) ''fakelib'' val = (Inr (), doc1)"
    and save: "save_document e main doc1 True False (ensure_runtime_config_ready e st, d) = (Inr (), st', d')"
    using assms(1-3) by (auto simp: sm_config_set_title_fakelib_mode_def write_title_fakelib_policy_def Let_def ready_then_def change_documents_def
        val_def split: if_splits sum.splits prod.splits)
  obtain doc parsed where d2: "sm_ini_set doc1 ''config'' ''version'' (Some ''2'') = (Inr (), doc)"
    and parsed: "parse_runtime_config_state main doc = Inr parsed"
    and w: "sm_ini_write (e_io e) (e_sync e) PROFILES_FILE doc d = (Inr (), d')"
    and now_cfg: "cs_cfg (st_state st') = (cs_cfg (st_state (ensure_runtime_config_ready e st)))\<lparr>c_fakelib_rules := c_fakelib_rules (cs_cfg parsed),
      c_global_fakelib_exclude_title_ids := c_global_fakelib_exclude_title_ids (cs_cfg parsed)\<rparr>"
    using save by (auto simp: save_document_def publish_individual_def Let_def split: sum.splits prod.splits)
  have "\<not> strcaseeq ''fakelib'' ''version''" by code_simp
  then have get: "sm_ini_get doc (''game:'' @ t) ''fakelib'' = val"
    using ini_set_get [OF d1, of "''game:'' @ t" "''fakelib''"] ini_set_get [OF d2, of "''game:'' @ t" "''fakelib''"]
    by (simp add: strcaseeq_sym [of "''version''"])
  have "ci ''version'' \<noteq> ''fakelib''" by code_simp
  then have sole: "sole_section doc t"
    using assms(4) set_settings_names [OF d1] set_settings_names [OF d2] unfolding sole_section_def list_all_iff
    by (fastforce simp: image_subset_iff)
  have mode: "(case val of Some v \<Rightarrow> parsed_mode t v | None \<Rightarrow> SM_FAKELIB_DEFAULT) = m"
    using mode_name_parses [OF t sup] by (simp add: val_def)
  have now: "sm_config_title_fakelib_override (cs_cfg parsed) t = m"
    using parsed_title_mode [OF parsed sole assms(2) sup] get mode by simp
  have "doc_ok [] profiles" using assms(3) read_ok by (auto simp: read_documents_def split: sum.splits if_splits)
  from set_ok [OF set_ok [OF this game_section_ok [OF t(1,3)] fakelib_key_ok(1), of val] fakelib_key_ok(2,3), of "Some ''2''"]
  have ok: "doc_ok [] doc" unfolding d1 d2 snd_conv .
  have "sm_config_title_fakelib_override (cs_cfg (st_state st3)) t = m"
    if l: "load_runtime_config e2 d' st2 = (True, st3)" "e_open e2 PROFILES_FILE = None" for e2 st2 st3
  proof -
    obtain main2 again where r: "read_documents e2 d' = Inr (main2, again)" "parse_runtime_config_state main2 again = Inr (st_state st3)"
      using l(1) by (auto simp: load_runtime_config_def load_runtime_config_state_def Let_def split: sum.splits)
    have "sm_ini_read None d' PROFILES_FILE False = Inr again"
      using r(1) l(2) by (auto simp: read_documents_def split: sum.splits if_splits)
    from read_back [OF ok w this] have "settings again = settings doc" .
    then have "sole_section again t" "sm_ini_get again (''game:'' @ t) ''fakelib'' = val"
      using sole get by (simp_all add: sole_section_def get_settings)
    then show ?thesis using parsed_title_mode [OF r(2) _ assms(2) sup] mode by simp
  qed
  moreover have "sm_config_title_fakelib_override (cs_cfg (st_state st')) t = m"
    using now by (simp add: now_cfg sm_config_title_fakelib_override_def)
  ultimately show ?thesis by blast
qed

definition sample_bodies :: "string list" where
  "sample_bodies = [''[config]'', ''version=2'']"

definition sample_disk :: disk where
  "sample_disk p = (if p = CONFIG_FILE then Some (unlines sample_bodies) else None)"

definition sample_doc :: ini where
  "sample_doc = the (parse_bodies [] sample_bodies)"

definition sample_profiles :: ini where
  "sample_profiles = [new_header ''game:PPSA01234'', new_line ''game:PPSA01234'' ''fakelib'' ''full'']"

definition sample_saved :: ini where
  "sample_saved = sample_profiles @ [new_header ''config'', new_line ''config'' ''version'' ''2'']"

lemma sample_sets:
  "sm_ini_set [] ''game:PPSA01234'' ''fakelib'' (Some ''full'') = (Inr (), sample_profiles)"
  "sm_ini_set sample_profiles ''config'' ''version'' (Some ''2'') = (Inr (), sample_saved)"
  by code_simp+

lemma sample_title: "normalize_title_id_value ''PPSA01234'' = Some ''PPSA01234''" "is_supported_game_title_id ''PPSA01234''"
  by code_simp+

lemma sample_read: "read_documents idle_env sample_disk = Inr (sample_doc, [])"
proof -
  have b: "parse_bodies [] sample_bodies = Some sample_doc" unfolding sample_doc_def by code_simp
  have p: "list_all plain sample_bodies" by code_simp
  have n: "list_all (\<lambda>b. length b + 1 < INI_LINE_MAX) sample_bodies" "length (unlines sample_bodies) \<le> INI_MAX_BYTES"
    by (simp_all add: sample_bodies_def INI_LINE_MAX_def INI_MAX_BYTES_def unlines_def)
  have "ini_lines False [] (unlines sample_bodies) [] = Inr sample_doc"
    using ini_lines_bodies [OF b p n(1), of "[]"] by (simp add: sample_bodies_def INI_MAX_LINES_def)
  then have "sm_ini_read None sample_disk CONFIG_FILE False = Inr sample_doc" using n(2) by (simp add: sm_ini_read_def sample_disk_def)
  moreover have "sm_ini_read None sample_disk PROFILES_FILE False = Inr []"
    by (simp add: sm_ini_read_def sample_disk_def CONFIG_FILE_def PROFILES_FILE_def)
  moreover have "sm_ini_version sample_doc = Inr ()" by code_simp
  ultimately show ?thesis by (simp add: read_documents_def idle_env_def)
qed

lemma sample_flatten:
  "flatten_documents sample_doc sample_saved = Inr [new_header ''runtime'', new_line ''runtime'' ''fakelib_mode'' ''PPSA01234:full'']"
  by code_simp

lemma sample_parse: "\<exists>s. parse_runtime_config_state sample_doc sample_saved = Inr s"
proof -
  have "parse_title_fakelib_rule ''fakelib_mode'' ''PPSA01234:full'' = Some (''PPSA01234'', SM_FAKELIB_FULL)" by code_simp
  moreover have "read_smb_connections sample_doc = Inr []" by code_simp
  ultimately show ?thesis
    by (simp add: parse_runtime_config_state_def sample_flatten new_header_def new_line_def apply_line_def fakelib_setting set_fakelib_rule_def
        set_title_fakelib_rule_def init_runtime_config_defaults_def init_runtime_scan_paths_defaults_def default_config_def put_state_def Let_def)
qed

theorem fakelib_mode_persists_witness:
  "\<exists>st' d'. sm_config_set_title_fakelib_mode idle_env ''PPSA01234'' SM_FAKELIB_FULL (fresh_store, sample_disk) = (Inr (), st', d')
     \<and> sm_config_title_fakelib_override (cs_cfg (st_state st')) ''PPSA01234'' = SM_FAKELIB_FULL"
proof -
  have "case doc_text sample_saved of None \<Rightarrow> False | Some t \<Rightarrow> length t < 200" by code_simp
  then have w: "\<exists>d'. sm_ini_write io_ok None PROFILES_FILE sample_saved sample_disk = (Inr (), d')"
    by (auto simp: sm_ini_write_def io_ok_def bounded_def PROFILES_FILE_def sync_parent_def INI_MAX_BYTES_def split: option.splits)
  have "e_io idle_env = io_ok" "e_sync idle_env = None" by (simp_all add: idle_env_def)
  then have "\<exists>st' d'. sm_config_set_title_fakelib_mode idle_env ''PPSA01234'' SM_FAKELIB_FULL (fresh_store, sample_disk) = (Inr (), st', d')"
    using sample_parse w
    by (auto simp: sm_config_set_title_fakelib_mode_def write_title_fakelib_policy_def sample_title ready_then_def change_documents_def sample_read
        sample_sets save_document_def)
  moreover have "sole_section [] ''PPSA01234''" by (simp add: sole_section_def)
  ultimately show ?thesis using fakelib_mode_persists [OF _ sample_title(1) sample_read] by blast
qed

section \<open>The configuration in force is that of the files\<close>

definition file_stamps :: "config_env \<Rightarrow> config_file_stamp \<times> config_file_stamp" where
  "file_stamps e = (read_config_file_stamp e CONFIG_FILE, read_config_file_stamp e PROFILES_FILE)"

definition recorded_stamps :: "config_store \<Rightarrow> config_file_stamp \<times> config_file_stamp" where
  "recorded_stamps st = (st_main_stamp st, st_profiles_stamp st)"

text \<open>What the reload relies on: inode, size and the times of the two files tell their contents apart. \<open>holds\<close> says what the files with given
  stamps hold; when they can be read at all, this is what reading them gives.\<close>

definition stamps_tell :: "(config_file_stamp \<times> config_file_stamp \<Rightarrow> config_state option) \<Rightarrow> config_env \<Rightarrow> disk \<Rightarrow> bool" where
  "stamps_tell holds e d \<longleftrightarrow> (\<forall>s. load_runtime_config_state e d = Inr s \<longrightarrow> holds (file_stamps e) = Some s)"

text \<open>A process after its first successful load. \<open>R\<close> are the stamps of the files it has itself replaced since they were recorded, when it also
  published a part of what it wrote.\<close>

inductive config_session ::
  "(config_file_stamp \<times> config_file_stamp \<Rightarrow> config_state option) \<Rightarrow> config_store \<Rightarrow> (config_file_stamp \<times> config_file_stamp) set \<Rightarrow> bool"
  for holds where
  started: "stamps_tell holds e d \<Longrightarrow> load_runtime_config e d st0 = (True, st) \<Longrightarrow> config_session holds st {}"
| loaded: "config_session holds st R \<Longrightarrow> stamps_tell holds e d \<Longrightarrow> load_runtime_config e d st = (ok, st') \<Longrightarrow> config_session holds st' R"
| reloaded: "config_session holds st R \<Longrightarrow> stamps_tell holds e d \<Longrightarrow> reload_runtime_config_if_changed e d st = (r, st')
    \<Longrightarrow> config_session holds st' R"
| saved: "config_session holds st R \<Longrightarrow> config_write e (st, d) ok (st', d')
    \<Longrightarrow> config_session holds st' (if st' = st then R else insert (recorded_stamps st) R)"

lemma load_ready:
  assumes "st_ready st" and "load_runtime_config e d st = (ok, st')"
  shows "if ok then load_runtime_config_state e d = Inr (st_state st') \<and> recorded_stamps st' = file_stamps e \<and> st_ready st'
     else st' = st \<and> (\<exists>er. load_runtime_config_state e d = Inl er)"
  using assms
  by (auto simp: load_runtime_config_def ensure_runtime_config_ready_def recorded_stamps_def file_stamps_def Let_def split: sum.splits)

lemma first_load:
  assumes "load_runtime_config e d st0 = (True, st)"
  shows "load_runtime_config_state e d = Inr (st_state st) \<and> recorded_stamps st = file_stamps e \<and> st_ready st"
proof -
  have "load_runtime_config e d (ensure_runtime_config_ready e st0) = (True, st)" "st_ready (ensure_runtime_config_ready e st0)"
    using assms by (auto simp: load_runtime_config_def ensure_runtime_config_ready_def init_runtime_config_def)
  from load_ready [OF this(2,1)] show ?thesis by simp
qed

lemma reload_ready:
  assumes "st_ready st" and "reload_runtime_config_if_changed e d st = ((ok, changed), st')"
  obtains (same) "ok" "\<not> changed" "st' = st" "recorded_stamps st = file_stamps e"
    | (failed) er where "\<not> ok" "\<not> changed" "st' = st" "recorded_stamps st \<noteq> file_stamps e" "load_runtime_config_state e d = Inl er"
    | (new) "ok" "load_runtime_config_state e d = Inr (st_state st')" "recorded_stamps st' = file_stamps e" "st_ready st'"
        "recorded_stamps st \<noteq> file_stamps e" "st_state st' \<noteq> st_state st \<Longrightarrow> changed"
proof (cases "recorded_stamps st = file_stamps e")
  case True
  then show thesis using same assms
    by (auto simp: reload_runtime_config_if_changed_def ensure_runtime_config_ready_def stamp_equals_iff recorded_stamps_def file_stamps_def)
next
  case False
  then have ne: "\<not> (config_file_stamp_equals (read_config_file_stamp e CONFIG_FILE) (st_main_stamp st)
      \<and> config_file_stamp_equals (read_config_file_stamp e PROFILES_FILE) (st_profiles_stamp st))"
    by (auto simp: stamp_equals_iff recorded_stamps_def file_stamps_def)
  show thesis
  proof (cases "load_runtime_config_state e d")
    case (Inl er)
    then show thesis using failed [of er] False ne assms
      by (auto simp: reload_runtime_config_if_changed_def ensure_runtime_config_ready_def Let_def)
  next
    case (Inr s)
    then have "ok" "st_state st' = s" "recorded_stamps st' = file_stamps e" "st_ready st'" "st_state st' \<noteq> st_state st \<longrightarrow> changed"
      using ne assms
      by (auto simp: reload_runtime_config_if_changed_def ensure_runtime_config_ready_def Let_def runtime_config_states_equal_def
          recorded_stamps_def file_stamps_def split: if_splits)
    then show thesis using new Inr False by simp
  qed
qed

lemma write_keeps_stamps:
  assumes "st_ready st" and "config_write e (st, d) ok (st', d')"
  shows "st_ready st' \<and> recorded_stamps st' = recorded_stamps st"
  using config_write_outcome [OF assms(2)] assms(1)
  by (auto simp: write_outcome_def change_outcome_def changed_store_def ensure_runtime_config_ready_def recorded_stamps_def)

lemma session_inv:
  "config_session holds st R \<Longrightarrow> st_ready st \<and> (recorded_stamps st \<in> R \<or> holds (recorded_stamps st) = Some (st_state st))"
proof (induction rule: config_session.induct)
  case (started e d st0 st)
  then show ?case using first_load [OF started(2)] by (auto simp: stamps_tell_def)
next
  case (loaded st R e d ok st')
  then show ?case using load_ready [of st e d ok st'] by (cases ok) (auto simp: stamps_tell_def)
next
  case (reloaded st R e d r st')
  obtain ok changed where "r = (ok, changed)" by (cases r)
  then have "reload_runtime_config_if_changed e d st = ((ok, changed), st')" using reloaded by simp
  with reloaded show ?case by (auto elim!: reload_ready [rotated] simp: stamps_tell_def)
next
  case (saved st R e d ok st' d')
  then show ?case using write_keeps_stamps [of st e d ok st' d'] by auto
qed

text \<open>
  C25. The configuration in force is the one in the files. In a process that has once loaded its configuration, however loads, reloads and the
  operations that write have followed each other since: a load that reports success leaves exactly what the two files hold in force; so does a
  reload that reports success, also when it read nothing because the stamps of both files are those it recorded, and it reports a change when
  there is one; a load or reload that fails leaves the configuration and the recorded stamps as they were, and the files a reload failed on are
  read by the next reload as soon as they can be used. Taken for granted is what the code relies on: files with the same inode, size and times have the
  same contents, and the stamps of a file the process has itself replaced do not come back (\<open>R\<close>, for the reload only).
\<close>
theorem config_follows_files:
  assumes session: "config_session holds st R" and tell: "stamps_tell holds e d"
    and load: "load_runtime_config e d st = (loaded, st1)"
    and reload: "reload_runtime_config_if_changed e d st = ((reloaded, changed), st2)"
  shows "(if loaded then holds (file_stamps e) = Some (st_state st1) \<and> recorded_stamps st1 = file_stamps e
          else st1 = st \<and> (\<exists>er. load_runtime_config_state e d = Inl er))
    \<and> (if reloaded then (file_stamps e \<notin> R \<longrightarrow> holds (file_stamps e) = Some (st_state st2))
           \<and> recorded_stamps st2 = file_stamps e \<and> (st_state st2 \<noteq> st_state st \<longrightarrow> changed)
       else st2 = st \<and> \<not> changed \<and> (\<exists>er. load_runtime_config_state e d = Inl er)
           \<and> (\<forall>e' d' s. file_stamps e' = file_stamps e \<and> load_runtime_config_state e' d' = Inr s
                \<longrightarrow> (\<exists>c st3. reload_runtime_config_if_changed e' d' st2 = ((True, c), st3) \<and> st_state st3 = s)))"
proof -
  have ready: "st_ready st" and inv: "recorded_stamps st \<in> R \<or> holds (recorded_stamps st) = Some (st_state st)"
    using session_inv [OF session] by simp_all
  have again: "\<exists>c st3. reload_runtime_config_if_changed e' d' st = ((True, c), st3) \<and> st_state st3 = s"
    if "recorded_stamps st \<noteq> file_stamps e'" "load_runtime_config_state e' d' = Inr s" for e' d' s
  proof -
    obtain o' c st3 where r: "reload_runtime_config_if_changed e' d' st = ((o', c), st3)" by (metis prod.exhaust)
    from ready r show ?thesis by (rule reload_ready) (use that r in simp_all)
  qed
  show ?thesis
  proof (rule conjI, goal_cases)
    case 1
    then show ?case using load_ready [OF ready load] tell by (simp add: stamps_tell_def split: if_splits)
  next
    case 2
    from ready reload show ?case
    proof (rule reload_ready, goal_cases same failed new)
      case same
      then show ?case using inv by auto
    next
      case (failed er)
      then show ?case using again by simp
    next
      case new
      then show ?case using tell by (simp add: stamps_tell_def)
    qed
  qed
qed

lemma sample_load: "\<exists>s. load_runtime_config_state idle_env sample_disk = Inr s"
proof -
  have "flatten_documents sample_doc [] = Inr []" by code_simp
  moreover have "read_smb_connections sample_doc = Inr []" by code_simp
  ultimately show ?thesis
    by (simp add: load_runtime_config_state_def sample_read parse_runtime_config_state_def new_header_def
        init_runtime_config_defaults_def init_runtime_scan_paths_defaults_def default_config_def Let_def)
qed


text \<open>A run: a good load, then the files get other stamps but cannot be opened, then they can.\<close>

definition touched_env :: config_env where
  "touched_env = idle_env\<lparr>e_stat := (\<lambda>p. Some blank_config_stamp)\<rparr>"

definition unreadable_env :: config_env where
  "unreadable_env = touched_env\<lparr>e_open := (\<lambda>p. Some EACCES)\<rparr>"

theorem config_follows_files_witness:
  "\<exists>st. load_runtime_config idle_env sample_disk fresh_store = (True, st)
     \<and> reload_runtime_config_if_changed unreadable_env sample_disk st = ((False, False), st)
     \<and> (\<exists>c st3. reload_runtime_config_if_changed touched_env sample_disk st = ((True, c), st3) \<and> st_state st3 = st_state st)"
proof -
  obtain s where s: "load_runtime_config_state idle_env sample_disk = Inr s" using sample_load by blast
  then obtain st where st: "load_runtime_config idle_env sample_disk fresh_store = (True, st)" "st_state st = s"
    by (auto simp: load_runtime_config_def)
  have "e_open touched_env = e_open idle_env" by (simp add: touched_env_def)
  then have s2: "load_runtime_config_state touched_env sample_disk = Inr s"
    using s by (simp only: load_runtime_config_state_def read_documents_def)
  have f: "\<exists>er. load_runtime_config_state unreadable_env sample_disk = Inl er"
    by (simp add: load_runtime_config_state_def read_documents_def sm_ini_read_def unreadable_env_def sample_disk_def)
  let ?holds = "\<lambda>_. Some s"
  have tell: "stamps_tell ?holds idle_env sample_disk" "stamps_tell ?holds unreadable_env sample_disk"
    using s f by (auto simp: stamps_tell_def)
  note session = config_session.started [OF tell(1) st(1)]
  have ready: "st_ready st" "recorded_stamps st = file_stamps idle_env"
    using first_load [OF st(1)] by simp_all
  have ne: "recorded_stamps st \<noteq> file_stamps unreadable_env"
    by (simp add: ready(2) file_stamps_def read_config_file_stamp_def idle_env_def unreadable_env_def touched_env_def blank_config_stamp_def)
  obtain o' c st2 where r': "reload_runtime_config_if_changed unreadable_env sample_disk st = ((o', c), st2)"
    by (metis prod.exhaust)
  have "\<not> o'" by (rule reload_ready [OF ready(1) r']) (use ne f in auto)
  then have r: "reload_runtime_config_if_changed unreadable_env sample_disk st = ((False, c), st2)" using r' by simp
  obtain l st1 where l: "load_runtime_config unreadable_env sample_disk st = (l, st1)" by fastforce
  have "file_stamps touched_env = file_stamps unreadable_env"
    by (simp add: file_stamps_def read_config_file_stamp_def unreadable_env_def touched_env_def)
  then show ?thesis
    using config_follows_files [OF session tell(2) l r] st r s2 by auto
qed

end
