(* ===== verification/Config_Migration.thy ===== *)
theory Config_Migration
  imports Config_Store Json
begin

text \<open>
  \<^verbatim>\<open>src/sm_config_file.c\<close>, from the first version of the configuration files to the second: the rules of the old files
  become settings of two documents, the old files are copied to a backup directory, and the new main file, which carries the version, is
  published last.

  The files are a history, the newest state first, so that what a crash would leave behind after any step can be stated. No other
  program changes the files during the call. What the system answers is in \<open>migrate_env\<close>, by path; json-c is its
  field \<open>me_json\<close>, \<open>None\<close> when it reports an error or text follows the value. Memory allocation is taken to succeed.
\<close>

section \<open>Old settings\<close>

definition legacy_aliases :: "(string \<times> string) list" where
  "legacy_aliases =
     [(''lang'', ''language''), (''locale'', ''language''), (''api_bind_adress'', ''api_bind_address''), (''read_only'', ''mount_read_only''),
      (''global_fakelib_enabled'', ''global_fakelib''), (''legacy_gddr5_cache'', ''nested_pfs_index_cache''),
      (''scan_interval_sec'', ''scan_interval_seconds''), (''stability_wait_sec'', ''stability_wait_seconds''),
      (''auto_remove_missing_delay_sec'', ''auto_remove_missing_delay_seconds'')]"

definition sm_config_find_legacy :: "string \<Rightarrow> config_key option" where
  "sm_config_find_legacy key =
     (let key' = (case find (\<lambda>(a, _). strcaseeq key a) legacy_aliases of Some (_, b) \<Rightarrow> b | None \<Rightarrow> key)
      in find (\<lambda>m. strcaseeq key' (ck_legacy m)) sm_config_keys)"

text \<open>A rule about one image or one game: the prefix of its section, who it is about, the setting and its value; an error; or
  nothing to keep.\<close>

datatype legacy_rule = Bad_Rule errno | No_Rule | Rule string string string string

definition legacy_rule_of :: "bool \<Rightarrow> string \<Rightarrow> string \<Rightarrow> legacy_rule" where
  "legacy_rule_of autotune key local =
     (if strcaseeq key ''image_sector'' then
        (if CHR '':'' \<notin> set local then Bad_Rule EINVAL
         else
           (let v = after_last (CHR '':'') local
            in Rule ''image'' (take (length local - length v - 1) local) ''sector_size'' v))
      else if \<not> autotune \<and> (strcaseeq key ''image_ro'' \<or> strcaseeq key ''image_rw'') then
        Rule ''image'' local ''mount_mode'' (if strcaseeq key ''image_ro'' then ''ro'' else ''rw'')
      else if \<not> autotune \<and> strcaseeq key ''fakelib_mode'' then
        (if CHR '':'' \<notin> set local then Bad_Rule EINVAL
         else Rule ''game'' (takeWhile (\<lambda>c. c \<noteq> CHR '':'') local) ''fakelib'' (tl (dropWhile (\<lambda>c. c \<noteq> CHR '':'') local)))
      else if \<not> autotune \<and> strcaseeq key ''fakelib_exclude'' then Rule ''game'' local ''fakelib'' ''disabled''
      else if \<not> autotune \<and> (strcaseeq key ''global_fakelib_exclude'' \<or> strcaseeq key ''global_fakelib_exclude_title'') then
        Rule ''game'' local ''ignore_global_fakelib'' ''on''
      else No_Rule)"

definition rule_section :: "string \<Rightarrow> string \<Rightarrow> string" where
  "rule_section pre raw =
     (let identity = trim raw;
          named = (if pre = ''image'' \<and> CHR ''/'' \<in> set identity then after_last (CHR ''/'') identity else identity)
      in strlcpy (pre @ '':'' @ named) (MAX_PATH + 32))"

text \<open>The switch that became the scan depth: on, off, or an error.\<close>

definition recursive_flag :: "string \<Rightarrow> bool option" where
  "recursive_flag v =
     (if strcaseeq v ''on'' \<or> strcaseeq v ''true'' \<or> strcaseeq v ''yes'' \<or> strcaseeq v ''ro'' \<or> v = ''1'' then Some True
      else if strcaseeq v ''off'' \<or> strcaseeq v ''false'' \<or> strcaseeq v ''no'' \<or> strcaseeq v ''rw'' \<or> v = ''0'' then Some False
      else None)"

definition set_res :: "ini \<Rightarrow> string \<Rightarrow> string \<Rightarrow> string \<Rightarrow> ini res" where
  "set_res doc section key v = (case sm_ini_set doc section key (Some v) of (Inl e, _) \<Rightarrow> Inl e | (Inr _, doc') \<Rightarrow> Inr doc')"

definition append_res :: "ini \<Rightarrow> string \<Rightarrow> string \<Rightarrow> string \<Rightarrow> ini res" where
  "append_res doc section key v = (case sm_ini_append doc section key v of (Inl e, _) \<Rightarrow> Inl e | (Inr _, doc') \<Rightarrow> Inr doc')"

text \<open>The documents being built, and whether the scan was recursive.\<close>

type_synonym imported = "ini \<times> ini \<times> bool"

definition import_line :: "bool \<Rightarrow> string \<Rightarrow> string \<Rightarrow> imported \<Rightarrow> imported res" where
  "import_line autotune key v st =
     (case st of
        (config, profiles, recursive) \<Rightarrow>
          (case (if autotune then None else sm_config_find_legacy key) of
             Some m \<Rightarrow>
               map_sum id (\<lambda>c. (c, profiles, recursive))
                 (if ck_legacy m = ''scanpath'' then append_res config (ck_section m) (ck_key m) v
                  else set_res config (ck_section m) (ck_key m) v)
           | None \<Rightarrow>
               if \<not> autotune \<and> strcaseeq key ''recursive_scan'' then
                 (case recursive_flag v of None \<Rightarrow> Inl EINVAL | Some on \<Rightarrow> Inr (config, profiles, recursive \<or> on))
               else if length v \<ge> MAX_PATH + 32 then Inl EFBIG
               else
                 (case legacy_rule_of autotune key v of
                    Bad_Rule e \<Rightarrow> Inl e
                  | No_Rule \<Rightarrow> Inr st
                  | Rule pre raw name val \<Rightarrow>
                      map_sum id (\<lambda>p. (config, p, recursive)) (set_res profiles (rule_section pre raw) name val))))"

fun import_lines :: "bool \<Rightarrow> ini \<Rightarrow> imported \<Rightarrow> imported res" where
  "import_lines autotune [] st = Inr st"
| "import_lines autotune (l # ls) st =
     (case il_key l of
        None \<Rightarrow> import_lines autotune ls st
      | Some key \<Rightarrow>
          if il_value l = [] then import_lines autotune ls st
          else (case import_line autotune key (il_value l) st of Inl e \<Rightarrow> Inl e | Inr st' \<Rightarrow> import_lines autotune ls st'))"

definition import_rules :: "bool \<Rightarrow> ini \<Rightarrow> ini \<times> ini \<Rightarrow> (ini \<times> ini) res" where
  "import_rules autotune old docs =
     (case import_lines autotune old (fst docs, snd docs, False) of
        Inl e \<Rightarrow> Inl e
      | Inr (config, profiles, recursive) \<Rightarrow>
          if \<not> recursive then Inr (config, profiles)
          else map_sum id (\<lambda>c. (c, profiles)) (set_res config ''scan'' ''depth'' ''2''))"

section \<open>Old connections\<close>

definition smb_field :: "json \<Rightarrow> string \<Rightarrow> nat \<Rightarrow> string option" where
  "smb_field item key n =
     (case object_member (Some item) key of
        Some (JString s) \<Rightarrow> if CHR 0x00 \<in> set s \<or> length s \<ge> n then None else Some s
      | _ \<Rightarrow> None)"

definition smb_item :: "json \<Rightarrow> smb_connection option" where
  "smb_item item =
     (case (smb_field item ''name'' 64, smb_field item ''path'' MAX_PATH, smb_field item ''username'' 256, smb_field item ''password'' 512,
            object_member (Some item) ''active'') of
        (Some name, Some p, Some user, Some password, Some (JBool active)) \<Rightarrow>
          (case (case object_member (Some item) ''read_only'' of None \<Rightarrow> Some False | Some (JBool b) \<Rightarrow> Some b | Some _ \<Rightarrow> None) of
             None \<Rightarrow> None
           | Some ro \<Rightarrow>
               (let c = \<lparr>sc_name = name, sc_path = p, sc_username = user, sc_password = password, sc_active = active, sc_read_only = ro\<rparr>
                in (case sm_smb_validate c of Inr _ \<Rightarrow> Some c | Inl _ \<Rightarrow> None)))
      | _ \<Rightarrow> None)"

definition import_connection :: "json \<Rightarrow> ini \<Rightarrow> ini res" where
  "import_connection item config =
     (case smb_item item of
        None \<Rightarrow> Inl EINVAL
      | Some c \<Rightarrow>
          (let section = ''smb:'' @ sc_name c in
           if sm_ini_get config section ''path'' \<noteq> None then Inl EINVAL
           else edit_document
                  [Set_Key section ''path'' (Some (sc_path c)), Set_Key section ''username'' (Some (sc_username c)),
                   Set_Key section ''password'' (Some (sc_password c)), Set_Key section ''active'' (Some (flag_text (sc_active c))),
                   Set_Key section ''read_only'' (Some (flag_text (sc_read_only c)))] config))"

fun import_connections :: "json list \<Rightarrow> ini \<Rightarrow> ini res" where
  "import_connections [] config = Inr config"
| "import_connections (j # js) config =
     (case import_connection j config of Inl e \<Rightarrow> Inl EINVAL | Inr c \<Rightarrow> import_connections js c)"

section \<open>Files\<close>

record migrate_env =
  me_open :: "string \<Rightarrow> errno option"
  me_access :: "string \<Rightarrow> errno option"
  me_io :: "string \<Rightarrow> io"
  me_sync :: "string \<Rightarrow> errno option"
  me_mkdir :: "errno option"
  me_is_dir :: bool
  me_unlink :: "string \<Rightarrow> errno option"
  me_json :: "string \<Rightarrow> json option"

definition LEGACY_AUTOTUNE_FILE :: string where "LEGACY_AUTOTUNE_FILE = ''/data/shadowmount/autotune.ini''"
definition LEGACY_SMB_FILE :: string where "LEGACY_SMB_FILE = ''/data/shadowmount/smb.json''"
definition CONFIG_BACKUP_DIR :: string where "CONFIG_BACKUP_DIR = ''/data/shadowmount/config-v1-backup''"

definition migrate_sources :: "string list" where
  "migrate_sources = [CONFIG_FILE, LEGACY_AUTOTUNE_FILE, LEGACY_SMB_FILE]"

definition migrate_backups :: "string list" where
  "migrate_backups = [CONFIG_BACKUP_DIR @ ''/config.ini'', CONFIG_BACKUP_DIR @ ''/autotune.ini'', CONFIG_BACKUP_DIR @ ''/smb.json'']"

definition migrate_ready :: string where "migrate_ready = CONFIG_BACKUP_DIR @ ''/ready.ini''"
definition migrate_candidate :: string where "migrate_candidate = CONFIG_BACKUP_DIR @ ''/profiles-v2.ini''"

text \<open>The bytes of a file, a missing one being empty, and \<^verbatim>\<open>errno\<close> behind the call (\<open>None\<close> for 0).\<close>

definition read_bytes :: "migrate_env \<Rightarrow> disk \<Rightarrow> string \<Rightarrow> string res" where
  "read_bytes E d p =
     (case me_open E p of
        Some e \<Rightarrow> if e = ENOENT then Inr [] else Inl e
      | None \<Rightarrow> (case d p of None \<Rightarrow> Inr [] | Some s \<Rightarrow> if length s > INI_MAX_BYTES then Inl EINVAL else Inr s))"

definition read_errno :: "migrate_env \<Rightarrow> disk \<Rightarrow> string \<Rightarrow> errno option" where
  "read_errno E d p =
     (case me_open E p of
        Some e \<Rightarrow> Some e
      | None \<Rightarrow> (case d p of None \<Rightarrow> Some ENOENT | Some s \<Rightarrow> if length s > INI_MAX_BYTES then Some EINVAL else None))"

definition same_file :: "migrate_env \<Rightarrow> disk \<Rightarrow> string \<Rightarrow> string \<Rightarrow> bool" where
  "same_file E d a b = (case (read_bytes E d a, read_bytes E d b) of (Inr x, Inr y) \<Rightarrow> x = y | _ \<Rightarrow> False)"

definition same_file_errno :: "migrate_env \<Rightarrow> disk \<Rightarrow> string \<Rightarrow> string \<Rightarrow> errno option" where
  "same_file_errno E d a b = (case read_bytes E d a of Inl e \<Rightarrow> Some e | Inr _ \<Rightarrow> read_errno E d b)"

text \<open>\<^verbatim>\<open>access(path, F_OK)\<close>: what it fails with.\<close>

definition access_file :: "migrate_env \<Rightarrow> disk \<Rightarrow> string \<Rightarrow> errno option" where
  "access_file E d p = (case me_access E p of Some e \<Rightarrow> Some e | None \<Rightarrow> if d p = None then Some ENOENT else None)"

definition import_smb :: "migrate_env \<Rightarrow> disk \<Rightarrow> string \<Rightarrow> ini \<Rightarrow> ini res" where
  "import_smb E d p config =
     (case read_bytes E d p of
        Inl e \<Rightarrow> Inl e
      | Inr [] \<Rightarrow> Inr config
      | Inr s \<Rightarrow>
          (case me_json E s of
             Some (JArray items) \<Rightarrow> if length items > SM_SMB_CONNECTIONS_MAX then Inl EINVAL else import_connections items config
           | _ \<Rightarrow> Inl EINVAL))"

section \<open>Steps\<close>

type_synonym 'a migration = "disk list \<Rightarrow> 'a res \<times> disk list"

definition m_bind :: "'a migration \<Rightarrow> ('a \<Rightarrow> 'b migration) \<Rightarrow> 'b migration" where
  "m_bind m f h = (case m h of (Inl e, h') \<Rightarrow> (Inl e, h') | (Inr x, h') \<Rightarrow> f x h')"

definition m_res :: "'a res \<Rightarrow> 'a migration" where "m_res r h = (r, h)"
definition m_ask :: "(disk \<Rightarrow> 'a res) \<Rightarrow> 'a migration" where "m_ask f h = (f (hd h), h)"
definition m_when :: "bool \<Rightarrow> unit migration \<Rightarrow> unit migration" where "m_when b m = (if b then m else m_res (Inr ()))"
definition m_check :: "(disk \<Rightarrow> bool) \<Rightarrow> errno \<Rightarrow> unit migration" where "m_check f e = m_ask (\<lambda>d. if f d then Inr () else Inl e)"

definition m_write :: "migrate_env \<Rightarrow> string \<Rightarrow> ini \<Rightarrow> unit migration" where
  "m_write E p doc h = (case sm_ini_write (me_io E p) (me_sync E p) p doc (hd h) of (r, d) \<Rightarrow> (r, d # h))"

definition copy_backup :: "migrate_env \<Rightarrow> string \<Rightarrow> string \<Rightarrow> unit migration" where
  "copy_backup E source target h =
     (case read_bytes E (hd h) source of
        Inl e \<Rightarrow> (Inl e, h)
      | Inr s \<Rightarrow>
          (case (io_open (me_io E target), io_write (me_io E target), io_rename (me_io E target)) of
             (Some e, _, _) \<Rightarrow> (Inl e, h)
           | (None, Some e, _) \<Rightarrow> (Inl e, h)
           | (None, None, Some e) \<Rightarrow> (Inl e, h)
           | (None, None, None) \<Rightarrow>
               ((case sync_parent (me_sync E target) target of Some e \<Rightarrow> Inl e | None \<Rightarrow> Inr ()), (hd h)(target \<mapsto> s) # h)))"

fun copy_backups :: "migrate_env \<Rightarrow> (string \<times> string) list \<Rightarrow> unit migration" where
  "copy_backups E [] = m_res (Inr ())"
| "copy_backups E ((source, target) # ps) = m_bind (copy_backup E source target) (\<lambda>_. copy_backups E ps)"

text \<open>\<^verbatim>\<open>unlink\<close>: what it fails with, and the files.\<close>

definition unlink_file :: "migrate_env \<Rightarrow> string \<Rightarrow> disk list \<Rightarrow> errno option \<times> disk list" where
  "unlink_file E p h =
     (case me_unlink E p of
        Some e \<Rightarrow> (Some e, h)
      | None \<Rightarrow> if hd h p = None then (Some ENOENT, h) else (None, (hd h)(p := None) # h))"

text \<open>The old files whose backup is complete go; \<open>bad\<close> is \<open>!ok\<close>, \<open>err\<close> is \<^verbatim>\<open>errno\<close>.\<close>

fun retire_loop :: "migrate_env \<Rightarrow> (string \<times> string) list \<Rightarrow> bool \<times> errno option \<Rightarrow> disk list \<Rightarrow> (bool \<times> errno option) \<times> disk list" where
  "retire_loop E [] st h = (st, h)"
| "retire_loop E ((source, backup) # ps) (bad, err) h =
     (let err1 = same_file_errno E (hd h) source backup in
      if \<not> same_file E (hd h) source backup then retire_loop E ps (bad, err1) h
      else
        (case unlink_file E source h of
           (None, h') \<Rightarrow> retire_loop E ps (bad, err1) h'
         | (Some e, h') \<Rightarrow> retire_loop E ps (bad \<or> e \<noteq> ENOENT, Some e) h'))"

definition retire :: "migrate_env \<Rightarrow> unit migration" where
  "retire E h =
     (case retire_loop E (tl (zip migrate_sources migrate_backups)) (False, None) h of
        ((bad, err), h') \<Rightarrow> (if bad then Inl (case err of Some e \<Rightarrow> e | None \<Rightarrow> EINVAL) else Inr (), h'))"

definition sync_config :: "migrate_env \<Rightarrow> unit migration" where
  "sync_config E = m_res (case sync_parent (me_sync E CONFIG_FILE) CONFIG_FILE of Some e \<Rightarrow> Inl e | None \<Rightarrow> Inr ())"

section \<open>Migration\<close>

definition is_versioned :: "ini \<Rightarrow> bool" where
  "is_versioned doc \<longleftrightarrow> sm_ini_get doc ''config'' ''version'' \<noteq> None
     \<or> list_ex (\<lambda>l. il_header l \<and> strcaseeq (il_section l) ''config'') doc"

definition read_profiles :: "migrate_env \<Rightarrow> disk \<Rightarrow> ini res" where
  "read_profiles E d =
     (case sm_ini_read (me_open E PROFILES_FILE) d PROFILES_FILE False of
        Inl e \<Rightarrow> Inl e
      | Inr profiles \<Rightarrow>
          if profiles = [] then Inr profiles
          else (case sm_ini_version profiles of Inl e \<Rightarrow> Inl e | Inr _ \<Rightarrow> Inr profiles))"

text \<open>The files are of the second version: checked, completed, and an interrupted migration is finished.\<close>

definition migrate_versioned :: "migrate_env \<Rightarrow> (ini \<Rightarrow> ini \<Rightarrow> unit res) \<Rightarrow> unit migration" where
  "migrate_versioned E validate =
     m_bind (m_ask (\<lambda>d. sm_ini_read (me_open E CONFIG_FILE) d CONFIG_FILE False)) (\<lambda>current.
     m_bind (m_res (sm_ini_version current)) (\<lambda>_.
     m_bind (m_ask (read_profiles E)) (\<lambda>profiles.
     m_bind (m_res (validate current profiles)) (\<lambda>_.
     m_bind (m_ask (\<lambda>d. Inr (access_file E d PROFILES_FILE))) (\<lambda>missing.
     m_bind (m_when (missing = Some ENOENT)
               (m_bind (m_res (set_res profiles ''config'' ''version'' ''2'')) (m_write E PROFILES_FILE))) (\<lambda>_.
     m_bind (m_ask (\<lambda>d. Inr (access_file E d migrate_ready))) (\<lambda>marked.
     m_bind (m_when (marked = None) (retire E)) (\<lambda>_.
     sync_config E))))))))"

text \<open>The new documents, from the backups.\<close>

definition res_bind :: "'a res \<Rightarrow> ('a \<Rightarrow> 'b res) \<Rightarrow> 'b res" where
  "res_bind r f = (case r of Inl e \<Rightarrow> Inl e | Inr x \<Rightarrow> f x)"

definition import_backups :: "migrate_env \<Rightarrow> (ini \<Rightarrow> ini \<Rightarrow> unit res) \<Rightarrow> disk \<Rightarrow> (ini \<times> ini) res" where
  "import_backups E validate d =
     res_bind (sm_ini_read (me_open E (migrate_backups ! 0)) d (migrate_backups ! 0) True) (\<lambda>old.
     res_bind (sm_ini_read (me_open E (migrate_backups ! 1)) d (migrate_backups ! 1) True) (\<lambda>tuned.
     res_bind (set_res [] ''config'' ''version'' ''2'') (\<lambda>config0.
     res_bind (set_res [] ''config'' ''version'' ''2'') (\<lambda>profiles0.
     res_bind (import_rules False old (config0, profiles0)) (\<lambda>docs1.
     res_bind (import_rules True tuned docs1) (\<lambda>docs2.
     res_bind (import_smb E d (migrate_backups ! 2) (fst docs2)) (\<lambda>config.
     res_bind (validate config (snd docs2)) (\<lambda>_. Inr (config, snd docs2)))))))))"

definition backups_current :: "migrate_env \<Rightarrow> disk \<Rightarrow> bool" where
  "backups_current E d \<longleftrightarrow> list_all (\<lambda>(source, backup). same_file E d source backup) (zip migrate_sources migrate_backups)"

definition publish_migrated :: "migrate_env \<Rightarrow> ini \<times> ini \<Rightarrow> unit migration" where
  "publish_migrated E docs =
     m_bind (m_write E migrate_candidate (snd docs)) (\<lambda>_.
     m_bind (m_check (\<lambda>d. \<not> (access_file E d PROFILES_FILE = None \<and> \<not> same_file E d migrate_candidate PROFILES_FILE)) EEXIST) (\<lambda>_.
     m_bind (m_write E PROFILES_FILE (snd docs)) (\<lambda>_.
     m_bind (m_write E CONFIG_FILE (fst docs)) (\<lambda>_.
     m_bind (retire E) (\<lambda>_. sync_config E)))))"

definition migrate_legacy :: "migrate_env \<Rightarrow> (ini \<Rightarrow> ini \<Rightarrow> unit res) \<Rightarrow> unit migration" where
  "migrate_legacy E validate =
     m_bind (m_res (case me_mkdir E of Some e \<Rightarrow> if e = EEXIST then Inr () else Inl e | None \<Rightarrow> Inr ())) (\<lambda>_.
     m_bind (m_res (if me_is_dir E then Inr () else Inl ENOTDIR)) (\<lambda>_.
     m_bind (m_ask (\<lambda>d. sm_ini_read (me_open E migrate_ready) d migrate_ready False)) (\<lambda>marker.
     m_bind (if marker = [] then
               m_bind (m_check (\<lambda>d. access_file E d PROFILES_FILE \<noteq> None) EEXIST) (\<lambda>_.
               copy_backups E (zip migrate_sources migrate_backups))
             else m_bind (m_res (sm_ini_version marker)) (\<lambda>_. m_check (backups_current E) EBUSY)) (\<lambda>_.
     m_bind (m_ask (import_backups E validate)) (\<lambda>docs.
     m_bind (m_check (backups_current E) EBUSY) (\<lambda>_.
     m_bind (m_when (marker = [])
               (m_bind (m_res (set_res marker ''config'' ''version'' ''2'')) (m_write E migrate_ready))) (\<lambda>_.
     publish_migrated E docs)))))))"

definition sm_config_migrate_files :: "migrate_env \<Rightarrow> (ini \<Rightarrow> ini \<Rightarrow> unit res) \<Rightarrow> unit migration" where
  "sm_config_migrate_files E validate =
     m_bind (m_ask (\<lambda>d. sm_ini_read (me_open E CONFIG_FILE) d CONFIG_FILE True)) (\<lambda>current.
     if is_versioned current then migrate_versioned E validate else migrate_legacy E validate)"

text \<open>\<^verbatim>\<open>validate_documents\<close> and \<^verbatim>\<open>sm_config_prepare_files\<close> (\<^verbatim>\<open>src/sm_config_mount.c\<close>).\<close>

definition validate_documents :: "ini \<Rightarrow> ini \<Rightarrow> unit res" where
  "validate_documents main profiles = map_sum id (\<lambda>_. ()) (parse_runtime_config_state main profiles)"

definition sm_config_prepare_files :: "migrate_env \<Rightarrow> unit migration" where
  "sm_config_prepare_files E = sm_config_migrate_files E validate_documents"

section \<open>What a crash leaves\<close>

text \<open>A step that starts with every state of the history safe and \<open>P\<close> for the newest keeps every state safe and establishes \<open>Q\<close> when it succeeds.\<close>

definition keeps_safe :: "(disk \<Rightarrow> bool) \<Rightarrow> (disk \<Rightarrow> bool) \<Rightarrow> 'a migration \<Rightarrow> ('a \<Rightarrow> disk \<Rightarrow> bool) \<Rightarrow> bool" where
  "keeps_safe S P m Q \<longleftrightarrow>
     (\<forall>h r h'. h \<noteq> [] \<and> list_all S h \<and> P (hd h) \<and> m h = (r, h') \<longrightarrow>
        h' \<noteq> [] \<and> list_all S h' \<and> (case r of Inl _ \<Rightarrow> True | Inr x \<Rightarrow> Q x (hd h')))"

lemma keeps_safeI:
  assumes "\<And>h r h'. h \<noteq> [] \<Longrightarrow> list_all S h \<Longrightarrow> P (hd h) \<Longrightarrow> m h = (r, h') \<Longrightarrow>
    h' \<noteq> [] \<and> list_all S h' \<and> (case r of Inl _ \<Rightarrow> True | Inr x \<Rightarrow> Q x (hd h'))"
  shows "keeps_safe S P m Q"
  unfolding keeps_safe_def by (intro allI impI, elim conjE, rule assms)

lemma keeps_safeD:
  "keeps_safe S P m Q \<Longrightarrow> m h = (r, h') \<Longrightarrow> h \<noteq> [] \<Longrightarrow> list_all S h \<Longrightarrow> P (hd h) \<Longrightarrow>
    h' \<noteq> [] \<and> list_all S h' \<and> (case r of Inl _ \<Rightarrow> True | Inr x \<Rightarrow> Q x (hd h'))"
  unfolding keeps_safe_def by blast

lemma mig_bind:
  assumes "keeps_safe S P m R" "\<And>x. keeps_safe S (R x) (f x) Q"
  shows "keeps_safe S P (m_bind m f) Q"
proof (rule keeps_safeI)
  fix h r h'
  assume a: "h \<noteq> []" "list_all S h" "P (hd h)" "m_bind m f h = (r, h')"
  obtain r1 h1 where m: "m h = (r1, h1)" by fastforce
  note 1 = keeps_safeD [OF assms(1) m a(1-3)]
  show "h' \<noteq> [] \<and> list_all S h' \<and> (case r of Inl _ \<Rightarrow> True | Inr x \<Rightarrow> Q x (hd h'))"
  proof (cases r1)
    case (Inl e)
    then show ?thesis using 1 m a(4) by (auto simp: m_bind_def)
  next
    case (Inr x)
    then have "f x h1 = (r, h')" using m a(4) by (simp add: m_bind_def)
    then show ?thesis using 1 Inr by (intro keeps_safeD [OF assms(2)]) auto
  qed
qed

lemma mig_res: "(\<And>x d. r = Inr x \<Longrightarrow> P d \<Longrightarrow> Q x d) \<Longrightarrow> keeps_safe S P (m_res r) Q"
  by (auto simp: keeps_safe_def m_res_def split: sum.split)

lemma mig_ask: "(\<And>x d. f d = Inr x \<Longrightarrow> P d \<Longrightarrow> Q x d) \<Longrightarrow> keeps_safe S P (m_ask f) Q"
  by (auto simp: keeps_safe_def m_ask_def split: sum.split)

lemma mig_check: "(\<And>d. f d \<Longrightarrow> P d \<Longrightarrow> Q d) \<Longrightarrow> keeps_safe S P (m_check f e) (\<lambda>_. Q)"
  unfolding m_check_def by (rule mig_ask) (auto split: if_splits)

lemma mig_when: "(b \<Longrightarrow> keeps_safe S P m (\<lambda>_. Q)) \<Longrightarrow> (\<And>d. \<not> b \<Longrightarrow> P d \<Longrightarrow> Q d) \<Longrightarrow> keeps_safe S P (m_when b m) (\<lambda>_. Q)"
  by (cases b) (auto simp: m_when_def mig_res)

lemma written_ok: "sm_ini_write f se p doc d = (Inr (), d') \<Longrightarrow> d' = d(p := doc_text doc)"
  by (auto simp: sm_ini_write_def split: option.splits if_splits)

lemma mig_write:
  assumes "\<And>d. P d \<Longrightarrow> S d \<Longrightarrow> S (d(p := doc_text doc)) \<and> Q (d(p := doc_text doc))"
  shows "keeps_safe S P (m_write E p doc) (\<lambda>_. Q)"
proof (rule keeps_safeI)
  fix h r h'
  assume a: "h \<noteq> []" "list_all S h" "P (hd h)" "m_write E p doc h = (r, h')"
  obtain d' where d: "sm_ini_write (me_io E p) (me_sync E p) p doc (hd h) = (r, d')" "h' = d' # h"
    using a(4) by (auto simp: m_write_def split: prod.splits)
  have "S (hd h)" using a by (cases h) auto
  then show "h' \<noteq> [] \<and> list_all S h' \<and> (case r of Inl _ \<Rightarrow> True | Inr _ \<Rightarrow> Q (hd h'))"
    using assms [OF a(3)] written_file(1) [OF d(1)] written_ok d a(2) by (auto split: sum.split)
qed

lemma mig_copy:
  assumes "\<And>d s. P d \<Longrightarrow> S d \<Longrightarrow> read_bytes E d source = Inr s \<Longrightarrow> S (d(target \<mapsto> s)) \<and> Q (d(target \<mapsto> s))"
  shows "keeps_safe S P (copy_backup E source target) (\<lambda>_. Q)"
proof (rule keeps_safeI)
  fix h r h'
  assume a: "h \<noteq> []" "list_all S h" "P (hd h)" "copy_backup E source target h = (r, h')"
  have s: "S (hd h)" using a by (cases h) auto
  consider "h' = h" "\<exists>e. r = Inl e" | s where "read_bytes E (hd h) source = Inr s" "h' = (hd h)(target \<mapsto> s) # h"
    using a(4) by (auto simp: copy_backup_def split: sum.splits option.splits)
  then show "h' \<noteq> [] \<and> list_all S h' \<and> (case r of Inl _ \<Rightarrow> True | Inr _ \<Rightarrow> Q (hd h'))"
    by cases (use a s assms [OF a(3) s] in \<open>auto split: sum.split\<close>)
qed

text \<open>The old files are those from before, or everything of them is in the backup and the new ones are complete.\<close>

definition content :: "disk \<Rightarrow> string \<Rightarrow> string" where
  "content d p = (case d p of None \<Rightarrow> [] | Some s \<Rightarrow> s)"

definition originals :: "disk \<Rightarrow> disk \<Rightarrow> bool" where
  "originals d0 d \<longleftrightarrow> (\<forall>p\<in>set migrate_sources. d p = d0 p)"

definition backed_up :: "disk \<Rightarrow> disk \<Rightarrow> bool" where
  "backed_up d0 d \<longleftrightarrow> (\<forall>(s, b)\<in>set (zip migrate_sources migrate_backups). content d b = content d0 s)"

definition migrated :: "(ini \<Rightarrow> ini \<Rightarrow> unit res) \<Rightarrow> disk \<Rightarrow> disk \<Rightarrow> bool" where
  "migrated validate d0 d \<longleftrightarrow>
     (\<exists>config profiles. validate config profiles = Inr () \<and> d CONFIG_FILE = doc_text config \<and> d PROFILES_FILE = doc_text profiles)
     \<and> backed_up d0 d \<and> (\<forall>p\<in>set (tl migrate_sources). d p = d0 p \<or> d p = None)"

definition crash_safe :: "(ini \<Rightarrow> ini \<Rightarrow> unit res) \<Rightarrow> disk \<Rightarrow> disk \<Rightarrow> bool" where
  "crash_safe validate d0 d \<longleftrightarrow> originals d0 d \<or> migrated validate d0 d"

lemmas migrate_paths = migrate_sources_def migrate_backups_def migrate_ready_def migrate_candidate_def CONFIG_BACKUP_DIR_def CONFIG_FILE_def
  PROFILES_FILE_def LEGACY_AUTOTUNE_FILE_def LEGACY_SMB_FILE_def

lemma paths_distinct: "distinct (migrate_sources @ migrate_backups @ [migrate_ready, migrate_candidate, PROFILES_FILE])"
  by (simp add: migrate_paths)

lemma originals_other: "p \<notin> set migrate_sources \<Longrightarrow> originals d0 (d(p := v)) = originals d0 d"
  by (auto simp: originals_def)

lemma other_paths: "set migrate_backups \<inter> set migrate_sources = {}" "migrate_ready \<notin> set migrate_sources" "migrate_candidate \<notin> set migrate_sources"
  "PROFILES_FILE \<notin> set migrate_sources" "migrate_ready \<notin> set migrate_backups" "migrate_candidate \<notin> set migrate_backups"
  "PROFILES_FILE \<notin> set migrate_backups" "CONFIG_FILE \<notin> set migrate_backups" "CONFIG_FILE \<notin> set (tl migrate_sources)"
  using paths_distinct by (auto simp: migrate_sources_def)

lemma backed_up_other: "p \<notin> set migrate_backups \<Longrightarrow> backed_up d0 (d(p := v)) = backed_up d0 d"
proof -
  have "b \<in> set migrate_backups" if "(s, b) \<in> set (zip migrate_sources migrate_backups)" for s b using that by (rule set_zip_rightD)
  then show "p \<notin> set migrate_backups \<Longrightarrow> ?thesis" by (auto simp: backed_up_def content_def)
qed

definition honest :: "migrate_env \<Rightarrow> bool" where
  "honest E \<longleftrightarrow> (\<forall>p. me_open E p \<noteq> Some ENOENT)"

lemma read_content: "honest E \<Longrightarrow> read_bytes E d p = Inr s \<Longrightarrow> content d p = s"
  by (auto simp: honest_def read_bytes_def content_def split: option.splits if_splits)

lemma current_backed_up:
  assumes "honest E" "originals d0 d" "backups_current E d"
  shows "backed_up d0 d"
proof -
  have "content d b = content d0 s" if "(s, b) \<in> set (zip migrate_sources migrate_backups)" for s b
  proof -
    have "same_file E d s b" using assms(3) that by (auto simp: backups_current_def list_all_iff)
    then have "content d b = content d s" using read_content [OF assms(1)] by (auto simp: same_file_def split: sum.splits)
    moreover have "d s = d0 s" using assms(2) set_zip_leftD [OF that] by (simp add: originals_def)
    ultimately show ?thesis by (simp add: content_def)
  qed
  then show ?thesis by (auto simp: backed_up_def)
qed

lemma retire_step:
  assumes "migrated validate d0 (hd h)" "h \<noteq> []" "list_all (crash_safe validate d0) h"
    "list_all (\<lambda>(s, b). s \<in> set (tl migrate_sources)) ps" "retire_loop E ps st h = (st', h')"
  shows "h' \<noteq> [] \<and> list_all (crash_safe validate d0) h' \<and> migrated validate d0 (hd h')"
  using assms
proof (induction E ps st h rule: retire_loop.induct)
  case (2 E s b ps bad err h)
  have s: "s \<in> set (tl migrate_sources)" using "2.prems"(4) by simp
  then have "s \<noteq> CONFIG_FILE" "s \<noteq> PROFILES_FILE" "s \<notin> set migrate_backups"
    using other_paths paths_distinct by (auto simp: migrate_sources_def)
  then have m: "migrated validate d0 ((hd h)(s := None))" using "2.prems"(1) by (simp add: migrated_def backed_up_other)
  show ?case
  proof (cases "same_file E (hd h) s b")
    case True
    obtain x h1 where u: "unlink_file E s h = (x, h1)" by fastforce
    then have h1: "h1 = h \<or> h1 = (hd h)(s := None) # h" by (auto simp: unlink_file_def split: option.splits if_splits)
    have "retire_loop E ps (if x = None then (bad, same_file_errno E (hd h) s b) else (bad \<or> the x \<noteq> ENOENT, x)) h1 = (st', h')"
      using "2.prems"(5) True u by (cases x) (auto simp: Let_def)
    moreover have "migrated validate d0 (hd h1)" "h1 \<noteq> []" "list_all (crash_safe validate d0) h1"
      using h1 m "2.prems"(1-3) crash_safe_def [of validate d0 "(hd h)(s := None)"] by auto
    ultimately show ?thesis using "2.IH"(2,3) [OF refl] True u "2.prems"(4) by (cases x) auto
  next
    case False
    then show ?thesis using "2.IH"(1) [OF refl False] "2.prems" by (simp add: Let_def)
  qed
qed auto

lemma mig_retire: "keeps_safe (crash_safe validate d0) (migrated validate d0) (retire E) (\<lambda>_. migrated validate d0)"
proof (rule keeps_safeI)
  fix h r h'
  assume a: "h \<noteq> []" "list_all (crash_safe validate d0) h" "migrated validate d0 (hd h)" "retire E h = (r, h')"
  obtain st' where "retire_loop E (tl (zip migrate_sources migrate_backups)) (False, None) h = (st', h')"
    using a(4) by (auto simp: retire_def split: prod.splits)
  moreover have "list_all (\<lambda>(s, b). s \<in> set (tl migrate_sources)) (tl (zip migrate_sources migrate_backups))"
    by (simp add: migrate_sources_def migrate_backups_def)
  ultimately show "h' \<noteq> [] \<and> list_all (crash_safe validate d0) h' \<and> (case r of Inl _ \<Rightarrow> True | Inr _ \<Rightarrow> migrated validate d0 (hd h'))"
    using retire_step [OF a(3,1,2)] by (auto split: sum.split)
qed

definition ready_to_publish :: "disk \<Rightarrow> disk \<Rightarrow> bool" where
  "ready_to_publish d0 d \<longleftrightarrow> originals d0 d \<and> backed_up d0 d"

lemma ready_put:
  "ready_to_publish d0 d \<Longrightarrow> p \<in> {migrate_ready, migrate_candidate, PROFILES_FILE} \<Longrightarrow> ready_to_publish d0 (d(p := v))"
  using other_paths by (auto simp: ready_to_publish_def originals_other backed_up_other)

lemma ready_safe: "ready_to_publish d0 d \<Longrightarrow> crash_safe validate d0 d"
  by (simp add: ready_to_publish_def crash_safe_def)

lemma publish_config:
  assumes "ready_to_publish d0 d" "d PROFILES_FILE = doc_text profiles" "validate config profiles = Inr ()"
  shows "migrated validate d0 (d(CONFIG_FILE := doc_text config))"
proof -
  have "CONFIG_FILE \<noteq> PROFILES_FILE" by (simp add: CONFIG_FILE_def PROFILES_FILE_def)
  moreover have "d p = d0 p" if "p \<in> set (tl migrate_sources)" for p
    using assms(1) that by (auto simp: ready_to_publish_def originals_def migrate_sources_def)
  ultimately show ?thesis using assms other_paths unfolding migrated_def ready_to_publish_def
    by (auto simp: backed_up_other)
qed

lemma mig_publish:
  assumes "validate (fst docs) (snd docs) = Inr ()"
  shows "keeps_safe (crash_safe validate d0) (ready_to_publish d0) (publish_migrated E docs) (\<lambda>_. migrated validate d0)"
  unfolding publish_migrated_def
proof (rule mig_bind)
  let ?S = "crash_safe validate d0"
  show "keeps_safe ?S (ready_to_publish d0) (m_write E migrate_candidate (snd docs)) (\<lambda>_. ready_to_publish d0)"
    by (rule mig_write) (simp add: ready_put ready_safe)
  show "keeps_safe ?S (ready_to_publish d0)
     (m_bind (m_check (\<lambda>d. \<not> (access_file E d PROFILES_FILE = None \<and> \<not> same_file E d migrate_candidate PROFILES_FILE)) EEXIST)
        (\<lambda>_. m_bind (m_write E PROFILES_FILE (snd docs)) (\<lambda>_. m_bind (m_write E CONFIG_FILE (fst docs)) (\<lambda>_. m_bind (retire E) (\<lambda>_. sync_config E)))))
     (\<lambda>_. migrated validate d0)"
  proof (intro mig_bind)
    show "keeps_safe ?S (ready_to_publish d0)
      (m_check (\<lambda>d. \<not> (access_file E d PROFILES_FILE = None \<and> \<not> same_file E d migrate_candidate PROFILES_FILE)) EEXIST)
      (\<lambda>_. ready_to_publish d0)" by (rule mig_check)
    show "keeps_safe ?S (ready_to_publish d0) (m_write E PROFILES_FILE (snd docs)) (\<lambda>_ d. ready_to_publish d0 d \<and> d PROFILES_FILE = doc_text (snd docs))"
      by (rule mig_write) (simp add: ready_put ready_safe)
    show "keeps_safe ?S (\<lambda>d. ready_to_publish d0 d \<and> d PROFILES_FILE = doc_text (snd docs)) (m_write E CONFIG_FILE (fst docs)) (\<lambda>_. migrated validate d0)"
      by (rule mig_write) (use publish_config [of d0 _ "snd docs" validate "fst docs"] assms in \<open>auto simp: crash_safe_def\<close>)
    show "keeps_safe ?S (migrated validate d0) (retire E) (\<lambda>_. migrated validate d0)" by (rule mig_retire)
    show "keeps_safe ?S (migrated validate d0) (sync_config E) (\<lambda>_. migrated validate d0)" unfolding sync_config_def by (rule mig_res)
  qed
qed

lemma mig_backups:
  "set (map snd ps) \<inter> set migrate_sources = {} \<Longrightarrow> keeps_safe (crash_safe validate d0) (originals d0) (copy_backups E ps) (\<lambda>_. originals d0)"
proof (induction ps)
  case Nil
  show ?case by (simp add: mig_res)
next
  case (Cons p ps)
  obtain s t where p: "p = (s, t)" by fastforce
  have "keeps_safe (crash_safe validate d0) (originals d0) (copy_backup E s t) (\<lambda>_. originals d0)"
    by (rule mig_copy) (use Cons.prems p in \<open>auto simp: originals_other crash_safe_def\<close>)
  then show ?case using Cons p by (auto intro: mig_bind)
qed

lemma import_validated: "import_backups E validate d = Inr docs \<Longrightarrow> validate (fst docs) (snd docs) = Inr ()"
  by (auto simp: import_backups_def res_bind_def split: sum.splits)

lemma mig_legacy:
  assumes "honest E"
  shows "keeps_safe (crash_safe validate d0) (originals d0) (migrate_legacy E validate) (\<lambda>_. migrated validate d0)"
  unfolding migrate_legacy_def
proof (intro mig_bind)
  let ?S = "crash_safe validate d0"
  show "keeps_safe ?S (originals d0) (m_res (case me_mkdir E of Some e \<Rightarrow> if e = EEXIST then Inr () else Inl e | None \<Rightarrow> Inr ())) (\<lambda>_. originals d0)"
    by (rule mig_res)
  show "keeps_safe ?S (originals d0) (m_res (if me_is_dir E then Inr () else Inl ENOTDIR)) (\<lambda>_. originals d0)" by (rule mig_res)
  show "keeps_safe ?S (originals d0) (m_ask (\<lambda>d. sm_ini_read (me_open E migrate_ready) d migrate_ready False)) (\<lambda>_. originals d0)" by (rule mig_ask)
  show "keeps_safe ?S (originals d0)
     (if marker = [] then m_bind (m_check (\<lambda>d. access_file E d PROFILES_FILE \<noteq> None) EEXIST) (\<lambda>_. copy_backups E (zip migrate_sources migrate_backups))
      else m_bind (m_res (sm_ini_version marker)) (\<lambda>_. m_check (backups_current E) EBUSY)) (\<lambda>_. originals d0)" for marker
  proof (cases "marker = []")
    case True
    have "set (map snd (zip migrate_sources migrate_backups)) \<inter> set migrate_sources = {}"
      using other_paths(1) by (simp add: migrate_sources_def migrate_backups_def)
    from mig_bind [OF mig_check mig_backups [OF this]] show ?thesis using True by simp
  next
    case False
    have "keeps_safe ?S (originals d0) (m_res (sm_ini_version marker)) (\<lambda>_. originals d0)" by (rule mig_res)
    from mig_bind [OF this mig_check] show ?thesis using False by simp
  qed
  show "keeps_safe ?S (originals d0) (m_ask (import_backups E validate)) (\<lambda>docs d. originals d0 d \<and> validate (fst docs) (snd docs) = Inr ())"
    by (rule mig_ask) (auto dest: import_validated)
  show "keeps_safe ?S (\<lambda>d. originals d0 d \<and> validate (fst docs) (snd docs) = Inr ()) (m_check (backups_current E) EBUSY)
     (\<lambda>_ d. ready_to_publish d0 d \<and> validate (fst docs) (snd docs) = Inr ())" for docs
    by (rule mig_check) (auto simp: ready_to_publish_def current_backed_up [OF assms])
  show "keeps_safe ?S (\<lambda>d. ready_to_publish d0 d \<and> validate (fst docs) (snd docs) = Inr ())
     (m_when (marker = []) (m_bind (m_res (set_res marker ''config'' ''version'' ''2'')) (m_write E migrate_ready)))
     (\<lambda>_ d. ready_to_publish d0 d \<and> validate (fst docs) (snd docs) = Inr ())" for docs marker
  proof (intro mig_when)
    let ?P = "\<lambda>d. ready_to_publish d0 d \<and> validate (fst docs) (snd docs) = Inr ()"
    have "keeps_safe ?S ?P (m_res (set_res marker ''config'' ''version'' ''2'')) (\<lambda>_. ?P)" by (rule mig_res)
    then show "keeps_safe ?S ?P (m_bind (m_res (set_res marker ''config'' ''version'' ''2'')) (m_write E migrate_ready)) (\<lambda>_. ?P)"
      by (rule mig_bind) (rule mig_write, simp add: ready_put ready_safe)
  qed
  show "keeps_safe ?S (\<lambda>d. ready_to_publish d0 d \<and> validate (fst docs) (snd docs) = Inr ()) (publish_migrated E docs) (\<lambda>_. migrated validate d0)" for docs
  proof (cases "validate (fst docs) (snd docs) = Inr ()")
    case True
    then show ?thesis using mig_publish by (simp add: True)
  next
    case False
    then show ?thesis by (intro keeps_safeI) auto
  qed
qed

text \<open>
  C5. The old configuration is never lost on the way to the new one. At every moment of a migration, whatever the system answers and wherever
  it stops, either the old main file, the tuning file and the connections are untouched, or the new main file
  and profiles are complete, accepted documents, the backup directory holds every byte of the old files, and an old file
  is gone only if it is in the backup; and a migration that reports success has reached the second.
\<close>
theorem migration_crash_safe:
  assumes "honest E" "sm_ini_read (me_open E CONFIG_FILE) d CONFIG_FILE True = Inr current" "\<not> is_versioned current"
    "sm_config_migrate_files E validate [d] = (r, h)"
  shows "(\<forall>d'\<in>set h. originals d d' \<or> migrated validate d d') \<and> (r = Inr () \<longrightarrow> migrated validate d (hd h))"
proof -
  have "migrate_legacy E validate [d] = (r, h)"
    using assms(2-4) by (simp add: sm_config_migrate_files_def m_bind_def m_ask_def)
  from keeps_safeD [OF mig_legacy [OF assms(1)] this, of d]
  have "list_all (crash_safe validate d) h" "r = Inr () \<longrightarrow> migrated validate d (hd h)" by (auto simp: crash_safe_def originals_def)
  then show ?thesis by (simp add: list_all_iff crash_safe_def)
qed

text \<open>A system without errors; a console with only the old main file.\<close>

definition quiet_env :: migrate_env where
  "quiet_env = \<lparr>me_open = (\<lambda>_. None), me_access = (\<lambda>_. None), me_io = (\<lambda>_. io_ok), me_sync = (\<lambda>_. None), me_mkdir = None,
     me_is_dir = True, me_unlink = (\<lambda>_. None), me_json = (\<lambda>_. None)\<rparr>"

definition old_disk :: disk where "old_disk = [CONFIG_FILE \<mapsto> ''debug=0'' @ [NL]]"

theorem migration_crash_safe_witness:
  "honest quiet_env
   \<and> list_all (\<lambda>d'. originals old_disk d' \<or> migrated (\<lambda>_ _. Inr ()) old_disk d')
       (snd (sm_config_migrate_files quiet_env (\<lambda>_ _. Inr ()) [old_disk]))"
proof -
  have h: "honest quiet_env" by (simp add: honest_def quiet_env_def)
  let ?l = "\<lparr>il_raw = Some (''debug=0'' @ [NL]), il_section = [], il_key = Some ''debug'', il_value = ''0'', il_comment = None, il_header = False\<rparr>"
  have "parse_line True [] (''debug=0'' @ [NL]) = Some (Some ?l, [])" by code_simp
  moreover have "ini_raw (INI_LINE_MAX - 1) (''debug=0'' @ NL # []) = Inr (''debug=0'' @ [NL], [])"
    by (rule ini_raw_line) (simp_all add: plain_def INI_LINE_MAX_def)
  ultimately have "ini_lines True [] (''debug=0'' @ [NL]) [] = Inr [?l]"
    by (simp add: ini_lines.simps [of True] insert_line_def INI_MAX_LINES_def)
  then have r: "sm_ini_read (me_open quiet_env CONFIG_FILE) old_disk CONFIG_FILE True = Inr [?l]"
    by (simp add: sm_ini_read_def quiet_env_def old_disk_def INI_MAX_BYTES_def)
  have v: "\<not> is_versioned [?l]" by code_simp
  from migration_crash_safe [OF h r v prod.collapse [symmetric]] show ?thesis using h by (simp add: list_all_iff)
qed

end
