(* ===== verification/Spec2Isabelle.thy ===== *)
theory Spec2Isabelle
  imports SM_Prelude Path_Utils Slot_Index Title_State Path_State Image_Cache Install_Queue
    Text_Files Mount_Links Image_Index Game_Cache Manual Install_Service Game_Info Ini_File
    App_Db_Titles Json App_Db Kernel Mount_Device Image_Profile
    Stability Image_Unmount Image_Mount Image_Programs Image_Safety Image_Outcome Image_Reserved Config_Persistence Config_Migration
begin

text \<open>
  ShadowMountPlus is a background program for a game console. It scans directories and attached storage for games, mounts
  the disk images they are stored in, registers them with the console through its installer, and takes everything down again
  when a source disappears. This library models its C sources under \<^verbatim>\<open>src/\<close> (\<^verbatim>\<open>src/*.c\<close>, \<^verbatim>\<open>include/*.h\<close>).

  \<^bold>\<open>The parts of the program and how they work together.\<close>
  A scan (\<^verbatim>\<open>sm_scan.c\<close>) walks the configured roots (\<^verbatim>\<open>sm_config_mount.c\<close>, \<^verbatim>\<open>sm_config_file.c\<close>). An image file that has
  been left alone for long enough (\<^verbatim>\<open>sm_stability.c\<close>) is mounted (\<^verbatim>\<open>sm_image.c\<close>): a record of the image cache
  (\<^verbatim>\<open>sm_image_cache.c\<close>) is reserved, a device attached and published (\<^verbatim>\<open>sm_mount_device.c\<close>), the file system mounted and
  checked, and the record completed. Games found in directories and mounted images are identified (\<^verbatim>\<open>sm_gameinfo.c\<close>),
  remembered (\<^verbatim>\<open>sm_game_cache.c\<close>, \<^verbatim>\<open>sm_image_index.c\<close>, the tables of \<^verbatim>\<open>sm_path_state.c\<close> and \<^verbatim>\<open>sm_title_state.c\<close>), linked to
  their sources by small files (\<^verbatim>\<open>sm_filesystem.c\<close>) and handed to the install queue (\<^verbatim>\<open>sm_install_queue.c\<close>), which asks the
  console's database (\<^verbatim>\<open>sm_appdb.c\<close>) what became of them. Sources can also be named by hand (\<^verbatim>\<open>sm_manual.c\<close>).

  \<^bold>\<open>Theories.\<close>
  \<^item> \<open>SM_Prelude\<close>: machine integers, error numbers, C strings (\<^verbatim>\<open>strlcpy\<close>, \<^verbatim>\<open>snprintf\<close> with its bound, comparison), the FNV hash of
    \<^verbatim>\<open>include/sm_hash.h\<close>, loops over slots; generic lemmas and the collections of rules.
  \<^item> \<open>Path_Utils\<close>: \<^verbatim>\<open>sm_path_utils.c\<close>. \<open>Text_Files\<close>: the slice of stdio the text files are read and written with.
  \<^item> \<open>Slot_Index\<close>: the open-addressing index the two state tables share, as the locale \<open>slot_table\<close>; \<open>Title_State\<close> and \<open>Path_State\<close>
    interpret it for \<^verbatim>\<open>sm_title_state.c\<close> and \<^verbatim>\<open>sm_path_state.c\<close>. \<open>Title_State\<close> has the locale \<open>failure_ledger\<close> of the retry counters.
  \<^item> \<open>Image_Cache\<close>: \<^verbatim>\<open>sm_image_cache.c\<close>, every function; \<open>cache_run\<close> is what sequences of its operations reach.
  \<^item> \<open>Image_Index\<close>: \<^verbatim>\<open>sm_image_index.c\<close>, with the binary file as its header and two tables.
  \<^item> \<open>Game_Cache\<close>: \<^verbatim>\<open>sm_game_cache.c\<close>. \<open>Game_Info\<close>: \<^verbatim>\<open>sm_gameinfo.c\<close> with the SFO parser on bytes. \<open>Json\<close>: parsed JSON values.
  \<^item> \<open>App_Db_Titles\<close>, \<open>App_Db\<close>: \<^verbatim>\<open>sm_appdb.c\<close>, sorted title lists (locale \<open>three_way\<close>), retries, the cached list and its revisions.
  \<^item> \<open>Mount_Links\<close>: the link files of \<^verbatim>\<open>sm_filesystem.c\<close> (locale \<open>link_store\<close>). \<open>Manual\<close>: \<^verbatim>\<open>sm_manual.c\<close>. \<open>Ini_File\<close>: the documents of
    \<^verbatim>\<open>sm_config_file.c\<close>.
  \<^item> \<open>Install_Queue\<close>, \<open>Install_Service\<close>: \<^verbatim>\<open>sm_install_queue.c\<close>.
  \<^item> \<open>Kernel\<close>: the operating system as a record of functions that answer each call; programs are state transformers with a trace
    of calls, \<open>wp\<close> is their weakest precondition. \<open>Mount_Device\<close>: \<^verbatim>\<open>sm_mount_device.c\<close>. \<open>Stability\<close>: \<^verbatim>\<open>sm_stability.c\<close>.
  \<^item> \<open>Image_Profile\<close>, \<open>Image_Unmount\<close>, \<open>Image_Mount\<close>: \<^verbatim>\<open>sm_image.c\<close>: decisions, releases, mounts. \<open>Image_Programs\<close> has the locales
    \<open>kernel_programs\<close>, \<open>image_releases\<close>, \<open>image_mounts\<close>, \<open>image_programs\<close>: a relation that every kernel call and every step of the cache
    respects is respected by every program. \<open>Image_Safety\<close> interprets them for the cache, for faults and for reservations,
    \<open>Image_Outcome\<close> proves how a mount ends.
  \<^item> \<open>Image_Reserved\<close> interprets \<open>kernel_programs\<close> once more and proves that releases spare an image another thread is attaching.
  \<^item> \<open>Config_Migration\<close>: the rest of \<^verbatim>\<open>sm_config_file.c\<close>: the files of older versions are turned into the current two, step by step on the disk.
  \<^item> \<open>Languages\<close>: \<^verbatim>\<open>sm_l10n.c\<close>. \<open>Smb_Address\<close>: the checks and the parsing of addresses in \<^verbatim>\<open>sm_smb.c\<close>.
  \<^item> \<open>Config_Values\<close>, \<open>Config_Store\<close>: \<^verbatim>\<open>sm_config_mount.c\<close>: settings and their checks; the configuration in force, loading, reloading, the
    operations that write. \<open>Config_Persistence\<close>: a saved mode comes back at the next start, and what is in force is what the files hold.

  \<^bold>\<open>What is shown.\<close>
  The tables keep their invariants under every sequence of operations (one owner per image and mount point; unique
  handles; exact counters; lookup equals linear search; no NULL entry is used). Handles that are out of date are refused. Text and
  binary files are read back as they were written. A title is removed automatically only after a sustained absence. The install
  queue with pending work has a wake-up time, but for the case that is reported as a finding. A detach is asked of the kernel only for the unit that was attached. A mount ends
  recorded or without a reservation, the recursion over containers ends, and the image cache only takes its own steps
  (\<open>image_code_keeps_cache\<close>, which is why the theorems about programs start from a \<open>cache_run\<close>).
  An image that is being attached is released by its own thread only. The sources behind a path are those of the images that hold it, one inside the
  other. The SFO parser stays inside its buffer, with offsets that wrap as \<^verbatim>\<open>size_t\<close> does. The tables of an index file that was read are safe to use
  whatever the file held. Every configuration in force is in range; a refused change has no effect; the configuration follows the files; a migration
  that is cut off anywhere loses nothing; an accepted SMB address stays below the directory of its connection.

  \<^bold>\<open>Bounds and assumptions.\<close>
  Fuel is used once, in \<open>unmount_image_impl\<close>: \<open>NESTED_RELEASES\<close> is one more than the number of slots; that it is enough is
  proved from a rank of the sources that grows from an image to its container (\<open>sources_known\<close>). \<open>w_fault\<close> is set where the fuel
  would run out or NULL would be used, so that a theorem about it is a theorem of the code. Clocks stay below 2 to the 63,
  memory allocation succeeds, removing the index file succeeds, and a mutex makes the calls it protects one step; a program of \<^verbatim>\<open>sm_image.c\<close> runs
  without cache steps of other threads in between. Files with equal stamps are taken to be equal (\<open>stamps_tell\<close>). The kernel, sqlite, json-c and the console's installer are
  arguments. \<^verbatim>\<open>MNAMELEN\<close> is an argument with the bound the code asserts. Log lines are left out.

  \<^bold>\<open>Not modelled.\<close>
  \<^verbatim>\<open>pkg_helper_asset.c\<close> is binary data. The HTTP service (\<^verbatim>\<open>sm_api_service.c\<close>), the packages (\<^verbatim>\<open>sm_pkg*.c\<close>), the connection through libsmb2 in
  \<^verbatim>\<open>sm_smb.c\<close> and the updater are sockets and third-party protocols around the operations modelled here. The shell core, debugging and
  self-loading files patch another process at firmware addresses. Logging, icons, the fan and sockets are input and output.
  The scan pass, the scanner loop, overlays (\<^verbatim>\<open>sm_fakelib.c\<close>) and the game life cycle are directory walks and threads over the
  components. Of \<^verbatim>\<open>sm_filesystem.c\<close> only the link files are modelled.
\<close>

end
